(* ===== verification/Prelude.thy ===== *)
theory Prelude
  imports Main "HOL-Library.Word"
begin

text \<open>
  Shared vocabulary of the development: the C integer types as words, the status codes the
  drivers return, the bytes of a C string, the bits of a byte in the order the bit-banged buses
  send them, and the generic lemmas on lists and words that several components use.
\<close>

unbundle bit_operations_syntax

section \<open>Integer types and status codes\<close>

type_synonym u8 = "8 word"
type_synonym u16 = "16 word"
type_synonym u32 = "32 word"

text \<open>
  The status type \<^verbatim>\<open>GlobalType_t\<close> of \<^verbatim>\<open>main.h\<close>. FreeRTOS's \<^verbatim>\<open>BaseType_t\<close> with its
  values \<open>pdPASS\<close> and \<open>pdFAIL\<close> is kept as a number, since the drivers combine results with
  \<^verbatim>\<open>&=\<close> and in places return it where another status type is expected.
\<close>

datatype GlobalType_t = GLOBAL_OK | GLOBAL_ERROR

type_synonym BaseType_t = u32

abbreviation (input) pdPASS :: BaseType_t where "pdPASS \<equiv> 1"
abbreviation (input) pdFAIL :: BaseType_t where "pdFAIL \<equiv> 0"

datatype HAL_StatusTypeDef = HAL_OK | HAL_ERROR | HAL_BUSY | HAL_TIMEOUT

named_theorems hw_defs \<open>definitions of the drivers' primitive hardware accesses\<close>
named_theorems frame_simps \<open>fields an operation leaves alone\<close>

section \<open>Words\<close>

lemma unat_add_one_less:
  fixes x y :: "'a::len word"
  assumes "x < y"
  shows "unat (x + 1) = Suc (unat x)"
proof -
  have "x + 1 \<noteq> 0"
    using assms by (metis add_diff_cancel add.commute diff_0 le_minus_one_simps(2)
        linorder_not_less word_n1_ge)
  then show ?thesis by (metis add.commute unatSuc)
qed

lemma unat_sub_one:
  fixes x :: "'a::len word"
  assumes "x \<noteq> 0"
  shows "unat (x - 1) = unat x - 1"
  using assms by (simp add: unat_minus_one)

lemma word_less_unat:
  fixes x y :: "'a::len word"
  shows "x < y \<longleftrightarrow> unat x < unat y"
  by (simp add: word_less_nat_alt)

lemma unat_ucast_up:
  fixes w :: "'a::len word"
  assumes "LENGTH('a) \<le> LENGTH('b::len)"
  shows "unat (ucast w :: 'b word) = unat w"
proof -
  have "unat w < 2 ^ LENGTH('b)"
    using assms by (meson unsigned_less order_less_le_trans power_increasing one_le_numeral)
  then show ?thesis by (simp add: unsigned_ucast_eq take_bit_nat_eq_self)
qed

lemma unat_eq_one: "unat (w :: 'a::len word) = 1 \<longleftrightarrow> w = 1"
  by (metis unat_1 word_unat_eq_iff)

lemma mask_0xff: "(0xff :: u32) = mask 8"
  by (simp add: mask_eq_exp_minus_1)

section \<open>Lists\<close>

lemma map_nth_upt_take:
  assumes "n \<le> length xs"
  shows "map (\<lambda>i. xs ! i) [0..<n] = take n xs"
  using assms by (intro nth_equalityI) auto

text \<open>A C loop that stores \<open>f 0\<close>, \<open>f 1\<close>, ... through a state transformer is a fold over its indices.\<close>

lemma fold_upt_nth:
  assumes "n \<le> length xs"
  shows "fold (\<lambda>i s. f (xs ! i) s) [0..<n] s = fold f (take n xs) s"
proof -
  have "fold (\<lambda>i s. f (xs ! i) s) [0..<n] s = fold f (map (\<lambda>i. xs ! i) [0..<n]) s"
    by (simp add: fold_map comp_def)
  then show ?thesis using assms by (simp add: map_nth_upt_take)
qed

section \<open>C strings\<close>

definition str_bytes :: "string \<Rightarrow> u8 list" where
  "str_bytes s = map (\<lambda>c. word_of_nat (of_char c)) s"

text \<open>The characters of a NUL-terminated array, up to its terminator.\<close>

definition c_str :: "u8 list \<Rightarrow> u8 list" where
  "c_str buf = takeWhile (\<lambda>c. c \<noteq> 0) buf"

text \<open>\<^verbatim>\<open>strchr\<close>: the index of the first occurrence before the terminator.\<close>

definition strchr :: "u8 list \<Rightarrow> u8 \<Rightarrow> nat option" where
  "strchr buf c =
     (let s = c_str buf; n = length (takeWhile (\<lambda>x. x \<noteq> c) s)
      in if n < length s then Some n else None)"

text \<open>\<^verbatim>\<open>strncmp(p, q, n) == 0\<close>\<close>

definition strncmp_eq :: "u8 list \<Rightarrow> u8 list \<Rightarrow> nat \<Rightarrow> bool" where
  "strncmp_eq p q n \<longleftrightarrow> take n (c_str p) = take n (c_str q)"

lemma length_str_bytes [simp]: "length (str_bytes s) = length s"
  by (simp add: str_bytes_def)

lemma c_str_no_nul: "0 \<notin> set xs \<Longrightarrow> c_str (xs @ 0 # ys) = xs"
  unfolding c_str_def by (subst takeWhile_append2) auto

text \<open>The decimal digits of a number, as \<^verbatim>\<open>%d\<close> prints them.\<close>

fun dec_str :: "nat \<Rightarrow> u8 list" where
  "dec_str n = (if n < 10 then [word_of_nat (48 + n)]
                else dec_str (n div 10) @ [word_of_nat (48 + n mod 10)])"

declare dec_str.simps [simp del]

lemma length_dec_str: "n < 10 ^ Suc k \<Longrightarrow> 0 < length (dec_str n) \<and> length (dec_str n) \<le> Suc k"
proof (induction k arbitrary: n)
  case 0
  then show ?case by (simp add: dec_str.simps [of n])
next
  case (Suc k)
  have "n div 10 < 10 ^ Suc k" using Suc.prems by (simp add: div_less_iff_less_mult mult.commute)
  from Suc.IH [OF this] show ?case by (simp add: dec_str.simps [of n])
qed

section \<open>The bits of a byte, most significant first\<close>

definition byte_bits :: "u8 \<Rightarrow> bool list" where
  "byte_bits b = map (\<lambda>i. bit b (7 - i)) [0..<8]"

text \<open>A byte shifted in bit by bit, most significant bit first.\<close>

definition shift_in :: "u8 \<Rightarrow> bool \<Rightarrow> u8" where
  "shift_in v b = push_bit 1 v OR (if b then 1 else 0)"

definition bits_byte :: "bool list \<Rightarrow> u8" where
  "bits_byte bs = foldl shift_in 0 bs"

lemma length_byte_bits [simp]: "length (byte_bits b) = 8"
  by (simp add: byte_bits_def)

lemma byte_bits_list:
  "byte_bits b = [bit b 7, bit b 6, bit b 5, bit b 4, bit b 3, bit b 2, bit b 1, bit b 0]"
  by (simp add: byte_bits_def upt_rec numeral_eq_Suc)

lemma nth_byte_bits: "i < 8 \<Longrightarrow> byte_bits b ! i \<longleftrightarrow> bit b (7 - i)"
  unfolding byte_bits_def by (subst nth_map) (simp_all only: length_upt nth_upt add_0 minus_nat.diff_0)

lemma bit_shift_in:
  "bit (shift_in v b) n \<longleftrightarrow> n < 8 \<and> (if n = 0 then b else bit v (n - 1))"
  by (cases n) (auto simp: shift_in_def bit_or_iff bit_push_bit_iff bit_1_iff simp del: push_bit_of_1
      push_bit_Suc push_bit_numeral dest: bit_imp_le_length)

lemma bit_foldl_shift_in:
  "n < 8 \<Longrightarrow> bit (foldl shift_in v bs) n
     \<longleftrightarrow> (if n < length bs then rev bs ! n else bit v (n - length bs))"
proof (induction bs arbitrary: n rule: rev_induct)
  case Nil
  then show ?case by simp
next
  case (snoc b bs)
  then show ?case by (cases n) (auto simp: bit_shift_in)
qed

lemma bits_byte_bits [simp]: "bits_byte (byte_bits b) = b"
proof (rule bit_word_eqI)
  fix n assume "n < LENGTH(8)"
  then have n: "n < 8" by simp
  then have "bit (bits_byte (byte_bits b)) n \<longleftrightarrow> rev (byte_bits b) ! n"
    by (simp add: bits_byte_def bit_foldl_shift_in)
  also have "\<dots> \<longleftrightarrow> bit b n"
    using n by (simp add: rev_nth nth_byte_bits)
  finally show "bit (bits_byte (byte_bits b)) n \<longleftrightarrow> bit b n" .
qed

lemma byte_bits_byte [simp]:
  assumes "length bs = 8"
  shows "byte_bits (bits_byte bs) = bs"
proof (rule nth_equalityI)
  show "length (byte_bits (bits_byte bs)) = length bs" using assms by simp
  fix i assume "i < length (byte_bits (bits_byte bs))"
  then have "i < 8" and "7 - i < 8" by simp_all
  then show "byte_bits (bits_byte bs) ! i = bs ! i"
    using assms by (simp add: nth_byte_bits bits_byte_def bit_foldl_shift_in rev_nth)
qed

lemma byte_bits_inject [simp]: "byte_bits a = byte_bits b \<longleftrightarrow> a = b"
  by (metis bits_byte_bits)

text \<open>The serial port's data register is nine bits wide: a byte passes unchanged.\<close>

lemma ucast_mask9 [simp]: "(ucast (c :: u8) :: u16) AND 0x1FF = ucast c"
proof (rule bit_word_eqI)
  fix n assume "n < LENGTH(16)"
  show "bit ((ucast c :: u16) AND 0x1FF) n \<longleftrightarrow> bit (ucast c :: u16) n"
  proof -
    have m: "(0x1FF :: u16) = mask 9" by (simp add: mask_eq_exp_minus_1)
    show ?thesis
      unfolding m by (auto simp: bit_simps dest: bit_imp_le_length)
  qed
qed

end
