(* ===== verification/Circular_Buffer.thy ===== *)
theory Circular_Buffer
  imports Prelude
begin

text \<open>
  The ring buffer macros of \<^verbatim>\<open>UsrParts/logger/circular_buffer.h\<close>, used by the logger and by the
  CAN driver. The buffer is refined to a bounded first-in first-out queue; the interface the
  clients rely on is the locale \<open>bounded_fifo\<close>, interpreted on the macros at the end.
\<close>

section \<open>The macros\<close>

record CircularBuffer =
  cb_size :: u32
  cb_currentSize :: u32
  cb_head :: u32
  cb_tail :: u32
  cb_data :: "u8 list"

definition CircularBufferSize :: "CircularBuffer \<Rightarrow> u32" where
  "CircularBufferSize c = cb_currentSize c"

definition CircularBufferIsEmpty :: "CircularBuffer \<Rightarrow> bool" where
  "CircularBufferIsEmpty c \<longleftrightarrow> cb_currentSize c = 0"

definition CircularBufferHasData :: "CircularBuffer \<Rightarrow> bool" where
  "CircularBufferHasData c \<longleftrightarrow> cb_currentSize c \<noteq> 0"

definition CircularBufferIsFull :: "CircularBuffer \<Rightarrow> bool" where
  "CircularBufferIsFull c \<longleftrightarrow> cb_currentSize c \<ge> cb_size c"

definition CircularBufferIsNotFull :: "CircularBuffer \<Rightarrow> bool" where
  "CircularBufferIsNotFull c \<longleftrightarrow> cb_currentSize c < cb_size c"

definition CircularBufferInit :: "u32 \<Rightarrow> u8 list \<Rightarrow> CircularBuffer" where
  "CircularBufferInit s d =
     \<lparr>cb_size = s, cb_currentSize = 0, cb_head = 0, cb_tail = 0, cb_data = d\<rparr>"

definition CircularBufferPut :: "u8 \<Rightarrow> CircularBuffer \<Rightarrow> CircularBuffer" where
  "CircularBufferPut c cb =
     (if cb_currentSize cb < cb_size cb
      then let cb = cb\<lparr>cb_data := (cb_data cb)[unat (cb_head cb) := c],
                       cb_head := cb_head cb + 1\<rparr>;
               cb = (if cb_head cb = cb_size cb then cb\<lparr>cb_head := 0\<rparr> else cb)
           in cb\<lparr>cb_currentSize := cb_currentSize cb + 1\<rparr>
      else cb)"

text \<open>\<^verbatim>\<open>CircularBufferGet(cb, c)\<close> assigns \<open>c\<close> only when there is data: \<open>None\<close> otherwise.\<close>

definition CircularBufferGet :: "CircularBuffer \<Rightarrow> u8 option \<times> CircularBuffer" where
  "CircularBufferGet cb =
     (if cb_currentSize cb \<noteq> 0
      then let cb = cb\<lparr>cb_currentSize := cb_currentSize cb - 1\<rparr>;
               c = cb_data cb ! unat (cb_tail cb);
               cb = cb\<lparr>cb_tail := cb_tail cb + 1\<rparr>;
               cb = (if cb_tail cb = cb_size cb then cb\<lparr>cb_tail := 0\<rparr> else cb)
           in (Some c, cb)
      else (None, cb))"

definition CircularBufferFlush :: "CircularBuffer \<Rightarrow> CircularBuffer" where
  "CircularBufferFlush cb = cb\<lparr>cb_currentSize := 0, cb_head := 0, cb_tail := 0\<rparr>"

section \<open>Invariant and abstraction\<close>

definition cb_inv :: "CircularBuffer \<Rightarrow> bool" where
  "cb_inv cb \<longleftrightarrow> 0 < cb_size cb \<and> length (cb_data cb) = unat (cb_size cb)
     \<and> cb_currentSize cb \<le> cb_size cb \<and> cb_tail cb < cb_size cb
     \<and> unat (cb_head cb) = (unat (cb_tail cb) + unat (cb_currentSize cb)) mod unat (cb_size cb)"

definition cb_list :: "CircularBuffer \<Rightarrow> u8 list" where
  "cb_list cb = map (\<lambda>i. cb_data cb ! ((unat (cb_tail cb) + i) mod unat (cb_size cb)))
                    [0..<unat (cb_currentSize cb)]"

definition cb_cap :: "CircularBuffer \<Rightarrow> nat" where
  "cb_cap cb = unat (cb_size cb)"

lemma cb_inv_size_pos: "cb_inv cb \<Longrightarrow> 0 < unat (cb_size cb)"
  by (simp add: cb_inv_def word_less_nat_alt)

lemma length_cb_list: "length (cb_list cb) = unat (cb_currentSize cb)"
  by (simp add: cb_list_def)

text \<open>Every access of the macros stays inside the array.\<close>

lemma cb_inv_bounds:
  assumes "cb_inv cb"
  shows "unat (cb_head cb) < length (cb_data cb)" and "unat (cb_tail cb) < length (cb_data cb)"
  using assms cb_inv_size_pos [OF assms] by (auto simp: cb_inv_def word_less_nat_alt)

lemma cb_inv_init: "0 < s \<Longrightarrow> length d = unat s \<Longrightarrow> cb_inv (CircularBufferInit s d)"
  by (simp add: cb_inv_def CircularBufferInit_def)

lemma cb_list_init [simp]: "cb_list (CircularBufferInit s d) = []"
  by (simp add: cb_list_def CircularBufferInit_def)

lemma cb_cap_init [simp]: "cb_cap (CircularBufferInit s d) = unat s"
  by (simp add: cb_cap_def CircularBufferInit_def)

lemma wrap_step:
  fixes h :: "'a::len word"
  assumes "h < s"
  shows "unat (if h + 1 = s then 0 else h + 1) = Suc (unat h) mod unat s"
proof -
  have h: "unat (h + 1) = Suc (unat h)" using assms by (rule unat_add_one_less)
  have lt: "unat h < unat s" using assms by (simp add: word_less_nat_alt)
  show ?thesis
  proof (cases "h + 1 = s")
    case True
    then have "unat s = Suc (unat h)" using h by simp
    then show ?thesis using True by simp
  next
    case False
    then have "unat (h + 1) \<noteq> unat s" by (simp add: word_unat_eq_iff)
    then show ?thesis using h lt False by simp
  qed
qed

lemma cb_put_fields:
  assumes "cb_currentSize cb < cb_size cb"
  shows "cb_size (CircularBufferPut c cb) = cb_size cb"
    and "cb_tail (CircularBufferPut c cb) = cb_tail cb"
    and "cb_currentSize (CircularBufferPut c cb) = cb_currentSize cb + 1"
    and "cb_data (CircularBufferPut c cb) = (cb_data cb)[unat (cb_head cb) := c]"
    and "cb_head (CircularBufferPut c cb)
         = (if cb_head cb + 1 = cb_size cb then 0 else cb_head cb + 1)"
  using assms by (simp_all add: CircularBufferPut_def Let_def)

lemma cb_put_full: "\<not> cb_currentSize cb < cb_size cb \<Longrightarrow> CircularBufferPut c cb = cb"
  by (simp add: CircularBufferPut_def)

lemma cb_inv_head_less: "cb_inv cb \<Longrightarrow> cb_head cb < cb_size cb"
  using cb_inv_bounds(1) [of cb] by (simp add: cb_inv_def word_less_nat_alt)

lemma cb_put_inv: "cb_inv cb \<Longrightarrow> cb_inv (CircularBufferPut c cb)"
proof (cases "cb_currentSize cb < cb_size cb")
  case True
  assume inv: "cb_inv cb"
  have n: "unat (cb_currentSize cb + 1) = Suc (unat (cb_currentSize cb))"
    using True by (rule unat_add_one_less)
  have le: "cb_currentSize cb + 1 \<le> cb_size cb"
    using True n by (simp add: word_le_nat_alt word_less_nat_alt)
  have "unat (cb_head (CircularBufferPut c cb)) = Suc (unat (cb_head cb)) mod unat (cb_size cb)"
    using wrap_step [OF cb_inv_head_less [OF inv]] by (simp add: cb_put_fields [OF True])
  also have "\<dots> = (unat (cb_tail cb) + unat (cb_currentSize cb + 1)) mod unat (cb_size cb)"
    using inv n by (simp add: cb_inv_def mod_Suc_eq)
  finally show ?thesis
    using inv le by (simp add: cb_inv_def cb_put_fields [OF True])
qed (simp add: cb_put_full)

lemma cb_index_distinct:
  fixes t i n s :: nat
  assumes "i < n" and "n < s"
  shows "(t + i) mod s \<noteq> (t + n) mod s"
proof
  assume "(t + i) mod s = (t + n) mod s"
  then have "s dvd (t + n) - (t + i)" using assms by (metis mod_eq_dvd_iff_nat add_left_mono less_imp_le)
  then show False using assms by (auto dest: dvd_imp_le)
qed

lemma cb_put_list:
  assumes inv: "cb_inv cb" and room: "length (cb_list cb) < cb_cap cb"
  shows "cb_list (CircularBufferPut c cb) = cb_list cb @ [c]"
proof -
  have lt: "cb_currentSize cb < cb_size cb"
    using room by (simp add: cb_cap_def word_less_nat_alt length_cb_list)
  let ?s = "unat (cb_size cb)" and ?t = "unat (cb_tail cb)" and ?n = "unat (cb_currentSize cb)"
  have n: "unat (cb_currentSize cb + 1) = Suc ?n" using lt by (rule unat_add_one_less)
  have head: "unat (cb_head cb) = (?t + ?n) mod ?s" using inv by (simp add: cb_inv_def)
  have bound: "(?t + ?n) mod ?s < length (cb_data cb)"
    using cb_inv_bounds(1) [OF inv] head by simp
  have "(cb_data cb)[(?t + ?n) mod ?s := c] ! ((?t + i) mod ?s)
        = cb_data cb ! ((?t + i) mod ?s)" if "i < ?n" for i
    using cb_index_distinct [OF that, of ?s ?t] lt by (simp add: word_less_nat_alt)
  then show ?thesis
    using bound by (simp add: cb_list_def cb_put_fields [OF lt] n head)
qed

lemma cb_put_cap [simp]: "cb_cap (CircularBufferPut c cb) = cb_cap cb"
  by (simp add: cb_cap_def CircularBufferPut_def Let_def)

lemma cb_get_fields:
  assumes "cb_currentSize cb \<noteq> 0"
  shows "fst (CircularBufferGet cb) = Some (cb_data cb ! unat (cb_tail cb))"
    and "cb_size (snd (CircularBufferGet cb)) = cb_size cb"
    and "cb_head (snd (CircularBufferGet cb)) = cb_head cb"
    and "cb_data (snd (CircularBufferGet cb)) = cb_data cb"
    and "cb_currentSize (snd (CircularBufferGet cb)) = cb_currentSize cb - 1"
    and "cb_tail (snd (CircularBufferGet cb))
         = (if cb_tail cb + 1 = cb_size cb then 0 else cb_tail cb + 1)"
  using assms by (simp_all add: CircularBufferGet_def Let_def)

lemma cb_get_empty: "cb_currentSize cb = 0 \<Longrightarrow> CircularBufferGet cb = (None, cb)"
  by (simp add: CircularBufferGet_def)

lemma cb_get_inv: "cb_inv cb \<Longrightarrow> cb_inv (snd (CircularBufferGet cb))"
proof (cases "cb_currentSize cb = 0")
  case False
  assume inv: "cb_inv cb"
  let ?s = "unat (cb_size cb)" and ?t = "unat (cb_tail cb)" and ?n = "unat (cb_currentSize cb)"
  have tl: "cb_tail cb < cb_size cb" using inv by (simp add: cb_inv_def)
  have n: "unat (cb_currentSize cb - 1) = ?n - 1" and pos: "0 < ?n"
    using False by (simp_all add: unat_sub_one unat_gt_0)
  have tail: "unat (cb_tail (snd (CircularBufferGet cb))) = Suc ?t mod ?s"
    using wrap_step [OF tl] by (simp add: cb_get_fields [OF False])
  have "(Suc ?t mod ?s + (?n - 1)) mod ?s = (?t + ?n) mod ?s"
  proof -
    have "(Suc ?t mod ?s + (?n - 1)) mod ?s = (Suc ?t + (?n - 1)) mod ?s"
      by (rule mod_add_left_eq)
    then show ?thesis using pos by simp
  qed
  moreover have "Suc ?t mod ?s < ?s" using cb_inv_size_pos [OF inv] by simp
  ultimately show ?thesis
    using inv n tail pos
    by (auto simp: cb_inv_def cb_get_fields(2-5) [OF False] word_less_nat_alt word_le_nat_alt)
qed (simp add: cb_get_empty)

lemma cb_get_list:
  assumes inv: "cb_inv cb"
  shows "CircularBufferGet cb = (None, cb) \<and> cb_list cb = []
       \<or> (\<exists>x xs cb'. cb_list cb = x # xs \<and> CircularBufferGet cb = (Some x, cb') \<and> cb_list cb' = xs)"
proof (cases "cb_currentSize cb = 0")
  case True
  then show ?thesis by (simp add: cb_get_empty cb_list_def)
next
  case False
  let ?s = "unat (cb_size cb)" and ?t = "unat (cb_tail cb)" and ?n = "unat (cb_currentSize cb)"
  let ?cb = "snd (CircularBufferGet cb)"
  have tl: "cb_tail cb < cb_size cb" using inv by (simp add: cb_inv_def)
  obtain m where m: "?n = Suc m" using False by (cases ?n) (auto simp: unat_eq_zero)
  have n: "unat (cb_currentSize cb - 1) = m" using False m by (simp add: unat_sub_one)
  have tail: "unat (cb_tail ?cb) = Suc ?t mod ?s"
    using wrap_step [OF tl] by (simp add: cb_get_fields [OF False])
  have "cb_list cb = cb_data cb ! (?t mod ?s)
          # map (\<lambda>i. cb_data cb ! ((?t + Suc i) mod ?s)) [0..<m]"
    by (simp add: cb_list_def m map_upt_Suc del: upt_Suc)
  moreover have "?t mod ?s = ?t" using tl by (simp add: word_less_nat_alt)
  moreover have "cb_list ?cb = map (\<lambda>i. cb_data cb ! ((?t + Suc i) mod ?s)) [0..<m]"
    unfolding cb_list_def tail cb_get_fields(2,4,5) [OF False] n by (simp add: mod_add_left_eq)
  moreover have "CircularBufferGet cb = (Some (cb_data cb ! ?t), ?cb)"
    by (metis cb_get_fields(1) [OF False] prod.collapse)
  ultimately show ?thesis by metis
qed

lemma cb_get_cap [simp]: "cb_cap (snd (CircularBufferGet cb)) = cb_cap cb"
  by (simp add: cb_cap_def CircularBufferGet_def Let_def)

lemma cb_list_bounded: "cb_inv cb \<Longrightarrow> length (cb_list cb) \<le> cb_cap cb"
  by (simp add: cb_inv_def cb_cap_def word_le_nat_alt length_cb_list)

lemma cb_flush_inv: "cb_inv cb \<Longrightarrow> cb_inv (CircularBufferFlush cb)"
  by (simp add: cb_inv_def CircularBufferFlush_def)

lemma cb_flush_list [simp]: "cb_list (CircularBufferFlush cb) = []"
  by (simp add: cb_list_def CircularBufferFlush_def)

section \<open>The interface\<close>

text \<open>
  A bounded first-in first-out queue: what the users of the macros rely on. Putting into a full
  buffer loses the element; the clients' lemmas are about whole strings of bytes.
\<close>

locale bounded_fifo =
  fixes put :: "'a \<Rightarrow> 'q \<Rightarrow> 'q"
    and get :: "'q \<Rightarrow> 'a option \<times> 'q"
    and contents :: "'q \<Rightarrow> 'a list"
    and cap :: "'q \<Rightarrow> nat"
    and inv :: "'q \<Rightarrow> bool"
  assumes put_inv: "inv q \<Longrightarrow> inv (put x q)"
    and put_cap: "cap (put x q) = cap q"
    and put_room: "inv q \<Longrightarrow> length (contents q) < cap q \<Longrightarrow> contents (put x q) = contents q @ [x]"
    and put_full: "inv q \<Longrightarrow> length (contents q) \<ge> cap q \<Longrightarrow> put x q = q"
    and get_inv: "inv q \<Longrightarrow> inv (snd (get q))"
    and get_cap: "cap (snd (get q)) = cap q"
    and get_cases: "inv q \<Longrightarrow> get q = (None, q) \<and> contents q = []
          \<or> (\<exists>x xs q'. contents q = x # xs \<and> get q = (Some x, q') \<and> contents q' = xs)"
    and bounded: "inv q \<Longrightarrow> length (contents q) \<le> cap q"
begin

lemma get_Nil: "inv q \<Longrightarrow> contents q = [] \<Longrightarrow> get q = (None, q)"
  using get_cases by fastforce

lemma get_Cons:
  "inv q \<Longrightarrow> contents q = x # xs \<Longrightarrow> \<exists>q'. get q = (Some x, q') \<and> contents q' = xs \<and> inv q'"
  using get_cases [of q] get_inv [of q] by auto

lemma get_Some:
  "inv q \<Longrightarrow> get q = (Some x, q') \<Longrightarrow> contents q = x # contents q' \<and> inv q'"
  using get_cases [of q] get_inv [of q] by auto

lemma get_None: "inv q \<Longrightarrow> get q = (None, q') \<Longrightarrow> contents q = [] \<and> q' = q"
  using get_cases [of q] by auto

lemma put_take:
  "inv q \<Longrightarrow> contents (put x q) = take (cap q) (contents q @ [x])"
  using bounded [of q] put_room [of q x] put_full [of q x]
  by (cases "length (contents q) < cap q") auto

lemma puts_inv: "inv q \<Longrightarrow> inv (fold put xs q)"
  by (induction xs arbitrary: q) (auto intro: put_inv)

lemma puts_cap: "cap (fold put xs q) = cap q"
  by (induction xs arbitrary: q) (auto simp: put_cap)

lemma puts_room:
  "inv q \<Longrightarrow> length (contents q) + length xs \<le> cap q \<Longrightarrow> contents (fold put xs q) = contents q @ xs"
proof (induction xs arbitrary: q)
  case Nil
  then show ?case by simp
next
  case (Cons x xs)
  then have "contents (put x q) = contents q @ [x]" by (simp add: put_room)
  with Cons show ?case by (simp add: put_inv put_cap)
qed

text \<open>The bytes kept are always a prefix of what was offered: overflow drops the newest.\<close>

lemma puts_take: "inv q \<Longrightarrow> contents (fold put xs q) = take (cap q) (contents q @ xs)"
proof (induction xs arbitrary: q)
  case Nil
  then show ?case using bounded by simp
next
  case (Cons x xs)
  have "contents (fold put (x # xs) q) = take (cap q) (take (cap q) (contents q @ [x]) @ xs)"
    using Cons by (simp add: put_inv put_cap put_take)
  also have "\<dots> = take (cap q) (contents q @ x # xs)"
    using bounded [OF Cons.prems]
    by (cases "length (contents q) < cap q") auto
  finally show ?case .
qed

end

interpretation cbq: bounded_fifo CircularBufferPut CircularBufferGet cb_list cb_cap cb_inv
proof
  fix q :: CircularBuffer and x
  assume "cb_inv q" and "cb_cap q \<le> length (cb_list q)"
  then show "CircularBufferPut x q = q"
    by (intro cb_put_full) (simp add: cb_cap_def word_less_nat_alt length_cb_list)
qed (use cb_list_bounded cb_get_list in \<open>auto intro: cb_put_inv cb_get_inv cb_put_list\<close>)

text \<open>Fetching up to \<open>n\<close> times.\<close>

fun cb_gets :: "nat \<Rightarrow> CircularBuffer \<Rightarrow> u8 list \<times> CircularBuffer" where
  "cb_gets 0 cb = ([], cb)"
| "cb_gets (Suc n) cb =
     (case CircularBufferGet cb of
        (None, cb') \<Rightarrow> ([], cb')
      | (Some x, cb') \<Rightarrow> (let (xs, cb'') = cb_gets n cb' in (x # xs, cb'')))"

lemma cb_gets_list:
  "cb_inv cb \<Longrightarrow> fst (cb_gets n cb) = take n (cb_list cb)
     \<and> cb_list (snd (cb_gets n cb)) = drop n (cb_list cb) \<and> cb_inv (snd (cb_gets n cb))"
proof (induction n arbitrary: cb)
  case 0
  then show ?case by simp
next
  case (Suc n)
  show ?case
  proof (cases "cb_list cb")
    case Nil
    then show ?thesis using cbq.get_Nil [OF Suc.prems Nil] Suc.prems by simp
  next
    case (Cons x xs)
    then obtain cb' where "CircularBufferGet cb = (Some x, cb')" "cb_list cb' = xs" "cb_inv cb'"
      using cbq.get_Cons [OF Suc.prems] by blast
    with Cons Suc.IH show ?thesis by (simp add: split_beta)
  qed
qed

section \<open>Properties\<close>

text \<open>
  C26. The ring buffer is a bounded first-in first-out queue: putting any bytes appends those that
  fit, and getting n bytes returns and removes the n oldest.
\<close>

theorem ring_buffer_fifo:
  assumes "cb_inv cb"
  shows "cb_list (fold CircularBufferPut xs cb) = take (cb_cap cb) (cb_list cb @ xs)
    \<and> fst (cb_gets n (fold CircularBufferPut xs cb)) = take n (take (cb_cap cb) (cb_list cb @ xs))
    \<and> cb_list (snd (cb_gets n (fold CircularBufferPut xs cb))) = drop n (take (cb_cap cb) (cb_list cb @ xs))"
  using cbq.puts_take [OF assms] cb_gets_list [OF cbq.puts_inv [OF assms]] by simp

theorem ring_buffer_fifo_witness:
  "fst (cb_gets 2 (fold CircularBufferPut [1, 2, 3, 4] (CircularBufferInit 3 [0, 0, 0]))) = [1, 2]"
proof -
  have "cb_inv (CircularBufferInit 3 [0, 0, 0])" by (rule cb_inv_init) simp_all
  from ring_buffer_fifo [OF this, of "[1, 2, 3, 4]" 2] show ?thesis by simp
qed

text \<open>
  Both indices of a well-formed ring buffer stay inside the storage, every operation keeps it
  well formed, putting into a full buffer and getting from an empty one change nothing.
\<close>

lemma ring_buffer_in_bounds:
  assumes "cb_inv cb"
  shows "unat (cb_head cb) < length (cb_data cb) \<and> unat (cb_tail cb) < length (cb_data cb)
    \<and> cb_inv (CircularBufferPut c cb) \<and> cb_inv (snd (CircularBufferGet cb)) \<and> cb_inv (CircularBufferFlush cb)
    \<and> (CircularBufferIsFull cb \<longrightarrow> CircularBufferPut c cb = cb)
    \<and> (CircularBufferIsEmpty cb \<longrightarrow> CircularBufferGet cb = (None, cb))"
proof -
  have "cb_inv (CircularBufferFlush cb)"
    using assms by (simp add: cb_inv_def CircularBufferFlush_def)
  then show ?thesis
    using cb_inv_bounds [OF assms] cb_put_inv [OF assms] cb_get_inv [OF assms]
    by (simp add: CircularBufferIsFull_def CircularBufferIsEmpty_def CircularBufferPut_def
        CircularBufferGet_def linorder_not_less)
qed

end
