(* ===== verification/Logger_Buffers.thy ===== *)
theory Logger_Buffers
  imports Circular_Buffer
begin

text \<open>
  The state of the logger (\<^verbatim>\<open>UsrParts/logger/logger_process.c\<close>) and the three operations the device
  driver of the log interface calls: storing received bytes, storing bytes to transmit and fetching
  the next byte to transmit. Each is specified by its effect on the queue the ring buffer stands for.
\<close>

section \<open>State\<close>

datatype LOG_DEVICE =
    LOG_DEVICE_NONE | LOG_DEVICE_I2C | LOG_DEVICE_SPI | LOG_DEVICE_USART | LOG_DEVICE_ETH

text \<open>The log levels; the enumeration is one byte wide, bit 7 asks for the message to be recorded.\<close>

definition LOG_TRACE :: u8 where "LOG_TRACE = 0"
definition LOG_DEBUG :: u8 where "LOG_DEBUG = 1"
definition LOG_INFO :: u8 where "LOG_INFO = 2"
definition LOG_WARN :: u8 where "LOG_WARN = 3"
definition LOG_ERROR :: u8 where "LOG_ERROR = 4"
definition LOG_FATAL :: u8 where "LOG_FATAL = 5"
definition LOG_RECORD :: u8 where "LOG_RECORD = 128"

definition LOGGER_BUFFER_SIZE :: u32 where "LOGGER_BUFFER_SIZE = 2048"
definition DEFAULT_LOGGER_DEV :: LOG_DEVICE where "DEFAULT_LOGGER_DEV = LOG_DEVICE_USART"
definition DEFAULT_LOGGER_LEVEL :: u8 where "DEFAULT_LOGGER_LEVEL = LOG_DEBUG"

record LOGGER_INFO =
  LoggerRxBufferInfo :: CircularBuffer
  LoggerTxBufferInfo :: CircularBuffer
  is_init :: u8
  level :: u8
  device :: LOG_DEVICE
  is_multi_thread_run :: u8
  protect :: bool  \<comment> \<open>whether the mutex exists\<close>

section \<open>Operations\<close>

definition logger_put_rx_buffer ::
  "LOG_DEVICE \<Rightarrow> u8 list \<Rightarrow> u8 \<Rightarrow> LOGGER_INFO \<Rightarrow> GlobalType_t \<times> LOGGER_INFO" where
  "logger_put_rx_buffer dev ptr sz g =
     (if dev \<noteq> device g \<or> is_init g \<noteq> 1 then (GLOBAL_ERROR, g)
      else if sz = 1 then
        (GLOBAL_OK, g\<lparr>LoggerRxBufferInfo := CircularBufferPut (ptr ! 0) (LoggerRxBufferInfo g)\<rparr>)
      else
        let rx_allow_size = LOGGER_BUFFER_SIZE - CircularBufferSize (LoggerRxBufferInfo g)
        in if ucast sz > rx_allow_size then (GLOBAL_ERROR, g)
           else (GLOBAL_OK, g\<lparr>LoggerRxBufferInfo :=
                   fold (\<lambda>index. CircularBufferPut (ptr ! index)) [0..<unat sz]
                        (LoggerRxBufferInfo g)\<rparr>))"

definition logger_get_tx_byte ::
  "LOG_DEVICE \<Rightarrow> LOGGER_INFO \<Rightarrow> GlobalType_t \<times> u8 option \<times> LOGGER_INFO" where
  "logger_get_tx_byte dev g =
     (if dev \<noteq> device g \<or> is_init g \<noteq> 1 then (GLOBAL_ERROR, None, g)
      else if \<not> CircularBufferIsEmpty (LoggerTxBufferInfo g) then
        let (c, cb) = CircularBufferGet (LoggerTxBufferInfo g)
        in (GLOBAL_OK, c, g\<lparr>LoggerTxBufferInfo := cb\<rparr>)
      else (GLOBAL_ERROR, None, g))"

definition logger_put_tx_buffer ::
  "LOG_DEVICE \<Rightarrow> u8 list \<Rightarrow> u8 \<Rightarrow> LOGGER_INFO \<Rightarrow> GlobalType_t \<times> LOGGER_INFO" where
  "logger_put_tx_buffer dev ptr sz g =
     (if dev \<noteq> device g \<or> is_init g \<noteq> 1 then (GLOBAL_ERROR, g)
      else if sz = 1 then
        (GLOBAL_OK, g\<lparr>LoggerTxBufferInfo := CircularBufferPut (ptr ! 0) (LoggerTxBufferInfo g)\<rparr>)
      else
        let tx_allow_size = LOGGER_BUFFER_SIZE - CircularBufferSize (LoggerTxBufferInfo g)
        in if ucast sz > tx_allow_size then (GLOBAL_ERROR, g)
           else (GLOBAL_OK, g\<lparr>LoggerTxBufferInfo :=
                   fold (\<lambda>index. CircularBufferPut (ptr ! index)) [0..<unat sz]
                        (LoggerTxBufferInfo g)\<rparr>))"

definition logger_set_multi_thread_run :: "LOGGER_INFO \<Rightarrow> LOGGER_INFO" where
  "logger_set_multi_thread_run g = g\<lparr>is_multi_thread_run := 1\<rparr>"

section \<open>Invariant\<close>

definition logger_buf_ok :: "CircularBuffer \<Rightarrow> bool" where
  "logger_buf_ok cb \<longleftrightarrow> cb_inv cb \<and> cb_cap cb = 2048"

definition logger_inv :: "LOGGER_INFO \<Rightarrow> bool" where
  "logger_inv g \<longleftrightarrow> logger_buf_ok (LoggerRxBufferInfo g) \<and> logger_buf_ok (LoggerTxBufferInfo g)
     \<and> is_init g = 1"

abbreviation rx_queue :: "LOGGER_INFO \<Rightarrow> u8 list" where
  "rx_queue g \<equiv> cb_list (LoggerRxBufferInfo g)"

abbreviation tx_queue :: "LOGGER_INFO \<Rightarrow> u8 list" where
  "tx_queue g \<equiv> cb_list (LoggerTxBufferInfo g)"

lemma logger_buf_ok_put: "logger_buf_ok cb \<Longrightarrow> logger_buf_ok (CircularBufferPut c cb)"
  by (simp add: logger_buf_ok_def cb_put_inv)

lemma logger_buf_ok_puts:
  "logger_buf_ok cb \<Longrightarrow> logger_buf_ok (fold (\<lambda>i. CircularBufferPut (ptr ! i)) is cb)"
  by (induction "is" arbitrary: cb) (auto intro: logger_buf_ok_put)

lemma logger_buf_ok_get: "logger_buf_ok cb \<Longrightarrow> logger_buf_ok (snd (CircularBufferGet cb))"
  by (simp add: logger_buf_ok_def cb_get_inv)

lemma put_rx_inv: "logger_inv g \<Longrightarrow> logger_inv (snd (logger_put_rx_buffer dev ptr sz g))"
  by (auto simp: logger_inv_def logger_put_rx_buffer_def Let_def
        intro: logger_buf_ok_put logger_buf_ok_puts)

lemma put_tx_inv: "logger_inv g \<Longrightarrow> logger_inv (snd (logger_put_tx_buffer dev ptr sz g))"
  by (auto simp: logger_inv_def logger_put_tx_buffer_def Let_def
        intro: logger_buf_ok_put logger_buf_ok_puts)

lemma get_tx_inv: "logger_inv g \<Longrightarrow> logger_inv (snd (snd (logger_get_tx_byte dev g)))"
  using logger_buf_ok_get [of "LoggerTxBufferInfo g"]
  by (auto simp: logger_inv_def logger_get_tx_byte_def split_beta)

text \<open>The free room as the code computes it, without wrap-around.\<close>

lemma allow_size:
  assumes "logger_buf_ok cb"
  shows "(ucast (sz :: u8) > LOGGER_BUFFER_SIZE - CircularBufferSize cb)
         \<longleftrightarrow> length (cb_list cb) + unat sz > 2048"
proof -
  have le: "unat (cb_currentSize cb) \<le> 2048"
    using assms cb_list_bounded [of cb] by (simp add: logger_buf_ok_def length_cb_list)
  then have "cb_currentSize cb \<le> 2048" by (simp add: word_le_nat_alt)
  then have "unat (2048 - cb_currentSize cb) = 2048 - unat (cb_currentSize cb)"
    by (simp add: unat_sub)
  moreover have "unat (ucast sz :: u32) = unat sz"
    by (rule unat_ucast_up) simp
  ultimately show ?thesis
    using le by (auto simp: LOGGER_BUFFER_SIZE_def CircularBufferSize_def word_less_nat_alt length_cb_list)
qed

lemma fold_put_ptr:
  "length ptr = n \<Longrightarrow> fold (\<lambda>i. CircularBufferPut (ptr ! i)) [0..<n] cb = fold CircularBufferPut ptr cb"
  using fold_upt_nth [of n ptr CircularBufferPut cb] by simp

text \<open>
  What a string of bytes offered to one of the queues becomes: a single byte is dropped silently
  when the queue is full; a longer string is stored whole or refused whole.
\<close>

definition offer :: "u8 list \<Rightarrow> u8 list \<Rightarrow> GlobalType_t \<times> u8 list" where
  "offer xs q =
     (if length xs = 1 then (GLOBAL_OK, take 2048 (q @ xs))
      else if length q + length xs > 2048 then (GLOBAL_ERROR, q)
      else (GLOBAL_OK, q @ xs))"

lemma offer_buffer:
  fixes sz :: u8
  assumes ok: "logger_buf_ok cb" and len: "length ptr = unat sz"
  shows "(if sz = 1 then (GLOBAL_OK, cb_list (CircularBufferPut (ptr ! 0) cb))
          else if ucast sz > LOGGER_BUFFER_SIZE - CircularBufferSize cb then (GLOBAL_ERROR, cb_list cb)
          else (GLOBAL_OK, cb_list (fold (\<lambda>i. CircularBufferPut (ptr ! i)) [0..<unat sz] cb)))
         = offer ptr (cb_list cb)"
proof -
  have inv: "cb_inv cb" and cap: "cb_cap cb = 2048" using ok by (auto simp: logger_buf_ok_def)
  have one: "sz = 1 \<longleftrightarrow> length ptr = 1" using len by (metis unat_eq_one)
  show ?thesis
  proof (cases "sz = 1")
    case True
    then have "ptr = [ptr ! 0]" using one by (cases ptr) auto
    then show ?thesis
      using True one cbq.put_take [OF inv, of "ptr ! 0"] by (simp add: offer_def cap)
  next
    case False
    then show ?thesis
      using one allow_size [OF ok, of sz] cbq.puts_room [OF inv, of ptr]
      by (auto simp: offer_def cap len fold_put_ptr)
  qed
qed

lemma put_tx_spec:
  assumes "logger_inv g" and "length ptr = unat sz"
  shows "let (res, g') = logger_put_tx_buffer dev ptr sz g in
           (res, tx_queue g') = (if dev = device g then offer ptr (tx_queue g) else (GLOBAL_ERROR, tx_queue g))
           \<and> rx_queue g' = rx_queue g"
  using offer_buffer [of "LoggerTxBufferInfo g" ptr sz] assms
  by (auto simp: logger_put_tx_buffer_def Let_def logger_inv_def split: if_splits)

lemma put_rx_spec:
  assumes "logger_inv g" and "length ptr = unat sz"
  shows "let (res, g') = logger_put_rx_buffer dev ptr sz g in
           (res, rx_queue g') = (if dev = device g then offer ptr (rx_queue g) else (GLOBAL_ERROR, rx_queue g))
           \<and> tx_queue g' = tx_queue g"
  using offer_buffer [of "LoggerRxBufferInfo g" ptr sz] assms
  by (auto simp: logger_put_rx_buffer_def Let_def logger_inv_def split: if_splits)

lemma get_tx_spec:
  assumes inv: "logger_inv g" and dev: "dev = device g"
  shows "logger_get_tx_byte dev g = (GLOBAL_ERROR, None, g) \<and> tx_queue g = []
       \<or> (\<exists>c g'. logger_get_tx_byte dev g = (GLOBAL_OK, Some c, g') \<and> tx_queue g = c # tx_queue g'
             \<and> rx_queue g' = rx_queue g)"
proof -
  have b: "cb_inv (LoggerTxBufferInfo g)" and i: "is_init g = 1"
    using inv by (auto simp: logger_inv_def logger_buf_ok_def)
  show ?thesis
  proof (cases "tx_queue g")
    case Nil
    then have "unat (cb_currentSize (LoggerTxBufferInfo g)) = 0" by (metis length_cb_list list.size(3))
    then show ?thesis
      using Nil i dev by (simp add: logger_get_tx_byte_def CircularBufferIsEmpty_def unat_eq_zero)
  next
    case (Cons c xs)
    then have "cb_currentSize (LoggerTxBufferInfo g) \<noteq> 0" by (auto simp: cb_list_def)
    moreover obtain cb where "CircularBufferGet (LoggerTxBufferInfo g) = (Some c, cb)" "cb_list cb = xs"
      using cbq.get_Cons [OF b Cons] by blast
    ultimately show ?thesis
      using Cons i dev by (simp add: logger_get_tx_byte_def CircularBufferIsEmpty_def)
  qed
qed

lemma put_tx_fields [frame_simps]:
  "device (snd (logger_put_tx_buffer dev ptr sz g)) = device g"
  "is_init (snd (logger_put_tx_buffer dev ptr sz g)) = is_init g"
  "level (snd (logger_put_tx_buffer dev ptr sz g)) = level g"
  "is_multi_thread_run (snd (logger_put_tx_buffer dev ptr sz g)) = is_multi_thread_run g"
  by (simp_all add: logger_put_tx_buffer_def Let_def)

lemma put_rx_fields [frame_simps]:
  "device (snd (logger_put_rx_buffer dev ptr sz g)) = device g"
  "is_init (snd (logger_put_rx_buffer dev ptr sz g)) = is_init g"
  "level (snd (logger_put_rx_buffer dev ptr sz g)) = level g"
  "is_multi_thread_run (snd (logger_put_rx_buffer dev ptr sz g)) = is_multi_thread_run g"
  by (simp_all add: logger_put_rx_buffer_def Let_def)

lemma get_tx_fields [frame_simps]:
  "device (snd (snd (logger_get_tx_byte dev g))) = device g"
  "is_init (snd (snd (logger_get_tx_byte dev g))) = is_init g"
  "level (snd (snd (logger_get_tx_byte dev g))) = level g"
  "is_multi_thread_run (snd (snd (logger_get_tx_byte dev g))) = is_multi_thread_run g"
  by (simp_all add: logger_get_tx_byte_def split_beta)

section \<open>Properties\<close>

text \<open>
  Queueing several bytes for transmission either appends all of them, when they fit the
  2048-byte buffer, and reports success, or appends none and reports the error; the receive queue is
  untouched.
\<close>

lemma logger_queue_all_or_nothing:
  assumes "logger_inv g" and "length ptr = unat sz" and "sz \<noteq> 1" and "dev = device g"
  shows "let (res, g') = logger_put_tx_buffer dev ptr sz g in
           logger_inv g' \<and> rx_queue g' = rx_queue g \<and>
           (if length (tx_queue g) + length ptr \<le> 2048
            then res = GLOBAL_OK \<and> tx_queue g' = tx_queue g @ ptr
            else res = GLOBAL_ERROR \<and> tx_queue g' = tx_queue g)"
proof -
  have one: "length ptr \<noteq> 1" using assms(2,3) unat_eq_one [of sz] by simp
  show ?thesis
    using put_tx_spec [OF assms(1,2), of dev] put_tx_inv [OF assms(1), of dev ptr sz] assms(4) one
    by (auto simp: offer_def Let_def split: prod.splits if_splits)
qed

definition demo_logger :: LOGGER_INFO where
  "demo_logger = \<lparr>LoggerRxBufferInfo = CircularBufferInit 2048 (replicate 2048 0),
     LoggerTxBufferInfo = CircularBufferInit 2048 (replicate 2048 0), is_init = 1, level = LOG_DEBUG,
     device = LOG_DEVICE_USART, is_multi_thread_run = 0, protect = True\<rparr>"

lemma demo_logger_inv: "logger_inv demo_logger"
  by (simp add: demo_logger_def logger_inv_def logger_buf_ok_def cb_inv_init)

end
