(* ===== verification/Gpio.thy ===== *)
theory Gpio
  imports Prelude
begin

text \<open>
  The GPIO accesses of the drivers. The HAL's register writes are recorded in a history, the most
  recent first; what the input data register shows is up to the outside world, so every read is
  answered by a parameter that may depend on the whole history. Busy-wait delays are recorded too.
\<close>

datatype GPIO_TypeDef =
    GPIO_NULL | GPIOA | GPIOB | GPIOC | GPIOD | GPIOE | GPIOF | GPIOG | GPIOH | GPIOI

datatype gpio_mode =
    GPIO_MODE_INPUT | GPIO_MODE_OUTPUT_PP | GPIO_MODE_OUTPUT_OD | GPIO_MODE_AF_PP | GPIO_MODE_AF_OD
  | GPIO_MODE_ANALOG | GPIO_MODE_IT_FALLING

datatype gpio_pull = GPIO_NOPULL | GPIO_PULLUP | GPIO_PULLDOWN

datatype gpio_speed =
    GPIO_SPEED_FREQ_LOW | GPIO_SPEED_FREQ_MEDIUM | GPIO_SPEED_FREQ_HIGH | GPIO_SPEED_FREQ_VERY_HIGH

text \<open>The alternate function number is meaningful in the alternate function modes only.\<close>

record GPIO_InitTypeDef =
  Pin :: u16
  Mode :: gpio_mode
  Pull :: gpio_pull
  Speed :: gpio_speed
  Alternate :: u8

definition gpio_init0 :: GPIO_InitTypeDef where
  "gpio_init0 = \<lparr>Pin = 0, Mode = GPIO_MODE_INPUT, Pull = GPIO_NOPULL,
                  Speed = GPIO_SPEED_FREQ_LOW, Alternate = 0\<rparr>"

datatype IRQn = EXTI15_10_IRQn | RTC_Alarm_IRQn | USART1_IRQn | DMA2_Stream0_IRQn | DMA2_Stream7_IRQn
  | CAN1_RX0_IRQn | WWDG_IRQn | TIM_IRQn nat

datatype rcc_periph =
    RCC_SPI5 | RCC_DMA1 | RCC_DMA2 | RCC_CAN1 | RCC_ADC1 | RCC_DAC | RCC_SDIO | RCC_FMC | RCC_USART1 | RCC_WWDG
  | RCC_RNG | RCC_CRC
  | RCC_TIM2 | RCC_TIM3 | RCC_TIM4 | RCC_TIM5

text \<open>
  What a driver does to the hardware: pin accesses, the gates of the clocks, the interrupt controller, busy-wait loops (with their count) and delays in milliseconds.
\<close>

datatype hw_event =
    WritePin GPIO_TypeDef u16 bool
  | ReadPin GPIO_TypeDef u16 bool
  | InitPin GPIO_TypeDef GPIO_InitTypeDef
  | ClockEnable GPIO_TypeDef
  | PeriphClock rcc_periph
  | SetPriority IRQn nat nat
  | EnableIRQ IRQn
  | DisableIRQ IRQn
  | Delay u32
  | DelayMs u32

type_synonym history = "hw_event list"

text \<open>What the outside world shows on an input: a function of the history and the pin.\<close>

type_synonym levels = "history \<Rightarrow> GPIO_TypeDef \<Rightarrow> u16 \<Rightarrow> bool"

definition HAL_GPIO_WritePin :: "GPIO_TypeDef \<Rightarrow> u16 \<Rightarrow> bool \<Rightarrow> history \<Rightarrow> history" where
  [hw_defs]: "HAL_GPIO_WritePin port pin b h = WritePin port pin b # h"

definition HAL_GPIO_ReadPin :: "levels \<Rightarrow> GPIO_TypeDef \<Rightarrow> u16 \<Rightarrow> history \<Rightarrow> bool \<times> history" where
  [hw_defs]: "HAL_GPIO_ReadPin lv port pin h = (let b = lv h port pin in (b, ReadPin port pin b # h))"

definition HAL_GPIO_Init :: "GPIO_TypeDef \<Rightarrow> GPIO_InitTypeDef \<Rightarrow> history \<Rightarrow> history" where
  [hw_defs]: "HAL_GPIO_Init port cfg h = InitPin port cfg # h"

definition GPIO_PIN_0 :: u16 where [hw_defs]: "GPIO_PIN_0 = 0x0001"
definition GPIO_PIN_1 :: u16 where [hw_defs]: "GPIO_PIN_1 = 0x0002"
definition GPIO_PIN_2 :: u16 where [hw_defs]: "GPIO_PIN_2 = 0x0004"
definition GPIO_PIN_3 :: u16 where [hw_defs]: "GPIO_PIN_3 = 0x0008"
definition GPIO_PIN_4 :: u16 where [hw_defs]: "GPIO_PIN_4 = 0x0010"
definition GPIO_PIN_5 :: u16 where [hw_defs]: "GPIO_PIN_5 = 0x0020"
definition GPIO_PIN_6 :: u16 where [hw_defs]: "GPIO_PIN_6 = 0x0040"
definition GPIO_PIN_7 :: u16 where [hw_defs]: "GPIO_PIN_7 = 0x0080"
definition GPIO_PIN_8 :: u16 where [hw_defs]: "GPIO_PIN_8 = 0x0100"
definition GPIO_PIN_9 :: u16 where [hw_defs]: "GPIO_PIN_9 = 0x0200"
definition GPIO_PIN_10 :: u16 where [hw_defs]: "GPIO_PIN_10 = 0x0400"
definition GPIO_PIN_11 :: u16 where [hw_defs]: "GPIO_PIN_11 = 0x0800"
definition GPIO_PIN_12 :: u16 where [hw_defs]: "GPIO_PIN_12 = 0x1000"
definition GPIO_PIN_13 :: u16 where [hw_defs]: "GPIO_PIN_13 = 0x2000"
definition GPIO_PIN_14 :: u16 where [hw_defs]: "GPIO_PIN_14 = 0x4000"
definition GPIO_PIN_15 :: u16 where [hw_defs]: "GPIO_PIN_15 = 0x8000"

text \<open>The bit a master shifts out next is the top bit of the byte.\<close>

definition msb :: "u8 \<Rightarrow> bool" where
  "msb b \<longleftrightarrow> b AND 0x80 \<noteq> 0"

lemma msb_bit: "msb b \<longleftrightarrow> bit b 7"
proof -
  have "b AND push_bit 7 1 \<noteq> 0 \<longleftrightarrow> bit b 7"
    by (simp only: and_exp_eq_0_iff_not_bit push_bit_eq_mult mult_1 not_not)
  moreover have "push_bit 7 1 = (0x80 :: u8)" by simp
  ultimately show ?thesis by (simp add: msb_def)
qed

text \<open>The bits a byte shows at its top while it is shifted left \<open>n\<close> times.\<close>

primrec top_bits :: "nat \<Rightarrow> u8 \<Rightarrow> bool list" where
  "top_bits 0 b = []"
| "top_bits (Suc n) b = msb b # top_bits n (push_bit 1 b)"

lemma top_bits_nth: "n \<le> 8 \<Longrightarrow> i < n \<Longrightarrow> top_bits n b ! i \<longleftrightarrow> bit b (7 - i)"
proof (induction n arbitrary: b i)
  case 0
  then show ?case by simp
next
  case (Suc n)
  show ?case
  proof (cases i)
    case 0
    then show ?thesis by (simp add: msb_bit)
  next
    case (Suc j)
    then have "j < n" "n \<le> 8" "j < 7" using Suc.prems by simp_all
    then have "top_bits n (push_bit 1 b) ! j \<longleftrightarrow> bit (push_bit 1 b) (7 - j)"
      using Suc.IH by simp
    also have "\<dots> \<longleftrightarrow> bit b (7 - j - 1)"
      using \<open>j < 7\<close> by (simp only: bit_push_bit_iff) auto
    finally show ?thesis using Suc by simp
  qed
qed

lemma length_top_bits [simp]: "length (top_bits n b) = n"
  by (induction n arbitrary: b) auto

lemma top_bits_8: "top_bits 8 b = byte_bits b"
  by (rule nth_equalityI) (simp_all add: top_bits_nth nth_byte_bits)

end
