(* ===== verification/Peripheral.thy ===== *)
theory Peripheral
  imports Gpio
begin

text \<open>
  The structures of the HAL that several drivers share: DMA streams, timers and the serial port. A
  driver's call of the HAL with an initialisation structure is an event of its history. The handle of
  a DMA stream has a state of its own, with the two functions of the HAL that change it.
\<close>

section \<open>DMA streams\<close>

datatype dma_stream =
    DMA1_Stream2 | DMA1_Stream5 | DMA2_Stream0 | DMA2_Stream1 | DMA2_Stream2 | DMA2_Stream3 | DMA2_Stream4
  | DMA2_Stream6 | DMA2_Stream7

datatype dma_direction = DMA_PERIPH_TO_MEMORY | DMA_MEMORY_TO_PERIPH | DMA_MEMORY_TO_MEMORY
datatype dma_align = DMA_DATAALIGN_BYTE | DMA_DATAALIGN_HALFWORD | DMA_DATAALIGN_WORD
datatype dma_mode = DMA_NORMAL | DMA_CIRCULAR | DMA_PFCTRL
datatype dma_priority = DMA_PRIORITY_LOW | DMA_PRIORITY_MEDIUM | DMA_PRIORITY_HIGH
datatype dma_threshold =
    DMA_FIFO_THRESHOLD_1QUARTERFULL | DMA_FIFO_THRESHOLD_HALFFULL | DMA_FIFO_THRESHOLD_FULL
datatype dma_burst = DMA_BURST_SINGLE | DMA_BURST_INC4

record DMA_InitTypeDef =
  dma_Channel :: nat
  dma_Direction :: dma_direction
  dma_PeriphInc :: bool
  dma_MemInc :: bool
  dma_PeriphDataAlignment :: dma_align
  dma_MemDataAlignment :: dma_align
  dma_Mode :: dma_mode
  dma_Priority :: dma_priority
  dma_FIFOMode :: bool
  dma_FIFOThreshold :: dma_threshold
  dma_MemBurst :: dma_burst
  dma_PeriphBurst :: dma_burst

text \<open>An initialisation structure the drivers have not filled in yet is zero.\<close>

definition dma_init0 :: DMA_InitTypeDef where
  "dma_init0 = \<lparr>dma_Channel = 0, dma_Direction = DMA_PERIPH_TO_MEMORY, dma_PeriphInc = False, dma_MemInc = False,
     dma_PeriphDataAlignment = DMA_DATAALIGN_BYTE, dma_MemDataAlignment = DMA_DATAALIGN_BYTE, dma_Mode = DMA_NORMAL,
     dma_Priority = DMA_PRIORITY_LOW, dma_FIFOMode = False, dma_FIFOThreshold = DMA_FIFO_THRESHOLD_1QUARTERFULL,
     dma_MemBurst = DMA_BURST_SINGLE, dma_PeriphBurst = DMA_BURST_SINGLE\<rparr>"

text \<open>
  A stream: the HAL's state, lock and error code of its handle and the registers, with one bit for the
  three error interrupts; the drivers register no callbacks, so the half-transfer interrupt stays off.
  \<open>moved\<close> counts the items since the stream was enabled.
\<close>

datatype HAL_DMA_StateTypeDef =
    HAL_DMA_STATE_RESET | HAL_DMA_STATE_READY | HAL_DMA_STATE_BUSY | HAL_DMA_STATE_TIMEOUT

record DMA_HandleTypeDef =
  Init_Direction :: dma_direction
  State :: HAL_DMA_StateTypeDef
  Lock :: bool
  ErrorCode :: u32
  DBM :: bool
  NDTR :: u32
  PAR :: u32
  M0AR :: u32
  EN :: bool
  TCIE :: bool
  ErrIE :: bool
  TCIF :: bool
  moved :: nat

definition HAL_DMA_ERROR_NONE :: u32 where "HAL_DMA_ERROR_NONE = 0"
definition HAL_DMA_ERROR_TIMEOUT :: u32 where "HAL_DMA_ERROR_TIMEOUT = 0x20"
definition HAL_DMA_ERROR_NO_XFER :: u32 where "HAL_DMA_ERROR_NO_XFER = 0x80"

definition DMA_SetConfig :: "u32 \<Rightarrow> u32 \<Rightarrow> u32 \<Rightarrow> DMA_HandleTypeDef \<Rightarrow> DMA_HandleTypeDef" where
  "DMA_SetConfig SrcAddress DstAddress DataLength hdma =
     (let hdma = hdma\<lparr>DBM := False\<rparr>;
          hdma = hdma\<lparr>NDTR := DataLength\<rparr>
      in if Init_Direction hdma = DMA_MEMORY_TO_PERIPH then hdma\<lparr>PAR := DstAddress, M0AR := SrcAddress\<rparr>
         else hdma\<lparr>PAR := SrcAddress, M0AR := DstAddress\<rparr>)"

definition HAL_DMA_Start ::
  "u32 \<Rightarrow> u32 \<Rightarrow> u32 \<Rightarrow> DMA_HandleTypeDef \<Rightarrow> HAL_StatusTypeDef \<times> DMA_HandleTypeDef" where
  "HAL_DMA_Start SrcAddress DstAddress DataLength hdma =
     (if Lock hdma then (HAL_BUSY, hdma)
      else (let hdma = hdma\<lparr>Lock := True\<rparr>
            in if State hdma = HAL_DMA_STATE_READY
               then (let hdma = hdma\<lparr>State := HAL_DMA_STATE_BUSY\<rparr>;
                         hdma = hdma\<lparr>ErrorCode := HAL_DMA_ERROR_NONE\<rparr>;
                         hdma = DMA_SetConfig SrcAddress DstAddress DataLength hdma
                     in (HAL_OK, hdma\<lparr>EN := True, moved := 0\<rparr>))
               else (HAL_BUSY, hdma\<lparr>Lock := False\<rparr>)))"

text \<open>\<open>off\<close> says whether the stream reports itself disabled within the HAL's time limit.\<close>

definition HAL_DMA_Abort :: "bool \<Rightarrow> DMA_HandleTypeDef \<Rightarrow> HAL_StatusTypeDef \<times> DMA_HandleTypeDef" where
  "HAL_DMA_Abort off hdma =
     (if State hdma \<noteq> HAL_DMA_STATE_BUSY then (HAL_ERROR, hdma\<lparr>ErrorCode := HAL_DMA_ERROR_NO_XFER, Lock := False\<rparr>)
      else (let hdma = hdma\<lparr>TCIE := False, ErrIE := False\<rparr>;
                hdma = hdma\<lparr>EN := False\<rparr>
            in if \<not> off then (HAL_TIMEOUT, hdma\<lparr>ErrorCode := HAL_DMA_ERROR_TIMEOUT, State := HAL_DMA_STATE_TIMEOUT, Lock := False\<rparr>)
               else (let hdma = hdma\<lparr>TCIF := False\<rparr>;
                         hdma = hdma\<lparr>State := HAL_DMA_STATE_READY\<rparr>
                     in (HAL_OK, hdma\<lparr>Lock := False\<rparr>))))"

text \<open>After initialisation a stream is ready and disabled.\<close>

definition dma_ready :: "dma_direction \<Rightarrow> DMA_HandleTypeDef" where
  "dma_ready dir = \<lparr>Init_Direction = dir, State = HAL_DMA_STATE_READY, Lock = False,
     ErrorCode = HAL_DMA_ERROR_NONE, DBM = False, NDTR = 0, PAR = 0, M0AR = 0, EN = False, TCIE = False, ErrIE = False,
     TCIF = False, moved = 0\<rparr>"

section \<open>The serial port\<close>

record UART_InitTypeDef =
  BaudRate :: u32
  WordLength :: nat
  StopBits :: nat
  Parity :: bool
  TxRx :: bool
  HwFlowCtl :: bool
  OverSampling :: nat

text \<open>The configuration all three variants of the driver use, and the pins PA9 and PA10.\<close>

definition uart1_init :: UART_InitTypeDef where
  "uart1_init = \<lparr>BaudRate = 115200, WordLength = 8, StopBits = 1, Parity = False, TxRx = True, HwFlowCtl = False,
     OverSampling = 16\<rparr>"

definition uart1_gpio :: GPIO_InitTypeDef where
  "uart1_gpio = gpio_init0\<lparr>Pin := GPIO_PIN_9 OR GPIO_PIN_10, Mode := GPIO_MODE_AF_PP, Pull := GPIO_NOPULL,
     Speed := GPIO_SPEED_FREQ_VERY_HIGH, Alternate := 7\<rparr>"

datatype uart_event =
    Uart_Gpio hw_event
  | Uart_Init UART_InitTypeDef
  | Uart_EnableRXNE
  | Uart_EnableIDLE
  | Uart_DmaRequests
  | Uart_DmaInit dma_stream DMA_InitTypeDef
  | Uart_DmaEnableTC
  | Uart_GetTXE
  | Uart_GetRXNE
  | Uart_Receive u16
  | Uart_Send u16
  | Uart_ClearTC
  | Uart_ClearPE
  | Dma_ClearTC dma_stream

section \<open>Timers\<close>

datatype tim_instance = TIM2 | TIM3 | TIM4 | TIM5

datatype tim_counter_mode = TIM_COUNTERMODE_UP | TIM_COUNTERMODE_DOWN

record TIM_Base_InitTypeDef =
  tim_Prescaler :: u32
  tim_CounterMode :: tim_counter_mode
  tim_Period :: u32
  tim_ClockDivision :: nat
  tim_AutoReloadPreload :: bool

text \<open>An input capture channel: rising edge, direct input, prescaler and filter.\<close>

record TIM_IC_InitTypeDef =
  ic_Rising :: bool
  ic_Direct :: bool
  ic_Prescaler :: nat
  ic_Filter :: nat

datatype tim_slave_mode = TIM_SLAVEMODE_DISABLE | TIM_SLAVEMODE_EXTERNAL1

record TIM_SlaveConfigTypeDef =
  slave_Mode :: tim_slave_mode
  slave_TI2FP2 :: bool
  slave_Rising :: bool
  slave_Filter :: nat

text \<open>An output compare channel: first PWM mode, active high, without the fast mode.\<close>

record TIM_OC_InitTypeDef =
  oc_PWM1 :: bool
  oc_Pulse :: u32
  oc_High :: bool
  oc_FastMode :: bool

datatype tim_event =
    Tim_IC_Init tim_instance TIM_Base_InitTypeDef
  | Tim_IC_Channel tim_instance nat TIM_IC_InitTypeDef
  | Tim_IC_Start tim_instance nat
  | Tim_Base_Init tim_instance TIM_Base_InitTypeDef
  | Tim_Slave tim_instance TIM_SlaveConfigTypeDef
  | Tim_Master_Reset tim_instance
  | Tim_SetCounter tim_instance u32
  | Tim_Base_Start tim_instance
  | Tim_Clock_Internal tim_instance
  | Tim_Master_Update tim_instance
  | Tim_PWM_Init tim_instance TIM_Base_InitTypeDef
  | Tim_PWM_Channel tim_instance nat TIM_OC_InitTypeDef
  | Tim_PWM_Start tim_instance nat
  | Tim_Update_DMA tim_instance

end
