(* ===== verification/Usart_Interrupt.thy ===== *)
theory Usart_Interrupt
  imports Logger_Buffers Peripheral
begin

text \<open>
  The interrupt-driven serial port of the logger (\<^verbatim>\<open>Drivers/Src/usart_interrupt.c\<close>): tasks queue bytes
  with interrupts disabled and then enable the transmit interrupt; the handler moves one byte per
  interrupt and disables itself when the queue runs empty. The file also holds the state all parts of
  the logger share. The handler and the tasks interleave; the step relation at the end makes every
  interleaving point of \<open>uart_logger_write\<close> explicit.
\<close>

section \<open>State\<close>

record LOGGER_COMMAND_BUFFER =
  cmd_index :: u8
  rx_buffer :: "u8 list"

datatype func_ptr = Cmd_Show_All | Cmd_Help | Cmd_Save

record CMD_COMMAND_STRUCT =
  command :: "u8 list"  \<comment> \<open>with its terminating NUL\<close>
  comsize :: u8
  comfunc :: func_ptr

text \<open>What the logger asks of the file system log, in order.\<close>

datatype fatfs_request = Fatfs_Write "u8 list" | Fatfs_Close

record world =
  g_logger_info :: LOGGER_INFO
  LoggerBuffer :: LOGGER_COMMAND_BUFFER
  cmd_struct_list :: "CMD_COMMAND_STRUCT list"
  LoggerMaxBuffer :: "u8 list"
  txe_ie :: bool             \<comment> \<open>the \<open>TXEIE\<close> bit of \<open>USART1\<close>\<close>
  usart_sent :: "u16 list"   \<comment> \<open>values written to the data register, in order\<close>
  fatfs_requests :: "fatfs_request list"
  mutex_held :: bool         \<comment> \<open>whether this task holds the logger's mutex\<close>

section \<open>Driver\<close>

text \<open>The initialisation, given the HAL's answer; it does not touch the logger's state.\<close>

definition usart_driver_init :: "HAL_StatusTypeDef \<Rightarrow> uart_event list \<Rightarrow> BaseType_t \<times> uart_event list" where
  "usart_driver_init ini h =
     (let h = Uart_Gpio (PeriphClock RCC_USART1) # h;
          h = Uart_Gpio (ClockEnable GPIOA) # h;
          h = Uart_Gpio (InitPin GPIOA uart1_gpio) # h;
          h = Uart_Init uart1_init # h
      in if ini \<noteq> HAL_OK then (pdFAIL, h)
         else (let h = Uart_EnableRXNE # h;
                   h = Uart_Gpio (SetPriority USART1_IRQn 1 1) # h;
                   h = Uart_Gpio (EnableIRQ USART1_IRQn) # h
               in (pdPASS, h)))"

definition UART_ReceiveData :: "u16 \<Rightarrow> u16" where
  "UART_ReceiveData DR = DR AND 0x1FF"

definition UART_SendData :: "u16 \<Rightarrow> world \<Rightarrow> world" where
  "UART_SendData Data w = w\<lparr>usart_sent := usart_sent w @ [Data AND 0x1FF]\<rparr>"

definition uart_logger_write :: "u8 list \<Rightarrow> u8 \<Rightarrow> world \<Rightarrow> GlobalType_t \<times> world" where
  "uart_logger_write ptr sz w =
     (let (res, g) = logger_put_tx_buffer LOG_DEVICE_USART ptr sz (g_logger_info w);
          w = w\<lparr>g_logger_info := g\<rparr>;
          w = (if res = GLOBAL_OK then w\<lparr>txe_ie := True\<rparr> else w)
      in (res, w))"

text \<open>
  The handler. \<open>rxne\<close> is the data register when the receive flag is set, \<open>txe\<close> the transmit flag.
\<close>

definition USART1_IRQHandler :: "u16 option \<Rightarrow> bool \<Rightarrow> world \<Rightarrow> world" where
  "USART1_IRQHandler rxne txe w =
     (let w = (case rxne of
                 Some DR \<Rightarrow>
                   (let data = ucast (UART_ReceiveData DR);
                        (_, g) = logger_put_rx_buffer LOG_DEVICE_USART [data] 1 (g_logger_info w)
                    in w\<lparr>g_logger_info := g\<rparr>)
               | None \<Rightarrow> w)
      in if txe \<and> txe_ie w then
           (let (res, data, g) = logger_get_tx_byte LOG_DEVICE_USART (g_logger_info w);
                w = w\<lparr>g_logger_info := g\<rparr>
            in if res = GLOBAL_ERROR then w\<lparr>txe_ie := False\<rparr>
               else UART_SendData (case data of Some c \<Rightarrow> ucast c | None \<Rightarrow> 0) w)
         else w)"

text \<open>\<^verbatim>\<open>fputc\<close>, the target of \<^verbatim>\<open>printf\<close>: its argument is passed by address, the low byte first.\<close>

definition fputc :: "u32 \<Rightarrow> world \<Rightarrow> u32 \<times> world" where
  "fputc ch w = (let (_, w) = uart_logger_write [ucast ch] 1 w in (ch, w))"

section \<open>The driver serves the logger\<close>

definition usart_ready :: "world \<Rightarrow> bool" where
  "usart_ready w \<longleftrightarrow> logger_inv (g_logger_info w) \<and> device (g_logger_info w) = LOG_DEVICE_USART"

abbreviation pending :: "world \<Rightarrow> u8 list" where
  "pending w \<equiv> tx_queue (g_logger_info w)"

abbreviation received :: "world \<Rightarrow> u8 list" where
  "received w \<equiv> rx_queue (g_logger_info w)"

lemma uart_logger_write_spec:
  assumes "usart_ready w" and "length ptr = unat sz"
  shows "let (res, w') = uart_logger_write ptr sz w in
           (res, pending w') = offer ptr (pending w) \<and> received w' = received w
           \<and> usart_sent w' = usart_sent w \<and> txe_ie w' = (txe_ie w \<or> res = GLOBAL_OK)
           \<and> usart_ready w'"
  using put_tx_spec [of "g_logger_info w" ptr sz LOG_DEVICE_USART]
    put_tx_inv [of "g_logger_info w" LOG_DEVICE_USART ptr sz]
    put_tx_fields(1) [of LOG_DEVICE_USART ptr sz "g_logger_info w"] assms
  by (auto simp: uart_logger_write_def usart_ready_def Let_def split: prod.splits)

lemma uart_logger_write_frame [frame_simps]:
  "LoggerBuffer (snd (uart_logger_write ptr sz w)) = LoggerBuffer w"
  "cmd_struct_list (snd (uart_logger_write ptr sz w)) = cmd_struct_list w"
  "LoggerMaxBuffer (snd (uart_logger_write ptr sz w)) = LoggerMaxBuffer w"
  "fatfs_requests (snd (uart_logger_write ptr sz w)) = fatfs_requests w"
  "mutex_held (snd (uart_logger_write ptr sz w)) = mutex_held w"
  "level (g_logger_info (snd (uart_logger_write ptr sz w))) = level (g_logger_info w)"
  "is_init (g_logger_info (snd (uart_logger_write ptr sz w))) = is_init (g_logger_info w)"
  "device (g_logger_info (snd (uart_logger_write ptr sz w))) = device (g_logger_info w)"
  "is_multi_thread_run (g_logger_info (snd (uart_logger_write ptr sz w)))
     = is_multi_thread_run (g_logger_info w)"
  by (simp_all add: uart_logger_write_def Let_def split_beta put_tx_fields)

text \<open>A transmit interrupt sends the head of the queue, or disables itself when there is none.\<close>

lemma irq_tx:
  assumes "usart_ready w" and "txe_ie w"
  shows "case pending w of
           [] \<Rightarrow> USART1_IRQHandler None True w = w\<lparr>txe_ie := False\<rparr>
         | c # cs \<Rightarrow> \<exists>g. USART1_IRQHandler None True w
                       = w\<lparr>g_logger_info := g, usart_sent := usart_sent w @ [ucast c]\<rparr>
                     \<and> tx_queue g = cs \<and> rx_queue g = received w"
  using get_tx_spec [of "g_logger_info w" LOG_DEVICE_USART] assms
  by (auto simp: usart_ready_def USART1_IRQHandler_def UART_SendData_def Let_def split: list.splits)

lemma irq_ready: "usart_ready w \<Longrightarrow> usart_ready (USART1_IRQHandler rxne txe w)"
  by (auto simp: usart_ready_def USART1_IRQHandler_def UART_SendData_def Let_def split_beta
      put_rx_fields get_tx_fields intro!: put_rx_inv get_tx_inv split: option.splits)

lemma irq_rx:
  assumes "usart_ready w"
  shows "received (USART1_IRQHandler (Some DR) False w)
           = take 2048 (received w @ [ucast (UART_ReceiveData DR)])
       \<and> pending (USART1_IRQHandler (Some DR) False w) = pending w"
  using put_rx_spec [of "g_logger_info w" "[ucast (UART_ReceiveData DR)]" 1 LOG_DEVICE_USART] assms
  by (auto simp: usart_ready_def USART1_IRQHandler_def Let_def split_beta offer_def split: if_splits)

text \<open>Receiving does not touch the transmit side.\<close>

lemma irq_split:
  "USART1_IRQHandler rxne txe w = USART1_IRQHandler None txe (USART1_IRQHandler rxne False w)"
  by (auto simp: USART1_IRQHandler_def Let_def split_beta split: option.splits)

lemma irq_rx_side:
  assumes "usart_ready w"
  shows "pending (USART1_IRQHandler rxne False w) = pending w"
    and "usart_sent (USART1_IRQHandler rxne False w) = usart_sent w"
    and "txe_ie (USART1_IRQHandler rxne False w) = txe_ie w"
  using assms irq_rx [OF assms]
  by (auto simp: USART1_IRQHandler_def Let_def split_beta split: option.splits)

text \<open>\<open>n\<close> transmit interrupts in a row send the first \<open>n\<close> queued bytes.\<close>

lemma irqs_drain:
  assumes "usart_ready w" and "txe_ie w" and "n \<le> length (pending w)"
  shows "let w' = (USART1_IRQHandler None True ^^ n) w in
           usart_sent w' = usart_sent w @ map ucast (take n (pending w))
           \<and> pending w' = drop n (pending w) \<and> txe_ie w' \<and> usart_ready w'"
  using assms
proof (induction n arbitrary: w)
  case 0
  then show ?case by simp
next
  case (Suc n)
  obtain c cs where p: "pending w = c # cs" using Suc.prems(3) by (cases "pending w") auto
  obtain g where step: "USART1_IRQHandler None True w
       = w\<lparr>g_logger_info := g, usart_sent := usart_sent w @ [ucast c]\<rparr>" and g: "tx_queue g = cs"
    using irq_tx [OF Suc.prems(1,2)] p by auto
  let ?w = "USART1_IRQHandler None True w"
  have "usart_ready ?w" by (rule irq_ready [OF Suc.prems(1)])
  moreover have "txe_ie ?w" using Suc.prems(2) step by simp
  moreover have "n \<le> length (pending ?w)" using Suc.prems(3) p g step by simp
  ultimately have "let w' = (USART1_IRQHandler None True ^^ n) ?w in
      usart_sent w' = usart_sent ?w @ map ucast (take n (pending ?w))
      \<and> pending w' = drop n (pending ?w) \<and> txe_ie w' \<and> usart_ready w'"
    by (rule Suc.IH)
  moreover have "pending ?w = cs" and "usart_sent ?w = usart_sent w @ [ucast c]"
    using step g by simp_all
  ultimately show ?case
    using p by (simp add: funpow_Suc_right Let_def del: funpow.simps)
qed

section \<open>Tasks and handler interleaved\<close>

text \<open>
  \<open>uart_logger_write\<close> runs its queue operation with interrupts off and sets the interrupt enable bit
  after turning them on again, so the handler, and other tasks, may run in between. A configuration
  is the state, how many tasks are between the two steps, and all bytes accepted so far.
\<close>

record config =
  st :: world
  enabling :: nat
  accepted :: "u8 list"

definition write_put :: "u8 list \<Rightarrow> u8 \<Rightarrow> world \<Rightarrow> GlobalType_t \<times> world" where
  "write_put ptr sz w =
     (let (res, g) = logger_put_tx_buffer LOG_DEVICE_USART ptr sz (g_logger_info w)
      in (res, w\<lparr>g_logger_info := g\<rparr>))"

definition write_enable :: "world \<Rightarrow> world" where
  "write_enable w = w\<lparr>txe_ie := True\<rparr>"

lemma uart_logger_write_steps:
  "uart_logger_write ptr sz w =
     (let (res, w') = write_put ptr sz w in (res, if res = GLOBAL_OK then write_enable w' else w'))"
  by (simp add: uart_logger_write_def write_put_def write_enable_def Let_def split_beta)

inductive usart_step :: "config \<Rightarrow> config \<Rightarrow> bool" where
  put_ok: "length ptr = unat sz \<Longrightarrow> write_put ptr sz (st c) = (GLOBAL_OK, w) \<Longrightarrow>
     usart_step c (c\<lparr>st := w, enabling := Suc (enabling c),
                     accepted := accepted c @ take (2048 - length (pending (st c))) ptr\<rparr>)"
| put_refused: "length ptr = unat sz \<Longrightarrow> write_put ptr sz (st c) = (GLOBAL_ERROR, w) \<Longrightarrow>
     usart_step c (c\<lparr>st := w\<rparr>)"
| enable: "enabling c = Suc n \<Longrightarrow>
     usart_step c (c\<lparr>st := write_enable (st c), enabling := n\<rparr>)"
| irq: "usart_step c (c\<lparr>st := USART1_IRQHandler rxne txe (st c)\<rparr>)"

inductive usart_reachable :: "config \<Rightarrow> bool" where
  start: "usart_ready w \<Longrightarrow> pending w = [] \<Longrightarrow> usart_sent w = [] \<Longrightarrow>
     usart_reachable \<lparr>st = w, enabling = 0, accepted = []\<rparr>"
| step: "usart_reachable c \<Longrightarrow> usart_step c c' \<Longrightarrow> usart_reachable c'"

inductive_cases usart_stepE: "usart_step c c'"

definition usart_inv :: "config \<Rightarrow> bool" where
  "usart_inv c \<longleftrightarrow> usart_ready (st c)
     \<and> (pending (st c) \<noteq> [] \<longrightarrow> txe_ie (st c) \<or> 0 < enabling c)
     \<and> map ucast (accepted c) = usart_sent (st c) @ map ucast (pending (st c))"

lemma offer_ok:
  "offer xs q = (GLOBAL_OK, q') \<Longrightarrow> length q \<le> 2048 \<Longrightarrow> q' = q @ take (2048 - length q) xs"
  by (auto simp: offer_def split: if_splits)

lemma offer_error: "offer xs q = (GLOBAL_ERROR, q') \<Longrightarrow> q' = q"
  by (auto simp: offer_def split: if_splits)

lemma pending_bounded: "usart_ready w \<Longrightarrow> length (pending w) \<le> 2048"
  using cb_list_bounded [of "LoggerTxBufferInfo (g_logger_info w)"]
  by (simp add: usart_ready_def logger_inv_def logger_buf_ok_def)

lemma write_put_spec:
  assumes "usart_ready w" and "length ptr = unat sz" and "write_put ptr sz w = (res, w')"
  shows "offer ptr (pending w) = (res, pending w') \<and> usart_ready w'
     \<and> txe_ie w' = txe_ie w \<and> usart_sent w' = usart_sent w"
  using put_tx_spec [of "g_logger_info w" ptr sz LOG_DEVICE_USART]
    put_tx_inv [of "g_logger_info w" LOG_DEVICE_USART ptr sz]
    put_tx_fields(1) [of LOG_DEVICE_USART ptr sz "g_logger_info w"] assms
  by (auto simp: write_put_def usart_ready_def Let_def split: prod.splits)

lemma usart_inv_irq:
  assumes inv: "usart_inv c"
  shows "usart_inv (c\<lparr>st := USART1_IRQHandler rxne txe (st c)\<rparr>)"
proof -
  define w where "w = USART1_IRQHandler rxne False (st c)"
  have ready: "usart_ready (st c)" using inv by (simp add: usart_inv_def)
  have "usart_inv (c\<lparr>st := w\<rparr>)"
    using inv irq_ready [OF ready] irq_rx_side [OF ready] by (simp add: usart_inv_def w_def)
  moreover have "usart_inv (c\<lparr>st := USART1_IRQHandler None txe w\<rparr>)" if "usart_inv (c\<lparr>st := w\<rparr>)"
  proof (cases "txe \<and> txe_ie w")
    case True
    have r: "usart_ready w" using that by (simp add: usart_inv_def)
    show ?thesis
      using irq_tx [OF r] True that irq_ready [OF r, of None True]
      by (cases "pending w") (auto simp: usart_inv_def)
  next
    case False
    then show ?thesis using that by (auto simp: USART1_IRQHandler_def)
  qed
  ultimately show ?thesis
    using irq_split [of rxne txe "st c"] by (simp add: w_def)
qed

lemma usart_step_inv: "usart_step c c' \<Longrightarrow> usart_inv c \<Longrightarrow> usart_inv c'"
proof (induction rule: usart_step.induct)
  case (put_ok ptr sz c w)
  then have "usart_ready (st c)" by (simp add: usart_inv_def)
  from write_put_spec [OF this put_ok.hyps] pending_bounded [OF this] put_ok.prems
  show ?case by (auto simp: usart_inv_def dest!: offer_ok)
next
  case (put_refused ptr sz c w)
  then have "usart_ready (st c)" by (simp add: usart_inv_def)
  from write_put_spec [OF this put_refused.hyps] put_refused.prems
  show ?case by (auto simp: usart_inv_def dest!: offer_error)
next
  case (enable c n)
  then show ?case by (auto simp: usart_inv_def write_enable_def usart_ready_def)
next
  case (irq c rxne txe)
  then show ?case by (rule usart_inv_irq)
qed

lemma usart_reachable_inv: "usart_reachable c \<Longrightarrow> usart_inv c"
proof (induction rule: usart_reachable.induct)
  case (start w)
  then show ?case by (simp add: usart_inv_def)
next
  case (step c c')
  then show ?case by (blast intro: usart_step_inv)
qed

section \<open>Properties\<close>

text \<open>
  C4. Whatever the interleaving of tasks in uart_logger_write (interrupted between queueing its
  bytes and enabling the transmit interrupt) and of USART1_IRQHandler, the bytes accepted so far
  are, in order, exactly those sent followed by those still queued, and as soon as no task is
  between its two steps a non-empty queue has the transmit interrupt enabled: no wake-up is lost.
\<close>

theorem usart_no_lost_wakeup:
  assumes "usart_reachable c"
  shows "map ucast (accepted c) = usart_sent (st c) @ map ucast (pending (st c))
    \<and> (pending (st c) \<noteq> [] \<and> enabling c = 0 \<longrightarrow> txe_ie (st c))
    \<and> usart_ready (st c)"
  using usart_reachable_inv [OF assms] by (auto simp: usart_inv_def)

text \<open>A state of the port to try the properties on.\<close>

definition demo_port :: world where
  "demo_port = \<lparr>g_logger_info = demo_logger, LoggerBuffer = \<lparr>cmd_index = 0, rx_buffer = replicate 33 0\<rparr>,
     cmd_struct_list = [], LoggerMaxBuffer = replicate 128 0, txe_ie = False, usart_sent = [],
     fatfs_requests = [], mutex_held = False\<rparr>"

lemma demo_port_ready: "usart_ready demo_port" "pending demo_port = []" "received demo_port = []"
  using demo_logger_inv by (simp_all add: demo_port_def usart_ready_def) (simp_all add: demo_logger_def)

lemma demo_port_facts: "length (LoggerMaxBuffer demo_port) = 128" "\<not> mutex_held demo_port"
  "level (g_logger_info demo_port) = LOG_DEBUG" "is_multi_thread_run (g_logger_info demo_port) = 0"
  "fatfs_requests demo_port = []"
  by (simp_all add: demo_port_def demo_logger_def)

theorem usart_no_lost_wakeup_witness:
  "\<exists>c. usart_reachable c \<and> accepted c = [65] \<and> usart_sent (st c) @ map ucast (pending (st c)) = [65]"
proof -
  let ?c = "\<lparr>st = demo_port, enabling = 0, accepted = []\<rparr>"
  let ?w = "snd (write_put [65] 1 demo_port)"
  have "usart_reachable ?c"
    by (rule usart_reachable.start) (simp_all add: demo_port_ready, simp add: demo_port_def)
  moreover have "write_put [65] 1 demo_port = (GLOBAL_OK, ?w)"
    by (simp add: write_put_def logger_put_tx_buffer_def demo_port_def demo_logger_def)
  then have "usart_step ?c (?c\<lparr>st := ?w, enabling := 1, accepted := [65]\<rparr>)"
    using usart_step.put_ok [of "[65]" 1 ?c ?w] by (simp add: demo_port_ready)
  ultimately have "usart_reachable (?c\<lparr>st := ?w, enabling := 1, accepted := [65]\<rparr>)"
    by (rule usart_reachable.step)
  from this usart_no_lost_wakeup [OF this] show ?thesis
    by (intro exI [of _ "?c\<lparr>st := ?w, enabling := 1, accepted := [65]\<rparr>"]) simp
qed

text \<open>
  C28. When the transmit interrupt is enabled, one handler run per queued byte and one more sends
  the whole queue in order and then disables the interrupt.
\<close>

theorem usart_drains:
  assumes "usart_ready w" and "txe_ie w"
  shows "let w' = (USART1_IRQHandler None True ^^ Suc (length (pending w))) w in
           usart_sent w' = usart_sent w @ map ucast (pending w) \<and> pending w' = [] \<and> \<not> txe_ie w'"
proof -
  let ?w = "(USART1_IRQHandler None True ^^ length (pending w)) w"
  have d: "usart_sent ?w = usart_sent w @ map ucast (pending w)" "pending ?w = []" "txe_ie ?w" "usart_ready ?w"
    using irqs_drain [OF assms, of "length (pending w)"] by (simp_all add: Let_def)
  then show ?thesis using irq_tx [OF d(4,3)] by (simp add: Let_def)
qed

theorem usart_drains_witness:
  "let w = demo_port\<lparr>txe_ie := True\<rparr>; w' = (USART1_IRQHandler None True ^^ Suc (length (pending w))) w
   in pending w' = [] \<and> \<not> txe_ie w'"
  using usart_drains [of "demo_port\<lparr>txe_ie := True\<rparr>"] demo_port_ready by (simp add: usart_ready_def Let_def)

end
