(* ===== verification/Logger.thy ===== *)
theory Logger
  imports Usart_Interrupt
begin

text \<open>
  The logger proper (\<^verbatim>\<open>UsrParts/logger/logger_process.c\<close>): formatting a message under the mutex and
  handing it to the device, and the initialisation. The text \<open>vsnprintf\<close> produces from the caller's
  format and arguments is a parameter (\<open>None\<close> when it reports an encoding error), as is whether the
  mutex is obtained within its ten ticks.
\<close>

section \<open>Formatting into a bounded buffer\<close>

definition store_at :: "nat \<Rightarrow> u8 list \<Rightarrow> u8 list \<Rightarrow> u8 list" where
  "store_at pos xs buf = take pos buf @ xs @ drop (pos + length xs) buf"

text \<open>
  \<^verbatim>\<open>snprintf(&buf[pos], n, ...)\<close> for a text without NUL: at most \<open>n - 1\<close> characters and a terminator
  are stored, the full length of the text is returned.
\<close>

definition snprintf_at :: "nat \<Rightarrow> int \<Rightarrow> u8 list \<Rightarrow> u8 list \<Rightarrow> int \<times> u8 list" where
  "snprintf_at pos n body buf =
     (int (length body), if n \<le> 0 then buf else store_at pos (take (nat (n - 1)) body @ [0]) buf)"

definition vsnprintf_at :: "nat \<Rightarrow> int \<Rightarrow> u8 list option \<Rightarrow> u8 list \<Rightarrow> int \<times> u8 list" where
  "vsnprintf_at pos n msg buf =
     (case msg of None \<Rightarrow> (-1, buf) | Some body \<Rightarrow> snprintf_at pos n body buf)"

section \<open>Operations\<close>

definition LOGGER_MAX_BUFFER_SIZE :: int where "LOGGER_MAX_BUFFER_SIZE = 128"

definition logger_protect :: "bool \<Rightarrow> world \<Rightarrow> GlobalType_t \<times> world" where
  "logger_protect taken w =
     (if is_multi_thread_run (g_logger_info w) = 0 then (GLOBAL_OK, w)
      else if taken then (GLOBAL_OK, w\<lparr>mutex_held := True\<rparr>)
      else (GLOBAL_ERROR, w))"

definition logger_unprotect :: "world \<Rightarrow> GlobalType_t \<times> world" where
  "logger_unprotect w =
     (if is_multi_thread_run (g_logger_info w) = 0 then (GLOBAL_OK, w)
      else (GLOBAL_ERROR, w\<lparr>mutex_held := False\<rparr>))"

text \<open>The weak device functions nothing overrides.\<close>

definition i2c_logger_write :: "u8 list \<Rightarrow> u8 \<Rightarrow> world \<Rightarrow> GlobalType_t \<times> world" where
  "i2c_logger_write ptr sz w = (GLOBAL_OK, w)"

definition spi_logger_write :: "u8 list \<Rightarrow> u8 \<Rightarrow> world \<Rightarrow> GlobalType_t \<times> world" where
  "spi_logger_write ptr sz w = (GLOBAL_OK, w)"

definition eth_logger_write :: "u8 list \<Rightarrow> u8 \<Rightarrow> world \<Rightarrow> GlobalType_t \<times> world" where
  "eth_logger_write ptr sz w = (GLOBAL_OK, w)"

definition logger_dev_tx_buffer :: "u8 list \<Rightarrow> u8 \<Rightarrow> world \<Rightarrow> GlobalType_t \<times> world" where
  "logger_dev_tx_buffer ptr sz w =
     (case device (g_logger_info w) of
        LOG_DEVICE_I2C \<Rightarrow> i2c_logger_write ptr sz w
      | LOG_DEVICE_SPI \<Rightarrow> spi_logger_write ptr sz w
      | LOG_DEVICE_USART \<Rightarrow> uart_logger_write ptr sz w
      | LOG_DEVICE_ETH \<Rightarrow> eth_logger_write ptr sz w
      | LOG_DEVICE_NONE \<Rightarrow> (GLOBAL_ERROR, w))"

text \<open>The text of \<^verbatim>\<open>"level:%d info:"\<close>.\<close>

definition log_prefix :: "u8 \<Rightarrow> u8 list" where
  "log_prefix lev = str_bytes ''level:'' @ dec_str (unat (lev AND NOT LOG_RECORD))
                    @ str_bytes '' info:''"

text \<open>The buffer handed to the device is the first \<open>outlen\<close> bytes of \<open>LoggerMaxBuffer\<close>.\<close>

definition print_log :: "bool \<Rightarrow> u8 \<Rightarrow> u8 list option \<Rightarrow> world \<Rightarrow> int \<times> world" where
  "print_log taken lev msg w =
     (if is_init (g_logger_info w) \<noteq> 1 then (-1, w)
      else if lev AND NOT LOG_RECORD < level (g_logger_info w) then (-2, w)
      else let (pr, w) = logger_protect taken w in
        if pr = GLOBAL_OK then
          let bufferlen = LOGGER_MAX_BUFFER_SIZE - 1;
              (len, buf) = snprintf_at 0 bufferlen (log_prefix lev) (LoggerMaxBuffer w);
              w = w\<lparr>LoggerMaxBuffer := buf\<rparr>
          in if len \<le> 0 \<or> len \<ge> bufferlen then (-3, snd (logger_unprotect w))
             else
               let outlen = len; pbuf = nat len; bufferlen = bufferlen - len;
                   (len, buf) = vsnprintf_at pbuf bufferlen msg (LoggerMaxBuffer w);
                   w = w\<lparr>LoggerMaxBuffer := buf\<rparr>
               in if len \<le> 0 \<or> len \<ge> bufferlen then (-4, snd (logger_unprotect w))
                  else
                    let outlen = outlen + len; pbuf = pbuf + nat len; bufferlen = bufferlen - len
                    in if bufferlen < 3 then (-4, snd (logger_unprotect w))
                       else
                         let w = w\<lparr>LoggerMaxBuffer := store_at pbuf [13, 10] (LoggerMaxBuffer w)\<rparr>;
                             outlen = outlen + 2;
                             line = take (nat outlen) (LoggerMaxBuffer w);
                             (_, w) = logger_dev_tx_buffer line (word_of_int outlen) w;
                             w = (if lev AND LOG_RECORD \<noteq> 0
                                  then w\<lparr>fatfs_requests := fatfs_requests w @ [Fatfs_Write line]\<rparr>
                                  else w)
                         in (outlen, snd (logger_unprotect w))
        else (0, w))"

section \<open>What a message becomes\<close>

lemma length_store_at: "pos + length xs \<le> length buf \<Longrightarrow> length (store_at pos xs buf) = length buf"
  by (simp add: store_at_def)

lemma take_store_at:
  "pos \<le> length buf \<Longrightarrow> take (pos + length xs) (store_at pos xs buf) = take pos buf @ xs"
  by (simp add: store_at_def)

lemma take_store_at_le:
  "pos \<le> length buf \<Longrightarrow> n \<le> pos + length xs \<Longrightarrow>
   take n (store_at pos xs buf) = take n (take pos buf @ xs)"
  by (simp add: store_at_def)

lemma length_log_prefix:
  "13 \<le> length (log_prefix lev) \<and> length (log_prefix lev) \<le> 15"
proof -
  have "unat (lev AND NOT LOG_RECORD) < 2 ^ LENGTH(8)" by (rule unsigned_less)
  then have "unat (lev AND NOT LOG_RECORD) < 10 ^ Suc 2" by simp
  from length_dec_str [OF this] show ?thesis by (auto simp: log_prefix_def Suc_le_eq)
qed

text \<open>The message text that leaves the logger, if it fits.\<close>

definition log_line :: "u8 \<Rightarrow> u8 list \<Rightarrow> u8 list" where
  "log_line lev body = log_prefix lev @ body @ [13, 10]"

definition log_fits :: "u8 \<Rightarrow> u8 list \<Rightarrow> bool" where
  "log_fits lev body \<longleftrightarrow> body \<noteq> [] \<and> length (log_prefix lev) + length body \<le> 124"

text \<open>The stages of the buffer.\<close>

lemma buffer_prefix:
  assumes "length buf = 128"
  shows "snprintf_at 0 127 (log_prefix lev) buf
           = (int (length (log_prefix lev)), store_at 0 (log_prefix lev @ [0]) buf)"
    and "length (store_at 0 (log_prefix lev @ [0]) buf) = 128"
    and "take (length (log_prefix lev)) (store_at 0 (log_prefix lev @ [0]) buf) = log_prefix lev"
  using length_log_prefix [of lev] assms
  by (simp_all add: snprintf_at_def length_store_at take_store_at_le)

lemma buffer_msg:
  assumes "length buf = 128" and "p \<le> 15" and "take p buf = pre" and "length pre = p"
  shows "length (snd (vsnprintf_at p (127 - int p) msg buf)) = 128"
    and "msg = Some body \<Longrightarrow> p + length body < 127 \<Longrightarrow>
         take (p + length body) (snd (vsnprintf_at p (127 - int p) msg buf)) = pre @ body"
  using assms
  by (auto simp: vsnprintf_at_def snprintf_at_def take_store_at_le min_def nat_diff_distrib
      intro!: trans [OF length_store_at] split: option.splits)

lemma buffer_crlf:
  assumes "length buf = 128" and "n \<le> 124" and "take n buf = line" and "length line = n"
  shows "take (n + 2) (store_at n [13, 10] buf) = line @ [13, 10]"
    and "length (store_at n [13, 10] buf) = 128"
  using assms take_store_at [of n buf "[13, 10]"] by (simp_all add: length_store_at)

text \<open>
  The state in which every message is handed over: what the device and the recorder then do to it
  is \<open>log_send\<close>.
\<close>

definition log_send :: "u8 \<Rightarrow> u8 list \<Rightarrow> world \<Rightarrow> world" where
  "log_send lev line w =
     (let (_, w) = logger_dev_tx_buffer line (word_of_nat (length line)) w
      in if lev AND LOG_RECORD \<noteq> 0
         then w\<lparr>fatfs_requests := fatfs_requests w @ [Fatfs_Write line]\<rparr> else w)"

lemma print_log_cases:
  assumes init: "is_init (g_logger_info w) = 1" and len: "length (LoggerMaxBuffer w) = 128"
    and lev: "level (g_logger_info w) \<le> lev AND NOT LOG_RECORD"
    and lock: "logger_protect taken w = (GLOBAL_OK, w0)"
  shows "\<exists>buf. length buf = 128 \<and> print_log taken lev msg w =
     (case msg of
        Some body \<Rightarrow>
          if log_fits lev body
          then (int (length (log_line lev body)),
                snd (logger_unprotect (log_send lev (log_line lev body) (w0\<lparr>LoggerMaxBuffer := buf\<rparr>))))
          else (-4, snd (logger_unprotect (w0\<lparr>LoggerMaxBuffer := buf\<rparr>)))
      | None \<Rightarrow> (-4, snd (logger_unprotect (w0\<lparr>LoggerMaxBuffer := buf\<rparr>))))"
proof -
  define p where "p = length (log_prefix lev)"
  have p: "13 \<le> p" "p \<le> 15" using length_log_prefix [of lev] by (simp_all add: p_def)
  have buf0: "LoggerMaxBuffer w0 = LoggerMaxBuffer w"
    using lock by (auto simp: logger_protect_def split: if_splits)
  define b1 where "b1 = store_at 0 (log_prefix lev @ [0]) (LoggerMaxBuffer w)"
  note pre = buffer_prefix [OF len, of lev, folded p_def b1_def]
  define b2 where "b2 = snd (vsnprintf_at p (127 - int p) msg b1)"
  have b2: "length b2 = 128"
    unfolding b2_def using buffer_msg(1) [OF pre(2) p(2) pre(3)] by (simp add: p_def)
  note step = print_log_def init lev lock buf0 pre(1) LOGGER_MAX_BUFFER_SIZE_def
  show ?thesis
  proof (cases msg)
    case None
    then have "print_log taken lev msg w = (-4, snd (logger_unprotect (w0\<lparr>LoggerMaxBuffer := b1\<rparr>)))"
      using p by (simp add: step vsnprintf_at_def linorder_not_less)
    then show ?thesis using None pre(2) by auto
  next
    case (Some body)
    have v: "vsnprintf_at p (127 - int p) msg b1 = (int (length body), b2)"
      using Some by (simp add: b2_def vsnprintf_at_def snprintf_at_def)
    show ?thesis
    proof (cases "log_fits lev body")
      case False
      then have "body = [] \<or> p + length body > 124" by (auto simp: log_fits_def p_def)
      then have "print_log taken lev msg w = (-4, snd (logger_unprotect (w0\<lparr>LoggerMaxBuffer := b2\<rparr>)))"
        using p v by (auto simp: step linorder_not_less Let_def)
      then show ?thesis using Some False b2 by auto
    next
      case True
      then have fits: "0 < length body" "p + length body \<le> 124" by (simp_all add: log_fits_def p_def)
      define b3 where "b3 = store_at (p + length body) [13, 10] b2"
      have line: "take (p + length body) b2 = log_prefix lev @ body"
        unfolding b2_def using buffer_msg(2) [OF pre(2) p(2) pre(3) _ Some] fits by (simp add: p_def)
      have "length (log_prefix lev @ body) = p + length body" by (simp add: p_def)
      note crlf = buffer_crlf [OF b2 fits(2) line this, folded b3_def]
      have n: "nat (int p + int (length body) + 2) = p + length body + 2"
        and m: "nat (int p) + nat (int (length body)) = p + length body" by simp_all
      have l: "length (log_line lev body) = p + length body + 2" by (simp add: log_line_def p_def)
      have out: "(word_of_int (int p + int (length body) + 2) :: u8)
                 = word_of_nat (length (log_line lev body))"
        by (simp add: l)
      have wadd: "(word_of_nat p + word_of_nat (length body) + 2 :: u8)
                  = 2 + (word_of_nat p + word_of_nat (length body))"
        by (simp add: add.commute)
      have "print_log taken lev msg w =
          (int (length (log_line lev body)),
           snd (logger_unprotect (log_send lev (log_line lev body) (w0\<lparr>LoggerMaxBuffer := b3\<rparr>))))"
        using p fits crlf(1) v out l
        by (simp add: step log_send_def linorder_not_less Let_def split_beta b3_def [symmetric]
            n m log_line_def wadd)
      then show ?thesis using Some True crlf(2) by auto
    qed
  qed
qed

section \<open>Frames and the mutex\<close>

lemma dev_tx_frame [frame_simps]:
  "LoggerBuffer (snd (logger_dev_tx_buffer ptr sz w)) = LoggerBuffer w"
  "cmd_struct_list (snd (logger_dev_tx_buffer ptr sz w)) = cmd_struct_list w"
  "LoggerMaxBuffer (snd (logger_dev_tx_buffer ptr sz w)) = LoggerMaxBuffer w"
  "fatfs_requests (snd (logger_dev_tx_buffer ptr sz w)) = fatfs_requests w"
  "mutex_held (snd (logger_dev_tx_buffer ptr sz w)) = mutex_held w"
  "level (g_logger_info (snd (logger_dev_tx_buffer ptr sz w))) = level (g_logger_info w)"
  "is_init (g_logger_info (snd (logger_dev_tx_buffer ptr sz w))) = is_init (g_logger_info w)"
  "device (g_logger_info (snd (logger_dev_tx_buffer ptr sz w))) = device (g_logger_info w)"
  "is_multi_thread_run (g_logger_info (snd (logger_dev_tx_buffer ptr sz w)))
     = is_multi_thread_run (g_logger_info w)"
  by (simp_all add: logger_dev_tx_buffer_def i2c_logger_write_def spi_logger_write_def
      eth_logger_write_def uart_logger_write_frame split: LOG_DEVICE.splits)

lemma log_send_frame [frame_simps]:
  "LoggerBuffer (log_send lev line w) = LoggerBuffer w"
  "cmd_struct_list (log_send lev line w) = cmd_struct_list w"
  "LoggerMaxBuffer (log_send lev line w) = LoggerMaxBuffer w"
  "mutex_held (log_send lev line w) = mutex_held w"
  "level (g_logger_info (log_send lev line w)) = level (g_logger_info w)"
  "is_init (g_logger_info (log_send lev line w)) = is_init (g_logger_info w)"
  "device (g_logger_info (log_send lev line w)) = device (g_logger_info w)"
  "is_multi_thread_run (g_logger_info (log_send lev line w)) = is_multi_thread_run (g_logger_info w)"
  by (simp_all add: log_send_def split_beta dev_tx_frame)

lemma unprotect_frame [frame_simps]:
  "LoggerBuffer (snd (logger_unprotect w)) = LoggerBuffer w"
  "cmd_struct_list (snd (logger_unprotect w)) = cmd_struct_list w"
  "LoggerMaxBuffer (snd (logger_unprotect w)) = LoggerMaxBuffer w"
  "g_logger_info (snd (logger_unprotect w)) = g_logger_info w"
  "fatfs_requests (snd (logger_unprotect w)) = fatfs_requests w"
  "txe_ie (snd (logger_unprotect w)) = txe_ie w"
  "usart_sent (snd (logger_unprotect w)) = usart_sent w"
  by (simp_all add: logger_unprotect_def)

lemma protect_frame:
  assumes "logger_protect taken w = (res, w0)"
  shows "LoggerBuffer w0 = LoggerBuffer w" and "cmd_struct_list w0 = cmd_struct_list w"
    and "LoggerMaxBuffer w0 = LoggerMaxBuffer w" and "g_logger_info w0 = g_logger_info w"
    and "fatfs_requests w0 = fatfs_requests w" and "txe_ie w0 = txe_ie w"
    and "usart_sent w0 = usart_sent w"
  using assms by (auto simp: logger_protect_def split: if_splits)

lemma unprotect_mutex:
  "\<not> mutex_held w \<or> is_multi_thread_run (g_logger_info w) \<noteq> 0
   \<Longrightarrow> \<not> mutex_held (snd (logger_unprotect w))"
  by (auto simp: logger_unprotect_def)

lemma protect_mutex:
  assumes "logger_protect taken w = (res, w0)" and "\<not> mutex_held w"
  shows "\<not> mutex_held w0 \<or> is_multi_thread_run (g_logger_info w0) \<noteq> 0"
  using assms by (auto simp: logger_protect_def split: if_splits)

text \<open>The early exits, where nothing happens.\<close>

lemma print_log_silent:
  assumes "is_init (g_logger_info w) \<noteq> 1 \<or> lev AND NOT LOG_RECORD < level (g_logger_info w)
           \<or> fst (logger_protect taken w) = GLOBAL_ERROR"
  shows "snd (print_log taken lev msg w) = w"
proof -
  consider "is_init (g_logger_info w) \<noteq> 1" | "lev AND NOT LOG_RECORD < level (g_logger_info w)"
    | "fst (logger_protect taken w) = GLOBAL_ERROR" using assms by blast
  then show ?thesis
  proof cases
    case 3
    then have "logger_protect taken w = (GLOBAL_ERROR, w)"
      by (auto simp: logger_protect_def split: if_splits)
    then show ?thesis by (simp add: print_log_def)
  qed (simp_all add: print_log_def)
qed

lemma print_log_result:
  assumes "length (LoggerMaxBuffer w) = 128"
  obtains (silent) "snd (print_log taken lev msg w) = w"
  | (quiet) w0 buf where "logger_protect taken w = (GLOBAL_OK, w0)" and "length buf = 128"
      and "snd (print_log taken lev msg w) = snd (logger_unprotect (w0\<lparr>LoggerMaxBuffer := buf\<rparr>))"
  | (sent) w0 buf body where "logger_protect taken w = (GLOBAL_OK, w0)" and "length buf = 128"
      and "log_fits lev body"
      and "snd (print_log taken lev msg w)
           = snd (logger_unprotect (log_send lev (log_line lev body) (w0\<lparr>LoggerMaxBuffer := buf\<rparr>)))"
proof (cases "is_init (g_logger_info w) \<noteq> 1 \<or> lev AND NOT LOG_RECORD < level (g_logger_info w)
           \<or> fst (logger_protect taken w) = GLOBAL_ERROR")
  case True
  then show thesis by (intro silent print_log_silent)
next
  case False
  then have ok: "is_init (g_logger_info w) = 1" "level (g_logger_info w) \<le> lev AND NOT LOG_RECORD"
    and "fst (logger_protect taken w) = GLOBAL_OK"
    by (auto simp: linorder_not_less intro: GlobalType_t.exhaust)
  then obtain w0 where lock: "logger_protect taken w = (GLOBAL_OK, w0)"
    by (cases "logger_protect taken w") auto
  obtain buf where b: "length buf = 128" and res: "print_log taken lev msg w =
     (case msg of
        Some body \<Rightarrow>
          if log_fits lev body
          then (int (length (log_line lev body)),
                snd (logger_unprotect (log_send lev (log_line lev body) (w0\<lparr>LoggerMaxBuffer := buf\<rparr>))))
          else (-4, snd (logger_unprotect (w0\<lparr>LoggerMaxBuffer := buf\<rparr>)))
      | None \<Rightarrow> (-4, snd (logger_unprotect (w0\<lparr>LoggerMaxBuffer := buf\<rparr>))))"
    using print_log_cases [OF ok(1) assms ok(2) lock, of msg] by blast
  show thesis
  proof (cases "\<exists>body. msg = Some body \<and> log_fits lev body")
    case True
    then obtain body where "msg = Some body" "log_fits lev body" by blast
    then show thesis using sent [OF lock b] res by simp
  next
    case False
    then show thesis using quiet [OF lock b] res by (auto split: option.splits)
  qed
qed

lemma print_log_frame:
  assumes "length (LoggerMaxBuffer w) = 128"
  shows "LoggerBuffer (snd (print_log taken lev msg w)) = LoggerBuffer w"
    and "cmd_struct_list (snd (print_log taken lev msg w)) = cmd_struct_list w"
    and "length (LoggerMaxBuffer (snd (print_log taken lev msg w))) = 128"
    and "level (g_logger_info (snd (print_log taken lev msg w))) = level (g_logger_info w)"
    and "is_init (g_logger_info (snd (print_log taken lev msg w))) = is_init (g_logger_info w)"
    and "device (g_logger_info (snd (print_log taken lev msg w))) = device (g_logger_info w)"
    and "\<not> mutex_held w \<Longrightarrow> \<not> mutex_held (snd (print_log taken lev msg w))"
proof -
  have "LoggerBuffer (snd (print_log taken lev msg w)) = LoggerBuffer w
      \<and> cmd_struct_list (snd (print_log taken lev msg w)) = cmd_struct_list w
      \<and> length (LoggerMaxBuffer (snd (print_log taken lev msg w))) = 128
      \<and> level (g_logger_info (snd (print_log taken lev msg w))) = level (g_logger_info w)
      \<and> is_init (g_logger_info (snd (print_log taken lev msg w))) = is_init (g_logger_info w)
      \<and> device (g_logger_info (snd (print_log taken lev msg w))) = device (g_logger_info w)
      \<and> (\<not> mutex_held w \<longrightarrow> \<not> mutex_held (snd (print_log taken lev msg w)))"
    using assms
  proof (cases rule: print_log_result [where taken = taken and lev = lev and msg = msg])
    case silent
    then show ?thesis using assms by simp
  next
    case (quiet w0 buf)
    then show ?thesis
      using protect_mutex [OF quiet(1)] protect_frame [OF quiet(1)]
        unprotect_mutex [of "w0\<lparr>LoggerMaxBuffer := buf\<rparr>"]
      by (simp add: frame_simps)
  next
    case (sent w0 buf body)
    then show ?thesis
      using protect_mutex [OF sent(1)] protect_frame [OF sent(1)]
        unprotect_mutex [of "log_send lev (log_line lev body) (w0\<lparr>LoggerMaxBuffer := buf\<rparr>)"]
      by (simp add: frame_simps)
  qed
  then show "LoggerBuffer (snd (print_log taken lev msg w)) = LoggerBuffer w"
    and "cmd_struct_list (snd (print_log taken lev msg w)) = cmd_struct_list w"
    and "length (LoggerMaxBuffer (snd (print_log taken lev msg w))) = 128"
    and "level (g_logger_info (snd (print_log taken lev msg w))) = level (g_logger_info w)"
    and "is_init (g_logger_info (snd (print_log taken lev msg w))) = is_init (g_logger_info w)"
    and "device (g_logger_info (snd (print_log taken lev msg w))) = device (g_logger_info w)"
    and "\<not> mutex_held w \<Longrightarrow> \<not> mutex_held (snd (print_log taken lev msg w))"
    by auto
qed

lemma log_send_usart:
  assumes "usart_ready w" and "1 < length line" and "length line < 256"
  shows "pending (log_send lev line w) = snd (offer line (pending w))
     \<and> received (log_send lev line w) = received w \<and> usart_ready (log_send lev line w)
     \<and> fatfs_requests (log_send lev line w)
       = fatfs_requests w @ (if lev AND LOG_RECORD \<noteq> 0 then [Fatfs_Write line] else [])"
proof -
  have d: "device (g_logger_info w) = LOG_DEVICE_USART" using assms by (simp add: usart_ready_def)
  have l: "length line = unat (word_of_nat (length line) :: u8)"
    using assms(3) by (simp add: unat_of_nat)
  let ?r = "uart_logger_write line (word_of_nat (length line)) w"
  have "(fst ?r, pending (snd ?r)) = offer line (pending w) \<and> received (snd ?r) = received w
        \<and> usart_ready (snd ?r)"
    using uart_logger_write_spec [OF assms(1) l] by (simp add: split_beta Let_def)
  then show ?thesis
    using d by (auto simp: log_send_def logger_dev_tx_buffer_def split_beta uart_logger_write_frame
        usart_ready_def dest: sym [of _ "offer _ _"])
qed

lemma print_log_ready:
  assumes "usart_ready w" and "length (LoggerMaxBuffer w) = 128"
  shows "usart_ready (snd (print_log taken lev msg w))
       \<and> received (snd (print_log taken lev msg w)) = received w"
  using assms(2)
proof (cases rule: print_log_result [where taken = taken and lev = lev and msg = msg])
  case silent
  then show ?thesis using assms by simp
next
  case (quiet w0 buf)
  then show ?thesis
    using assms(1) protect_frame [OF quiet(1)] by (simp add: usart_ready_def frame_simps)
next
  case (sent w0 buf body)
  then have "usart_ready (w0\<lparr>LoggerMaxBuffer := buf\<rparr>)"
    and "received (w0\<lparr>LoggerMaxBuffer := buf\<rparr>) = received w"
    using assms(1) protect_frame [OF sent(1)] by (simp_all add: usart_ready_def)
  then show ?thesis
    using sent log_send_usart [of "w0\<lparr>LoggerMaxBuffer := buf\<rparr>" "log_line lev body" lev]
    by (simp add: usart_ready_def frame_simps log_fits_def log_line_def)
qed

section \<open>Initialisation\<close>

text \<open>
  \<open>usart\<close> is the result of the serial port's own initialisation, \<open>mutex\<close> whether FreeRTOS could
  create the mutex.
\<close>

definition cmd_protocol_init :: "world \<Rightarrow> world" where
  "cmd_protocol_init w =
     w\<lparr>LoggerBuffer := \<lparr>cmd_index = 0, rx_buffer = replicate 33 0\<rparr>,
       cmd_struct_list := map (\<lambda>e. e\<lparr>comsize := word_of_nat (length (c_str (command e)))\<rparr>)
                              (cmd_struct_list w)\<rparr>"

definition logger_init :: "BaseType_t \<Rightarrow> bool \<Rightarrow> world \<Rightarrow> GlobalType_t \<times> world" where
  "logger_init usart mutex w =
     (if usart \<noteq> pdPASS then (GLOBAL_ERROR, w)
      else
        let w = w\<lparr>g_logger_info := (g_logger_info w)
                   \<lparr>LoggerTxBufferInfo := CircularBufferInit LOGGER_BUFFER_SIZE (replicate 2048 0),
                    LoggerRxBufferInfo := CircularBufferInit LOGGER_BUFFER_SIZE (replicate 2048 0)\<rparr>\<rparr>;
            w = cmd_protocol_init w;
            w = w\<lparr>g_logger_info := (g_logger_info w)
                   \<lparr>is_init := 1, level := DEFAULT_LOGGER_LEVEL, device := DEFAULT_LOGGER_DEV,
                    is_multi_thread_run := 0\<rparr>\<rparr>;
            w = w\<lparr>g_logger_info := (g_logger_info w)\<lparr>protect := mutex\<rparr>\<rparr>
        in if \<not> mutex then (GLOBAL_ERROR, w) else (GLOBAL_OK, w))"

lemma logger_init_ready:
  assumes "logger_init pdPASS mutex w = (res, w')"
  shows "usart_ready w' \<and> pending w' = [] \<and> received w' = [] \<and> LoggerMaxBuffer w' = LoggerMaxBuffer w
         \<and> cmd_index (LoggerBuffer w') = 0 \<and> length (rx_buffer (LoggerBuffer w')) = 33"
proof -
  have "logger_buf_ok (CircularBufferInit LOGGER_BUFFER_SIZE (replicate 2048 0))"
    by (simp add: logger_buf_ok_def LOGGER_BUFFER_SIZE_def cb_inv_init)
  then show ?thesis
    using assms
    by (auto simp: logger_init_def cmd_protocol_init_def usart_ready_def logger_inv_def
        DEFAULT_LOGGER_DEV_def Let_def split: if_splits)
qed

lemma print_log_line:
  assumes "usart_ready w" and "length (LoggerMaxBuffer w) = 128" and "\<not> mutex_held w"
    and "level (g_logger_info w) \<le> lev AND NOT LOG_RECORD" and "log_fits lev body"
    and "is_multi_thread_run (g_logger_info w) = 0 \<or> taken"
  shows "let (r, w') = print_log taken lev (Some body) w in
           r = int (length (log_line lev body)) \<and> pending w' = snd (offer (log_line lev body) (pending w))
         \<and> fatfs_requests w' = fatfs_requests w @ (if lev AND LOG_RECORD \<noteq> 0 then [Fatfs_Write (log_line lev body)] else [])
         \<and> \<not> mutex_held w'"
proof -
  have init: "is_init (g_logger_info w) = 1" using assms(1) by (simp add: usart_ready_def logger_inv_def)
  obtain w0 where lock: "logger_protect taken w = (GLOBAL_OK, w0)"
    using assms(6) by (cases "is_multi_thread_run (g_logger_info w) = 0") (auto simp: logger_protect_def)
  note p = protect_frame [OF lock]
  obtain buf where b: "length buf = 128" "print_log taken lev (Some body) w =
      (int (length (log_line lev body)),
       snd (logger_unprotect (log_send lev (log_line lev body) (w0\<lparr>LoggerMaxBuffer := buf\<rparr>))))"
    using print_log_cases [OF init assms(2,4) lock, of "Some body"] assms(5) by auto
  have r0: "usart_ready (w0\<lparr>LoggerMaxBuffer := buf\<rparr>)" using assms(1) p by (simp add: usart_ready_def)
  have l: "1 < length (log_line lev body)" "length (log_line lev body) < 256"
    using assms(5) by (simp_all add: log_line_def log_fits_def)
  have "\<not> mutex_held (snd (print_log taken lev (Some body) w))"
    using print_log_frame(7) [OF assms(2)] assms(3) by blast
  then show ?thesis
    using log_send_usart [OF r0 l, of lev] p by (simp add: b(2) Let_def frame_simps)
qed

section \<open>Properties\<close>

text \<open>
  C11. For a message at or above the level that fits the 128-byte buffer and whose mutex is
  obtained, print_log returns the length of the line 'level:<n> info:<text>CR LF', offers exactly
  that line to the transmit queue (all of it or nothing), hands it to the file log exactly when the
  record flag is set, and releases the mutex.
\<close>

theorem print_log_sends_line:
  assumes "usart_ready w" and "length (LoggerMaxBuffer w) = 128" and "\<not> mutex_held w"
    and "level (g_logger_info w) \<le> lev AND NOT LOG_RECORD" and "log_fits lev body"
    and "is_multi_thread_run (g_logger_info w) = 0 \<or> taken"
  shows "let (r, w') = print_log taken lev (Some body) w in
           r = int (length (log_line lev body)) \<and> pending w' = snd (offer (log_line lev body) (pending w))
         \<and> fatfs_requests w' = fatfs_requests w @ (if lev AND LOG_RECORD \<noteq> 0 then [Fatfs_Write (log_line lev body)] else [])
         \<and> \<not> mutex_held w'"
  using assms by (rule print_log_line)

theorem print_log_sends_line_witness:
  "let (r, w') = print_log False LOG_ERROR (Some (str_bytes ''hi'')) demo_port
   in r = 17 \<and> pending w' = str_bytes ''level:4 info:'' @ str_bytes ''hi'' @ [13, 10]"
proof -
  have lev: "LOG_ERROR AND NOT LOG_RECORD = 4" by (simp add: LOG_ERROR_def LOG_RECORD_def)
  have p: "log_prefix LOG_ERROR = str_bytes ''level:4 info:''"
    unfolding log_prefix_def lev by (simp add: dec_str.simps str_bytes_def)
  have l: "length (str_bytes ''level:4 info:'') = 13" "length (str_bytes ''hi'') = 2" by simp_all
  have f: "log_fits LOG_ERROR (str_bytes ''hi'')" by (simp add: log_fits_def p str_bytes_def)
  have "level (g_logger_info demo_port) \<le> LOG_ERROR AND NOT LOG_RECORD"
    unfolding lev by (simp add: demo_port_facts LOG_DEBUG_def)
  from print_log_sends_line [OF demo_port_ready(1) demo_port_facts(1,2) this f, of False] show ?thesis
    by (simp add: demo_port_facts demo_port_ready(2) offer_def log_line_def p l Let_def split_beta)
qed

text \<open>
  C35. print_log keeps the serial port's invariant and the line buffer's size, never keeps the
  mutex, and never touches the command line or the receive queue, whatever the level, text and mutex
  outcome.
\<close>

theorem print_log_keeps_invariants:
  assumes "usart_ready w" and "length (LoggerMaxBuffer w) = 128"
  shows "usart_ready (snd (print_log taken lev msg w))
    \<and> length (LoggerMaxBuffer (snd (print_log taken lev msg w))) = 128
    \<and> (\<not> mutex_held w \<longrightarrow> \<not> mutex_held (snd (print_log taken lev msg w)))
    \<and> LoggerBuffer (snd (print_log taken lev msg w)) = LoggerBuffer w
    \<and> received (snd (print_log taken lev msg w)) = received w"
  using print_log_ready [OF assms, of taken lev msg] print_log_frame [OF assms(2), of taken lev msg] by simp

theorem print_log_keeps_invariants_witness:
  "\<not> mutex_held (snd (print_log True LOG_TRACE None demo_port))
   \<and> length (LoggerMaxBuffer (snd (print_log True LOG_TRACE None demo_port))) = 128"
  using print_log_keeps_invariants [OF demo_port_ready(1), of True LOG_TRACE None]
  by (simp add: demo_port_facts)

end
