(* ===== verification/Cmd_Process.thy ===== *)
theory Cmd_Process
  imports Logger
begin

text \<open>
  The command interpreter of the log console (\<^verbatim>\<open>UsrParts/logger/cmd_process.c\<close>) and the idle-time
  function that feeds it (\<^verbatim>\<open>logger_process_run\<close>). Received characters are collected into a line of at
  most 32 bytes; a line feed, or a full buffer, looks the first word up in the command table and runs
  the handler. The parameter \<open>tk\<close> says whether the messages printed on the way obtain the mutex.
\<close>

section \<open>Handlers and table\<close>

definition cmd_show_all :: "bool \<Rightarrow> u8 \<Rightarrow> world \<Rightarrow> u16 \<times> world" where
  "cmd_show_all tk len w =
     (let (_, w) = print_log tk LOG_INFO (Some (str_bytes ''show all'')) w in (ucast len, w))"

definition cmd_help :: "bool \<Rightarrow> u8 \<Rightarrow> world \<Rightarrow> u16 \<times> world" where
  "cmd_help tk len w = (ucast len, w)"

definition cmd_save :: "bool \<Rightarrow> u8 \<Rightarrow> world \<Rightarrow> u16 \<times> world" where
  "cmd_save tk len w =
     (let w = w\<lparr>fatfs_requests := fatfs_requests w @ [Fatfs_Close]\<rparr>;
          (_, w) = print_log tk LOG_INFO (Some (str_bytes ''save logger info'')) w
      in (ucast len, w))"

fun call_comfunc :: "func_ptr \<Rightarrow> bool \<Rightarrow> u8 \<Rightarrow> world \<Rightarrow> u16 \<times> world" where
  "call_comfunc Cmd_Show_All = cmd_show_all"
| "call_comfunc Cmd_Help = cmd_help"
| "call_comfunc Cmd_Save = cmd_save"

definition cmd_entry :: "string \<Rightarrow> func_ptr \<Rightarrow> CMD_COMMAND_STRUCT" where
  "cmd_entry s f = \<lparr>command = str_bytes s @ [0], comsize = 0, comfunc = f\<rparr>"

definition cmd_struct_list_init :: "CMD_COMMAND_STRUCT list" where
  "cmd_struct_list_init =
     [cmd_entry ''!showall'' Cmd_Show_All, cmd_entry ''!save'' Cmd_Save,
      cmd_entry ''!help'' Cmd_Help, cmd_entry ''!?'' Cmd_Help]"

definition CMD_SEARCH_NULL :: u8 where "CMD_SEARCH_NULL = 0xFF"
definition COMMAND_MAX_SIZE :: u8 where "COMMAND_MAX_SIZE = 32"

section \<open>Operations\<close>

text \<open>The search loop: the index at which it stops.\<close>

fun search_loop :: "u8 list \<Rightarrow> u8 \<Rightarrow> CMD_COMMAND_STRUCT list \<Rightarrow> u8 \<Rightarrow> u8" where
  "search_loop pbuffer cmd_size [] index = index"
| "search_loop pbuffer cmd_size (e # es) index =
     (if cmd_size = comsize e \<and> strncmp_eq pbuffer (command e) (unat cmd_size) then index
      else search_loop pbuffer cmd_size es (index + 1))"

definition search_cmd_list :: "u8 list \<Rightarrow> u8 \<Rightarrow> world \<Rightarrow> u8" where
  "search_cmd_list pbuffer cmd_size w =
     (let cmd_struct_size = word_of_nat (length (cmd_struct_list w));
          index = search_loop pbuffer cmd_size (cmd_struct_list w) 0
      in if index \<ge> cmd_struct_size then CMD_SEARCH_NULL else index)"

definition cmd_protocol_process :: "bool \<Rightarrow> u8 list \<Rightarrow> u8 \<Rightarrow> world \<Rightarrow> world" where
  "cmd_protocol_process tk pbuffer len w =
     (let cmd_struct_size = word_of_nat (length (cmd_struct_list w));
          (headsize, datasize) =
            (case strchr pbuffer 32 of
               None \<Rightarrow> (len, 0)
             | Some n \<Rightarrow> (word_of_nat n, len - word_of_nat n - 1));
          index = search_cmd_list pbuffer headsize w
      in if index < cmd_struct_size
         then snd (call_comfunc (comfunc (cmd_struct_list w ! unat index)) tk datasize w)
         else snd (print_log tk LOG_ERROR
                     (Some (str_bytes ''cmd search failed:'' @ dec_str (unat index) @ str_bytes ''!'')) w))"

definition cmd_process :: "bool \<Rightarrow> u8 \<Rightarrow> world \<Rightarrow> world" where
  "cmd_process tk c w =
     (let b = LoggerBuffer w;
          b = (if c \<noteq> 13 \<and> c \<noteq> 10
               then b\<lparr>rx_buffer := (rx_buffer b)[unat (cmd_index b) := c], cmd_index := cmd_index b + 1\<rparr>
               else b);
          w = w\<lparr>LoggerBuffer := b\<rparr>
      in if c = 10 \<or> cmd_index b \<ge> COMMAND_MAX_SIZE then
           (let b = b\<lparr>rx_buffer := (rx_buffer b)[unat (cmd_index b) := 0]\<rparr>;
                w = w\<lparr>LoggerBuffer := b\<rparr>;
                w = cmd_protocol_process tk (rx_buffer b) (cmd_index b) w
            in w\<lparr>LoggerBuffer := (LoggerBuffer w)\<lparr>cmd_index := 0\<rparr>\<rparr>)
         else w)"

definition logger_process_run :: "bool \<Rightarrow> world \<Rightarrow> world" where
  "logger_process_run tk w =
     (if is_init (g_logger_info w) = 1 then
        if \<not> CircularBufferIsEmpty (LoggerRxBufferInfo (g_logger_info w)) then
          let (c, cb) = CircularBufferGet (LoggerRxBufferInfo (g_logger_info w));
              w = w\<lparr>g_logger_info := (g_logger_info w)\<lparr>LoggerRxBufferInfo := cb\<rparr>\<rparr>
          in cmd_process tk (case c of Some x \<Rightarrow> x | None \<Rightarrow> 0) w
        else w
      else w)"

section \<open>The line buffer stays in bounds\<close>

definition cmd_inv :: "world \<Rightarrow> bool" where
  "cmd_inv w \<longleftrightarrow> length (LoggerMaxBuffer w) = 128
     \<and> cmd_index (LoggerBuffer w) < 32 \<and> length (rx_buffer (LoggerBuffer w)) = 33"

lemma call_comfunc_frame:
  assumes "length (LoggerMaxBuffer w) = 128"
  shows "LoggerBuffer (snd (call_comfunc f tk len w)) = LoggerBuffer w"
    and "cmd_struct_list (snd (call_comfunc f tk len w)) = cmd_struct_list w"
    and "length (LoggerMaxBuffer (snd (call_comfunc f tk len w))) = 128"
  using assms
  by (cases f; simp add: cmd_show_all_def cmd_help_def cmd_save_def split_beta print_log_frame)+

lemma protocol_frame:
  assumes "length (LoggerMaxBuffer w) = 128"
  shows "LoggerBuffer (cmd_protocol_process tk pbuffer len w) = LoggerBuffer w"
    and "cmd_struct_list (cmd_protocol_process tk pbuffer len w) = cmd_struct_list w"
    and "length (LoggerMaxBuffer (cmd_protocol_process tk pbuffer len w)) = 128"
  using assms
  by (simp_all add: cmd_protocol_process_def Let_def split_beta call_comfunc_frame print_log_frame)

text \<open>
  The two stores of \<open>cmd_process\<close> hit indices below 33, and the buffer is ready for the next
  character afterwards.
\<close>

lemma cmd_process_inv:
  assumes "cmd_inv w"
  shows "cmd_inv (cmd_process tk c w)"
    and "unat (cmd_index (LoggerBuffer w) + 1) < length (rx_buffer (LoggerBuffer w))"
proof -
  let ?i = "cmd_index (LoggerBuffer w)"
  have i: "?i < 32" using assms by (simp add: cmd_inv_def)
  then have n: "unat (?i + 1) = Suc (unat ?i)" by (rule unat_add_one_less)
  show "unat (?i + 1) < length (rx_buffer (LoggerBuffer w))"
    using n i assms by (simp add: cmd_inv_def word_less_nat_alt)
  show "cmd_inv (cmd_process tk c w)"
    using assms
    by (auto simp: cmd_inv_def cmd_process_def Let_def protocol_frame COMMAND_MAX_SIZE_def
        linorder_not_le)
qed

lemma cmd_process_ready:
  assumes "usart_ready w" and "length (LoggerMaxBuffer w) = 128"
  shows "usart_ready (cmd_process tk c w) \<and> received (cmd_process tk c w) = received w"
proof -
  have p: "usart_ready (snd (print_log tk lev msg v)) \<and> received (snd (print_log tk lev msg v)) = received w"
    if "usart_ready v" "length (LoggerMaxBuffer v) = 128" "received v = received w" for v lev msg
    using print_log_ready [OF that(1,2)] that(3) by simp
  have f: "usart_ready (snd (call_comfunc f tk len v)) \<and> received (snd (call_comfunc f tk len v)) = received w"
    if "usart_ready v" "length (LoggerMaxBuffer v) = 128" "received v = received w" for v f len
    using that p [of v] p [of "v\<lparr>fatfs_requests := fatfs_requests v @ [Fatfs_Close]\<rparr>"]
    by (cases f) (simp_all add: cmd_show_all_def cmd_help_def cmd_save_def split_beta usart_ready_def)
  have "usart_ready (cmd_protocol_process tk pb len v) \<and> received (cmd_protocol_process tk pb len v) = received w"
    if "usart_ready v" "length (LoggerMaxBuffer v) = 128" "received v = received w" for v pb len
    using p [OF that] f [OF that] by (simp add: cmd_protocol_process_def Let_def split_beta)
  note q = this [unfolded usart_ready_def]
  show ?thesis
    using assms by (simp add: cmd_process_def Let_def usart_ready_def q)
qed

section \<open>Looking a command up\<close>

definition table_ok :: "CMD_COMMAND_STRUCT list \<Rightarrow> bool" where
  "table_ok es \<longleftrightarrow> length es < 255
     \<and> (\<forall>e \<in> set es. \<exists>name. command e = name @ [0] \<and> 0 \<notin> set name \<and> length name < 256
                         \<and> comsize e = word_of_nat (length name))"

text \<open>What the lookup means: the first entry whose name is the given word.\<close>

fun find_command :: "u8 list \<Rightarrow> CMD_COMMAND_STRUCT list \<Rightarrow> func_ptr option" where
  "find_command word [] = None"
| "find_command word (e # es) =
     (if c_str (command e) = word then Some (comfunc e) else find_command word es)"

lemma search_entry:
  assumes "c_str pbuffer = ln" and "length ln < 256" and "n \<le> length ln"
    and "command e = name @ [0]" and "0 \<notin> set name" and "length name < 256"
    and "comsize e = word_of_nat (length name)"
  shows "(word_of_nat n = comsize e \<and> strncmp_eq pbuffer (command e) (unat (word_of_nat n :: u8)))
         \<longleftrightarrow> take n ln = name"
proof -
  have n: "unat (word_of_nat n :: u8) = n" and m: "unat (word_of_nat (length name) :: u8) = length name"
    using assms by (simp_all add: unat_of_nat)
  have "word_of_nat n = comsize e \<longleftrightarrow> n = length name"
    using n m assms(7) by (metis word_unat_eq_iff)
  moreover have "c_str (command e) = name"
    using assms(4,5) c_str_no_nul [of name "[]"] by simp
  moreover have "take n ln = name \<Longrightarrow> n = length name" using assms(3) by auto
  moreover have "take n name = name" if "n = length name" using that by simp
  ultimately show ?thesis
    unfolding strncmp_eq_def n assms(1) by metis
qed

lemma search_loop_find:
  assumes "c_str pbuffer = ln" and "length ln < 256" and "n \<le> length ln" and "table_ok es"
    and "k + length es < 256"
  shows "case find_command (take n ln) es of
           None \<Rightarrow> search_loop pbuffer (word_of_nat n) es (word_of_nat k) = word_of_nat (k + length es)
         | Some f \<Rightarrow> \<exists>j < length es. comfunc (es ! j) = f
              \<and> search_loop pbuffer (word_of_nat n) es (word_of_nat k) = word_of_nat (k + j)"
  using assms(4,5)
proof (induction es arbitrary: k)
  case Nil
  then show ?case by simp
next
  case (Cons e es)
  obtain name where name: "command e = name @ [0]" "0 \<notin> set name" "length name < 256"
    "comsize e = word_of_nat (length name)"
    using Cons.prems(1) by (auto simp: table_ok_def)
  have c: "c_str (command e) = name" using name c_str_no_nul [of name "[]"] by simp
  note hit = search_entry [OF assms(1-3) name]
  show ?case
  proof (cases "take n ln = name")
    case True
    then show ?thesis using hit c by force
  next
    case False
    have "table_ok es" using Cons.prems(1) by (simp add: table_ok_def)
    moreover have "Suc k + length es < 256" using Cons.prems(2) by simp
    ultimately show ?thesis
      using Cons.IH [of "Suc k"] False hit c
      by (auto split: option.splits simp: add.commute intro: exI [of _ "Suc _"])
  qed
qed

lemma search_cmd_list_find:
  assumes "c_str pbuffer = ln" and "length ln < 256" and "n \<le> length ln"
    and ok: "table_ok (cmd_struct_list w)"
  shows "case find_command (take n ln) (cmd_struct_list w) of
           None \<Rightarrow> search_cmd_list pbuffer (word_of_nat n) w = CMD_SEARCH_NULL
         | Some f \<Rightarrow> unat (search_cmd_list pbuffer (word_of_nat n) w) < length (cmd_struct_list w)
              \<and> comfunc (cmd_struct_list w ! unat (search_cmd_list pbuffer (word_of_nat n) w)) = f"
proof -
  let ?es = "cmd_struct_list w"
  have len: "0 + length ?es < 256" using ok by (simp add: table_ok_def)
  have u: "unat (word_of_nat j :: u8) = j" if "j \<le> length ?es" for j
    using that len by (simp add: unat_of_nat)
  show ?thesis
    using search_loop_find [OF assms(1-3) ok len] u
    by (auto simp: search_cmd_list_def Let_def word_le_nat_alt split: option.splits)
qed

text \<open>The whole dispatch, for a NUL-free line followed by its terminator.\<close>

definition run_word :: "bool \<Rightarrow> u8 list \<Rightarrow> u8 \<Rightarrow> world \<Rightarrow> world" where
  "run_word tk word datasize w =
     (case find_command word (cmd_struct_list w) of
        Some f \<Rightarrow> snd (call_comfunc f tk datasize w)
      | None \<Rightarrow> snd (print_log tk LOG_ERROR (Some (str_bytes ''cmd search failed:255!'')) w))"

definition first_word :: "u8 list \<Rightarrow> u8 list" where
  "first_word ln = takeWhile (\<lambda>x. x \<noteq> 32) ln"

definition data_size :: "u8 list \<Rightarrow> nat" where
  "data_size ln = length ln - length (first_word ln) - 1"

lemma fail_text: "str_bytes ''cmd search failed:'' @ dec_str 255 @ str_bytes ''!''
                  = str_bytes ''cmd search failed:255!''"
  by (simp add: str_bytes_def dec_str.simps)

lemma protocol_run_word:
  assumes ok: "table_ok (cmd_struct_list w)" and nul: "0 \<notin> set ln" and len: "length ln < 256"
  shows "cmd_protocol_process tk (ln @ 0 # rest) (word_of_nat (length ln)) w
         = run_word tk (first_word ln) (word_of_nat (data_size ln)) w"
proof -
  let ?n = "length (first_word ln)"
  have c: "c_str (ln @ 0 # rest) = ln" using nul by (rule c_str_no_nul)
  have n: "?n \<le> length ln" by (simp add: first_word_def length_takeWhile_le)
  have tk: "take ?n ln = first_word ln" unfolding first_word_def by (rule takeWhile_eq_take [symmetric])
  have sc: "strchr (ln @ 0 # rest) 32 = (if ?n < length ln then Some ?n else None)"
    by (simp add: strchr_def c first_word_def Let_def)
  have head: "(case strchr (ln @ 0 # rest) 32 of
                 None \<Rightarrow> (word_of_nat (length ln), 0)
               | Some n \<Rightarrow> (word_of_nat n, word_of_nat (length ln) - word_of_nat n - 1))
              = (word_of_nat ?n :: u8, word_of_nat (data_size ln) :: u8)"
    using n by (simp add: sc data_size_def of_nat_diff)
  have size: "unat (word_of_nat (length (cmd_struct_list w)) :: u8) = length (cmd_struct_list w)"
    and less: "length (cmd_struct_list w) < 255"
    using ok by (simp_all add: table_ok_def unat_of_nat)
  show ?thesis
    using search_cmd_list_find [OF c len n ok] size less
    unfolding cmd_protocol_process_def Let_def head prod.case run_word_def tk
    by (simp add: CMD_SEARCH_NULL_def word_less_nat_alt fail_text split: option.splits)
qed

section \<open>A line from the serial port\<close>

lemma table_init_ok: "table_ok (cmd_struct_list (cmd_protocol_init (w\<lparr>cmd_struct_list := cmd_struct_list_init\<rparr>)))"
proof -
  have "\<exists>name. command e = name @ [0] \<and> 0 \<notin> set name \<and> length name < 256
            \<and> word_of_nat (length (c_str (command e))) = (word_of_nat (length name) :: u8)"
    if mem: "e \<in> set cmd_struct_list_init" for e
  proof -
    obtain s f where e: "e = cmd_entry s f" and s: "s \<in> {''!showall'', ''!save'', ''!help'', ''!?''}"
      using mem by (auto simp: cmd_struct_list_init_def intro: that)
    have "0 \<notin> set (str_bytes s)" using s by (auto simp: str_bytes_def)
    then show ?thesis
      using s c_str_no_nul [of "str_bytes s" "[]"] by (auto simp: e cmd_entry_def)
  qed
  then show ?thesis
    by (auto simp: table_ok_def cmd_protocol_init_def cmd_struct_list_init_def)
qed

definition plain_char :: "u8 \<Rightarrow> bool" where
  "plain_char c \<longleftrightarrow> c \<noteq> 0 \<and> c \<noteq> 10 \<and> c \<noteq> 13"

text \<open>Characters of a line are only collected.\<close>

definition collected :: "u8 list \<Rightarrow> world \<Rightarrow> world" where
  "collected cs w = w\<lparr>LoggerBuffer :=
     \<lparr>cmd_index = word_of_nat (length cs), rx_buffer = cs @ drop (length cs) (rx_buffer (LoggerBuffer w))\<rparr>\<rparr>"

lemma collected_g:
  "(collected cs w)\<lparr>g_logger_info := g\<rparr> = collected cs (w\<lparr>g_logger_info := g\<rparr>)"
  by (cases w) (simp add: collected_def)

lemma cmd_process_collect:
  assumes "plain_char c" and "length cs < 31" and "length (rx_buffer (LoggerBuffer w)) = 33"
  shows "cmd_process tk c (collected cs w) = collected (cs @ [c]) w"
proof -
  have u: "unat (word_of_nat (length cs) :: u8) = length cs"
    and v: "unat (1 + word_of_nat (length cs) :: u8) = Suc (length cs)"
    using assms(2) by (simp_all add: unat_word_ariths unat_of_nat)
  have lim: "\<not> COMMAND_MAX_SIZE \<le> 1 + word_of_nat (length cs)"
    unfolding word_le_nat_alt v COMMAND_MAX_SIZE_def using assms(2) by simp
  have "drop (length cs) (rx_buffer (LoggerBuffer w))
        = rx_buffer (LoggerBuffer w) ! length cs # drop (Suc (length cs)) (rx_buffer (LoggerBuffer w))"
    using assms(2,3) by (simp add: Cons_nth_drop_Suc)
  then show ?thesis
    using assms u lim
    by (simp add: cmd_process_def collected_def plain_char_def Let_def add.commute)
qed

lemma cmd_process_newline:
  assumes "length cs < 32" and "length (rx_buffer (LoggerBuffer w)) = 33"
    and "0 \<notin> set cs" and "table_ok (cmd_struct_list w)"
  shows "cmd_process tk 10 (collected cs w) =
     (let w' = run_word tk (first_word cs) (word_of_nat (data_size cs))
                 (w\<lparr>LoggerBuffer := \<lparr>cmd_index = word_of_nat (length cs),
                      rx_buffer = cs @ 0 # drop (Suc (length cs)) (rx_buffer (LoggerBuffer w))\<rparr>\<rparr>)
      in w'\<lparr>LoggerBuffer := (LoggerBuffer w')\<lparr>cmd_index := 0\<rparr>\<rparr>)"
proof -
  have u: "unat (word_of_nat (length cs) :: u8) = length cs"
    using assms(1) by (simp add: unat_of_nat)
  have d: "(cs @ drop (length cs) (rx_buffer (LoggerBuffer w)))[length cs := 0]
        = cs @ 0 # drop (Suc (length cs)) (rx_buffer (LoggerBuffer w))"
    using assms(1,2) by (subst Cons_nth_drop_Suc [symmetric]) simp_all
  show ?thesis
    using assms u by (simp add: cmd_process_def collected_def Let_def d protocol_run_word)
qed

lemma run_step:
  assumes ready: "usart_ready w" and rec: "received w = c # cs"
  shows "\<exists>cb. logger_process_run tk w
             = cmd_process tk c (w\<lparr>g_logger_info := (g_logger_info w)\<lparr>LoggerRxBufferInfo := cb\<rparr>\<rparr>)
           \<and> cb_list cb = cs \<and> logger_buf_ok cb"
proof -
  let ?rx = "LoggerRxBufferInfo (g_logger_info w)"
  have ok: "logger_buf_ok ?rx" and i: "is_init (g_logger_info w) = 1"
    using ready by (auto simp: usart_ready_def logger_inv_def)
  have inv: "cb_inv ?rx" using ok by (simp add: logger_buf_ok_def)
  obtain cb where "CircularBufferGet ?rx = (Some c, cb)" "cb_list cb = cs"
    using cbq.get_Cons [OF inv rec] by blast
  moreover have "cb_currentSize ?rx \<noteq> 0" using rec by (auto simp: cb_list_def)
  ultimately show ?thesis
    using i logger_buf_ok_get [OF ok]
    by (auto simp: logger_process_run_def CircularBufferIsEmpty_def)
qed

lemma run_collect:
  assumes "usart_ready w" and "received w = cs @ rest" and "length pre + length cs < 32"
    and "list_all plain_char cs" and "length (rx_buffer (LoggerBuffer w)) = 33"
  shows "\<exists>cb. (logger_process_run tk ^^ length cs) (collected pre w)
             = collected (pre @ cs) (w\<lparr>g_logger_info := (g_logger_info w)\<lparr>LoggerRxBufferInfo := cb\<rparr>\<rparr>)
           \<and> cb_list cb = rest \<and> logger_buf_ok cb"
  using assms
proof (induction cs arbitrary: pre w)
  case Nil
  then have "w\<lparr>g_logger_info := (g_logger_info w)\<lparr>LoggerRxBufferInfo := LoggerRxBufferInfo (g_logger_info w)\<rparr>\<rparr> = w"
    by simp
  then show ?case
    using Nil by (intro exI [of _ "LoggerRxBufferInfo (g_logger_info w)"])
      (simp add: usart_ready_def logger_inv_def)
next
  case (Cons c cs)
  have "usart_ready (collected pre w)" using Cons.prems(1) by (simp add: collected_def usart_ready_def)
  moreover have "received (collected pre w) = c # cs @ rest"
    using Cons.prems(2) by (simp add: collected_def)
  ultimately obtain cb where step: "logger_process_run tk (collected pre w)
      = cmd_process tk c ((collected pre w)\<lparr>g_logger_info :=
          (g_logger_info (collected pre w))\<lparr>LoggerRxBufferInfo := cb\<rparr>\<rparr>)"
    and cb: "cb_list cb = cs @ rest" "logger_buf_ok cb"
    using run_step by blast
  let ?w = "w\<lparr>g_logger_info := (g_logger_info w)\<lparr>LoggerRxBufferInfo := cb\<rparr>\<rparr>"
  have "logger_process_run tk (collected pre w) = collected (pre @ [c]) ?w"
    unfolding step collected_g using cmd_process_collect [of c pre ?w tk] Cons.prems
    by (simp add: collected_def)
  moreover have "\<exists>cb'. (logger_process_run tk ^^ length cs) (collected (pre @ [c]) ?w)
             = collected ((pre @ [c]) @ cs) (?w\<lparr>g_logger_info := (g_logger_info ?w)\<lparr>LoggerRxBufferInfo := cb'\<rparr>\<rparr>)
           \<and> cb_list cb' = rest \<and> logger_buf_ok cb'"
    using Cons.prems cb by (intro Cons.IH) (simp_all add: usart_ready_def logger_inv_def)
  ultimately show ?case by (simp add: funpow_Suc_right del: funpow.simps)
qed

section \<open>Properties\<close>

text \<open>
  C36. cmd_process never writes outside the 33-byte command buffer, terminating NUL included,
  whatever characters arrive, and keeps the invariant that makes this so.
\<close>

theorem cmd_process_in_bounds:
  assumes "cmd_inv w"
  shows "cmd_inv (cmd_process tk c w)
    \<and> unat (cmd_index (LoggerBuffer w) + 1) < length (rx_buffer (LoggerBuffer w))"
  using cmd_process_inv [OF assms] by blast

theorem cmd_process_in_bounds_witness: "cmd_inv (cmd_process True 10 demo_port)"
proof -
  have "cmd_inv demo_port" by (simp add: cmd_inv_def demo_port_def)
  from cmd_process_in_bounds [OF this] show ?thesis by blast
qed

text \<open>
  C12. When the receive queue holds a line of fewer than 32 ordinary characters and its line feed,
  running logger_process_run once per byte consumes exactly these bytes, looks the first word up in
  the command table and runs the matching handler with the size of the rest (or reports the failed
  search), and is ready for the next line.
\<close>

theorem command_line_runs:
  assumes "usart_ready w" and "received w = cs @ 10 # rest" and "length cs < 32"
    and "list_all plain_char cs" and "cmd_inv w" and "cmd_index (LoggerBuffer w) = 0"
    and "table_ok (cmd_struct_list w)"
  shows "\<exists>cb buf. cb_list cb = rest \<and> length buf = 33 \<and>
    (logger_process_run tk ^^ Suc (length cs)) w =
     (let w' = run_word tk (first_word cs) (word_of_nat (data_size cs))
                 (w\<lparr>g_logger_info := (g_logger_info w)\<lparr>LoggerRxBufferInfo := cb\<rparr>,
                    LoggerBuffer := \<lparr>cmd_index = word_of_nat (length cs), rx_buffer = buf\<rparr>\<rparr>)
      in w'\<lparr>LoggerBuffer := (LoggerBuffer w')\<lparr>cmd_index := 0\<rparr>\<rparr>)"
proof -
  have b: "length (rx_buffer (LoggerBuffer w)) = 33" using assms(5) by (simp add: cmd_inv_def)
  have w: "w = collected [] w" using assms(6) by (cases w) (simp add: collected_def)
  obtain cb1 where 1: "(logger_process_run tk ^^ length cs) w
      = collected cs (w\<lparr>g_logger_info := (g_logger_info w)\<lparr>LoggerRxBufferInfo := cb1\<rparr>\<rparr>)"
    "cb_list cb1 = 10 # rest" "logger_buf_ok cb1"
    using run_collect [OF assms(1,2) _ assms(4) b, of "[]"] assms(3) w by auto
  let ?w = "w\<lparr>g_logger_info := (g_logger_info w)\<lparr>LoggerRxBufferInfo := cb1\<rparr>\<rparr>"
  have "usart_ready (collected cs ?w)" "received (collected cs ?w) = 10 # rest"
    using assms(1) 1(2,3) by (simp_all add: usart_ready_def collected_def logger_inv_def)
  from run_step [OF this, of tk] obtain cb where 2: "logger_process_run tk (collected cs ?w)
      = cmd_process tk 10 (collected cs (?w\<lparr>g_logger_info := (g_logger_info ?w)\<lparr>LoggerRxBufferInfo := cb\<rparr>\<rparr>))"
    "cb_list cb = rest"
    by (auto simp: collected_g) (simp add: collected_def)
  have n: "0 \<notin> set cs" using assms(4) by (auto simp: list_all_iff plain_char_def)
  let ?v = "?w\<lparr>g_logger_info := (g_logger_info ?w)\<lparr>LoggerRxBufferInfo := cb\<rparr>\<rparr>"
  let ?buf = "cs @ 0 # drop (Suc (length cs)) (rx_buffer (LoggerBuffer w))"
  have "length ?buf = 33" using b assms(3) by simp
  moreover have "(logger_process_run tk ^^ Suc (length cs)) w = cmd_process tk 10 (collected cs ?v)"
    using 1(1) 2(1) by simp
  ultimately show ?thesis
    using cmd_process_newline [of cs ?v tk] assms(3,7) b n 2(2)
    by (intro exI [of _ cb] exI [of _ ?buf]) simp
qed

definition demo_console :: "u8 list \<Rightarrow> world" where
  "demo_console input = cmd_protocol_init (demo_port\<lparr>cmd_struct_list := cmd_struct_list_init,
     g_logger_info := demo_logger\<lparr>LoggerRxBufferInfo :=
       fold CircularBufferPut input (CircularBufferInit 2048 (replicate 2048 0))\<rparr>\<rparr>)"

lemma demo_console_ready:
  assumes "length input \<le> 2048"
  shows "usart_ready (demo_console input)" "received (demo_console input) = input"
    "cmd_inv (demo_console input)" "cmd_index (LoggerBuffer (demo_console input)) = 0"
    "table_ok (cmd_struct_list (demo_console input))"
proof -
  let ?cb = "CircularBufferInit 2048 (replicate 2048 0)"
  have i: "cb_inv ?cb" by (rule cb_inv_init) simp_all
  have "logger_buf_ok (fold CircularBufferPut input ?cb)"
    using cbq.puts_inv [OF i] cbq.puts_cap [of input ?cb] by (simp add: logger_buf_ok_def)
  then show "usart_ready (demo_console input)"
    using demo_logger_inv
    by (simp add: demo_console_def cmd_protocol_init_def usart_ready_def logger_inv_def) (simp add: demo_logger_def)
  show "received (demo_console input) = input"
    using cbq.puts_room [OF i, of input] assms by (simp add: demo_console_def cmd_protocol_init_def)
  show "cmd_inv (demo_console input)" "cmd_index (LoggerBuffer (demo_console input)) = 0"
    by (simp_all add: demo_console_def cmd_protocol_init_def cmd_inv_def demo_port_def)
  show "table_ok (cmd_struct_list (demo_console input))"
    using table_init_ok [of "demo_port\<lparr>g_logger_info := demo_logger\<lparr>LoggerRxBufferInfo :=
       fold CircularBufferPut input ?cb\<rparr>\<rparr>"] by (simp add: demo_console_def cmd_protocol_init_def)
qed

theorem command_line_runs_witness:
  "cmd_index (LoggerBuffer ((logger_process_run False ^^ 3) (demo_console [33, 63, 10]))) = 0
   \<and> received ((logger_process_run False ^^ 3) (demo_console [33, 63, 10])) = []"
proof -
  note d = demo_console_ready [of "[33, 63, 10]"]
  have "find_command (first_word [33, 63]) (cmd_struct_list (demo_console [33, 63, 10])) = Some Cmd_Help"
    by (simp add: demo_console_def cmd_protocol_init_def cmd_struct_list_init_def cmd_entry_def c_str_def
        str_bytes_def first_word_def)
  then show ?thesis
    using command_line_runs [of "demo_console [33, 63, 10]" "[33, 63]" "[]" False] d
    by (auto simp: plain_char_def numeral_3_eq_3 run_word_def cmd_help_def simp del: funpow.simps)
qed

end
