(* ===== verification/Soft_I2C.thy ===== *)
theory Soft_I2C
  imports Gpio
begin

text \<open>
  The bit-banged I2C master (\<^verbatim>\<open>UsrParts/soft_i2c/drv_soft_i2c.c\<close>). A monitor of the two lines reads the
  history of pin accesses back as I2C symbols: start and stop conditions and clocked bits. The lemmas
  show that every transaction puts a well-formed frame on the bus, whatever the devices do.
\<close>

section \<open>State\<close>

record SOFT_I2C_INFO =
  scl_pin :: u32
  scl_port :: GPIO_TypeDef
  sda_pin :: u32
  sda_port :: GPIO_TypeDef

record i2c_world =
  i2c_list :: "SOFT_I2C_INFO list"
  is_i2c_init :: "u8 list"
  hist :: history

definition SOFT_I2C_NUM :: u8 where "SOFT_I2C_NUM = 3"
definition SOFT_I2C1 :: u8 where "SOFT_I2C1 = 0"
definition SOFT_I2C2 :: u8 where "SOFT_I2C2 = 1"
definition SOFT_I2C3 :: u8 where "SOFT_I2C3 = 2"
definition I2C_OK :: u8 where "I2C_OK = 0"
definition I2C_ERROR :: u8 where "I2C_ERROR = 1"
definition I2C_DELAY_COUNT :: u32 where "I2C_DELAY_COUNT = 5"

text \<open>The static arrays, zero-initialised.\<close>

definition i2c_world0 :: i2c_world where
  "i2c_world0 = \<lparr>i2c_list = replicate 3 \<lparr>scl_pin = 0, scl_port = GPIO_NULL, sda_pin = 0, sda_port = GPIO_NULL\<rparr>,
                  is_i2c_init = replicate 3 0, hist = []\<rparr>"

section \<open>Pin accesses\<close>

definition I2C_SCL_H :: "SOFT_I2C_INFO \<Rightarrow> history \<Rightarrow> history" where
  [hw_defs]: "I2C_SCL_H p h = HAL_GPIO_WritePin (scl_port p) (ucast (scl_pin p)) True h"

definition I2C_SCL_L :: "SOFT_I2C_INFO \<Rightarrow> history \<Rightarrow> history" where
  [hw_defs]: "I2C_SCL_L p h = HAL_GPIO_WritePin (scl_port p) (ucast (scl_pin p)) False h"

definition I2C_SDA_H :: "SOFT_I2C_INFO \<Rightarrow> history \<Rightarrow> history" where
  [hw_defs]: "I2C_SDA_H p h = HAL_GPIO_WritePin (sda_port p) (ucast (sda_pin p)) True h"

definition I2C_SDA_L :: "SOFT_I2C_INFO \<Rightarrow> history \<Rightarrow> history" where
  [hw_defs]: "I2C_SDA_L p h = HAL_GPIO_WritePin (sda_port p) (ucast (sda_pin p)) False h"

definition I2C_SDA_INPUT :: "levels \<Rightarrow> SOFT_I2C_INFO \<Rightarrow> history \<Rightarrow> bool \<times> history" where
  [hw_defs]: "I2C_SDA_INPUT lv p h = HAL_GPIO_ReadPin lv (sda_port p) (ucast (sda_pin p)) h"

definition i2c_sda_config_in :: "SOFT_I2C_INFO \<Rightarrow> history \<Rightarrow> history" where
  [hw_defs]: "i2c_sda_config_in p h =
     HAL_GPIO_Init (sda_port p)
       (gpio_init0\<lparr>Pin := ucast (sda_pin p), Mode := GPIO_MODE_INPUT, Pull := GPIO_NOPULL,
                   Speed := GPIO_SPEED_FREQ_HIGH\<rparr>) h"

definition i2c_sda_config_out :: "SOFT_I2C_INFO \<Rightarrow> history \<Rightarrow> history" where
  [hw_defs]: "i2c_sda_config_out p h =
     HAL_GPIO_Init (sda_port p)
       (gpio_init0\<lparr>Pin := ucast (sda_pin p), Mode := GPIO_MODE_OUTPUT_OD, Pull := GPIO_NOPULL,
                   Speed := GPIO_SPEED_FREQ_HIGH\<rparr>) h"

definition i2c_delay :: "u32 \<Rightarrow> history \<Rightarrow> history" where
  [hw_defs]: "i2c_delay count h = Delay count # h"

definition i2c_soft_init :: "u8 \<Rightarrow> SOFT_I2C_INFO \<Rightarrow> i2c_world \<Rightarrow> u8 \<times> i2c_world" where
  "i2c_soft_init n info w =
     (if n \<ge> SOFT_I2C_NUM then (I2C_ERROR, w)
      else if is_i2c_init w ! unat n \<noteq> 0 then
        if info = i2c_list w ! unat n then (I2C_OK, w) else (I2C_ERROR, w)
      else
        let w = w\<lparr>is_i2c_init := (is_i2c_init w)[unat n := 1], i2c_list := (i2c_list w)[unat n := info]\<rparr>;
            h = I2C_SCL_H info (hist w);
            h = I2C_SDA_H info h;
            cfg = gpio_init0\<lparr>Pin := ucast (scl_pin info), Mode := GPIO_MODE_OUTPUT_OD,
                             Pull := GPIO_NOPULL, Speed := GPIO_SPEED_FREQ_VERY_HIGH\<rparr>;
            h = HAL_GPIO_Init (scl_port info) cfg h;
            h = HAL_GPIO_Init (sda_port info) (cfg\<lparr>Pin := ucast (sda_pin info)\<rparr>) h
        in (I2C_OK, w\<lparr>hist := h\<rparr>))"

definition i2c_soft_deinit :: "u8 \<Rightarrow> i2c_world \<Rightarrow> u8 \<times> i2c_world" where
  "i2c_soft_deinit n w =
     (if n \<ge> SOFT_I2C_NUM then (I2C_ERROR, w)
      else (I2C_OK, w\<lparr>is_i2c_init := (is_i2c_init w)[unat n := 0]\<rparr>))"

section \<open>Signalling\<close>

text \<open>
  The polling loop of \<open>i2c_idle_check\<close> and \<open>i2c_wait_ack\<close>: read the data line until it has the wanted
  level, at most 10001 times. \<open>wait_time\<close> never exceeds 10001, so the 16-bit counter cannot wrap.
\<close>

function sda_poll :: "levels \<Rightarrow> SOFT_I2C_INFO \<Rightarrow> bool \<Rightarrow> nat \<Rightarrow> history \<Rightarrow> u8 \<times> history" where
  "sda_poll lv p want wait_time h =
     (let (b, h) = I2C_SDA_INPUT lv p h
      in if b \<noteq> want then
           if Suc wait_time > 10000 then (I2C_ERROR, h) else sda_poll lv p want (Suc wait_time) h
         else (I2C_OK, h))"
  by pat_completeness auto
termination
  by (relation "measure (\<lambda>(lv, p, want, n, h). 10001 - n)") auto

declare sda_poll.simps [simp del]

definition i2c_idle_check :: "levels \<Rightarrow> SOFT_I2C_INFO \<Rightarrow> history \<Rightarrow> u8 \<times> history" where
  "i2c_idle_check lv p h = (let h = i2c_sda_config_in p h in sda_poll lv p True 0 h)"

definition i2c_start :: "SOFT_I2C_INFO \<Rightarrow> history \<Rightarrow> history" where
  "i2c_start p h =
     (let h = i2c_sda_config_out p h;
          h = I2C_SDA_H p h;
          h = i2c_delay I2C_DELAY_COUNT h;
          h = I2C_SCL_H p h;
          h = i2c_delay I2C_DELAY_COUNT h;
          h = I2C_SDA_L p h;
          h = i2c_delay I2C_DELAY_COUNT h;
          h = I2C_SCL_L p h
      in h)"

text \<open>The loop of \<open>i2c_send_byte\<close>, with the number of rounds left.\<close>

primrec i2c_send_bits :: "SOFT_I2C_INFO \<Rightarrow> nat \<Rightarrow> u8 \<Rightarrow> history \<Rightarrow> history" where
  "i2c_send_bits p 0 byte h = h"
| "i2c_send_bits p (Suc n) byte h =
     (let h = i2c_delay I2C_DELAY_COUNT h;
          h = (if byte AND 0x80 \<noteq> 0 then I2C_SDA_H p h else I2C_SDA_L p h);
          byte = push_bit 1 byte;
          h = i2c_delay I2C_DELAY_COUNT h;
          h = I2C_SCL_H p h;
          h = i2c_delay I2C_DELAY_COUNT h;
          h = I2C_SCL_L p h
      in i2c_send_bits p n byte h)"

definition i2c_send_byte :: "SOFT_I2C_INFO \<Rightarrow> u8 \<Rightarrow> history \<Rightarrow> history" where
  "i2c_send_byte p byte h = (let h = i2c_sda_config_out p h in i2c_send_bits p 8 byte h)"

definition i2c_send_ack :: "SOFT_I2C_INFO \<Rightarrow> history \<Rightarrow> history" where
  "i2c_send_ack p h =
     (let h = i2c_sda_config_out p h;
          h = i2c_delay I2C_DELAY_COUNT h;
          h = I2C_SDA_L p h;
          h = i2c_delay I2C_DELAY_COUNT h;
          h = I2C_SCL_H p h;
          h = i2c_delay I2C_DELAY_COUNT h;
          h = I2C_SCL_L p h
      in h)"

definition i2c_send_nack :: "SOFT_I2C_INFO \<Rightarrow> history \<Rightarrow> history" where
  "i2c_send_nack p h =
     (let h = i2c_sda_config_out p h;
          h = i2c_delay I2C_DELAY_COUNT h;
          h = I2C_SDA_H p h;
          h = i2c_delay I2C_DELAY_COUNT h;
          h = I2C_SCL_H p h;
          h = i2c_delay I2C_DELAY_COUNT h;
          h = I2C_SCL_L p h
      in h)"

text \<open>The loop of \<open>i2c_read_byte\<close>: with \<open>n + 1\<close> rounds left, \<open>index < 7\<close> is \<open>n \<noteq> 0\<close>.\<close>

primrec i2c_read_bits ::
  "levels \<Rightarrow> SOFT_I2C_INFO \<Rightarrow> nat \<Rightarrow> u8 \<Rightarrow> history \<Rightarrow> u8 \<times> history" where
  "i2c_read_bits lv p 0 val h = (val, h)"
| "i2c_read_bits lv p (Suc n) val h =
     (let h = i2c_delay I2C_DELAY_COUNT h;
          h = I2C_SCL_H p h;
          (b, h) = I2C_SDA_INPUT lv p h;
          val = val OR (if b then 1 else 0);
          val = (if n \<noteq> 0 then push_bit 1 val else val);
          h = i2c_delay I2C_DELAY_COUNT h;
          h = I2C_SCL_L p h
      in i2c_read_bits lv p n val h)"

definition i2c_read_byte :: "levels \<Rightarrow> SOFT_I2C_INFO \<Rightarrow> u8 \<Rightarrow> history \<Rightarrow> u8 \<times> history" where
  "i2c_read_byte lv p ack_status h =
     (let h = i2c_sda_config_in p h;
          (val, h) = i2c_read_bits lv p 8 0 h;
          h = (if ack_status = 0 then i2c_send_nack p h else i2c_send_ack p h)
      in (val, h))"

definition i2c_wait_ack :: "levels \<Rightarrow> SOFT_I2C_INFO \<Rightarrow> history \<Rightarrow> u8 \<times> history" where
  "i2c_wait_ack lv p h =
     (let h = i2c_sda_config_in p h;
          h = i2c_delay I2C_DELAY_COUNT h;
          (r, h) = sda_poll lv p False 0 h
      in if r = I2C_ERROR then (I2C_ERROR, h)
         else
           let h = I2C_SCL_H p h;
               h = i2c_delay I2C_DELAY_COUNT h;
               h = I2C_SCL_L p h
           in (I2C_OK, h))"

definition i2c_stop :: "SOFT_I2C_INFO \<Rightarrow> history \<Rightarrow> history" where
  "i2c_stop p h =
     (let h = i2c_sda_config_out p h;
          h = I2C_SDA_L p h;
          h = i2c_delay I2C_DELAY_COUNT h;
          h = I2C_SCL_H p h;
          h = i2c_delay I2C_DELAY_COUNT h;
          h = I2C_SDA_H p h;
          h = i2c_delay I2C_DELAY_COUNT h
      in h)"

section \<open>Transactions\<close>

text \<open>
  The loops over data and memory address bytes: send one, wait for its acknowledge, stop on failure.
\<close>

fun i2c_send_loop :: "levels \<Rightarrow> SOFT_I2C_INFO \<Rightarrow> u8 list \<Rightarrow> history \<Rightarrow> u8 \<times> history" where
  "i2c_send_loop lv p [] h = (I2C_OK, h)"
| "i2c_send_loop lv p (b # bs) h =
     (let h = i2c_send_byte p b h;
          (r, h) = i2c_wait_ack lv p h
      in if r \<noteq> 0 then (I2C_ERROR, i2c_stop p h) else i2c_send_loop lv p bs h)"

text \<open>
  The loop that reads \<open>n\<close> bytes: every byte but the last is acknowledged.
\<close>

primrec i2c_read_loop :: "levels \<Rightarrow> SOFT_I2C_INFO \<Rightarrow> nat \<Rightarrow> history \<Rightarrow> u8 list \<times> history" where
  "i2c_read_loop lv p 0 h = ([], h)"
| "i2c_read_loop lv p (Suc n) h =
     (let (v, h) = (if n \<noteq> 0 then i2c_read_byte lv p 1 h else i2c_read_byte lv p 0 h);
          (vs, h) = i2c_read_loop lv p n h
      in (v # vs, h))"

text \<open>
  The bytes of the memory address, high byte first. For more than four bytes the first shifts of the C code
  exceed the width of the address and are undefined; here they give zero. The drivers pass one byte.
\<close>

definition mem_addr_bytes :: "u32 \<Rightarrow> nat \<Rightarrow> u8 list" where
  "mem_addr_bytes mem_addr mem_size =
     map (\<lambda>index. ucast (drop_bit ((mem_size - index - 1) * 8) mem_addr AND 0xff)) [0..<mem_size]"

text \<open>The parameters \<open>data\<close> are the first \<open>size\<close> bytes at the caller's pointer.\<close>

definition i2c_write_device :: "levels \<Rightarrow> u8 \<Rightarrow> u8 \<Rightarrow> u8 list \<Rightarrow> i2c_world \<Rightarrow> u8 \<times> i2c_world" where
  "i2c_write_device lv n addr data w =
     (if n \<ge> SOFT_I2C_NUM then (I2C_ERROR, w)
      else if is_i2c_init w ! unat n = 0 then (I2C_ERROR, w)
      else
        let p = i2c_list w ! unat n;
            (r, h) = i2c_idle_check lv p (hist w)
        in if r \<noteq> 0 then (I2C_ERROR, w\<lparr>hist := h\<rparr>)
           else
             let h = i2c_start p h;
                 h = i2c_send_byte p (addr AND 0xfe) h;
                 (r, h) = i2c_wait_ack lv p h
             in if r \<noteq> 0 then (I2C_ERROR, w\<lparr>hist := i2c_stop p h\<rparr>)
                else
                  let (r, h) = i2c_send_loop lv p data h
                  in if r \<noteq> 0 then (I2C_ERROR, w\<lparr>hist := h\<rparr>)
                     else
                       let h = i2c_stop p h;
                           h = i2c_delay I2C_DELAY_COUNT h
                       in (I2C_OK, w\<lparr>hist := h\<rparr>))"

text \<open>The readers return the bytes stored at \<open>rdata\<close>, none on an error.\<close>

definition i2c_read_device ::
  "levels \<Rightarrow> u8 \<Rightarrow> u8 \<Rightarrow> u16 \<Rightarrow> i2c_world \<Rightarrow> u8 \<times> u8 list \<times> i2c_world" where
  "i2c_read_device lv n addr sz w =
     (if n \<ge> SOFT_I2C_NUM then (I2C_ERROR, [], w)
      else if is_i2c_init w ! unat n = 0 then (I2C_ERROR, [], w)
      else
        let p = i2c_list w ! unat n;
            (r, h) = i2c_idle_check lv p (hist w)
        in if r \<noteq> 0 then (I2C_ERROR, [], w\<lparr>hist := h\<rparr>)
           else
             let h = i2c_start p h;
                 h = i2c_send_byte p (addr OR 0x01) h;
                 (r, h) = i2c_wait_ack lv p h
             in if r \<noteq> 0 then (I2C_ERROR, [], w\<lparr>hist := i2c_stop p h\<rparr>)
                else
                  let (rdata, h) = i2c_read_loop lv p (unat sz) h;
                      h = i2c_stop p h
                  in (I2C_OK, rdata, w\<lparr>hist := h\<rparr>))"

definition i2c_write_memory ::
  "levels \<Rightarrow> u8 \<Rightarrow> u8 \<Rightarrow> u32 \<Rightarrow> u8 \<Rightarrow> u8 list \<Rightarrow> i2c_world \<Rightarrow> u8 \<times> i2c_world" where
  "i2c_write_memory lv n addr mem_addr mem_size data w =
     (if n \<ge> SOFT_I2C_NUM then (I2C_ERROR, w)
      else if is_i2c_init w ! unat n = 0 then (I2C_ERROR, w)
      else
        let p = i2c_list w ! unat n;
            (r, h) = i2c_idle_check lv p (hist w)
        in if r \<noteq> 0 then (I2C_ERROR, w\<lparr>hist := h\<rparr>)
           else
             let h = i2c_start p h;
                 h = i2c_send_byte p (addr AND 0xfe) h;
                 (r, h) = i2c_wait_ack lv p h
             in if r \<noteq> 0 then (I2C_ERROR, w\<lparr>hist := i2c_stop p h\<rparr>)
                else
                  let (r, h) = i2c_send_loop lv p (mem_addr_bytes mem_addr (unat mem_size)) h
                  in if r \<noteq> 0 then (I2C_ERROR, w\<lparr>hist := h\<rparr>)
                     else
                       let (r, h) = i2c_send_loop lv p data h
                       in if r \<noteq> 0 then (I2C_ERROR, w\<lparr>hist := h\<rparr>)
                          else
                            let h = i2c_stop p h;
                                h = i2c_delay I2C_DELAY_COUNT h
                            in (I2C_OK, w\<lparr>hist := h\<rparr>))"

definition i2c_read_memory ::
  "levels \<Rightarrow> u8 \<Rightarrow> u8 \<Rightarrow> u32 \<Rightarrow> u8 \<Rightarrow> u16 \<Rightarrow> i2c_world \<Rightarrow> u8 \<times> u8 list \<times> i2c_world" where
  "i2c_read_memory lv n addr mem_addr mem_size sz w =
     (if n \<ge> SOFT_I2C_NUM then (I2C_ERROR, [], w)
      else if is_i2c_init w ! unat n = 0 then (I2C_ERROR, [], w)
      else
        let p = i2c_list w ! unat n;
            (r, h) = i2c_idle_check lv p (hist w)
        in if r \<noteq> 0 then (I2C_ERROR, [], w\<lparr>hist := h\<rparr>)
           else
             let h = i2c_start p h;
                 h = i2c_send_byte p (addr AND 0xfe) h;
                 (r, h) = i2c_wait_ack lv p h
             in if r \<noteq> 0 then (I2C_ERROR, [], w\<lparr>hist := i2c_stop p h\<rparr>)
                else
                  let (r, h) = i2c_send_loop lv p (mem_addr_bytes mem_addr (unat mem_size)) h
                  in if r \<noteq> 0 then (I2C_ERROR, [], w\<lparr>hist := h\<rparr>)
                     else
                       let h = i2c_start p h;
                           h = i2c_send_byte p (addr OR 0x01) h;
                           (r, h) = i2c_wait_ack lv p h
                       in if r \<noteq> 0 then (I2C_ERROR, [], w\<lparr>hist := i2c_stop p h\<rparr>)
                          else
                            let (rdata, h) = i2c_read_loop lv p (unat sz) h;
                                h = i2c_stop p h
                            in (I2C_OK, rdata, w\<lparr>hist := h\<rparr>))"

section \<open>The bus monitor\<close>

datatype i2c_symbol = START | STOP | BIT bool

text \<open>
  The monitor follows the clock line, the driver's latch for the data line and whether the data pin
  is an input; \<open>m_read\<close> is the level last read since it became one. A bit is taken when the clock
  rises, replaced by what the master reads while the clock is high, and counts when the clock falls;
  a change of the driven data level while the clock is high is a start or stop condition instead.
\<close>

record monitor =
  m_scl :: bool
  m_latch :: bool
  m_input :: bool
  m_read :: bool
  m_bit :: "bool option"
  m_syms :: "i2c_symbol list"

definition m_drive :: "monitor \<Rightarrow> bool" where
  "m_drive m \<longleftrightarrow> m_input m \<or> m_latch m"

text \<open>A new driven level, seen against the clock.\<close>

definition m_edge :: "monitor \<Rightarrow> monitor \<Rightarrow> monitor" where
  "m_edge m m' =
     (if m_scl m \<and> m_drive m \<noteq> m_drive m'
      then m'\<lparr>m_bit := None, m_syms := m_syms m' @ [if m_drive m' then STOP else START]\<rparr>
      else m')"

fun m_clock :: "bool \<Rightarrow> monitor \<Rightarrow> monitor" where
  "m_clock True m =
     (if m_scl m then m
      else m\<lparr>m_scl := True, m_bit := Some (if m_input m then m_read m else m_latch m)\<rparr>)"
| "m_clock False m =
     (if m_scl m
      then m\<lparr>m_scl := False, m_bit := None,
             m_syms := m_syms m @ (case m_bit m of Some b \<Rightarrow> [BIT b] | None \<Rightarrow> [])\<rparr>
      else m)"

definition is_scl :: "SOFT_I2C_INFO \<Rightarrow> GPIO_TypeDef \<Rightarrow> u16 \<Rightarrow> bool" where
  "is_scl p port pin \<longleftrightarrow> port = scl_port p \<and> pin = ucast (scl_pin p)"

definition is_sda :: "SOFT_I2C_INFO \<Rightarrow> GPIO_TypeDef \<Rightarrow> u16 \<Rightarrow> bool" where
  "is_sda p port pin \<longleftrightarrow> port = sda_port p \<and> pin = ucast (sda_pin p)"

fun m_step :: "SOFT_I2C_INFO \<Rightarrow> hw_event \<Rightarrow> monitor \<Rightarrow> monitor" where
  "m_step p (WritePin port pin b) m =
     (if is_scl p port pin then m_clock b m
      else if is_sda p port pin then m_edge m (m\<lparr>m_latch := b\<rparr>)
      else m)"
| "m_step p (ReadPin port pin b) m =
     (if is_sda p port pin \<and> m_input m
      then m\<lparr>m_read := b, m_bit := map_option (\<lambda>_. b) (m_bit m)\<rparr> else m)"
| "m_step p (InitPin port cfg) m =
     (if is_sda p port (Pin cfg)
      then m_edge m (m\<lparr>m_input := (Mode cfg = GPIO_MODE_INPUT), m_read := True\<rparr>) else m)"
| "m_step p e m = m"

definition monitor0 :: monitor where
  "monitor0 = \<lparr>m_scl = True, m_latch = True, m_input = False, m_read = True, m_bit = None, m_syms = []\<rparr>"

primrec mon :: "SOFT_I2C_INFO \<Rightarrow> history \<Rightarrow> monitor" where
  "mon p [] = monitor0"
| "mon p (e # h) = m_step p e (mon p h)"

abbreviation syms :: "SOFT_I2C_INFO \<Rightarrow> history \<Rightarrow> i2c_symbol list" where
  "syms p h \<equiv> m_syms (mon p h)"

text \<open>The two pins are different pins.\<close>

definition pins_ok :: "SOFT_I2C_INFO \<Rightarrow> bool" where
  "pins_ok p \<longleftrightarrow> \<not> is_scl p (sda_port p) (ucast (sda_pin p))"

lemma pins_simps [simp]:
  "is_scl p (scl_port p) (ucast (scl_pin p))"
  "is_sda p (sda_port p) (ucast (sda_pin p))"
  "pins_ok p \<Longrightarrow> \<not> is_scl p (sda_port p) (ucast (sda_pin p))"
  by (auto simp: pins_ok_def is_scl_def is_sda_def)

text \<open>
  Between transactions clock and data are released (\<open>bus_idle\<close>); between the bits of one the clock
  is low (\<open>bus_low\<close>).
\<close>

definition bus_idle :: "monitor \<Rightarrow> bool" where
  "bus_idle m \<longleftrightarrow> m_scl m \<and> m_latch m \<and> m_bit m = None"

definition bus_low :: "monitor \<Rightarrow> bool" where
  "bus_low m \<longleftrightarrow> \<not> m_scl m \<and> m_bit m = None"

section \<open>What the primitives put on the bus\<close>

text \<open>The two pins are assumed to be different pins, of whichever ports.\<close>

lemma start_idle:
  "pins_ok p \<Longrightarrow> bus_idle (mon p h) \<Longrightarrow> bus_low (mon p (i2c_start p h)) \<and> syms p (i2c_start p h) = syms p h @ [START]"
  by (simp add: i2c_start_def hw_defs bus_idle_def bus_low_def m_edge_def m_drive_def gpio_init0_def)

lemma start_low:
  "pins_ok p \<Longrightarrow> bus_low (mon p h) \<Longrightarrow> bus_low (mon p (i2c_start p h)) \<and> syms p (i2c_start p h) = syms p h @ [START]"
  by (simp add: i2c_start_def hw_defs bus_low_def m_edge_def m_drive_def gpio_init0_def)

lemma stop_low:
  "pins_ok p \<Longrightarrow> bus_low (mon p h) \<Longrightarrow> bus_idle (mon p (i2c_stop p h)) \<and> syms p (i2c_stop p h) = syms p h @ [STOP]"
  by (simp add: i2c_stop_def hw_defs bus_idle_def bus_low_def m_edge_def m_drive_def gpio_init0_def)

lemma send_bits_low:
  "pins_ok p \<Longrightarrow> bus_low (mon p h) \<Longrightarrow> \<not> m_input (mon p h) \<Longrightarrow>
   bus_low (mon p (i2c_send_bits p n byte h))
   \<and> syms p (i2c_send_bits p n byte h) = syms p h @ map BIT (top_bits n byte)"
proof (induction n arbitrary: byte h)
  case 0
  then show ?case by simp
next
  case (Suc n)
  define h' where "h' = I2C_SCL_L p (i2c_delay I2C_DELAY_COUNT (I2C_SCL_H p (i2c_delay I2C_DELAY_COUNT
     ((if byte AND 0x80 \<noteq> 0 then I2C_SDA_H else I2C_SDA_L) p (i2c_delay I2C_DELAY_COUNT h)))))"
  have "bus_low (mon p h') \<and> \<not> m_input (mon p h') \<and> syms p h' = syms p h @ [BIT (msb byte)]"
    using Suc.prems by (simp add: h'_def hw_defs bus_low_def m_edge_def m_drive_def msb_def)
  moreover have "i2c_send_bits p (Suc n) byte h = i2c_send_bits p n (push_bit 1 byte) h'"
    by (simp add: h'_def Let_def)
  ultimately show ?case using Suc.IH [of h' "push_bit 1 byte"] Suc.prems(1) by simp
qed

lemma config_out_low:
  "bus_low (mon p h) \<Longrightarrow> bus_low (mon p (i2c_sda_config_out p h))
     \<and> \<not> m_input (mon p (i2c_sda_config_out p h)) \<and> syms p (i2c_sda_config_out p h) = syms p h"
  by (simp add: hw_defs bus_low_def m_edge_def gpio_init0_def)

lemma config_in_low:
  "bus_low (mon p h) \<Longrightarrow> bus_low (mon p (i2c_sda_config_in p h))
     \<and> m_input (mon p (i2c_sda_config_in p h)) \<and> syms p (i2c_sda_config_in p h) = syms p h"
  by (simp add: hw_defs bus_low_def m_edge_def gpio_init0_def)

lemma send_byte_low:
  "pins_ok p \<Longrightarrow> bus_low (mon p h) \<Longrightarrow> bus_low (mon p (i2c_send_byte p byte h))
     \<and> syms p (i2c_send_byte p byte h) = syms p h @ map BIT (byte_bits byte)"
  using config_out_low [of p h] send_bits_low [of p "i2c_sda_config_out p h" 8 byte]
  by (simp add: i2c_send_byte_def top_bits_8)

lemma send_ack_low:
  "pins_ok p \<Longrightarrow> bus_low (mon p h) \<Longrightarrow> bus_low (mon p (i2c_send_ack p h))
     \<and> syms p (i2c_send_ack p h) = syms p h @ [BIT False]"
  by (simp add: i2c_send_ack_def hw_defs bus_low_def m_edge_def m_drive_def gpio_init0_def)

lemma send_nack_low:
  "pins_ok p \<Longrightarrow> bus_low (mon p h) \<Longrightarrow> bus_low (mon p (i2c_send_nack p h))
     \<and> syms p (i2c_send_nack p h) = syms p h @ [BIT True]"
  by (simp add: i2c_send_nack_def hw_defs bus_low_def m_edge_def m_drive_def gpio_init0_def)

text \<open>Polling reads the line only: the last level read is the wanted one exactly on success.\<close>

lemma poll_mon:
  assumes "m_input (mon p h)" and "m_bit (mon p h) = None"
  shows "\<exists>b. mon p (snd (sda_poll lv p want n h)) = (mon p h)\<lparr>m_read := b\<rparr>
           \<and> (fst (sda_poll lv p want n h) = I2C_OK \<and> b = want
              \<or> fst (sda_poll lv p want n h) = I2C_ERROR \<and> b \<noteq> want)"
  using assms
proof (induction lv p want n h rule: sda_poll.induct)
  case (1 lv p want n h)
  define b where "b = lv h (sda_port p) (ucast (sda_pin p))"
  define g where "g = ReadPin (sda_port p) (ucast (sda_pin p)) b # h"
  have read: "I2C_SDA_INPUT lv p h = (b, g)" by (simp add: hw_defs Let_def b_def g_def)
  have m: "mon p g = (mon p h)\<lparr>m_read := b\<rparr>" using "1.prems" by (simp add: g_def)
  show ?case
  proof (cases "b \<noteq> want \<and> \<not> Suc n > 10000")
    case True
    then show ?thesis
      using "1.IH" [OF read [symmetric] refl] m "1.prems" read
      by (simp add: sda_poll.simps [of lv p want n h])
  next
    case False
    then show ?thesis
      using read m by (auto simp: sda_poll.simps [of lv p want n h])
  qed
qed

lemma idle_check_idle:
  assumes "bus_idle (mon p h)" and "i2c_idle_check lv p h = (r, h')"
  shows "bus_idle (mon p h') \<and> syms p h' = syms p h \<and> (r = I2C_OK \<or> r = I2C_ERROR)"
proof -
  let ?h = "i2c_sda_config_in p h"
  have m: "bus_idle (mon p ?h)" "m_input (mon p ?h)" "m_bit (mon p ?h) = None" "syms p ?h = syms p h"
    using assms(1) by (simp_all add: hw_defs bus_idle_def m_edge_def m_drive_def gpio_init0_def)
  have "h' = snd (sda_poll lv p True 0 ?h)" and "r = fst (sda_poll lv p True 0 ?h)"
    using assms(2) by (simp_all add: i2c_idle_check_def)
  then show ?thesis
    using poll_mon [OF m(2,3), of lv True 0] m by (auto simp: bus_idle_def)
qed

lemma wait_ack_low:
  assumes pins: "pins_ok p" and "bus_low (mon p h)" and "i2c_wait_ack lv p h = (r, h')"
  shows "bus_low (mon p h')
     \<and> (r = I2C_OK \<and> syms p h' = syms p h @ [BIT False] \<or> r = I2C_ERROR \<and> syms p h' = syms p h)"
proof -
  let ?h = "i2c_delay I2C_DELAY_COUNT (i2c_sda_config_in p h)"
  have m: "bus_low (mon p ?h)" "m_input (mon p ?h)" "m_bit (mon p ?h) = None" "syms p ?h = syms p h"
    using config_in_low [OF assms(2)] by (simp_all add: hw_defs bus_low_def)
  obtain b where poll: "mon p (snd (sda_poll lv p False 0 ?h)) = (mon p ?h)\<lparr>m_read := b\<rparr>"
    "fst (sda_poll lv p False 0 ?h) = I2C_OK \<and> \<not> b \<or> fst (sda_poll lv p False 0 ?h) = I2C_ERROR \<and> b"
    using poll_mon [OF m(2,3), of lv False 0] by auto
  show ?thesis
    using assms(3) poll m pins
    by (auto simp: i2c_wait_ack_def split_beta Let_def bus_low_def I2C_OK_def I2C_ERROR_def hw_defs
        split: if_splits)
qed

lemma read_bits_low:
  assumes pins: "pins_ok p" and "bus_low (mon p h)" and "m_input (mon p h)" and "n \<le> 8"
  shows "\<exists>bs. length bs = n \<and> bus_low (mon p (snd (i2c_read_bits lv p n val h)))
     \<and> syms p (snd (i2c_read_bits lv p n val h)) = syms p h @ map BIT bs
     \<and> fst (i2c_read_bits lv p n val h)
       = (case bs of [] \<Rightarrow> val | b # bs' \<Rightarrow> foldl shift_in (val OR (if b then 1 else 0)) bs')"
  using assms
proof (induction n arbitrary: val h)
  case 0
  then show ?case by simp
next
  case (Suc n)
  let ?g = "I2C_SCL_H p (i2c_delay I2C_DELAY_COUNT h)"
  let ?b = "lv ?g (sda_port p) (ucast (sda_pin p))"
  define h' where "h' = I2C_SCL_L p (i2c_delay I2C_DELAY_COUNT
     (ReadPin (sda_port p) (ucast (sda_pin p)) ?b # ?g))"
  define v where "v = val OR (if ?b then 1 else 0)"
  have h': "bus_low (mon p h')" "m_input (mon p h')" "syms p h' = syms p h @ [BIT ?b]"
    using Suc.prems by (simp_all add: h'_def hw_defs bus_low_def)
  have step: "i2c_read_bits lv p (Suc n) val h
              = i2c_read_bits lv p n (if n \<noteq> 0 then push_bit 1 v else v) h'"
    by (simp add: h'_def v_def I2C_SDA_INPUT_def HAL_GPIO_ReadPin_def Let_def)
  obtain bs where bs: "length bs = n"
    "bus_low (mon p (snd (i2c_read_bits lv p n (if n \<noteq> 0 then push_bit 1 v else v) h')))"
    "syms p (snd (i2c_read_bits lv p n (if n \<noteq> 0 then push_bit 1 v else v) h')) = syms p h' @ map BIT bs"
    "fst (i2c_read_bits lv p n (if n \<noteq> 0 then push_bit 1 v else v) h')
     = (case bs of [] \<Rightarrow> if n \<noteq> 0 then push_bit 1 v else v
        | b # bs' \<Rightarrow> foldl shift_in ((if n \<noteq> 0 then push_bit 1 v else v) OR (if b then 1 else 0)) bs')"
    using Suc.IH [OF Suc.prems(1) h'(1,2)] Suc.prems(4) by (metis Suc_leD)
  have "fst (i2c_read_bits lv p (Suc n) val h) = foldl shift_in v bs"
    using bs(1,4) step by (cases bs) (auto simp: shift_in_def)
  then show ?case
    using bs h'(3) step by (intro exI [of _ "?b # bs"]) (simp add: v_def)
qed

lemma read_byte_low:
  assumes pins: "pins_ok p" and "bus_low (mon p h)" and "i2c_read_byte lv p ack h = (v, h')"
  shows "bus_low (mon p h') \<and> syms p h' = syms p h @ map BIT (byte_bits v) @ [BIT (ack = 0)]"
proof -
  let ?h = "i2c_sda_config_in p h"
  have m: "bus_low (mon p ?h)" "m_input (mon p ?h)" "syms p ?h = syms p h"
    using config_in_low [OF assms(2)] by auto
  obtain bs where bs: "length bs = 8" "bus_low (mon p (snd (i2c_read_bits lv p 8 0 ?h)))"
    "syms p (snd (i2c_read_bits lv p 8 0 ?h)) = syms p h @ map BIT bs"
    "fst (i2c_read_bits lv p 8 0 ?h)
     = (case bs of [] \<Rightarrow> 0 | b # bs' \<Rightarrow> foldl shift_in (0 OR (if b then 1 else 0)) bs')"
    using read_bits_low [OF pins m(1,2), of 8 lv 0] m(3) by auto
  have "fst (i2c_read_bits lv p 8 0 ?h) = bits_byte bs"
    using bs(1,4) by (cases bs) (auto simp: bits_byte_def shift_in_def)
  then have v: "v = bits_byte bs" and h': "h' = (if ack = 0 then i2c_send_nack p else i2c_send_ack p)
      (snd (i2c_read_bits lv p 8 0 ?h))"
    using assms(3) by (auto simp: i2c_read_byte_def split_beta Let_def)
  have "byte_bits v = bs" using bs(1) v by simp
  then show ?thesis
    using send_ack_low [OF pins bs(2)] send_nack_low [OF pins bs(2)] bs(3) h' by simp
qed

text \<open>Sequences of bytes: all acknowledged, or refused at index \<open>k\<close>.\<close>

definition acked :: "u8 list \<Rightarrow> i2c_symbol list" where
  "acked bs = concat (map (\<lambda>b. map BIT (byte_bits b) @ [BIT False]) bs)"

definition refused :: "nat \<Rightarrow> u8 list \<Rightarrow> i2c_symbol list" where
  "refused k bs = acked (take k bs) @ map BIT (byte_bits (bs ! k))"

text \<open>Bytes read: the master acknowledges all but the last.\<close>

definition answered :: "nat \<Rightarrow> nat \<Rightarrow> u8 list \<Rightarrow> i2c_symbol list" where
  "answered k n vs = concat (map (\<lambda>(i, v). map BIT (byte_bits v) @ [BIT (Suc i = k + n)]) (enumerate k vs))"

lemma acked_simps [simp]:
  "acked [] = []"
  "acked (b # bs) = map BIT (byte_bits b) @ BIT False # acked bs"
  "acked (bs @ cs) = acked bs @ acked cs"
  by (simp_all add: acked_def)

lemma refused_simps [simp]:
  "refused 0 (b # bs) = map BIT (byte_bits b)"
  "refused (Suc k) (b # bs) = map BIT (byte_bits b) @ BIT False # refused k bs"
  by (simp_all add: refused_def)

lemma send_loop_low:
  assumes pins: "pins_ok p" and "bus_low (mon p h)" and "i2c_send_loop lv p bs h = (r, h')"
  shows "r = I2C_OK \<and> bus_low (mon p h')
           \<and> syms p h' = syms p h @ acked bs
       \<or> r = I2C_ERROR \<and> bus_idle (mon p h')
           \<and> (\<exists>k < length bs. syms p h' = syms p h @ refused k bs @ [STOP])"
  using assms
proof (induction bs arbitrary: h)
  case Nil
  then show ?case by simp
next
  case (Cons b bs)
  let ?h = "i2c_send_byte p b h"
  obtain r1 h1 where ack: "i2c_wait_ack lv p ?h = (r1, h1)" by fastforce
  have sent: "bus_low (mon p ?h)" "syms p ?h = syms p h @ map BIT (byte_bits b)"
    using send_byte_low [OF Cons.prems(1,2)] by auto
  note a = wait_ack_low [OF Cons.prems(1) sent(1) ack]
  show ?case
  proof (cases "r1 = I2C_OK")
    case True
    then have "i2c_send_loop lv p bs h1 = (r, h')" using Cons.prems(3) ack by (simp add: I2C_OK_def)
    moreover have h1: "bus_low (mon p h1)" "syms p h1 = syms p h @ map BIT (byte_bits b) @ [BIT False]"
      using a True sent by (auto simp: I2C_OK_def I2C_ERROR_def)
    ultimately show ?thesis
      using Cons.IH [OF Cons.prems(1), of h1] by (fastforce intro: exI [of _ "Suc _"])
  next
    case False
    then have "r1 = I2C_ERROR" using a by auto
    then have "r = I2C_ERROR" "h' = i2c_stop p h1"
      using Cons.prems(3) ack by (simp_all add: I2C_ERROR_def)
    then show ?thesis
      using a False sent Cons.prems(1) stop_low [of p h1] by (auto intro!: exI [of _ 0])
  qed
qed

lemma read_loop_low:
  assumes "pins_ok p" and "bus_low (mon p h)" and "i2c_read_loop lv p n h = (vs, h')"
  shows "length vs = n \<and> bus_low (mon p h') \<and> syms p h' = syms p h @ answered k n vs"
  using assms
proof (induction n arbitrary: h vs k)
  case 0
  then show ?case by (simp add: answered_def)
next
  case (Suc n)
  define ack :: u8 where "ack = (if n \<noteq> 0 then 1 else 0)"
  obtain v h1 where v: "i2c_read_byte lv p ack h = (v, h1)" by fastforce
  obtain vs' where vs': "i2c_read_loop lv p n h1 = (vs', h')" "vs = v # vs'"
    using Suc.prems(3) v by (cases "n = 0"; cases "i2c_read_loop lv p n h1") (auto simp: ack_def)
  note b = read_byte_low [OF Suc.prems(1,2) v]
  have "ack = 0 \<longleftrightarrow> n = 0" by (simp add: ack_def)
  then show ?case
    using Suc.IH [OF Suc.prems(1) _ vs'(1), of "Suc k"] b vs' by (auto simp: answered_def)
qed

section \<open>The frames of the transactions\<close>

definition i2c_ready :: "u8 \<Rightarrow> i2c_world \<Rightarrow> bool" where
  "i2c_ready n w \<longleftrightarrow> n < SOFT_I2C_NUM \<and> is_i2c_init w ! unat n \<noteq> 0
     \<and> pins_ok (i2c_list w ! unat n) \<and> bus_idle (mon (i2c_list w ! unat n) (hist w))"

lemma i2c_readyD:
  assumes "i2c_ready n w"
  shows "\<not> SOFT_I2C_NUM \<le> n" "is_i2c_init w ! unat n \<noteq> 0" "pins_ok (i2c_list w ! unat n)"
    "bus_idle (mon (i2c_list w ! unat n) (hist w))"
  using assms by (auto simp: i2c_ready_def)

text \<open>A list of bytes written in one frame, as both writers do; the readers' address phase.\<close>

definition master_write :: "levels \<Rightarrow> SOFT_I2C_INFO \<Rightarrow> u8 list \<Rightarrow> history \<Rightarrow> u8 \<times> history" where
  "master_write lv p bs h =
     (let (r, h) = i2c_idle_check lv p h
      in if r \<noteq> 0 then (I2C_ERROR, h)
         else let (r, h) = i2c_send_loop lv p bs (i2c_start p h)
              in if r \<noteq> 0 then (I2C_ERROR, h) else (I2C_OK, i2c_delay I2C_DELAY_COUNT (i2c_stop p h)))"

lemma send_loop_append:
  "i2c_send_loop lv p (xs @ ys) h =
     (let (r, h) = i2c_send_loop lv p xs h
      in if r \<noteq> 0 then (I2C_ERROR, h) else i2c_send_loop lv p ys h)"
  by (induction xs arbitrary: h) (auto simp: Let_def split_beta I2C_OK_def I2C_ERROR_def)

lemma delay_mon [simp]: "mon p (i2c_delay c h) = mon p h"
  by (simp add: hw_defs)

lemma master_write_frame:
  assumes "pins_ok p" and "bus_idle (mon p h)" and "master_write lv p bs h = (r, h')"
  shows "bus_idle (mon p h') \<and>
    (r = I2C_OK \<and> syms p h' = syms p h @ [START] @ acked bs @ [STOP]
     \<or> r = I2C_ERROR \<and> (syms p h' = syms p h
         \<or> (\<exists>k < length bs. syms p h' = syms p h @ [START] @ refused k bs @ [STOP])))"
proof -
  obtain r1 h1 where 1: "i2c_idle_check lv p h = (r1, h1)" by fastforce
  obtain r2 h2 where 2: "i2c_send_loop lv p bs (i2c_start p h1) = (r2, h2)" by fastforce
  note i = idle_check_idle [OF assms(2) 1]
  note s = start_idle [OF assms(1), of h1]
  show ?thesis
  proof (cases "r1 = 0")
    case True
    from s i have "bus_low (mon p (i2c_start p h1))" by blast
    note l = send_loop_low [OF assms(1) this 2]
    have out: "r = (if r2 = 0 then I2C_OK else I2C_ERROR)"
      "h' = (if r2 = 0 then i2c_delay I2C_DELAY_COUNT (i2c_stop p h2) else h2)"
      using assms(3) True 1 2 by (auto simp: master_write_def split: if_splits)
    from l show ?thesis
    proof (elim disjE conjE exE)
      assume "r2 = I2C_OK" "bus_low (mon p h2)" "syms p h2 = syms p (i2c_start p h1) @ acked bs"
      then show ?thesis
        using out stop_low [OF assms(1), of h2] s i by (simp add: I2C_OK_def)
    next
      fix k assume "r2 = I2C_ERROR" "bus_idle (mon p h2)" "k < length bs"
        "syms p h2 = syms p (i2c_start p h1) @ refused k bs @ [STOP]"
      then show ?thesis
        using out s i by (auto simp: I2C_ERROR_def)
    qed
  next
    case False
    then show ?thesis using assms(3) 1 i by (auto simp: master_write_def)
  qed
qed

lemma write_device_master:
  assumes "i2c_ready n w"
  shows "i2c_write_device lv n addr data w =
    (let (r, h) = master_write lv (i2c_list w ! unat n) ((addr AND 0xfe) # data) (hist w)
     in (r, w\<lparr>hist := h\<rparr>))"
  using i2c_readyD(1,2) [OF assms]
  by (simp add: i2c_write_device_def master_write_def Let_def split_beta I2C_ERROR_def)

lemma write_memory_master:
  assumes "i2c_ready n w"
  shows "i2c_write_memory lv n addr mem_addr mem_size data w =
    (let (r, h) = master_write lv (i2c_list w ! unat n)
                    ((addr AND 0xfe) # mem_addr_bytes mem_addr (unat mem_size) @ data) (hist w)
     in (r, w\<lparr>hist := h\<rparr>))"
  using i2c_readyD(1,2) [OF assms]
  by (simp add: i2c_write_memory_def master_write_def Let_def split_beta I2C_ERROR_def send_loop_append)

definition master_read ::
  "levels \<Rightarrow> SOFT_I2C_INFO \<Rightarrow> u8 \<Rightarrow> nat \<Rightarrow> history \<Rightarrow> u8 \<times> u8 list \<times> history" where
  "master_read lv p a n h =
     (let (r, h) = i2c_send_loop lv p [a] (i2c_start p h)
      in if r \<noteq> 0 then (I2C_ERROR, [], h)
         else let (vs, h) = i2c_read_loop lv p n h in (I2C_OK, vs, i2c_stop p h))"

lemma start_any:
  "pins_ok p \<Longrightarrow> bus_idle (mon p h) \<or> bus_low (mon p h) \<Longrightarrow>
   bus_low (mon p (i2c_start p h)) \<and> syms p (i2c_start p h) = syms p h @ [START]"
  using start_idle start_low by blast

lemma master_read_frame:
  assumes "pins_ok p" and "bus_idle (mon p h) \<or> bus_low (mon p h)"
    and "master_read lv p a n h = (r, vs, h')"
  shows "bus_idle (mon p h') \<and>
    (r = I2C_OK \<and> length vs = n \<and> syms p h' = syms p h @ [START] @ acked [a] @ answered 0 n vs @ [STOP]
     \<or> r = I2C_ERROR \<and> vs = [] \<and> syms p h' = syms p h @ [START] @ refused 0 [a] @ [STOP])"
proof -
  note s = start_any [OF assms(1,2)]
  obtain r1 h1 where 1: "i2c_send_loop lv p [a] (i2c_start p h) = (r1, h1)" by fastforce
  obtain vs2 h2 where 2: "i2c_read_loop lv p n h1 = (vs2, h2)" by fastforce
  from send_loop_low [OF assms(1) conjunct1 [OF s] 1] show ?thesis
  proof (elim disjE conjE exE)
    assume ok: "r1 = I2C_OK" "bus_low (mon p h1)" "syms p h1 = syms p (i2c_start p h) @ acked [a]"
    then have "r = I2C_OK" "vs = vs2" "h' = i2c_stop p h2"
      using assms(3) 1 2 by (simp_all add: master_read_def I2C_OK_def)
    then show ?thesis
      using ok read_loop_low [OF assms(1) ok(2) 2, of 0] stop_low [OF assms(1), of h2] s by simp
  next
    fix k assume err: "r1 = I2C_ERROR" "bus_idle (mon p h1)" "k < length [a]"
      "syms p h1 = syms p (i2c_start p h) @ refused k [a] @ [STOP]"
    then have "r = I2C_ERROR" "vs = []" "h' = h1"
      using assms(3) 1 by (simp_all add: master_read_def I2C_ERROR_def)
    then show ?thesis using err s by simp
  qed
qed

lemma read_device_master:
  assumes "i2c_ready n w"
  shows "i2c_read_device lv n addr sz w =
    (let p = i2c_list w ! unat n; (r, h) = i2c_idle_check lv p (hist w)
     in if r \<noteq> 0 then (I2C_ERROR, [], w\<lparr>hist := h\<rparr>)
        else let (r, vs, h) = master_read lv p (addr OR 1) (unat sz) h in (r, vs, w\<lparr>hist := h\<rparr>))"
  using i2c_readyD(1,2) [OF assms]
  by (simp add: i2c_read_device_def master_read_def Let_def split_beta I2C_ERROR_def I2C_OK_def)

lemma read_memory_master:
  assumes "i2c_ready n w"
  shows "i2c_read_memory lv n addr mem_addr mem_size sz w =
    (let p = i2c_list w ! unat n; (r, h) = i2c_idle_check lv p (hist w)
     in if r \<noteq> 0 then (I2C_ERROR, [], w\<lparr>hist := h\<rparr>)
        else
          let (r, h) = i2c_send_loop lv p ((addr AND 0xfe) # mem_addr_bytes mem_addr (unat mem_size))
                         (i2c_start p h)
          in if r \<noteq> 0 then (I2C_ERROR, [], w\<lparr>hist := h\<rparr>)
             else let (r, vs, h) = master_read lv p (addr OR 1) (unat sz) h
                  in (r, vs, w\<lparr>hist := h\<rparr>))"
  using i2c_readyD(1,2) [OF assms]
  by (simp add: i2c_read_memory_def master_read_def Let_def split_beta I2C_ERROR_def I2C_OK_def)

lemma write_device_frame:
  assumes p_def: "p = i2c_list w ! unat n"
    and "i2c_ready n w" and "i2c_write_device lv n addr data w = (r, w')"
  shows "i2c_ready n w' \<and>
    (r = I2C_OK \<and> syms p (hist w') = syms p (hist w) @ [START] @ acked ((addr AND 0xfe) # data) @ [STOP]
     \<or> r = I2C_ERROR \<and> (syms p (hist w') = syms p (hist w)
         \<or> (\<exists>k \<le> length data. syms p (hist w')
              = syms p (hist w) @ [START] @ refused k ((addr AND 0xfe) # data) @ [STOP])))"
proof -
  obtain h' where m: "master_write lv p ((addr AND 0xfe) # data) (hist w) = (r, h')"
    and w': "w' = w\<lparr>hist := h'\<rparr>"
    using assms(3) by (auto simp: write_device_master [OF assms(2)] p_def split: prod.splits)
  show ?thesis
    using master_write_frame [OF _ _ m] i2c_readyD [OF assms(2)] w'
    by (auto simp: p_def i2c_ready_def less_Suc_eq_le)
qed

lemma write_memory_frame:
  assumes p_def: "p = i2c_list w ! unat n"
    and bs_def: "bs = (addr AND 0xfe) # mem_addr_bytes mem_addr (unat mem_size) @ data"
    and "i2c_ready n w" and "i2c_write_memory lv n addr mem_addr mem_size data w = (r, w')"
  shows "i2c_ready n w' \<and>
    (r = I2C_OK \<and> syms p (hist w') = syms p (hist w) @ [START] @ acked bs @ [STOP]
     \<or> r = I2C_ERROR \<and> (syms p (hist w') = syms p (hist w)
         \<or> (\<exists>k < length bs. syms p (hist w') = syms p (hist w) @ [START] @ refused k bs @ [STOP])))"
proof -
  obtain h' where m: "master_write lv p bs (hist w) = (r, h')" and w': "w' = w\<lparr>hist := h'\<rparr>"
    using assms(4) by (auto simp: write_memory_master [OF assms(3)] p_def bs_def split: prod.splits)
  show ?thesis
    using master_write_frame [OF _ _ m] i2c_readyD [OF assms(3)] w' by (auto simp: p_def i2c_ready_def)
qed

lemma read_device_frame:
  assumes p_def: "p = i2c_list w ! unat n"
    and "i2c_ready n w" and "i2c_read_device lv n addr sz w = (r, vs, w')"
  shows "i2c_ready n w' \<and>
    (r = I2C_OK \<and> length vs = unat sz \<and> syms p (hist w')
        = syms p (hist w) @ [START] @ acked [addr OR 1] @ answered 0 (unat sz) vs @ [STOP]
     \<or> r = I2C_ERROR \<and> vs = [] \<and> (syms p (hist w') = syms p (hist w)
         \<or> syms p (hist w') = syms p (hist w) @ [START] @ refused 0 [addr OR 1] @ [STOP]))"
proof -
  note rd = i2c_readyD [OF assms(2), folded p_def]
  obtain r1 h1 where 1: "i2c_idle_check lv p (hist w) = (r1, h1)" by fastforce
  note i = idle_check_idle [OF rd(4) 1]
  show ?thesis
  proof (cases "r1 = 0")
    case True
    obtain h' where m: "master_read lv p (addr OR 1) (unat sz) h1 = (r, vs, h')" and w': "w' = w\<lparr>hist := h'\<rparr>"
      using assms(3) True 1 by (auto simp: read_device_master [OF assms(2)] p_def split: prod.splits)
    show ?thesis
      using master_read_frame [OF rd(3) _ m] i rd w' by (auto simp: p_def i2c_ready_def)
  next
    case False
    then show ?thesis
      using assms(3) 1 i rd by (auto simp: read_device_master [OF assms(2)] p_def i2c_ready_def)
  qed
qed

lemma read_memory_frame:
  assumes p_def: "p = i2c_list w ! unat n"
    and bs_def: "bs = (addr AND 0xfe) # mem_addr_bytes mem_addr (unat mem_size)"
    and "i2c_ready n w" and "i2c_read_memory lv n addr mem_addr mem_size sz w = (r, vs, w')"
  shows "i2c_ready n w' \<and>
    (r = I2C_OK \<and> length vs = unat sz \<and> syms p (hist w')
        = syms p (hist w) @ [START] @ acked bs
            @ [START] @ acked [addr OR 1] @ answered 0 (unat sz) vs @ [STOP]
     \<or> r = I2C_ERROR \<and> vs = [] \<and> (syms p (hist w') = syms p (hist w)
         \<or> (\<exists>k < length bs. syms p (hist w') = syms p (hist w) @ [START] @ refused k bs @ [STOP])
         \<or> syms p (hist w') = syms p (hist w) @ [START] @ acked bs
              @ [START] @ refused 0 [addr OR 1] @ [STOP]))"
proof -
  note rd = i2c_readyD [OF assms(3), folded p_def]
  obtain r1 h1 where 1: "i2c_idle_check lv p (hist w) = (r1, h1)" by fastforce
  note i = idle_check_idle [OF rd(4) 1]
  obtain r2 h2 where 2: "i2c_send_loop lv p bs (i2c_start p h1) = (r2, h2)" by fastforce
  note def = read_memory_master [OF assms(3), of lv addr mem_addr mem_size sz, folded p_def bs_def]
  show ?thesis
  proof (cases "r1 = 0")
    case True
    note st = start_idle [OF rd(3) conjunct1 [OF i]]
    from send_loop_low [OF rd(3) conjunct1 [OF st] 2] show ?thesis
    proof (elim disjE conjE exE)
      assume ok: "r2 = I2C_OK" "bus_low (mon p h2)" "syms p h2 = syms p (i2c_start p h1) @ acked bs"
      obtain h' where m: "master_read lv p (addr OR 1) (unat sz) h2 = (r, vs, h')"
        and w': "w' = w\<lparr>hist := h'\<rparr>"
        using assms(4) True 1 2 ok(1) by (auto simp: def I2C_OK_def split: prod.splits)
      show ?thesis
        using master_read_frame [OF rd(3) _ m] ok i st rd w' by (auto simp: p_def i2c_ready_def)
    next
      fix k assume err: "r2 = I2C_ERROR" "bus_idle (mon p h2)" "k < length bs"
        "syms p h2 = syms p (i2c_start p h1) @ refused k bs @ [STOP]"
      then show ?thesis
        using assms(4) True 1 2 i st rd by (auto simp: def I2C_ERROR_def p_def i2c_ready_def)
    qed
  next
    case False
    then show ?thesis
      using assms(4) 1 i rd by (auto simp: def p_def i2c_ready_def)
  qed
qed

section \<open>Devices that acknowledge\<close>

text \<open>The number of bits clocked since the last start or stop condition.\<close>

fun is_bit :: "i2c_symbol \<Rightarrow> bool" where
  "is_bit (BIT b) = True"
| "is_bit START = False"
| "is_bit STOP = False"

definition bit_count :: "i2c_symbol list \<Rightarrow> nat" where
  "bit_count ss = length (takeWhile is_bit (rev ss))"

lemma takeWhile_map_BIT: "takeWhile is_bit (map BIT bs @ ss) = map BIT bs @ takeWhile is_bit ss"
  by (induction bs) auto

lemma bit_count_simps [simp]:
  "bit_count (ss @ [START]) = 0"
  "bit_count (ss @ [BIT b]) = Suc (bit_count ss)"
  "bit_count (ss @ map BIT bs) = length bs + bit_count ss"
  by (simp_all add: bit_count_def rev_map takeWhile_map_BIT)

text \<open>
  A device that leaves an idle bus alone and pulls the data line low after every eighth bit, while
  the clock is low.
\<close>

definition ack_slot :: "monitor \<Rightarrow> bool" where
  "ack_slot m \<longleftrightarrow> \<not> m_scl m \<and> bit_count (m_syms m) mod 9 = 8"

definition acknowledges :: "levels \<Rightarrow> SOFT_I2C_INFO \<Rightarrow> bool" where
  "acknowledges lv p \<longleftrightarrow> (\<forall>h. (bus_idle (mon p h) \<longrightarrow> lv h (sda_port p) (ucast (sda_pin p)))
     \<and> (ack_slot (mon p h) \<longrightarrow> \<not> lv h (sda_port p) (ucast (sda_pin p))))"

text \<open>One such device.\<close>

definition ack_device :: "SOFT_I2C_INFO \<Rightarrow> levels" where
  "ack_device p h port pin = (\<not> ack_slot (mon p h))"

lemma ack_device_acknowledges: "acknowledges (ack_device p) p"
  by (simp add: acknowledges_def ack_device_def ack_slot_def bus_idle_def)

lemma poll_first:
  "lv h (sda_port p) (ucast (sda_pin p)) = want \<Longrightarrow> fst (sda_poll lv p want n h) = I2C_OK"
  by (simp add: sda_poll.simps [of lv p want n h] hw_defs Let_def)

lemma idle_check_ok:
  assumes "acknowledges lv p" and "bus_idle (mon p h)"
  shows "fst (i2c_idle_check lv p h) = I2C_OK"
proof -
  have "bus_idle (mon p (i2c_sda_config_in p h))"
    using assms(2) by (simp add: hw_defs bus_idle_def m_edge_def m_drive_def gpio_init0_def)
  then show ?thesis using assms(1) by (simp add: i2c_idle_check_def poll_first acknowledges_def)
qed

lemma wait_ack_ok:
  assumes "acknowledges lv p" and "bus_low (mon p h)" and "bit_count (syms p h) mod 9 = 8"
  shows "fst (i2c_wait_ack lv p h) = I2C_OK"
proof -
  let ?h = "i2c_delay I2C_DELAY_COUNT (i2c_sda_config_in p h)"
  have "ack_slot (mon p ?h)"
    using assms(2,3) config_in_low [of p h] by (simp add: ack_slot_def bus_low_def)
  then have "fst (sda_poll lv p False 0 ?h) = I2C_OK"
    using assms(1) by (intro poll_first) (simp add: acknowledges_def)
  then show ?thesis by (simp add: i2c_wait_ack_def split_beta Let_def I2C_OK_def I2C_ERROR_def)
qed

lemma send_loop_ok:
  assumes "acknowledges lv p" and "pins_ok p"
  shows "bus_low (mon p h) \<Longrightarrow> bit_count (syms p h) mod 9 = 0 \<Longrightarrow> fst (i2c_send_loop lv p bs h) = I2C_OK"
proof (induction bs arbitrary: h)
  case Nil
  then show ?case by simp
next
  case (Cons b bs)
  let ?h = "i2c_send_byte p b h"
  obtain r1 h1 where ack: "i2c_wait_ack lv p ?h = (r1, h1)" by fastforce
  note sent = send_byte_low [OF assms(2) Cons.prems(1), of b]
  have c: "bit_count (syms p ?h) = 8 + bit_count (syms p h)" using sent by simp
  have m8: "bit_count (syms p ?h) mod 9 = 8" using c Cons.prems(2) by presburger
  then have r1: "r1 = I2C_OK" using wait_ack_ok [OF assms(1) conjunct1 [OF sent]] ack by simp
  note a = wait_ack_low [OF assms(2) conjunct1 [OF sent] ack]
  have h1: "syms p h1 = syms p ?h @ [BIT False]"
    using a r1 by (auto simp: I2C_OK_def I2C_ERROR_def)
  have "bit_count (syms p h1) mod 9 = 0" using m8 unfolding h1 bit_count_simps(2) by presburger
  then have "fst (i2c_send_loop lv p bs h1) = I2C_OK" by (rule Cons.IH [OF conjunct1 [OF a]])
  then show ?case using ack r1 by (simp add: Let_def I2C_OK_def)
qed

lemma master_write_ok:
  assumes "acknowledges lv p" and "pins_ok p" and "bus_idle (mon p h)"
  shows "fst (master_write lv p bs h) = I2C_OK"
proof -
  obtain r1 h1 where 1: "i2c_idle_check lv p h = (r1, h1)" by fastforce
  note i = idle_check_idle [OF assms(3) 1]
  note s = start_idle [OF assms(2) conjunct1 [OF i]]
  have "fst (i2c_send_loop lv p bs (i2c_start p h1)) = I2C_OK"
    using send_loop_ok [OF assms(1,2)] s by simp
  moreover have "r1 = I2C_OK" using idle_check_ok [OF assms(1,3)] 1 by simp
  ultimately show ?thesis using 1 by (simp add: master_write_def I2C_OK_def split_beta Let_def)
qed

lemma master_read_ok:
  assumes "acknowledges lv p" and "pins_ok p" and "bus_idle (mon p h) \<or> bus_low (mon p h)"
  shows "fst (master_read lv p a n h) = I2C_OK"
  using send_loop_ok [OF assms(1,2), of "i2c_start p h" "[a]"] start_any [OF assms(2,3)]
  by (simp add: master_read_def split_beta Let_def I2C_OK_def)

lemma i2c_ok_all:
  assumes "i2c_ready n w" and "acknowledges lv (i2c_list w ! unat n)"
  shows "fst (i2c_write_device lv n addr data w) = I2C_OK"
    and "fst (i2c_write_memory lv n addr mem_addr mem_size data w) = I2C_OK"
    and "fst (i2c_read_device lv n addr sz w) = I2C_OK"
    and "fst (i2c_read_memory lv n addr mem_addr mem_size sz w) = I2C_OK"
proof -
  let ?p = "i2c_list w ! unat n"
  note rd = i2c_readyD [OF assms(1)]
  obtain h1 where 1: "i2c_idle_check lv ?p (hist w) = (I2C_OK, h1)"
    using idle_check_ok [OF assms(2) rd(4)] by (cases "i2c_idle_check lv ?p (hist w)") simp
  have idle: "bus_idle (mon ?p h1)" using idle_check_idle [OF rd(4) 1] by simp
  note s = start_idle [OF rd(3) idle]
  define bs where "bs = (addr AND 0xfe) # mem_addr_bytes mem_addr (unat mem_size)"
  obtain h2 where 2: "i2c_send_loop lv ?p bs (i2c_start ?p h1) = (I2C_OK, h2)"
    using send_loop_ok [OF assms(2) rd(3), of "i2c_start ?p h1" bs] s
    by (cases "i2c_send_loop lv ?p bs (i2c_start ?p h1)") simp
  have low: "bus_low (mon ?p h2)"
    using send_loop_low [OF rd(3) conjunct1 [OF s] 2] by (auto simp: I2C_OK_def I2C_ERROR_def)
  show "fst (i2c_write_device lv n addr data w) = I2C_OK"
    "fst (i2c_write_memory lv n addr mem_addr mem_size data w) = I2C_OK"
    using master_write_ok [OF assms(2) rd(3,4)]
    by (simp_all add: write_device_master [OF assms(1)] write_memory_master [OF assms(1)] split_beta Let_def)
  show "fst (i2c_read_device lv n addr sz w) = I2C_OK"
    using master_read_ok [OF assms(2) rd(3), of h1] idle 1
    by (simp add: read_device_master [OF assms(1)] split_beta Let_def I2C_OK_def)
  show "fst (i2c_read_memory lv n addr mem_addr mem_size sz w) = I2C_OK"
    using master_read_ok [OF assms(2) rd(3), of h2] low 1 2
    by (simp add: read_memory_master [OF assms(1)] split_beta Let_def I2C_OK_def bs_def)
qed

section \<open>Initialisation\<close>

definition i2c_pin_cfg :: "u32 \<Rightarrow> GPIO_InitTypeDef" where
  "i2c_pin_cfg pin = gpio_init0\<lparr>Pin := ucast pin, Mode := GPIO_MODE_OUTPUT_OD,
                       Pull := GPIO_NOPULL, Speed := GPIO_SPEED_FREQ_VERY_HIGH\<rparr>"

lemma i2c_pin_cfg_simps [simp]:
  "Pin (i2c_pin_cfg pin) = ucast pin"
  "Mode (i2c_pin_cfg pin) = GPIO_MODE_OUTPUT_OD"
  by (simp_all add: i2c_pin_cfg_def)

lemma soft_init_fresh:
  assumes "n < SOFT_I2C_NUM" and "is_i2c_init w ! unat n = 0"
  shows "i2c_soft_init n info w
      = (I2C_OK, w\<lparr>is_i2c_init := (is_i2c_init w)[unat n := 1], i2c_list := (i2c_list w)[unat n := info],
           hist := InitPin (sda_port info) (i2c_pin_cfg (sda_pin info))
                   # InitPin (scl_port info) (i2c_pin_cfg (scl_pin info))
                   # I2C_SDA_H info (I2C_SCL_H info (hist w))\<rparr>)"
  using assms by (simp add: i2c_soft_init_def i2c_pin_cfg_def gpio_init0_def HAL_GPIO_Init_def not_le [symmetric])

lemma soft_init_ready:
  assumes "n < SOFT_I2C_NUM" and "length (i2c_list w) = 3" and "length (is_i2c_init w) = 3"
    and "is_i2c_init w ! unat n = 0" and "pins_ok info" and "bus_idle (mon info (hist w))"
    and "i2c_soft_init n info w = (r, w')"
  shows "r = I2C_OK \<and> i2c_ready n w' \<and> i2c_list w' ! unat n = info \<and> syms info (hist w') = syms info (hist w)"
proof -
  have n: "unat n < 3" using assms(1) by (simp add: SOFT_I2C_NUM_def word_less_nat_alt)
  have w': "r = I2C_OK" "w' = w\<lparr>is_i2c_init := (is_i2c_init w)[unat n := 1],
           i2c_list := (i2c_list w)[unat n := info],
           hist := InitPin (sda_port info) (i2c_pin_cfg (sda_pin info))
                   # InitPin (scl_port info) (i2c_pin_cfg (scl_pin info))
                   # I2C_SDA_H info (I2C_SCL_H info (hist w))\<rparr>"
    using soft_init_fresh [OF assms(1,4), of info] assms(7) by auto
  have "bus_idle (mon info (hist w')) \<and> syms info (hist w') = syms info (hist w)"
    using assms(5,6) by (simp add: w'(2) hw_defs bus_idle_def m_edge_def m_drive_def)
  moreover have "is_i2c_init w' ! unat n \<noteq> 0" "i2c_list w' ! unat n = info"
    using n assms(2,3) by (simp_all add: w'(2))
  ultimately show ?thesis using w'(1) assms(1,5) by (simp add: i2c_ready_def)
qed

section \<open>Several buses\<close>

text \<open>Two buses that share no pin.\<close>

definition separate :: "SOFT_I2C_INFO \<Rightarrow> SOFT_I2C_INFO \<Rightarrow> bool" where
  "separate p q \<longleftrightarrow>
     \<not> is_scl q (scl_port p) (ucast (scl_pin p)) \<and> \<not> is_scl q (sda_port p) (ucast (sda_pin p))
   \<and> \<not> is_sda q (scl_port p) (ucast (scl_pin p)) \<and> \<not> is_sda q (sda_port p) (ucast (sda_pin p))"

lemma separate_pins [frame_simps]:
  assumes "separate p q"
  shows "mon q (I2C_SCL_H p h) = mon q h" "mon q (I2C_SCL_L p h) = mon q h"
    "mon q (I2C_SDA_H p h) = mon q h" "mon q (I2C_SDA_L p h) = mon q h"
    "mon q (i2c_sda_config_in p h) = mon q h" "mon q (i2c_sda_config_out p h) = mon q h"
    "mon q (snd (I2C_SDA_INPUT lv p h)) = mon q h"
  using assms by (simp_all add: hw_defs separate_def Let_def gpio_init0_def)

lemma separate_primitives [frame_simps]:
  assumes "separate p q"
  shows "mon q (i2c_start p h) = mon q h" "mon q (i2c_stop p h) = mon q h"
    "mon q (i2c_send_ack p h) = mon q h" "mon q (i2c_send_nack p h) = mon q h"
  by (simp_all add: i2c_start_def i2c_stop_def i2c_send_ack_def i2c_send_nack_def frame_simps [OF assms])

lemma separate_send_bits:
  "separate p q \<Longrightarrow> mon q (i2c_send_bits p n b h) = mon q h"
  by (induction n arbitrary: b h) (simp_all add: Let_def frame_simps)

lemma separate_send_byte [frame_simps]:
  "separate p q \<Longrightarrow> mon q (i2c_send_byte p b h) = mon q h"
  by (simp add: i2c_send_byte_def separate_send_bits frame_simps)

lemma separate_poll [frame_simps]:
  "separate p q \<Longrightarrow> mon q (snd (sda_poll lv p want n h)) = mon q h"
proof (induction lv p want n h rule: sda_poll.induct)
  case (1 lv p want n h)
  obtain b g where read: "I2C_SDA_INPUT lv p h = (b, g)" by fastforce
  have g: "mon q g = mon q h" using separate_pins(7) [OF "1.prems", of lv h] read by simp
  show ?case
    using "1.IH" [OF read [symmetric] refl] "1.prems" g read
    by (simp add: sda_poll.simps [of lv p want n h])
qed

lemma separate_idle_check [frame_simps]:
  "separate p q \<Longrightarrow> mon q (snd (i2c_idle_check lv p h)) = mon q h"
  by (simp add: i2c_idle_check_def frame_simps)

lemma separate_wait_ack [frame_simps]:
  "separate p q \<Longrightarrow> mon q (snd (i2c_wait_ack lv p h)) = mon q h"
  by (simp add: i2c_wait_ack_def split_beta Let_def frame_simps)

lemma separate_read_bits:
  "separate p q \<Longrightarrow> mon q (snd (i2c_read_bits lv p n v h)) = mon q h"
  by (induction n arbitrary: v h) (simp_all add: Let_def split_beta frame_simps)

lemma separate_read_byte [frame_simps]:
  "separate p q \<Longrightarrow> mon q (snd (i2c_read_byte lv p ack h)) = mon q h"
  by (simp add: i2c_read_byte_def split_beta Let_def separate_read_bits frame_simps)

lemma separate_send_loop [frame_simps]:
  "separate p q \<Longrightarrow> mon q (snd (i2c_send_loop lv p bs h)) = mon q h"
  by (induction bs arbitrary: h) (simp_all add: Let_def split_beta frame_simps)

lemma separate_read_loop [frame_simps]:
  "separate p q \<Longrightarrow> mon q (snd (i2c_read_loop lv p n h)) = mon q h"
  by (induction n arbitrary: h) (simp_all add: Let_def split_beta frame_simps)

section \<open>Properties\<close>

text \<open>A bus to try the properties on.\<close>

definition demo_pins :: SOFT_I2C_INFO where
  "demo_pins = \<lparr>scl_pin = 0x10, scl_port = GPIOH, sda_pin = 0x20, sda_port = GPIOH\<rparr>"

text \<open>The big-endian bytes of a number, the specification of the memory address bytes.\<close>

primrec be_bytes :: "nat \<Rightarrow> nat \<Rightarrow> u8 list" where
  "be_bytes 0 v = []"
| "be_bytes (Suc n) v = be_bytes n (v div 256) @ [word_of_nat (v mod 256)]"

lemma be_bytes_map: "be_bytes n v = map (\<lambda>i. word_of_nat (v div 256 ^ (n - i - 1) mod 256)) [0..<n]"
proof (induction n arbitrary: v)
  case (Suc n)
  have "v div 256 div 256 ^ (n - i - 1) = v div 256 ^ (Suc n - i - 1)" if "i < n" for i
  proof -
    have "Suc n - i - 1 = Suc (n - i - 1)" using that by simp
    then show ?thesis by (simp add: div_mult2_eq)
  qed
  then show ?case using Suc.IH [of "v div 256"] by simp
qed simp

lemma mem_addr_bytes_be: "mem_addr_bytes a n = be_bytes n (unat a)"
proof -
  have "(ucast (drop_bit (k * 8) a AND 0xff) :: u8) = word_of_nat (unat a div 256 ^ k mod 256)" for k
  proof -
    have m: "x AND 0xff = take_bit 8 x" for x :: u32 by (simp add: take_bit_eq_mask mask_eq_exp_minus_1)
    have l: "unat a < 2 ^ LENGTH(32)" by (rule unsigned_less)
    have d: "unat (drop_bit (k * 8) a AND 0xff) = unat a div 256 ^ k mod 256"
      unfolding m unsigned_take_bit_eq unsigned_drop_bit_eq
      using l by (simp add: take_bit_eq_mod drop_bit_eq_div power_mult mult.commute [of k 8])
    have "(ucast x :: u8) = word_of_nat (unat x)" for x :: u32 by (rule of_nat_unat [symmetric])
    from this [of "drop_bit (k * 8) a AND 0xff"] show ?thesis unfolding d .
  qed
  then show ?thesis unfolding mem_addr_bytes_def be_bytes_map by simp
qed

definition demo_bus :: i2c_world where
  "demo_bus = \<lparr>i2c_list = replicate 3 demo_pins, is_i2c_init = [1, 1, 1], hist = []\<rparr>"

lemma demo_bus_ready: "i2c_ready 0 demo_bus"
  by (simp add: i2c_ready_def demo_bus_def SOFT_I2C_NUM_def pins_ok_def is_scl_def demo_pins_def
      bus_idle_def monitor0_def)

text \<open>
  C9. i2c_write_memory drives the wires so that an I2C observer decodes exactly a start, the device
  address with the write bit clear, the memory address high byte first, the data bytes, each with
  its acknowledge slot, and a stop; on an error it decodes nothing, or a prefix of the bytes cut at
  the first refused one and closed by a stop; the bus is ready again in every case.
\<close>

theorem i2c_write_memory_framing:
  assumes "p = i2c_list w ! unat n" and "bs = (addr AND 0xfe) # be_bytes (unat mem_size) (unat mem_addr) @ data"
    and "i2c_ready n w" and "i2c_write_memory lv n addr mem_addr mem_size data w = (r, w')"
  shows "i2c_ready n w' \<and>
    (r = I2C_OK \<and> syms p (hist w') = syms p (hist w) @ [START] @ acked bs @ [STOP]
     \<or> r = I2C_ERROR \<and> (syms p (hist w') = syms p (hist w)
         \<or> (\<exists>k < length bs. syms p (hist w') = syms p (hist w) @ [START] @ refused k bs @ [STOP])))"
  by (rule write_memory_frame [OF assms [folded mem_addr_bytes_be]])

theorem i2c_write_memory_framing_witness:
  "syms demo_pins (hist (snd (i2c_write_memory (ack_device demo_pins) 0 0xa1 0x102 2 [5] demo_bus)))
   = [START] @ acked [0xa0, 0x01, 0x02, 5] @ [STOP]"
proof -
  note f = i2c_write_memory_framing [OF refl refl demo_bus_ready surjective_pairing,
      of "ack_device demo_pins" "0xa1" "0x102" 2 "[5]"]
  have "fst (i2c_write_memory (ack_device demo_pins) 0 0xa1 0x102 2 [5] demo_bus) = I2C_OK"
    by (rule i2c_ok_all(2) [OF demo_bus_ready]) (simp add: ack_device_acknowledges demo_bus_def)
  moreover have "be_bytes (unat (2 :: u8)) (unat (0x102 :: u32)) = [1, 2]"
    using mem_addr_bytes_be [of "0x102" 2] by (simp add: mem_addr_bytes_def upt_rec)
  ultimately show ?thesis using f by (simp add: demo_bus_def I2C_OK_def I2C_ERROR_def monitor0_def)
qed

text \<open>
  C10. i2c_read_memory drives the wires so that an I2C observer decodes the addressed write of the
  memory address, a repeated start, the device address with the read bit set and then the bytes the
  function returns, each acknowledged by the master except the last, and a stop; each error leaves a
  properly closed prefix of that frame, and the bus ready.
\<close>

theorem i2c_read_memory_framing:
  assumes "p = i2c_list w ! unat n" and "bs = (addr AND 0xfe) # be_bytes (unat mem_size) (unat mem_addr)"
    and "i2c_ready n w" and "i2c_read_memory lv n addr mem_addr mem_size sz w = (r, vs, w')"
  shows "i2c_ready n w' \<and>
    (r = I2C_OK \<and> length vs = unat sz \<and> syms p (hist w')
        = syms p (hist w) @ [START] @ acked bs
            @ [START] @ acked [addr OR 1] @ answered 0 (unat sz) vs @ [STOP]
     \<or> r = I2C_ERROR \<and> vs = [] \<and> (syms p (hist w') = syms p (hist w)
         \<or> (\<exists>k < length bs. syms p (hist w') = syms p (hist w) @ [START] @ refused k bs @ [STOP])
         \<or> syms p (hist w') = syms p (hist w) @ [START] @ acked bs
              @ [START] @ refused 0 [addr OR 1] @ [STOP]))"
  by (rule read_memory_frame [OF assms [folded mem_addr_bytes_be]])

theorem i2c_read_memory_framing_witness:
  "\<exists>v. syms demo_pins (hist (snd (snd (i2c_read_memory (ack_device demo_pins) 0 0xa1 7 1 1 demo_bus))))
     = [START] @ acked [0xa0, 7] @ [START] @ acked [0xa1] @ map BIT (byte_bits v) @ [BIT True, STOP]"
proof -
  obtain r vs w' where t: "i2c_read_memory (ack_device demo_pins) 0 0xa1 7 1 1 demo_bus = (r, vs, w')"
    by (cases "i2c_read_memory (ack_device demo_pins) 0 0xa1 7 1 1 demo_bus") auto
  note f = i2c_read_memory_framing [OF refl refl demo_bus_ready t]
  have "r = I2C_OK"
    using i2c_ok_all(4) [OF demo_bus_ready, of "ack_device demo_pins" "0xa1" 7 1 1] t
    by (simp add: ack_device_acknowledges demo_bus_def)
  moreover have "be_bytes (unat (1 :: u8)) (unat (7 :: u32)) = [7]"
    using mem_addr_bytes_be [of 7 1] by (simp add: mem_addr_bytes_def)
  ultimately have "length vs = 1" "syms demo_pins (hist w')
      = [START] @ acked [0xa0, 7] @ [START] @ acked [0xa1] @ answered 0 1 vs @ [STOP]"
    using f by (simp_all add: demo_bus_def I2C_OK_def I2C_ERROR_def monitor0_def)
  then show ?thesis using t by (cases vs) (auto simp: answered_def)
qed

text \<open>
  With a device that leaves the idle line high and pulls every acknowledge slot low, all four
  transfer functions of the software I2C bus return success.
\<close>

lemma i2c_acknowledged:
  assumes "i2c_ready n w" and "acknowledges lv (i2c_list w ! unat n)"
  shows "fst (i2c_write_device lv n addr data w) = I2C_OK
       \<and> fst (i2c_write_memory lv n addr mem_addr mem_size data w) = I2C_OK
       \<and> fst (i2c_read_device lv n addr sz w) = I2C_OK
       \<and> fst (i2c_read_memory lv n addr mem_addr mem_size sz w) = I2C_OK"
  using i2c_ok_all [OF assms] by simp

text \<open>
  A transfer on one software I2C bus is invisible to an observer of any bus whose pins are
  distinct from its pins.
\<close>

lemma i2c_buses_independent:
  assumes "separate (i2c_list w ! unat n) q"
  shows "mon q (hist (snd (i2c_write_device lv n addr data w))) = mon q (hist w)
       \<and> mon q (hist (snd (i2c_write_memory lv n addr mem_addr mem_size data w))) = mon q (hist w)
       \<and> mon q (hist (snd (snd (i2c_read_device lv n addr sz w)))) = mon q (hist w)
       \<and> mon q (hist (snd (snd (i2c_read_memory lv n addr mem_addr mem_size sz w)))) = mon q (hist w)"
  by (simp add: i2c_write_device_def i2c_write_memory_def i2c_read_device_def i2c_read_memory_def
      split_beta Let_def frame_simps [OF assms])

end
