(* ===== verification/I2C_Devices.thy ===== *)
theory I2C_Devices
  imports Soft_I2C
begin

text \<open>
  The three devices on the bit-banged bus \<open>SOFT_I2C2\<close>: the PCF8574 port expander, the MPU9250 and the
  AP3216C sensors (\<^verbatim>\<open>Drivers/Src/drv_i2c_*.c\<close>, the variants compiled with software I2C). The two sensors
  are register devices; what they put on the bus is proved once, in a locale. Critical sections have
  no counterpart: the operations are atomic here.
\<close>

section \<open>The drivers\<close>

text \<open>The pins all three drivers register: PH4 for the clock, PH5 for data.\<close>

definition board_i2c_info :: SOFT_I2C_INFO where
  "board_i2c_info = \<lparr>scl_pin = ucast GPIO_PIN_4, scl_port = GPIOH,
                     sda_pin = ucast GPIO_PIN_5, sda_port = GPIOH\<rparr>"

definition hw_emit :: "hw_event list \<Rightarrow> i2c_world \<Rightarrow> i2c_world" where
  "hw_emit es w = w\<lparr>hist := rev es @ hist w\<rparr>"

definition PCF8574_ADDR :: u8 where "PCF8574_ADDR = 0x40"
definition MPU9250_ADDR :: u8 where "MPU9250_ADDR = 0x68"
definition AP3216C_ADDR :: u8 where "AP3216C_ADDR = 0x1E"
definition AP3216C_SYSTEMCONG :: u8 where "AP3216C_SYSTEMCONG = 0x00"

definition pcf8574_driver_init :: "i2c_world \<Rightarrow> BaseType_t \<times> i2c_world" where
  "pcf8574_driver_init w =
     (let w = hw_emit [ClockEnable GPIOB, ClockEnable GPIOH] w;
          (r, w) = i2c_soft_init SOFT_I2C2 board_i2c_info w
      in if r \<noteq> I2C_OK then (pdFAIL, w)
         else (pdPASS,
           hw_emit [InitPin GPIOB (gpio_init0\<lparr>Pin := GPIO_PIN_12, Mode := GPIO_MODE_IT_FALLING,
                                             Pull := GPIO_PULLUP\<rparr>),
                    SetPriority EXTI15_10_IRQn 0 0, EnableIRQ EXTI15_10_IRQn] w))"

definition pcf8574_i2c_write :: "levels \<Rightarrow> u8 \<Rightarrow> i2c_world \<Rightarrow> BaseType_t \<times> i2c_world" where
  "pcf8574_i2c_write lv data w =
     (let (res, w) = i2c_write_device lv SOFT_I2C2 PCF8574_ADDR [data] w
      in if res \<noteq> 0 then (pdFAIL, w) else (pdPASS, w))"

text \<open>\<open>pdata\<close> is the list of the bytes stored, of length one or (on failure) zero.\<close>

definition pcf8574_i2c_read :: "levels \<Rightarrow> i2c_world \<Rightarrow> BaseType_t \<times> u8 list \<times> i2c_world" where
  "pcf8574_i2c_read lv w =
     (let (res, pdata, w) = i2c_read_device lv SOFT_I2C2 PCF8574_ADDR 1 w
      in if res \<noteq> 0 then (pdFAIL, pdata, w) else (pdPASS, pdata, w))"

text \<open>The handler of the expander's interrupt line; \<open>trigger\<close> is the application's callback.\<close>

definition EXTI15_10_IRQHandler ::
  "('a \<Rightarrow> 'a) \<Rightarrow> u16 \<times> history \<times> 'a \<Rightarrow> u16 \<times> history \<times> 'a" where
  "EXTI15_10_IRQHandler trigger = (\<lambda>(pending, h, a).
     if pending AND GPIO_PIN_12 \<noteq> 0
     then (pending AND NOT GPIO_PIN_12, DisableIRQ EXTI15_10_IRQn # h, trigger a)
     else (pending, h, a))"

definition mpu9250_driver_init :: "i2c_world \<Rightarrow> BaseType_t \<times> i2c_world" where
  "mpu9250_driver_init w =
     (let w = hw_emit [ClockEnable GPIOB, ClockEnable GPIOH] w;
          (r, w) = i2c_soft_init SOFT_I2C2 board_i2c_info w
      in if r \<noteq> I2C_OK then (pdFAIL, w) else (pdPASS, w))"

definition mpu9250_i2c_multi_write :: "levels \<Rightarrow> u8 \<Rightarrow> u8 list \<Rightarrow> i2c_world \<Rightarrow> BaseType_t \<times> i2c_world" where
  "mpu9250_i2c_multi_write lv reg data w =
     (let (res, w) = i2c_write_memory lv SOFT_I2C2 MPU9250_ADDR (ucast reg) 1 data w
      in if res \<noteq> I2C_OK then (pdFAIL, w) else (pdPASS, w))"

definition mpu9250_i2c_multi_read ::
  "levels \<Rightarrow> u8 \<Rightarrow> u8 \<Rightarrow> i2c_world \<Rightarrow> BaseType_t \<times> u8 list \<times> i2c_world" where
  "mpu9250_i2c_multi_read lv reg sz w =
     (let (res, rdata, w) = i2c_read_memory lv SOFT_I2C2 MPU9250_ADDR (ucast reg) 1 (ucast sz) w
      in if res \<noteq> I2C_OK then (pdFAIL, rdata, w) else (pdPASS, rdata, w))"

definition mpu9250_i2c_read_reg :: "levels \<Rightarrow> u8 \<Rightarrow> u8 \<Rightarrow> i2c_world \<Rightarrow> BaseType_t \<times> i2c_world" where
  "mpu9250_i2c_read_reg lv reg data w = mpu9250_i2c_multi_write lv reg [data] w"

definition mpu9250_i2c_write_reg :: "levels \<Rightarrow> u8 \<Rightarrow> u8 \<Rightarrow> i2c_world \<Rightarrow> BaseType_t \<times> i2c_world" where
  "mpu9250_i2c_write_reg lv reg data w = mpu9250_i2c_multi_write lv reg [data] w"

definition ap3216_i2c_multi_write :: "levels \<Rightarrow> u8 \<Rightarrow> u8 list \<Rightarrow> i2c_world \<Rightarrow> BaseType_t \<times> i2c_world" where
  "ap3216_i2c_multi_write lv reg data w =
     (let (res, w) = i2c_write_memory lv SOFT_I2C2 (push_bit 1 AP3216C_ADDR) (ucast reg) 1 data w
      in if res \<noteq> I2C_OK then (pdFAIL, w) else (pdPASS, w))"

definition ap3216_i2c_multi_read ::
  "levels \<Rightarrow> u8 \<Rightarrow> u8 \<Rightarrow> i2c_world \<Rightarrow> BaseType_t \<times> u8 list \<times> i2c_world" where
  "ap3216_i2c_multi_read lv reg sz w =
     (let (res, rdata, w) = i2c_read_memory lv SOFT_I2C2 (push_bit 1 AP3216C_ADDR) (ucast reg) 1 (ucast sz) w
      in if res \<noteq> I2C_OK then (pdFAIL, rdata, w) else (pdPASS, rdata, w))"

definition ap3216_reg_read :: "levels \<Rightarrow> u8 \<Rightarrow> u8 \<Rightarrow> i2c_world \<Rightarrow> BaseType_t \<times> i2c_world" where
  "ap3216_reg_read lv reg data w = ap3216_i2c_multi_write lv reg [data] w"

definition ap3216_reg_write :: "levels \<Rightarrow> u8 \<Rightarrow> u8 \<Rightarrow> i2c_world \<Rightarrow> BaseType_t \<times> i2c_world" where
  "ap3216_reg_write lv reg data w = ap3216_i2c_multi_write lv reg [data] w"

definition ap3216_driver_init :: "levels \<Rightarrow> i2c_world \<Rightarrow> BaseType_t \<times> i2c_world" where
  "ap3216_driver_init lv w =
     (let w = hw_emit [ClockEnable GPIOB, ClockEnable GPIOH] w;
          (r, w) = i2c_soft_init SOFT_I2C2 board_i2c_info w
      in if r \<noteq> I2C_OK then (pdFAIL, w)
         else
           let (res, w) = ap3216_reg_write lv AP3216C_SYSTEMCONG 0x40 w
           in if res \<noteq> pdPASS then (pdFAIL, w)
              else
                let w = hw_emit [DelayMs 20] w;
                    (res, w) = ap3216_reg_write lv AP3216C_SYSTEMCONG 0x03 w
                in if res \<noteq> pdPASS then (pdFAIL, w) else (pdPASS, w))"

section \<open>The board's bus\<close>

definition on_bus :: "i2c_world \<Rightarrow> bool" where
  "on_bus w \<longleftrightarrow> i2c_ready SOFT_I2C2 w \<and> i2c_list w ! unat SOFT_I2C2 = board_i2c_info"

abbreviation bus_syms :: "i2c_world \<Rightarrow> i2c_symbol list" where
  "bus_syms w \<equiv> syms board_i2c_info (hist w)"

text \<open>Before the first driver initialises the bus and afterwards.\<close>

definition bus_inv :: "i2c_world \<Rightarrow> bool" where
  "bus_inv w \<longleftrightarrow> length (i2c_list w) = 3 \<and> length (is_i2c_init w) = 3
     \<and> (is_i2c_init w ! unat SOFT_I2C2 = 0 \<and> bus_idle (mon board_i2c_info (hist w)) \<or> on_bus w)"

lemma board_pins_ok: "pins_ok board_i2c_info"
  by (simp add: pins_ok_def is_scl_def board_i2c_info_def GPIO_PIN_4_def GPIO_PIN_5_def)

lemma mem_addr_byte: "mem_addr_bytes (ucast (reg :: u8)) (unat (1 :: u8)) = [reg]"
proof -
  have "ucast (ucast reg AND 0xff :: u32) = reg"
    by (rule bit_word_eqI) (auto simp: bit_simps mask_0xff)
  then show ?thesis by (simp add: mem_addr_bytes_def)
qed

lemma transaction_config [simp]:
  "i2c_list (snd (i2c_write_device lv n addr data w)) = i2c_list w"
  "is_i2c_init (snd (i2c_write_device lv n addr data w)) = is_i2c_init w"
  "i2c_list (snd (i2c_write_memory lv n addr ma ms data w)) = i2c_list w"
  "is_i2c_init (snd (i2c_write_memory lv n addr ma ms data w)) = is_i2c_init w"
  "i2c_list (snd (snd (i2c_read_device lv n addr sz w))) = i2c_list w"
  "is_i2c_init (snd (snd (i2c_read_device lv n addr sz w))) = is_i2c_init w"
  "i2c_list (snd (snd (i2c_read_memory lv n addr ma ms sz w))) = i2c_list w"
  "is_i2c_init (snd (snd (i2c_read_memory lv n addr ma ms sz w))) = is_i2c_init w"
  by (simp_all add: i2c_write_device_def i2c_write_memory_def i2c_read_device_def i2c_read_memory_def
      split_beta Let_def)

text \<open>Events outside the two lines do not show on the bus.\<close>

definition off_bus :: "hw_event \<Rightarrow> bool" where
  "off_bus e \<longleftrightarrow> (case e of WritePin port pin b \<Rightarrow> port \<noteq> GPIOH | ReadPin port pin b \<Rightarrow> port \<noteq> GPIOH
     | InitPin port cfg \<Rightarrow> port \<noteq> GPIOH | _ \<Rightarrow> True)"

lemma off_bus_step: "off_bus e \<Longrightarrow> m_step board_i2c_info e m = m"
  by (cases e) (auto simp: off_bus_def is_scl_def is_sda_def board_i2c_info_def)

lemma off_bus_mon: "list_all off_bus es \<Longrightarrow> mon board_i2c_info (rev es @ h) = mon board_i2c_info h"
  by (induction es arbitrary: h) (auto simp: off_bus_step)

lemma hw_emit_simps [simp]:
  "i2c_list (hw_emit es w) = i2c_list w"
  "is_i2c_init (hw_emit es w) = is_i2c_init w"
  "list_all off_bus es \<Longrightarrow> mon board_i2c_info (hist (hw_emit es w)) = mon board_i2c_info (hist w)"
  by (simp_all add: hw_emit_def off_bus_mon)

lemma hw_emit_on_bus [simp]: "list_all off_bus es \<Longrightarrow> on_bus (hw_emit es w) = on_bus w"
  by (auto simp: on_bus_def i2c_ready_def)

lemma hw_emit_inv [simp]: "list_all off_bus es \<Longrightarrow> bus_inv (hw_emit es w) = bus_inv w"
  by (simp add: bus_inv_def)

text \<open>The first initialisation sets the bus up, the later ones find it set up with the same pins.\<close>

lemma bus_init:
  assumes "bus_inv w" and "i2c_soft_init SOFT_I2C2 board_i2c_info w = (r, w')"
  shows "r = I2C_OK \<and> bus_inv w' \<and> on_bus w' \<and> bus_syms w' = bus_syms w"
proof (cases "is_i2c_init w ! unat SOFT_I2C2 = 0")
  case True
  have n: "SOFT_I2C2 < SOFT_I2C_NUM" by (simp add: SOFT_I2C2_def SOFT_I2C_NUM_def)
  have idle: "bus_idle (mon board_i2c_info (hist w))" and l: "length (i2c_list w) = 3" "length (is_i2c_init w) = 3"
    using assms(1) True by (auto simp: bus_inv_def on_bus_def i2c_ready_def)
  have r: "r = I2C_OK \<and> i2c_ready SOFT_I2C2 w' \<and> i2c_list w' ! unat SOFT_I2C2 = board_i2c_info
      \<and> bus_syms w' = bus_syms w"
    by (rule soft_init_ready [OF n l True board_pins_ok idle assms(2)])
  moreover have "length (i2c_list w') = 3" "length (is_i2c_init w') = 3"
    using assms(2) l by (auto simp: soft_init_fresh [OF n True])
  ultimately show ?thesis by (simp add: bus_inv_def on_bus_def)
next
  case False
  then have "on_bus w" using assms(1) by (auto simp: bus_inv_def)
  moreover from this have "r = I2C_OK" "w' = w"
    using assms(2) False by (simp_all add: i2c_soft_init_def on_bus_def i2c_ready_def not_le [symmetric])
  ultimately show ?thesis using assms(1) by simp
qed

text \<open>The operations keep the bus usable.\<close>

lemma on_bus_ready: "on_bus w \<Longrightarrow> i2c_ready SOFT_I2C2 w \<and> i2c_list w ! unat SOFT_I2C2 = board_i2c_info"
  by (simp add: on_bus_def)

lemma bus_inv_cong:
  "bus_inv w \<Longrightarrow> on_bus w \<Longrightarrow> on_bus w' \<Longrightarrow> i2c_list w' = i2c_list w \<Longrightarrow> is_i2c_init w' = is_i2c_init w \<Longrightarrow> bus_inv w'"
  by (simp add: bus_inv_def)

section \<open>Register devices\<close>

text \<open>
  The contract of a sensor at the 8-bit address \<open>addr\<close>: its operations write and read the registers
  from \<open>reg\<close> on, with a one-byte register number, and report a failed transaction as \<open>pdFAIL\<close>.
\<close>

locale register_device =
  fixes addr :: u8
    and dwrite :: "levels \<Rightarrow> u8 \<Rightarrow> u8 list \<Rightarrow> i2c_world \<Rightarrow> BaseType_t \<times> i2c_world"
    and dread :: "levels \<Rightarrow> u8 \<Rightarrow> u8 \<Rightarrow> i2c_world \<Rightarrow> BaseType_t \<times> u8 list \<times> i2c_world"
  assumes dwrite_memory: "i2c_write_memory lv SOFT_I2C2 addr (ucast reg) 1 data w = (res, w') \<Longrightarrow>
      dwrite lv reg data w = (if res = I2C_OK then pdPASS else pdFAIL, w')"
    and dread_memory: "i2c_read_memory lv SOFT_I2C2 addr (ucast reg) 1 (ucast sz) w = (res, vs, w') \<Longrightarrow>
      dread lv reg sz w = (if res = I2C_OK then pdPASS else pdFAIL, vs, w')"
begin

lemma write_frame:
  assumes "on_bus w" and "dwrite lv reg data w = (r, w')"
  shows "on_bus w' \<and> (bus_inv w \<longrightarrow> bus_inv w') \<and>
    (r = pdPASS \<and> bus_syms w' = bus_syms w @ [START] @ acked ((addr AND 0xfe) # reg # data) @ [STOP]
     \<or> r = pdFAIL \<and> (bus_syms w' = bus_syms w
         \<or> (\<exists>k \<le> Suc (length data). bus_syms w' = bus_syms w
              @ [START] @ refused k ((addr AND 0xfe) # reg # data) @ [STOP])))"
proof -
  obtain res w1 where t: "i2c_write_memory lv SOFT_I2C2 addr (ucast reg) 1 data w = (res, w1)" by fastforce
  have w': "w' = w1" "r = (if res = I2C_OK then pdPASS else pdFAIL)"
    using dwrite_memory [OF t] assms(2) by auto
  have ready: "i2c_ready SOFT_I2C2 w" and p: "board_i2c_info = i2c_list w ! unat SOFT_I2C2"
    using on_bus_ready [OF assms(1)] by auto
  have config: "i2c_list w1 = i2c_list w" "is_i2c_init w1 = is_i2c_init w"
    using transaction_config(3,4) [of lv SOFT_I2C2 addr "ucast reg" 1 data w] t by auto
  note f = write_memory_frame [OF p refl ready t, unfolded mem_addr_byte]
  have "on_bus w'" using f config p by (simp add: on_bus_def w')
  then show ?thesis
    using f w' bus_inv_cong [OF _ assms(1) _ ] config by (auto simp: I2C_OK_def I2C_ERROR_def less_Suc_eq_le)
qed

lemma read_frame:
  assumes "on_bus w" and "dread lv reg sz w = (r, vs, w')"
  shows "on_bus w' \<and> (bus_inv w \<longrightarrow> bus_inv w') \<and>
    (r = pdPASS \<and> length vs = unat sz \<and> bus_syms w' = bus_syms w @ [START] @ acked [addr AND 0xfe, reg]
         @ [START] @ acked [addr OR 1] @ answered 0 (unat sz) vs @ [STOP]
     \<or> r = pdFAIL \<and> vs = [])"
proof -
  obtain res vs1 w1 where t: "i2c_read_memory lv SOFT_I2C2 addr (ucast reg) 1 (ucast sz) w = (res, vs1, w1)"
    by (cases "i2c_read_memory lv SOFT_I2C2 addr (ucast reg) 1 (ucast sz) w") auto
  have w': "w' = w1" "vs = vs1" "r = (if res = I2C_OK then pdPASS else pdFAIL)"
    using dread_memory [OF t] assms(2) by auto
  have ready: "i2c_ready SOFT_I2C2 w" and p: "board_i2c_info = i2c_list w ! unat SOFT_I2C2"
    using on_bus_ready [OF assms(1)] by auto
  have config: "i2c_list w1 = i2c_list w" "is_i2c_init w1 = is_i2c_init w"
    using transaction_config(7,8) [of lv SOFT_I2C2 addr "ucast reg" 1 "ucast sz" w] t by auto
  note f = read_memory_frame [OF p refl ready t, unfolded mem_addr_byte]
  have "on_bus w'" using f config p by (simp add: on_bus_def w')
  moreover have "unat (ucast sz :: u16) = unat sz" by (simp add: unat_ucast_up)
  ultimately show ?thesis
    using f w' bus_inv_cong [OF _ assms(1) _ ] config by (auto simp: I2C_OK_def I2C_ERROR_def)
qed

lemma write_ok:
  assumes "on_bus w" and "acknowledges lv board_i2c_info" and "dwrite lv reg data w = (r, w')"
  shows "r = pdPASS"
proof -
  obtain res w1 where t: "i2c_write_memory lv SOFT_I2C2 addr (ucast reg) 1 data w = (res, w1)" by fastforce
  have "res = I2C_OK"
    using i2c_ok_all(2) [of SOFT_I2C2 w lv addr "ucast reg" 1 data] on_bus_ready [OF assms(1)] assms(2) t
    by simp
  then show ?thesis using dwrite_memory [OF t] assms(3) by simp
qed

lemma read_ok:
  assumes "on_bus w" and "acknowledges lv board_i2c_info" and "dread lv reg sz w = (r, vs, w')"
  shows "r = pdPASS"
proof -
  obtain res vs1 w1 where t: "i2c_read_memory lv SOFT_I2C2 addr (ucast reg) 1 (ucast sz) w = (res, vs1, w1)"
    by (cases "i2c_read_memory lv SOFT_I2C2 addr (ucast reg) 1 (ucast sz) w") auto
  have "res = I2C_OK"
    using i2c_ok_all(4) [of SOFT_I2C2 w lv addr "ucast reg" 1 "ucast sz"] on_bus_ready [OF assms(1)] assms(2) t
    by simp
  then show ?thesis using dread_memory [OF t] assms(3) by simp
qed

end

interpretation mpu9250: register_device MPU9250_ADDR mpu9250_i2c_multi_write mpu9250_i2c_multi_read
  by unfold_locales (auto simp: mpu9250_i2c_multi_write_def mpu9250_i2c_multi_read_def)

interpretation ap3216: register_device "push_bit 1 AP3216C_ADDR" ap3216_i2c_multi_write ap3216_i2c_multi_read
  by unfold_locales (auto simp: ap3216_i2c_multi_write_def ap3216_i2c_multi_read_def)

section \<open>The drivers on the board's bus\<close>

lemma pcf8574_init_bus:
  assumes "bus_inv w" and "pcf8574_driver_init w = (r, w')"
  shows "r = pdPASS \<and> bus_inv w' \<and> on_bus w' \<and> bus_syms w' = bus_syms w"
proof -
  let ?w = "hw_emit [ClockEnable GPIOB, ClockEnable GPIOH] w"
  obtain r1 w1 where i: "i2c_soft_init SOFT_I2C2 board_i2c_info ?w = (r1, w1)" by fastforce
  have "bus_inv ?w" using assms(1) by (simp add: off_bus_def)
  note b = bus_init [OF this i]
  then show ?thesis
    using assms(2) i by (auto simp: pcf8574_driver_init_def off_bus_def)
qed

lemma mpu9250_init_bus:
  assumes "bus_inv w" and "mpu9250_driver_init w = (r, w')"
  shows "r = pdPASS \<and> bus_inv w' \<and> on_bus w' \<and> bus_syms w' = bus_syms w"
proof -
  let ?w = "hw_emit [ClockEnable GPIOB, ClockEnable GPIOH] w"
  obtain r1 w1 where i: "i2c_soft_init SOFT_I2C2 board_i2c_info ?w = (r1, w1)" by fastforce
  have "bus_inv ?w" using assms(1) by (simp add: off_bus_def)
  note b = bus_init [OF this i]
  then show ?thesis
    using assms(2) i by (auto simp: mpu9250_driver_init_def off_bus_def)
qed

text \<open>The frame that sets one register of the AP3216C.\<close>

definition ap3216_frame :: "u8 \<Rightarrow> i2c_symbol list" where
  "ap3216_frame v = [START] @ acked [0x3c, AP3216C_SYSTEMCONG, v] @ [STOP]"

lemma ap3216_address: "push_bit 1 AP3216C_ADDR AND 0xfe = 0x3c" "AP3216C_ADDR * 2 AND 0xfe = 0x3c"
  by (simp_all add: AP3216C_ADDR_def)

lemma ap3216_reg_write_frame:
  assumes "on_bus w" and "ap3216_reg_write lv AP3216C_SYSTEMCONG v w = (r, w')"
  shows "on_bus w' \<and> (bus_inv w \<longrightarrow> bus_inv w') \<and> (r = pdPASS \<and> bus_syms w' = bus_syms w @ ap3216_frame v \<or> r = pdFAIL)
    \<and> (acknowledges lv board_i2c_info \<longrightarrow> r = pdPASS)"
  using ap3216.write_frame [OF assms(1), of lv AP3216C_SYSTEMCONG "[v]" r w']
    ap3216.write_ok [OF assms(1), of lv AP3216C_SYSTEMCONG "[v]" r w'] assms(2)
  by (auto simp: ap3216_reg_write_def ap3216_address ap3216_frame_def)

lemma ap3216_init_bus:
  assumes "bus_inv w" and "ap3216_driver_init lv w = (r, w')"
  shows "bus_inv w' \<and> on_bus w'
    \<and> (r = pdPASS \<and> bus_syms w' = bus_syms w @ ap3216_frame 0x40 @ ap3216_frame 0x03 \<or> r = pdFAIL)
    \<and> (acknowledges lv board_i2c_info \<longrightarrow> r = pdPASS)"
proof -
  let ?w = "hw_emit [ClockEnable GPIOB, ClockEnable GPIOH] w"
  obtain r1 w1 where i: "i2c_soft_init SOFT_I2C2 board_i2c_info ?w = (r1, w1)" by fastforce
  have "bus_inv ?w" using assms(1) by (simp add: off_bus_def)
  note b = bus_init [OF this i]
  obtain r2 w2 where 2: "ap3216_reg_write lv AP3216C_SYSTEMCONG 0x40 w1 = (r2, w2)" by fastforce
  obtain r3 w3 where 3: "ap3216_reg_write lv AP3216C_SYSTEMCONG 0x03 (hw_emit [DelayMs 20] w2) = (r3, w3)"
    by fastforce
  have w1: "on_bus w1" using b by simp
  note f2 = ap3216_reg_write_frame [OF w1 2]
  have "on_bus (hw_emit [DelayMs 20] w2)" using f2 by (simp add: off_bus_def)
  note f3 = ap3216_reg_write_frame [OF this 3]
  show ?thesis
  proof (cases "r2 = pdPASS")
    case True
    then have "w' = w3" "r = (if r3 = pdPASS then pdPASS else pdFAIL)"
      using assms(2) i 2 3 b by (auto simp: ap3216_driver_init_def split: if_splits)
    then show ?thesis using b f2 f3 True by (auto simp: off_bus_def)
  next
    case False
    then have "w' = w2" "r = pdFAIL"
      using assms(2) i 2 b by (auto simp: ap3216_driver_init_def)
    then show ?thesis using b f2 False by auto
  qed
qed

text \<open>The state of the board before any driver runs.\<close>

lemma bus_inv0: "bus_inv i2c_world0"
  by (simp add: bus_inv_def i2c_world0_def SOFT_I2C2_def bus_idle_def monitor0_def)

text \<open>
  With a device that acknowledges, ap3216_driver_init succeeds and an I2C observer decodes
  exactly the two register writes, reset (0x40) and configuration (0x03), to the sensor's address.
\<close>

lemma ap3216_init_sequence:
  assumes "bus_inv w" and "acknowledges lv board_i2c_info" and "ap3216_driver_init lv w = (r, w')"
  shows "r = pdPASS \<and> on_bus w' \<and> bus_syms w' = bus_syms w @ ap3216_frame 0x40 @ ap3216_frame 0x03"
  using ap3216_init_bus [OF assms(1,3)] assms(2) by auto

section \<open>Sequences of calls\<close>

datatype i2c_call =
    Pcf_Init | Pcf_Write u8 | Pcf_Read
  | Mpu_Init | Mpu_Write u8 "u8 list" | Mpu_Read u8 u8
  | Ap_Init | Ap_Write u8 "u8 list" | Ap_Read u8 u8

fun run_call :: "levels \<Rightarrow> i2c_call \<Rightarrow> i2c_world \<Rightarrow> BaseType_t \<times> i2c_world" where
  "run_call lv Pcf_Init w = pcf8574_driver_init w"
| "run_call lv (Pcf_Write d) w = pcf8574_i2c_write lv d w"
| "run_call lv Pcf_Read w = (let (r, vs, w) = pcf8574_i2c_read lv w in (r, w))"
| "run_call lv Mpu_Init w = mpu9250_driver_init w"
| "run_call lv (Mpu_Write reg ds) w = mpu9250_i2c_multi_write lv reg ds w"
| "run_call lv (Mpu_Read reg sz) w = (let (r, vs, w) = mpu9250_i2c_multi_read lv reg sz w in (r, w))"
| "run_call lv Ap_Init w = ap3216_driver_init lv w"
| "run_call lv (Ap_Write reg ds) w = ap3216_i2c_multi_write lv reg ds w"
| "run_call lv (Ap_Read reg sz) w = (let (r, vs, w) = ap3216_i2c_multi_read lv reg sz w in (r, w))"

text \<open>A sequence of calls, of any drivers, with the results in order.\<close>

primrec run_calls :: "levels \<Rightarrow> i2c_call list \<Rightarrow> i2c_world \<Rightarrow> BaseType_t list \<times> i2c_world" where
  "run_calls lv [] w = ([], w)"
| "run_calls lv (c # cs) w =
     (let (r, w) = run_call lv c w; (rs, w) = run_calls lv cs w in (r # rs, w))"

lemma pcf_write_bus:
  assumes "on_bus w" and "bus_inv w" and "pcf8574_i2c_write lv d w = (r, w')"
  shows "on_bus w' \<and> bus_inv w' \<and> (acknowledges lv board_i2c_info \<longrightarrow> r = pdPASS)"
proof -
  obtain res w1 where t: "i2c_write_device lv SOFT_I2C2 PCF8574_ADDR [d] w = (res, w1)" by fastforce
  note on = on_bus_ready [OF assms(1)]
  have ready: "i2c_ready SOFT_I2C2 w1" using write_device_frame [OF refl conjunct1 [OF on] t] by simp
  have config: "i2c_list w1 = i2c_list w" "is_i2c_init w1 = is_i2c_init w"
    using transaction_config(1,2) [of lv SOFT_I2C2 PCF8574_ADDR "[d]" w] t by auto
  have ok: "acknowledges lv board_i2c_info \<Longrightarrow> res = I2C_OK"
    using i2c_ok_all(1) [of SOFT_I2C2 w lv PCF8574_ADDR "[d]"] on t by simp
  have "w' = w1" "r = (if res = 0 then pdPASS else pdFAIL)"
    using assms(3) t by (auto simp: pcf8574_i2c_write_def split: if_splits)
  then show ?thesis
    using ready config ok assms(2) on by (auto simp: on_bus_def bus_inv_def I2C_OK_def)
qed

lemma pcf_read_bus:
  assumes "on_bus w" and "bus_inv w" and "pcf8574_i2c_read lv w = (r, vs, w')"
  shows "on_bus w' \<and> bus_inv w' \<and> (acknowledges lv board_i2c_info \<longrightarrow> r = pdPASS)"
proof -
  obtain res vs1 w1 where t: "i2c_read_device lv SOFT_I2C2 PCF8574_ADDR 1 w = (res, vs1, w1)"
    by (cases "i2c_read_device lv SOFT_I2C2 PCF8574_ADDR 1 w") auto
  note on = on_bus_ready [OF assms(1)]
  have ready: "i2c_ready SOFT_I2C2 w1" using read_device_frame [OF refl conjunct1 [OF on] t] by simp
  have config: "i2c_list w1 = i2c_list w" "is_i2c_init w1 = is_i2c_init w"
    using transaction_config(5,6) [of lv SOFT_I2C2 PCF8574_ADDR 1 w] t by auto
  have ok: "acknowledges lv board_i2c_info \<Longrightarrow> res = I2C_OK"
    using i2c_ok_all(3) [of SOFT_I2C2 w lv PCF8574_ADDR 1] on t by simp
  have "w' = w1" "r = (if res = 0 then pdPASS else pdFAIL)"
    using assms(3) t by (auto simp: pcf8574_i2c_read_def split: if_splits)
  then show ?thesis
    using ready config ok assms(2) on by (auto simp: on_bus_def bus_inv_def I2C_OK_def)
qed

text \<open>Before the bus is initialised every transaction fails without touching it.\<close>

lemma call_off_bus:
  assumes "bus_inv w" and "\<not> on_bus w" and "run_call lv c w = (r, w')"
  shows "c \<in> {Pcf_Init, Mpu_Init, Ap_Init} \<or> r = pdFAIL \<and> w' = w"
proof -
  have "is_i2c_init w ! unat SOFT_I2C2 = 0" using assms(1,2) by (simp add: bus_inv_def)
  then show ?thesis
    using assms(3)
    by (cases c) (simp_all add: pcf8574_i2c_write_def pcf8574_i2c_read_def mpu9250_i2c_multi_write_def
        mpu9250_i2c_multi_read_def ap3216_i2c_multi_write_def ap3216_i2c_multi_read_def
        i2c_write_device_def i2c_read_device_def i2c_write_memory_def i2c_read_memory_def I2C_ERROR_def I2C_OK_def
        split: if_splits)
qed

fun is_init :: "i2c_call \<Rightarrow> bool" where
  "is_init Pcf_Init = True"
| "is_init Mpu_Init = True"
| "is_init Ap_Init = True"
| "is_init _ = False"

lemma call_on_bus:
  assumes "bus_inv w" and "on_bus w \<or> is_init c" and "run_call lv c w = (r, w')"
  shows "on_bus w' \<and> bus_inv w' \<and> (acknowledges lv board_i2c_info \<longrightarrow> r = pdPASS)"
proof (cases c)
  case Pcf_Init
  then show ?thesis using pcf8574_init_bus [OF assms(1)] assms(3) by simp
next
  case (Pcf_Write d)
  then show ?thesis using pcf_write_bus [OF _ assms(1)] assms(2,3) by simp
next
  case Pcf_Read
  then show ?thesis using pcf_read_bus [OF _ assms(1)] assms(2,3) by (auto split: prod.splits)
next
  case Mpu_Init
  then show ?thesis using mpu9250_init_bus [OF assms(1)] assms(3) by simp
next
  case (Mpu_Write reg ds)
  then show ?thesis
    using mpu9250.write_frame [of w lv reg ds r w'] mpu9250.write_ok [of w lv reg ds r w'] assms by auto
next
  case (Mpu_Read reg sz)
  then show ?thesis
    using mpu9250.read_frame [of w lv reg sz r] mpu9250.read_ok [of w lv reg sz r] assms
    by (auto split: prod.splits)
next
  case Ap_Init
  then show ?thesis using ap3216_init_bus [OF assms(1)] assms(3) by simp
next
  case (Ap_Write reg ds)
  then show ?thesis
    using ap3216.write_frame [of w lv reg ds r w'] ap3216.write_ok [of w lv reg ds r w'] assms by auto
next
  case (Ap_Read reg sz)
  then show ?thesis
    using ap3216.read_frame [of w lv reg sz r] ap3216.read_ok [of w lv reg sz r] assms
    by (auto split: prod.splits)
qed

lemma call_inv:
  assumes "bus_inv w" and "run_call lv c w = (r, w')"
  shows "bus_inv w' \<and> (on_bus w \<longrightarrow> on_bus w')"
proof (cases "on_bus w \<or> is_init c")
  case True
  then show ?thesis using call_on_bus [OF assms(1) _ assms(2)] by blast
next
  case False
  then show ?thesis using call_off_bus [OF assms(1) _ assms(2)] assms(1) by auto
qed

lemma calls_on_bus:
  "bus_inv w \<Longrightarrow> on_bus w \<Longrightarrow> run_calls lv cs w = (rs, w') \<Longrightarrow>
   on_bus w' \<and> bus_inv w' \<and> (acknowledges lv board_i2c_info \<longrightarrow> rs = replicate (length cs) pdPASS)"
proof (induction cs arbitrary: w rs)
  case Nil
  then show ?case by simp
next
  case (Cons c cs)
  obtain r w1 where 1: "run_call lv c w = (r, w1)" by fastforce
  obtain rs' where 2: "run_calls lv cs w1 = (rs', w')" "rs = r # rs'"
    using Cons.prems(3) 1 by (auto split: prod.splits)
  note c = call_on_bus [OF Cons.prems(1) _ 1]
  show ?case using Cons.IH [OF _ _ 2(1)] c Cons.prems(2) 2(2) by simp
qed

text \<open>
  Whatever the devices do, any sequence of calls of the three I2C drivers leaves the shared
  software bus configured for the board's pins (or not yet) and idle.
\<close>

lemma i2c_drivers_keep_bus:
  assumes "bus_inv w" and "run_calls lv cs w = (rs, w')"
  shows "bus_inv w' \<and> (on_bus w \<longrightarrow> on_bus w')"
  using assms
proof (induction cs arbitrary: w rs)
  case Nil
  then show ?case by simp
next
  case (Cons c cs)
  obtain r w1 where 1: "run_call lv c w = (r, w1)" by fastforce
  obtain rs' where 2: "run_calls lv cs w1 = (rs', w')" using Cons.prems(2) 1 by (auto split: prod.splits)
  show ?case using Cons.IH [OF _ 2] call_inv [OF Cons.prems(1) 1] by blast
qed

text \<open>
  With devices that acknowledge, once any of the three drivers has been initialised every later
  sequence of calls of all three drivers, initialisations included, succeeds: the drivers share the
  bus without conflict.
\<close>

lemma i2c_drivers_share_bus:
  assumes "bus_inv w" and "acknowledges lv board_i2c_info" and "is_init c"
    and "run_calls lv (c # cs) w = (rs, w')"
  shows "rs = replicate (Suc (length cs)) pdPASS \<and> on_bus w'"
proof -
  obtain r w1 where 1: "run_call lv c w = (r, w1)" by fastforce
  obtain rs' where 2: "run_calls lv cs w1 = (rs', w')" "rs = r # rs'"
    using assms(4) 1 by (auto split: prod.splits)
  note c = call_on_bus [OF assms(1) _ 1]
  show ?thesis using calls_on_bus [OF _ _ 2(1)] c assms(2,3) 2(2) by simp
qed

end
