(* ===== verification/Soft_SPI.thy ===== *)
theory Soft_SPI
  imports Gpio
begin

text \<open>
  The bit-banged SPI master (\<^verbatim>\<open>UsrParts/soft_spi/drv_soft_spi.c\<close>). A monitor plays the device at the
  other end of the wires: it takes the level of the data line at every sampling edge of the clock. The
  lemmas show that in each of the four modes the device receives exactly the bytes sent, most
  significant bit first, and that the master returns exactly the bits it read.
\<close>

section \<open>State\<close>

record SOFT_SPI_INFO =
  spi_mode :: u8
  sck_pin :: u32
  sck_port :: GPIO_TypeDef
  mosi_pin :: u32
  mosi_port :: GPIO_TypeDef
  miso_pin :: u32
  miso_port :: GPIO_TypeDef

record spi_world =
  spi_list :: "SOFT_SPI_INFO list"
  is_spi_init :: "u8 list"
  spi_hist :: history

definition SOFT_SPI_NUM :: u8 where "SOFT_SPI_NUM = 6"
definition SPI_OK :: u8 where "SPI_OK = 0"
definition SPI_ERROR :: u8 where "SPI_ERROR = 1"
definition SPI_MODE_CPOL_L_CPHA_1 :: u8 where "SPI_MODE_CPOL_L_CPHA_1 = 0"
definition SPI_MODE_CPOL_H_CPHA_1 :: u8 where "SPI_MODE_CPOL_H_CPHA_1 = 1"
definition SPI_MODE_CPOL_L_CPHA_2 :: u8 where "SPI_MODE_CPOL_L_CPHA_2 = 3"
definition SPI_MODE_CPOL_H_CPHA_2 :: u8 where "SPI_MODE_CPOL_H_CPHA_2 = 2"
definition SPI_DELAY_COUNT :: u32 where "SPI_DELAY_COUNT = 10"

lemmas spi_modes = SPI_MODE_CPOL_L_CPHA_1_def SPI_MODE_CPOL_H_CPHA_1_def
  SPI_MODE_CPOL_L_CPHA_2_def SPI_MODE_CPOL_H_CPHA_2_def

definition spi_world0 :: spi_world where
  "spi_world0 = \<lparr>spi_list = replicate 6 \<lparr>spi_mode = 0, sck_pin = 0, sck_port = GPIO_NULL,
       mosi_pin = 0, mosi_port = GPIO_NULL, miso_pin = 0, miso_port = GPIO_NULL\<rparr>,
     is_spi_init = replicate 6 0, spi_hist = []\<rparr>"

section \<open>Pin accesses\<close>

definition SPI_SCK_H :: "SOFT_SPI_INFO \<Rightarrow> history \<Rightarrow> history" where
  [hw_defs]: "SPI_SCK_H p h = HAL_GPIO_WritePin (sck_port p) (ucast (sck_pin p)) True h"

definition SPI_SCK_L :: "SOFT_SPI_INFO \<Rightarrow> history \<Rightarrow> history" where
  [hw_defs]: "SPI_SCK_L p h = HAL_GPIO_WritePin (sck_port p) (ucast (sck_pin p)) False h"

definition SPI_MOSI_H :: "SOFT_SPI_INFO \<Rightarrow> history \<Rightarrow> history" where
  [hw_defs]: "SPI_MOSI_H p h = HAL_GPIO_WritePin (mosi_port p) (ucast (mosi_pin p)) True h"

definition SPI_MOSI_L :: "SOFT_SPI_INFO \<Rightarrow> history \<Rightarrow> history" where
  [hw_defs]: "SPI_MOSI_L p h = HAL_GPIO_WritePin (mosi_port p) (ucast (mosi_pin p)) False h"

definition SPI_MISO_INPUT :: "levels \<Rightarrow> SOFT_SPI_INFO \<Rightarrow> history \<Rightarrow> bool \<times> history" where
  [hw_defs]: "SPI_MISO_INPUT lv p h = HAL_GPIO_ReadPin lv (miso_port p) (ucast (miso_pin p)) h"

definition spi_delay :: "u32 \<Rightarrow> history \<Rightarrow> history" where
  [hw_defs]: "spi_delay count h = Delay count # h"

definition spi_soft_init :: "u8 \<Rightarrow> SOFT_SPI_INFO \<Rightarrow> spi_world \<Rightarrow> u8 \<times> spi_world" where
  "spi_soft_init n info w =
     (if n \<ge> SOFT_SPI_NUM then (SPI_ERROR, w)
      else if is_spi_init w ! unat n \<noteq> 0 then
        if info \<noteq> spi_list w ! unat n then (SPI_ERROR, w) else (SPI_OK, w)
      else
        let w = w\<lparr>is_spi_init := (is_spi_init w)[unat n := 1], spi_list := (spi_list w)[unat n := info]\<rparr>;
            h = SPI_MOSI_H info (spi_hist w);
            h = (if spi_mode info = SPI_MODE_CPOL_H_CPHA_1 \<or> spi_mode info = SPI_MODE_CPOL_H_CPHA_2
                 then SPI_SCK_H info h else SPI_SCK_L info h);
            cfg = gpio_init0\<lparr>Pin := ucast (sck_pin info), Mode := GPIO_MODE_OUTPUT_PP,
                             Pull := GPIO_NOPULL, Speed := GPIO_SPEED_FREQ_VERY_HIGH\<rparr>;
            h = HAL_GPIO_Init (sck_port info) cfg h;
            cfg = cfg\<lparr>Pin := ucast (mosi_pin info)\<rparr>;
            h = HAL_GPIO_Init (mosi_port info) cfg h;
            cfg = cfg\<lparr>Pin := ucast (miso_pin info), Mode := GPIO_MODE_INPUT, Pull := GPIO_NOPULL\<rparr>;
            h = HAL_GPIO_Init (miso_port info) cfg h
        in (SPI_OK, w\<lparr>spi_hist := h\<rparr>))"

section \<open>One byte in each mode\<close>

text \<open>The loops, with the number of rounds left, and the functions around them.\<close>

primrec spi_phase_0_bits :: "levels \<Rightarrow> SOFT_SPI_INFO \<Rightarrow> nat \<Rightarrow> u8 \<Rightarrow> u8 \<Rightarrow> history \<Rightarrow> u8 \<times> history" where
  "spi_phase_0_bits lv p 0 data rdata h = (rdata, h)"
| "spi_phase_0_bits lv p (Suc n) data rdata h =
     (let h = SPI_SCK_L p h;
          h = (if data AND 0x80 \<noteq> 0 then SPI_MOSI_H p h else SPI_MOSI_L p h);
          data = push_bit 1 data;
          h = spi_delay SPI_DELAY_COUNT h;
          h = SPI_SCK_H p h;
          rdata = push_bit 1 rdata;
          (b, h) = SPI_MISO_INPUT lv p h;
          rdata = rdata OR (if b then 1 else 0);
          h = spi_delay SPI_DELAY_COUNT h
      in spi_phase_0_bits lv p n data rdata h)"

definition spi_soft_rw_byte_phase_0 :: "levels \<Rightarrow> SOFT_SPI_INFO \<Rightarrow> u8 \<Rightarrow> history \<Rightarrow> u8 \<times> history" where
  "spi_soft_rw_byte_phase_0 lv p data h =
     (let (rdata, h) = spi_phase_0_bits lv p 8 data 0 h in (rdata, SPI_SCK_L p h))"

primrec spi_phase_1_bits :: "levels \<Rightarrow> SOFT_SPI_INFO \<Rightarrow> nat \<Rightarrow> u8 \<Rightarrow> u8 \<Rightarrow> history \<Rightarrow> u8 \<times> history" where
  "spi_phase_1_bits lv p 0 data rdata h = (rdata, h)"
| "spi_phase_1_bits lv p (Suc n) data rdata h =
     (let h = SPI_SCK_H p h;
          h = (if data AND 0x80 \<noteq> 0 then SPI_MOSI_H p h else SPI_MOSI_L p h);
          data = push_bit 1 data;
          h = spi_delay SPI_DELAY_COUNT h;
          h = SPI_SCK_L p h;
          rdata = push_bit 1 rdata;
          (b, h) = SPI_MISO_INPUT lv p h;
          rdata = rdata OR (if b then 1 else 0);
          h = spi_delay SPI_DELAY_COUNT h
      in spi_phase_1_bits lv p n data rdata h)"

definition spi_soft_rw_byte_phase_1 :: "levels \<Rightarrow> SOFT_SPI_INFO \<Rightarrow> u8 \<Rightarrow> history \<Rightarrow> u8 \<times> history" where
  "spi_soft_rw_byte_phase_1 lv p data h =
     (let (rdata, h) = spi_phase_1_bits lv p 8 data 0 h in (rdata, SPI_SCK_L p h))"

primrec spi_phase_2_bits :: "levels \<Rightarrow> SOFT_SPI_INFO \<Rightarrow> nat \<Rightarrow> u8 \<Rightarrow> u8 \<Rightarrow> history \<Rightarrow> u8 \<times> history" where
  "spi_phase_2_bits lv p 0 data rdata h = (rdata, h)"
| "spi_phase_2_bits lv p (Suc n) data rdata h =
     (let h = SPI_SCK_H p h;
          h = (if data AND 0x80 \<noteq> 0 then SPI_MOSI_H p h else SPI_MOSI_L p h);
          data = push_bit 1 data;
          h = spi_delay SPI_DELAY_COUNT h;
          h = SPI_SCK_L p h;
          rdata = push_bit 1 rdata;
          (b, h) = SPI_MISO_INPUT lv p h;
          rdata = rdata OR (if b then 1 else 0);
          h = spi_delay SPI_DELAY_COUNT h
      in spi_phase_2_bits lv p n data rdata h)"

definition spi_soft_rw_byte_phase_2 :: "levels \<Rightarrow> SOFT_SPI_INFO \<Rightarrow> u8 \<Rightarrow> history \<Rightarrow> u8 \<times> history" where
  "spi_soft_rw_byte_phase_2 lv p data h =
     (let (rdata, h) = spi_phase_2_bits lv p 8 data 0 h in (rdata, SPI_SCK_H p h))"

primrec spi_phase_3_bits :: "levels \<Rightarrow> SOFT_SPI_INFO \<Rightarrow> nat \<Rightarrow> u8 \<Rightarrow> u8 \<Rightarrow> history \<Rightarrow> u8 \<times> history" where
  "spi_phase_3_bits lv p 0 data rdata h = (rdata, h)"
| "spi_phase_3_bits lv p (Suc n) data rdata h =
     (let h = SPI_SCK_L p h;
          h = (if data AND 0x80 \<noteq> 0 then SPI_MOSI_H p h else SPI_MOSI_L p h);
          data = push_bit 1 data;
          h = spi_delay SPI_DELAY_COUNT h;
          h = SPI_SCK_H p h;
          rdata = push_bit 1 rdata;
          (b, h) = SPI_MISO_INPUT lv p h;
          rdata = rdata OR (if b then 1 else 0);
          h = spi_delay SPI_DELAY_COUNT h
      in spi_phase_3_bits lv p n data rdata h)"

definition spi_soft_rw_byte_phase_3 :: "levels \<Rightarrow> SOFT_SPI_INFO \<Rightarrow> u8 \<Rightarrow> history \<Rightarrow> u8 \<times> history" where
  "spi_soft_rw_byte_phase_3 lv p data h =
     (let (rdata, h) = spi_phase_3_bits lv p 8 data 0 h in (rdata, SPI_SCK_H p h))"

section \<open>Transfers\<close>

text \<open>The switch over the mode, with the initial value of \<open>pfunc\<close> as its default.\<close>

definition spi_pfunc :: "u8 \<Rightarrow> levels \<Rightarrow> SOFT_SPI_INFO \<Rightarrow> u8 \<Rightarrow> history \<Rightarrow> u8 \<times> history" where
  "spi_pfunc mode =
     (if mode = SPI_MODE_CPOL_L_CPHA_1 then spi_soft_rw_byte_phase_0
      else if mode = SPI_MODE_CPOL_L_CPHA_2 then spi_soft_rw_byte_phase_1
      else if mode = SPI_MODE_CPOL_H_CPHA_1 then spi_soft_rw_byte_phase_2
      else if mode = SPI_MODE_CPOL_H_CPHA_2 then spi_soft_rw_byte_phase_3
      else spi_soft_rw_byte_phase_0)"

text \<open>The transfer loops: the bytes to shift out, and the bytes shifted in.\<close>

primrec spi_rw_loop ::
  "(u8 \<Rightarrow> history \<Rightarrow> u8 \<times> history) \<Rightarrow> u8 list \<Rightarrow> history \<Rightarrow> u8 list \<times> history" where
  "spi_rw_loop f [] h = ([], h)"
| "spi_rw_loop f (d # ds) h =
     (let (r, h) = f d h;
          (rs, h) = spi_rw_loop f ds h
      in (r # rs, h))"

text \<open>
  \<open>wdata\<close> is \<open>None\<close> for a null pointer, \<open>rd\<close> says whether \<open>rdata\<close> is non-null; the result holds the
  bytes stored at \<open>rdata\<close>.
\<close>

definition spi_soft_rw_byte ::
  "levels \<Rightarrow> u8 \<Rightarrow> u8 list option \<Rightarrow> bool \<Rightarrow> u8 \<Rightarrow> spi_world \<Rightarrow> u8 \<times> u8 list \<times> spi_world" where
  "spi_soft_rw_byte lv n wdata rd sz w =
     (if n \<ge> SOFT_SPI_NUM then (SPI_ERROR, [], w)
      else if is_spi_init w ! unat n = 0 then (SPI_ERROR, [], w)
      else
        let p = spi_list w ! unat n;
            pfunc = spi_pfunc (spi_mode p) lv p
        in (case wdata of
              None \<Rightarrow>
                if \<not> rd then (SPI_ERROR, [], w)
                else let (rdata, h) = spi_rw_loop pfunc (replicate (unat sz) 0xff) (spi_hist w)
                     in (SPI_OK, rdata, w\<lparr>spi_hist := h\<rparr>)
            | Some wd \<Rightarrow>
                let (rdata, h) = spi_rw_loop pfunc (map ((!) wd) [0..<unat sz]) (spi_hist w)
                in (SPI_OK, if rd then rdata else [], w\<lparr>spi_hist := h\<rparr>)))"

section \<open>The device's view\<close>

text \<open>
  The clock idles high in the two \<open>CPOL_H\<close> modes. The device samples on the first edge away from the
  idle level in the \<open>CPHA_1\<close> modes and on the second one in the \<open>CPHA_2\<close> modes.
\<close>

definition clock_idle :: "u8 \<Rightarrow> bool" where
  "clock_idle mode \<longleftrightarrow> mode = SPI_MODE_CPOL_H_CPHA_1 \<or> mode = SPI_MODE_CPOL_H_CPHA_2"

definition second_edge :: "u8 \<Rightarrow> bool" where
  "second_edge mode \<longleftrightarrow> mode = SPI_MODE_CPOL_L_CPHA_2 \<or> mode = SPI_MODE_CPOL_H_CPHA_2"

definition sample_level :: "u8 \<Rightarrow> bool" where
  "sample_level mode \<longleftrightarrow> clock_idle mode = second_edge mode"

record spi_monitor =
  s_sck :: bool
  s_mosi :: bool
  s_out :: "bool list"  \<comment> \<open>sampled by the device\<close>
  s_in :: "bool list"   \<comment> \<open>read by the master after a sampling edge\<close>

definition is_sck :: "SOFT_SPI_INFO \<Rightarrow> GPIO_TypeDef \<Rightarrow> u16 \<Rightarrow> bool" where
  "is_sck p port pin \<longleftrightarrow> port = sck_port p \<and> pin = ucast (sck_pin p)"

definition is_mosi :: "SOFT_SPI_INFO \<Rightarrow> GPIO_TypeDef \<Rightarrow> u16 \<Rightarrow> bool" where
  "is_mosi p port pin \<longleftrightarrow> port = mosi_port p \<and> pin = ucast (mosi_pin p)"

definition is_miso :: "SOFT_SPI_INFO \<Rightarrow> GPIO_TypeDef \<Rightarrow> u16 \<Rightarrow> bool" where
  "is_miso p port pin \<longleftrightarrow> port = miso_port p \<and> pin = ucast (miso_pin p)"

fun s_step :: "SOFT_SPI_INFO \<Rightarrow> hw_event \<Rightarrow> spi_monitor \<Rightarrow> spi_monitor" where
  "s_step p (WritePin port pin b) m =
     (if is_sck p port pin then
        if b \<noteq> s_sck m \<and> b = sample_level (spi_mode p)
        then m\<lparr>s_sck := b, s_out := s_out m @ [s_mosi m]\<rparr>
        else m\<lparr>s_sck := b\<rparr>
      else if is_mosi p port pin then m\<lparr>s_mosi := b\<rparr>
      else m)"
| "s_step p (ReadPin port pin b) m =
     (if is_miso p port pin \<and> s_sck m = sample_level (spi_mode p) then m\<lparr>s_in := s_in m @ [b]\<rparr> else m)"
| "s_step p e m = m"

primrec s_mon :: "SOFT_SPI_INFO \<Rightarrow> history \<Rightarrow> spi_monitor" where
  "s_mon p [] = \<lparr>s_sck = clock_idle (spi_mode p), s_mosi = True, s_out = [], s_in = []\<rparr>"
| "s_mon p (e # h) = s_step p e (s_mon p h)"

text \<open>Clock and data out are different pins.\<close>

definition spi_pins_ok :: "SOFT_SPI_INFO \<Rightarrow> bool" where
  "spi_pins_ok p \<longleftrightarrow> \<not> is_sck p (mosi_port p) (ucast (mosi_pin p))"

lemma spi_pins_simps [simp]:
  "is_sck p (sck_port p) (ucast (sck_pin p))"
  "is_mosi p (mosi_port p) (ucast (mosi_pin p))"
  "is_miso p (miso_port p) (ucast (miso_pin p))"
  "spi_pins_ok p \<Longrightarrow> \<not> is_sck p (mosi_port p) (ucast (mosi_pin p))"
  by (simp_all add: spi_pins_ok_def is_sck_def is_mosi_def is_miso_def)

text \<open>The four loops are one loop, up to the level of the sampling edge.\<close>

definition spi_sck :: "SOFT_SPI_INFO \<Rightarrow> bool \<Rightarrow> history \<Rightarrow> history" where
  [hw_defs]: "spi_sck p b h = HAL_GPIO_WritePin (sck_port p) (ucast (sck_pin p)) b h"

primrec spi_bits :: "bool \<Rightarrow> levels \<Rightarrow> SOFT_SPI_INFO \<Rightarrow> nat \<Rightarrow> u8 \<Rightarrow> u8 \<Rightarrow> history \<Rightarrow> u8 \<times> history" where
  "spi_bits up lv p 0 data rdata h = (rdata, h)"
| "spi_bits up lv p (Suc n) data rdata h =
     (let h = spi_sck p (\<not> up) h;
          h = HAL_GPIO_WritePin (mosi_port p) (ucast (mosi_pin p)) (msb data) h;
          h = spi_delay SPI_DELAY_COUNT h;
          h = spi_sck p up h;
          (b, h) = SPI_MISO_INPUT lv p h;
          h = spi_delay SPI_DELAY_COUNT h
      in spi_bits up lv p n (push_bit 1 data) (shift_in rdata b) h)"

lemma spi_sck_if: "(if c then SPI_SCK_H p h else SPI_SCK_L p h) = spi_sck p c h"
  by (simp add: hw_defs)

lemma spi_phase_bits:
  "spi_phase_0_bits lv p n data rdata h = spi_bits True lv p n data rdata h"
  "spi_phase_1_bits lv p n data rdata h = spi_bits False lv p n data rdata h"
  "spi_phase_2_bits lv p n data rdata h = spi_bits False lv p n data rdata h"
  "spi_phase_3_bits lv p n data rdata h = spi_bits True lv p n data rdata h"
  by (induction n arbitrary: data rdata h)
     (simp_all add: spi_sck_def SPI_SCK_L_def SPI_SCK_H_def SPI_MOSI_H_def SPI_MOSI_L_def msb_def shift_in_def
        split_beta Let_def)

lemma spi_pfunc_bits:
  "spi_pfunc mode lv p data h =
     (let (rdata, h) = spi_bits (sample_level mode) lv p 8 data 0 h in (rdata, spi_sck p (clock_idle mode) h))"
  by (simp add: spi_pfunc_def spi_phase_bits spi_soft_rw_byte_phase_0_def spi_soft_rw_byte_phase_1_def
      spi_soft_rw_byte_phase_2_def spi_soft_rw_byte_phase_3_def sample_level_def clock_idle_def
      second_edge_def spi_sck_def SPI_SCK_L_def SPI_SCK_H_def spi_modes)

text \<open>A device that answers with the level of the data line it is driven with.\<close>

definition loopback :: "levels \<Rightarrow> SOFT_SPI_INFO \<Rightarrow> bool" where
  "loopback lv p \<longleftrightarrow> (\<forall>h. lv h (miso_port p) (ucast (miso_pin p)) = s_mosi (s_mon p h))"

lemma spi_bits_mon:
  assumes "spi_pins_ok p"
  shows "\<exists>bs. length bs = n \<and> fst (spi_bits (sample_level (spi_mode p)) lv p n data rdata h) = foldl shift_in rdata bs
    \<and> s_out (s_mon p (snd (spi_bits (sample_level (spi_mode p)) lv p n data rdata h)))
      = s_out (s_mon p h) @ top_bits n data
    \<and> s_in (s_mon p (snd (spi_bits (sample_level (spi_mode p)) lv p n data rdata h))) = s_in (s_mon p h) @ bs
    \<and> (n \<noteq> 0 \<longrightarrow> s_sck (s_mon p (snd (spi_bits (sample_level (spi_mode p)) lv p n data rdata h)))
                 = sample_level (spi_mode p))
    \<and> (loopback lv p \<longrightarrow> bs = top_bits n data)"
proof (induction n arbitrary: data rdata h)
  case 0
  then show ?case by simp
next
  case (Suc n)
  let ?up = "sample_level (spi_mode p)"
  define g where "g = spi_sck p ?up (spi_delay SPI_DELAY_COUNT
    (HAL_GPIO_WritePin (mosi_port p) (ucast (mosi_pin p)) (msb data) (spi_sck p (\<not> ?up) h)))"
  define b where "b = lv g (miso_port p) (ucast (miso_pin p))"
  define h' where "h' = spi_delay SPI_DELAY_COUNT (ReadPin (miso_port p) (ucast (miso_pin p)) b # g)"
  have step: "spi_bits ?up lv p (Suc n) data rdata h = spi_bits ?up lv p n (push_bit 1 data) (shift_in rdata b) h'"
    by (simp add: g_def b_def h'_def SPI_MISO_INPUT_def HAL_GPIO_ReadPin_def Let_def)
  have g: "s_sck (s_mon p g) = ?up" "s_mosi (s_mon p g) = msb data"
    "s_out (s_mon p g) = s_out (s_mon p h) @ [msb data]" "s_in (s_mon p g) = s_in (s_mon p h)"
    using assms by (simp_all add: g_def hw_defs)
  have h': "s_sck (s_mon p h') = ?up" "s_out (s_mon p h') = s_out (s_mon p h) @ [msb data]"
    "s_in (s_mon p h') = s_in (s_mon p h) @ [b]"
    using g by (simp_all add: h'_def hw_defs)
  have b: "loopback lv p \<longrightarrow> b = msb data" using g(2) by (simp add: loopback_def b_def)
  from Suc.IH [of "push_bit 1 data" "shift_in rdata b" h'] obtain bs where bs: "length bs = n"
    "fst (spi_bits ?up lv p n (push_bit 1 data) (shift_in rdata b) h') = foldl shift_in (shift_in rdata b) bs"
    "s_out (s_mon p (snd (spi_bits ?up lv p n (push_bit 1 data) (shift_in rdata b) h')))
      = s_out (s_mon p h') @ top_bits n (push_bit 1 data)"
    "s_in (s_mon p (snd (spi_bits ?up lv p n (push_bit 1 data) (shift_in rdata b) h'))) = s_in (s_mon p h') @ bs"
    "n \<noteq> 0 \<longrightarrow> s_sck (s_mon p (snd (spi_bits ?up lv p n (push_bit 1 data) (shift_in rdata b) h'))) = ?up"
    "loopback lv p \<longrightarrow> bs = top_bits n (push_bit 1 data)"
    by blast
  show ?case
    unfolding step using bs h' b
    by (intro exI [of _ "b # bs"]) (cases "n = 0"; simp)
qed

text \<open>One byte: what the device samples, what the master returns, and the clock back at idle.\<close>

lemma spi_byte_mon:
  assumes "spi_pins_ok p" and "spi_pfunc (spi_mode p) lv p data h = (rdata, h')"
  shows "s_out (s_mon p h') = s_out (s_mon p h) @ byte_bits data
       \<and> s_in (s_mon p h') = s_in (s_mon p h) @ byte_bits rdata
       \<and> s_sck (s_mon p h') = clock_idle (spi_mode p)
       \<and> (loopback lv p \<longrightarrow> rdata = data)"
proof -
  let ?r = "spi_bits (sample_level (spi_mode p)) lv p 8 data 0 h"
  obtain bs where bs: "length bs = 8" "fst ?r = foldl shift_in 0 bs"
    "s_out (s_mon p (snd ?r)) = s_out (s_mon p h) @ top_bits 8 data"
    "s_in (s_mon p (snd ?r)) = s_in (s_mon p h) @ bs"
    "s_sck (s_mon p (snd ?r)) = sample_level (spi_mode p)" "loopback lv p \<longrightarrow> bs = top_bits 8 data"
    using spi_bits_mon [OF assms(1), of 8 lv data 0 h] by auto
  have r: "rdata = bits_byte bs" and h': "h' = spi_sck p (clock_idle (spi_mode p)) (snd ?r)"
    using assms(2) bs(2) by (simp_all add: spi_pfunc_bits split_beta bits_byte_def)
  have "byte_bits rdata = bs" using bs(1) r by simp
  then show ?thesis
    using bs(3-6) r by (auto simp: h' hw_defs top_bits_8)
qed

lemma spi_rw_loop_mon:
  assumes "spi_pins_ok p"
  shows "spi_rw_loop (spi_pfunc (spi_mode p) lv p) ds h = (rs, h') \<Longrightarrow>
       length rs = length ds
       \<and> s_out (s_mon p h') = s_out (s_mon p h) @ concat (map byte_bits ds)
       \<and> s_in (s_mon p h') = s_in (s_mon p h) @ concat (map byte_bits rs)
       \<and> (s_sck (s_mon p h) = clock_idle (spi_mode p) \<longrightarrow> s_sck (s_mon p h') = clock_idle (spi_mode p))
       \<and> (loopback lv p \<longrightarrow> rs = ds)"
proof (induction ds arbitrary: h rs)
  case Nil
  then show ?case by simp
next
  case (Cons d ds)
  obtain r h1 where 1: "spi_pfunc (spi_mode p) lv p d h = (r, h1)" by fastforce
  obtain rs' where 2: "spi_rw_loop (spi_pfunc (spi_mode p) lv p) ds h1 = (rs', h')" "rs = r # rs'"
    using Cons.prems 1 by (auto split: prod.splits)
  show ?case using spi_byte_mon [OF assms 1] Cons.IH [OF 2(1)] 2(2) by simp
qed

section \<open>Transfers\<close>

definition spi_ready :: "u8 \<Rightarrow> spi_world \<Rightarrow> bool" where
  "spi_ready n w \<longleftrightarrow> n < SOFT_SPI_NUM \<and> is_spi_init w ! unat n \<noteq> 0
     \<and> spi_pins_ok (spi_list w ! unat n)
     \<and> s_sck (s_mon (spi_list w ! unat n) (spi_hist w)) = clock_idle (spi_mode (spi_list w ! unat n))"

text \<open>The bytes on the wire: the caller's, or \<open>0xff\<close> when there is nothing to send.\<close>

definition spi_sent :: "u8 list option \<Rightarrow> u8 \<Rightarrow> u8 list" where
  "spi_sent wdata sz = (case wdata of None \<Rightarrow> replicate (unat sz) 0xff | Some wd \<Rightarrow> map ((!) wd) [0..<unat sz])"

text \<open>
  C22. spi_soft_rw_byte, in any of the four clock modes and for any of its write-only, read-only and
  duplex uses, makes an observer sampling on the mode's edge see exactly the bits of the bytes sent
  (0xff when only reading), most significant first; the bytes returned are the input bits at the
  same edges, so with the output looped back they are the bytes sent.
\<close>

theorem spi_transfer:
  assumes "p = spi_list w ! unat n" and "spi_ready n w" and "wdata \<noteq> None \<or> rd"
    and "spi_soft_rw_byte lv n wdata rd sz w = (r, rdata, w')"
  shows "r = SPI_OK \<and> spi_ready n w' \<and> length rdata = (if rd then unat sz else 0)
    \<and> s_out (s_mon p (spi_hist w')) = s_out (s_mon p (spi_hist w)) @ concat (map byte_bits (spi_sent wdata sz))
    \<and> (rd \<longrightarrow> s_in (s_mon p (spi_hist w')) = s_in (s_mon p (spi_hist w)) @ concat (map byte_bits rdata))
    \<and> (rd \<and> loopback lv p \<longrightarrow> rdata = spi_sent wdata sz)"
proof -
  have rdy: "\<not> SOFT_SPI_NUM \<le> n" "is_spi_init w ! unat n \<noteq> 0" "spi_pins_ok p"
    "s_sck (s_mon p (spi_hist w)) = clock_idle (spi_mode p)"
    using assms(2) by (auto simp: spi_ready_def assms(1))
  obtain rs h' where loop: "spi_rw_loop (spi_pfunc (spi_mode p) lv p) (spi_sent wdata sz) (spi_hist w) = (rs, h')"
    by fastforce
  have out: "r = SPI_OK" "rdata = (if rd then rs else [])" "w' = w\<lparr>spi_hist := h'\<rparr>"
    using assms(3,4) loop rdy by (auto simp: spi_soft_rw_byte_def spi_sent_def assms(1) split: option.splits)
  have "length (spi_sent wdata sz) = unat sz" by (simp add: spi_sent_def split: option.splits)
  then show ?thesis
    using spi_rw_loop_mon [OF rdy(3) loop] rdy assms(1) out by (auto simp: spi_ready_def)
qed

text \<open>A port to try the property on: mode 3, with data in wired to data out.\<close>

definition demo_spi_pins :: SOFT_SPI_INFO where
  "demo_spi_pins = \<lparr>spi_mode = SPI_MODE_CPOL_L_CPHA_2, sck_pin = 1, sck_port = GPIOF, mosi_pin = 2, mosi_port = GPIOF,
     miso_pin = 4, miso_port = GPIOF\<rparr>"

definition demo_spi :: spi_world where
  "demo_spi = \<lparr>spi_list = replicate 6 demo_spi_pins, is_spi_init = replicate 6 1, spi_hist = []\<rparr>"

theorem spi_transfer_witness:
  "fst (snd (spi_soft_rw_byte (\<lambda>h port pin. s_mosi (s_mon demo_spi_pins h)) 0 (Some [0x12, 0x34]) True 2 demo_spi))
   = [0x12, 0x34]"
proof -
  let ?lv = "\<lambda>h port pin. s_mosi (s_mon demo_spi_pins h)"
  obtain r rdata w' where t: "spi_soft_rw_byte ?lv 0 (Some [0x12, 0x34]) True 2 demo_spi = (r, rdata, w')"
    by (cases "spi_soft_rw_byte ?lv 0 (Some [0x12, 0x34]) True 2 demo_spi") auto
  have p: "spi_list demo_spi ! unat 0 = demo_spi_pins" by (simp add: demo_spi_def)
  have "spi_ready 0 demo_spi"
    unfolding spi_ready_def p
    by (simp add: demo_spi_def SOFT_SPI_NUM_def spi_pins_ok_def is_sck_def demo_spi_pins_def)
  from spi_transfer [OF p [symmetric] this _ t] have "rdata = spi_sent (Some [0x12, 0x34]) 2"
    by (simp add: loopback_def)
  then show ?thesis using t by (simp add: spi_sent_def upt_rec)
qed

text \<open>After a first initialisation the clock stands at its idle level and the bus is ready.\<close>

lemma spi_init_ready:
  assumes "n < SOFT_SPI_NUM" and "length (spi_list w) = 6" and "length (is_spi_init w) = 6"
    and "is_spi_init w ! unat n = 0" and "spi_pins_ok info" and "spi_soft_init n info w = (r, w')"
  shows "r = SPI_OK \<and> spi_ready n w' \<and> spi_list w' ! unat n = info"
proof -
  have n: "unat n < 6" using assms(1) by (simp add: SOFT_SPI_NUM_def word_less_nat_alt)
  have r: "r = SPI_OK" and l: "spi_list w' = (spi_list w)[unat n := info]"
    "is_spi_init w' = (is_spi_init w)[unat n := 1]"
    using assms(1,4,6) by (auto simp: spi_soft_init_def Let_def not_le [symmetric])
  have "s_sck (s_mon info (spi_hist w')) = clock_idle (spi_mode info)"
    using assms(1,4,5,6)
    by (auto simp: spi_soft_init_def Let_def not_le [symmetric] spi_sck_if clock_idle_def [symmetric])
       (auto simp: hw_defs split: if_splits)
  then show ?thesis using n r l assms(1-3,5) by (simp add: spi_ready_def)
qed

end
