(* ===== verification/Byte_Memory.thy ===== *)
theory Byte_Memory
  imports Prelude
begin

text \<open>
  A byte-addressed memory with little-endian words, as the pointer accesses of the flash driver see it:
  reading and writing runs of bytes at an address, and the laws that relate them.
\<close>

section \<open>Little-endian words\<close>

definition word_bytes :: "u32 \<Rightarrow> u8 list" where
  "word_bytes v = [ucast v, ucast (drop_bit 8 v), ucast (drop_bit 16 v), ucast (drop_bit 24 v)]"

definition le_word :: "u8 list \<Rightarrow> u32" where
  "le_word bs = ucast (bs ! 0) OR push_bit 8 (ucast (bs ! 1)) OR push_bit 16 (ucast (bs ! 2))
                OR push_bit 24 (ucast (bs ! 3))"

definition half_bytes :: "u16 \<Rightarrow> u8 list" where
  "half_bytes v = [ucast v, ucast (drop_bit 8 v)]"

lemma length_word_bytes [simp]: "length (word_bytes v) = 4"
  by (simp add: word_bytes_def)

lemma le_word_bytes [simp]: "le_word (word_bytes v) = v"
proof (rule bit_word_eqI)
  fix n assume "n < LENGTH(32)"
  then have n: "n < 32" by simp
  consider "n < 8" | "8 \<le> n" "n < 16" | "16 \<le> n" "n < 24" | "24 \<le> n" by linarith
  then show "bit (le_word (word_bytes v)) n \<longleftrightarrow> bit v n"
    using n by cases (auto simp: le_word_def word_bytes_def bit_simps bit_or_iff bit_push_bit_iff bit_ucast_iff
        bit_drop_bit_eq)
qed

section \<open>Runs of bytes\<close>

type_synonym memory = "u32 \<Rightarrow> u8"

definition mem_read :: "memory \<Rightarrow> u32 \<Rightarrow> nat \<Rightarrow> u8 list" where
  "mem_read m a n = map (\<lambda>i. m (a + of_nat i)) [0..<n]"

definition mem_write :: "u32 \<Rightarrow> u8 list \<Rightarrow> memory \<Rightarrow> memory" where
  "mem_write a bs m = (\<lambda>x. if unat (x - a) < length bs then bs ! unat (x - a) else m x)"

definition mem_word :: "memory \<Rightarrow> u32 \<Rightarrow> u32" where
  "mem_word m a = le_word (mem_read m a 4)"

text \<open>A run that does not wrap around the address space, and two that do not meet.\<close>

definition run_ok :: "u32 \<Rightarrow> nat \<Rightarrow> bool" where
  "run_ok a n \<longleftrightarrow> unat a + n \<le> 2 ^ 32"

definition runs_apart :: "u32 \<Rightarrow> nat \<Rightarrow> u32 \<Rightarrow> nat \<Rightarrow> bool" where
  "runs_apart a n b k \<longleftrightarrow> unat a + n \<le> unat b \<or> unat b + k \<le> unat a"

lemma length_mem_read [simp]: "length (mem_read m a n) = n"
  by (simp add: mem_read_def)

lemma nth_mem_read: "i < n \<Longrightarrow> mem_read m a n ! i = m (a + of_nat i)"
  by (simp add: mem_read_def)

lemma mem_read_write_same:
  assumes "length bs \<le> 2 ^ 32"
  shows "mem_read (mem_write a bs m) a (length bs) = bs"
proof (rule nth_equalityI)
  fix i assume "i < length (mem_read (mem_write a bs m) a (length bs))"
  then have i: "i < length bs" by simp
  then have "unat (of_nat i :: u32) = i" using assms by (simp add: unat_of_nat)
  then show "mem_read (mem_write a bs m) a (length bs) ! i = bs ! i"
    using i by (simp add: nth_mem_read mem_write_def)
qed simp

lemma unat_run:
  assumes "run_ok a n" and "i < n"
  shows "unat (a + of_nat i) = unat a + i"
  using assms by (simp add: run_ok_def unat_word_ariths unat_of_nat)

lemma mem_read_write_apart:
  assumes "run_ok a (length bs)" and "run_ok b n" and "runs_apart a (length bs) b n"
  shows "mem_read (mem_write a bs m) b n = mem_read m b n"
proof (rule nth_equalityI)
  fix i assume "i < length (mem_read (mem_write a bs m) b n)"
  then have i: "i < n" by simp
  have "unat (b + of_nat i) = unat b + i" by (rule unat_run [OF assms(2) i])
  then have "\<not> unat (b + of_nat i - a) < length bs"
    using assms i by (auto simp: unat_sub_if' run_ok_def runs_apart_def)
  then show "mem_read (mem_write a bs m) b n ! i = mem_read m b n ! i"
    using i by (simp add: nth_mem_read mem_write_def)
qed simp

lemma mem_read_part:
  assumes "k + n \<le> len"
  shows "mem_read m (a + of_nat k) n = take n (drop k (mem_read m a len))"
  using assms by (intro nth_equalityI) (auto simp: nth_mem_read add.assoc)

lemma mem_word_part:
  assumes "k + 4 \<le> len"
  shows "mem_word m (a + of_nat k) = le_word (take 4 (drop k (mem_read m a len)))"
  using mem_read_part [OF assms] by (simp add: mem_word_def)

lemma mem_word_start:
  assumes "4 \<le> len"
  shows "mem_word m a = le_word (take 4 (mem_read m a len))"
  using mem_word_part [of 0 len m a] assms by simp

lemma le_word_zeros [simp]: "le_word (replicate 4 0) = 0"
  by (simp add: le_word_def)

text \<open>Overwriting part of an array.\<close>

definition poke :: "nat \<Rightarrow> 'a list \<Rightarrow> 'a list \<Rightarrow> 'a list" where
  "poke k bs buf = take k buf @ bs @ drop (k + length bs) buf"

lemma length_poke [simp]: "k + length bs \<le> length buf \<Longrightarrow> length (poke k bs buf) = length buf"
  by (simp add: poke_def)

lemma take_poke_before: "n \<le> k \<Longrightarrow> k \<le> length buf \<Longrightarrow> take n (poke k bs buf) = take n buf"
  by (simp add: poke_def min_def)

lemma take_drop_poke: "k \<le> length buf \<Longrightarrow> take (length bs) (drop k (poke k bs buf)) = bs"
  by (simp add: poke_def)

lemma take_drop_poke_apart:
  assumes "k + length bs \<le> length buf" and "i + n \<le> k \<or> k + length bs \<le> i"
  shows "take n (drop i (poke k bs buf)) = take n (drop i buf)"
proof (rule nth_equalityI)
  show "length (take n (drop i (poke k bs buf))) = length (take n (drop i buf))" using assms by simp
  fix j assume j: "j < length (take n (drop i (poke k bs buf)))"
  then have "i + j < length buf" "j < n" using assms by (auto simp: less_diff_conv add.commute)
  then show "take n (drop i (poke k bs buf)) ! j = take n (drop i buf) ! j"
    using assms by (auto simp: poke_def nth_append)
qed

lemma nth_poke:
  assumes "k + length bs \<le> length buf" and "i < length buf"
  shows "poke k bs buf ! i = (if k \<le> i \<and> i < k + length bs then bs ! (i - k) else buf ! i)"
  using assms by (auto simp: poke_def nth_append)

lemma poke_append: "length a = k \<Longrightarrow> poke k b (a @ c) = a @ b @ drop (length b) c"
  by (simp add: poke_def)

end
