(* ===== verification/Alg.thy ===== *)
theory Alg
  imports Gpio "HOL-Library.Multiset"
begin

text \<open>
  The checksums of \<^verbatim>\<open>Drivers/Src/drv_alg.c\<close> and the initialisation of the two hardware units. The
  lemmas show what the checksums detect: CRC-8 and CRC-32 every change of a single element, CRC-16
  (as it is coded) no more than the exclusive-or of the bytes.
\<close>

section \<open>The routines\<close>

definition CRC8_POLYNOMIAL :: u8 where "CRC8_POLYNOMIAL = 0x07"
definition CRC8_INIT :: u8 where "CRC8_INIT = 0xFF"

definition crc8_bit :: "u8 \<Rightarrow> u8" where
  "crc8_bit crc = (if crc AND 0x80 \<noteq> 0 then push_bit 1 crc XOR CRC8_POLYNOMIAL else push_bit 1 crc)"

text \<open>The \<open>while (len--)\<close> loops, over the bytes (words) that \<open>ptr\<close> and \<open>len\<close> denote.\<close>

definition calc_crc8 :: "u8 list \<Rightarrow> u8" where
  "calc_crc8 data = foldl (\<lambda>crc b. (crc8_bit ^^ 8) (crc XOR b)) CRC8_INIT data"

definition CRC16_POLYNOMIAL :: u16 where "CRC16_POLYNOMIAL = 0xA001"
definition CRC16_INIT :: u16 where "CRC16_INIT = 0xFFFF"

definition crc16_bit :: "u16 \<Rightarrow> u16" where
  "crc16_bit crc = (if crc AND 0x80 \<noteq> 0 then push_bit 1 crc XOR CRC16_POLYNOMIAL else push_bit 1 crc)"

definition calc_crc16 :: "u8 list \<Rightarrow> u16" where
  "calc_crc16 data = foldl (\<lambda>crc b. (crc16_bit ^^ 8) (crc XOR ucast b)) CRC16_INIT data"

definition CRC32_POLYNOMIAL :: u32 where "CRC32_POLYNOMIAL = 0x04C11DB7"
definition CRC32_INIT :: u32 where "CRC32_INIT = 0xFFFFFFFF"

definition crc32_bit :: "u32 \<Rightarrow> u32" where
  "crc32_bit crc = (if crc AND 0x80000000 \<noteq> 0 then push_bit 1 crc XOR CRC32_POLYNOMIAL else push_bit 1 crc)"

definition calc_crc32 :: "u32 list \<Rightarrow> u32" where
  "calc_crc32 data = foldl (\<lambda>crc b. (crc32_bit ^^ 32) (crc XOR b)) CRC32_INIT data"

text \<open>The results of the HAL's initialisation functions are parameters, the clocks go to the history.\<close>

definition rng_init :: "HAL_StatusTypeDef \<Rightarrow> history \<Rightarrow> BaseType_t \<times> history" where
  "rng_init hal h = (let h = PeriphClock RCC_RNG # h in (if hal \<noteq> HAL_OK then pdFAIL else pdPASS, h))"

definition crc_init :: "HAL_StatusTypeDef \<Rightarrow> history \<Rightarrow> BaseType_t \<times> history" where
  "crc_init hal h = (let h = PeriphClock RCC_CRC # h in (if hal \<noteq> HAL_OK then pdFAIL else pdPASS, h))"

definition alg_driver_init :: "HAL_StatusTypeDef \<Rightarrow> HAL_StatusTypeDef \<Rightarrow> history \<Rightarrow> BaseType_t \<times> history" where
  "alg_driver_init hal_rng hal_crc h =
     (let result = pdPASS;
          (r, h) = rng_init hal_rng h;
          result = result AND r;
          (r, h) = crc_init hal_crc h;
          result = result AND r
      in (result, h))"

lemma alg_driver_init_pass:
  "fst (alg_driver_init a b h) = (if a = HAL_OK \<and> b = HAL_OK then pdPASS else pdFAIL)"
  by (simp add: alg_driver_init_def rng_init_def crc_init_def Let_def)

text \<open>
  The two hardware units: \<open>random\<close> is the number the generator delivers, if it does; \<open>unit\<close> is what
  the checksum unit computes from the words written to it since its reset.
\<close>

definition rng_get_value :: "u32 option \<Rightarrow> u32" where
  "rng_get_value random = (let val = 0 in case random of None \<Rightarrow> val | Some r \<Rightarrow> r)"

definition calc_hw_crc32 :: "(u32 list \<Rightarrow> u32) \<Rightarrow> u32 list \<Rightarrow> u32" where
  "calc_hw_crc32 unit pbuffer = (let val = unit pbuffer in val)"

section \<open>Registers whose step loses nothing\<close>

text \<open>A shift register with feedback, most significant bit first.\<close>

definition lfsr :: "'a::len word \<Rightarrow> 'a word \<Rightarrow> 'a word" where
  "lfsr poly c = (if bit c (LENGTH('a) - 1) then push_bit 1 c XOR poly else push_bit 1 c)"

lemma bit_lfsr:
  fixes c :: "'a::len word"
  assumes "n < LENGTH('a)"
  shows "bit (lfsr poly c) n \<longleftrightarrow> ((n \<noteq> 0 \<and> bit c (n - 1)) \<noteq> (bit c (LENGTH('a) - 1) \<and> bit poly n))"
  using assms by (cases n) (auto simp: lfsr_def bit_xor_iff bit_push_bit_iff simp del: push_bit_of_1
      push_bit_Suc push_bit_numeral)

lemma lfsr_inj:
  fixes c d :: "'a::len word"
  assumes "bit poly 0" and "lfsr poly c = lfsr poly d"
  shows "c = d"
proof (rule bit_word_eqI)
  have eq: "\<And>n. n < LENGTH('a) \<Longrightarrow> bit (lfsr poly c) n = bit (lfsr poly d) n" using assms(2) by simp
  have top: "bit c (LENGTH('a) - 1) = bit d (LENGTH('a) - 1)"
    using eq [of 0] assms(1) by (simp add: bit_lfsr)
  fix n assume n: "n < LENGTH('a)"
  show "bit c n = bit d n"
  proof (cases "Suc n < LENGTH('a)")
    case True
    then show ?thesis using eq [of "Suc n"] top by (auto simp: bit_lfsr)
  next
    case False
    then have "n = LENGTH('a) - 1" using n by simp
    then show ?thesis using top by simp
  qed
qed

lemma lfsr_0 [simp]: "lfsr poly 0 = 0"
  by (simp add: lfsr_def)

lemma xor_cancel:
  fixes a b c :: "'a::len word"
  shows "a XOR c = b XOR c \<longleftrightarrow> a = b" and "c XOR a = c XOR b \<longleftrightarrow> a = b"
  by (auto simp: bit_eq_iff bit_xor_iff)

text \<open>
  The contract of a checksum register: feeding is injective and fixes zero. Its consequences hold for
  every routine that meets it.
\<close>

locale crc_register =
  fixes feed :: "'a::len word \<Rightarrow> 'a word"
    and crc :: "'a word list \<Rightarrow> 'a word"
    and seed :: "'a word"
  assumes feed_inj: "feed c = feed d \<Longrightarrow> c = d"
    and feed_0: "feed 0 = 0"
    and crc_fold: "crc data = foldl (\<lambda>c b. feed (c XOR b)) seed data"
begin

lemma step_inj: "feed (c XOR b) = feed (d XOR b) \<Longrightarrow> c = d"
  using feed_inj [of "c XOR b" "d XOR b"] by (simp add: xor_cancel)

lemma fold_inj:
  "foldl (\<lambda>c b. feed (c XOR b)) c data = foldl (\<lambda>c b. feed (c XOR b)) d data \<Longrightarrow> c = d"
  by (induction data arbitrary: c d) (auto dest: step_inj)

lemma residue: "crc (data @ [crc data]) = 0"
  by (simp add: crc_fold feed_0)

lemma detects:
  assumes "x \<noteq> y"
  shows "crc (xs @ x # ys) \<noteq> crc (xs @ y # ys)"
proof
  assume "crc (xs @ x # ys) = crc (xs @ y # ys)"
  then have "feed (crc xs XOR x) = feed (crc xs XOR y)"
    by (auto simp: crc_fold dest: fold_inj)
  then have "crc xs XOR x = crc xs XOR y" by (rule feed_inj)
  with assms show False by (simp add: xor_cancel)
qed

end

lemma crc8_bit_lfsr: "crc8_bit = lfsr CRC8_POLYNOMIAL"
proof
  fix c :: u8
  have "c AND push_bit 7 1 \<noteq> 0 \<longleftrightarrow> bit c 7"
    by (simp only: and_exp_eq_0_iff_not_bit push_bit_eq_mult mult_1 not_not)
  moreover have "push_bit 7 1 = (0x80 :: u8)" by simp
  ultimately show "crc8_bit c = lfsr CRC8_POLYNOMIAL c" by (simp add: crc8_bit_def lfsr_def)
qed

lemma crc32_bit_lfsr: "crc32_bit = lfsr CRC32_POLYNOMIAL"
proof
  fix c :: u32
  have "c AND push_bit 31 1 \<noteq> 0 \<longleftrightarrow> bit c 31"
    by (simp only: and_exp_eq_0_iff_not_bit push_bit_eq_mult mult_1 not_not)
  moreover have "push_bit 31 1 = (0x80000000 :: u32)" by simp
  ultimately show "crc32_bit c = lfsr CRC32_POLYNOMIAL c" by (simp add: crc32_bit_def lfsr_def)
qed

lemma funpow_inj:
  fixes f :: "'a \<Rightarrow> 'a"
  shows "inj f \<Longrightarrow> (f ^^ n) c = (f ^^ n) d \<Longrightarrow> c = d"
  by (rule injD [OF inj_fn])

lemma crc8_bit_inj: "inj crc8_bit"
  by (rule injI, rule lfsr_inj [of CRC8_POLYNOMIAL])
     (simp_all add: crc8_bit_lfsr CRC8_POLYNOMIAL_def)

lemma crc32_bit_inj: "inj crc32_bit"
  by (rule injI, rule lfsr_inj [of CRC32_POLYNOMIAL])
     (simp_all add: crc32_bit_lfsr CRC32_POLYNOMIAL_def)

lemma funpow_fix: "f c = c \<Longrightarrow> (f ^^ n) c = c"
  by (induction n) auto

interpretation crc8: crc_register "crc8_bit ^^ 8" calc_crc8 CRC8_INIT
proof unfold_locales
  fix c d :: u8
  assume "(crc8_bit ^^ 8) c = (crc8_bit ^^ 8) d"
  then show "c = d" by (rule funpow_inj [OF crc8_bit_inj])
qed (simp_all add: funpow_fix crc8_bit_lfsr calc_crc8_def)

interpretation crc32: crc_register "crc32_bit ^^ 32" calc_crc32 CRC32_INIT
proof unfold_locales
  fix c d :: u32
  assume "(crc32_bit ^^ 32) c = (crc32_bit ^^ 32) d"
  then show "c = d" by (rule funpow_inj [OF crc32_bit_inj])
qed (simp_all add: funpow_fix crc32_bit_lfsr calc_crc32_def)

section \<open>The CRC-16\<close>

lemma bit_crc16_bit:
  assumes "n < 16"
  shows "bit (crc16_bit c) n \<longleftrightarrow> ((n \<noteq> 0 \<and> bit c (n - 1)) \<noteq> (bit c 7 \<and> bit CRC16_POLYNOMIAL n))"
proof -
  have "c AND push_bit 7 1 \<noteq> 0 \<longleftrightarrow> bit c 7"
    by (simp only: and_exp_eq_0_iff_not_bit push_bit_eq_mult mult_1 not_not)
  moreover have "push_bit 7 1 = (0x80 :: u16)" by simp
  ultimately have "crc16_bit c = (if bit c 7 then push_bit 1 c XOR CRC16_POLYNOMIAL else push_bit 1 c)"
    by (simp add: crc16_bit_def)
  then show ?thesis
    using assms by (cases n) (auto simp: bit_xor_iff bit_push_bit_iff simp del: push_bit_of_1
        push_bit_Suc push_bit_numeral)
qed

lemma crc16_poly_low: "n < 8 \<Longrightarrow> bit CRC16_POLYNOMIAL n \<longleftrightarrow> n = 0"
proof -
  assume "n < 8"
  then have "n \<in> {0,1,2,3,4,5,6,7}" by auto
  then show ?thesis by (auto simp: CRC16_POLYNOMIAL_def)
qed

text \<open>The low byte of the register is only rotated, by a full turn for every byte fed.\<close>

lemma crc16_rotates:
  "k \<le> 8 \<Longrightarrow> n < 8 \<Longrightarrow> bit ((crc16_bit ^^ k) c) n \<longleftrightarrow> bit c (if n < k then n + 8 - k else n - k)"
proof (induction k arbitrary: n)
  case 0
  then show ?case by simp
next
  case (Suc k)
  have "bit ((crc16_bit ^^ Suc k) c) n \<longleftrightarrow> bit ((crc16_bit ^^ k) c) (if n = 0 then 7 else n - 1)"
    using Suc.prems by (auto simp: bit_crc16_bit crc16_poly_low)
  also have "\<dots> \<longleftrightarrow> bit c (if n < Suc k then n + 8 - Suc k else n - Suc k)"
    using Suc.IH [of "if n = 0 then 7 else n - 1"] Suc.prems by (cases "n = 0") (auto simp: less_Suc_eq)
  finally show ?case .
qed

text \<open>The high byte is shifted out.\<close>

lemma crc16_forgets:
  assumes "\<And>n. n < 8 \<Longrightarrow> bit c n = bit d n"
  shows "k \<le> 8 \<Longrightarrow> n < 8 + k \<Longrightarrow> bit ((crc16_bit ^^ k) c) n = bit ((crc16_bit ^^ k) d) n"
proof (induction k arbitrary: n)
  case 0
  then show ?case using assms by simp
next
  case (Suc k)
  have n: "n < 16" using Suc.prems by simp
  have "bit ((crc16_bit ^^ k) c) 7 = bit ((crc16_bit ^^ k) d) 7" using Suc.IH [of 7] Suc.prems by simp
  moreover have "n \<noteq> 0 \<Longrightarrow> bit ((crc16_bit ^^ k) c) (n - 1) = bit ((crc16_bit ^^ k) d) (n - 1)"
    using Suc.IH [of "n - 1"] Suc.prems by simp
  ultimately show ?case using n by (auto simp: bit_crc16_bit)
qed

lemma crc16_low_byte: "ucast ((crc16_bit ^^ 8) c) = (ucast c :: u8)"
  by (rule bit_word_eqI) (simp add: bit_ucast_iff crc16_rotates)

lemma crc16_feed_low: "(crc16_bit ^^ 8) c = (crc16_bit ^^ 8) (ucast (ucast c :: u8))"
proof (rule bit_word_eqI)
  fix n assume "n < LENGTH(16)"
  then show "bit ((crc16_bit ^^ 8) c) n = bit ((crc16_bit ^^ 8) (ucast (ucast c :: u8))) n"
    by (intro crc16_forgets) (auto simp: bit_ucast_iff)
qed

lemma crc16_xor:
  "ucast c = (x :: u8) \<Longrightarrow> data \<noteq> [] \<Longrightarrow>
   foldl (\<lambda>crc b. (crc16_bit ^^ 8) (crc XOR ucast b)) c data
   = (crc16_bit ^^ 8) (ucast (foldl (XOR) x data))"
proof (induction data arbitrary: c x)
  case Nil
  then show ?case by simp
next
  case (Cons b data)
  have u: "ucast (c XOR ucast b) = x XOR b"
    using Cons.prems(1) by (auto intro: bit_word_eqI simp: bit_simps bit_ucast_iff)
  show ?case
  proof (cases "data = []")
    case True
    then show ?thesis using crc16_feed_low [of "c XOR ucast b"] u by simp
  next
    case False
    then show ?thesis using Cons.IH [of "(crc16_bit ^^ 8) (c XOR ucast b)" "x XOR b"] u
      by (simp add: crc16_low_byte)
  qed
qed

lemma calc_crc16_xor:
  "data \<noteq> [] \<Longrightarrow> calc_crc16 data = (crc16_bit ^^ 8) (ucast (foldl (XOR) 0xFF data :: u8))"
  unfolding calc_crc16_def by (rule crc16_xor) (simp_all add: CRC16_INIT_def)

lemma xor_mset:
  fixes xs ys :: "u8 list"
  assumes "mset xs = mset ys"
  shows "foldl (XOR) c xs = foldl (XOR) c ys"
proof -
  have "fold (XOR) xs = fold (XOR) ys"
    using assms by (intro fold_multiset_equiv) (auto simp: xor.left_commute)
  moreover have "foldl (XOR) c zs = fold (XOR) zs c" for zs :: "u8 list"
    by (simp add: foldl_conv_fold xor.commute)
  ultimately show ?thesis by simp
qed

text \<open>Every change of one byte does change the low byte of the register.\<close>

lemma crc16_low: "data \<noteq> [] \<Longrightarrow> ucast (calc_crc16 data) = (foldl (XOR) 0xFF data :: u8)"
proof -
  have "ucast (ucast x :: u16) = x" for x :: u8
    by (rule bit_word_eqI) (auto simp: bit_ucast_iff)
  then show "data \<noteq> [] \<Longrightarrow> ucast (calc_crc16 data) = (foldl (XOR) 0xFF data :: u8)"
    by (simp add: calc_crc16_xor crc16_low_byte)
qed

section \<open>Properties\<close>

text \<open>
  C37. calc_crc8 and calc_crc32 give different checksums for inputs that differ in a single byte
  (word), and a checksum appended to its data gives zero.
\<close>

theorem crc_detects_single_change:
  assumes "x \<noteq> y" and "a \<noteq> b"
  shows "calc_crc8 (xs @ x # ys) \<noteq> calc_crc8 (xs @ y # ys)
       \<and> calc_crc32 (us @ a # vs) \<noteq> calc_crc32 (us @ b # vs)
       \<and> calc_crc8 (xs @ [calc_crc8 xs]) = 0 \<and> calc_crc32 (us @ [calc_crc32 us]) = 0"
  using assms by (simp add: crc8.detects crc32.detects crc8.residue crc32.residue)

theorem crc_detects_single_change_witness:
  "calc_crc8 ([0x12] @ 0x34 # [0x56]) \<noteq> calc_crc8 ([0x12] @ 0x35 # [0x56])"
  using crc_detects_single_change [of "0x34" "0x35" 1 2 "[0x12]" "[0x56]" "[]" "[]"] by simp

text \<open>
  calc_crc16 tests bit 7 while it shifts the 16-bit register left, so its result does not
  depend on the order of the bytes.
\<close>

lemma crc16_ignores_order:
  assumes "mset xs = mset ys"
  shows "calc_crc16 xs = calc_crc16 ys"
proof (cases "xs = []")
  case True
  then show ?thesis using assms by simp
next
  case False
  then have "ys \<noteq> []" using assms by auto
  then show ?thesis using False by (simp add: calc_crc16_xor xor_mset [OF assms])
qed

end
