(* ===== verification/Flash_Store.thy ===== *)
theory Flash_Store
  imports Byte_Memory Alg
begin

text \<open>
  The flash log of \<^verbatim>\<open>Drivers/Src/drv_flash.c\<close>: two pages of fixed-size blocks, of which at most one is
  in use; a write appends a block, or starts the other page when the current one is full, and a read
  returns the newest block. The device functions are weak symbols in the source, so they are
  parameters here; what the store needs of them is a locale, and the ones of the source interpret it.
  The lemmas show that the store implements a register: reads return the value written last.
\<close>

section \<open>Data\<close>

definition PAGE_ERASED :: u32 where "PAGE_ERASED = 0x00000000"
definition FLASH_VALID :: u32 where "FLASH_VALID = 0xC33CC33C"
definition PAGE_VALID :: u32 where "PAGE_VALID = 0x5A5A5A5A"
definition BLOCK_VALID :: u32 where "BLOCK_VALID = 0xA5A5A5A5"
definition MAX_BLOCK_SIZE :: u32 where "MAX_BLOCK_SIZE = 1024"
definition BLOCK_HEAD_SIZE :: u32 where "BLOCK_HEAD_SIZE = 8"
definition BLOCK_CRC_SIZE :: u32 where "BLOCK_CRC_SIZE = 2"

definition CALC_BLOCK_SIZE :: "u32 \<Rightarrow> u32" where
  "CALC_BLOCK_SIZE buf_size = buf_size + BLOCK_HEAD_SIZE + BLOCK_CRC_SIZE"

definition CALC_BUFFER_SIZE :: "u32 \<Rightarrow> u32" where
  "CALC_BUFFER_SIZE bs = bs - BLOCK_HEAD_SIZE - BLOCK_CRC_SIZE"

datatype FlashOperatorStatus_t =
    FLASH_OP_SUCCESS | FLASH_OP_INVALID_PARAMETER | FLASH_OP_NULL_ERR | FLASH_OP_BLOCK_ERR
  | FLASH_OP_CRC_ERR | FLASH_OP_SIZE_ERR | FLASH_OP_ERASE_ERR | FLASH_OP_READ_ERR
  | FLASH_OP_WRITE_ERR | FLASH_OP_WRITE_DATA_ERR

datatype PageOperationAction_t = FLASH_OP_ACTION_WRITE | FLASH_OP_ACTION_READ

datatype FlashSearchStatus_t =
    FLASH_SEARCH_OK | FLASH_SEARCH_PAGE_EMPTY | FLASH_SEARCH_PAGE_MULTI_INVALID
  | FLASH_SEARCH_BLOCK_INVALID | FLASH_SEARCH_BLOCK_WRITE_FULL_0 | FLASH_SEARCH_BLOCK_WRITE_FULL_1

record FlashInfo_t =
  flash_valid :: u32
  page0_address :: u32
  page1_address :: u32
  page_size :: u32
  block_size :: u32
  block_num :: u32

text \<open>The memory and the static array \<^verbatim>\<open>block_buffer\<close>, as its 1028 bytes.\<close>

record flash_world =
  fmem :: memory
  block_buffer :: "u8 list"

section \<open>The device functions\<close>

record flash_dev =
  dev_empty :: "u32 \<Rightarrow> u32 \<Rightarrow> memory \<Rightarrow> BaseType_t \<times> memory"
  dev_write :: "u32 \<Rightarrow> u8 list \<Rightarrow> u32 \<Rightarrow> memory \<Rightarrow> BaseType_t \<times> memory"
  dev_read :: "u32 \<Rightarrow> u32 \<Rightarrow> memory \<Rightarrow> BaseType_t \<times> u8 list"

text \<open>
  The functions compiled into the program (\<^verbatim>\<open>STM32F429xE\<close> is not defined). Word \<open>i\<close> of a buffer is its
  bytes \<open>4 * i\<close> to \<open>4 * i + 3\<close>.
\<close>

definition flash_empty_device :: "u32 \<Rightarrow> u32 \<Rightarrow> memory \<Rightarrow> BaseType_t \<times> memory" where
  "flash_empty_device address sz m = (pdPASS, mem_write address (replicate (unat sz) 0) m)"

definition flash_write_device :: "u32 \<Rightarrow> u8 list \<Rightarrow> u32 \<Rightarrow> memory \<Rightarrow> BaseType_t \<times> memory" where
  "flash_write_device address pbuffer sz m =
     (pdPASS, fold (\<lambda>i m. mem_write (address + of_nat (i * 4)) (take 4 (drop (i * 4) pbuffer)) m) [0..<unat sz] m)"

definition flash_read_device :: "u32 \<Rightarrow> u32 \<Rightarrow> memory \<Rightarrow> BaseType_t \<times> u8 list" where
  "flash_read_device address sz m =
     (pdPASS, concat (map (\<lambda>i. mem_read m (address + of_nat (i * 4)) 4) [0..<unat sz]))"

definition ram_device :: flash_dev where
  "ram_device = \<lparr>dev_empty = flash_empty_device, dev_write = flash_write_device, dev_read = flash_read_device\<rparr>"

section \<open>The operations\<close>

definition flash_crc16_bit :: "u16 \<Rightarrow> u16" where
  "flash_crc16_bit crc = (if crc AND 0x80 \<noteq> 0 then push_bit 1 crc XOR 0xA001 else push_bit 1 crc)"

definition flash_calc_crc16 :: "u8 list \<Rightarrow> u16" where
  "flash_calc_crc16 data = foldl (\<lambda>crc b. (flash_crc16_bit ^^ 8) (crc XOR ucast b)) 0xFFFF data"

text \<open>\<open>None\<close> is the null pointer, for the handler and below for the caller's buffers.\<close>

definition flash_driver_init ::
  "FlashInfo_t option \<Rightarrow> u32 \<Rightarrow> u32 \<Rightarrow> u32 \<Rightarrow> u32 \<Rightarrow> BaseType_t \<times> FlashInfo_t option" where
  "flash_driver_init Handler sector_addr0 sector_addr1 psize bsize =
     (case Handler of
        None \<Rightarrow> (pdFAIL, None)
      | Some H \<Rightarrow>
          if psize = 0 \<or> bsize = 0 \<or> bsize > MAX_BLOCK_SIZE \<or> psize < bsize * 2 then (pdFAIL, Some H)
          else if (sector_addr0 OR sector_addr1 OR psize OR bsize) AND 0x4 \<noteq> 0 then (pdFAIL, Some H)
          else (pdPASS, Some (H\<lparr>page0_address := sector_addr0, page1_address := sector_addr1,
                  page_size := psize, block_size := bsize, block_num := psize div bsize - 1,
                  flash_valid := FLASH_VALID\<rparr>)))"

definition flash_find_block :: "FlashInfo_t \<Rightarrow> PageOperationAction_t \<Rightarrow> memory \<Rightarrow> FlashSearchStatus_t \<times> u32" where
  "flash_find_block H operation m =
     (let page_valid_0 = mem_word m (page0_address H);
          page_valid_1 = mem_word m (page1_address H)
      in if page_valid_0 = PAGE_VALID \<and> page_valid_1 = PAGE_VALID then (FLASH_SEARCH_PAGE_MULTI_INVALID, 0)
         else if page_valid_0 \<noteq> PAGE_VALID \<and> page_valid_1 \<noteq> PAGE_VALID then (FLASH_SEARCH_PAGE_EMPTY, 0)
         else
           let page = (if page_valid_0 = PAGE_VALID then page0_address H else page1_address H);
               num = unat (ucast (block_num H) :: u16);
               bs = unat (ucast (block_size H) :: u16)
           in (case operation of
                 FLASH_OP_ACTION_WRITE \<Rightarrow>
                   (case find (\<lambda>i. mem_word m (page + of_nat ((i + 1) * bs)) = PAGE_ERASED) [0..<num] of
                      Some i \<Rightarrow> (FLASH_SEARCH_OK, page + of_nat ((i + 1) * bs))
                    | None \<Rightarrow>
                        if page = page0_address H then (FLASH_SEARCH_BLOCK_WRITE_FULL_0, 0)
                        else if page = page1_address H then (FLASH_SEARCH_BLOCK_WRITE_FULL_1, 0)
                        else (FLASH_SEARCH_BLOCK_INVALID, 0))
               | FLASH_OP_ACTION_READ \<Rightarrow>
                   (case find (\<lambda>i. mem_word m (page + of_nat ((num - i) * bs)) = BLOCK_VALID) [0..<num] of
                      Some i \<Rightarrow> (FLASH_SEARCH_OK, page + of_nat ((num - i) * bs))
                    | None \<Rightarrow> (FLASH_SEARCH_BLOCK_INVALID, 0))))"

text \<open>
  \<open>flash_read\<close> returns the bytes stored at the caller's \<open>pbuffer\<close>; \<open>None\<close> is an access beyond the end
  of \<open>block_buffer\<close>.
\<close>

definition flash_read ::
  "flash_dev \<Rightarrow> FlashInfo_t option \<Rightarrow> bool \<Rightarrow> u16 \<Rightarrow> flash_world
     \<Rightarrow> (FlashOperatorStatus_t \<times> u8 list \<times> flash_world) option" where
  "flash_read dev Handler pbuffer sz w =
     (case Handler of
        None \<Rightarrow> Some (FLASH_OP_INVALID_PARAMETER, [], w)
      | Some H \<Rightarrow>
          if \<not> pbuffer then Some (FLASH_OP_INVALID_PARAMETER, [], w)
          else
            let (status, addr) = flash_find_block H FLASH_OP_ACTION_READ (fmem w)
            in if status \<noteq> FLASH_SEARCH_OK then Some (FLASH_OP_BLOCK_ERR, [], w)
               else
                 let (r, bytes) = dev_read dev addr (block_size H div 4) (fmem w);
                     buf = poke 0 bytes (block_buffer w);
                     w = w\<lparr>block_buffer := buf\<rparr>
                 in if r \<noteq> pdPASS then Some (FLASH_OP_READ_ERR, [], w)
                    else if CALC_BLOCK_SIZE (le_word (take 4 (drop 4 buf))) \<noteq> block_size H
                    then Some (FLASH_OP_SIZE_ERR, [], w)
                    else
                      let soft_crc = flash_calc_crc16 (take (unat (ucast (block_size H - 2) :: u16)) buf);
                          pcrc = addr + block_size H - 2;
                          flash_crc = push_bit 8 (ucast (fmem w pcrc)) OR ucast (fmem w (pcrc + 1))
                      in if soft_crc \<noteq> flash_crc then Some (FLASH_OP_CRC_ERR, [], w)
                         else if length buf < 8 + unat sz then None
                         else Some (FLASH_OP_SUCCESS, take (unat sz) (drop 8 buf), w))"

definition flash_check_empty :: "FlashInfo_t \<Rightarrow> memory \<Rightarrow> bool" where
  "flash_check_empty H m \<longleftrightarrow>
     mem_word m (page0_address H) = PAGE_ERASED \<and> mem_word m (page1_address H) = PAGE_ERASED"

text \<open>The page header: \<open>PageHeader_t\<close> laid out in the first 24 bytes of the cleared buffer.\<close>

definition flash_page_header :: "FlashInfo_t \<Rightarrow> u32 \<Rightarrow> u8 list \<Rightarrow> u8 list" where
  "flash_page_header H page_addr buf =
     (let buf = poke 0 (replicate (unat MAX_BLOCK_SIZE) 0) buf;
          buf = poke 0 (word_bytes PAGE_VALID) buf;
          buf = poke 8 (word_bytes (page_size H)) buf;
          buf = poke 16 (word_bytes (block_num H)) buf;
          buf = poke 12 (word_bytes (block_size H)) buf;
          buf = poke 4 (word_bytes page_addr) buf
      in poke 20 (half_bytes (flash_calc_crc16 (take 22 buf))) buf)"

text \<open>Erase a page unless its header is erased already.\<close>

definition flash_ensure_empty :: "flash_dev \<Rightarrow> FlashInfo_t \<Rightarrow> u32 \<Rightarrow> memory \<Rightarrow> memory" where
  "flash_ensure_empty dev H page m =
     (if mem_word m page \<noteq> PAGE_ERASED then snd (dev_empty dev page (page_size H) m) else m)"

text \<open>
  The first half of \<open>flash_write\<close> when no block is free: prepare a page and write its header. The
  result is the state after a failed header write, or the address of the page's first block.
\<close>

definition flash_open_page ::
  "flash_dev \<Rightarrow> FlashInfo_t \<Rightarrow> FlashSearchStatus_t \<Rightarrow> flash_world \<Rightarrow> flash_world + u32 \<times> flash_world" where
  "flash_open_page dev H status w =
     (let (m, page_addr) =
            (if status = FLASH_SEARCH_PAGE_EMPTY \<or> status = FLASH_SEARCH_PAGE_MULTI_INVALID then
               (flash_ensure_empty dev H (page1_address H) (flash_ensure_empty dev H (page0_address H) (fmem w)),
                page0_address H)
             else if status = FLASH_SEARCH_BLOCK_WRITE_FULL_0 then
               (flash_ensure_empty dev H (page1_address H) (fmem w), page1_address H)
             else if status = FLASH_SEARCH_BLOCK_WRITE_FULL_1 then
               (flash_ensure_empty dev H (page0_address H) (fmem w), page0_address H)
             else (fmem w, 0));
          buf = flash_page_header H page_addr (block_buffer w);
          (r, m) = dev_write dev page_addr buf (block_size H div 4) m;
          w = w\<lparr>fmem := m, block_buffer := buf\<rparr>
      in if r \<noteq> pdPASS then Inl w else Inr (page_addr + block_size H, w))"

text \<open>The block image: header, data, and the checksum in the last two bytes, high byte first.\<close>

definition flash_block_image :: "FlashInfo_t \<Rightarrow> u8 list \<Rightarrow> u8 list \<Rightarrow> u8 list" where
  "flash_block_image H data buf =
     (let buf = poke 0 (replicate (unat MAX_BLOCK_SIZE) 0) buf;
          buf = poke 0 (word_bytes BLOCK_VALID) buf;
          buf = poke 4 (word_bytes (CALC_BUFFER_SIZE (block_size H))) buf;
          buf = poke 8 data buf;
          soft_crc = flash_calc_crc16 (take (unat (ucast (block_size H - 2) :: u16)) buf)
      in poke (unat (block_size H) - 2) [ucast (drop_bit 8 soft_crc), ucast (soft_crc AND 0xff)] buf)"

text \<open>The second half of \<open>flash_write\<close>: write the block, compare it, erase a page that was full.\<close>

definition flash_put_block ::
  "flash_dev \<Rightarrow> FlashInfo_t \<Rightarrow> FlashSearchStatus_t \<Rightarrow> u32 \<Rightarrow> u8 list \<Rightarrow> flash_world
     \<Rightarrow> FlashOperatorStatus_t \<times> flash_world" where
  "flash_put_block dev H status addr data w =
     (let buf = flash_block_image H data (block_buffer w);
          (r, m) = dev_write dev addr buf (block_size H div 4) (fmem w);
          w = w\<lparr>fmem := m, block_buffer := buf\<rparr>
      in if r \<noteq> pdPASS then (FLASH_OP_WRITE_ERR, w)
         else if take (unat (block_size H)) buf \<noteq> mem_read m addr (unat (block_size H))
         then (FLASH_OP_WRITE_DATA_ERR, w)
         else
           let m = (if status = FLASH_SEARCH_BLOCK_WRITE_FULL_0
                    then snd (dev_empty dev (page0_address H) (page_size H) m) else m);
               m = (if status = FLASH_SEARCH_BLOCK_WRITE_FULL_1
                    then snd (dev_empty dev (page1_address H) (page_size H) m) else m)
           in (FLASH_OP_SUCCESS, w\<lparr>fmem := m\<rparr>))"

text \<open>\<open>None\<close> is a copy beyond the end of the caller's buffer or of \<open>block_buffer\<close>.\<close>

definition flash_write ::
  "flash_dev \<Rightarrow> FlashInfo_t option \<Rightarrow> u8 list option \<Rightarrow> u16 \<Rightarrow> flash_world
     \<Rightarrow> (FlashOperatorStatus_t \<times> flash_world) option" where
  "flash_write dev Handler pbuffer sz w =
     (case (Handler, pbuffer) of
        (Some H, Some data) \<Rightarrow>
          (let (status, addr) = flash_find_block H FLASH_OP_ACTION_WRITE (fmem w)
           in case (if status \<noteq> FLASH_SEARCH_OK then flash_open_page dev H status w else Inr (addr, w)) of
                Inl w \<Rightarrow> Some (FLASH_OP_WRITE_ERR, w)
              | Inr (addr, w) \<Rightarrow>
                  if length data < unat sz \<or> length (block_buffer w) < 8 + unat sz then None
                  else Some (flash_put_block dev H status addr (take (unat sz) data) w))
      | _ \<Rightarrow> Some (FLASH_OP_INVALID_PARAMETER, w))"

definition flash_set_empty :: "flash_dev \<Rightarrow> FlashInfo_t \<Rightarrow> memory \<Rightarrow> BaseType_t \<times> memory" where
  "flash_set_empty dev H m =
     (let (r, m) = dev_empty dev (page0_address H) (page_size H) m
      in if r \<noteq> pdPASS then (pdFAIL, m)
         else
           let (r, m) = dev_empty dev (page1_address H) (page_size H) m
           in if r \<noteq> pdPASS then (pdFAIL, m) else (pdPASS, m))"

section \<open>The contract of the device\<close>

text \<open>
  Programming is only promised on erased memory, as flash hardware does it; erasing a run that does not
  wrap around and reading always work.
\<close>

locale flash_device =
  fixes dev :: flash_dev
  assumes write_erased: "4 * unat n \<le> length buf \<Longrightarrow> unat n \<le> 256 \<Longrightarrow> run_ok a (4 * unat n) \<Longrightarrow>
      mem_read m a (4 * unat n) = replicate (4 * unat n) 0 \<Longrightarrow>
      dev_write dev a buf n m = (pdPASS, mem_write a (take (4 * unat n) buf) m)"
    and empties: "run_ok a (unat n) \<Longrightarrow> dev_empty dev a n m = (pdPASS, mem_write a (replicate (unat n) 0) m)"
    and reads: "unat n \<le> 256 \<Longrightarrow> dev_read dev a n m = (pdPASS, mem_read m a (4 * unat n))"

lemma mem_write_append:
  assumes "length xs + length ys \<le> 2 ^ 32"
  shows "mem_write (a + of_nat (length xs)) ys (mem_write a xs m) = mem_write a (xs @ ys) m"
proof
  fix x
  define d where "d = x - a"
  have dl: "unat d < 2 ^ 32" using unsigned_less [of d] by simp
  have e: "x - (a + of_nat (length xs)) = d - of_nat (length xs)" by (simp add: d_def algebra_simps)
  have l: "ys \<noteq> [] \<Longrightarrow> unat (of_nat (length xs) :: u32) = length xs"
  proof -
    assume "ys \<noteq> []"
    then have "length xs < 2 ^ 32" using assms by (cases ys) simp_all
    then show ?thesis by (simp add: unat_of_nat)
  qed
  show "mem_write (a + of_nat (length xs)) ys (mem_write a xs m) x = mem_write a (xs @ ys) m x"
  proof (cases "ys = []")
    case True
    then show ?thesis by (simp add: mem_write_def)
  next
    case False
    show ?thesis
    proof (cases "unat d < length xs")
      case True
      then have "\<not> unat (d - of_nat (length xs)) < length ys"
        using False assms l dl by (auto simp: unat_sub_if')
      then show ?thesis using True by (simp add: mem_write_def e d_def [symmetric] nth_append)
    next
      case f: False
      then have "unat (d - of_nat (length xs)) = unat d - length xs"
        using l [OF False] by (simp add: unat_sub_if')
      then show ?thesis using f by (auto simp: mem_write_def e d_def [symmetric] nth_append)
    qed
  qed
qed

lemma write_words:
  assumes "4 * n \<le> length buf" and "4 * n \<le> 2 ^ 32"
  shows "fold (\<lambda>i m. mem_write (address + of_nat (i * 4)) (take 4 (drop (i * 4) buf)) m) [0..<n] m
         = mem_write address (take (4 * n) buf) m"
  using assms
proof (induction n)
  case 0
  then show ?case by (simp add: mem_write_def)
next
  case (Suc n)
  have l: "length (take (4 * n) buf) = n * 4" using Suc.prems by simp
  have "take (4 * Suc n) buf = take (4 * n) buf @ take 4 (drop (n * 4) buf)"
    by (simp add: take_add [symmetric] mult.commute add.commute)
  then show ?case
    using Suc mem_write_append [of "take (4 * n) buf" "take 4 (drop (n * 4) buf)" address m]
    by (simp add: l mult.commute)
qed

lemma read_words:
  "concat (map (\<lambda>i. mem_read m (address + of_nat (i * 4)) 4) [0..<n]) = mem_read m address (4 * n)"
proof (induction n)
  case 0
  then show ?case by (simp add: mem_read_def)
next
  case (Suc n)
  have "mem_read m address (4 * Suc n)
      = take (4 * n) (mem_read m address (4 * Suc n)) @ drop (4 * n) (mem_read m address (4 * Suc n))" by simp
  also have "take (4 * n) (mem_read m address (4 * Suc n)) = mem_read m address (4 * n)"
    using mem_read_part [of 0 "4 * n" "4 * Suc n" m address] by simp
  also have "drop (4 * n) (mem_read m address (4 * Suc n)) = mem_read m (address + of_nat (4 * n)) 4"
    using mem_read_part [of "4 * n" 4 "4 * Suc n" m address] by simp
  finally show ?case using Suc.IH by (simp add: mult.commute)
qed

interpretation ram: flash_device ram_device
proof unfold_locales
  fix n a :: u32 and buf :: "u8 list" and m
  assume "4 * unat n \<le> length buf" "unat n \<le> 256"
  then show "dev_write ram_device a buf n m = (pdPASS, mem_write a (take (4 * unat n) buf) m)"
    using write_words [of "unat n" buf a m] by (simp add: ram_device_def flash_write_device_def)
next
  fix n a :: u32 and m
  show "dev_read ram_device a n m = (pdPASS, mem_read m a (4 * unat n))"
    using read_words [of m a "unat n"] by (simp add: ram_device_def flash_read_device_def)
qed (simp add: ram_device_def flash_empty_device_def)

section \<open>Geometry\<close>

abbreviation (input) bsz :: "FlashInfo_t \<Rightarrow> nat" where "bsz H \<equiv> unat (block_size H)"
abbreviation (input) psz :: "FlashInfo_t \<Rightarrow> nat" where "psz H \<equiv> unat (page_size H)"
abbreviation (input) bnum :: "FlashInfo_t \<Rightarrow> nat" where "bnum H \<equiv> unat (block_num H)"

text \<open>The bytes of data a block holds.\<close>

definition capacity :: "FlashInfo_t \<Rightarrow> nat" where
  "capacity H = bsz H - 10"

text \<open>
  A usable configuration: block sizes that are a multiple of the word and hold the header, two pages
  that do not meet or wrap around, and no more blocks than the 16-bit loop counters can count.
\<close>

definition flash_config :: "FlashInfo_t \<Rightarrow> bool" where
  "flash_config H \<longleftrightarrow>
     bsz H mod 4 = 0 \<and> 12 \<le> bsz H \<and> bsz H \<le> 1024 \<and> 2 * bsz H \<le> psz H
   \<and> bnum H = psz H div bsz H - 1 \<and> psz H div bsz H \<le> 65536
   \<and> run_ok (page0_address H) (psz H) \<and> run_ok (page1_address H) (psz H)
   \<and> runs_apart (page0_address H) (psz H) (page1_address H) (psz H)"

lemma flash_configD:
  assumes "flash_config H"
  shows "bsz H mod 4 = 0" "12 \<le> bsz H" "bsz H \<le> 1024" "bnum H < 65536" "1 \<le> bnum H"
    "run_ok (page0_address H) (psz H)" "run_ok (page1_address H) (psz H)"
    "runs_apart (page0_address H) (psz H) (page1_address H) (psz H)"
    "Suc (bnum H) * bsz H \<le> psz H" "4 * unat (block_size H div 4) = bsz H"
proof -
  have d: "2 \<le> psz H div bsz H"
    using assms div_le_mono [of "2 * bsz H" "psz H" "bsz H"] by (auto simp: flash_config_def)
  have n: "Suc (bnum H) = psz H div bsz H" using assms d by (simp add: flash_config_def)
  show "bsz H mod 4 = 0" "12 \<le> bsz H" "bsz H \<le> 1024"
    "run_ok (page0_address H) (psz H)" "run_ok (page1_address H) (psz H)"
    "runs_apart (page0_address H) (psz H) (page1_address H) (psz H)"
    using assms by (simp_all add: flash_config_def)
  show "bnum H < 65536" using n assms by (simp add: flash_config_def)
  show "1 \<le> bnum H" using n d by simp
  show "Suc (bnum H) * bsz H \<le> psz H" unfolding n by simp
  have "unat (block_size H div 4) = bsz H div 4" by (simp add: unat_div)
  then show "4 * unat (block_size H div 4) = bsz H" using assms by (auto simp: flash_config_def)
qed

text \<open>Block \<open>i\<close> of a page; block 0 is the page header.\<close>

definition block_at :: "FlashInfo_t \<Rightarrow> memory \<Rightarrow> u32 \<Rightarrow> nat \<Rightarrow> u8 list" where
  "block_at H m page i = mem_read m (page + of_nat (i * bsz H)) (bsz H)"

definition is_page :: "FlashInfo_t \<Rightarrow> u32 \<Rightarrow> bool" where
  "is_page H page \<longleftrightarrow> page = page0_address H \<or> page = page1_address H"

lemma page_run: "flash_config H \<Longrightarrow> is_page H page \<Longrightarrow> run_ok page (psz H)"
  by (auto simp: is_page_def flash_config_def)

lemma block_offset:
  assumes "flash_config H" and "i \<le> bnum H"
  shows "i * bsz H + bsz H \<le> psz H"
proof -
  have "i * bsz H + bsz H = Suc i * bsz H" by simp
  also have "\<dots> \<le> Suc (bnum H) * bsz H" using assms(2) by (intro mult_le_mono1) simp
  finally show ?thesis using flash_configD(9) [OF assms(1)] by (rule order_trans)
qed

lemma block_address:
  assumes "flash_config H" and "is_page H page" and "i \<le> bnum H"
  shows "unat (page + of_nat (i * bsz H)) = unat page + i * bsz H"
proof -
  have "i * bsz H < psz H" using block_offset [OF assms(1,3)] flash_configD(2) [OF assms(1)] by simp
  then show ?thesis using unat_run [OF page_run [OF assms(1,2)]] by blast
qed

lemma block_run:
  assumes "flash_config H" and "is_page H page" and "i \<le> bnum H"
  shows "run_ok (page + of_nat (i * bsz H)) (bsz H)"
  using page_run [OF assms(1,2)] block_offset [OF assms(1,3)]
  by (simp only: run_ok_def block_address [OF assms])

lemma index_apart: "i \<noteq> j \<Longrightarrow> i * n + n \<le> j * n \<or> j * n + n \<le> (i :: nat) * n"
  by (metis add.commute add_mult_distrib linorder_neqE_nat mult_le_mono1 nat_mult_1 Suc_eq_plus1 Suc_leI)

lemma blocks_apart:
  assumes "flash_config H" and "is_page H page" and "i \<le> bnum H"
    and "is_page H page'" and "j \<le> bnum H" and "page \<noteq> page' \<or> i \<noteq> j"
  shows "runs_apart (page + of_nat (i * bsz H)) (bsz H) (page' + of_nat (j * bsz H)) (bsz H)"
proof -
  note a = block_address [OF assms(1,2,3)] block_address [OF assms(1,4,5)]
  note o = block_offset [OF assms(1,3)] block_offset [OF assms(1,5)]
  show ?thesis
  proof (cases "page = page'")
    case True
    then show ?thesis
      using index_apart [of i j "bsz H"] assms(6) unfolding runs_apart_def a by auto
  next
    case False
    then have "runs_apart page (psz H) page' (psz H)"
      using assms(2,4) flash_configD(8) [OF assms(1)] by (auto simp: is_page_def runs_apart_def)
    then show ?thesis using o unfolding runs_apart_def a by auto
  qed
qed

lemma block_write_same:
  assumes "flash_config H" and "length bs = bsz H"
  shows "block_at H (mem_write (page + of_nat (i * bsz H)) bs m) page i = bs"
  unfolding block_at_def using mem_read_write_same [of bs] assms flash_configD(3) [OF assms(1)] by simp

lemma block_write_apart:
  assumes "flash_config H" and "is_page H page" and "i \<le> bnum H" and "length bs = bsz H"
    and "is_page H page'" and "j \<le> bnum H" and "page \<noteq> page' \<or> i \<noteq> j"
  shows "block_at H (mem_write (page + of_nat (i * bsz H)) bs m) page' j = block_at H m page' j"
  unfolding block_at_def
  using blocks_apart [OF assms(1-3,5-7)] block_run [OF assms(1-3)] block_run [OF assms(1,5,6)] assms(4)
  by (intro mem_read_write_apart) simp_all

text \<open>A page as a whole.\<close>

definition page_at :: "FlashInfo_t \<Rightarrow> memory \<Rightarrow> u32 \<Rightarrow> u8 list" where
  "page_at H m page = mem_read m page (psz H)"

lemma block_in_page:
  assumes "flash_config H" and "i \<le> bnum H"
  shows "block_at H m page i = take (bsz H) (drop (i * bsz H) (page_at H m page))"
  unfolding block_at_def page_at_def by (rule mem_read_part [OF block_offset [OF assms]])

lemma block_in_empty_page:
  assumes "flash_config H" and "i \<le> bnum H" and "page_at H m page = replicate (psz H) e"
  shows "block_at H m page i = replicate (bsz H) e"
  using block_offset [OF assms(1,2)] by (simp add: block_in_page [OF assms(1,2)] assms(3))

lemma page_erase_same:
  assumes "flash_config H"
  shows "page_at H (mem_write page (replicate (psz H) e) m) page = replicate (psz H) e"
proof -
  have "psz H < 2 ^ LENGTH(32)" by (rule unsigned_less)
  then show ?thesis
    unfolding page_at_def using mem_read_write_same [of "replicate (psz H) e" page m] by simp
qed

lemma page_write_apart:
  assumes "flash_config H" and "is_page H page" and "is_page H page'" and "page \<noteq> page'"
    and "length bs \<le> psz H" and "k + length bs \<le> psz H" and "bs \<noteq> []"
  shows "page_at H (mem_write (page + of_nat k) bs m) page' = page_at H m page'"
proof -
  have "unat (page + of_nat k) = unat page + k"
    using unat_run [OF page_run [OF assms(1,2)], of k] assms(6,7) by (cases bs) auto
  moreover have "runs_apart page (psz H) page' (psz H)"
    using assms(2-4) flash_configD(8) [OF assms(1)] by (auto simp: is_page_def runs_apart_def)
  ultimately show ?thesis
    unfolding page_at_def using assms(6) page_run [OF assms(1,2)] page_run [OF assms(1,3)]
    by (intro mem_read_write_apart) (auto simp: run_ok_def runs_apart_def)
qed

lemma pages_differ: "flash_config H \<Longrightarrow> page0_address H \<noteq> page1_address H"
  using flash_configD(2,8,9) [of H] by (auto simp: runs_apart_def)

lemma word_of_block:
  assumes "flash_config H"
  shows "mem_word m (page + of_nat (i * bsz H)) = le_word (take 4 (block_at H m page i))"
  unfolding block_at_def using flash_configD(2) [OF assms] by (intro mem_word_start) simp

lemma word_of_page:
  assumes "flash_config H"
  shows "mem_word m page = le_word (take 4 (block_at H m page 0))"
  using word_of_block [OF assms, of m page 0] by simp

section \<open>Blocks\<close>

definition block_body :: "FlashInfo_t \<Rightarrow> u8 list \<Rightarrow> u8 list" where
  "block_body H data = word_bytes BLOCK_VALID @ word_bytes (CALC_BUFFER_SIZE (block_size H))
     @ data @ replicate (capacity H - length data) 0"

definition crc_bytes :: "u16 \<Rightarrow> u8 list" where
  "crc_bytes crc = [ucast (drop_bit 8 crc), ucast (crc AND 0xff)]"

text \<open>A block that a read accepts, and the data in it.\<close>

definition good_block :: "FlashInfo_t \<Rightarrow> u8 list \<Rightarrow> bool" where
  "good_block H b \<longleftrightarrow> length b = bsz H
     \<and> le_word (take 4 b) = BLOCK_VALID
     \<and> le_word (take 4 (drop 4 b)) = CALC_BUFFER_SIZE (block_size H)
     \<and> drop (bsz H - 2) b = crc_bytes (flash_calc_crc16 (take (bsz H - 2) b))"

definition payload :: "FlashInfo_t \<Rightarrow> u8 list \<Rightarrow> u8 list" where
  "payload H b = take (capacity H) (drop 8 b)"

definition padded :: "FlashInfo_t \<Rightarrow> u8 list \<Rightarrow> u8 list" where
  "padded H data = data @ replicate (capacity H - length data) 0"

lemma length_block_body:
  "flash_config H \<Longrightarrow> length data \<le> capacity H \<Longrightarrow> length (block_body H data) = bsz H - 2"
  using flash_configD(2) [of H] by (simp add: block_body_def capacity_def)

lemma length_crc_bytes [simp]: "length (crc_bytes crc) = 2"
  by (simp add: crc_bytes_def)

lemma size_minus_2:
  assumes "flash_config H"
  shows "unat (ucast (block_size H - 2) :: u16) = bsz H - 2"
proof -
  have "unat (block_size H - 2) = bsz H - 2"
    using flash_configD(2) [OF assms] by (simp add: unat_sub_if')
  moreover have "take_bit 16 (bsz H - 2) = bsz H - 2"
    using flash_configD(3) [OF assms] by (intro take_bit_nat_eq_self) simp
  ultimately show ?thesis by (simp add: unsigned_ucast_eq)
qed

lemma block_image:
  assumes "flash_config H" and "length buf = 1028" and "length data \<le> capacity H"
  shows "\<exists>rest. length rest = 1028 - bsz H \<and> flash_block_image H data buf
      = block_body H data @ crc_bytes (flash_calc_crc16 (block_body H data)) @ rest"
proof -
  let ?n = "length data"
  let ?z = "\<lambda>n. replicate n (0 :: u8)"
  let ?a = "word_bytes BLOCK_VALID" and ?b = "word_bytes (CALC_BUFFER_SIZE (block_size H))"
  note c = flash_configD(2,3) [OF assms(1)]
  have pad: "1016 - ?n = (capacity H - ?n) + (1016 - capacity H)"
    using assms(3) c by (simp add: capacity_def)
  have 0: "poke 0 (?z 1024) buf = ?z 1024 @ drop 1024 buf" by (simp add: poke_def)
  have 1: "poke 0 ?a (?z 1024 @ drop 1024 buf) = ?a @ ?z 1020 @ drop 1024 buf"
    by (simp add: poke_def)
  have 2: "poke 4 ?b (?a @ ?z 1020 @ drop 1024 buf) = ?a @ ?b @ ?z 1016 @ drop 1024 buf"
    by (simp add: poke_append)
  have 3: "poke 8 data (?a @ ?b @ ?z 1016 @ drop 1024 buf)
      = block_body H data @ ?z (1016 - capacity H) @ drop 1024 buf"
  proof -
    have "drop ?n (?z 1016 @ drop 1024 buf) = ?z (1016 - ?n) @ drop 1024 buf"
      using assms(3) c by (simp add: capacity_def)
    then show ?thesis
      using poke_append [of "?a @ ?b" 8 data "?z 1016 @ drop 1024 buf"]
      by (simp add: block_body_def pad replicate_add)
  qed
  have l: "length (block_body H data) = bsz H - 2" by (rule length_block_body [OF assms(1,3)])
  have image: "flash_block_image H data buf = poke (bsz H - 2)
      (crc_bytes (flash_calc_crc16 (block_body H data))) (block_body H data @ ?z (1016 - capacity H) @ drop 1024 buf)"
    unfolding flash_block_image_def Let_def MAX_BLOCK_SIZE_def crc_bytes_def
    using l size_minus_2 [OF assms(1)] by (simp only: unat_numeral 0 1 2 3) (simp add: 0 1 2 3)
  have "flash_block_image H data buf = block_body H data @ crc_bytes (flash_calc_crc16 (block_body H data))
      @ drop 2 (?z (1016 - capacity H) @ drop 1024 buf)"
    unfolding image by (simp only: poke_append [OF l] length_crc_bytes)
  moreover have "length (drop 2 (?z (1016 - capacity H) @ drop 1024 buf)) = 1028 - bsz H"
    using assms(2) c by (simp add: capacity_def)
  ultimately show ?thesis by blast
qed

lemma block_image_good:
  assumes "flash_config H" and "length buf = 1028" and "length data \<le> capacity H"
  shows "length (flash_block_image H data buf) = 1028"
    and "good_block H (take (bsz H) (flash_block_image H data buf))"
    and "payload H (take (bsz H) (flash_block_image H data buf)) = padded H data"
proof -
  note c = flash_configD(2,3) [OF assms(1)]
  note l = length_block_body [OF assms(1,3)]
  obtain rest where r: "length rest = 1028 - bsz H" "flash_block_image H data buf
      = block_body H data @ crc_bytes (flash_calc_crc16 (block_body H data)) @ rest"
    using block_image [OF assms] by blast
  have t: "take (bsz H) (flash_block_image H data buf)
      = block_body H data @ crc_bytes (flash_calc_crc16 (block_body H data))"
    using l c by (simp add: r(2))
  show "length (flash_block_image H data buf) = 1028" using l c r by simp
  have w: "take 4 (block_body H data) = word_bytes BLOCK_VALID"
    "take 4 (drop 4 (block_body H data)) = word_bytes (CALC_BUFFER_SIZE (block_size H))"
    by (simp_all add: block_body_def)
  have p: "drop 8 (block_body H data) = padded H data" by (simp add: block_body_def padded_def)
  show "good_block H (take (bsz H) (flash_block_image H data buf))"
    unfolding t good_block_def using l c w by simp
  have "length (padded H data) = capacity H" using assms(3) by (simp add: padded_def)
  then show "payload H (take (bsz H) (flash_block_image H data buf)) = padded H data"
    unfolding t payload_def using l c p by (simp add: capacity_def)
qed

lemma page_header:
  assumes "length buf = 1028"
  shows "length (flash_page_header H page buf) = 1028"
    and "take 4 (flash_page_header H page buf) = word_bytes PAGE_VALID"
proof -
  let ?h = "poke 0 (word_bytes PAGE_VALID) (poke 0 (replicate (unat MAX_BLOCK_SIZE) 0) buf)"
  have m: "unat MAX_BLOCK_SIZE = 1024" by (simp add: MAX_BLOCK_SIZE_def)
  have l: "length ?h = 1028" using assms by (simp add: m)
  have t: "take 4 ?h = word_bytes PAGE_VALID" by (simp add: poke_def)
  have h: "length (half_bytes v) = 2" for v by (simp add: half_bytes_def)
  show "length (flash_page_header H page buf) = 1028"
    by (simp add: flash_page_header_def Let_def l h)
  show "take 4 (flash_page_header H page buf) = word_bytes PAGE_VALID"
    by (simp add: flash_page_header_def Let_def l h t take_poke_before)
qed

section \<open>The store\<close>

text \<open>
  A closed page is not in use; if its header is erased the whole page is. An open page holds a
  non-empty list of good blocks, and the blocks after them are erased.
\<close>

definition closed_page :: "FlashInfo_t \<Rightarrow> memory \<Rightarrow> u32 \<Rightarrow> bool" where
  "closed_page H m page \<longleftrightarrow> mem_word m page \<noteq> PAGE_VALID
     \<and> (mem_word m page = PAGE_ERASED \<longrightarrow> page_at H m page = replicate (psz H) 0)"

definition open_page :: "FlashInfo_t \<Rightarrow> memory \<Rightarrow> u32 \<Rightarrow> u8 list list \<Rightarrow> bool" where
  "open_page H m page bs \<longleftrightarrow> mem_word m page = PAGE_VALID \<and> bs \<noteq> [] \<and> length bs \<le> bnum H
     \<and> (\<forall>i < length bs. block_at H m page (Suc i) = bs ! i \<and> good_block H (bs ! i))
     \<and> (\<forall>i < bnum H. length bs \<le> i \<longrightarrow> block_at H m page (Suc i) = replicate (bsz H) 0)"

text \<open>The abstract store: a register that is empty or holds the data written last.\<close>

definition store :: "FlashInfo_t \<Rightarrow> memory \<Rightarrow> u8 list option \<Rightarrow> bool" where
  "store H m v \<longleftrightarrow>
     v = None \<and> closed_page H m (page0_address H) \<and> closed_page H m (page1_address H)
   \<or> (\<exists>bs. v = Some (payload H (last bs)) \<and>
        (open_page H m (page0_address H) bs \<and> closed_page H m (page1_address H)
       \<or> closed_page H m (page0_address H) \<and> open_page H m (page1_address H) bs))"

lemma block_word:
  assumes "flash_config H"
  shows "open_page H m page bs \<Longrightarrow> i < length bs \<Longrightarrow>
       mem_word m (page + of_nat (Suc i * bsz H)) = BLOCK_VALID"
    and "open_page H m page bs \<Longrightarrow> length bs \<le> i \<Longrightarrow> i < bnum H \<Longrightarrow>
       mem_word m (page + of_nat (Suc i * bsz H)) = 0"
  using flash_configD(2) [OF assms]
  by (simp_all only: word_of_block [OF assms]) (auto simp: open_page_def good_block_def)

lemma find_upt_Some: "k < n \<Longrightarrow> P k \<Longrightarrow> (\<And>j. j < k \<Longrightarrow> \<not> P j) \<Longrightarrow> find P [0..<n] = Some k"
  by (auto simp: find_Some_iff)

lemma find_upt_None: "(\<And>j. j < n \<Longrightarrow> \<not> P j) \<Longrightarrow> find P [0..<n] = None"
  by (auto simp: find_None_iff)

lemma counters:
  assumes "flash_config H"
  shows "unat (ucast (block_num H) :: u16) = bnum H" and "unat (ucast (block_size H) :: u16) = bsz H"
proof -
  have "take_bit 16 (bnum H) = bnum H" "take_bit 16 (bsz H) = bsz H"
    using flash_configD(3,4) [OF assms] by (simp_all add: take_bit_nat_eq_self)
  then show "unat (ucast (block_num H) :: u16) = bnum H" "unat (ucast (block_size H) :: u16) = bsz H"
    by (simp_all add: unsigned_ucast_eq)
qed

text \<open>The search for a free block in the open page, and for the newest one.\<close>

lemma search_free:
  assumes "flash_config H" and "open_page H m page bs"
  shows "find (\<lambda>i. mem_word m (page + of_nat ((i + 1) * bsz H)) = PAGE_ERASED) [0..<bnum H]
       = (if length bs < bnum H then Some (length bs) else None)"
proof (cases "length bs < bnum H")
  case True
  have "find (\<lambda>i. mem_word m (page + of_nat ((i + 1) * bsz H)) = PAGE_ERASED) [0..<bnum H] = Some (length bs)"
    using block_word [OF assms(1,2)] True
    by (intro find_upt_Some) (simp_all only: Suc_eq_plus1 [symmetric], simp_all add: PAGE_ERASED_def BLOCK_VALID_def)
  then show ?thesis using True by simp
next
  case False
  have "find (\<lambda>i. mem_word m (page + of_nat ((i + 1) * bsz H)) = PAGE_ERASED) [0..<bnum H] = None"
    using block_word [OF assms(1,2)] False
    by (intro find_upt_None) (simp_all only: Suc_eq_plus1 [symmetric], simp_all add: PAGE_ERASED_def BLOCK_VALID_def)
  then show ?thesis using False by simp
qed

lemma search_newest:
  assumes "flash_config H" and "open_page H m page bs"
  shows "find (\<lambda>i. mem_word m (page + of_nat ((bnum H - i) * bsz H)) = BLOCK_VALID) [0..<bnum H]
       = Some (bnum H - length bs)"
proof (rule find_upt_Some)
  note o = assms(2) [unfolded open_page_def]
  show "bnum H - length bs < bnum H" using o by (cases bs) auto
  have "bnum H - (bnum H - length bs) = Suc (length bs - 1)" using o by (cases bs) auto
  then show "mem_word m (page + of_nat ((bnum H - (bnum H - length bs)) * bsz H)) = BLOCK_VALID"
    using block_word(1) [OF assms, of "length bs - 1"] o by (simp only: diff_less length_greater_0_conv zero_less_one)
  fix j assume j: "j < bnum H - length bs"
  then have e: "bnum H - j = Suc (bnum H - j - 1)" by simp
  have "mem_word m (page + of_nat (Suc (bnum H - j - 1) * bsz H)) = 0"
    using block_word(2) [OF assms, of "bnum H - j - 1"] j by linarith
  then show "mem_word m (page + of_nat ((bnum H - j) * bsz H)) \<noteq> BLOCK_VALID"
    unfolding e [symmetric] by (simp add: BLOCK_VALID_def)
qed

lemma find_block_closed:
  "closed_page H m (page0_address H) \<Longrightarrow> closed_page H m (page1_address H) \<Longrightarrow>
   flash_find_block H operation m = (FLASH_SEARCH_PAGE_EMPTY, 0)"
  by (simp add: flash_find_block_def closed_page_def)

lemma find_block_open:
  assumes "flash_config H" and "is_page H page" and "is_page H other" and "page \<noteq> other"
    and "open_page H m page bs" and "closed_page H m other"
  shows "flash_find_block H FLASH_OP_ACTION_READ m = (FLASH_SEARCH_OK, page + of_nat (length bs * bsz H))"
    and "flash_find_block H FLASH_OP_ACTION_WRITE m =
      (if length bs < bnum H then (FLASH_SEARCH_OK, page + of_nat (Suc (length bs) * bsz H))
       else if page = page0_address H then (FLASH_SEARCH_BLOCK_WRITE_FULL_0, 0)
       else (FLASH_SEARCH_BLOCK_WRITE_FULL_1, 0))"
proof -
  have v: "(if mem_word m (page0_address H) = PAGE_VALID then page0_address H else page1_address H) = page"
    "\<not> (mem_word m (page0_address H) = PAGE_VALID \<and> mem_word m (page1_address H) = PAGE_VALID)"
    "\<not> (mem_word m (page0_address H) \<noteq> PAGE_VALID \<and> mem_word m (page1_address H) \<noteq> PAGE_VALID)"
    using assms(2-6) by (auto simp: is_page_def open_page_def closed_page_def)
  note c = counters [OF assms(1)]
  have l: "bnum H - (bnum H - length bs) = length bs" using assms(5) by (simp add: open_page_def)
  show "flash_find_block H FLASH_OP_ACTION_READ m = (FLASH_SEARCH_OK, page + of_nat (length bs * bsz H))"
    unfolding flash_find_block_def Let_def c if_not_P [OF v(2)] if_not_P [OF v(3)] v(1)
    by (simp only: PageOperationAction_t.case search_newest [OF assms(1,5)] option.case l)
  have "page = page0_address H \<or> page = page1_address H" using assms(2) by (simp add: is_page_def)
  then show "flash_find_block H FLASH_OP_ACTION_WRITE m =
      (if length bs < bnum H then (FLASH_SEARCH_OK, page + of_nat (Suc (length bs) * bsz H))
       else if page = page0_address H then (FLASH_SEARCH_BLOCK_WRITE_FULL_0, 0)
       else (FLASH_SEARCH_BLOCK_WRITE_FULL_1, 0))"
    unfolding flash_find_block_def Let_def c if_not_P [OF v(2)] if_not_P [OF v(3)] v(1)
    by (simp only: PageOperationAction_t.case search_free [OF assms(1,5)] Suc_eq_plus1) auto
qed

text \<open>What writing a block and erasing a page do to the pages.\<close>

lemma append_block:
  assumes "flash_config H" and "is_page H page" and "open_page H m page bs" and "length bs < bnum H"
    and "good_block H b"
  shows "open_page H (mem_write (page + of_nat (Suc (length bs) * bsz H)) b m) page (bs @ [b])"
proof -
  let ?k = "Suc (length bs)"
  let ?m = "mem_write (page + of_nat (?k * bsz H)) b m"
  have b: "length b = bsz H" using assms(5) by (simp add: good_block_def)
  have k: "?k \<le> bnum H" using assms(4) by simp
  have same: "block_at H ?m page ?k = b" by (rule block_write_same [OF assms(1) b])
  have apart: "\<And>j. j \<le> bnum H \<Longrightarrow> j \<noteq> ?k \<Longrightarrow> block_at H ?m page j = block_at H m page j"
    using block_write_apart [OF assms(1,2) k b assms(2)] by blast
  have "mem_word ?m page = PAGE_VALID"
    using assms(3) apart [of 0] by (simp add: word_of_page [OF assms(1)] open_page_def)
  moreover have "block_at H ?m page (Suc i) = (bs @ [b]) ! i \<and> good_block H ((bs @ [b]) ! i)"
    if "i < length (bs @ [b])" for i
    using that assms(3,4,5) same apart [of "Suc i"]
    by (cases "i = length bs") (auto simp: open_page_def nth_append)
  moreover have "block_at H ?m page (Suc i) = replicate (bsz H) 0" if "i < bnum H" "length (bs @ [b]) \<le> i" for i
    using that assms(3) apart [of "Suc i"] by (simp add: open_page_def)
  ultimately show ?thesis using k unfolding open_page_def by auto
qed

lemma new_page_blocks:
  assumes "flash_config H" and "is_page H page" and "page_at H m page = replicate (psz H) e"
    and "length h = bsz H" and "take 4 h = word_bytes PAGE_VALID" and "length b = bsz H"
  shows "block_at H (mem_write page h m) page 1 = replicate (bsz H) e"
    and "mem_word (mem_write (page + of_nat (bsz H)) b (mem_write page h m)) page = PAGE_VALID"
    and "block_at H (mem_write (page + of_nat (bsz H)) b (mem_write page h m)) page 1 = b"
    and "1 < j \<Longrightarrow> j \<le> bnum H \<Longrightarrow>
      block_at H (mem_write (page + of_nat (bsz H)) b (mem_write page h m)) page j = replicate (bsz H) e"
proof -
  let ?mh = "mem_write page h m"
  let ?m = "mem_write (page + of_nat (bsz H)) b ?mh"
  note n = flash_configD(5) [OF assms(1)]
  have h0: "block_at H ?mh page 0 = h" using block_write_same [OF assms(1,4), of page 0 m] by simp
  have h: "\<And>j. j \<le> bnum H \<Longrightarrow> j \<noteq> 0 \<Longrightarrow> block_at H ?mh page j = block_at H m page j"
    using block_write_apart [OF assms(1,2) _ assms(4,2), of 0] by simp
  have z: "\<And>j. j \<le> bnum H \<Longrightarrow> j \<noteq> 0 \<Longrightarrow> block_at H ?mh page j = replicate (bsz H) e"
    using h block_in_empty_page [OF assms(1) _ assms(3)] by simp
  then show "block_at H ?mh page 1 = replicate (bsz H) e" using n by simp
  show "block_at H ?m page 1 = b" using block_write_same [OF assms(1,6), of page 1 ?mh] by simp
  have apart: "\<And>j. j \<le> bnum H \<Longrightarrow> j \<noteq> 1 \<Longrightarrow> block_at H ?m page j = block_at H ?mh page j"
    using block_write_apart [OF assms(1,2) n assms(6,2)] by simp
  have "block_at H ?m page 0 = block_at H ?mh page 0" by (rule apart) simp_all
  then show "mem_word ?m page = PAGE_VALID"
    by (simp only: word_of_page [OF assms(1)] h0 assms(5) le_word_bytes)
  show "1 < j \<Longrightarrow> j \<le> bnum H \<Longrightarrow> block_at H ?m page j = replicate (bsz H) e" using apart z by simp
qed

lemma first_block:
  assumes "flash_config H" and "is_page H page" and "page_at H m page = replicate (psz H) 0"
    and "length h = bsz H" and "take 4 h = word_bytes PAGE_VALID" and "good_block H b"
  shows "open_page H (mem_write (page + of_nat (bsz H)) b (mem_write page h m)) page [b]"
    and "block_at H (mem_write page h m) page 1 = replicate (bsz H) 0"
  using new_page_blocks [OF assms(1-5)] assms(6) flash_configD(5) [OF assms(1)]
  by (auto simp: open_page_def good_block_def)

lemma closed_write_apart:
  assumes "flash_config H" and "is_page H page" and "i \<le> bnum H" and "length bs = bsz H"
    and "is_page H other" and "page \<noteq> other" and "closed_page H m other"
  shows "closed_page H (mem_write (page + of_nat (i * bsz H)) bs m) other"
proof -
  have "block_at H (mem_write (page + of_nat (i * bsz H)) bs m) other 0 = block_at H m other 0"
    using block_write_apart [OF assms(1-5)] assms(6) by blast
  moreover have "page_at H (mem_write (page + of_nat (i * bsz H)) bs m) other = page_at H m other"
    using block_offset [OF assms(1,3)] assms(4) flash_configD(2) [OF assms(1)]
    by (intro page_write_apart [OF assms(1,2,5,6)]) auto
  ultimately show ?thesis using assms(7) by (simp add: closed_page_def word_of_page [OF assms(1)])
qed

lemma erased_closed:
  assumes "flash_config H" and "page_at H m page = replicate (psz H) 0"
  shows "closed_page H m page"
proof -
  have "block_at H m page 0 = replicate (bsz H) 0" by (rule block_in_empty_page [OF assms(1) _ assms(2)]) simp
  then have "mem_word m page = 0"
    using flash_configD(2) [OF assms(1)] by (simp add: word_of_page [OF assms(1)])
  then show ?thesis using assms(2) by (simp add: closed_page_def PAGE_VALID_def)
qed

lemma erase_apart:
  assumes "flash_config H" and "is_page H page" and "is_page H other" and "page \<noteq> other"
  shows "page_at H (mem_write page (replicate (psz H) e) m) other = page_at H m other"
    and "j \<le> bnum H \<Longrightarrow> block_at H (mem_write page (replicate (psz H) e) m) other j = block_at H m other j"
    and "closed_page H m other \<Longrightarrow> closed_page H (mem_write page (replicate (psz H) e) m) other"
    and "open_page H m other bs \<Longrightarrow> open_page H (mem_write page (replicate (psz H) e) m) other bs"
proof -
  have "psz H \<noteq> 0" using flash_configD(2,9) [OF assms(1)] by auto
  then have p: "page_at H (mem_write page (replicate (psz H) e) m) other = page_at H m other"
    using page_write_apart [OF assms, of "replicate (psz H) e" 0 m] by simp
  then have b: "\<And>j. j \<le> bnum H \<Longrightarrow> block_at H (mem_write page (replicate (psz H) e) m) other j = block_at H m other j"
    by (simp add: block_in_page [OF assms(1)])
  show "page_at H (mem_write page (replicate (psz H) e) m) other = page_at H m other" by (rule p)
  show "j \<le> bnum H \<Longrightarrow> block_at H (mem_write page (replicate (psz H) e) m) other j = block_at H m other j" by (rule b)
  show "closed_page H m other \<Longrightarrow> closed_page H (mem_write page (replicate (psz H) e) m) other"
    by (simp add: closed_page_def word_of_page [OF assms(1)] p b)
  show "open_page H m other bs \<Longrightarrow> open_page H (mem_write page (replicate (psz H) e) m) other bs"
    by (simp add: open_page_def word_of_page [OF assms(1)] b)
qed

text \<open>Memory outside the two pages.\<close>

definition outside :: "FlashInfo_t \<Rightarrow> u32 \<Rightarrow> bool" where
  "outside H x \<longleftrightarrow> \<not> unat (x - page0_address H) < psz H \<and> \<not> unat (x - page1_address H) < psz H"

definition same_outside :: "FlashInfo_t \<Rightarrow> memory \<Rightarrow> memory \<Rightarrow> bool" where
  "same_outside H m m' \<longleftrightarrow> (\<forall>x. outside H x \<longrightarrow> m' x = m x)"

lemma same_outside_refl [simp]: "same_outside H m m"
  by (simp add: same_outside_def)

lemma same_outside_trans: "same_outside H m m' \<Longrightarrow> same_outside H m' m'' \<Longrightarrow> same_outside H m m''"
  by (simp add: same_outside_def)

lemma write_outside:
  assumes "flash_config H" and "is_page H page" and "k + length bs \<le> psz H"
  shows "same_outside H m (mem_write (page + of_nat k) bs m)"
proof -
  have "\<not> unat (x - (page + of_nat k)) < length bs" if x: "\<not> unat (x - page) < psz H" for x
  proof
    assume a: "unat (x - (page + of_nat k)) < length bs"
    define d where "d = x - (page + of_nat k)"
    have "psz H < 2 ^ LENGTH(32)" by (rule unsigned_less)
    then have k: "unat (of_nat k :: u32) = k" using assms(3) a by (simp add: unat_of_nat)
    have "x - page = d + of_nat k" by (simp add: d_def algebra_simps)
    moreover have "unat (d + of_nat k) = unat d + k"
      using a assms(3) k \<open>psz H < 2 ^ LENGTH(32)\<close> by (simp add: d_def [symmetric] unat_word_ariths)
    ultimately have "unat (x - page) < psz H" using a assms(3) by (simp add: d_def [symmetric])
    with x show False ..
  qed
  then show ?thesis
    using assms(2) by (auto simp: same_outside_def outside_def is_page_def mem_write_def)
qed

text \<open>The page a write starts, and the memory after the erasures that precede its header.\<close>

definition new_page :: "flash_dev \<Rightarrow> FlashInfo_t \<Rightarrow> FlashSearchStatus_t \<Rightarrow> memory \<Rightarrow> memory \<times> u32" where
  "new_page dev H status m =
     (if status = FLASH_SEARCH_PAGE_EMPTY \<or> status = FLASH_SEARCH_PAGE_MULTI_INVALID then
        (flash_ensure_empty dev H (page1_address H) (flash_ensure_empty dev H (page0_address H) m),
         page0_address H)
      else if status = FLASH_SEARCH_BLOCK_WRITE_FULL_0 then
        (flash_ensure_empty dev H (page1_address H) m, page1_address H)
      else if status = FLASH_SEARCH_BLOCK_WRITE_FULL_1 then
        (flash_ensure_empty dev H (page0_address H) m, page0_address H)
      else (m, 0))"

text \<open>The page a write erases at the end.\<close>

definition old_page :: "FlashInfo_t \<Rightarrow> FlashSearchStatus_t \<Rightarrow> u32 option" where
  "old_page H status =
     (if status = FLASH_SEARCH_BLOCK_WRITE_FULL_0 then Some (page0_address H)
      else if status = FLASH_SEARCH_BLOCK_WRITE_FULL_1 then Some (page1_address H) else None)"

text \<open>
  The two halves of a write, for any device that writes at the addresses used and whose erased cells
  hold \<open>e\<close>.
\<close>

lemma put_block_any:
  assumes "flash_config H" and "length (block_buffer w) = 1028" and "length data \<le> capacity H"
    and "write": "\<And>buf. length buf = 1028 \<Longrightarrow>
      dev_write dev addr buf (block_size H div 4) (fmem w) = (pdPASS, mem_write addr (take (bsz H) buf) (fmem w))"
    and erase: "\<And>q m. old_page H status = Some q \<Longrightarrow>
      snd (dev_empty dev q (page_size H) m) = mem_write q (replicate (psz H) e) m"
  shows "\<exists>b buf. good_block H b \<and> payload H b = padded H data \<and> length buf = 1028 \<and>
    flash_put_block dev H status addr data w = (FLASH_OP_SUCCESS, w\<lparr>block_buffer := buf, fmem :=
        (let m = mem_write addr b (fmem w)
         in case old_page H status of None \<Rightarrow> m | Some q \<Rightarrow> mem_write q (replicate (psz H) e) m)\<rparr>)"
proof -
  define buf where "buf = flash_block_image H data (block_buffer w)"
  define b where "b = take (bsz H) buf"
  note im = block_image_good [OF assms(1-3), folded buf_def, folded b_def]
  have l: "length b = bsz H" using im(2) by (simp add: good_block_def)
  have wr: "dev_write dev addr buf (block_size H div 4) (fmem w) = (pdPASS, mem_write addr b (fmem w))"
    using "write" [OF im(1)] by (simp add: b_def)
  have rd: "mem_read (mem_write addr b (fmem w)) addr (bsz H) = b"
    using mem_read_write_same [of b addr "fmem w"] l flash_configD(3) [OF assms(1)] by simp
  have "flash_put_block dev H status addr data w = (FLASH_OP_SUCCESS, w\<lparr>block_buffer := buf, fmem :=
        (let m = mem_write addr b (fmem w)
         in case old_page H status of None \<Rightarrow> m | Some q \<Rightarrow> mem_write q (replicate (psz H) e) m)\<rparr>)"
    unfolding flash_put_block_def Let_def buf_def [symmetric] wr prod.case
    using erase by (simp add: rd b_def [symmetric] old_page_def split: if_splits)
  then show ?thesis using im by blast
qed

lemma open_page_any:
  assumes "flash_config H" and "new_page dev H status (fmem w) = (m, page)"
    and "length (block_buffer w) = 1028"
    and "write": "\<And>buf. length buf = 1028 \<Longrightarrow>
      dev_write dev page buf (block_size H div 4) m = (pdPASS, mem_write page (take (bsz H) buf) m)"
  shows "\<exists>h buf. length h = bsz H \<and> take 4 h = word_bytes PAGE_VALID \<and> length buf = 1028
    \<and> flash_open_page dev H status w
      = Inr (page + block_size H, w\<lparr>fmem := mem_write page h m, block_buffer := buf\<rparr>)"
proof -
  define buf where "buf = flash_page_header H page (block_buffer w)"
  note ph = page_header [OF assms(3), of H page, folded buf_def]
  have "flash_open_page dev H status w
      = Inr (page + block_size H, w\<lparr>fmem := mem_write page (take (bsz H) buf) m, block_buffer := buf\<rparr>)"
    unfolding flash_open_page_def new_page_def [symmetric] assms(2) Let_def prod.case buf_def [symmetric]
      "write" [OF ph(1)] by simp
  then show ?thesis
    using ph flash_configD(2,3) [OF assms(1)] by (intro exI [of _ "take (bsz H) buf"] exI [of _ buf]) simp
qed

lemma write_opens:
  assumes "flash_config H" and "unat sz \<le> capacity H" and "unat sz \<le> length data"
    and "flash_find_block H FLASH_OP_ACTION_WRITE (fmem w) = (status, x)" and "status \<noteq> FLASH_SEARCH_OK"
    and "flash_open_page dev H status w = Inr (addr, w1)" and "length (block_buffer w1) = 1028"
  shows "flash_write dev (Some H) (Some data) sz w = Some (flash_put_block dev H status addr (take (unat sz) data) w1)"
  using assms flash_configD(3) [OF assms(1)] by (simp add: flash_write_def capacity_def)

context flash_device
begin

lemma erase_page:
  assumes "flash_config H" and "is_page H page"
  shows "dev_empty dev page (page_size H) m = (pdPASS, mem_write page (replicate (psz H) 0) m)"
  by (rule empties [OF page_run [OF assms]])

lemma write_block:
  assumes "flash_config H" and "is_page H page" and "i \<le> bnum H"
    and "block_at H m page i = replicate (bsz H) 0" and "length buf = 1028"
  shows "dev_write dev (page + of_nat (i * bsz H)) buf (block_size H div 4) m
       = (pdPASS, mem_write (page + of_nat (i * bsz H)) (take (bsz H) buf) m)"
proof -
  note w = flash_configD(10) [OF assms(1)]
  have "unat (block_size H div 4) \<le> 256" using w flash_configD(3) [OF assms(1)] by linarith
  then show ?thesis
    using write_erased [of "block_size H div 4" buf "page + of_nat (i * bsz H)" m]
      block_run [OF assms(1-3)] assms(4,5) flash_configD(3) [OF assms(1)]
    by (simp add: w block_at_def)
qed

lemma ensure_empty:
  assumes "flash_config H" and "is_page H page" and "closed_page H m page"
  shows "page_at H (flash_ensure_empty dev H page m) page = replicate (psz H) 0"
    and "is_page H other \<Longrightarrow> page \<noteq> other \<Longrightarrow> closed_page H m other \<Longrightarrow>
         closed_page H (flash_ensure_empty dev H page m) other"
    and "is_page H other \<Longrightarrow> page \<noteq> other \<Longrightarrow> open_page H m other bs \<Longrightarrow>
         open_page H (flash_ensure_empty dev H page m) other bs"
    and "is_page H other \<Longrightarrow> page \<noteq> other \<Longrightarrow>
         page_at H (flash_ensure_empty dev H page m) other = page_at H m other"
    and "same_outside H m (flash_ensure_empty dev H page m)"
proof -
  have e: "flash_ensure_empty dev H page m
      = (if mem_word m page \<noteq> PAGE_ERASED then mem_write page (replicate (psz H) 0) m else m)"
    by (simp add: flash_ensure_empty_def erase_page [OF assms(1,2)])
  show "page_at H (flash_ensure_empty dev H page m) page = replicate (psz H) 0"
    using assms(3) by (simp add: e page_erase_same [OF assms(1)] closed_page_def)
  show "is_page H other \<Longrightarrow> page \<noteq> other \<Longrightarrow> closed_page H m other \<Longrightarrow>
         closed_page H (flash_ensure_empty dev H page m) other"
    and "is_page H other \<Longrightarrow> page \<noteq> other \<Longrightarrow> open_page H m other bs \<Longrightarrow>
         open_page H (flash_ensure_empty dev H page m) other bs"
    and "is_page H other \<Longrightarrow> page \<noteq> other \<Longrightarrow>
         page_at H (flash_ensure_empty dev H page m) other = page_at H m other"
    by (simp_all add: e erase_apart [OF assms(1,2)])
  show "same_outside H m (flash_ensure_empty dev H page m)"
    using write_outside [OF assms(1,2), of 0 "replicate (psz H) 0" m] by (simp add: e)
qed

text \<open>The second half of a write, at an erased block of a page.\<close>

lemma put_block:
  assumes "flash_config H" and "is_page H page" and "i \<le> bnum H"
    and "block_at H (fmem w) page i = replicate (bsz H) 0" and "length (block_buffer w) = 1028"
    and "length data \<le> capacity H"
  shows "\<exists>b buf. good_block H b \<and> payload H b = padded H data \<and> length buf = 1028 \<and>
    flash_put_block dev H status (page + of_nat (i * bsz H)) data w = (FLASH_OP_SUCCESS,
      w\<lparr>block_buffer := buf, fmem :=
        (let m = mem_write (page + of_nat (i * bsz H)) b (fmem w)
         in case old_page H status of None \<Rightarrow> m | Some q \<Rightarrow> mem_write q (replicate (psz H) 0) m)\<rparr>)"
proof (rule put_block_any [OF assms(1,5,6) write_block [OF assms(1-4)]])
  fix q m assume "old_page H status = Some q"
  then have "is_page H q" by (auto simp: old_page_def is_page_def split: if_splits)
  then show "snd (dev_empty dev q (page_size H) m) = mem_write q (replicate (psz H) 0) m"
    by (simp add: erase_page [OF assms(1)])
qed

end

definition erase_old :: "FlashInfo_t \<Rightarrow> FlashSearchStatus_t \<Rightarrow> memory \<Rightarrow> memory" where
  "erase_old H status m =
     (case old_page H status of None \<Rightarrow> m | Some q \<Rightarrow> mem_write q (replicate (psz H) 0) m)"

context flash_device
begin

lemma open_page_result:
  assumes "flash_config H" and "is_page H page" and "new_page dev H status (fmem w) = (m, page)"
    and "page_at H m page = replicate (psz H) 0" and "length (block_buffer w) = 1028"
  shows "\<exists>h buf. length h = bsz H \<and> take 4 h = word_bytes PAGE_VALID \<and> length buf = 1028
    \<and> flash_open_page dev H status w
      = Inr (page + block_size H, w\<lparr>fmem := mem_write page h m, block_buffer := buf\<rparr>)"
proof (rule open_page_any [OF assms(1,3,5)])
  have "block_at H m page 0 = replicate (bsz H) 0" by (rule block_in_empty_page [OF assms(1) _ assms(4)]) simp
  then show "dev_write dev page buf (block_size H div 4) m = (pdPASS, mem_write page (take (bsz H) buf) m)"
    if "length buf = 1028" for buf
    using write_block [OF assms(1,2) _ _ that, of 0] by simp
qed

text \<open>A write that starts a page.\<close>

lemma write_new_page:
  assumes "flash_config H" and "is_page H page" and "status \<noteq> FLASH_SEARCH_OK"
    and find: "flash_find_block H FLASH_OP_ACTION_WRITE (fmem w) = (status, x)"
    and new: "new_page dev H status (fmem w) = (m, page)"
    and empty: "page_at H m page = replicate (psz H) 0" and buffer: "length (block_buffer w) = 1028"
    and sz: "unat sz \<le> capacity H" "unat sz \<le> length data"
  shows "\<exists>h b buf. length h = bsz H \<and> good_block H b \<and> length buf = 1028
    \<and> payload H b = padded H (take (unat sz) data)
    \<and> open_page H (mem_write (page + of_nat (bsz H)) b (mem_write page h m)) page [b]
    \<and> flash_write dev (Some H) (Some data) sz w = Some (FLASH_OP_SUCCESS, w\<lparr>block_buffer := buf,
        fmem := erase_old H status (mem_write (page + of_nat (bsz H)) b (mem_write page h m))\<rparr>)"
proof -
  obtain h buf0 where h: "length h = bsz H" "take 4 h = word_bytes PAGE_VALID" "length buf0 = 1028"
    and opened: "flash_open_page dev H status w
      = Inr (page + block_size H, w\<lparr>fmem := mem_write page h m, block_buffer := buf0\<rparr>)"
    using open_page_result [OF assms(1,2) new empty buffer] by blast
  define w1 where "w1 = w\<lparr>fmem := mem_write page h m, block_buffer := buf0\<rparr>"
  have w1: "fmem w1 = mem_write page h m" "length (block_buffer w1) = 1028" by (simp_all add: w1_def h)
  have n: "1 \<le> bnum H" by (rule flash_configD(5) [OF assms(1)])
  have d: "length (take (unat sz) data) \<le> capacity H" using sz by simp
  let ?none = "replicate (bsz H - 10) (0 :: u8)"
  have z: "block_at H (fmem w1) page 1 = replicate (bsz H) 0"
    using first_block(2) [OF assms(1,2) empty h(1,2) block_image_good(2) [OF assms(1) h(3)], of ?none]
    by (simp add: w1 capacity_def)
  obtain b buf where b: "good_block H b" "payload H b = padded H (take (unat sz) data)" "length buf = 1028"
    and put: "flash_put_block dev H status (page + of_nat (1 * bsz H)) (take (unat sz) data) w1
      = (FLASH_OP_SUCCESS, w1\<lparr>block_buffer := buf,
           fmem := erase_old H status (mem_write (page + of_nat (1 * bsz H)) b (fmem w1))\<rparr>)"
    using put_block [OF assms(1,2) n z w1(2) d] unfolding erase_old_def Let_def by blast
  have op: "open_page H (mem_write (page + of_nat (bsz H)) b (mem_write page h m)) page [b]"
    by (rule first_block(1) [OF assms(1,2) empty h(1,2) b(1)])
  have "flash_write dev (Some H) (Some data) sz w
      = Some (flash_put_block dev H status (page + block_size H) (take (unat sz) data) w1)"
    by (rule write_opens [OF assms(1) sz find assms(3) opened [folded w1_def] w1(2)])
  also have "\<dots> = Some (FLASH_OP_SUCCESS, w\<lparr>block_buffer := buf,
        fmem := erase_old H status (mem_write (page + of_nat (bsz H)) b (mem_write page h m))\<rparr>)"
    using put by (simp add: w1_def)
  finally show ?thesis using h b op by blast
qed

text \<open>A write into a free block of the open page.\<close>

lemma write_append:
  assumes "flash_config H" and "is_page H page" and "open_page H (fmem w) page bs" and "length bs < bnum H"
    and find: "flash_find_block H FLASH_OP_ACTION_WRITE (fmem w)
      = (FLASH_SEARCH_OK, page + of_nat (Suc (length bs) * bsz H))"
    and buffer: "length (block_buffer w) = 1028"
    and sz: "unat sz \<le> capacity H" "unat sz \<le> length data"
  shows "\<exists>b buf. good_block H b \<and> length buf = 1028 \<and> payload H b = padded H (take (unat sz) data)
    \<and> flash_write dev (Some H) (Some data) sz w = Some (FLASH_OP_SUCCESS, w\<lparr>block_buffer := buf,
        fmem := mem_write (page + of_nat (Suc (length bs) * bsz H)) b (fmem w)\<rparr>)"
proof -
  have d: "length (take (unat sz) data) \<le> capacity H" using sz by simp
  have cap: "capacity H \<le> 1014" using flash_configD(3) [OF assms(1)] by (simp add: capacity_def)
  have z: "block_at H (fmem w) page (Suc (length bs)) = replicate (bsz H) 0"
    using assms(3,4) by (simp add: open_page_def)
  have k: "Suc (length bs) \<le> bnum H" using assms(4) by simp
  obtain b buf where b: "good_block H b" "payload H b = padded H (take (unat sz) data)" "length buf = 1028"
    and put: "flash_put_block dev H FLASH_SEARCH_OK (page + of_nat (Suc (length bs) * bsz H)) (take (unat sz) data) w
      = (FLASH_OP_SUCCESS, w\<lparr>block_buffer := buf,
           fmem := mem_write (page + of_nat (Suc (length bs) * bsz H)) b (fmem w)\<rparr>)"
    using put_block [OF assms(1,2) k z buffer d, of FLASH_SEARCH_OK] by (auto simp: old_page_def simp del: mult_Suc of_nat_mult)
  have "flash_write dev (Some H) (Some data) sz w
      = Some (flash_put_block dev H FLASH_SEARCH_OK (page + of_nat (Suc (length bs) * bsz H)) (take (unat sz) data) w)"
    unfolding flash_write_def option.case prod.case find Let_def using sz cap buffer by simp
  then show ?thesis using b unfolding put by blast
qed

end

lemma closed_not_valid: "closed_page H m page \<Longrightarrow> mem_word m page \<noteq> PAGE_VALID"
  by (simp add: closed_page_def)

lemma open_close_old:
  assumes "flash_config H" and "is_page H page" and "is_page H other" and "page \<noteq> other"
    and "open_page H m page [b]" and "old = None \<and> closed_page H m other \<or> old = Some other"
  shows "open_page H (case old of None \<Rightarrow> m | Some q \<Rightarrow> mem_write q (replicate (psz H) 0) m) page [b]
       \<and> closed_page H (case old of None \<Rightarrow> m | Some q \<Rightarrow> mem_write q (replicate (psz H) 0) m) other"
  using assms(5,6) erase_apart(4) [OF assms(1,3,2)] assms(4)
    erased_closed [OF assms(1) page_erase_same [OF assms(1)]]
  by (cases old) auto

lemma storeI:
  assumes "is_page H page" and "is_page H other" and "page \<noteq> other"
    and "open_page H m page bs" and "closed_page H m other" and "v = Some (payload H (last bs))"
  shows "store H m v"
  using assms unfolding store_def is_page_def by blast

lemma storeE:
  assumes "store H m v" and "flash_config H"
  obtains (empty) "v = None" "closed_page H m (page0_address H)" "closed_page H m (page1_address H)"
  | (used) page other bs where "is_page H page" "is_page H other" "page \<noteq> other"
      "open_page H m page bs" "closed_page H m other" "v = Some (payload H (last bs))"
  using assms pages_differ [OF assms(2)] unfolding store_def is_page_def by metis

context flash_device
begin

text \<open>A write that starts a page keeps the store well formed and makes its data the value.\<close>

lemma write_new_store:
  assumes "flash_config H" and "is_page H page" and "is_page H other" and "page \<noteq> other"
    and "status \<noteq> FLASH_SEARCH_OK"
    and find: "flash_find_block H FLASH_OP_ACTION_WRITE (fmem w) = (status, x)"
    and new: "new_page dev H status (fmem w) = (m, page)"
    and empty: "page_at H m page = replicate (psz H) 0" and buffer: "length (block_buffer w) = 1028"
    and sz: "unat sz \<le> capacity H" "unat sz \<le> length data"
    and old: "old_page H status = None \<and> closed_page H m other \<or> old_page H status = Some other"
    and out: "same_outside H (fmem w) m"
  shows "\<exists>w'. flash_write dev (Some H) (Some data) sz w = Some (FLASH_OP_SUCCESS, w')
    \<and> store H (fmem w') (Some (padded H (take (unat sz) data))) \<and> length (block_buffer w') = 1028
    \<and> same_outside H (fmem w) (fmem w')"
proof -
  obtain h b buf where h: "length h = bsz H" "good_block H b" "length buf = 1028"
    "payload H b = padded H (take (unat sz) data)"
    and op: "open_page H (mem_write (page + of_nat (bsz H)) b (mem_write page h m)) page [b]"
    and wr: "flash_write dev (Some H) (Some data) sz w = Some (FLASH_OP_SUCCESS, w\<lparr>block_buffer := buf,
        fmem := erase_old H status (mem_write (page + of_nat (bsz H)) b (mem_write page h m))\<rparr>)"
    using write_new_page [OF assms(1,2,5) find new empty buffer sz] by blast
  let ?m = "mem_write (page + of_nat (bsz H)) b (mem_write page h m)"
  have b: "length b = bsz H" using h(2) by (simp add: good_block_def)
  note n = flash_configD(5) [OF assms(1)]
  have "closed_page H ?m other" if "closed_page H m other"
    using closed_write_apart [OF assms(1,2) n b assms(3,4), of "mem_write page h m"]
      closed_write_apart [OF assms(1,2) _ h(1) assms(3,4) that, of 0] by simp
  then have oc: "open_page H (erase_old H status ?m) page [b] \<and> closed_page H (erase_old H status ?m) other"
    unfolding erase_old_def using open_close_old [OF assms(1-4) op] old by blast
  have o: "2 * bsz H \<le> psz H" using assms(1) by (simp add: flash_config_def)
  have "same_outside H m ?m"
    using write_outside [OF assms(1,2), of 0 h m] write_outside [OF assms(1,2), of "bsz H" b "mem_write page h m"]
      o b h(1) by (auto intro: same_outside_trans)
  moreover have "same_outside H ?m (erase_old H status ?m)"
    using write_outside [OF assms(1,3), of 0 "replicate (psz H) 0" ?m] old
    by (auto simp: erase_old_def)
  ultimately have "same_outside H (fmem w) (erase_old H status ?m)"
    using out same_outside_trans by blast
  moreover have "store H (erase_old H status ?m) (Some (padded H (take (unat sz) data)))"
    using storeI [OF assms(2-4) conjunct1 [OF oc] conjunct2 [OF oc]] h(4) by simp
  ultimately show ?thesis using wr h(3) by auto
qed

lemma write_store:
  assumes "flash_config H" and "store H (fmem w) v" and "length (block_buffer w) = 1028"
    and "unat sz \<le> capacity H" and "unat sz \<le> length data"
  shows "\<exists>w'. flash_write dev (Some H) (Some data) sz w = Some (FLASH_OP_SUCCESS, w')
    \<and> store H (fmem w') (Some (padded H (take (unat sz) data))) \<and> length (block_buffer w') = 1028
    \<and> same_outside H (fmem w) (fmem w')"
  using assms(2,1)
proof (cases rule: storeE)
  case empty
  let ?a = "flash_ensure_empty dev H (page0_address H) (fmem w)"
  let ?m = "flash_ensure_empty dev H (page1_address H) ?a"
  have p: "is_page H (page0_address H)" "is_page H (page1_address H)" by (simp_all add: is_page_def)
  note d = pages_differ [OF assms(1)]
  note e0 = ensure_empty [OF assms(1) p(1) empty(2)]
  have c: "closed_page H ?a (page1_address H)" by (rule e0(2) [OF p(2) d empty(3)])
  note e1 = ensure_empty [OF assms(1) p(2) c]
  have z: "page_at H ?m (page0_address H) = replicate (psz H) 0" using e1(4) [OF p(1) d [symmetric]] e0(1) by simp
  have "new_page dev H FLASH_SEARCH_PAGE_EMPTY (fmem w) = (?m, page0_address H)" by (simp add: new_page_def)
  moreover have "closed_page H ?m (page1_address H)" by (rule erased_closed [OF assms(1) e1(1)])
  moreover have "same_outside H (fmem w) ?m" using e0(5) e1(5) same_outside_trans by blast
  ultimately show ?thesis
    using write_new_store [OF assms(1) p d _ find_block_closed [OF empty(2,3)] _ z assms(3-5)]
    by (simp add: old_page_def)
next
  case (used page other bs)
  note f = find_block_open(2) [OF assms(1) used(1-5)]
  show ?thesis
  proof (cases "length bs < bnum H")
    case True
    obtain b buf where b: "good_block H b" "length buf = 1028" "payload H b = padded H (take (unat sz) data)"
      and wr: "flash_write dev (Some H) (Some data) sz w = Some (FLASH_OP_SUCCESS, w\<lparr>block_buffer := buf,
        fmem := mem_write (page + of_nat (Suc (length bs) * bsz H)) b (fmem w)\<rparr>)"
      using write_append [OF assms(1) used(1,4) True _ assms(3-5)] f True by auto
    let ?m = "mem_write (page + of_nat (Suc (length bs) * bsz H)) b (fmem w)"
    have l: "length b = bsz H" using b(1) by (simp add: good_block_def)
    have k: "Suc (length bs) \<le> bnum H" using True by simp
    have "store H ?m (Some (padded H (take (unat sz) data)))"
      using storeI [OF used(1-3) append_block [OF assms(1) used(1,4) True b(1)]
          closed_write_apart [OF assms(1) used(1) k l used(2,3,5)]] b(3) by simp
    moreover have "same_outside H (fmem w) ?m"
      using block_offset [OF assms(1) k] l by (intro write_outside [OF assms(1) used(1)]) simp
    ultimately show ?thesis using wr b(2) by (intro exI conjI) (assumption | simp)+
  next
    case False
    let ?st = "if page = page0_address H then FLASH_SEARCH_BLOCK_WRITE_FULL_0 else FLASH_SEARCH_BLOCK_WRITE_FULL_1"
    have st: "flash_find_block H FLASH_OP_ACTION_WRITE (fmem w) = (?st, 0)" using f False by simp
    note e = ensure_empty [OF assms(1) used(2,5)]
    have new: "new_page dev H ?st (fmem w) = (flash_ensure_empty dev H other (fmem w), other)"
      and old: "old_page H ?st = Some page"
      using used(1-3) by (auto simp: new_page_def old_page_def is_page_def)
    show ?thesis
      using write_new_store [OF assms(1) used(2,1) used(3) [symmetric] _ st new e(1) assms(3-5) _ e(5)] old by simp
  qed
qed

end

lemma drop_two: "length b = k + 2 \<Longrightarrow> drop k b = [b ! k, b ! Suc k]"
  by (intro nth_equalityI) (auto simp: less_Suc_eq numeral_2_eq_2)

lemma crc_bytes_join:
  fixes hi lo :: u8
  shows "crc_bytes crc = [hi, lo] \<Longrightarrow> push_bit 8 (ucast hi) OR ucast lo = crc"
proof -
  assume "crc_bytes crc = [hi, lo]"
  then have h: "hi = ucast (drop_bit 8 crc)" and l: "lo = ucast (crc AND 0xff)" by (simp_all add: crc_bytes_def)
  have "(0xff :: u16) = mask 8" by (simp add: mask_eq_exp_minus_1)
  then have l': "lo = ucast (take_bit 8 crc)" unfolding l by (simp only: take_bit_eq_mask)
  show ?thesis
  proof (rule bit_word_eqI)
    fix n assume "n < LENGTH(16)"
    then show "bit (push_bit 8 (ucast hi) OR ucast lo :: u16) n \<longleftrightarrow> bit crc n"
      by (cases "n < 8") (auto simp: h l' bit_or_iff bit_push_bit_iff bit_ucast_iff bit_drop_bit_eq bit_take_bit_iff)
  qed
qed

text \<open>A read that has found a good block returns its data.\<close>

lemma read_found:
  assumes "flash_config H" and "flash_find_block H FLASH_OP_ACTION_READ (fmem w) = (FLASH_SEARCH_OK, addr)"
    and "dev_read dev addr (block_size H div 4) (fmem w) = (pdPASS, b)"
    and b: "mem_read (fmem w) addr (bsz H) = b" and "good_block H b"
    and "length (block_buffer w) = 1028" and "unat sz \<le> capacity H"
  shows "\<exists>w'. flash_read dev (Some H) True sz w = Some (FLASH_OP_SUCCESS, take (unat sz) (payload H b), w')
    \<and> fmem w' = fmem w \<and> length (block_buffer w') = 1028"
proof -
  note c = flash_configD(2,3) [OF assms(1)]
  note gb = assms(5) [unfolded good_block_def]
  define buf where "buf = poke 0 b (block_buffer w)"
  have buf: "buf = b @ drop (bsz H) (block_buffer w)" using gb by (simp add: buf_def poke_def)
  have lb: "length buf = 1028" using gb c assms(6) by (simp add: buf)
  have sz: "CALC_BLOCK_SIZE (le_word (take 4 (drop 4 buf))) = block_size H"
    using gb c by (simp add: buf CALC_BLOCK_SIZE_def CALC_BUFFER_SIZE_def)
  have crc: "take (unat (ucast (block_size H - 2) :: u16)) buf = take (bsz H - 2) b"
    using gb by (simp add: buf size_minus_2 [OF assms(1)])
  have nth: "fmem w (addr + of_nat i) = b ! i" if "i < bsz H" for i
    using nth_mem_read [OF that, of "fmem w" addr] b by simp
  have a: "addr + block_size H - 2 = addr + of_nat (bsz H - 2)"
    "addr + block_size H - 2 + 1 = addr + of_nat (bsz H - 1)"
    using c by (simp_all add: of_nat_diff)
  have "drop (bsz H - 2) b = [b ! (bsz H - 2), b ! (bsz H - 1)]"
    using gb c drop_two [of b "bsz H - 2"] by (simp add: Suc_diff_le numeral_2_eq_2 Suc_diff_Suc)
  then have "crc_bytes (flash_calc_crc16 (take (bsz H - 2) b)) = [b ! (bsz H - 2), b ! (bsz H - 1)]"
    using gb by simp
  note joined = crc_bytes_join [OF this]
  have n1: "fmem w (addr + block_size H - 2) = b ! (bsz H - 2)" unfolding a(1) using c by (intro nth) simp
  have n2: "fmem w (addr + block_size H - 2 + 1) = b ! (bsz H - 1)" unfolding a(2) using c by (intro nth) simp
  have join:
    "push_bit 8 (ucast (fmem w (addr + block_size H - 2))) OR ucast (fmem w (addr + block_size H - 2 + 1))
     = flash_calc_crc16 (take (bsz H - 2) b)"
    unfolding n1 n2 by (rule joined)
  have "unat sz + 8 \<le> bsz H" using assms(7) c by (simp add: capacity_def)
  then have data: "take (unat sz) (drop 8 buf) = take (unat sz) (payload H b)"
    using gb assms(7) by (simp add: buf payload_def)
  have len: "\<not> length buf < 8 + unat sz" using lb assms(7) c by (simp add: capacity_def)
  have mem: "fmem (w\<lparr>block_buffer := buf\<rparr>) = fmem w" by simp
  have "flash_read dev (Some H) True sz w
      = Some (FLASH_OP_SUCCESS, take (unat sz) (drop 8 buf), w\<lparr>block_buffer := buf\<rparr>)"
    unfolding flash_read_def option.case assms(2) Let_def prod.case assms(3) buf_def [symmetric] crc mem join sz
    using len by simp
  then show ?thesis using data lb by auto
qed

context flash_device
begin

lemma read_store:
  assumes "flash_config H" and "store H (fmem w) v" and "length (block_buffer w) = 1028"
    and "unat sz \<le> capacity H"
  shows "\<exists>w'. flash_read dev (Some H) True sz w =
       (case v of None \<Rightarrow> Some (FLASH_OP_BLOCK_ERR, [], w)
        | Some d \<Rightarrow> Some (FLASH_OP_SUCCESS, take (unat sz) d, w'))
    \<and> fmem w' = fmem w \<and> length (block_buffer w') = 1028"
  using assms(2,1)
proof (cases rule: storeE)
  case empty
  then show ?thesis
    using find_block_closed [OF empty(2,3)] assms(3) by (auto simp: flash_read_def)
next
  case (used page other bs)
  let ?addr = "page + of_nat (length bs * bsz H)"
  have ne: "bs \<noteq> []" using used(4) by (simp add: open_page_def)
  then have k: "Suc (length bs - 1) = length bs" and l: "last bs = bs ! (length bs - 1)"
    by (simp_all add: last_conv_nth)
  have g: "good_block H (last bs)" and b: "block_at H (fmem w) page (length bs) = last bs"
    using used(4) k ne unfolding open_page_def l by (metis diff_less length_greater_0_conv zero_less_one)+
  have w4: "4 * unat (block_size H div 4) = bsz H" by (rule flash_configD(10) [OF assms(1)])
  have rd: "dev_read dev ?addr (block_size H div 4) (fmem w) = (pdPASS, last bs)"
    using reads [of "block_size H div 4" ?addr "fmem w"] w4 flash_configD(3) [OF assms(1)] b
    by (simp add: block_at_def)
  show ?thesis
    using read_found [OF assms(1) find_block_open(1) [OF assms(1) used(1-5)] rd b [unfolded block_at_def] g assms(3,4)]
      used(6) by auto
qed

end

section \<open>Sequences of calls\<close>

text \<open>Calls of the store, with their results, and what they do to a register.\<close>

datatype flash_call = Store "u8 list" | Load u16

primrec run_flash ::
  "flash_dev \<Rightarrow> FlashInfo_t \<Rightarrow> flash_call list \<Rightarrow> flash_world
     \<Rightarrow> ((FlashOperatorStatus_t \<times> u8 list) list \<times> flash_world) option" where
  "run_flash dev H [] w = Some ([], w)"
| "run_flash dev H (c # cs) w =
     (case (case c of Store d \<Rightarrow> map_option (\<lambda>(r, w). ((r, []), w))
                                   (flash_write dev (Some H) (Some d) (of_nat (length d)) w)
                    | Load sz \<Rightarrow> map_option (\<lambda>(r, d, w). ((r, d), w)) (flash_read dev (Some H) True sz w)) of
        None \<Rightarrow> None
      | Some (r, w) \<Rightarrow> map_option (\<lambda>(rs, w). (r # rs, w)) (run_flash dev H cs w))"

primrec run_register ::
  "FlashInfo_t \<Rightarrow> flash_call list \<Rightarrow> u8 list option \<Rightarrow> (FlashOperatorStatus_t \<times> u8 list) list \<times> u8 list option" where
  "run_register H [] v = ([], v)"
| "run_register H (c # cs) v =
     (let (r, v) = (case c of
                      Store d \<Rightarrow> ((FLASH_OP_SUCCESS, []), Some (padded H d))
                    | Load sz \<Rightarrow> (case v of None \<Rightarrow> (FLASH_OP_BLOCK_ERR, [])
                                 | Some d \<Rightarrow> (FLASH_OP_SUCCESS, take (unat sz) d), v));
          (rs, v) = run_register H cs v
      in (r # rs, v))"

fun call_fits :: "FlashInfo_t \<Rightarrow> flash_call \<Rightarrow> bool" where
  "call_fits H (Store d) \<longleftrightarrow> length d \<le> capacity H"
| "call_fits H (Load sz) \<longleftrightarrow> unat sz \<le> capacity H"

fun stores :: "flash_call list \<Rightarrow> nat" where
  "stores [] = 0"
| "stores (Store d # cs) = Suc (stores cs)"
| "stores (Load sz # cs) = stores cs"

text \<open>
  A relation between the number of writes so far, the memory and the register that every call keeps makes
  a run of the store a run of the register.
\<close>

lemma run_sim:
  assumes config: "flash_config H"
    and "write": "\<And>k w v d. P k w v \<Longrightarrow> length d \<le> capacity H \<Longrightarrow>
      \<exists>w'. flash_write dev (Some H) (Some d) (of_nat (length d)) w = Some (FLASH_OP_SUCCESS, w') \<and> P (Suc k) w' (Some (padded H d))"
    and read: "\<And>k w v sz. P k w v \<Longrightarrow> unat sz \<le> capacity H \<Longrightarrow>
      \<exists>w'. flash_read dev (Some H) True sz w = (case v of None \<Rightarrow> Some (FLASH_OP_BLOCK_ERR, [], w')
        | Some d \<Rightarrow> Some (FLASH_OP_SUCCESS, take (unat sz) d, w')) \<and> P k w' v"
  shows "P k w v \<Longrightarrow> list_all (call_fits H) cs \<Longrightarrow>
    \<exists>w'. run_flash dev H cs w = Some (fst (run_register H cs v), w') \<and> P (k + stores cs) w' (snd (run_register H cs v))"
proof (induction cs arbitrary: k w v)
  case Nil
  then show ?case by simp
next
  case (Cons c cs)
  show ?case
  proof (cases c)
    case (Store d)
    then obtain w1 where w1: "flash_write dev (Some H) (Some d) (of_nat (length d)) w = Some (FLASH_OP_SUCCESS, w1)"
      "P (Suc k) w1 (Some (padded H d))"
      using "write" [OF Cons.prems(1)] Cons.prems(2) by auto
    from Cons.IH [OF w1(2)] Cons.prems(2) show ?thesis using w1(1) Store by (auto simp: split_beta)
  next
    case (Load sz)
    then obtain w1 where w1: "flash_read dev (Some H) True sz w = (case v of None \<Rightarrow> Some (FLASH_OP_BLOCK_ERR, [], w1)
        | Some d \<Rightarrow> Some (FLASH_OP_SUCCESS, take (unat sz) d, w1))" "P k w1 v"
      using read [OF Cons.prems(1)] Cons.prems(2) by auto
    from Cons.IH [OF w1(2)] Cons.prems(2) show ?thesis using w1(1) Load by (cases v) (auto simp: split_beta)
  qed
qed

lemma unat_length:
  assumes "flash_config H" and "length d \<le> capacity H"
  shows "unat (of_nat (length d) :: u16) = length d"
  using assms flash_configD(3) [OF assms(1)] by (simp add: unat_of_nat capacity_def)

context flash_device
begin

lemma run_store:
  assumes "flash_config H" and "store H (fmem w) v" and "length (block_buffer w) = 1028"
    and "list_all (call_fits H) cs"
  shows "\<exists>w'. run_flash dev H cs w = Some (fst (run_register H cs v), w')
      \<and> store H (fmem w') (snd (run_register H cs v)) \<and> length (block_buffer w') = 1028
      \<and> same_outside H (fmem w) (fmem w')"
proof (rule run_sim [OF assms(1), where k = 0 and P = "\<lambda>_ w' v. store H (fmem w') v \<and> length (block_buffer w') = 1028
    \<and> same_outside H (fmem w) (fmem w')"])
  show "store H (fmem w) v \<and> length (block_buffer w) = 1028 \<and> same_outside H (fmem w) (fmem w)"
    using assms by simp
next
  fix w1 :: flash_world and v and d :: "u8 list"
  assume *: "store H (fmem w1) v \<and> length (block_buffer w1) = 1028 \<and> same_outside H (fmem w) (fmem w1)"
    and d: "length d \<le> capacity H"
  then show "\<exists>w'. flash_write dev (Some H) (Some d) (of_nat (length d)) w1 = Some (FLASH_OP_SUCCESS, w')
      \<and> store H (fmem w') (Some (padded H d)) \<and> length (block_buffer w') = 1028 \<and> same_outside H (fmem w) (fmem w')"
    using write_store [OF assms(1), of w1 v "of_nat (length d)" d] unat_length [OF assms(1) d]
    by (auto intro: same_outside_trans)
next
  fix w1 :: flash_world and v and sz :: u16
  assume *: "store H (fmem w1) v \<and> length (block_buffer w1) = 1028 \<and> same_outside H (fmem w) (fmem w1)"
    and "unat sz \<le> capacity H"
  then obtain w2 where "flash_read dev (Some H) True sz w1 = (case v of None \<Rightarrow> Some (FLASH_OP_BLOCK_ERR, [], w1)
        | Some d \<Rightarrow> Some (FLASH_OP_SUCCESS, take (unat sz) d, w2))" "fmem w2 = fmem w1" "length (block_buffer w2) = 1028"
    using read_store [OF assms(1)] by blast
  then show "\<exists>w'. flash_read dev (Some H) True sz w1 = (case v of None \<Rightarrow> Some (FLASH_OP_BLOCK_ERR, [], w')
        | Some d \<Rightarrow> Some (FLASH_OP_SUCCESS, take (unat sz) d, w'))
      \<and> store H (fmem w') v \<and> length (block_buffer w') = 1028 \<and> same_outside H (fmem w) (fmem w')"
    using * by (cases v) (auto intro: exI [of _ w1] exI [of _ w2])
qed (use assms in simp_all)

text \<open>Formatting.\<close>

lemma set_empty_store:
  assumes "flash_config H"
  shows "\<exists>m'. flash_set_empty dev H m = (pdPASS, m') \<and> store H m' None \<and> flash_check_empty H m'
       \<and> same_outside H m m'"
proof -
  have p: "is_page H (page0_address H)" "is_page H (page1_address H)" by (simp_all add: is_page_def)
  note d = pages_differ [OF assms]
  let ?z = "replicate (psz H) 0"
  let ?a = "mem_write (page0_address H) ?z m"
  let ?b = "mem_write (page1_address H) ?z ?a"
  have z: "page_at H ?b (page0_address H) = ?z" "page_at H ?b (page1_address H) = ?z"
    using erase_apart(1) [OF assms p(2,1) d [symmetric], where m = ?a] page_erase_same [OF assms] by simp_all
  note c = erased_closed [OF assms z(1)] erased_closed [OF assms z(2)]
  have "mem_word ?b page = 0" if "page_at H ?b page = ?z" for page
    using block_in_empty_page [OF assms _ that, where i = 0] flash_configD(2) [OF assms]
    by (simp add: word_of_page [OF assms])
  then have "flash_check_empty H ?b" using z by (simp add: flash_check_empty_def PAGE_ERASED_def)
  moreover have "same_outside H m ?b"
    using write_outside [OF assms p(1), of 0 ?z m] write_outside [OF assms p(2), of 0 ?z ?a]
    by (auto intro: same_outside_trans)
  moreover have "flash_set_empty dev H m = (pdPASS, ?b)"
    by (simp add: flash_set_empty_def erase_page [OF assms p(1)] erase_page [OF assms p(2)])
  ultimately show ?thesis using c by (simp add: store_def)
qed

text \<open>Both headers valid, as a power loss before the last erasure of a page change leaves them.\<close>

lemma both_valid:
  assumes "flash_config H" and "mem_word (fmem w) (page0_address H) = PAGE_VALID"
    and "mem_word (fmem w) (page1_address H) = PAGE_VALID" and "length (block_buffer w) = 1028"
    and sz: "unat sz \<le> capacity H" "unat sz \<le> length data"
  shows "flash_read dev (Some H) True n w = Some (FLASH_OP_BLOCK_ERR, [], w)"
    and "\<exists>w'. flash_write dev (Some H) (Some data) sz w = Some (FLASH_OP_SUCCESS, w')
      \<and> store H (fmem w') (Some (padded H (take (unat sz) data))) \<and> length (block_buffer w') = 1028
      \<and> same_outside H (fmem w) (fmem w')"
proof -
  have f: "flash_find_block H operation (fmem w) = (FLASH_SEARCH_PAGE_MULTI_INVALID, 0)" for operation
    using assms(2,3) by (simp add: flash_find_block_def)
  show "flash_read dev (Some H) True n w = Some (FLASH_OP_BLOCK_ERR, [], w)"
    by (simp add: flash_read_def f)
  have p: "is_page H (page0_address H)" "is_page H (page1_address H)" by (simp_all add: is_page_def)
  note d = pages_differ [OF assms(1)]
  let ?z = "replicate (psz H) 0"
  let ?a = "mem_write (page0_address H) ?z (fmem w)"
  let ?b = "mem_write (page1_address H) ?z ?a"
  have ne: "PAGE_VALID \<noteq> PAGE_ERASED" by (simp add: PAGE_VALID_def PAGE_ERASED_def)
  have "mem_word ?a (page1_address H) = PAGE_VALID"
    using erase_apart(2) [OF assms(1) p d, where j = 0] assms(3) by (simp add: word_of_page [OF assms(1)])
  then have new: "new_page dev H FLASH_SEARCH_PAGE_MULTI_INVALID (fmem w) = (?b, page0_address H)"
    using assms(2) ne
    by (simp add: new_page_def flash_ensure_empty_def erase_page [OF assms(1) p(1)] erase_page [OF assms(1) p(2)])
  have z: "page_at H ?b (page0_address H) = ?z" "page_at H ?b (page1_address H) = ?z"
    using erase_apart(1) [OF assms(1) p(2,1) d [symmetric], where m = ?a] page_erase_same [OF assms(1)] by simp_all
  have "same_outside H (fmem w) ?b"
    using write_outside [OF assms(1) p(1), of 0 ?z "fmem w"] write_outside [OF assms(1) p(2), of 0 ?z ?a]
    by (auto intro: same_outside_trans)
  then show "\<exists>w'. flash_write dev (Some H) (Some data) sz w = Some (FLASH_OP_SUCCESS, w')
      \<and> store H (fmem w') (Some (padded H (take (unat sz) data))) \<and> length (block_buffer w') = 1028
      \<and> same_outside H (fmem w) (fmem w')"
    using write_new_store [OF assms(1) p d _ f new z(1) assms(4) sz _ ] erased_closed [OF assms(1) z(2)]
    by (simp add: old_page_def)
qed

end

section \<open>Initialisation\<close>

lemma driver_init_config:
  assumes "flash_driver_init (Some H0) a0 a1 ps bs = (pdPASS, Some H)"
    and "unat bs mod 4 = 0" and "12 \<le> unat bs" and "unat ps div unat bs \<le> 65536"
    and "run_ok a0 (unat ps)" and "run_ok a1 (unat ps)" and "runs_apart a0 (unat ps) a1 (unat ps)"
  shows "flash_config H \<and> page0_address H = a0 \<and> page1_address H = a1 \<and> page_size H = ps \<and> block_size H = bs"
proof -
  have c: "\<not> (ps = 0 \<or> bs = 0 \<or> bs > MAX_BLOCK_SIZE \<or> ps < bs * 2)"
    and H: "H = H0\<lparr>page0_address := a0, page1_address := a1, page_size := ps, block_size := bs,
               block_num := ps div bs - 1, flash_valid := FLASH_VALID\<rparr>"
    using assms(1) by (auto simp: flash_driver_init_def split: if_splits)
  have b: "unat bs \<le> 1024" using c by (simp add: MAX_BLOCK_SIZE_def word_less_nat_alt)
  then have "unat (bs * 2) = unat bs * 2" by (simp add: unat_word_ariths)
  then have p: "2 * unat bs \<le> unat ps" using c by (simp add: word_less_nat_alt)
  have "2 \<le> unat ps div unat bs" using div_le_mono [OF p, of "unat bs"] assms(3) by simp
  then have "unat (ps div bs - 1) = unat ps div unat bs - 1"
    by (simp add: unat_sub_if' unat_div)
  then show ?thesis using assms(2-7) b p by (simp add: H flash_config_def)
qed

text \<open>The alignment test looks at bit 2 only, so a block size of 769 passes it.\<close>

lemma init_accepts_unaligned:
  "fst (flash_driver_init (Some H) 0x08000000 0x08004000 0x4000 769) = pdPASS \<and> 769 mod 4 \<noteq> (0 :: nat)"
  by (simp add: flash_driver_init_def MAX_BLOCK_SIZE_def)

lemma flash_crc_same: "flash_calc_crc16 data = calc_crc16 data"
proof -
  have "flash_crc16_bit = crc16_bit"
    by (rule ext) (simp add: flash_crc16_bit_def crc16_bit_def CRC16_POLYNOMIAL_def)
  then show ?thesis by (simp add: flash_calc_crc16_def calc_crc16_def CRC16_INIT_def)
qed

section \<open>Properties\<close>

text \<open>A configuration to try the properties on: 16-byte blocks, four to a page.\<close>

definition demo_flash :: FlashInfo_t where
  "demo_flash = \<lparr>flash_valid = FLASH_VALID, page0_address = 0x1000, page1_address = 0x2000,
                 page_size = 64, block_size = 16, block_num = 3\<rparr>"

definition demo_world :: flash_world where
  "demo_world = \<lparr>fmem = (\<lambda>_. 0), block_buffer = replicate 1028 0\<rparr>"

lemma demo_config: "flash_config demo_flash"
  by (simp add: flash_config_def demo_flash_def run_ok_def runs_apart_def)

lemma demo_buffer: "length (block_buffer demo_world) = 1028"
  by (simp add: demo_world_def)

lemma demo_capacity: "capacity demo_flash = 6"
  by (simp add: demo_flash_def capacity_def)

lemma demo_padded: "padded demo_flash [1, 2] = [1, 2, 0, 0, 0, 0]"
  by (simp add: padded_def demo_capacity numeral_eq_Suc)

lemma demo_store: "store demo_flash (fmem demo_world) None"
proof -
  have "page_at demo_flash (\<lambda>_. 0) page = replicate (psz demo_flash) 0" for page
    by (simp add: page_at_def mem_read_def map_replicate_const)
  then show ?thesis by (simp add: store_def demo_world_def erased_closed [OF demo_config])
qed

text \<open>
  C1. Any sequence of flash_write and flash_read calls that fit the block size, started on a well-
  formed pair of pages, never accesses out of bounds and behaves like a single register: every write
  succeeds and replaces the value, every read returns the last value written (or reports a missing
  block when there is none), whichever page rotations happen on the way; memory outside the two
  pages is untouched.
\<close>

theorem flash_refines_register:
  assumes "flash_config H" and "store H (fmem w) v" and "length (block_buffer w) = 1028"
    and "list_all (call_fits H) cs"
  shows "\<exists>w'. run_flash ram_device H cs w = Some (fst (run_register H cs v), w')
    \<and> store H (fmem w') (snd (run_register H cs v)) \<and> same_outside H (fmem w) (fmem w')"
  using ram.run_store [OF assms] by blast

theorem flash_refines_register_witness:
  "\<exists>w'. run_flash ram_device demo_flash [Load 2, Store [7, 8], Store [1, 2, 3], Load 2] demo_world
    = Some ([(FLASH_OP_BLOCK_ERR, []), (FLASH_OP_SUCCESS, []), (FLASH_OP_SUCCESS, []), (FLASH_OP_SUCCESS, [1, 2])], w')"
proof -
  have "list_all (call_fits demo_flash) [Load 2, Store [7, 8], Store [1, 2, 3], Load 2]"
    by (simp add: demo_capacity)
  from flash_refines_register [OF demo_config demo_store demo_buffer this] show ?thesis
    by (auto simp: padded_def)
qed

text \<open>
  On a well-formed store a flash_write of at most the block's payload succeeds without leaving
  its buffers, leaves a well-formed store holding exactly the data padded with zeros, and changes no
  memory outside the two pages.
\<close>

lemma flash_write_succeeds:
  assumes "flash_config H" and "store H (fmem w) v" and "length (block_buffer w) = 1028"
    and "unat sz \<le> capacity H" and "unat sz \<le> length data"
  shows "\<exists>w'. flash_write ram_device (Some H) (Some data) sz w = Some (FLASH_OP_SUCCESS, w')
    \<and> store H (fmem w') (Some (padded H (take (unat sz) data))) \<and> length (block_buffer w') = 1028
    \<and> same_outside H (fmem w) (fmem w')"
  by (rule ram.write_store [OF assms])

text \<open>
  After a successful flash_driver_init with word-aligned sizes on disjoint pages,
  flash_set_empty succeeds and makes the pages a well-formed empty store, which flash_check_empty
  confirms, without touching other memory.
\<close>

lemma flash_format:
  assumes "flash_driver_init (Some H0) a0 a1 ps bs = (pdPASS, Some H)"
    and "unat bs mod 4 = 0" and "12 \<le> unat bs" and "unat ps div unat bs \<le> 65536"
    and "run_ok a0 (unat ps)" and "run_ok a1 (unat ps)" and "runs_apart a0 (unat ps) a1 (unat ps)"
  shows "flash_config H \<and> (\<exists>m'. flash_set_empty ram_device H m = (pdPASS, m') \<and> store H m' None
       \<and> flash_check_empty H m' \<and> same_outside H m m')"
  using driver_init_config [OF assms] ram.set_empty_store by blast

text \<open>
  C34. When both page headers are marked valid (a power loss between writing the new page and
  erasing the old one), flash_read reports a missing block, and the next flash_write recovers: it
  succeeds and leaves a well-formed store holding the new data.
\<close>

theorem flash_both_pages_valid:
  assumes "flash_config H" and "mem_word (fmem w) (page0_address H) = PAGE_VALID"
    and "mem_word (fmem w) (page1_address H) = PAGE_VALID" and "length (block_buffer w) = 1028"
    and "unat sz \<le> capacity H" and "unat sz \<le> length data"
  shows "flash_read ram_device (Some H) True n w = Some (FLASH_OP_BLOCK_ERR, [], w)
    \<and> (\<exists>w'. flash_write ram_device (Some H) (Some data) sz w = Some (FLASH_OP_SUCCESS, w')
      \<and> store H (fmem w') (Some (padded H (take (unat sz) data))) \<and> same_outside H (fmem w) (fmem w'))"
  using ram.both_valid [OF assms] by blast

definition demo_both :: flash_world where
  "demo_both = \<lparr>fmem = mem_write 0x1000 (word_bytes PAGE_VALID) (mem_write 0x2000 (word_bytes PAGE_VALID) (\<lambda>_. 0)),
               block_buffer = replicate 1028 0\<rparr>"

theorem flash_both_pages_valid_witness:
  "flash_read ram_device (Some demo_flash) True 4 demo_both = Some (FLASH_OP_BLOCK_ERR, [], demo_both)"
proof -
  have m: "mem_word (fmem demo_both) (page0_address demo_flash) = PAGE_VALID"
    "mem_word (fmem demo_both) (page1_address demo_flash) = PAGE_VALID"
    using mem_read_write_same [of "word_bytes PAGE_VALID" "0x1000"]
      mem_read_write_same [of "word_bytes PAGE_VALID" "0x2000"]
      mem_read_write_apart [of "0x1000" "word_bytes PAGE_VALID" "0x2000" 4]
    by (simp_all add: mem_word_def demo_both_def demo_flash_def run_ok_def runs_apart_def)
  show ?thesis
    using flash_both_pages_valid [OF demo_config m, where sz = 2 and data = "[1, 2]" and n = 4]
    by (simp add: demo_both_def demo_capacity)
qed

end
