(* ===== verification/Lcd.thy ===== *)
theory Lcd
  imports Gpio Font
begin

text \<open>
  The display driver (\<^verbatim>\<open>Drivers/Src/drv_lcd.c\<close>). What the driver does to the display's bus is recorded
  as a list of register selections, data words and reads; the words read are a parameter. The panel at
  the other end is specified by its register file, its write pointer and its pixels, and the drawing
  operations by what they change on the panel.
\<close>

section \<open>State\<close>

record LCD_INFO =
  lcd_id :: u16
  lcd_dir :: u16
  wramcmd :: u16
  setxcmd :: u16
  setycmd :: u16
  lcd_width :: u32
  lcd_height :: u32

datatype lcd_event =
    LcdReg u16        \<comment> \<open>a write of \<^verbatim>\<open>LCD->LCD_REG\<close>\<close>
  | LcdRam u16        \<comment> \<open>a write of \<^verbatim>\<open>LCD->LCD_RAM\<close>\<close>
  | LcdRead           \<comment> \<open>a read of \<^verbatim>\<open>LCD->LCD_RAM\<close>\<close>
  | LcdDelayUs u32
  | LcdHw hw_event
  | LcdSram           \<comment> \<open>the initialisation of the memory controller's bank\<close>

record lcd_world =
  gLcdInfo :: LCD_INFO
  lcd_hist :: "lcd_event list"
  bwtr :: u32         \<comment> \<open>the write timing register \<^verbatim>\<open>FMC_Bank1E->BWTR[0]\<close>\<close>

definition lcd_emit :: "lcd_event \<Rightarrow> lcd_world \<Rightarrow> lcd_world" where
  "lcd_emit e w = w\<lparr>lcd_hist := lcd_hist w @ [e]\<rparr>"

text \<open>The word a read returns, as a function of what happened before.\<close>

type_synonym lcd_bus = "lcd_event list \<Rightarrow> u16"

definition POINT_COLOR :: u32 where "POINT_COLOR = 0xFF000000"
definition BACK_COLOR :: u32 where "BACK_COLOR = 0xFFFFFFFF"
definition L2R_U2D :: u8 where "L2R_U2D = 0"
definition L2R_D2U :: u8 where "L2R_D2U = 1"
definition R2L_U2D :: u8 where "R2L_U2D = 2"
definition R2L_D2U :: u8 where "R2L_D2U = 3"
definition U2D_L2R :: u8 where "U2D_L2R = 4"
definition U2D_R2L :: u8 where "U2D_R2L = 5"
definition D2U_L2R :: u8 where "D2U_L2R = 6"
definition D2U_R2L :: u8 where "D2U_R2L = 7"
definition DFT_SCAN_DIR :: u8 where "DFT_SCAN_DIR = L2R_U2D"
definition WHITE :: u32 where "WHITE = 0xFFFF"
definition BLACK :: u32 where "BLACK = 0x0000"
definition BLUE :: u32 where "BLUE = 0x001F"
definition RED :: u32 where "RED = 0xF800"
definition MAGENTA :: u32 where "MAGENTA = 0xF81F"
definition GREEN :: u32 where "GREEN = 0x07E0"

section \<open>Bus accesses\<close>

definition lcd_wr_reg :: "u16 \<Rightarrow> lcd_world \<Rightarrow> lcd_world" where
  "lcd_wr_reg regval = lcd_emit (LcdReg regval)"

definition lcd_wr_data :: "u16 \<Rightarrow> lcd_world \<Rightarrow> lcd_world" where
  "lcd_wr_data data = lcd_emit (LcdRam data)"

definition lcd_rd_data :: "lcd_bus \<Rightarrow> lcd_world \<Rightarrow> u16 \<times> lcd_world" where
  "lcd_rd_data rd w = (rd (lcd_hist w), lcd_emit LcdRead w)"

definition lcd_wr_reg_data :: "u16 \<Rightarrow> u16 \<Rightarrow> lcd_world \<Rightarrow> lcd_world" where
  "lcd_wr_reg_data reg data w = lcd_emit (LcdRam data) (lcd_emit (LcdReg reg) w)"

definition lcd_read_reg :: "lcd_bus \<Rightarrow> u16 \<Rightarrow> lcd_world \<Rightarrow> u16 \<times> lcd_world" where
  "lcd_read_reg rd reg w = lcd_rd_data rd (lcd_emit (LcdDelayUs 5) (lcd_wr_reg reg w))"

definition lcd_setcursor :: "u16 \<Rightarrow> u16 \<Rightarrow> lcd_world \<Rightarrow> lcd_world" where
  "lcd_setcursor Xpos Ypos w =
     (let I = gLcdInfo w;
          w = lcd_wr_data (drop_bit 8 Xpos) (lcd_wr_reg (setxcmd I) w);
          w = lcd_wr_data (Xpos AND 0xFF) (lcd_wr_reg (setxcmd I + 1) w);
          w = lcd_wr_data (drop_bit 8 Ypos) (lcd_wr_reg (setycmd I) w)
      in lcd_wr_data (Ypos AND 0xFF) (lcd_wr_reg (setycmd I + 1) w))"

definition lcd_write_ram_prepare :: "lcd_world \<Rightarrow> lcd_world" where
  "lcd_write_ram_prepare w = lcd_emit (LcdReg (wramcmd (gLcdInfo w))) w"

definition lcd_fast_drawpoint :: "u16 \<Rightarrow> u16 \<Rightarrow> u32 \<Rightarrow> lcd_world \<Rightarrow> lcd_world" where
  "lcd_fast_drawpoint x y color w =
     (let I = gLcdInfo w;
          w = lcd_wr_data (drop_bit 8 x) (lcd_wr_reg (setxcmd I) w);
          w = lcd_wr_data (x AND 0xFF) (lcd_wr_reg (setxcmd I + 1) w);
          w = lcd_wr_data (drop_bit 8 y) (lcd_wr_reg (setycmd I) w);
          w = lcd_wr_data (y AND 0xFF) (lcd_wr_reg (setycmd I + 1) w);
          w = lcd_emit (LcdReg (wramcmd I)) w
      in lcd_emit (LcdRam (ucast color)) w)"

definition lcd_driver_clear :: "u32 \<Rightarrow> lcd_world \<Rightarrow> lcd_world" where
  "lcd_driver_clear color w =
     (let totalpoint = lcd_width (gLcdInfo w) * lcd_height (gLcdInfo w);
          w = lcd_write_ram_prepare (lcd_setcursor 0 0 w)
      in (lcd_emit (LcdRam (ucast color)) ^^ unat totalpoint) w)"

section \<open>Characters\<close>

text \<open>
  Byte \<open>t\<close> of character \<open>num\<close>, counted from the space, in the font of a size: \<open>Inl True\<close> for a size
  without font (the early return), \<open>Inl False\<close> for a read outside the table. (The rows of the largest font
  are declared with 128 bytes of which 64 are given; byte 64 is never reached.)
\<close>

definition lcd_font :: "u8 \<Rightarrow> u8 \<Rightarrow> nat \<Rightarrow> bool + u8" where
  "lcd_font sz num t =
     (if sz = 12 then if unat num < 95 \<and> t < 12 then Inr (font_byte asc2_1206 12 (unat num) t) else Inl False
      else if sz = 16 then if unat num < 95 \<and> t < 16 then Inr (font_byte asc2_1608 16 (unat num) t) else Inl False
      else if sz = 24 then if unat num < 95 \<and> t < 36 then Inr (font_byte asc2_2412 36 (unat num) t) else Inl False
      else if sz = 32 then if unat num < 95 \<and> t < 64 then Inr (font_byte asc2_3216 64 (unat num) t) else Inl False
      else Inl True)"

text \<open>
  The inner loop, with \<open>n\<close> bits left: whether the function returned, and the position and state after
  it. The difference of the positions is an \<^verbatim>\<open>int\<close>.
\<close>

primrec showchar_bits ::
  "u8 \<Rightarrow> u8 \<Rightarrow> u16 \<Rightarrow> nat \<Rightarrow> u8 \<Rightarrow> u16 \<Rightarrow> u16 \<Rightarrow> lcd_world \<Rightarrow> bool \<times> u16 \<times> u16 \<times> lcd_world" where
  "showchar_bits sz mode y0 0 temp x y w = (False, x, y, w)"
| "showchar_bits sz mode y0 (Suc n) temp x y w =
     (let w = (if temp AND 0x80 \<noteq> 0 then lcd_fast_drawpoint x y POINT_COLOR w
               else if mode = 0 then lcd_fast_drawpoint x y BACK_COLOR w else w);
          temp = push_bit 1 temp;
          y = y + 1
      in if ucast y \<ge> lcd_height (gLcdInfo w) then (True, x, y, w)
         else if int (unat y) - int (unat y0) = int (unat sz) then
           (let y = y0; x = x + 1 in (ucast x \<ge> lcd_width (gLcdInfo w), x, y, w))
         else showchar_bits sz mode y0 n temp x y w)"

text \<open>The outer loop over \<open>t\<close>; \<open>None\<close> is a read outside the font table.\<close>

fun showchar_bytes ::
  "u8 \<Rightarrow> u8 \<Rightarrow> u8 \<Rightarrow> u16 \<Rightarrow> nat list \<Rightarrow> u16 \<Rightarrow> u16 \<Rightarrow> lcd_world \<Rightarrow> lcd_world option" where
  "showchar_bytes num sz mode y0 [] x y w = Some w"
| "showchar_bytes num sz mode y0 (t # ts) x y w =
     (case lcd_font sz num t of
        Inl r \<Rightarrow> if r then Some w else None
      | Inr temp \<Rightarrow>
          (let (returned, x, y, w) = showchar_bits sz mode y0 8 temp x y w
           in if returned then Some w else showchar_bytes num sz mode y0 ts x y w))"

definition char_size :: "u8 \<Rightarrow> u8" where
  "char_size sz = (sz div 8 + (if sz mod 8 \<noteq> 0 then 1 else 0)) * (sz div 2)"

definition lcd_showchar :: "u16 \<Rightarrow> u16 \<Rightarrow> u8 \<Rightarrow> u8 \<Rightarrow> u8 \<Rightarrow> lcd_world \<Rightarrow> lcd_world option" where
  "lcd_showchar x y num sz mode w =
     (let csize = char_size sz; num = num - 32
      in showchar_bytes num sz mode y [0..<unat csize] x y w)"

text \<open>
  The loop of \<open>lcd_driver_showstring\<close>, over the characters up to the first one outside the range of the
  fonts (at the latest the terminating NUL).
\<close>

fun showstring_loop :: "u16 \<Rightarrow> u16 \<Rightarrow> u16 \<Rightarrow> u8 \<Rightarrow> u8 list \<Rightarrow> u16 \<Rightarrow> u16 \<Rightarrow> lcd_world \<Rightarrow> lcd_world option" where
  "showstring_loop x0 width height sz [] x y w = Some w"
| "showstring_loop x0 width height sz (c # cs) x y w =
     (if c \<le> 0x7E \<and> c \<ge> 0x20 then
        (let (x, y) = (if x \<ge> width then (x0, y + ucast sz) else (x, y))
         in if y \<ge> height then Some w
            else case lcd_showchar x y c sz 0 w of
                   None \<Rightarrow> None
                 | Some w \<Rightarrow> showstring_loop x0 width height sz cs (x + ucast (sz div 2)) y w)
      else Some w)"

definition lcd_driver_showstring ::
  "u16 \<Rightarrow> u16 \<Rightarrow> u16 \<Rightarrow> u16 \<Rightarrow> u8 \<Rightarrow> u8 list \<Rightarrow> lcd_world \<Rightarrow> lcd_world option" where
  "lcd_driver_showstring x y width height sz p w =
     (let x0 = ucast x :: u8; width = width + x; height = height + y
      in showstring_loop (ucast x0) width height sz p x y w)"

section \<open>Numbers\<close>

definition lcd_pow :: "u8 \<Rightarrow> u8 \<Rightarrow> u32" where
  "lcd_pow m n = ((\<lambda>result. result * ucast m) ^^ unat n) 1"

text \<open>The loop over \<open>t\<close>, with \<open>n\<close> digits left. A zero divisor does not occur for the lengths used.\<close>

fun show_num_loop ::
  "u16 \<Rightarrow> u16 \<Rightarrow> u32 \<Rightarrow> u8 \<Rightarrow> u8 \<Rightarrow> u8 \<Rightarrow> nat list \<Rightarrow> bool \<Rightarrow> lcd_world \<Rightarrow> lcd_world option" where
  "show_num_loop x y num len sz mode [] enshow w = Some w"
| "show_num_loop x y num len sz mode (t # ts) enshow w =
     (let temp = ucast (num div lcd_pow 10 (len - word_of_nat t - 1) mod 10) :: u8;
          px = x + ucast (sz div 2) * word_of_nat t;
          leading = (\<not> enshow \<and> int t < int (unat len) - 1)
      in if leading \<and> temp = 0 then
           (case lcd_showchar px y (if mode AND 0x80 \<noteq> 0 then 0x30 else 0x20) sz (mode AND 0x01) w of
              None \<Rightarrow> None
            | Some w \<Rightarrow> show_num_loop x y num len sz mode ts enshow w)
         else
           (case lcd_showchar px y (temp + 0x30) sz (mode AND 0x01) w of
              None \<Rightarrow> None
            | Some w \<Rightarrow> show_num_loop x y num len sz mode ts (if leading then True else enshow) w))"

definition lcd_driver_show_num ::
  "u16 \<Rightarrow> u16 \<Rightarrow> u32 \<Rightarrow> u8 \<Rightarrow> u8 \<Rightarrow> u8 \<Rightarrow> lcd_world \<Rightarrow> lcd_world option" where
  "lcd_driver_show_num x y num len sz mode w = show_num_loop x y num len sz mode [0..<unat len] False w"

definition lcd_driver_show_extra_num ::
  "u16 \<Rightarrow> u16 \<Rightarrow> u32 \<Rightarrow> u8 \<Rightarrow> u8 \<Rightarrow> u8 \<Rightarrow> lcd_world \<Rightarrow> lcd_world option" where
  "lcd_driver_show_extra_num x y num len sz mode w = show_num_loop x y num len sz mode [0..<unat len] False w"

section \<open>Configuration\<close>

definition lcd_scan_dir :: "u8 \<Rightarrow> lcd_world \<Rightarrow> lcd_world" where
  "lcd_scan_dir dir w =
     (let regval =
            (if dir = L2R_U2D then 0
             else if dir = L2R_D2U then 0x80
             else if dir = R2L_U2D then 0x40
             else if dir = R2L_D2U then 0xC0
             else if dir = U2D_L2R then 0x20
             else if dir = U2D_R2L then 0x60
             else if dir = D2U_L2R then 0xA0
             else if dir = D2U_R2L then 0xE0 else 0) :: u16;
          w = lcd_wr_reg_data 0x3600 regval w;
          I = gLcdInfo w;
          swap = I\<lparr>lcd_width := lcd_height I, lcd_height := ucast (ucast (lcd_width I) :: u16)\<rparr>;
          I = (if regval AND 0x20 \<noteq> 0 then if lcd_width I < lcd_height I then swap else I
               else if lcd_width I > lcd_height I then swap else I);
          w = w\<lparr>gLcdInfo := I\<rparr>;
          w = lcd_wr_data 0 (lcd_wr_reg (setxcmd I) w);
          w = lcd_wr_data 0 (lcd_wr_reg (setxcmd I + 1) w);
          w = lcd_wr_data (ucast (drop_bit 8 (lcd_width I - 1))) (lcd_wr_reg (setxcmd I + 2) w);
          w = lcd_wr_data (ucast ((lcd_width I - 1) AND 0xFF)) (lcd_wr_reg (setxcmd I + 3) w);
          w = lcd_wr_data 0 (lcd_wr_reg (setycmd I) w);
          w = lcd_wr_data 0 (lcd_wr_reg (setycmd I + 1) w);
          w = lcd_wr_data (ucast (drop_bit 8 (lcd_height I - 1))) (lcd_wr_reg (setycmd I + 2) w)
      in lcd_wr_data (ucast ((lcd_height I - 1) AND 0xFF)) (lcd_wr_reg (setycmd I + 3) w))"

definition lcd_display_dir :: "u8 \<Rightarrow> lcd_world \<Rightarrow> lcd_world" where
  "lcd_display_dir dir w =
     (let I = (gLcdInfo w)\<lparr>lcd_dir := ucast dir\<rparr>;
          I = (if dir = 0
               then I\<lparr>wramcmd := 0x2C00, setxcmd := 0x2A00, setycmd := 0x2B00, lcd_width := 480, lcd_height := 800\<rparr>
               else I\<lparr>wramcmd := 0x2C00, setxcmd := 0x2A00, setycmd := 0x2B00, lcd_width := 800, lcd_height := 480\<rparr>)
      in lcd_scan_dir DFT_SCAN_DIR (w\<lparr>gLcdInfo := I\<rparr>))"

text \<open>The register settings of \<open>lcd_config_init\<close>: power, the six gamma curves and the display control.\<close>

definition lcd_power_table :: "(u16 \<times> u16) list" where
  "lcd_power_table =
   [(0xF000, 0x55), (0xF001, 0xAA), (0xF002, 0x52), (0xF003, 0x08), (0xF004, 0x01), (0xB000, 0x0D),
    (0xB001, 0x0D), (0xB002, 0x0D), (0xB600, 0x34), (0xB601, 0x34), (0xB602, 0x34), (0xB100, 0x0D),
    (0xB101, 0x0D), (0xB102, 0x0D), (0xB700, 0x34), (0xB701, 0x34), (0xB702, 0x34), (0xB200, 0x00),
    (0xB201, 0x00), (0xB202, 0x00), (0xB800, 0x24), (0xB801, 0x24), (0xB802, 0x24), (0xBF00, 0x01),
    (0xB300, 0x0F), (0xB301, 0x0F), (0xB302, 0x0F), (0xB900, 0x34), (0xB901, 0x34), (0xB902, 0x34),
    (0xB500, 0x08), (0xB501, 0x08), (0xB502, 0x08), (0xC200, 0x03), (0xBA00, 0x24), (0xBA01, 0x24),
    (0xBA02, 0x24), (0xBC00, 0x00), (0xBC01, 0x78), (0xBC02, 0x00), (0xBD00, 0x00), (0xBD01, 0x78),
    (0xBD02, 0x00), (0xBE00, 0x00), (0xBE01, 0x64)]"

definition lcd_gamma_values :: "u16 list" where
  "lcd_gamma_values =
   [0x00, 0x33, 0x00, 0x34, 0x00, 0x3A, 0x00, 0x4A, 0x00, 0x5C, 0x00, 0x81, 0x00, 0xA6, 0x00, 0xE5,
    0x01, 0x13, 0x01, 0x54, 0x01, 0x82, 0x01, 0xCA, 0x02, 0x00, 0x02, 0x01, 0x02, 0x34, 0x02, 0x67,
    0x02, 0x84, 0x02, 0xA4, 0x02, 0xB7, 0x02, 0xCF, 0x02, 0xDE, 0x02, 0xF2, 0x02, 0xFE, 0x03, 0x10,
    0x03, 0x33, 0x03, 0x6D]"

definition lcd_page0_table :: "(u16 \<times> u16) list" where
  "lcd_page0_table =
   [(0xF000, 0x55), (0xF001, 0xAA), (0xF002, 0x52), (0xF003, 0x08), (0xF004, 0x00), (0xB100, 0xCC),
    (0xB101, 0x00), (0xB600, 0x05), (0xB700, 0x70), (0xB701, 0x70), (0xB800, 0x01), (0xB801, 0x03),
    (0xB802, 0x03), (0xB803, 0x03), (0xBC00, 0x02), (0xBC01, 0x00), (0xBC02, 0x00), (0xC900, 0xD0),
    (0xC901, 0x02), (0xC902, 0x50), (0xC903, 0x50), (0xC904, 0x50), (0x3500, 0x00), (0x3A00, 0x55)]"

text \<open>The six curves take the same values, in registers \<open>base\<close> to \<open>base + 0x33\<close>.\<close>

definition lcd_gamma :: "u16 \<Rightarrow> (u16 \<times> u16) list" where
  "lcd_gamma base = zip (map (\<lambda>i. base + word_of_nat i) [0..<52]) lcd_gamma_values"

definition lcd_gamma_1 :: "(u16 \<times> u16) list" where "lcd_gamma_1 = lcd_gamma 0xD100"
definition lcd_gamma_2 :: "(u16 \<times> u16) list" where "lcd_gamma_2 = lcd_gamma 0xD200"
definition lcd_gamma_3 :: "(u16 \<times> u16) list" where "lcd_gamma_3 = lcd_gamma 0xD300"
definition lcd_gamma_4 :: "(u16 \<times> u16) list" where "lcd_gamma_4 = lcd_gamma 0xD400"
definition lcd_gamma_5 :: "(u16 \<times> u16) list" where "lcd_gamma_5 = lcd_gamma 0xD500"
definition lcd_gamma_6 :: "(u16 \<times> u16) list" where "lcd_gamma_6 = lcd_gamma 0xD600"

definition lcd_settings :: "(u16 \<times> u16) list" where
  "lcd_settings = lcd_power_table @ lcd_gamma_1 @ lcd_gamma_2 @ lcd_gamma_3 @ lcd_gamma_4 @ lcd_gamma_5
     @ lcd_gamma_6 @ lcd_page0_table"

definition lcd_panel_init :: "lcd_world \<Rightarrow> lcd_world" where
  "lcd_panel_init w =
     (let w = fold (\<lambda>(reg, data). lcd_wr_reg_data reg data) lcd_settings w;
          w = lcd_emit (LcdDelayUs 120) (lcd_wr_reg 0x1100 w)
      in lcd_wr_reg 0x2900 w)"

definition lcd_config_init :: "lcd_bus \<Rightarrow> lcd_world \<Rightarrow> lcd_world" where
  "lcd_config_init rd w =
     (let (i, w) = lcd_rd_data rd (lcd_wr_reg 0xDA00 w);
          w = w\<lparr>gLcdInfo := (gLcdInfo w)\<lparr>lcd_id := i\<rparr>\<rparr>;
          (i, w) = lcd_rd_data rd (lcd_wr_reg 0xDB00 w);
          w = w\<lparr>gLcdInfo := (gLcdInfo w)\<lparr>lcd_id := push_bit 8 i\<rparr>\<rparr>;
          (i, w) = lcd_rd_data rd (lcd_wr_reg 0xDC00 w);
          w = w\<lparr>gLcdInfo := (gLcdInfo w)\<lparr>lcd_id := lcd_id (gLcdInfo w) OR i\<rparr>\<rparr>;
          w = (if lcd_id (gLcdInfo w) = 0x8000 then lcd_panel_init w else w);
          w = w\<lparr>bwtr := bwtr w AND NOT 0xF\<rparr>;
          w = w\<lparr>bwtr := bwtr w AND NOT 0xF00\<rparr>;
          w = w\<lparr>bwtr := bwtr w OR 4\<rparr>;
          w = w\<lparr>bwtr := bwtr w OR 0x400\<rparr>;
          w = lcd_display_dir 0 w;
          w = lcd_driver_clear WHITE w
      in lcd_emit (LcdHw (WritePin GPIOB GPIO_PIN_5 True)) w)"

text \<open>\<open>hal\<close> is the result of \<^verbatim>\<open>HAL_SRAM_Init\<close>.\<close>

definition lcd_hardware_init :: "HAL_StatusTypeDef \<Rightarrow> lcd_world \<Rightarrow> BaseType_t \<times> lcd_world" where
  "lcd_hardware_init hal w =
     (let w = lcd_emit (LcdHw (WritePin GPIOB GPIO_PIN_5 False)) w;
          w = lcd_emit (LcdHw (InitPin GPIOB (gpio_init0\<lparr>Pin := GPIO_PIN_5, Mode := GPIO_MODE_OUTPUT_PP,
                 Pull := GPIO_PULLUP, Speed := GPIO_SPEED_FREQ_HIGH\<rparr>))) w;
          w = lcd_emit LcdSram w
      in if hal \<noteq> HAL_OK then (pdFAIL, w) else (pdPASS, w))"

definition lcd_fill :: "u32 \<Rightarrow> lcd_world \<Rightarrow> lcd_world" where
  "lcd_fill color w = lcd_emit (LcdHw (DelayMs 100)) (lcd_driver_clear color w)"

definition lcd_test :: "lcd_world \<Rightarrow> lcd_world option" where
  "lcd_test w =
     (let w = lcd_fill WHITE w; w = lcd_fill BLACK w; w = lcd_fill BLUE w; w = lcd_fill RED w;
          w = lcd_fill MAGENTA w; w = lcd_fill GREEN w; w = lcd_driver_clear WHITE w
      in case lcd_driver_showstring 10 40 320 32 32 (str_bytes ''Apollo STM32F4/F7'') w of None \<Rightarrow> None
         | Some w \<Rightarrow> case lcd_driver_showstring 10 80 240 24 24 (str_bytes ''TFTLCD TEST'') w of None \<Rightarrow> None
         | Some w \<Rightarrow> case lcd_driver_showstring 10 110 240 16 16 (str_bytes ''ATOM@ALIENTEK'') w of None \<Rightarrow> None
         | Some w \<Rightarrow> case lcd_driver_showstring 10 140 320 16 16 (str_bytes ''TEMPERATE: 00.00C, Vol:00.00V'') w of None \<Rightarrow> None
         | Some w \<Rightarrow> lcd_driver_showstring 10 160 200 16 16 (str_bytes ''Timer: 00-00-00 00:00:00'') w)"

definition lcd_driver_init :: "lcd_bus \<Rightarrow> HAL_StatusTypeDef \<Rightarrow> lcd_world \<Rightarrow> (BaseType_t \<times> lcd_world) option" where
  "lcd_driver_init rd hal w =
     (let w = w\<lparr>gLcdInfo := \<lparr>lcd_id = 0, lcd_dir = 0, wramcmd = 0x2c00, setxcmd = 0x2a00, setycmd = 0x2b00,
                lcd_width = 480, lcd_height = 800\<rparr>\<rparr>;
          (result, w) = lcd_hardware_init hal w
      in if result = pdPASS then
           (case lcd_test (lcd_config_init rd (lcd_emit (LcdHw (DelayMs 20)) w)) of
              None \<Rightarrow> None
            | Some w \<Rightarrow> Some (result, w))
         else Some (result, w))"

section \<open>The panel\<close>

text \<open>
  The display controller: its registers, the register selected, the position the next data word goes
  to while the memory write command is selected, and the pixels. Selecting that command moves the
  position to the start of the window; each word advances it to the right and, at the window's right
  edge, to the start of the next row. This is the panel's memory: the registers for the scan direction
  (0x3600), sleep (0x1100) and display on (0x2900) only keep their values, and what the panel shows of
  its memory is not modelled.
\<close>

record panel =
  p_regs :: "u16 \<Rightarrow> u16"
  p_sel :: u16
  p_ptr :: "nat \<times> nat"
  p_pix :: "nat \<Rightarrow> nat \<Rightarrow> u16"

definition p_half :: "panel \<Rightarrow> u16 \<Rightarrow> nat" where
  "p_half p r = unat (p_regs p r) * 256 + unat (p_regs p (r + 1))"

definition p_next :: "panel \<Rightarrow> nat \<times> nat" where
  "p_next p = (if fst (p_ptr p) = p_half p 0x2A02 then (p_half p 0x2A00, snd (p_ptr p) + 1)
               else (fst (p_ptr p) + 1, snd (p_ptr p)))"

fun p_step :: "lcd_event \<Rightarrow> panel \<Rightarrow> panel" where
  "p_step (LcdReg r) p =
     p\<lparr>p_sel := r, p_ptr := (if r = 0x2C00 then (p_half p 0x2A00, p_half p 0x2B00) else p_ptr p)\<rparr>"
| "p_step (LcdRam d) p =
     (if p_sel p = 0x2C00
      then p\<lparr>p_pix := (p_pix p)(fst (p_ptr p) := (p_pix p (fst (p_ptr p)))(snd (p_ptr p) := d)), p_ptr := p_next p\<rparr>
      else p\<lparr>p_regs := (p_regs p)(p_sel p := d)\<rparr>)"
| "p_step _ p = p"

text \<open>The panel \<open>p0\<close> after a list of bus events, and after what a driver state recorded.\<close>

definition panel :: "panel \<Rightarrow> lcd_world \<Rightarrow> panel" where
  "panel p0 w = fold p_step (lcd_hist w) p0"

lemma panel_emit: "panel p0 (lcd_emit e w) = p_step e (panel p0 w)"
  by (simp add: panel_def lcd_emit_def)

lemma gLcdInfo_emit [simp]: "gLcdInfo (lcd_emit e w) = gLcdInfo w"
  by (simp add: lcd_emit_def)

lemma emit_wr: "gLcdInfo (lcd_wr_reg r w) = gLcdInfo w" "gLcdInfo (lcd_wr_data d w) = gLcdInfo w"
  "gLcdInfo (lcd_wr_reg_data r d w) = gLcdInfo w"
  by (simp_all add: lcd_wr_reg_def lcd_wr_data_def lcd_wr_reg_data_def)

abbreviation pixel :: "panel \<Rightarrow> lcd_world \<Rightarrow> nat \<Rightarrow> nat \<Rightarrow> u16" where
  "pixel p0 w \<equiv> p_pix (panel p0 w)"

text \<open>The commands the driver configured are those of the panel.\<close>

definition lcd_cmds :: "LCD_INFO \<Rightarrow> bool" where
  "lcd_cmds I \<longleftrightarrow> wramcmd I = 0x2C00 \<and> setxcmd I = 0x2A00 \<and> setycmd I = 0x2B00"

text \<open>The right edge of the panel's window is that of the screen, which is no larger than the positions allow.\<close>

definition lcd_ready :: "panel \<Rightarrow> lcd_world \<Rightarrow> bool" where
  "lcd_ready p0 w \<longleftrightarrow> lcd_cmds (gLcdInfo w)
     \<and> 0 < lcd_width (gLcdInfo w) \<and> unat (lcd_width (gLcdInfo w)) < 2 ^ 16
     \<and> 0 < lcd_height (gLcdInfo w) \<and> unat (lcd_height (gLcdInfo w)) < 2 ^ 16
     \<and> Suc (p_half (panel p0 w) 0x2A02) = unat (lcd_width (gLcdInfo w))"

abbreviation lcd_w :: "lcd_world \<Rightarrow> nat" where "lcd_w w \<equiv> unat (lcd_width (gLcdInfo w))"
abbreviation lcd_h :: "lcd_world \<Rightarrow> nat" where "lcd_h w \<equiv> unat (lcd_height (gLcdInfo w))"

lemma halves: "unat (drop_bit 8 (x :: u16)) * 256 + unat (x AND 0xFF) = unat x"
proof -
  have m: "x AND 0xFF = take_bit 8 x" by (simp add: take_bit_eq_mask mask_eq_exp_minus_1)
  have l: "unat x < 2 ^ LENGTH(16)" by (rule unsigned_less)
  show ?thesis unfolding m unsigned_drop_bit_eq unsigned_take_bit_eq
    using l by (simp add: drop_bit_eq_div take_bit_eq_mod)
qed

text \<open>Setting the cursor.\<close>

definition p_cursor :: "u16 \<Rightarrow> u16 \<Rightarrow> panel \<Rightarrow> panel" where
  "p_cursor x y p = p\<lparr>p_regs := (p_regs p)(0x2A00 := drop_bit 8 x, 0x2A01 := x AND 0xFF,
     0x2B00 := drop_bit 8 y, 0x2B01 := y AND 0xFF), p_sel := 0x2C00, p_ptr := (unat x, unat y)\<rparr>"

lemma panel_setcursor:
  assumes "lcd_cmds (gLcdInfo w)"
  shows "panel p0 (lcd_write_ram_prepare (lcd_setcursor x y w)) = p_cursor x y (panel p0 w)"
  using assms unfolding lcd_cmds_def lcd_setcursor_def lcd_write_ram_prepare_def lcd_wr_reg_def lcd_wr_data_def
  by (simp add: Let_def panel_emit p_cursor_def p_half_def halves)

lemma info_setcursor: "gLcdInfo (lcd_setcursor x y w) = gLcdInfo w" "gLcdInfo (lcd_write_ram_prepare w) = gLcdInfo w"
  by (simp_all add: lcd_setcursor_def lcd_write_ram_prepare_def Let_def emit_wr)

lemma p_half_cursor: "p_half (p_cursor x y p) 0x2A02 = p_half p 0x2A02"
  "p_half (p_cursor x y p) 0x2A00 = unat x" "p_half (p_cursor x y p) 0x2B00 = unat y"
  by (simp_all add: p_cursor_def p_half_def halves)

text \<open>Drawing a point changes that point.\<close>

definition set_pix :: "nat \<times> nat \<Rightarrow> u16 \<Rightarrow> (nat \<Rightarrow> nat \<Rightarrow> u16) \<Rightarrow> nat \<Rightarrow> nat \<Rightarrow> u16" where
  "set_pix c d f = f(fst c := (f (fst c))(snd c := d))"

lemma set_pix_apply: "set_pix c d f x y = (if (x, y) = c then d else f x y)"
  by (cases c) (auto simp: set_pix_def)

lemma drawpoint_emit:
  "lcd_fast_drawpoint x y color w =
     lcd_emit (LcdRam (ucast color)) (lcd_write_ram_prepare (lcd_setcursor x y w))"
  by (simp add: lcd_fast_drawpoint_def lcd_write_ram_prepare_def lcd_setcursor_def Let_def emit_wr)

lemma drawpoint_pixel:
  assumes "lcd_cmds (gLcdInfo w)"
  shows "pixel p0 (lcd_fast_drawpoint x y color w) = set_pix (unat x, unat y) (ucast color) (pixel p0 w)"
    and "p_half (panel p0 (lcd_fast_drawpoint x y color w)) 0x2A02 = p_half (panel p0 w) 0x2A02"
    and "gLcdInfo (lcd_fast_drawpoint x y color w) = gLcdInfo w"
  unfolding drawpoint_emit panel_emit panel_setcursor [OF assms]
  using p_half_cursor(1) [of x y "panel p0 w"]
  by (simp_all add: p_cursor_def set_pix_def p_half_def info_setcursor)

lemma drawpoint_ready: "lcd_ready p0 w \<Longrightarrow> lcd_ready p0 (lcd_fast_drawpoint x y color w)"
  unfolding lcd_ready_def by (elim conjE) (simp add: drawpoint_pixel)

section \<open>Clearing the screen\<close>

lemma fill_row_major:
  fixes d :: u16
  assumes "p_sel p = 0x2C00" and "p_ptr p = (0, 0)" and "p_half p 0x2A00 = 0" and "Suc (p_half p 0x2A02) = n"
  defines "q k \<equiv> (p_step (LcdRam d) ^^ k) p"
  shows "p_sel (q k) = 0x2C00 \<and> p_regs (q k) = p_regs p \<and> p_ptr (q k) = (k mod n, k div n)
       \<and> (\<forall>x y. p_pix (q k) x y = (if x < n \<and> y * n + x < k then d else p_pix p x y))"
proof (induction k)
  case 0
  then show ?case using assms by simp
next
  case (Suc k)
  have n: "0 < n" using assms(4) by simp
  have h: "p_half (q k) 0x2A00 = 0" "p_half (q k) 0x2A02 = n - 1"
    using Suc assms(3,4) by (auto simp: p_half_def)
  have q: "q (Suc k) = p_step (LcdRam d) (q k)" by (simp add: q_def)
  have nx: "p_next (q k) = (Suc k mod n, Suc k div n)"
    using Suc h n by (auto simp: p_next_def mod_Suc div_Suc)
  have e: "(x = k mod n \<and> y = k div n) \<longleftrightarrow> x < n \<and> y * n + x = k" for x y
    using n by (auto simp: mult.commute)
  have pp: "p_pix (q (Suc k)) x y = (if x < n \<and> y * n + x < Suc k then d else p_pix p x y)" for x y
    using Suc e [of x y] by (auto simp: q less_Suc_eq)
  show ?case using Suc nx pp by (simp add: q)
qed

lemma clear_spec:
  assumes "lcd_ready p0 w" and "lcd_w w * lcd_h w < 2 ^ 32"
  shows "lcd_ready p0 (lcd_driver_clear color w) \<and> gLcdInfo (lcd_driver_clear color w) = gLcdInfo w
    \<and> (\<forall>x y. pixel p0 (lcd_driver_clear color w) x y
          = (if x < lcd_w w \<and> y < lcd_h w then ucast color else pixel p0 w x y))"
proof -
  define n where "n = unat (lcd_width (gLcdInfo w) * lcd_height (gLcdInfo w))"
  define v where "v = lcd_write_ram_prepare (lcd_setcursor 0 0 w)"
  have n: "n = lcd_w w * lcd_h w" using assms(2) by (simp add: n_def unat_word_ariths)
  have cl: "lcd_driver_clear color w = (lcd_emit (LcdRam (ucast color)) ^^ n) v"
    by (simp add: lcd_driver_clear_def Let_def v_def n_def)
  have it: "panel p0 ((lcd_emit e ^^ k) v) = (p_step e ^^ k) (panel p0 v) \<and> gLcdInfo ((lcd_emit e ^^ k) v) = gLcdInfo v"
    for e k by (induction k) (simp_all add: panel_emit)
  have cmds: "lcd_cmds (gLcdInfo w)" and we: "Suc (p_half (panel p0 w) 0x2A02) = lcd_w w"
    using assms(1) by (simp_all add: lcd_ready_def)
  have pv: "panel p0 v = p_cursor 0 0 (panel p0 w)" unfolding v_def by (rule panel_setcursor [OF cmds])
  have iv: "gLcdInfo v = gLcdInfo w" by (simp add: v_def info_setcursor)
  let ?q = "(p_step (LcdRam (ucast color)) ^^ n) (panel p0 v)"
  have f: "p_sel ?q = 0x2C00 \<and> p_regs ?q = p_regs (panel p0 v) \<and> p_ptr ?q = (n mod lcd_w w, n div lcd_w w)
       \<and> (\<forall>x y. p_pix ?q x y = (if x < lcd_w w \<and> y * lcd_w w + x < n then ucast color else p_pix (panel p0 v) x y))"
    by (rule fill_row_major) (simp_all add: pv p_half_cursor we, simp_all add: p_cursor_def)
  have in_n: "x < lcd_w w \<Longrightarrow> y * lcd_w w + x < n \<longleftrightarrow> y < lcd_h w" for x y
  proof -
    assume x: "x < lcd_w w"
    show "y * lcd_w w + x < n \<longleftrightarrow> y < lcd_h w"
    proof
      assume "y * lcd_w w + x < n"
      then have "y * lcd_w w < lcd_h w * lcd_w w" unfolding n by (metis add_lessD1 mult.commute)
      then show "y < lcd_h w" by (rule mult_less_cancel2 [THEN iffD1, THEN conjunct2])
    next
      assume "y < lcd_h w"
      then have "Suc y * lcd_w w \<le> lcd_h w * lcd_w w" by (intro mult_le_mono1) simp
      then show "y * lcd_w w + x < n" using x unfolding n by (simp add: mult.commute)
    qed
  qed
  have pc: "panel p0 (lcd_driver_clear color w) = ?q" "gLcdInfo (lcd_driver_clear color w) = gLcdInfo w"
    unfolding cl using it [where e = "LcdRam (ucast color)" and k = n] iv by simp_all
  have "p_half ?q 0x2A02 = p_half (panel p0 w) 0x2A02"
    using f p_half_cursor(1) [of 0 0 "panel p0 w"] by (simp add: p_half_def pv)
  then have r: "lcd_ready p0 (lcd_driver_clear color w)" using assms(1) by (simp add: lcd_ready_def pc)
  have "p_pix (panel p0 v) = pixel p0 w" by (simp add: pv p_cursor_def)
  then show ?thesis using f r pc in_n by auto
qed

section \<open>Configuration\<close>

lemma upd_same: "gLcdInfo v = I \<Longrightarrow> v\<lparr>gLcdInfo := I\<rparr> = v"
  by (cases v) simp

lemma window_end_dir0:
  assumes "dir = L2R_U2D"
    and "gLcdInfo w = I" and "lcd_cmds I" and "lcd_width I = 480" and "lcd_height I = 800"
  shows "gLcdInfo (lcd_scan_dir dir w) = I \<and> Suc (p_half (panel p0 (lcd_scan_dir dir w)) 0x2A02) = 480"
proof -
  have regs: "setxcmd I = 0x2A00" "setycmd I = 0x2B00" "wramcmd I = 0x2C00"
    using assms(3) by (simp_all add: lcd_cmds_def)
  have s: "lcd_scan_dir dir w =
    lcd_wr_data 0x1F (lcd_wr_reg 0x2B03 (lcd_wr_data 3 (lcd_wr_reg 0x2B02 (lcd_wr_data 0 (lcd_wr_reg 0x2B01
    (lcd_wr_data 0 (lcd_wr_reg 0x2B00 (lcd_wr_data 0xDF (lcd_wr_reg 0x2A03 (lcd_wr_data 1 (lcd_wr_reg 0x2A02
    (lcd_wr_data 0 (lcd_wr_reg 0x2A01 (lcd_wr_data 0 (lcd_wr_reg 0x2A00 (lcd_wr_reg_data 0x3600 0 w))))))))))))))))"
    unfolding lcd_scan_dir_def Let_def
    using assms(1) by (simp add: L2R_U2D_def regs assms(2,4,5) emit_wr upd_same)
  show ?thesis unfolding s
    by (simp add: assms(2) emit_wr lcd_wr_reg_def lcd_wr_data_def lcd_wr_reg_data_def panel_emit p_half_def)
qed

lemma display_dir_0:
  "gLcdInfo (lcd_display_dir 0 w) = \<lparr>lcd_id = lcd_id (gLcdInfo w), lcd_dir = 0, wramcmd = 0x2C00,
     setxcmd = 0x2A00, setycmd = 0x2B00, lcd_width = 480, lcd_height = 800\<rparr>"
  "lcd_ready p0 (lcd_display_dir 0 w)"
proof -
  define I where "I = \<lparr>lcd_id = lcd_id (gLcdInfo w), lcd_dir = 0, wramcmd = 0x2C00,
     setxcmd = 0x2A00, setycmd = 0x2B00, lcd_width = 480, lcd_height = 800\<rparr>"
  have I: "lcd_cmds I" "lcd_width I = 480" "lcd_height I = 800" by (simp_all add: I_def lcd_cmds_def)
  have e: "lcd_display_dir 0 w = lcd_scan_dir L2R_U2D (w\<lparr>gLcdInfo := I\<rparr>)"
    by (cases "gLcdInfo w") (simp add: lcd_display_dir_def Let_def DFT_SCAN_DIR_def I_def)
  have g: "gLcdInfo (w\<lparr>gLcdInfo := I\<rparr>) = I" by simp
  note r = window_end_dir0 [OF refl g I, of p0]
  show "gLcdInfo (lcd_display_dir 0 w) = \<lparr>lcd_id = lcd_id (gLcdInfo w), lcd_dir = 0, wramcmd = 0x2C00,
     setxcmd = 0x2A00, setycmd = 0x2B00, lcd_width = 480, lcd_height = 800\<rparr>"
    using r unfolding e I_def [symmetric] by blast
  show "lcd_ready p0 (lcd_display_dir 0 w)"
    unfolding lcd_ready_def e using r I by simp
qed

definition blank :: "panel \<Rightarrow> lcd_world \<Rightarrow> u16 \<Rightarrow> bool" where
  "blank p0 w c \<longleftrightarrow> lcd_ready p0 w \<and> lcd_width (gLcdInfo w) = 480 \<and> lcd_height (gLcdInfo w) = 800
     \<and> (\<forall>x<480. \<forall>y<800. pixel p0 w x y = c)"

lemma clear_blank:
  assumes "lcd_ready p0 w" and "lcd_width (gLcdInfo w) = 480" and "lcd_height (gLcdInfo w) = 800"
  shows "blank p0 (lcd_driver_clear color w) (ucast color)"
  using clear_spec [OF assms(1), of color] assms(2,3) by (simp add: blank_def)

lemma panel_other: "lcd_ready p0 (lcd_emit (LcdHw e) w) = lcd_ready p0 w" "panel p0 (lcd_emit (LcdHw e) w) = panel p0 w"
  by (simp_all add: lcd_ready_def panel_emit)

lemma blank_hw: "blank p0 (lcd_emit (LcdHw e) w) c = blank p0 w c"
  by (simp add: blank_def panel_other)

lemma config_blank: "blank p0 (lcd_config_init rd w) 0xFFFF"
proof -
  obtain v where v: "lcd_config_init rd w =
      lcd_emit (LcdHw (WritePin GPIOB GPIO_PIN_5 True)) (lcd_driver_clear WHITE (lcd_display_dir 0 v))"
    unfolding lcd_config_init_def Let_def split_beta by blast
  have "blank p0 (lcd_driver_clear WHITE (lcd_display_dir 0 v)) (ucast WHITE)"
    by (rule clear_blank) (simp_all add: display_dir_0)
  then show ?thesis by (simp add: v blank_hw WHITE_def)
qed

section \<open>Properties\<close>

text \<open>
  With the panel's window configured as the driver does, lcd_driver_clear sets every pixel of
  the screen to the color and no other, by streaming width times height words from the top left
  corner.
\<close>

lemma lcd_clear_fills_screen:
  assumes "lcd_ready p0 w" and "lcd_w w * lcd_h w < 2 ^ 32"
  shows "lcd_ready p0 (lcd_driver_clear color w)
    \<and> (\<forall>x y. pixel p0 (lcd_driver_clear color w) x y
          = (if x < lcd_w w \<and> y < lcd_h w then ucast color else pixel p0 w x y))"
  using clear_spec [OF assms] by blast

definition demo_panel :: panel where
  "demo_panel = \<lparr>p_regs = (\<lambda>_. 0)(0x2A02 := 1, 0x2A03 := 0xDF), p_sel = 0, p_ptr = (0, 0), p_pix = (\<lambda>_ _. 7)\<rparr>"

definition demo_lcd :: lcd_world where
  "demo_lcd = \<lparr>gLcdInfo = \<lparr>lcd_id = 0x8000, lcd_dir = 0, wramcmd = 0x2C00, setxcmd = 0x2A00, setycmd = 0x2B00,
     lcd_width = 480, lcd_height = 800\<rparr>, lcd_hist = [], bwtr = 0\<rparr>"

lemma demo_lcd_facts:
  "lcd_width (gLcdInfo demo_lcd) = 480" "lcd_height (gLcdInfo demo_lcd) = 800" "lcd_ready demo_panel demo_lcd"
  "pixel demo_panel demo_lcd = (\<lambda>_ _. 7)"
proof -
  show g: "lcd_width (gLcdInfo demo_lcd) = 480" "lcd_height (gLcdInfo demo_lcd) = 800"
    by (simp_all add: demo_lcd_def)
  show "lcd_ready demo_panel demo_lcd"
    unfolding lcd_ready_def g by (simp add: demo_lcd_def lcd_cmds_def panel_def p_half_def demo_panel_def)
  show "pixel demo_panel demo_lcd = (\<lambda>_ _. 7)" by (simp add: panel_def demo_lcd_def demo_panel_def)
qed

end
