(* ===== verification/Lcd_Text.thy ===== *)
theory Lcd_Text
  imports Lcd
begin

text \<open>
  What the text operations of the display driver draw: a character is its glyph, a string a row of
  characters broken at the right edge of its box, a number its right-aligned decimal digits.
\<close>

section \<open>Points and columns\<close>

definition plot :: "u8 \<Rightarrow> bool \<Rightarrow> nat \<times> nat \<Rightarrow> (nat \<Rightarrow> nat \<Rightarrow> u16) \<Rightarrow> nat \<Rightarrow> nat \<Rightarrow> u16" where
  "plot mode b c f = (if b then set_pix c 0 f else if mode = 0 then set_pix c 0xFFFF f else f)"

primrec plot_col :: "u8 \<Rightarrow> nat \<Rightarrow> nat \<Rightarrow> bool list \<Rightarrow> (nat \<Rightarrow> nat \<Rightarrow> u16) \<Rightarrow> nat \<Rightarrow> nat \<Rightarrow> u16" where
  "plot_col mode X Y [] f = f"
| "plot_col mode X Y (b # bs) f = plot_col mode X (Suc Y) bs (plot mode b (X, Y) f)"

lemma plot_col_append:
  "plot_col mode X Y (as @ bs) f = plot_col mode X (Y + length as) bs (plot_col mode X Y as f)"
  by (induction as arbitrary: Y f) simp_all

definition ink :: "u8 \<Rightarrow> bool \<Rightarrow> u16 \<Rightarrow> u16" where
  "ink mode b old = (if b then 0 else if mode = 0 then 0xFFFF else old)"

lemma plot_apply: "plot mode b c f x y = (if (x, y) = c then ink mode b (f x y) else f x y)"
  by (simp add: plot_def ink_def set_pix_apply)

lemma plot_col_apply:
  "plot_col mode X Y bs f x y =
     (if x = X \<and> Y \<le> y \<and> y < Y + length bs then ink mode (bs ! (y - Y)) (f x y) else f x y)"
proof (induction bs arbitrary: Y f)
  case Nil
  then show ?case by auto
next
  case (Cons b bs)
  show ?case
  proof (cases "y = Y")
    case True
    show ?thesis by (simp add: Cons.IH plot_apply True [symmetric])
  next
    case False
    then have "Suc Y \<le> y \<longleftrightarrow> Y \<le> y" and "Y \<le> y \<Longrightarrow> (b # bs) ! (y - Y) = bs ! (y - Suc Y)"
      by (auto simp: nth_Cons')
    then show ?thesis using False by (auto simp: Cons.IH plot_apply)
  qed
qed

lemma unat_ge_iff:
  "ucast (a :: u16) \<ge> (b :: u32) \<longleftrightarrow> unat b \<le> unat a"
proof -
  have "unat a < 2 ^ LENGTH(16)" by (rule unsigned_less)
  then have "take_bit 32 (unat a) = unat a" by (intro take_bit_nat_eq_self) simp
  then show ?thesis by (simp add: word_le_nat_alt unsigned_ucast_eq)
qed

lemma int_diff_eq_iff: "int a - int b = int c \<longleftrightarrow> a = b + c"
  by linarith

text \<open>One round of the inner loop, after drawing.\<close>

definition drawn :: "u8 \<Rightarrow> u8 \<Rightarrow> u16 \<Rightarrow> u16 \<Rightarrow> lcd_world \<Rightarrow> lcd_world" where
  "drawn temp mode x y w = (if temp AND 0x80 \<noteq> 0 then lcd_fast_drawpoint x y POINT_COLOR w
     else if mode = 0 then lcd_fast_drawpoint x y BACK_COLOR w else w)"

lemma bits_step:
  "showchar_bits sz mode y0 (Suc n) temp x y w =
     (let v = drawn temp mode x y w
      in if lcd_h v \<le> unat (y + 1) then (True, x, y + 1, v)
         else if unat (y + 1) = unat y0 + unat sz then (lcd_w v \<le> unat (x + 1), x + 1, y0, v)
         else showchar_bits sz mode y0 n (push_bit 1 temp) x (y + 1) v)"
  unfolding showchar_bits.simps Let_def drawn_def unat_ge_iff int_diff_eq_iff ..

lemma draw_step:
  assumes "lcd_ready p0 w"
  shows "lcd_ready p0 (drawn temp mode x y w) \<and> gLcdInfo (drawn temp mode x y w) = gLcdInfo w
    \<and> pixel p0 (drawn temp mode x y w) = plot mode (msb temp) (unat x, unat y) (pixel p0 w)"
proof -
  have c: "lcd_cmds (gLcdInfo w)" using assms(1) by (simp add: lcd_ready_def)
  have k: "ucast POINT_COLOR = (0 :: u16)" "ucast BACK_COLOR = (0xFFFF :: u16)"
    by (simp_all add: POINT_COLOR_def BACK_COLOR_def)
  show ?thesis
    using assms(1) by (auto simp: drawn_def plot_def msb_def drawpoint_pixel [OF c] drawpoint_ready k)
qed

section \<open>Nothing is drawn outside the screen\<close>

definition on_screen :: "lcd_world \<Rightarrow> nat \<Rightarrow> nat \<Rightarrow> bool" where
  "on_screen w x y \<longleftrightarrow> x < lcd_w w \<and> y < lcd_h w"

definition keeps_outside :: "panel \<Rightarrow> lcd_world \<Rightarrow> lcd_world \<Rightarrow> bool" where
  "keeps_outside p0 w w' \<longleftrightarrow> lcd_ready p0 w' \<and> gLcdInfo w' = gLcdInfo w
     \<and> (\<forall>x y. \<not> on_screen w x y \<longrightarrow> pixel p0 w' x y = pixel p0 w x y)"

lemma keeps_outside_trans:
  "keeps_outside p0 u v \<Longrightarrow> keeps_outside p0 v w \<Longrightarrow> keeps_outside p0 u w"
  by (auto simp: keeps_outside_def on_screen_def)

lemma keeps_outside_refl: "lcd_ready p0 w \<Longrightarrow> keeps_outside p0 w w"
  by (simp add: keeps_outside_def)

lemma draw_outside:
  assumes "lcd_ready p0 w" and "on_screen w (unat x) (unat y)"
  shows "keeps_outside p0 w (drawn temp mode x y w)"
  using draw_step [OF assms(1), of temp mode x y] assms(2) by (auto simp: keeps_outside_def plot_apply)

lemma bits_outside:
  assumes "lcd_ready p0 w" and "on_screen w (unat x) (unat y)" and "unat y0 < lcd_h w"
    and "showchar_bits sz mode y0 n temp x y w = (r, x', y', w')"
  shows "keeps_outside p0 w w' \<and> (\<not> r \<longrightarrow> on_screen w (unat x') (unat y'))"
  using assms
proof (induction n arbitrary: temp y w)
  case 0
  then show ?case by (auto simp: keeps_outside_refl)
next
  case (Suc n)
  let ?v = "drawn temp mode x y w"
  have k: "keeps_outside p0 w ?v" by (rule draw_outside [OF Suc.prems(1,2)])
  then have v: "lcd_ready p0 ?v" "gLcdInfo ?v = gLcdInfo w" by (simp_all add: keeps_outside_def)
  note e = Suc.prems(4) [unfolded bits_step Let_def v(2)]
  consider (bottom) "lcd_h w \<le> unat (y + 1)"
    | (column) "\<not> lcd_h w \<le> unat (y + 1)" "unat (y + 1) = unat y0 + unat sz"
    | (inner) "\<not> lcd_h w \<le> unat (y + 1)" "unat (y + 1) \<noteq> unat y0 + unat sz" by blast
  then show ?case
  proof cases
    case bottom
    then show ?thesis using e k by auto
  next
    case column
    then show ?thesis using e k Suc.prems(3) by (auto simp: on_screen_def)
  next
    case inner
    then have e: "showchar_bits sz mode y0 n (push_bit 1 temp) x (y + 1) ?v = (r, x', y', w')"
      using e by (simp only: if_False)
    have o: "on_screen ?v (unat x) (unat (y + 1))" using Suc.prems(2) inner(1) by (simp add: on_screen_def v)
    have h: "unat y0 < lcd_h ?v" using Suc.prems(3) by (simp add: v)
    show ?thesis using Suc.IH [OF v(1) o h e] k by (auto simp: on_screen_def v intro: keeps_outside_trans)
  qed
qed

lemma bytes_outside:
  assumes "lcd_ready p0 w" and "on_screen w (unat x) (unat y)" and "unat y0 < lcd_h w"
    and "showchar_bytes num sz mode y0 ts x y w = Some w'"
  shows "keeps_outside p0 w w'"
  using assms
proof (induction ts arbitrary: x y w)
  case Nil
  then show ?case by (simp add: keeps_outside_refl)
next
  case (Cons t ts)
  show ?case
  proof (cases "lcd_font sz num t")
    case (Inl r)
    then show ?thesis using Cons.prems by (auto simp: keeps_outside_refl split: if_splits)
  next
    case (Inr temp)
    obtain r x1 y1 w1 where b: "showchar_bits sz mode y0 8 temp x y w = (r, x1, y1, w1)"
      by (metis prod_cases4)
    note k = bits_outside [OF Cons.prems(1-3) b]
    show ?thesis
    proof (cases r)
      case True
      then show ?thesis using Cons.prems(4) k by (simp add: Inr b)
    next
      case False
      then have e: "showchar_bytes num sz mode y0 ts x1 y1 w1 = Some w'" using Cons.prems(4) by (simp add: Inr b)
      have i: "lcd_ready p0 w1" "gLcdInfo w1 = gLcdInfo w" using k by (simp_all add: keeps_outside_def)
      have "keeps_outside p0 w1 w'"
        using k False Cons.prems(3) by (intro Cons.IH [OF i(1) _ _ e]) (simp_all add: on_screen_def i(2))
      then show ?thesis using k keeps_outside_trans by blast
    qed
  qed
qed

section \<open>A character is its glyph\<close>

lemma bits_run:
  assumes "lcd_ready p0 w" and "unat y = unat y0 + j" and "j < unat sz" and "unat y0 + unat sz \<le> lcd_h w"
    and "showchar_bits sz mode y0 n temp x y w = (r, x', y', w')"
  shows "lcd_ready p0 w' \<and> gLcdInfo w' = gLcdInfo w
    \<and> pixel p0 w' = plot_col mode (unat x) (unat y) (take (unat sz - j) (top_bits n temp)) (pixel p0 w)
    \<and> (if n + j < unat sz then \<not> r \<and> x' = x \<and> unat y' = unat y + n
       else (r \<longleftrightarrow> lcd_w w \<le> unat (x + 1) \<or> lcd_h w = unat y0 + unat sz) \<and> (r \<or> x' = x + 1 \<and> y' = y0))"
  using assms
proof (induction n arbitrary: temp y w j)
  case 0
  then show ?case by auto
next
  case (Suc n)
  let ?v = "drawn temp mode x y w"
  have v: "lcd_ready p0 ?v" "gLcdInfo ?v = gLcdInfo w"
    "pixel p0 ?v = plot mode (msb temp) (unat x, unat y) (pixel p0 w)"
    using draw_step [OF Suc.prems(1)] by blast+
  have h: "lcd_h w < 2 ^ 16" using Suc.prems(1) by (simp add: lcd_ready_def)
  have y1: "unat (y + 1) = unat y + 1"
    using Suc.prems(2-4) h by (simp add: unat_word_ariths)
  have below: "(lcd_h w \<le> unat (y + 1)) = (Suc j = unat sz \<and> lcd_h w = unat y0 + unat sz)"
    using Suc.prems(2-4) y1 by auto
  have last: "(unat (y + 1) = unat y0 + unat sz) = (Suc j = unat sz)"
    using Suc.prems(2) y1 by auto
  note e = Suc.prems(5) [unfolded bits_step Let_def v(2) below last]
  show ?case
  proof (cases "Suc j = unat sz")
    case True
    then have "unat sz - j = 1" by simp
    then show ?thesis using e True v by (auto simp: take_Cons' split: if_splits)
  next
    case False
    have d: "unat sz - j = Suc (unat sz - Suc j)" using Suc.prems(3) by simp
    have "showchar_bits sz mode y0 n (push_bit 1 temp) x (y + 1) ?v = (r, x', y', w')"
      using e False by (simp only: if_False simp_thms)
    from Suc.IH [OF v(1) _ _ _ this, of "Suc j"] show ?thesis
      using False Suc.prems(2-4) v y1 by (auto simp: d)
  qed
qed

lemma col_run:
  assumes "lcd_ready p0 w" and "unat y = unat y0 + j" and "unat y0 + unat sz \<le> lcd_h w"
    and "\<forall>t\<in>set ts. lcd_font sz num t = Inr (g t)"
    and "j + 8 * length ts < unat sz + 8" and "unat sz \<le> j + 8 * length ts" and "j < unat sz"
  shows "\<exists>w'. lcd_ready p0 w' \<and> gLcdInfo w' = gLcdInfo w
    \<and> pixel p0 w' = plot_col mode (unat x) (unat y)
        (take (unat sz - j) (concat (map (\<lambda>t. byte_bits (g t)) ts))) (pixel p0 w)
    \<and> showchar_bytes num sz mode y0 (ts @ rest) x y w =
        (if lcd_w w \<le> unat (x + 1) \<or> lcd_h w = unat y0 + unat sz then Some w' else showchar_bytes num sz mode y0 rest (x + 1) y0 w')"
  using assms
proof (induction ts arbitrary: y w j)
  case Nil
  then show ?case by simp
next
  case (Cons t ts)
  obtain r x1 y1 w1 where b: "showchar_bits sz mode y0 8 (g t) x y w = (r, x1, y1, w1)"
    by (metis prod_cases4)
  note k = bits_run [OF Cons.prems(1,2,7,3) b, unfolded top_bits_8]
  have f: "lcd_font sz num t = Inr (g t)" using Cons.prems(4) by simp
  show ?case
  proof (cases "8 + j < unat sz")
    case True
    then have k: "lcd_ready p0 w1" "gLcdInfo w1 = gLcdInfo w" "\<not> r" "x1 = x" "unat y1 = unat y + 8"
      "pixel p0 w1 = plot_col mode (unat x) (unat y) (byte_bits (g t)) (pixel p0 w)"
      using k by simp_all
    have "\<exists>w'. lcd_ready p0 w' \<and> gLcdInfo w' = gLcdInfo w1
      \<and> pixel p0 w' = plot_col mode (unat x) (unat y1)
          (take (unat sz - (j + 8)) (concat (map (\<lambda>t. byte_bits (g t)) ts))) (pixel p0 w1)
      \<and> showchar_bytes num sz mode y0 (ts @ rest) x y1 w1 =
          (if lcd_w w1 \<le> unat (x + 1) \<or> lcd_h w1 = unat y0 + unat sz then Some w' else showchar_bytes num sz mode y0 rest (x + 1) y0 w')"
      using Cons.prems k True by (intro Cons.IH) simp_all
    moreover have "take (unat sz - j) (concat (map (\<lambda>t. byte_bits (g t)) (t # ts)))
        = byte_bits (g t) @ take (unat sz - (j + 8)) (concat (map (\<lambda>t. byte_bits (g t)) ts))"
      using True by simp
    ultimately show ?thesis using k by (simp add: f b plot_col_append)
  next
    case False
    then have ts: "ts = []" using Cons.prems(5) by (cases ts) simp_all
    show ?thesis using k False by (auto simp: f b ts)
  qed
qed

text \<open>The bytes a column takes, and a point of a glyph.\<close>

definition col_bytes :: "u8 \<Rightarrow> nat" where
  "col_bytes sz = (unat sz + 7) div 8"

definition glyph_bit :: "u8 \<Rightarrow> u8 \<Rightarrow> nat \<Rightarrow> nat \<Rightarrow> bool" where
  "glyph_bit sz num i j =
     (case lcd_font sz num (i * col_bytes sz + j div 8) of Inr b \<Rightarrow> byte_bits b ! (j mod 8) | Inl _ \<Rightarrow> False)"

lemma concat_bytes_nth:
  "j < 8 * length bs \<Longrightarrow> concat (map byte_bits bs) ! j = byte_bits (bs ! (j div 8)) ! (j mod 8)"
proof (induction bs arbitrary: j)
  case Nil
  then show ?case by simp
next
  case (Cons b bs)
  show ?case
  proof (cases "j < 8")
    case False
    then have "concat (map byte_bits bs) ! (j - 8) = byte_bits (bs ! ((j - 8) div 8)) ! ((j - 8) mod 8)"
      using Cons.prems by (intro Cons.IH) simp
    then show ?thesis using False by (simp add: nth_append le_div_geq le_mod_geq)
  qed (simp add: nth_append)
qed

lemma font_sizes:
  assumes "sz = 12 \<or> sz = 16 \<or> sz = 24 \<or> sz = 32"
  shows "unat (char_size sz) = unat (sz div 2) * col_bytes sz" and "0 < unat (sz div 2)"
    and "8 * col_bytes sz < unat sz + 8" and "unat sz \<le> 8 * col_bytes sz" and "0 < unat sz"
    and "unat num < 95 \<Longrightarrow> t < unat (sz div 2) * col_bytes sz \<Longrightarrow> \<exists>b. lcd_font sz num t = Inr b"
proof -
  have d: "unat (sz div 2) = unat sz div 2" by (simp add: unat_div)
  show "unat (char_size sz) = unat (sz div 2) * col_bytes sz"
    using assms by (elim disjE) (simp_all add: char_size_def col_bytes_def)
  show "0 < unat (sz div 2)" "8 * col_bytes sz < unat sz + 8" "unat sz \<le> 8 * col_bytes sz" "0 < unat sz"
    using assms by (auto simp: d col_bytes_def)
  show "unat num < 95 \<Longrightarrow> t < unat (sz div 2) * col_bytes sz \<Longrightarrow> \<exists>b. lcd_font sz num t = Inr b"
    using assms by (auto simp: d col_bytes_def lcd_font_def)
qed

lemma one_col:
  assumes "lcd_ready p0 w" and "8 * cb < unat sz + 8" "unat sz \<le> 8 * cb" "0 < unat sz"
    and "unat y0 + unat sz \<le> lcd_h w" and "\<forall>t. i * cb \<le> t \<and> t < (i + 1) * cb \<longrightarrow> lcd_font sz num t = Inr (g t)"
  shows "\<exists>v. lcd_ready p0 v \<and> gLcdInfo v = gLcdInfo w
    \<and> (\<forall>X Y. pixel p0 v X Y = (if X = unat x \<and> unat y0 \<le> Y \<and> Y < unat y0 + unat sz
        then ink mode (byte_bits (g (i * cb + (Y - unat y0) div 8)) ! ((Y - unat y0) mod 8)) (pixel p0 w X Y)
        else pixel p0 w X Y))
    \<and> showchar_bytes num sz mode y0 ([i * cb ..< (i + 1) * cb] @ rest) x y0 w =
        (if lcd_w w \<le> unat (x + 1) \<or> lcd_h w = unat y0 + unat sz then Some v
         else showchar_bytes num sz mode y0 rest (x + 1) y0 v)"
proof -
  let ?ts = "[i * cb ..< (i + 1) * cb]"
  have g: "\<forall>t\<in>set ?ts. lcd_font sz num t = Inr (g t)" using assms(6) by (auto simp: algebra_simps)
  define bits where "bits = take (unat sz) (concat (map (\<lambda>t. byte_bits (g t)) ?ts))"
  obtain v where v: "lcd_ready p0 v" "gLcdInfo v = gLcdInfo w"
    "pixel p0 v = plot_col mode (unat x) (unat y0) bits (pixel p0 w)"
    "showchar_bytes num sz mode y0 (?ts @ rest) x y0 w =
        (if lcd_w w \<le> unat (x + 1) \<or> lcd_h w = unat y0 + unat sz then Some v
         else showchar_bytes num sz mode y0 rest (x + 1) y0 v)"
    using col_run [of p0 w y0 y0 0 sz ?ts num g mode x rest, OF assms(1) _ assms(5) g] assms(2-4)
    unfolding bits_def by auto
  have len: "length bits = unat sz" using assms(3) by (simp add: bits_def length_concat comp_def sum_list_triv)
  have bit: "bits ! j = byte_bits (g (i * cb + j div 8)) ! (j mod 8)" if "j < unat sz" for j
  proof -
    have j: "j < 8 * cb" using that assms(3) by simp
    have m: "map (\<lambda>t. byte_bits (g t)) ?ts = map byte_bits (map g ?ts)" by simp
    have "concat (map byte_bits (map g ?ts)) ! j = byte_bits (map g ?ts ! (j div 8)) ! (j mod 8)"
      using j by (intro concat_bytes_nth) simp
    moreover have "j div 8 < cb" using j by (simp add: less_mult_imp_div_less mult.commute)
    ultimately show ?thesis using that unfolding bits_def m by simp
  qed
  have "pixel p0 v X Y = (if X = unat x \<and> unat y0 \<le> Y \<and> Y < unat y0 + unat sz
      then ink mode (byte_bits (g (i * cb + (Y - unat y0) div 8)) ! ((Y - unat y0) mod 8)) (pixel p0 w X Y)
      else pixel p0 w X Y)" for X Y
    unfolding v(3) plot_col_apply len
    by (rule if_cong) (auto simp: bit less_diff_conv2)
  then show ?thesis using v(1,2,4) by blast
qed

lemma cols_run:
  assumes "lcd_ready p0 w" and "8 * cb < unat sz + 8" "unat sz \<le> 8 * cb" "0 < unat sz"
    and "unat y0 + unat sz < lcd_h w" and "\<forall>t. i * cb \<le> t \<and> t < (i + k) * cb \<longrightarrow> lcd_font sz num t = Inr (g t)"
    and "unat x + k \<le> lcd_w w"
  shows "\<exists>w'. showchar_bytes num sz mode y0 [i * cb ..< (i + k) * cb] x y0 w = Some w'
    \<and> lcd_ready p0 w' \<and> gLcdInfo w' = gLcdInfo w
    \<and> (\<forall>X Y. pixel p0 w' X Y =
         (if unat x \<le> X \<and> X < unat x + k \<and> unat y0 \<le> Y \<and> Y < unat y0 + unat sz
          then ink mode (byte_bits (g ((i + (X - unat x)) * cb + (Y - unat y0) div 8)) ! ((Y - unat y0) mod 8))
                 (pixel p0 w X Y)
          else pixel p0 w X Y))"
  using assms
proof (induction k arbitrary: i x w)
  case 0
  then show ?case by auto
next
  case (Suc k)
  let ?ts = "[i * cb ..< (i + 1) * cb]"
  let ?rest = "[(i + 1) * cb ..< (i + 1 + k) * cb]"
  have split: "[i * cb ..< (i + Suc k) * cb] = ?ts @ ?rest"
  proof -
    have e: "(i + Suc k) * cb = (i + 1) * cb + k * cb" "(i + 1 + k) * cb = (i + 1) * cb + k * cb"
      by (simp_all add: algebra_simps)
    show ?thesis unfolding e by (rule upt_add_eq_append) simp
  qed
  have "\<forall>t. i * cb \<le> t \<and> t < (i + 1) * cb \<longrightarrow> lcd_font sz num t = Inr (g t)"
    using Suc.prems(6) by (auto simp: algebra_simps)
  then obtain v where v: "lcd_ready p0 v" "gLcdInfo v = gLcdInfo w" and pv: "\<And>X Y. pixel p0 v X Y =
      (if X = unat x \<and> unat y0 \<le> Y \<and> Y < unat y0 + unat sz
       then ink mode (byte_bits (g (i * cb + (Y - unat y0) div 8)) ! ((Y - unat y0) mod 8)) (pixel p0 w X Y)
       else pixel p0 w X Y)"
    and vs: "showchar_bytes num sz mode y0 (?ts @ ?rest) x y0 w =
        (if lcd_w w \<le> unat (x + 1) then Some v else showchar_bytes num sz mode y0 ?rest (x + 1) y0 v)"
    using one_col [of p0 w cb sz y0 i num g x mode ?rest] Suc.prems(1-5) by auto
  have "lcd_w w < 2 ^ 16" using Suc.prems(1) by (simp add: lcd_ready_def)
  show ?case
  proof (cases k)
    case 0
    have "showchar_bytes num sz mode y0 [i * cb ..< (i + Suc k) * cb] x y0 w = Some v"
      unfolding split vs by (simp add: 0)
    then show ?thesis using v(1,2) pv 0 by (intro exI [of _ v]) (auto simp: le_Suc_eq less_Suc_eq)
  next
    case (Suc k')
    have x1: "unat (x + 1) = unat x + 1"
      using Suc.prems(7) Suc \<open>lcd_w w < 2 ^ 16\<close> by (simp add: unat_word_ariths)
    have nw: "\<not> lcd_w w \<le> unat (x + 1)" using Suc.prems(7) Suc x1 by simp
    have "\<exists>w'. showchar_bytes num sz mode y0 ?rest (x + 1) y0 v = Some w'
      \<and> lcd_ready p0 w' \<and> gLcdInfo w' = gLcdInfo v
      \<and> (\<forall>X Y. pixel p0 w' X Y =
         (if unat (x + 1) \<le> X \<and> X < unat (x + 1) + k \<and> unat y0 \<le> Y \<and> Y < unat y0 + unat sz
          then ink mode (byte_bits (g ((i + 1 + (X - unat (x + 1))) * cb + (Y - unat y0) div 8)) ! ((Y - unat y0) mod 8))
                 (pixel p0 v X Y)
          else pixel p0 v X Y))"
      using Suc.prems(2-7) v(1,2) x1 by (intro Suc.IH) auto
    then obtain u where u: "showchar_bytes num sz mode y0 ?rest (x + 1) y0 v = Some u"
      "lcd_ready p0 u" "gLcdInfo u = gLcdInfo v" and pu: "\<And>X Y. pixel p0 u X Y =
         (if unat (x + 1) \<le> X \<and> X < unat (x + 1) + k \<and> unat y0 \<le> Y \<and> Y < unat y0 + unat sz
          then ink mode (byte_bits (g ((i + 1 + (X - unat (x + 1))) * cb + (Y - unat y0) div 8)) ! ((Y - unat y0) mod 8))
                 (pixel p0 v X Y)
          else pixel p0 v X Y)" by blast
    have s: "showchar_bytes num sz mode y0 [i * cb ..< (i + Suc k) * cb] x y0 w = Some u"
      unfolding split vs using nw u(1) by simp
    have i1: "i + 1 + (X - (unat x + 1)) = i + (X - unat x)" if "unat x + 1 \<le> X" for X using that by simp
    have "pixel p0 u X Y = (if unat x \<le> X \<and> X < unat x + Suc k \<and> unat y0 \<le> Y \<and> Y < unat y0 + unat sz
          then ink mode (byte_bits (g ((i + (X - unat x)) * cb + (Y - unat y0) div 8)) ! ((Y - unat y0) mod 8))
                 (pixel p0 w X Y)
          else pixel p0 w X Y)" for X Y
    proof (cases "unat x + 1 \<le> X")
      case True
      show ?thesis unfolding pu x1 pv i1 [OF True] using True by auto
    next
      case False
      then show ?thesis unfolding pu x1 pv by auto
    qed
    then show ?thesis using s u(2,3) v(2) by (intro exI [of _ u]) simp
  qed
qed

definition char_shown :: "panel \<Rightarrow> u16 \<Rightarrow> u16 \<Rightarrow> u8 \<Rightarrow> u8 \<Rightarrow> u8 \<Rightarrow> lcd_world \<Rightarrow> lcd_world \<Rightarrow> bool" where
  "char_shown p0 x y c sz mode w w' \<longleftrightarrow> lcd_ready p0 w' \<and> gLcdInfo w' = gLcdInfo w
    \<and> (\<forall>X Y. pixel p0 w' X Y =
         (if unat x \<le> X \<and> X < unat x + unat (sz div 2) \<and> unat y \<le> Y \<and> Y < unat y + unat sz
          then ink mode (glyph_bit sz (c - 32) (X - unat x) (Y - unat y)) (pixel p0 w X Y)
          else pixel p0 w X Y))"

lemma showchar_spec:
  assumes "lcd_ready p0 w" and sz: "sz = 12 \<or> sz = 16 \<or> sz = 24 \<or> sz = 32" and "0x20 \<le> c" "c \<le> 0x7E"
    and "unat x + unat (sz div 2) \<le> lcd_w w" and "unat y + unat sz < lcd_h w"
  shows "\<exists>w'. lcd_showchar x y c sz mode w = Some w' \<and> char_shown p0 x y c sz mode w w'"
proof -
  note f = font_sizes [OF sz]
  have c: "unat (c - 32) < 95" using assms(3,4) by (simp add: unat_sub word_le_nat_alt)
  define g where "g t = (case lcd_font sz (c - 32) t of Inr b \<Rightarrow> b | Inl _ \<Rightarrow> 0)" for t
  have g: "\<forall>t. 0 * col_bytes sz \<le> t \<and> t < (0 + unat (sz div 2)) * col_bytes sz \<longrightarrow> lcd_font sz (c - 32) t = Inr (g t)"
  proof (intro allI impI)
    fix t assume "0 * col_bytes sz \<le> t \<and> t < (0 + unat (sz div 2)) * col_bytes sz"
    then obtain b where "lcd_font sz (c - 32) t = Inr b" using f(6) [OF c] by auto
    then show "lcd_font sz (c - 32) t = Inr (g t)" by (simp add: g_def)
  qed
  obtain w' where w': "showchar_bytes (c - 32) sz mode y [0 * col_bytes sz ..< (0 + unat (sz div 2)) * col_bytes sz] x y w = Some w'"
    "lcd_ready p0 w'" "gLcdInfo w' = gLcdInfo w"
    "\<And>X Y. pixel p0 w' X Y = (if unat x \<le> X \<and> X < unat x + unat (sz div 2) \<and> unat y \<le> Y \<and> Y < unat y + unat sz
          then ink mode (byte_bits (g ((0 + (X - unat x)) * col_bytes sz + (Y - unat y) div 8)) ! ((Y - unat y) mod 8))
                 (pixel p0 w X Y)
          else pixel p0 w X Y)"
    using cols_run [OF assms(1) f(3-5) assms(6) g assms(5)] by blast
  have gb: "glyph_bit sz (c - 32) i j = byte_bits (g (i * col_bytes sz + j div 8)) ! (j mod 8)"
    if "i < unat (sz div 2)" "j < unat sz" for i j
  proof -
    have "j div 8 < col_bytes sz" using that(2) f(4) by (simp add: less_mult_imp_div_less mult.commute)
    moreover have "Suc i * col_bytes sz \<le> unat (sz div 2) * col_bytes sz" using that(1) by (intro mult_le_mono1) simp
    ultimately have "lcd_font sz (c - 32) (i * col_bytes sz + j div 8) = Inr (g (i * col_bytes sz + j div 8))"
      using g by (simp add: algebra_simps)
    then show ?thesis by (simp add: glyph_bit_def)
  qed
  have "lcd_showchar x y c sz mode w = Some w'" using w'(1) by (simp add: lcd_showchar_def Let_def f(1))
  moreover have "char_shown p0 x y c sz mode w w'"
    unfolding char_shown_def using w'(2,3) by (auto simp: w'(4) gb)
  ultimately show ?thesis by blast
qed

text \<open>
  A cell that ends on the last row: the loop returns when the row counter reaches the height, so only
  the first column is drawn.
\<close>

lemma showchar_bottom:
  assumes "lcd_ready p0 w" and sz: "sz = 12 \<or> sz = 16 \<or> sz = 24 \<or> sz = 32" and "0x20 \<le> c" "c \<le> 0x7E"
    and "unat y + unat sz = lcd_h w"
  shows "\<exists>w'. lcd_showchar x y c sz mode w = Some w' \<and> lcd_ready p0 w' \<and> gLcdInfo w' = gLcdInfo w
    \<and> (\<forall>X Y. pixel p0 w' X Y =
         (if X = unat x \<and> unat y \<le> Y \<and> Y < unat y + unat sz
          then ink mode (glyph_bit sz (c - 32) 0 (Y - unat y)) (pixel p0 w X Y)
          else pixel p0 w X Y))"
proof -
  note f = font_sizes [OF sz]
  have c: "unat (c - 32) < 95" using assms(3,4) by (simp add: unat_sub word_le_nat_alt)
  define g where "g t = (case lcd_font sz (c - 32) t of Inr b \<Rightarrow> b | Inl _ \<Rightarrow> 0)" for t
  have le: "col_bytes sz \<le> unat (sz div 2) * col_bytes sz" using f(2) by simp
  have g: "lcd_font sz (c - 32) t = Inr (g t)" if t: "t < col_bytes sz" for t
  proof -
    obtain b where "lcd_font sz (c - 32) t = Inr b" using f(6) [OF c] t le by (meson less_le_trans)
    then show ?thesis by (simp add: g_def)
  qed
  have gb: "glyph_bit sz (c - 32) 0 j = byte_bits (g (j div 8)) ! (j mod 8)" if "j < unat sz" for j
    using g [of "j div 8"] that f(4) by (simp add: glyph_bit_def less_mult_imp_div_less mult.commute)
  have split: "[0 ..< unat (char_size sz)] = [0 * col_bytes sz ..< (0 + 1) * col_bytes sz] @ [col_bytes sz ..< unat (char_size sz)]"
    using upt_add_eq_append [of 0 "col_bytes sz" "unat (char_size sz) - col_bytes sz"] le by (simp add: f(1))
  obtain v where v: "lcd_ready p0 v" "gLcdInfo v = gLcdInfo w" and pv: "\<And>X Y. pixel p0 v X Y =
      (if X = unat x \<and> unat y \<le> Y \<and> Y < unat y + unat sz
       then ink mode (byte_bits (g (0 * col_bytes sz + (Y - unat y) div 8)) ! ((Y - unat y) mod 8)) (pixel p0 w X Y)
       else pixel p0 w X Y)"
    and vs: "showchar_bytes (c - 32) sz mode y [0 ..< unat (char_size sz)] x y w = Some v"
    using one_col [of p0 w "col_bytes sz" sz y 0 "c - 32" g x mode "[col_bytes sz ..< unat (char_size sz)]"] assms(1,5) f(3-5) g
    unfolding split [symmetric] by auto
  have "lcd_showchar x y c sz mode w = Some v" using vs by (simp add: lcd_showchar_def Let_def)
  then show ?thesis using v by (auto simp: pv gb)
qed

section \<open>Numbers are right-aligned decimal digits\<close>

text \<open>A list of characters with their positions, shown one after the other.\<close>

primrec show_list :: "u8 \<Rightarrow> u8 \<Rightarrow> (u16 \<times> u16 \<times> u8) list \<Rightarrow> lcd_world \<Rightarrow> lcd_world option" where
  "show_list sz mode [] w = Some w"
| "show_list sz mode (p # ps) w =
     (case p of (x, y, c) \<Rightarrow>
        (case lcd_showchar x y c sz mode w of None \<Rightarrow> None | Some w \<Rightarrow> show_list sz mode ps w))"

text \<open>The text shown for a number: its digits, the last \<open>len\<close> of them, aligned to the right.\<close>

definition num_text :: "nat \<Rightarrow> nat \<Rightarrow> u8 \<Rightarrow> u8 list" where
  "num_text m len pad = (let ds = dec_str (m mod 10 ^ len) in replicate (len - length ds) pad @ ds)"

definition num_char :: "nat \<Rightarrow> nat \<Rightarrow> u8 \<Rightarrow> nat \<Rightarrow> u8" where
  "num_char m len pad t =
     (if m div 10 ^ (len - 1 - t) = 0 \<and> t < len - 1 then pad else word_of_nat (48 + m div 10 ^ (len - 1 - t) mod 10))"

lemma num_chars:
  "m < 10 ^ Suc n \<Longrightarrow> map (num_char m (Suc n) pad) [0..<Suc n] = replicate (Suc n - length (dec_str m)) pad @ dec_str m"
proof (induction n arbitrary: m)
  case 0
  then show ?case by (simp add: num_char_def dec_str.simps [of m])
next
  case (Suc n)
  have last: "num_char m (Suc (Suc n)) pad (Suc n) = word_of_nat (48 + m mod 10)"
    by (simp add: num_char_def)
  have split: "map (num_char m (Suc (Suc n)) pad) [0..<Suc (Suc n)]
      = map (num_char m (Suc (Suc n)) pad) [0..<Suc n] @ [word_of_nat (48 + m mod 10)]"
    by (simp add: last)
  show ?case
  proof (cases "m < 10")
    case True
    have "num_char m (Suc (Suc n)) pad t = pad" if "t < Suc n" for t
    proof -
      have "(10 :: nat) ^ 1 \<le> 10 ^ (Suc n - t)" using that by (intro power_increasing) simp_all
      then have "m div 10 ^ (Suc n - t) = 0" using True by simp
      then show ?thesis using that by (simp add: num_char_def)
    qed
    then have "map (num_char m (Suc (Suc n)) pad) [0..<Suc n] = replicate (Suc n) pad"
      by (intro nth_equalityI) (simp_all del: upt_Suc replicate_Suc)
    then show ?thesis using True unfolding split by (simp add: dec_str.simps [of m])
  next
    case False
    have m: "m div 10 < 10 ^ Suc n" using Suc.prems by (simp add: less_mult_imp_div_less)
    have "num_char m (Suc (Suc n)) pad t = num_char (m div 10) (Suc n) pad t" if "t < Suc n" for t
    proof -
      have "Suc n - t = Suc (n - t)" using that by simp
      then have d: "m div 10 ^ (Suc n - t) = m div 10 div 10 ^ (n - t)" by (simp add: div_mult2_eq)
      have "t = n \<Longrightarrow> m div 10 \<noteq> 0" using False by simp
      then show ?thesis using that by (cases "t = n") (auto simp: num_char_def d)
    qed
    then have "map (num_char m (Suc (Suc n)) pad) [0..<Suc n] = map (num_char (m div 10) (Suc n) pad) [0..<Suc n]"
      by (intro map_cong refl) (simp only: set_upt atLeastLessThan_iff)
    then show ?thesis unfolding split Suc.IH [OF m, symmetric]
      using Suc.IH [OF m] False by (simp add: dec_str.simps [of m] del: upt_Suc)
  qed
qed

lemma unat_word_of_nat_small: "k < 2 ^ 32 \<Longrightarrow> unat (word_of_nat k :: u32) = k"
  by (simp add: unat_of_nat take_bit_nat_eq_self)

lemma lcd_pow_10: "n \<le> 9 \<Longrightarrow> unat (lcd_pow 10 (word_of_nat n)) = 10 ^ n"
proof -
  assume n: "n \<le> 9"
  have p: "((\<lambda>result. result * ucast (10 :: u8)) ^^ k) (1 :: u32) = word_of_nat (10 ^ k)" for k
    by (induction k) (simp_all add: mult.commute)
  have "(10 :: nat) ^ n \<le> 10 ^ 9" using n by (intro power_increasing) simp_all
  then have l: "(10 :: nat) ^ n < 2 ^ 32" by simp
  have k: "unat (word_of_nat n :: u8) = n" using n by (simp add: unat_of_nat)
  show ?thesis unfolding lcd_pow_def k p by (rule unat_word_of_nat_small [OF l])
qed

lemma num_digit:
  fixes num :: u32 and len :: u8
  assumes "t < unat len" and "unat len \<le> 10"
  defines "e \<equiv> unat len - 1 - t" and "m \<equiv> unat num mod 10 ^ unat len"
  shows "ucast (num div lcd_pow 10 (len - word_of_nat t - 1) mod 10) = (word_of_nat (m div 10 ^ e mod 10) :: u8)"
proof -
  have "len - word_of_nat t - 1 = word_of_nat e"
    using assms(1) unfolding e_def by (simp add: of_nat_diff)
  moreover have "e \<le> 9" using assms(1,2) by (simp add: e_def)
  ultimately have p: "unat (lcd_pow 10 (len - word_of_nat t - 1)) = 10 ^ e"
    using lcd_pow_10 [of e] by (simp only:)
  have "unat len = e + Suc t" using assms(1) by (simp add: e_def)
  then have l: "(10 :: nat) ^ unat len = 10 ^ e * 10 ^ Suc t" by (simp only: power_add)
  have "(10 ^ e * x + y) div 10 ^ e = x" if "y < 10 ^ e" for x y :: nat using that by simp
  moreover have "m = 10 ^ e * (unat num div 10 ^ e mod 10 ^ Suc t) + unat num mod 10 ^ e"
    unfolding m_def l by (rule mod_mult2_eq)
  ultimately have "m div 10 ^ e = unat num div 10 ^ e mod 10 ^ Suc t" by simp
  then have "m div 10 ^ e mod 10 = unat num div 10 ^ e mod 10" by (simp add: mod_mod_cancel)
  then have d: "unat (num div lcd_pow 10 (len - word_of_nat t - 1) mod 10) = m div 10 ^ e mod 10"
    by (simp add: p unat_div unat_mod)
  have "(ucast x :: u8) = word_of_nat (unat x)" for x :: u32 by (rule of_nat_unat [symmetric])
  from this [of "num div lcd_pow 10 (len - word_of_nat t - 1) mod 10"] show ?thesis unfolding d .
qed

definition text_row :: "u16 \<Rightarrow> u16 \<Rightarrow> u8 \<Rightarrow> u8 list \<Rightarrow> (u16 \<times> u16 \<times> u8) list" where
  "text_row x y sz cs = map (\<lambda>i. (x + ucast (sz div 2) * word_of_nat i, y, cs ! i)) [0..<length cs]"

definition num_pad :: "u8 \<Rightarrow> u8" where
  "num_pad mode = (if mode AND 0x80 \<noteq> 0 then 0x30 else 0x20)"

lemma unat_ucast_16: "unat (ucast (b :: u8) :: u16) = unat b"
proof -
  have "unat b < 2 ^ LENGTH(8)" by (rule unsigned_less)
  then show ?thesis by (simp add: unsigned_ucast_eq take_bit_nat_eq_self)
qed

lemma div_10_step: "m div 10 ^ Suc k = 0 \<longleftrightarrow> m div 10 ^ k < (10 :: nat)"
proof -
  have "m div 10 ^ Suc k = m div 10 ^ k div 10" by (simp only: power_Suc2 div_mult2_eq)
  then show ?thesis by (simp only: div_eq_0_iff) simp
qed

lemma show_num_loop_spec:
  fixes num :: u32 and len :: u8
  defines "L \<equiv> unat len"
  defines "m \<equiv> unat num mod 10 ^ L"
  assumes "L \<le> 10" and "t \<le> L" and "t < L \<Longrightarrow> en \<longleftrightarrow> m div 10 ^ (L - t) \<noteq> 0"
  shows "show_num_loop x y num len sz mode [t..<L] en w =
    show_list sz (mode AND 0x01)
      (map (\<lambda>t. (x + ucast (sz div 2) * word_of_nat t, y, num_char m L (num_pad mode) t)) [t..<L]) w"
  using assms(4,5)
proof (induction "L - t" arbitrary: t en w)
  case 0
  then show ?case by simp
next
  case (Suc n)
  have t: "t < L" "Suc t \<le> L" using Suc.hyps(2) Suc.prems(1) by simp_all
  define d where "d = m div 10 ^ (L - 1 - t)"
  have st: "L - t = Suc (L - 1 - t)" using t by simp
  have temp: "ucast (num div lcd_pow 10 (len - word_of_nat t - 1) mod 10) = (word_of_nat (d mod 10) :: u8)"
    using num_digit [of t len num] t(1) assms(3) unfolding d_def m_def L_def by blast
  have t0: "(word_of_nat (d mod 10) :: u8) = 0 \<longleftrightarrow> d mod 10 = 0"
  proof -
    have "d mod 10 < 256" by (rule less_trans [of _ 10]) simp_all
    then have "unat (word_of_nat (d mod 10) :: u8) = d mod 10" by (simp add: unat_of_nat take_bit_nat_eq_self)
    then show ?thesis by (metis unsigned_eq_0_iff)
  qed
  have en: "en \<longleftrightarrow> \<not> d < 10" using Suc.prems(2) [OF t(1)] unfolding st div_10_step d_def by simp
  have lead: "int t < int (unat len) - 1 \<longleftrightarrow> t < L - 1" unfolding L_def by linarith
  have d48: "word_of_nat (d mod 10) + 0x30 = (word_of_nat (48 + d mod 10) :: u8)" by simp
  have upt: "[t..<L] = t # [Suc t..<L]" using t(1) by (rule upt_conv_Cons)
  have nx: "Suc t < L \<Longrightarrow> L - Suc t = L - 1 - t" by simp
  have IH: "show_num_loop x y num len sz mode [Suc t..<L] en' w' =
      show_list sz (mode AND 0x01)
        (map (\<lambda>t. (x + ucast (sz div 2) * word_of_nat t, y, num_char m L (num_pad mode) t)) [Suc t..<L]) w'"
    if e: "Suc t < L \<longrightarrow> (en' \<longleftrightarrow> d \<noteq> 0)" for en' w'
  proof (rule Suc.hyps(1))
    show "n = L - Suc t" using Suc.hyps(2) by linarith
    show "Suc t \<le> L" by (rule t(2))
    show "en' \<longleftrightarrow> m div 10 ^ (L - Suc t) \<noteq> 0" if "Suc t < L"
      unfolding nx [OF that] d_def [symmetric] by (rule e [rule_format, OF that])
  qed
  show ?case
  proof (cases "\<not> en \<and> t < L - 1 \<and> d mod 10 = 0")
    case True
    then have d0: "d = 0" using en mod_less [of d 10] by auto
    have c: "num_char m L (num_pad mode) t = num_pad mode"
      using True d0 unfolding num_char_def d_def by simp
    show ?thesis unfolding upt list.map show_num_loop.simps show_list.simps Let_def temp t0 lead c prod.case
      using True d0 IH [of en] en by (simp add: num_pad_def split: option.split)
  next
    case False
    have "\<not> (d = 0 \<and> t < L - 1)" using False en by auto
    then have c: "num_char m L (num_pad mode) t = word_of_nat (48 + d mod 10)"
      unfolding num_char_def d_def [symmetric] by (rule if_not_P)
    have en': "Suc t < L \<longrightarrow> ((if \<not> en \<and> t < L - 1 then True else en) \<longleftrightarrow> d \<noteq> 0)" using False en by auto
    have f: "((\<not> en \<and> t < L - 1) \<and> d mod 10 = 0) = False" using False by simp
    show ?thesis unfolding upt list.map show_num_loop.simps show_list.simps Let_def temp t0 lead c prod.case d48 f if_False
      unfolding ext [of _ "show_list _ _ _", OF IH [of "if \<not> en \<and> t < L - 1 then True else en", OF en']] ..
  qed
qed

lemma show_num_text:
  assumes "0 < unat len" and "unat len \<le> 10"
  shows "lcd_driver_show_num x y num len sz mode w =
    show_list sz (mode AND 0x01) (text_row x y sz (num_text (unat num) (unat len) (num_pad mode))) w"
proof -
  obtain n where n: "unat len = Suc n" using assms(1) by (cases "unat len") simp_all
  define m where "m = unat num mod 10 ^ unat len"
  have m: "m < 10 ^ Suc n" by (simp add: m_def n)
  have tx: "num_text (unat num) (unat len) (num_pad mode) = map (num_char m (unat len) (num_pad mode)) [0..<unat len]"
    unfolding num_text_def Let_def m_def [symmetric] unfolding n num_chars [OF m] ..
  have len: "length (num_text (unat num) (unat len) (num_pad mode)) = unat len" unfolding tx by simp
  have "unat num mod 10 ^ unat len div 10 ^ unat len = 0" by simp
  then have l: "lcd_driver_show_num x y num len sz mode w = show_list sz (mode AND 0x01)
      (map (\<lambda>t. (x + ucast (sz div 2) * word_of_nat t, y, num_char m (unat len) (num_pad mode) t)) [0..<unat len]) w"
    unfolding lcd_driver_show_num_def m_def using assms(2) by (intro show_num_loop_spec) simp_all
  show ?thesis unfolding l text_row_def len unfolding tx
    by (intro arg_cong [where f = "\<lambda>ps. show_list sz (mode AND 0x01) ps w"] map_cong refl)
      (simp only: set_upt atLeastLessThan_iff prod.inject nth_map length_upt minus_nat.diff_0 nth_upt add_0)
qed

text \<open>A row of characters on the screen: every cell is the glyph of its character, nothing else changes.\<close>

definition row_shown :: "panel \<Rightarrow> u16 \<Rightarrow> u16 \<Rightarrow> u8 list \<Rightarrow> u8 \<Rightarrow> u8 \<Rightarrow> lcd_world \<Rightarrow> lcd_world \<Rightarrow> bool" where
  "row_shown p0 x y cs sz mode w w' \<longleftrightarrow> lcd_ready p0 w' \<and> gLcdInfo w' = gLcdInfo w
    \<and> (\<forall>X Y. pixel p0 w' X Y =
         (let s2 = unat (sz div 2); k = (X - unat x) div s2
          in if unat x \<le> X \<and> k < length cs \<and> unat y \<le> Y \<and> Y < unat y + unat sz
             then ink mode (glyph_bit sz (cs ! k - 32) ((X - unat x) mod s2) (Y - unat y)) (pixel p0 w X Y)
             else pixel p0 w X Y))"

definition printable :: "u8 \<Rightarrow> bool" where
  "printable c \<longleftrightarrow> 0x20 \<le> c \<and> c \<le> 0x7E"

lemma text_row_Cons:
  "text_row x y sz (c # cs) = (x, y, c) # text_row (x + ucast (sz div 2)) y sz cs"
  by (simp add: text_row_def upt_conv_Cons map_Suc_upt [symmetric] algebra_simps del: upt_Suc)

lemma row_spec:
  assumes "lcd_ready p0 w" and sz: "sz = 12 \<or> sz = 16 \<or> sz = 24 \<or> sz = 32" and "list_all printable cs"
    and "unat x + length cs * unat (sz div 2) \<le> lcd_w w" and "unat y + unat sz < lcd_h w"
  shows "\<exists>w'. show_list sz mode (text_row x y sz cs) w = Some w' \<and> row_shown p0 x y cs sz mode w w'"
  using assms
proof (induction cs arbitrary: x w)
  case Nil
  then show ?case by (simp add: text_row_def row_shown_def)
next
  case (Cons c cs)
  let ?s = "unat (sz div 2)"
  have s0: "0 < ?s" using font_sizes(2) [OF sz] .
  obtain v where v: "lcd_showchar x y c sz mode w = Some v" "char_shown p0 x y c sz mode w v"
    using showchar_spec [OF Cons.prems(1) sz, of c x y mode] Cons.prems(3-5) by (auto simp: printable_def)
  have i: "lcd_ready p0 v" "gLcdInfo v = gLcdInfo w" using v(2) by (simp_all add: char_shown_def)
  have us: "unat (ucast (sz div 2) :: u16) = ?s"
    by (rule unat_ucast_16)
  have "lcd_w w < 2 ^ 16" using Cons.prems(1) by (simp add: lcd_ready_def)
  show ?case
  proof (cases cs)
    case Nil
    have "row_shown p0 x y [c] sz mode w v"
      using v(2) s0 unfolding row_shown_def char_shown_def Let_def
      by (auto simp: less_diff_conv2 div_eq_0_iff not_less)
    then show ?thesis using v(1) by (simp add: Nil text_row_def)
  next
    case (Cons c' cs')
    define x' where "x' = x + ucast (sz div 2)"
    have x': "unat x' = unat x + ?s"
      using Cons.prems(4) \<open>lcd_w w < 2 ^ 16\<close> unfolding x'_def Cons by (simp add: unat_word_ariths us)
    have "\<exists>u. show_list sz mode (text_row x' y sz cs) v = Some u \<and> row_shown p0 x' y cs sz mode v u"
      using Cons.prems(3-5) i x' by (intro Cons.IH sz) simp_all
    then obtain u where u: "show_list sz mode (text_row x' y sz cs) v = Some u" "row_shown p0 x' y cs sz mode v u"
      by blast
    have k: "(X - unat x) div ?s = Suc ((X - unat x') div ?s)" "(X - unat x) mod ?s = (X - unat x') mod ?s"
      if "unat x' \<le> X" for X
      using that s0 unfolding x' by (simp_all add: le_div_geq le_mod_geq)
    have "row_shown p0 x y (c # cs) sz mode w u"
      unfolding row_shown_def Let_def
    proof (intro conjI allI)
      show "lcd_ready p0 u" "gLcdInfo u = gLcdInfo w" using u(2) i by (simp_all add: row_shown_def)
      fix X Y
      have pu: "pixel p0 u X Y = (if unat x' \<le> X \<and> (X - unat x') div ?s < length cs \<and> unat y \<le> Y \<and> Y < unat y + unat sz
             then ink mode (glyph_bit sz (cs ! ((X - unat x') div ?s) - 32) ((X - unat x') mod ?s) (Y - unat y)) (pixel p0 v X Y)
             else pixel p0 v X Y)"
        using u(2) unfolding row_shown_def Let_def by blast
      have pv: "pixel p0 v X Y = (if unat x \<le> X \<and> X < unat x + ?s \<and> unat y \<le> Y \<and> Y < unat y + unat sz
          then ink mode (glyph_bit sz (c - 32) (X - unat x) (Y - unat y)) (pixel p0 w X Y) else pixel p0 w X Y)"
        using v(2) unfolding char_shown_def by blast
      show "pixel p0 u X Y = (if unat x \<le> X \<and> (X - unat x) div ?s < length (c # cs) \<and> unat y \<le> Y \<and> Y < unat y + unat sz
             then ink mode (glyph_bit sz ((c # cs) ! ((X - unat x) div ?s) - 32) ((X - unat x) mod ?s) (Y - unat y)) (pixel p0 w X Y)
             else pixel p0 w X Y)"
      proof (cases "unat x' \<le> X")
        case True
        then have "unat x \<le> X" "\<not> X < unat x + ?s" using x' by simp_all
        then show ?thesis unfolding pu pv k [OF True] by (simp add: True)
      next
        case False
        show ?thesis
        proof (cases "unat x \<le> X")
          case True
          then have "X - unat x < ?s" using False x' by simp
          then have "(X - unat x) div ?s = 0" "(X - unat x) mod ?s = X - unat x" by simp_all
          then show ?thesis unfolding pu pv using False True x' by simp
        next
          case False
          then show ?thesis unfolding pu pv using \<open>\<not> unat x' \<le> X\<close> by simp
        qed
      qed
    qed
    then show ?thesis using u(1) v(1) by (auto simp: text_row_Cons x'_def)
  qed
qed

section \<open>Strings fill a box\<close>

text \<open>
  The cells of a box: its columns, as many characters as start left of its right edge, and its rows,
  as many as start above its lower edge.
\<close>

definition box_cols :: "u16 \<Rightarrow> u8 \<Rightarrow> nat" where
  "box_cols width sz = (unat width + unat (sz div 2) - 1) div unat (sz div 2)"

definition box_rows :: "u16 \<Rightarrow> u8 \<Rightarrow> nat" where
  "box_rows height sz = (unat height + unat sz - 1) div unat sz"

lemma ceil_le_iff:
  fixes a s c :: nat
  assumes "0 < s"
  shows "a \<le> c * s \<longleftrightarrow> (a + s - 1) div s \<le> c"
proof -
  have "(a + s - 1) div s < Suc c \<longleftrightarrow> a + s - 1 < Suc c * s" using assms by (simp add: div_less_iff_less_mult)
  also have "\<dots> \<longleftrightarrow> a \<le> c * s" using assms by auto
  finally show ?thesis by auto
qed

definition cell_x :: "u16 \<Rightarrow> u8 \<Rightarrow> nat \<Rightarrow> u16" where
  "cell_x x sz c = x + ucast (sz div 2) * word_of_nat c"

definition cell_y :: "u16 \<Rightarrow> u8 \<Rightarrow> nat \<Rightarrow> u16" where
  "cell_y y sz q = y + ucast sz * word_of_nat q"

lemma unat_cell:
  fixes x :: u16 and b :: u8
  assumes "unat x + c * unat b < 2 ^ 16"
  shows "unat (x + ucast b * word_of_nat c) = unat x + c * unat b"
  using assms by (simp add: unat_word_ariths unat_ucast_16 unat_of_nat take_bit_eq_mod mod_simps mult.commute)

text \<open>A box that ends before the positions wrap around.\<close>

definition box_ok :: "u16 \<Rightarrow> u16 \<Rightarrow> u16 \<Rightarrow> u16 \<Rightarrow> u8 \<Rightarrow> bool" where
  "box_ok x y width height sz \<longleftrightarrow> 1 < sz \<and> 0 < width
     \<and> unat x + unat width + unat (sz div 2) < 2 ^ 16 \<and> unat y + unat height + unat sz < 2 ^ 16"

lemma box_facts:
  assumes "box_ok x y width height sz"
  shows "0 < unat (sz div 2)" and "0 < unat sz" and "0 < box_cols width sz"
    and "unat (width + x) = unat x + unat width" and "unat (height + y) = unat y + unat height"
    and "c \<le> box_cols width sz \<Longrightarrow> unat (cell_x x sz c) = unat x + c * unat (sz div 2)"
    and "q \<le> box_rows height sz \<Longrightarrow> unat (cell_y y sz q) = unat y + q * unat sz"
    and "unat width \<le> c * unat (sz div 2) \<longleftrightarrow> box_cols width sz \<le> c"
    and "unat height \<le> q * unat sz \<longleftrightarrow> box_rows height sz \<le> q"
proof -
  have "1 < unat sz" using assms by (simp add: box_ok_def word_less_nat_alt)
  then show s: "0 < unat (sz div 2)" "0 < unat sz" by (simp_all add: unat_div)
  show c: "unat width \<le> c * unat (sz div 2) \<longleftrightarrow> box_cols width sz \<le> c" for c
    unfolding box_cols_def by (rule ceil_le_iff [OF s(1)])
  show r: "unat height \<le> q * unat sz \<longleftrightarrow> box_rows height sz \<le> q" for q
    unfolding box_rows_def by (rule ceil_le_iff [OF s(2)])
  have "0 < unat width" using assms by (simp add: box_ok_def word_less_nat_alt)
  then show "0 < box_cols width sz" using c [of 0] by simp
  show "unat (width + x) = unat x + unat width" "unat (height + y) = unat y + unat height"
    using assms by (simp_all add: box_ok_def unat_word_ariths)
  have "box_cols width sz * unat (sz div 2) < unat width + unat (sz div 2)"
  proof -
    have "box_cols width sz * unat (sz div 2) \<le> unat width + unat (sz div 2) - 1"
      unfolding box_cols_def by (rule div_times_less_eq_dividend)
    then show ?thesis using s(1) by linarith
  qed
  moreover have "box_rows height sz * unat sz < unat height + unat sz"
  proof -
    have "box_rows height sz * unat sz \<le> unat height + unat sz - 1"
      unfolding box_rows_def by (rule div_times_less_eq_dividend)
    then show ?thesis using s(2) by linarith
  qed
  ultimately have e: "box_cols width sz * unat (sz div 2) < unat width + unat (sz div 2)"
    "box_rows height sz * unat sz < unat height + unat sz" by blast+
  have l: "unat x + unat width + unat (sz div 2) < 2 ^ 16" "unat y + unat height + unat sz < 2 ^ 16"
    using assms unfolding box_ok_def by blast+
  show "unat (cell_x x sz c) = unat x + c * unat (sz div 2)" if "c \<le> box_cols width sz"
  proof -
    have "c * unat (sz div 2) \<le> box_cols width sz * unat (sz div 2)" using that by (rule mult_le_mono1)
    then show ?thesis unfolding cell_x_def using e(1) l(1) by (intro unat_cell) linarith
  qed
  show "unat (cell_y y sz q) = unat y + q * unat sz" if "q \<le> box_rows height sz"
  proof -
    have "q * unat sz \<le> box_rows height sz * unat sz" using that by (rule mult_le_mono1)
    then show ?thesis unfolding cell_y_def using e(2) l(2) by (intro unat_cell) linarith
  qed
qed

text \<open>Where the loop stands when \<open>i\<close> characters have been shown, before it looks for the right edge.\<close>

definition text_x :: "nat \<Rightarrow> nat \<Rightarrow> nat" where
  "text_x k i = (if i = 0 then 0 else Suc ((i - 1) mod k))"

lemma text_x_cases:
  assumes "0 < k"
  shows "text_x k i \<le> k"
    and "k \<le> text_x k i \<Longrightarrow> i mod k = 0 \<and> i div k = Suc ((i - 1) div k)"
    and "\<not> k \<le> text_x k i \<Longrightarrow> i mod k = text_x k i \<and> i div k = (i - 1) div k"
proof -
  show "text_x k i \<le> k" using assms by (simp add: text_x_def Suc_le_eq)
  show "k \<le> text_x k i \<Longrightarrow> i mod k = 0 \<and> i div k = Suc ((i - 1) div k)"
  proof (cases i)
    case (Suc j)
    assume "k \<le> text_x k i"
    then have "Suc (j mod k) = k" using mod_less_divisor [OF assms, of j] by (simp add: text_x_def Suc)
    then show ?thesis by (simp add: Suc mod_Suc div_Suc)
  qed (use assms in \<open>simp add: text_x_def\<close>)
  show "\<not> k \<le> text_x k i \<Longrightarrow> i mod k = text_x k i \<and> i div k = (i - 1) div k"
    using assms by (cases i) (auto simp: text_x_def mod_Suc div_Suc)
qed

lemma text_x_Suc: "text_x k (Suc i) = Suc (i mod k)"
  by (simp add: text_x_def)

lemma cell_Suc: "cell_x x sz c + ucast (sz div 2) = cell_x x sz (Suc c)" "cell_y y sz q + ucast sz = cell_y y sz (Suc q)"
  by (simp_all add: cell_x_def cell_y_def algebra_simps)

lemma cell_0: "cell_x x sz 0 = x" "cell_y y sz 0 = y"
  by (simp_all add: cell_x_def cell_y_def)

definition box_cells :: "u16 \<Rightarrow> u16 \<Rightarrow> nat \<Rightarrow> u8 \<Rightarrow> nat \<Rightarrow> u8 list \<Rightarrow> (u16 \<times> u16 \<times> u8) list" where
  "box_cells x y k sz i cs =
     map (\<lambda>j. (cell_x x sz ((i + j) mod k), cell_y y sz ((i + j) div k), cs ! j)) [0..<length cs]"

lemma box_cells_Cons:
  "box_cells x y k sz i (c # cs) = (cell_x x sz (i mod k), cell_y y sz (i div k), c) # box_cells x y k sz (Suc i) cs"
  by (simp add: box_cells_def upt_conv_Cons map_Suc_upt [symmetric] del: upt_Suc)

lemma showstring_cells:
  fixes x y width height :: u16 and sz :: u8
  defines "k \<equiv> box_cols width sz" and "r \<equiv> box_rows height sz"
  assumes ok: "box_ok x y width height sz" and "i \<le> k * r"
  shows "showstring_loop x (width + x) (height + y) sz cs (cell_x x sz (text_x k i)) (cell_y y sz ((i - 1) div k)) w =
    show_list sz 0 (box_cells x y k sz i (take (k * r - i) (takeWhile printable cs))) w"
  using assms(4)
proof (induction cs arbitrary: i w)
  case Nil
  then show ?case by (simp add: box_cells_def)
next
  case (Cons ch cs)
  note f = box_facts [OF ok, folded k_def r_def]
  note t = text_x_cases [OF f(3)]
  have wx: "cell_x x sz (text_x k i) \<ge> width + x \<longleftrightarrow> k \<le> text_x k i"
    using f(6) [OF t(1)] f(8) by (simp add: word_le_nat_alt f(4))
  have at: "(if cell_x x sz (text_x k i) \<ge> width + x then (x, cell_y y sz ((i - 1) div k) + ucast sz)
       else (cell_x x sz (text_x k i), cell_y y sz ((i - 1) div k))) = (cell_x x sz (i mod k), cell_y y sz (i div k))"
    unfolding wx using t(2,3) by (auto simp: cell_Suc cell_0)
  have "i div k \<le> r" using Cons.prems f(3) by (metis div_le_mono nonzero_mult_div_cancel_left not_gr0)
  then have wy: "cell_y y sz (i div k) \<ge> height + y \<longleftrightarrow> k * r \<le> i"
  proof -
    assume "i div k \<le> r"
    then have "cell_y y sz (i div k) \<ge> height + y \<longleftrightarrow> unat height \<le> i div k * unat sz"
      by (simp only: word_le_nat_alt f(5) f(7) add_le_cancel_left)
    also have "\<dots> \<longleftrightarrow> r * k \<le> i" unfolding f(9) by (rule less_eq_div_iff_mult_less_eq [OF f(3)])
    finally show ?thesis by (simp only: mult.commute)
  qed
  show ?case
  proof (cases "printable ch \<and> i < k * r")
    case False
    show ?thesis
    proof (cases "printable ch")
      case True
      then have p: "(ch \<le> 0x7E \<and> ch \<ge> 0x20) = True" by (simp add: printable_def)
      show ?thesis unfolding showstring_loop.simps p if_True at Let_def prod.case wy
        using False True by (simp add: box_cells_def)
    next
      case False
      then have p: "(ch \<le> 0x7E \<and> ch \<ge> 0x20) = False" by (auto simp: printable_def)
      show ?thesis unfolding showstring_loop.simps p if_False using False by (simp add: box_cells_def)
    qed
  next
    case True
    then have p: "(ch \<le> 0x7E \<and> ch \<ge> 0x20) = True" "printable ch" by (auto simp: printable_def)
    have d: "k * r - i = Suc (k * r - Suc i)" using True by (intro Suc_diff_Suc [symmetric]) blast
    have IH: "showstring_loop x (width + x) (height + y) sz cs (cell_x x sz (Suc (i mod k))) (cell_y y sz (i div k)) w'
      = show_list sz 0 (box_cells x y k sz (Suc i) (take (k * r - Suc i) (takeWhile printable cs))) w'" for w'
      using Cons.IH [of "Suc i" w'] True by (simp add: text_x_Suc)
    show ?thesis
      unfolding showstring_loop.simps p(1) if_True at Let_def prod.case
      unfolding wy cell_Suc ext [of _ "show_list _ _ _", OF IH]
      using True p(2) by (simp add: d box_cells_Cons)
  qed
qed

lemma showchar_some:
  assumes "\<forall>t\<in>set ts. unat num < 95 \<and> t < unat (char_size sz)"
  shows "showchar_bytes num sz mode y0 ts x y w \<noteq> None"
proof -
  have f: "lcd_font sz num t \<noteq> Inl False" if "t \<in> set ts" for t
  proof -
    have "sz = 12 \<Longrightarrow> unat (char_size sz) = 12" "sz = 16 \<Longrightarrow> unat (char_size sz) = 16"
      "sz = 24 \<Longrightarrow> unat (char_size sz) = 36" "sz = 32 \<Longrightarrow> unat (char_size sz) = 64"
      by (simp_all add: char_size_def)
    then show ?thesis using assms that by (auto simp: lcd_font_def)
  qed
  show ?thesis using f
  proof (induction ts arbitrary: x y w)
    case (Cons t ts)
    then have "lcd_font sz num t \<noteq> Inl False" by simp
    then show ?case using Cons.IH Cons.prems by (auto split: sum.split prod.split)
  qed simp
qed

lemma string_row:
  assumes "box_ok x y width height sz" and "x < 256" and "list_all printable cs"
    and "length cs \<le> box_cols width sz" and "0 < box_rows height sz"
  shows "lcd_driver_showstring x y width height sz cs w = show_list sz 0 (text_row x y sz cs) w"
proof -
  have "unat x < 256" using assms(2) by (simp add: word_less_nat_alt)
  then have "unat (ucast (ucast x :: u8) :: u16) = unat x"
    unfolding unat_ucast_16 by (simp add: unsigned_ucast_eq take_bit_nat_eq_self)
  then have x0: "ucast (ucast x :: u8) = x" by (simp only: unsigned_word_eqI)
  let ?k = "box_cols width sz"
  have p: "takeWhile printable cs = cs" using assms(3) by (simp add: list_all_iff takeWhile_eq_all_conv)
  have l: "length cs \<le> ?k * box_rows height sz" using assms(4,5) by (cases "box_rows height sz") simp_all
  have "box_cells x y ?k sz 0 cs = text_row x y sz cs"
    unfolding box_cells_def text_row_def
    by (intro map_cong refl) (use assms(4) in \<open>auto simp: cell_x_def cell_y_def\<close>)
  then show ?thesis
    using showstring_cells [OF assms(1), of 0 cs w] p l
    by (simp add: lcd_driver_showstring_def Let_def x0 text_x_def cell_0)
qed

text \<open>The five lines of \<open>lcd_test\<close>, one after the other on the cleared screen.\<close>

primrec rows_shown :: "panel \<Rightarrow> (u16 \<times> u16 \<times> u8 \<times> u8 list) list \<Rightarrow> lcd_world \<Rightarrow> lcd_world \<Rightarrow> bool" where
  "rows_shown p0 [] w w' \<longleftrightarrow> w' = w"
| "rows_shown p0 (r # rs) w w' \<longleftrightarrow>
     (case r of (x, y, sz, cs) \<Rightarrow> \<exists>v. row_shown p0 x y cs sz 0 w v \<and> rows_shown p0 rs v w')"

definition boot_rows :: "(u16 \<times> u16 \<times> u8 \<times> u8 list) list" where
  "boot_rows =
    [(10, 40, 32, str_bytes ''Apollo STM32F4/F7''), (10, 80, 24, str_bytes ''TFTLCD TEST''),
     (10, 110, 16, str_bytes ''ATOM@ALIENTEK''), (10, 140, 16, str_bytes ''TEMPERATE: 00.00C, Vol:00.00V''),
     (10, 160, 16, str_bytes ''Timer: 00-00-00 00:00:00'')]"

definition full_screen :: "panel \<Rightarrow> lcd_world \<Rightarrow> bool" where
  "full_screen p0 w \<longleftrightarrow> lcd_ready p0 w \<and> lcd_width (gLcdInfo w) = 480 \<and> lcd_height (gLcdInfo w) = 800"

lemma full_screen_row: "full_screen p0 w \<Longrightarrow> row_shown p0 x y cs sz mode w w' \<Longrightarrow> full_screen p0 w'"
  by (simp add: full_screen_def row_shown_def)

lemma string_on_screen:
  assumes "full_screen p0 w" and "box_ok x y width height sz" and "x < 256" and "list_all printable cs"
    and "length cs \<le> box_cols width sz" and "0 < box_rows height sz"
    and "sz = 12 \<or> sz = 16 \<or> sz = 24 \<or> sz = 32"
    and "unat x + length cs * unat (sz div 2) \<le> 480" and "unat y + unat sz < 800"
  shows "\<exists>w'. lcd_driver_showstring x y width height sz cs w = Some w' \<and> row_shown p0 x y cs sz 0 w w' \<and> full_screen p0 w'"
proof -
  have w: "lcd_ready p0 w" "lcd_w w = 480" "lcd_h w = 800" using assms(1) by (simp_all add: full_screen_def)
  obtain w' where "show_list sz 0 (text_row x y sz cs) w = Some w'" "row_shown p0 x y cs sz 0 w w'"
    using row_spec [OF w(1) assms(7,4), of x y 0] assms(8,9) unfolding w(2,3) by blast
  then show ?thesis unfolding string_row [OF assms(2-6)] using full_screen_row [OF assms(1)] by blast
qed

lemma full_screen_fill: "full_screen p0 w \<Longrightarrow> full_screen p0 (lcd_fill color w)"
  "full_screen p0 w \<Longrightarrow> blank p0 (lcd_driver_clear color w) (ucast color)"
proof -
  assume f: "full_screen p0 w"
  then show b: "blank p0 (lcd_driver_clear color w) (ucast color)" unfolding full_screen_def by (intro clear_blank) blast+
  then show "full_screen p0 (lcd_fill color w)" unfolding full_screen_def lcd_fill_def blank_def by (simp add: panel_other)
qed

lemma str_test:
  "length (str_bytes ''Apollo STM32F4/F7'') = 17" "length (str_bytes ''TFTLCD TEST'') = 11"
  "length (str_bytes ''ATOM@ALIENTEK'') = 13" "length (str_bytes ''TEMPERATE: 00.00C, Vol:00.00V'') = 29"
  "length (str_bytes ''Timer: 00-00-00 00:00:00'') = 24"
  "list_all printable (str_bytes ''Apollo STM32F4/F7'')" "list_all printable (str_bytes ''TFTLCD TEST'')"
  "list_all printable (str_bytes ''ATOM@ALIENTEK'')" "list_all printable (str_bytes ''TEMPERATE: 00.00C, Vol:00.00V'')"
  "list_all printable (str_bytes ''Timer: 00-00-00 00:00:00'')"
  by (simp_all add: str_bytes_def printable_def)

lemma lcd_test_shows:
  assumes "full_screen p0 w"
  shows "\<exists>v w'. lcd_test w = Some w' \<and> blank p0 v 0xFFFF \<and> rows_shown p0 boot_rows v w'"
proof -
  define u where "u = lcd_fill GREEN (lcd_fill MAGENTA (lcd_fill RED (lcd_fill BLUE (lcd_fill BLACK (lcd_fill WHITE w)))))"
  define v where "v = lcd_driver_clear WHITE u"
  have "full_screen p0 u" unfolding u_def by (intro full_screen_fill(1) assms)
  then have b: "blank p0 v 0xFFFF" using full_screen_fill(2) [of p0 u WHITE] by (simp add: v_def WHITE_def)
  then have s: "full_screen p0 v" by (simp add: blank_def full_screen_def)
  have box: "box_ok 10 40 320 32 32" "box_ok 10 80 240 24 24" "box_ok 10 110 240 16 16" "box_ok 10 140 320 16 16"
    "box_ok 10 160 200 16 16" "box_cols 320 32 = 20" "box_cols 240 24 = 20" "box_cols 240 16 = 30"
    "box_cols 320 16 = 40" "box_cols 200 16 = 25" "box_rows 32 32 = 1" "box_rows 24 24 = 1" "box_rows 16 16 = 1"
    by (simp_all add: box_ok_def box_cols_def box_rows_def)
  have x: "(10 :: u16) < 256" by simp
  obtain w1 where 1: "lcd_driver_showstring 10 40 320 32 32 (str_bytes ''Apollo STM32F4/F7'') v = Some w1"
    "row_shown p0 10 40 (str_bytes ''Apollo STM32F4/F7'') 32 0 v w1" "full_screen p0 w1"
    using string_on_screen [OF s box(1) x str_test(6)] by (auto simp: box str_test)
  obtain w2 where 2: "lcd_driver_showstring 10 80 240 24 24 (str_bytes ''TFTLCD TEST'') w1 = Some w2"
    "row_shown p0 10 80 (str_bytes ''TFTLCD TEST'') 24 0 w1 w2" "full_screen p0 w2"
    using string_on_screen [OF 1(3) box(2) x str_test(7)] by (auto simp: box str_test)
  obtain w3 where 3: "lcd_driver_showstring 10 110 240 16 16 (str_bytes ''ATOM@ALIENTEK'') w2 = Some w3"
    "row_shown p0 10 110 (str_bytes ''ATOM@ALIENTEK'') 16 0 w2 w3" "full_screen p0 w3"
    using string_on_screen [OF 2(3) box(3) x str_test(8)] by (auto simp: box str_test)
  obtain w4 where 4: "lcd_driver_showstring 10 140 320 16 16 (str_bytes ''TEMPERATE: 00.00C, Vol:00.00V'') w3 = Some w4"
    "row_shown p0 10 140 (str_bytes ''TEMPERATE: 00.00C, Vol:00.00V'') 16 0 w3 w4" "full_screen p0 w4"
    using string_on_screen [OF 3(3) box(4) x str_test(9)] by (auto simp: box str_test)
  obtain w5 where 5: "lcd_driver_showstring 10 160 200 16 16 (str_bytes ''Timer: 00-00-00 00:00:00'') w4 = Some w5"
    "row_shown p0 10 160 (str_bytes ''Timer: 00-00-00 00:00:00'') 16 0 w4 w5" "full_screen p0 w5"
    using string_on_screen [OF 4(3) box(5) x str_test(10)] by (auto simp: box str_test)
  have "lcd_test w = Some w5"
    unfolding lcd_test_def Let_def u_def [symmetric] v_def [symmetric] 1(1) option.case 2(1) 3(1) 4(1) by (rule 5(1))
  moreover have "rows_shown p0 boot_rows v w5"
    unfolding boot_rows_def rows_shown.simps prod.case using 1(2) 2(2) 3(2) 4(2) 5(2) by blast
  ultimately show ?thesis using b by blast
qed

section \<open>Properties\<close>

lemma dec_str_printable: "list_all printable (dec_str n)"
proof (induction n rule: dec_str.induct)
  case (1 n)
  have "printable (word_of_nat (48 + d))" if "d < 10" for d
    using that by (simp add: printable_def word_le_nat_alt unat_word_ariths unat_of_nat take_bit_nat_eq_self)
  then show ?case using 1 by (subst dec_str.simps) simp
qed

lemma num_pad_printable: "printable (num_pad mode)"
  by (simp add: num_pad_def printable_def)

lemma length_num_text:
  assumes "0 < n"
  shows "length (num_text m n pad) = n"
proof -
  obtain k where k: "n = Suc k" using assms by (cases n) simp_all
  have "length (dec_str (m mod 10 ^ Suc k)) \<le> Suc k" by (rule length_dec_str [THEN conjunct2]) simp
  then show ?thesis by (simp add: num_text_def Let_def k)
qed

lemma extra_num_same: "lcd_driver_show_extra_num = lcd_driver_show_num"
  by (intro ext) (simp add: lcd_driver_show_extra_num_def lcd_driver_show_num_def)

text \<open>
  C21. For a size with a font, a printable character and a cell inside the screen, lcd_showchar
  finishes without reading outside the font and sets each pixel of the cell by the corresponding bit
  of the font's column-major bitmap: black for ink, white for background in mode 0, unchanged
  otherwise; no other pixel changes. If the cell ends on the last row of the screen, only its first
  column is drawn.
\<close>

theorem lcd_char_is_glyph:
  assumes "lcd_ready p0 w" and "sz = 12 \<or> sz = 16 \<or> sz = 24 \<or> sz = 32" and "0x20 \<le> c" and "c \<le> 0x7E"
    and "unat x + unat (sz div 2) \<le> lcd_w w" and "unat y + unat sz \<le> lcd_h w"
    and "cols = (if unat y + unat sz = lcd_h w then 1 else unat (sz div 2))"
  shows "\<exists>w'. lcd_showchar x y c sz mode w = Some w' \<and> lcd_ready p0 w'
    \<and> (\<forall>X Y. pixel p0 w' X Y =
         (if unat x \<le> X \<and> X < unat x + cols \<and> unat y \<le> Y \<and> Y < unat y + unat sz
          then ink mode (glyph_bit sz (c - 32) (X - unat x) (Y - unat y)) (pixel p0 w X Y)
          else pixel p0 w X Y))"
proof (cases "unat y + unat sz = lcd_h w")
  case True
  then have "unat x \<le> X \<and> X < unat x + cols \<longleftrightarrow> X = unat x" for X using assms(7) by auto
  then show ?thesis using showchar_bottom [OF assms(1-4) True, of x mode] by fastforce
next
  case False
  then show ?thesis
    using showchar_spec [OF assms(1-5), of y mode] assms(6,7) unfolding char_shown_def by auto
qed

theorem lcd_char_is_glyph_witness:
  "\<exists>w'. lcd_showchar 10 20 0x41 16 0 demo_lcd = Some w' \<and> pixel demo_panel w' 17 35 \<in> {0, 0xFFFF}
     \<and> pixel demo_panel w' 18 20 = 7"
proof -
  obtain w' where s: "lcd_showchar 10 20 0x41 16 0 demo_lcd = Some w'"
    and p: "\<And>X Y. pixel demo_panel w' X Y =
         (if unat (10 :: u16) \<le> X \<and> X < unat (10 :: u16) + unat ((16 :: u8) div 2) \<and> unat (20 :: u16) \<le> Y \<and> Y < unat (20 :: u16) + unat (16 :: u8)
          then ink 0 (glyph_bit 16 (0x41 - 32) (X - unat (10 :: u16)) (Y - unat (20 :: u16))) (pixel demo_panel demo_lcd X Y)
          else pixel demo_panel demo_lcd X Y)"
    using lcd_char_is_glyph [OF demo_lcd_facts(3), of 16 "0x41" 10 20 "unat ((16 :: u8) div 2)" 0] by (auto simp: demo_lcd_facts(1,2))
  show ?thesis using s p [of 17 35] p [of 18 20] by (simp add: ink_def demo_lcd_facts(4))
qed

text \<open>
  Whatever the character, size and mode, lcd_showchar started on the screen changes no pixel
  outside it.
\<close>

lemma lcd_char_stays_on_screen:
  assumes "lcd_ready p0 w" and "unat x < lcd_w w" and "unat y < lcd_h w" and "lcd_showchar x y c sz mode w = Some w'"
  shows "lcd_ready p0 w' \<and> gLcdInfo w' = gLcdInfo w
    \<and> (\<forall>X Y. \<not> (X < lcd_w w \<and> Y < lcd_h w) \<longrightarrow> pixel p0 w' X Y = pixel p0 w X Y)"
  using bytes_outside [of p0 w x y y] assms
  by (auto simp: lcd_showchar_def Let_def keeps_outside_def on_screen_def)

text \<open>
  For a length of 1 to 10 digits, both number functions show exactly the last len decimal
  digits of the value, right-aligned in their cells and padded with zeros or spaces as the mode
  asks, and change no other pixel.
\<close>

lemma lcd_number_is_decimal:
  assumes "lcd_ready p0 w" and "sz = 12 \<or> sz = 16 \<or> sz = 24 \<or> sz = 32" and "0 < unat len" and "unat len \<le> 10"
    and "unat x + unat len * unat (sz div 2) \<le> lcd_w w" and "unat y + unat sz < lcd_h w"
  shows "\<exists>w'. lcd_driver_show_num x y num len sz mode w = Some w' \<and> lcd_driver_show_extra_num x y num len sz mode w = Some w'
    \<and> row_shown p0 x y (num_text (unat num) (unat len) (num_pad mode)) sz (mode AND 0x01) w w'"
proof -
  have "list_all printable (num_text (unat num) (unat len) (num_pad mode))"
    unfolding num_text_def Let_def using dec_str_printable num_pad_printable
    by (auto simp: list_all_iff)
  moreover have "length (num_text (unat num) (unat len) (num_pad mode)) = unat len"
    by (rule length_num_text [OF assms(3)])
  ultimately obtain w' where "show_list sz (mode AND 0x01) (text_row x y sz (num_text (unat num) (unat len) (num_pad mode))) w = Some w'"
    "row_shown p0 x y (num_text (unat num) (unat len) (num_pad mode)) sz (mode AND 0x01) w w'"
    using row_spec [OF assms(1,2) _ _ assms(6)] assms(5) by metis
  then show ?thesis unfolding extra_num_same show_num_text [OF assms(3,4)] by blast
qed

text \<open>
  For a box whose left edge is below 256 and that does not wrap around, lcd_driver_showstring
  shows the printable prefix of the string cell by cell from left to right and top to bottom,
  breaking lines at the right edge, and stops when the rows of the box are used up.
\<close>

lemma lcd_string_fills_box:
  assumes "box_ok x y width height sz" and "x < 256"
  shows "lcd_driver_showstring x y width height sz cs w =
    show_list sz 0 (box_cells x y (box_cols width sz) sz 0
      (take (box_cols width sz * box_rows height sz) (takeWhile printable cs))) w"
proof -
  have "unat x < 256" using assms(2) by (simp add: word_less_nat_alt)
  then have "unat (ucast (ucast x :: u8) :: u16) = unat x"
    unfolding unat_ucast_16 by (simp add: unsigned_ucast_eq take_bit_nat_eq_self)
  then have "ucast (ucast x :: u8) = x" by (simp only: unsigned_word_eqI)
  then show ?thesis
    using showstring_cells [OF assms(1), of 0 cs w]
    by (simp add: lcd_driver_showstring_def Let_def text_x_def cell_0)
qed

text \<open>
  C17. When the memory controller initialises, lcd_driver_init succeeds whatever the panel held and
  whatever identifier it reports: it never reads outside a font table, clears all 480 by 800 pixels
  to white and then shows its five lines of text, each glyph in its cell and nothing else changed.
  These are the contents of the panel's memory; what the panel scans out of it, by the registers for
  scan direction and display on, is not part of the panel's model.
\<close>

theorem lcd_boot_screen:
  "\<exists>v w'. lcd_driver_init rd HAL_OK w = Some (pdPASS, w') \<and> blank p0 v 0xFFFF \<and> rows_shown p0 boot_rows v w'"
proof -
  obtain u where u: "lcd_driver_init rd HAL_OK w =
      (case lcd_test (lcd_config_init rd u) of None \<Rightarrow> None | Some w \<Rightarrow> Some (pdPASS, w))"
    unfolding lcd_driver_init_def lcd_hardware_init_def Let_def by auto
  have "full_screen p0 (lcd_config_init rd u)"
    using config_blank [of p0 rd u] by (simp add: blank_def full_screen_def)
  then show ?thesis unfolding u using lcd_test_shows by fastforce
qed

end
