(* ===== verification/Polling.thy ===== *)
theory Polling
  imports Prelude
begin

text \<open>
  The drivers' waiting loops: test the hardware, give up after a number of tries, pause between them.
  Each driver counts its tries in its own way; the locale \<open>bounded_poll\<close> states what the counters
  have in common, and that such a loop ends and finds the first try that succeeds. It is interpreted
  on the loops of the drivers, in their theories.
\<close>

text \<open>The state in which try \<open>i\<close> is made, and the outcome of at most \<open>k\<close> tries.\<close>

definition poll_at :: "('s \<Rightarrow> bool \<times> 's) \<Rightarrow> ('s \<Rightarrow> 's) \<Rightarrow> nat \<Rightarrow> 's \<Rightarrow> 's" where
  "poll_at check pause i = (\<lambda>s. pause (snd (check s))) ^^ i"

definition poll_search ::
  "('s \<Rightarrow> bool \<times> 's) \<Rightarrow> ('s \<Rightarrow> 's) \<Rightarrow> ('s \<Rightarrow> 's) \<Rightarrow> nat \<Rightarrow> 's \<Rightarrow> bool \<times> 's" where
  "poll_search check pause giveup k s =
     (case find (\<lambda>i. fst (check (poll_at check pause i s))) [0..<k] of
        Some i \<Rightarrow> (True, snd (check (poll_at check pause i s)))
      | None \<Rightarrow> (False, giveup (snd (check (poll_at check pause (k - 1) s)))))"

lemma poll_at_0 [simp]: "poll_at check pause 0 s = s"
  by (simp add: poll_at_def)

lemma poll_at_Suc: "poll_at check pause (Suc i) s = poll_at check pause i (pause (snd (check s)))"
  by (simp only: poll_at_def funpow_Suc_right comp_def)

lemma poll_at_Suc_outer:
  "poll_at check pause (Suc i) s = pause (snd (check (poll_at check pause i s)))"
  by (simp add: poll_at_def)

lemma find_upt_Suc:
  "find P [0..<Suc k] = (if P 0 then Some 0 else map_option Suc (find (\<lambda>i. P (Suc i)) [0..<k]))"
proof -
  have "find P (map Suc xs) = map_option Suc (find (\<lambda>i. P (Suc i)) xs)" for xs
    by (induction xs) auto
  then show ?thesis by (simp only: upt_conv_Cons map_Suc_upt [symmetric] find.simps zero_less_Suc)
qed

lemma poll_search_Suc:
  "poll_search check pause giveup (Suc k) s =
     (if fst (check s) then (True, snd (check s))
      else if k = 0 then (False, giveup (snd (check s)))
      else poll_search check pause giveup k (pause (snd (check s))))"
  by (cases k) (auto simp: poll_search_def find_upt_Suc poll_at_Suc simp del: upt_Suc split: option.split)

lemma find_upt_le: "find (\<lambda>i. n \<le> i) [0..<k] = (if n < k then Some n else None)"
proof (induction k arbitrary: n)
  case 0
  show ?case by simp
next
  case (Suc k)
  show ?case by (cases n) (simp_all add: find_upt_Suc Suc.IH del: upt_Suc)
qed

text \<open>A search that never succeeds, and one that succeeds from try \<open>n\<close> on.\<close>

lemma poll_search_never:
  assumes "\<And>i. i < k \<Longrightarrow> \<not> fst (check (poll_at check pause i s))"
  shows "poll_search check pause giveup k s = (False, giveup (snd (check (poll_at check pause (k - 1) s))))"
proof -
  have "find (\<lambda>i. fst (check (poll_at check pause i s))) [0..<k] = None"
    using assms by (auto simp: find_None_iff)
  then show ?thesis by (simp add: poll_search_def)
qed

lemma poll_search_from:
  assumes "\<And>i. fst (check (poll_at check pause i s)) \<longleftrightarrow> n \<le> i"
  shows "poll_search check pause giveup k s =
     (if n < k then (True, snd (check (poll_at check pause n s)))
      else (False, giveup (snd (check (poll_at check pause (k - 1) s)))))"
  by (simp add: poll_search_def assms find_upt_le del: upt_Suc)

text \<open>An invariant of the test and of the pause holds wherever the search ends.\<close>

lemma poll_search_inv:
  assumes "\<And>s. I s \<Longrightarrow> I (snd (check s))" and "\<And>s. I s \<Longrightarrow> I (pause s)" and "\<And>s. I s \<Longrightarrow> I (giveup s)" and "I s"
  shows "I (snd (poll_search check pause giveup k s))"
proof -
  have "I (poll_at check pause i s)" for i
    by (induction i) (simp_all add: poll_at_Suc_outer assms)
  then show ?thesis using assms(1,3) by (auto simp: poll_search_def split: option.split)
qed

text \<open>The measures under which the C counters make the loops terminate.\<close>

lemma tries_left_less:
  fixes n timeout :: "'a::len word"
  assumes "\<not> timeout \<le> n + 1"
  shows "unat (timeout - 1 - (n + 1)) < unat (timeout - 1 - n)"
proof -
  have "n + 1 \<noteq> timeout" using assms by auto
  then have "timeout - 1 - n \<noteq> 0"
    by (metis add.commute diff_add_cancel right_minus_eq)
  moreover have "timeout - 1 - (n + 1) = timeout - 1 - n - 1" by simp
  ultimately show ?thesis by (metis measure_unat)
qed

lemma tries_left_less':
  fixes n limit :: "'a::len word"
  assumes "\<not> n + 1 > limit" and "limit < limit + 1"
  shows "unat (limit - (n + 1)) < unat (limit - n)"
proof -
  have "limit - n \<noteq> 0" using assms by auto
  moreover have "limit - (n + 1) = limit - n - 1" by simp
  ultimately show ?thesis by (metis measure_unat)
qed

locale bounded_poll =
  fixes check :: "'s \<Rightarrow> bool \<times> 's"
    and pause :: "'s \<Rightarrow> 's"
    and giveup :: "'s \<Rightarrow> 's"
    and loop :: "'c \<Rightarrow> 's \<Rightarrow> bool \<times> 's"
    and left :: "'c \<Rightarrow> nat"
    and advance :: "'c \<Rightarrow> 'c"
  assumes loop_step: "0 < left c \<Longrightarrow> loop c s =
      (if fst (check s) then (True, snd (check s))
       else if left c = 1 then (False, giveup (snd (check s)))
       else loop (advance c) (pause (snd (check s))))"
    and left_advance: "1 < left c \<Longrightarrow> left (advance c) = left c - 1"
begin

lemma loop_search: "0 < left c \<Longrightarrow> loop c s = poll_search check pause giveup (left c) s"
proof (induction "left c" arbitrary: c s)
  case 0
  then show ?case by simp
next
  case (Suc k)
  have "left (advance c) = k" if "k \<noteq> 0"
    using left_advance [of c] Suc.hyps(2) that by simp
  then have "loop (advance c) s = poll_search check pause giveup k s" if "k \<noteq> 0" for s
    using Suc.hyps(1) [of "advance c"] that by simp
  then show ?case
    using loop_step [OF Suc.prems] Suc.hyps(2) [symmetric] by (simp add: poll_search_Suc)
qed

end

end
