(* ===== verification/W25q.thy ===== *)
theory W25q
  imports Peripheral Polling
begin

text \<open>
  The driver of the W25Q serial flash (\<^verbatim>\<open>Drivers/Src/drv_spi_w25q.c\<close>) and the SPI port under it
  (\<^verbatim>\<open>drv_spi.c\<close> as \<^verbatim>\<open>SPI_RUN_MODE\<close> configures it, hardware with DMA). A history records the
  chip-select pin, every byte exchanged, the DMA requests and the delays, the most recent first; what
  the HAL answers is a parameter that may depend on the whole history.

  The second half states the chip's data sheet as a machine, \<open>nor_event\<close>, and proves that on such a
  chip the driver's operations are an array of bytes that can be erased, programmed and read.
\<close>

section \<open>The SPI port\<close>

record SPI_InitTypeDef =
  spi_Master :: bool
  spi_TwoLines :: bool
  spi_DataSize :: nat
  spi_CLKPolarity_High :: bool
  spi_CLKPhase_2Edge :: bool
  spi_NSS_Soft :: bool
  spi_BaudRatePrescaler :: nat
  spi_FirstBit_MSB :: bool
  spi_TIMode :: bool
  spi_CRCCalculation :: bool
  spi_CRCPolynomial :: nat

datatype spi_event =
    Spi_Gpio hw_event
  | Spi_Init SPI_InitTypeDef
  | Spi_DmaInit dma_stream DMA_InitTypeDef
  | Spi_Enable
  | Spi_DmaRequests
  | Spi_DmaClear dma_stream
  | Spi_DmaDisable dma_stream
  | Spi_DmaStart dma_stream u32 u32 u16
  | Spi_Xfer u8 HAL_StatusTypeDef
  | Spi_Delay u32

type_synonym spi_history = "spi_event list"

text \<open>
  The HAL: the results of its initialisations, the status and the byte (if one came in) with which it
  answers a transfer, the transfer-complete flags of the DMA streams, and the address of SPI5's data
  register.
\<close>

record spi_hal =
  hal_spi_init :: HAL_StatusTypeDef
  hal_dma_rx :: HAL_StatusTypeDef
  hal_dma_tx :: HAL_StatusTypeDef
  hal_xfer :: "spi_history \<Rightarrow> u8 \<Rightarrow> HAL_StatusTypeDef \<times> u8 option"
  hal_dma_flag :: "spi_history \<Rightarrow> dma_stream \<Rightarrow> bool"
  hal_dma_start :: "spi_history \<Rightarrow> dma_stream \<Rightarrow> HAL_StatusTypeDef"
  spi_DR :: u32

text \<open>\<^verbatim>\<open>spi_driver_init\<close>. \<open>None\<close> is \<^verbatim>\<open>Error_Handler\<close>, which never returns.\<close>

definition spi5_init :: SPI_InitTypeDef where
  "spi5_init = \<lparr>spi_Master = True, spi_TwoLines = True, spi_DataSize = 8, spi_CLKPolarity_High = True,
     spi_CLKPhase_2Edge = True, spi_NSS_Soft = True, spi_BaudRatePrescaler = 8, spi_FirstBit_MSB = True,
     spi_TIMode = False, spi_CRCCalculation = False, spi_CRCPolynomial = 10\<rparr>"

definition spi5_dma_init :: "dma_direction \<Rightarrow> DMA_InitTypeDef" where
  "spi5_dma_init dir = dma_init0\<lparr>dma_Channel := 2, dma_Direction := dir, dma_PeriphInc := False, dma_MemInc := True,
     dma_PeriphDataAlignment := DMA_DATAALIGN_BYTE, dma_MemDataAlignment := DMA_DATAALIGN_BYTE,
     dma_Mode := DMA_NORMAL, dma_Priority := DMA_PRIORITY_HIGH, dma_FIFOMode := False\<rparr>"

definition spi_driver_init :: "spi_hal \<Rightarrow> spi_history \<Rightarrow> (BaseType_t \<times> spi_history) option" where
  "spi_driver_init hw h =
     (let h = Spi_Gpio (ClockEnable GPIOF) # h;
          h = Spi_Gpio (PeriphClock RCC_SPI5) # h;
          h = Spi_Gpio (PeriphClock RCC_DMA2) # h;
          h = Spi_Gpio (WritePin GPIOF GPIO_PIN_6 True) # h;
          g = gpio_init0\<lparr>Pin := GPIO_PIN_7 OR GPIO_PIN_8 OR GPIO_PIN_9, Speed := GPIO_SPEED_FREQ_VERY_HIGH,
                Mode := GPIO_MODE_AF_PP, Pull := GPIO_PULLUP, Alternate := 5\<rparr>;
          h = Spi_Gpio (InitPin GPIOF g) # h;
          g = g\<lparr>Pin := GPIO_PIN_6, Mode := GPIO_MODE_OUTPUT_PP, Pull := GPIO_PULLUP,
                Speed := GPIO_SPEED_FREQ_HIGH\<rparr>;
          h = Spi_Gpio (InitPin GPIOF g) # h;
          h = Spi_Init spi5_init # h
      in if hal_spi_init hw \<noteq> HAL_OK then Some (pdFAIL, h)
         else (let h = Spi_DmaInit DMA2_Stream3 (spi5_dma_init DMA_PERIPH_TO_MEMORY) # h
               in if hal_dma_rx hw \<noteq> HAL_OK then Some (pdFAIL, h)
                  else (let h = Spi_DmaInit DMA2_Stream4 (spi5_dma_init DMA_MEMORY_TO_PERIPH) # h
                        in if hal_dma_tx hw \<noteq> HAL_OK then None
                           else Some (pdPASS, Spi_DmaRequests # Spi_Enable # h))))"

text \<open>The received byte stays \<open>0xff\<close> when none came in; the caller may pass \<open>NULL\<close> for the status.\<close>

definition spi_rw_byte :: "spi_hal \<Rightarrow> u8 \<Rightarrow> spi_history \<Rightarrow> u8 \<times> HAL_StatusTypeDef \<times> spi_history" where
  "spi_rw_byte hw b h =
     (let (status, rx) = hal_xfer hw h b
      in (case rx of None \<Rightarrow> 0xff | Some r \<Rightarrow> r, status, Spi_Xfer b status # h))"

definition spi_write_dma :: "spi_hal \<Rightarrow> u32 \<Rightarrow> u16 \<Rightarrow> spi_history \<Rightarrow> HAL_StatusTypeDef \<times> spi_history" where
  "spi_write_dma hw data n h =
     (let h = Spi_DmaClear DMA2_Stream4 # h;
          h = Spi_DmaDisable DMA2_Stream3 # h;
          h = Spi_DmaDisable DMA2_Stream4 # h
      in (hal_dma_start hw h DMA2_Stream4, Spi_DmaStart DMA2_Stream4 data (spi_DR hw) n # h))"

definition spi_write_check_ok :: "spi_hal \<Rightarrow> spi_history \<Rightarrow> HAL_StatusTypeDef \<times> spi_history" where
  "spi_write_check_ok hw h =
     (if hal_dma_flag hw h DMA2_Stream4 then (HAL_OK, Spi_DmaClear DMA2_Stream4 # h) else (HAL_ERROR, h))"

definition spi_read_dma :: "spi_hal \<Rightarrow> u32 \<Rightarrow> u16 \<Rightarrow> spi_history \<Rightarrow> HAL_StatusTypeDef \<times> spi_history" where
  "spi_read_dma hw data n h =
     (let h = Spi_DmaClear DMA2_Stream4 # h;
          h = Spi_DmaClear DMA2_Stream3 # h;
          h = Spi_DmaDisable DMA2_Stream3 # h;
          h = Spi_DmaDisable DMA2_Stream4 # h;
          h = Spi_DmaStart DMA2_Stream3 (spi_DR hw) data n # h
      in (hal_dma_start hw h DMA2_Stream4, Spi_DmaStart DMA2_Stream4 (spi_DR hw) data n # h))"

definition spi_read_check_ok :: "spi_hal \<Rightarrow> spi_history \<Rightarrow> HAL_StatusTypeDef \<times> spi_history" where
  "spi_read_check_ok hw h =
     (if hal_dma_flag hw h DMA2_Stream3
      then (HAL_OK, Spi_DmaClear DMA2_Stream3 # Spi_DmaClear DMA2_Stream4 # h) else (HAL_ERROR, h))"

section \<open>The flash driver\<close>

datatype WQ_OP_STATUS = WQ_OP_OK | WQ_OP_DEVICE_ERR | WQ_OP_TIMEOUT_ERR | WQ_OP_COM_ERR

record wq_world =
  w25q_chip_id :: u32
  spi_hist :: spi_history

definition WQ25_ManufacturerID :: u32 where "WQ25_ManufacturerID = 0xEF"
definition CHIP_ID_Q256 :: u32 where "CHIP_ID_Q256 = 0xEF18"
definition W25X_WATI_TIMEOUT :: u32 where "W25X_WATI_TIMEOUT = 200"
definition W25X_WATI_LONG_TIMEOUT :: u32 where "W25X_WATI_LONG_TIMEOUT = 5000"
definition W25X_SECTOR_SIZE :: u32 where "W25X_SECTOR_SIZE = 4 * 1024"
definition W25X_BLOCK_SIZE :: u32 where "W25X_BLOCK_SIZE = 64 * 1024"

definition W25X_INSTRU_WREN :: u8 where "W25X_INSTRU_WREN = 0x06"
definition W25X_INSTRU_WRDI :: u8 where "W25X_INSTRU_WRDI = 0x04"
definition W25X_INSTRU_RDSR_1 :: u8 where "W25X_INSTRU_RDSR_1 = 0x05"
definition W25X_INSTRU_READ :: u8 where "W25X_INSTRU_READ = 0x03"
definition W25X_PageProgram :: u8 where "W25X_PageProgram = 0x02"
definition W25X_BlockErase :: u8 where "W25X_BlockErase = 0xD8"
definition W25X_SectorErase :: u8 where "W25X_SectorErase = 0x20"
definition W25X_ChipErase :: u8 where "W25X_ChipErase = 0xC7"
definition W25X_Enable4ByteAddr :: u8 where "W25X_Enable4ByteAddr = 0xB7"

definition WQ25_GetManufacturerID :: "u32 \<Rightarrow> u32" where
  "WQ25_GetManufacturerID i = drop_bit 8 i AND 0xff"

definition WQ25_CS_ON :: "spi_history \<Rightarrow> spi_history" where
  "WQ25_CS_ON h = Spi_Gpio (WritePin GPIOF GPIO_PIN_6 False) # h"

definition WQ25_CS_OFF :: "spi_history \<Rightarrow> spi_history" where
  "WQ25_CS_OFF h = Spi_Gpio (WritePin GPIOF GPIO_PIN_6 True) # h"

text \<open>\<^verbatim>\<open>spi_rw_byte(b, NULL)\<close>, its value dropped.\<close>

abbreviation spi_put :: "spi_hal \<Rightarrow> u8 \<Rightarrow> spi_history \<Rightarrow> spi_history" where
  "spi_put hw b h \<equiv> snd (snd (spi_rw_byte hw b h))"

definition wq_write_enable :: "spi_hal \<Rightarrow> spi_history \<Rightarrow> spi_history" where
  "wq_write_enable hw h = WQ25_CS_OFF (spi_put hw W25X_INSTRU_WREN (WQ25_CS_ON h))"

definition wq_write_disable :: "spi_hal \<Rightarrow> spi_history \<Rightarrow> spi_history" where
  "wq_write_disable hw h = WQ25_CS_OFF (spi_put hw W25X_INSTRU_WRDI (WQ25_CS_ON h))"

definition wq_read_chipid :: "spi_hal \<Rightarrow> spi_history \<Rightarrow> u16 \<times> spi_history" where
  "wq_read_chipid hw h =
     (let h = WQ25_CS_ON h;
          h = spi_put hw 0x90 h;
          h = spi_put hw 0x00 h;
          h = spi_put hw 0x00 h;
          h = spi_put hw 0x00 h;
          (a, _, h) = spi_rw_byte hw 0xff h;
          i = push_bit 8 (ucast a :: u16);
          (b, _, h) = spi_rw_byte hw 0xff h;
          i = i OR ucast b
      in (i, WQ25_CS_OFF h))"

text \<open>One pass of the loop of \<^verbatim>\<open>wq_wait_busy\<close> up to its test.\<close>

definition wq_read_status :: "spi_hal \<Rightarrow> spi_history \<Rightarrow> u8 \<times> spi_history" where
  "wq_read_status hw h =
     (let h = WQ25_CS_ON h;
          h = spi_put hw W25X_INSTRU_RDSR_1 h;
          (reg_status, _, h) = spi_rw_byte hw 0xff h
      in (reg_status, WQ25_CS_OFF h))"

function wq_wait_loop :: "spi_hal \<Rightarrow> u32 \<Rightarrow> u32 \<Rightarrow> spi_history \<Rightarrow> WQ_OP_STATUS \<times> spi_history" where
  "wq_wait_loop hw timeout error_count h =
     (let (reg_status, h) = wq_read_status hw h
      in if reg_status AND 0x1 = 0 then (WQ_OP_OK, h)
         else (let error_count = error_count + 1
               in if error_count \<ge> timeout then (WQ_OP_TIMEOUT_ERR, h)
                  else wq_wait_loop hw timeout error_count (Spi_Delay 1 # h)))"
  by auto

termination
  by (relation "measure (\<lambda>(hw, timeout, n, h). unat (timeout - 1 - n))")
    (simp, simp only: in_measure prod.case, rule tries_left_less, simp)

declare wq_wait_loop.simps [simp del]

definition wq_wait_busy :: "spi_hal \<Rightarrow> u8 \<Rightarrow> spi_history \<Rightarrow> WQ_OP_STATUS \<times> spi_history" where
  "wq_wait_busy hw mode h =
     wq_wait_loop hw (if mode = 0 then W25X_WATI_TIMEOUT else W25X_WATI_LONG_TIMEOUT) 0 h"

text \<open>The address, most significant byte first: four bytes for the W25Q256, else three.\<close>

definition wq_send_addr :: "spi_hal \<Rightarrow> u32 \<Rightarrow> u32 \<Rightarrow> spi_history \<Rightarrow> spi_history" where
  "wq_send_addr hw chip addr h =
     (let h = (if chip = CHIP_ID_Q256 then spi_put hw (ucast (drop_bit 24 addr)) h else h);
          h = spi_put hw (ucast (drop_bit 16 addr)) h;
          h = spi_put hw (ucast (drop_bit 8 addr)) h
      in spi_put hw (ucast addr) h)"

text \<open>The guard every operation starts with.\<close>

definition wq_known :: "wq_world \<Rightarrow> bool" where
  "wq_known w \<longleftrightarrow> WQ25_GetManufacturerID (w25q_chip_id w) = WQ25_ManufacturerID"

definition wq_enter_4byte_addr :: "spi_hal \<Rightarrow> wq_world \<Rightarrow> WQ_OP_STATUS \<times> wq_world" where
  "wq_enter_4byte_addr hw w =
     (if \<not> wq_known w then (WQ_OP_DEVICE_ERR, w)
      else (let h = WQ25_CS_ON (spi_hist w);
                (_, status, h) = spi_rw_byte hw W25X_Enable4ByteAddr h;
                w = w\<lparr>spi_hist := WQ25_CS_OFF h\<rparr>
            in (if status \<noteq> HAL_OK then WQ_OP_COM_ERR else WQ_OP_OK, w)))"

definition wq_sector_erase :: "spi_hal \<Rightarrow> u32 \<Rightarrow> wq_world \<Rightarrow> WQ_OP_STATUS \<times> wq_world" where
  "wq_sector_erase hw addr w =
     (if \<not> wq_known w then (WQ_OP_DEVICE_ERR, w)
      else (let h = wq_write_enable hw (spi_hist w);
                (r, h) = wq_wait_busy hw 0 h
            in if r \<noteq> WQ_OP_OK then (WQ_OP_TIMEOUT_ERR, w\<lparr>spi_hist := h\<rparr>)
               else (let h = WQ25_CS_ON h;
                         (_, status, h) = spi_rw_byte hw W25X_SectorErase h;
                         h = (if status = HAL_OK
                              then wq_send_addr hw (w25q_chip_id w) (addr - addr mod W25X_SECTOR_SIZE) h
                              else h);
                         h = WQ25_CS_OFF h;
                         (r, h) = wq_wait_busy hw 0 h;
                         w = w\<lparr>spi_hist := h\<rparr>
                     in if r \<noteq> WQ_OP_OK then (WQ_OP_TIMEOUT_ERR, w)
                        else if status \<noteq> HAL_OK then (WQ_OP_COM_ERR, w)
                        else (WQ_OP_OK, w))))"

definition wq_block_erase :: "spi_hal \<Rightarrow> u32 \<Rightarrow> wq_world \<Rightarrow> WQ_OP_STATUS \<times> wq_world" where
  "wq_block_erase hw addr w =
     (if \<not> wq_known w then (WQ_OP_DEVICE_ERR, w)
      else (let h = wq_write_enable hw (spi_hist w);
                (r, h) = wq_wait_busy hw 0 h
            in if r \<noteq> WQ_OP_OK then (WQ_OP_TIMEOUT_ERR, w\<lparr>spi_hist := h\<rparr>)
               else (let h = WQ25_CS_ON h;
                         (_, status, h) = spi_rw_byte hw W25X_BlockErase h;
                         h = (if status = HAL_OK
                              then wq_send_addr hw (w25q_chip_id w) (addr - addr mod W25X_BLOCK_SIZE) h
                              else h);
                         h = WQ25_CS_OFF h;
                         (r, h) = wq_wait_busy hw 1 h;
                         w = w\<lparr>spi_hist := h\<rparr>
                     in if r \<noteq> WQ_OP_OK then (WQ_OP_TIMEOUT_ERR, w)
                        else if status \<noteq> HAL_OK then (WQ_OP_COM_ERR, w)
                        else (WQ_OP_OK, w))))"

definition wq_chip_erase :: "spi_hal \<Rightarrow> wq_world \<Rightarrow> WQ_OP_STATUS \<times> wq_world" where
  "wq_chip_erase hw w =
     (if \<not> wq_known w then (WQ_OP_DEVICE_ERR, w)
      else (let h = wq_write_enable hw (spi_hist w);
                (r, h) = wq_wait_busy hw 0 h
            in if r \<noteq> WQ_OP_OK then (WQ_OP_TIMEOUT_ERR, w\<lparr>spi_hist := h\<rparr>)
               else (let h = WQ25_CS_ON h;
                         (_, status, h) = spi_rw_byte hw W25X_ChipErase h;
                         h = WQ25_CS_OFF h;
                         (r, h) = wq_wait_busy hw 1 h;
                         w = w\<lparr>spi_hist := h\<rparr>
                     in if r \<noteq> WQ_OP_OK then (WQ_OP_TIMEOUT_ERR, w)
                        else if status \<noteq> HAL_OK then (WQ_OP_COM_ERR, w)
                        else (WQ_OP_OK, w))))"

text \<open>The reading loop: the bytes stored to \<open>pbuffer[0]\<close>, \<open>pbuffer[1]\<close>, ... in order.\<close>

primrec wq_read_loop :: "spi_hal \<Rightarrow> nat \<Rightarrow> spi_history \<Rightarrow> u8 list \<times> spi_history" where
  "wq_read_loop hw 0 h = ([], h)"
| "wq_read_loop hw (Suc n) h =
     (let (b, _, h) = spi_rw_byte hw 0xff h;
          (bs, h) = wq_read_loop hw n h
      in (b # bs, h))"

text \<open>The result, and the bytes written to the caller's buffer (none when the operation is refused).\<close>

definition wq_memory_read :: "spi_hal \<Rightarrow> u32 \<Rightarrow> u16 \<Rightarrow> wq_world \<Rightarrow> WQ_OP_STATUS \<times> u8 list \<times> wq_world" where
  "wq_memory_read hw addr num w =
     (if \<not> wq_known w then (WQ_OP_DEVICE_ERR, [], w)
      else (let h = WQ25_CS_ON (spi_hist w);
                (_, status, h) = spi_rw_byte hw W25X_INSTRU_READ h;
                (bs, h) = (if status = HAL_OK
                           then wq_read_loop hw (unat num) (wq_send_addr hw (w25q_chip_id w) addr h)
                           else ([], h));
                w = w\<lparr>spi_hist := WQ25_CS_OFF h\<rparr>
            in (if status \<noteq> HAL_OK then WQ_OP_COM_ERR else WQ_OP_OK, bs, w)))"

text \<open>An unknown chip makes it return \<^verbatim>\<open>pdFAIL\<close>, which is the value of \<^verbatim>\<open>WQ_OP_OK\<close>.\<close>

definition wq_memory_write :: "spi_hal \<Rightarrow> u32 \<Rightarrow> u8 list \<Rightarrow> u16 \<Rightarrow> wq_world \<Rightarrow> WQ_OP_STATUS \<times> wq_world" where
  "wq_memory_write hw addr pbuffer num w =
     (if \<not> wq_known w then (WQ_OP_OK, w)
      else (let (r, h) = wq_wait_busy hw 0 (spi_hist w)
            in if r \<noteq> WQ_OP_OK then (WQ_OP_TIMEOUT_ERR, w\<lparr>spi_hist := h\<rparr>)
               else (let h = wq_write_enable hw h;
                         h = WQ25_CS_ON h;
                         (_, status, h) = spi_rw_byte hw W25X_PageProgram h;
                         h = (if status = HAL_OK
                              then fold (\<lambda>i. spi_put hw (pbuffer ! i)) [0..<unat num]
                                     (wq_send_addr hw (w25q_chip_id w) addr h)
                              else h);
                         h = WQ25_CS_OFF h;
                         (r, h) = wq_wait_busy hw 0 h;
                         w = w\<lparr>spi_hist := h\<rparr>
                     in if r \<noteq> WQ_OP_OK then (WQ_OP_TIMEOUT_ERR, w)
                        else if status \<noteq> HAL_OK then (WQ_OP_COM_ERR, w)
                        else (WQ_OP_OK, w))))"

text \<open>
  The loop that waits for a DMA transfer, with the flag test it polls. It gives up, and makes the
  operation return at once, when its 16-bit count exceeds the limit.
\<close>

function wq_dma_loop :: "(spi_history \<Rightarrow> HAL_StatusTypeDef \<times> spi_history) \<Rightarrow> u16 \<Rightarrow> spi_history \<Rightarrow> bool \<times> spi_history" where
  "wq_dma_loop check error_count h =
     (let (r, h) = check h
      in if r = HAL_OK then (True, h)
         else (let error_count = error_count + 1
               in if error_count > 200 then (False, h)
                  else wq_dma_loop check error_count (Spi_Delay 1 # h)))"
  by auto

termination
  by (relation "measure (\<lambda>(check, n, h). unat (200 - n))")
    (simp, simp only: in_measure prod.case, rule tries_left_less', simp_all)

declare wq_dma_loop.simps [simp del]

text \<open>The buffer is an address here: the bytes themselves are moved by the DMA controller.\<close>

definition wq_memory_read_dma :: "spi_hal \<Rightarrow> u32 \<Rightarrow> u32 \<Rightarrow> u16 \<Rightarrow> wq_world \<Rightarrow> WQ_OP_STATUS \<times> wq_world" where
  "wq_memory_read_dma hw addr pbuffer num w =
     (if \<not> wq_known w then (WQ_OP_DEVICE_ERR, w)
      else (let h = WQ25_CS_ON (spi_hist w);
                (_, status, h) = spi_rw_byte hw W25X_INSTRU_READ h;
                (done, h) = (if status = HAL_OK
                             then wq_dma_loop (spi_read_check_ok hw) 0
                                    (snd (spi_read_dma hw pbuffer num
                                       (wq_send_addr hw (w25q_chip_id w) addr h)))
                             else (True, h))
            in if \<not> done then (WQ_OP_TIMEOUT_ERR, w\<lparr>spi_hist := h\<rparr>)
               else (if status \<noteq> HAL_OK then WQ_OP_COM_ERR else WQ_OP_OK, w\<lparr>spi_hist := WQ25_CS_OFF h\<rparr>)))"

definition wq_memory_write_dma :: "spi_hal \<Rightarrow> u32 \<Rightarrow> u32 \<Rightarrow> u16 \<Rightarrow> wq_world \<Rightarrow> WQ_OP_STATUS \<times> wq_world" where
  "wq_memory_write_dma hw addr pbuffer num w =
     (if \<not> wq_known w then (WQ_OP_OK, w)
      else (let (r, h) = wq_wait_busy hw 0 (spi_hist w)
            in if r \<noteq> WQ_OP_OK then (WQ_OP_TIMEOUT_ERR, w\<lparr>spi_hist := h\<rparr>)
               else (let h = wq_write_enable hw h;
                         h = WQ25_CS_ON h;
                         (_, status, h) = spi_rw_byte hw W25X_PageProgram h;
                         (done, h) = (if status = HAL_OK
                                      then wq_dma_loop (spi_write_check_ok hw) 0
                                             (snd (spi_write_dma hw pbuffer num
                                                (wq_send_addr hw (w25q_chip_id w) addr h)))
                                      else (True, h))
                     in if \<not> done then (WQ_OP_TIMEOUT_ERR, w\<lparr>spi_hist := h\<rparr>)
                        else (let (r, h) = wq_wait_busy hw 0 (WQ25_CS_OFF h);
                                  w = w\<lparr>spi_hist := h\<rparr>
                              in if r \<noteq> WQ_OP_OK then (WQ_OP_TIMEOUT_ERR, w)
                                 else if status \<noteq> HAL_OK then (WQ_OP_COM_ERR, w)
                                 else (WQ_OP_OK, w)))))"

text \<open>The 25-byte buffer the test fills and prints, zeroed first, and the initialisation of the driver.\<close>

definition wq25_read_test :: "spi_hal \<Rightarrow> wq_world \<Rightarrow> u8 list \<times> wq_world" where
  "wq25_read_test hw w =
     (let buffer = replicate 25 0;
          (_, bs, w) = wq_memory_read hw 0 24 w
      in (bs @ drop (length bs) buffer, w))"

definition wq25_driver_init :: "spi_hal \<Rightarrow> wq_world \<Rightarrow> (BaseType_t \<times> wq_world) option" where
  "wq25_driver_init hw w =
     (case spi_driver_init hw (spi_hist w) of
        None \<Rightarrow> None
      | Some (xReturn, h) \<Rightarrow>
          let w = w\<lparr>spi_hist := h\<rparr>
          in if xReturn = pdPASS
             then (let (i, h) = wq_read_chipid hw h;
                       w = w\<lparr>w25q_chip_id := ucast i, spi_hist := h\<rparr>
                   in if WQ25_GetManufacturerID (w25q_chip_id w) \<noteq> WQ25_ManufacturerID
                      then Some (pdFAIL, w\<lparr>w25q_chip_id := 0\<rparr>)
                      else (let w = (if w25q_chip_id w = CHIP_ID_Q256 then snd (wq_enter_4byte_addr hw w) else w);
                                (_, w) = wq25_read_test hw w
                            in Some (xReturn, w)))
             else Some (xReturn, w))"

section \<open>Waiting for the chip\<close>

text \<open>The test both waiting loops make, and the loops as bounded searches for a try that succeeds.\<close>

definition wq_poll :: "spi_hal \<Rightarrow> spi_history \<Rightarrow> bool \<times> spi_history" where
  "wq_poll hw h = (fst (wq_read_status hw h) AND 1 = 0, snd (wq_read_status hw h))"

abbreviation wq_status_of :: "bool \<Rightarrow> WQ_OP_STATUS" where
  "wq_status_of ok \<equiv> if ok then WQ_OP_OK else WQ_OP_TIMEOUT_ERR"

interpretation wq_waiting: bounded_poll "wq_poll hw" "(#) (Spi_Delay 1)" id
    "\<lambda>n h. map_prod (\<lambda>r. r = WQ_OP_OK) id (wq_wait_loop hw timeout n h)"
    "\<lambda>n. unat timeout - unat n" "\<lambda>n. n + 1"
  for hw timeout
proof
  fix n :: u32 and h
  assume "0 < unat timeout - unat n"
  then have n: "unat (n + 1) = Suc (unat n)" by (intro unat_add_one_less [of n timeout]) (simp add: word_less_unat)
  then have "timeout \<le> n + 1 \<longleftrightarrow> unat timeout - unat n = 1"
    using \<open>0 < unat timeout - unat n\<close> by (simp add: word_le_nat_alt) linarith
  then show "map_prod (\<lambda>r. r = WQ_OP_OK) id (wq_wait_loop hw timeout n h) =
      (if fst (wq_poll hw h) then (True, snd (wq_poll hw h))
       else if unat timeout - unat n = 1 then (False, id (snd (wq_poll hw h)))
       else map_prod (\<lambda>r. r = WQ_OP_OK) id (wq_wait_loop hw timeout (n + 1) (Spi_Delay 1 # snd (wq_poll hw h))))"
    by (subst wq_wait_loop.simps) (simp add: wq_poll_def Let_def split_def)
next
  fix n :: u32
  assume "1 < unat timeout - unat n"
  then have "unat (n + 1) = Suc (unat n)" by (intro unat_add_one_less [of n timeout]) (simp add: word_less_unat)
  then show "unat timeout - unat (n + 1) = unat timeout - unat n - 1" by simp
qed

interpretation wq_dma: bounded_poll "\<lambda>h. map_prod (\<lambda>r. r = HAL_OK) id (check h)" "(#) (Spi_Delay 1)" id
    "wq_dma_loop check" "\<lambda>n. 201 - unat n" "\<lambda>n. n + 1"
  for check
proof
  fix n :: u16 and h
  assume l: "0 < 201 - unat n"
  then have n: "unat (n + 1) = Suc (unat n)" by (intro unat_add_one_less [of n 201]) (simp add: word_less_unat)
  then have "n + 1 > 200 \<longleftrightarrow> 201 - unat n = 1"
    using l by (simp add: word_less_unat) linarith
  then show "wq_dma_loop check n h =
      (if fst (map_prod (\<lambda>r. r = HAL_OK) id (check h)) then (True, snd (map_prod (\<lambda>r. r = HAL_OK) id (check h)))
       else if 201 - unat n = 1 then (False, id (snd (map_prod (\<lambda>r. r = HAL_OK) id (check h))))
       else wq_dma_loop check (n + 1) (Spi_Delay 1 # snd (map_prod (\<lambda>r. r = HAL_OK) id (check h))))"
    by (subst wq_dma_loop.simps) (simp add: Let_def split_def)
next
  fix n :: u16
  assume "1 < 201 - unat n"
  then have "unat (n + 1) = Suc (unat n)" by (intro unat_add_one_less [of n 201]) (simp add: word_less_unat)
  then show "201 - unat (n + 1) = 201 - unat n - 1" by simp
qed

lemma wq_wait_loop_status: "fst (wq_wait_loop hw timeout n h) = WQ_OP_OK \<or> fst (wq_wait_loop hw timeout n h) = WQ_OP_TIMEOUT_ERR"
proof (induction hw timeout n h rule: wq_wait_loop.induct)
  case (1 hw timeout n h)
  then show ?case by (subst (1 2) wq_wait_loop.simps) (auto simp: Let_def split: prod.split)
qed

lemma wq_wait_busy_search:
  "wq_wait_busy hw mode h =
     map_prod wq_status_of id
       (poll_search (wq_poll hw) ((#) (Spi_Delay 1)) id (if mode = 0 then 200 else 5000) h)"
proof -
  let ?t = "if mode = 0 then W25X_WATI_TIMEOUT else W25X_WATI_LONG_TIMEOUT"
  have t: "unat ?t - unat (0 :: u32) = (if mode = 0 then 200 else 5000)"
    by (simp add: W25X_WATI_TIMEOUT_def W25X_WATI_LONG_TIMEOUT_def)
  have "map_prod (\<lambda>r. r = WQ_OP_OK) id (wq_wait_loop hw ?t 0 h) =
      poll_search (wq_poll hw) ((#) (Spi_Delay 1)) id (unat ?t - unat (0 :: u32)) h"
    by (rule wq_waiting.loop_search) (simp only: t, simp)
  then have "poll_search (wq_poll hw) ((#) (Spi_Delay 1)) id (if mode = 0 then 200 else 5000) h =
      map_prod (\<lambda>r. r = WQ_OP_OK) id (wq_wait_loop hw ?t 0 h)"
    unfolding t by simp
  then show ?thesis
    using wq_wait_loop_status [of hw ?t 0 h]
    by (cases "wq_wait_loop hw ?t 0 h") (auto simp: wq_wait_busy_def)
qed

text \<open>
  C38. Whatever the chip answers, wq_wait_busy returns: it reads the status register at most 200
  times (5000 in long mode), a millisecond apart, succeeds at the first reading with the busy bit
  clear and otherwise reports a timeout.
\<close>

theorem wq_wait_is_bounded_search:
  "wq_wait_busy hw mode h =
     (let (ready, h') = poll_search (wq_poll hw) ((#) (Spi_Delay 1)) id (if mode = 0 then 200 else 5000) h
      in (if ready then WQ_OP_OK else WQ_OP_TIMEOUT_ERR, h'))"
  by (simp add: wq_wait_busy_search split_def map_prod_def)

section \<open>The chip\<close>

text \<open>
  A W25Q flash as its data sheet describes it: selected or not, the bytes clocked in since it was
  selected, its array, the write-enable latch, the milliseconds its current operation still takes and
  its address mode. Its size, identifier and operation times are fixed.
\<close>

record nor =
  n_sel :: bool
  n_in :: "u8 list"
  n_mem :: "nat \<Rightarrow> u8"
  n_wel :: bool
  n_busy :: nat
  n_4byte :: bool

record nor_part =
  p_id :: u16
  p_size :: nat
  p_tprog :: nat
  p_tsector :: nat
  p_tblock :: nat
  p_tchip :: nat

definition nor_alen :: "nor \<Rightarrow> nat" where
  "nor_alen c = (if n_4byte c then 4 else 3)"

definition be_nat :: "u8 list \<Rightarrow> nat" where
  "be_nat bs = foldl (\<lambda>a b. a * 256 + unat b) 0 bs"

definition nor_addr :: "nor_part \<Rightarrow> nor \<Rightarrow> u8 list \<Rightarrow> nat" where
  "nor_addr p c args = be_nat (take (nor_alen c) args) mod p_size p"

text \<open>The byte the chip shifts out while the next one comes in.\<close>

definition nor_out :: "nor_part \<Rightarrow> nor \<Rightarrow> u8" where
  "nor_out p c =
     (if \<not> n_sel c then 0xFF
      else case n_in c of
        [] \<Rightarrow> 0xFF
      | cmd # args \<Rightarrow>
          if cmd = 0x05 then (if n_busy c > 0 then 1 else 0) OR (if n_wel c then 2 else 0)
          else if n_busy c > 0 then 0xFF
          else if cmd = 0x90 \<and> 3 \<le> length args
               then if even (length args - 3) then ucast (drop_bit 8 (p_id p)) else ucast (p_id p)
          else if cmd = 0x03 \<and> nor_alen c \<le> length args
               then n_mem c ((nor_addr p c args + (length args - nor_alen c)) mod p_size p)
          else 0xFF)"

text \<open>
  Programming fills a page buffer, wrapping around inside the page, and clears bits of the array;
  erasing sets all bits of an aligned block.
\<close>

definition page_buffer :: "nat \<Rightarrow> u8 list \<Rightarrow> nat \<Rightarrow> u8" where
  "page_buffer off data = fold (\<lambda>(i, b) f. f((off + i) mod 256 := b)) (enumerate 0 data) (\<lambda>_. 0xFF)"

definition nor_program :: "nat \<Rightarrow> u8 list \<Rightarrow> (nat \<Rightarrow> u8) \<Rightarrow> nat \<Rightarrow> u8" where
  "nor_program a data m x =
     (if x div 256 = a div 256 then m x AND page_buffer (a mod 256) data (x mod 256) else m x)"

definition nor_erase :: "nat \<Rightarrow> nat \<Rightarrow> (nat \<Rightarrow> u8) \<Rightarrow> nat \<Rightarrow> u8" where
  "nor_erase n a m x = (if x div n = a div n then 0xFF else m x)"

text \<open>A command takes effect when the chip is deselected after it, unless the chip is busy.\<close>

definition nor_command :: "nor_part \<Rightarrow> u8 list \<Rightarrow> nor \<Rightarrow> nor" where
  "nor_command p bs c =
     (if n_busy c > 0 then c
      else case bs of
        [] \<Rightarrow> c
      | cmd # args \<Rightarrow>
          if cmd = 0x06 \<and> args = [] then c\<lparr>n_wel := True\<rparr>
          else if cmd = 0x04 \<and> args = [] then c\<lparr>n_wel := False\<rparr>
          else if cmd = 0xB7 \<and> args = [] then c\<lparr>n_4byte := True\<rparr>
          else if \<not> n_wel c then c
          else if cmd = 0x02 \<and> nor_alen c < length args
               then c\<lparr>n_mem := nor_program (nor_addr p c args) (drop (nor_alen c) args) (n_mem c),
                      n_wel := False, n_busy := p_tprog p\<rparr>
          else if cmd = 0x20 \<and> length args = nor_alen c
               then c\<lparr>n_mem := nor_erase 4096 (nor_addr p c args) (n_mem c), n_wel := False,
                      n_busy := p_tsector p\<rparr>
          else if cmd = 0xD8 \<and> length args = nor_alen c
               then c\<lparr>n_mem := nor_erase 65536 (nor_addr p c args) (n_mem c), n_wel := False,
                      n_busy := p_tblock p\<rparr>
          else if cmd = 0xC7 \<and> args = []
               then c\<lparr>n_mem := (\<lambda>_. 0xFF), n_wel := False, n_busy := p_tchip p\<rparr>
          else c)"

definition nor_select :: "nor_part \<Rightarrow> bool \<Rightarrow> nor \<Rightarrow> nor" where
  "nor_select p b c =
     (if n_sel c = b then c
      else if b then c\<lparr>n_sel := True, n_in := []\<rparr>
      else nor_command p (n_in c) (c\<lparr>n_sel := False, n_in := []\<rparr>))"

text \<open>What the chip makes of the driver's actions; its chip-select pin is low-active.\<close>

definition nor_event :: "nor_part \<Rightarrow> spi_event \<Rightarrow> nor \<Rightarrow> nor" where
  "nor_event p e c =
     (case e of
        Spi_Gpio (WritePin port pin b) \<Rightarrow>
          if port = GPIOF \<and> pin = GPIO_PIN_6 then nor_select p (\<not> b) c else c
      | Spi_Xfer b _ \<Rightarrow> if n_sel c then c\<lparr>n_in := n_in c @ [b]\<rparr> else c
      | Spi_Delay ms \<Rightarrow> c\<lparr>n_busy := n_busy c - unat ms\<rparr>
      | _ \<Rightarrow> c)"

definition nor_after :: "nor_part \<Rightarrow> nor \<Rightarrow> spi_history \<Rightarrow> nor" where
  "nor_after p c0 h = foldr (nor_event p) h c0"

text \<open>The HAL with the chip \<open>c0\<close> on the bus and every transfer succeeding.\<close>

definition nor_hal :: "nor_part \<Rightarrow> nor \<Rightarrow> spi_hal \<Rightarrow> spi_hal" where
  "nor_hal p c0 hw = hw\<lparr>hal_xfer := (\<lambda>h b. (HAL_OK, Some (nor_out p (nor_after p c0 h))))\<rparr>"

section \<open>Talking to a slave\<close>

text \<open>The bytes of an address as \<open>wq_send_addr\<close> sends them.\<close>

definition wq_addr_bytes :: "u32 \<Rightarrow> u32 \<Rightarrow> u8 list" where
  "wq_addr_bytes chip addr =
     (if chip = CHIP_ID_Q256 then [ucast (drop_bit 24 addr)] else [])
     @ [ucast (drop_bit 16 addr), ucast (drop_bit 8 addr), ucast addr]"

lemma wq_send_addr_bytes: "wq_send_addr hw chip addr h = fold (spi_put hw) (wq_addr_bytes chip addr) h"
  by (simp add: wq_send_addr_def wq_addr_bytes_def Let_def)

text \<open>
  A slave that answers every transfer: what it is after a history, the byte it shifts out and the
  effect of the byte shifted in.
\<close>

locale spi_slave =
  fixes hw :: spi_hal
    and dev :: "spi_history \<Rightarrow> 'c"
    and out :: "'c \<Rightarrow> u8"
    and clk :: "u8 \<Rightarrow> 'c \<Rightarrow> 'c"
  assumes xfer: "hal_xfer hw h b = (HAL_OK, Some (out (dev h)))"
    and dev_xfer: "dev (Spi_Xfer b s # h) = clk b (dev h)"
begin

lemma rw_byte: "spi_rw_byte hw b h = (out (dev h), HAL_OK, Spi_Xfer b HAL_OK # h)"
  by (simp add: spi_rw_byte_def xfer)

lemma dev_put: "dev (spi_put hw b h) = clk b (dev h)"
  by (simp add: rw_byte dev_xfer)

lemma dev_puts: "dev (fold (spi_put hw) bs h) = fold clk bs (dev h)"
proof (induction bs arbitrary: h)
  case Nil
  show ?case by simp
next
  case (Cons b bs)
  have "dev (fold (spi_put hw) (b # bs) h) = dev (fold (spi_put hw) bs (spi_put hw b h))" by simp
  also have "\<dots> = fold clk bs (clk b (dev h))" by (simp only: Cons.IH dev_put)
  finally show ?case by simp
qed

lemma read_loop:
  "wq_read_loop hw n h =
     (map (\<lambda>i. out ((clk 0xff ^^ i) (dev h))) [0..<n], fold (spi_put hw) (replicate n 0xff) h)"
proof (induction n arbitrary: h)
  case 0
  show ?case by simp
next
  case (Suc n)
  have f: "(clk 0xff ^^ i) (clk 0xff (dev h)) = (clk 0xff ^^ Suc i) (dev h)" for i
    by (simp only: funpow_Suc_right comp_def)
  have "map (\<lambda>i. out ((clk 0xff ^^ i) (dev h))) [0..<Suc n] =
      out (dev h) # map (\<lambda>i. out ((clk 0xff ^^ Suc i) (dev h))) [0..<n]"
    by (simp only: upt_conv_Cons zero_less_Suc map_Suc_upt [symmetric] list.map map_map comp_def
        funpow_0)
  then show ?case
    by (simp add: rw_byte Suc.IH dev_xfer f del: upt_Suc funpow.simps)
qed

end

definition nor_clk :: "u8 \<Rightarrow> nor \<Rightarrow> nor" where
  "nor_clk b c = (if n_sel c then c\<lparr>n_in := n_in c @ [b]\<rparr> else c)"

interpretation nor_chip: spi_slave "nor_hal p c0 hw" "nor_after p c0" "nor_out p" nor_clk
  for p c0 hw
  by unfold_locales (simp_all add: nor_hal_def nor_after_def nor_event_def nor_clk_def)

section \<open>The chip under the driver\<close>

lemma nor_after_Nil [simp]: "nor_after p c0 [] = c0"
  by (simp add: nor_after_def)

lemma nor_after_Cons: "nor_after p c0 (e # h) = nor_event p e (nor_after p c0 h)"
  by (simp add: nor_after_def)

lemma nor_after_cs:
  "nor_after p c0 (WQ25_CS_ON h) = nor_select p True (nor_after p c0 h)"
  "nor_after p c0 (WQ25_CS_OFF h) = nor_select p False (nor_after p c0 h)"
  by (simp_all add: WQ25_CS_ON_def WQ25_CS_OFF_def nor_after_Cons nor_event_def)

lemma nor_after_delay:
  "nor_after p c0 (Spi_Delay ms # h) = (nor_after p c0 h)\<lparr>n_busy := n_busy (nor_after p c0 h) - unat ms\<rparr>"
  by (simp add: nor_after_Cons nor_event_def)

definition nor_idle :: "nor \<Rightarrow> bool" where
  "nor_idle c \<longleftrightarrow> \<not> n_sel c \<and> n_in c = []"

lemma nor_clks: "n_sel c \<Longrightarrow> fold nor_clk bs c = c\<lparr>n_in := n_in c @ bs\<rparr>"
  by (induction bs arbitrary: c) (simp_all add: nor_clk_def)

lemma nor_select_idle: "nor_idle c \<Longrightarrow> nor_select p True c = c\<lparr>n_sel := True\<rparr>"
  by (simp add: nor_select_def nor_idle_def)

text \<open>Between its edges of chip select the chip collects the bytes; deselected, it runs them.\<close>

lemma nor_selected:
  assumes "nor_idle (nor_after p c0 h)"
  shows "nor_after p c0 (fold (spi_put (nor_hal p c0 hw)) bs (WQ25_CS_ON h))
     = (nor_after p c0 h)\<lparr>n_sel := True, n_in := bs\<rparr>"
  using assms by (simp add: nor_chip.dev_puts nor_after_cs nor_select_idle nor_clks nor_idle_def)

lemma nor_frame:
  assumes "nor_idle (nor_after p c0 h)"
  shows "nor_after p c0 (WQ25_CS_OFF (fold (spi_put (nor_hal p c0 hw)) bs (WQ25_CS_ON h)))
     = nor_command p bs (nor_after p c0 h)"
proof -
  let ?c = "nor_after p c0 h"
  have "?c\<lparr>n_sel := False, n_in := []\<rparr> = ?c" using assms by (simp add: nor_idle_def)
  then show ?thesis by (simp add: nor_after_cs nor_selected [OF assms] nor_select_def)
qed

lemma nor_command_idle: "nor_idle c \<Longrightarrow> nor_idle (nor_command p bs c)"
  by (simp add: nor_idle_def nor_command_def split: list.split)

lemma nor_read_status:
  assumes "nor_idle (nor_after p c0 h)"
  defines "c \<equiv> nor_after p c0 h"
  shows "fst (wq_read_status (nor_hal p c0 hw) h) AND 1 \<noteq> 0 \<longleftrightarrow> 0 < n_busy c"
    and "nor_after p c0 (snd (wq_read_status (nor_hal p c0 hw) h)) = c"
proof -
  let ?h = "spi_put (nor_hal p c0 hw) W25X_INSTRU_RDSR_1 (WQ25_CS_ON h)"
  have e: "wq_read_status (nor_hal p c0 hw) h =
      (nor_out p (nor_after p c0 ?h), WQ25_CS_OFF (spi_put (nor_hal p c0 hw) 0xff ?h))"
    by (simp add: wq_read_status_def Let_def nor_chip.rw_byte)
  have "nor_after p c0 ?h = c\<lparr>n_sel := True, n_in := [W25X_INSTRU_RDSR_1]\<rparr>"
    using nor_selected [OF assms(1), of hw "[W25X_INSTRU_RDSR_1]"] by (simp add: c_def)
  then show "fst (wq_read_status (nor_hal p c0 hw) h) AND 1 \<noteq> 0 \<longleftrightarrow> 0 < n_busy c"
    by (simp add: e nor_out_def W25X_INSTRU_RDSR_1_def)
  have "nor_after p c0 (snd (wq_read_status (nor_hal p c0 hw) h)) = nor_command p [W25X_INSTRU_RDSR_1, 0xff] c"
    using nor_frame [OF assms(1), of hw "[W25X_INSTRU_RDSR_1, 0xff]"] by (simp add: c_def e)
  then show "nor_after p c0 (snd (wq_read_status (nor_hal p c0 hw) h)) = c"
    by (simp add: nor_command_def W25X_INSTRU_RDSR_1_def)
qed

lemma nor_polls:
  assumes "nor_idle (nor_after p c0 h)"
  shows "nor_after p c0 (poll_at (wq_poll (nor_hal p c0 hw)) ((#) (Spi_Delay 1)) k h)
     = (nor_after p c0 h)\<lparr>n_busy := n_busy (nor_after p c0 h) - k\<rparr>"
proof (induction k)
  case 0
  show ?case by simp
next
  case (Suc k)
  then have "nor_idle (nor_after p c0 (poll_at (wq_poll (nor_hal p c0 hw)) ((#) (Spi_Delay 1)) k h))"
    using assms by (simp add: nor_idle_def)
  then show ?case
    by (simp add: poll_at_Suc_outer wq_poll_def [of "nor_hal p c0 hw" "poll_at _ _ _ _"] nor_after_delay
        nor_read_status(2) Suc.IH)
qed

text \<open>Waiting for the chip succeeds exactly when it becomes ready within the limit.\<close>

lemma nor_wait:
  fixes p c0 h hw and mode :: u8
  assumes "nor_idle (nor_after p c0 h)"
  defines "c \<equiv> nor_after p c0 h" and "limit \<equiv> if mode = 0 then 200 else 5000"
  shows "fst (wq_wait_busy (nor_hal p c0 hw) mode h) = (if n_busy c < limit then WQ_OP_OK else WQ_OP_TIMEOUT_ERR)"
    and "nor_after p c0 (snd (wq_wait_busy (nor_hal p c0 hw) mode h)) = c\<lparr>n_busy := n_busy c - (limit - 1)\<rparr>"
proof -
  let ?H = "nor_hal p c0 hw"
  let ?at = "\<lambda>k. poll_at (wq_poll ?H) ((#) (Spi_Delay 1)) k h"
  have i: "nor_idle (nor_after p c0 (?at k))" for k
    using assms(1) by (simp add: nor_polls nor_idle_def)
  have b: "fst (wq_poll ?H (?at k)) \<longleftrightarrow> n_busy c \<le> k" for k
  proof -
    have "fst (wq_read_status ?H (?at k)) AND 1 \<noteq> 0 \<longleftrightarrow> k < n_busy c"
      using nor_read_status(1) [OF i [of k], where hw = hw] by (simp add: nor_polls [OF assms(1)] c_def)
    then show ?thesis unfolding wq_poll_def fst_conv by linarith
  qed
  have d: "nor_after p c0 (snd (wq_poll ?H (?at k))) = c\<lparr>n_busy := n_busy c - k\<rparr>" for k
    by (simp add: wq_poll_def nor_read_status(2) [OF i] nor_polls [OF assms(1)] c_def)
  note s = wq_wait_busy_search [of ?H mode h, folded limit_def,
      unfolded poll_search_from [where check = "wq_poll ?H", OF b]]
  show "fst (wq_wait_busy ?H mode h) = (if n_busy c < limit then WQ_OP_OK else WQ_OP_TIMEOUT_ERR)"
    by (simp add: s)
  have "0 < limit" by (simp add: limit_def)
  then show "nor_after p c0 (snd (wq_wait_busy ?H mode h)) = c\<lparr>n_busy := n_busy c - (limit - 1)\<rparr>"
    by (auto simp: s d)
qed

lemma nor_write_enable:
  assumes "nor_idle (nor_after p c0 h)"
  shows "nor_after p c0 (wq_write_enable (nor_hal p c0 hw) h) =
     (if n_busy (nor_after p c0 h) > 0 then nor_after p c0 h else (nor_after p c0 h)\<lparr>n_wel := True\<rparr>)"
  using nor_frame [OF assms, of hw "[W25X_INSTRU_WREN]"]
  by (simp add: wq_write_enable_def nor_command_def W25X_INSTRU_WREN_def)

section \<open>Addresses\<close>

lemma unat_byte_of: "unat (ucast (drop_bit n a) :: u8) = unat (a :: u32) div 2 ^ n mod 256"
proof -
  have "unat (ucast (drop_bit n a) :: u8) = drop_bit n (unat a) mod 256"
    by (simp add: unsigned_ucast_eq unat_drop_bit_eq take_bit_eq_mod)
  then show ?thesis by (simp add: drop_bit_eq_div)
qed

lemma mod_digits:
  fixes x :: nat
  shows "((x div 65536 mod 256) * 256 + x div 256 mod 256) * 256 + x mod 256 = x mod 16777216"
proof -
  have "x mod 16777216 = 256 * (x div 256 mod 65536) + x mod 256"
    using mod_mult2_eq [of x 256 65536] by simp
  moreover have "x div 256 mod 65536 = 256 * (x div 65536 mod 256) + x div 256 mod 256"
    using mod_mult2_eq [of "x div 256" 256 256] by (simp add: div_mult2_eq [symmetric])
  ultimately show ?thesis by simp
qed

lemma be_nat_addr:
  fixes a :: u32
  shows "be_nat [ucast (drop_bit 16 a), ucast (drop_bit 8 a), ucast a] = unat a mod 2 ^ 24"
    and "be_nat [ucast (drop_bit 24 a), ucast (drop_bit 16 a), ucast (drop_bit 8 a), ucast a] = unat a"
proof -
  have u: "unat (ucast a :: u8) = unat a mod 256" using unat_byte_of [of 0 a] by simp
  show "be_nat [ucast (drop_bit 16 a), ucast (drop_bit 8 a), ucast a] = unat a mod 2 ^ 24"
    using mod_digits [of "unat a"] by (simp add: be_nat_def unat_byte_of u)
  have a: "unat a < 2 ^ LENGTH(32)" by (rule unsigned_less)
  have "unat a div 16777216 < 256"
    using a by (simp add: less_mult_imp_div_less)
  then have "(unat a div 16777216 mod 256) * 16777216 + unat a mod 16777216 = unat a"
    using div_mult_mod_eq [of "unat a" 16777216] by simp
  then show "be_nat [ucast (drop_bit 24 a), ucast (drop_bit 16 a), ucast (drop_bit 8 a), ucast a] = unat a"
    using mod_digits [of "unat a"] by (simp add: be_nat_def unat_byte_of u)
qed

text \<open>
  A chip the driver has been initialised for, and its world: idle and not busy, the identifier known,
  four-byte addresses exactly on the W25Q256, and an array of whole blocks that the address reaches.
\<close>

definition nor_fits :: "nor_part \<Rightarrow> bool" where
  "nor_fits p \<longleftrightarrow> drop_bit 8 (p_id p) = 0xEF \<and> 65536 dvd p_size p \<and> 0 < p_size p
     \<and> p_size p \<le> (if p_id p = 0xEF18 then 2 ^ 32 else 2 ^ 24)"

definition wq_ready :: "nor_part \<Rightarrow> nor \<Rightarrow> wq_world \<Rightarrow> bool" where
  "wq_ready p c w \<longleftrightarrow> nor_fits p \<and> w25q_chip_id w = ucast (p_id p) \<and> nor_idle c \<and> n_busy c = 0
     \<and> (n_4byte c \<longleftrightarrow> p_id p = 0xEF18)"

lemma unat_chip_id: "unat (ucast (i :: u16) :: u32) = unat i"
  by (rule unat_ucast_up) simp

lemma q256_id: "(ucast (i :: u16) :: u32) = CHIP_ID_Q256 \<longleftrightarrow> i = 0xEF18"
  by (simp add: word_unat_eq_iff [where 'a = 32] word_unat_eq_iff [where 'a = 16] unat_chip_id CHIP_ID_Q256_def)

lemma manufacturer_id:
  "WQ25_GetManufacturerID (ucast (i :: u16)) = WQ25_ManufacturerID \<longleftrightarrow> drop_bit 8 i = 0xEF"
proof -
  have i: "unat i < 2 ^ LENGTH(16)" by (rule unsigned_less)
  have "unat i div 256 < 256"
    using i by (simp add: less_mult_imp_div_less)
  moreover have "unat (WQ25_GetManufacturerID (ucast i)) = take_bit 8 (drop_bit 8 (unat i))"
    by (simp add: WQ25_GetManufacturerID_def mask_0xff take_bit_eq_mask [symmetric] unsigned_take_bit_eq
        unat_drop_bit_eq unat_chip_id)
  ultimately have "unat (WQ25_GetManufacturerID (ucast i)) = unat i div 256"
    by (simp add: drop_bit_eq_div take_bit_eq_mod)
  moreover have "unat (drop_bit 8 i) = unat i div 256"
    by (simp only: unat_drop_bit_eq) (simp add: drop_bit_eq_div)
  ultimately show ?thesis
    by (simp add: word_unat_eq_iff [where 'a = 32] word_unat_eq_iff [where 'a = 16] WQ25_ManufacturerID_def)
qed

lemma wq_addr_bytes_of:
  assumes "nor_fits p" and "n_4byte c \<longleftrightarrow> p_id p = 0xEF18" and "unat a < p_size p"
  shows "length (wq_addr_bytes (ucast (p_id p)) a) = nor_alen c"
    and "nor_addr p c (wq_addr_bytes (ucast (p_id p)) a @ data) = unat a"
proof -
  show l: "length (wq_addr_bytes (ucast (p_id p)) a) = nor_alen c"
    using assms(2) by (simp add: wq_addr_bytes_def q256_id nor_alen_def)
  have "unat a < 2 ^ 24" if "p_id p \<noteq> 0xEF18" using assms(1,3) that by (simp add: nor_fits_def)
  then have "be_nat (wq_addr_bytes (ucast (p_id p)) a) = unat a"
    using be_nat_addr [of a] by (simp add: wq_addr_bytes_def q256_id)
  then show "nor_addr p c (wq_addr_bytes (ucast (p_id p)) a @ data) = unat a"
    using assms(3) by (simp add: nor_addr_def l [symmetric])
qed

section \<open>The operations on the chip\<close>

text \<open>Every command of the driver but the plain latches: the frame, then the wait for the chip.\<close>

definition wq_run :: "spi_hal \<Rightarrow> u8 \<Rightarrow> u8 list \<Rightarrow> spi_history \<Rightarrow> WQ_OP_STATUS \<times> spi_history" where
  "wq_run hw mode bs h = wq_wait_busy hw mode (WQ25_CS_OFF (fold (spi_put hw) bs (WQ25_CS_ON h)))"

lemma nor_run:
  fixes p c0 h hw bs and mode :: u8
  assumes "nor_idle (nor_after p c0 h)"
  defines "c \<equiv> nor_command p bs (nor_after p c0 h)" and "limit \<equiv> if mode = 0 then 200 else 5000"
  shows "fst (wq_run (nor_hal p c0 hw) mode bs h) = (if n_busy c < limit then WQ_OP_OK else WQ_OP_TIMEOUT_ERR)"
    and "nor_after p c0 (snd (wq_run (nor_hal p c0 hw) mode bs h)) = c\<lparr>n_busy := n_busy c - (limit - 1)\<rparr>"
proof -
  let ?h = "WQ25_CS_OFF (fold (spi_put (nor_hal p c0 hw)) bs (WQ25_CS_ON h))"
  have e: "nor_after p c0 ?h = c" using assms(1) by (simp add: nor_frame c_def)
  have i: "nor_idle (nor_after p c0 ?h)" unfolding e c_def using assms(1) by (rule nor_command_idle)
  note w = nor_wait [OF i, of hw mode]
  show "fst (wq_run (nor_hal p c0 hw) mode bs h) = (if n_busy c < limit then WQ_OP_OK else WQ_OP_TIMEOUT_ERR)"
    using w(1) unfolding e wq_run_def limit_def .
  show "nor_after p c0 (snd (wq_run (nor_hal p c0 hw) mode bs h)) = c\<lparr>n_busy := n_busy c - (limit - 1)\<rparr>"
    using w(2) unfolding e wq_run_def limit_def .
qed

text \<open>Enabling writes and waiting: where every erase starts.\<close>

lemma nor_enabled:
  fixes p c0 h hw
  assumes "nor_idle (nor_after p c0 h)" and "n_busy (nor_after p c0 h) = 0"
  defines "s \<equiv> wq_wait_busy (nor_hal p c0 hw) 0 (wq_write_enable (nor_hal p c0 hw) h)"
  shows "fst s = WQ_OP_OK" and "nor_after p c0 (snd s) = (nor_after p c0 h)\<lparr>n_wel := True\<rparr>"
proof -
  let ?h = "wq_write_enable (nor_hal p c0 hw) h"
  have e: "nor_after p c0 ?h = (nor_after p c0 h)\<lparr>n_wel := True\<rparr>"
    using assms(1,2) by (simp add: nor_write_enable)
  have i: "nor_idle (nor_after p c0 ?h)" using assms(1) by (simp add: e nor_idle_def)
  note w = nor_wait [OF i, of hw 0]
  show "fst s = WQ_OP_OK" using w(1) assms(2) by (simp add: s_def e)
  have "(nor_after p c0 h)\<lparr>n_wel := True, n_busy := 0\<rparr> = (nor_after p c0 h)\<lparr>n_wel := True\<rparr>"
    using assms(2) by simp
  then show "nor_after p c0 (snd s) = (nor_after p c0 h)\<lparr>n_wel := True\<rparr>"
    using w(2) assms(2) by (simp add: s_def e)
qed

text \<open>With the chip known and every transfer succeeding, the operations are such runs.\<close>

definition wq_finish :: "wq_world \<Rightarrow> WQ_OP_STATUS \<times> spi_history \<Rightarrow> WQ_OP_STATUS \<times> wq_world" where
  "wq_finish w rh = (if fst rh \<noteq> WQ_OP_OK then WQ_OP_TIMEOUT_ERR else WQ_OP_OK, w\<lparr>spi_hist := snd rh\<rparr>)"

lemma wq_erase_runs:
  assumes "wq_known w"
    and "wq_wait_busy (nor_hal p c0 hw) 0 (wq_write_enable (nor_hal p c0 hw) (spi_hist w)) = (WQ_OP_OK, h)"
  shows "wq_sector_erase (nor_hal p c0 hw) addr w =
      wq_finish w (wq_run (nor_hal p c0 hw) 0
        (W25X_SectorErase # wq_addr_bytes (w25q_chip_id w) (addr - addr mod W25X_SECTOR_SIZE)) h)"
    and "wq_block_erase (nor_hal p c0 hw) addr w =
      wq_finish w (wq_run (nor_hal p c0 hw) 1
        (W25X_BlockErase # wq_addr_bytes (w25q_chip_id w) (addr - addr mod W25X_BLOCK_SIZE)) h)"
    and "wq_chip_erase (nor_hal p c0 hw) w = wq_finish w (wq_run (nor_hal p c0 hw) 1 [W25X_ChipErase] h)"
  using assms
  by (simp_all add: wq_sector_erase_def wq_block_erase_def wq_chip_erase_def wq_finish_def wq_run_def
      nor_chip.rw_byte wq_send_addr_bytes split_def Let_def)

lemma unat_align:
  fixes a n :: u32
  shows "unat (a - a mod n) = unat a - unat a mod unat n"
proof -
  have "a mod n \<le> a" by (simp add: word_le_nat_alt unat_mod)
  then show ?thesis by (simp add: unat_sub unat_mod)
qed

lemma nor_erase_align: "nor_erase n (a - a mod n) = nor_erase n a"
proof (rule ext, rule ext)
  fix m x
  have "(a - a mod n) div n = a div n"
    by (cases "n = 0") (simp_all add: minus_mod_eq_mult_div)
  then show "nor_erase n (a - a mod n) m x = nor_erase n a m x" by (simp add: nor_erase_def)
qed

lemma wq_ready_known: "wq_ready p c w \<Longrightarrow> wq_known w"
  by (simp add: wq_ready_def nor_fits_def wq_known_def manufacturer_id)

text \<open>
  The effect of an operation on the chip: its result, and the chip with the array \<open>m\<close> once the
  operation that takes \<open>t\<close> milliseconds has been waited for at most \<open>n\<close> times.
\<close>

definition nor_done :: "nor \<Rightarrow> (nat \<Rightarrow> u8) \<Rightarrow> nat \<Rightarrow> nat \<Rightarrow> nor" where
  "nor_done c m t n = c\<lparr>n_mem := m, n_wel := False, n_busy := t - (n - 1)\<rparr>"

lemma nor_finish:
  assumes "nor_idle (nor_after p c0 h)" and "nor_command p bs (nor_after p c0 h) = c"
    and "n_wel c = False" and "limit = (if mode = 0 then 200 else 5000)"
  shows "\<exists>h'. wq_finish w (wq_run (nor_hal p c0 hw) mode bs h) =
        (if n_busy c < limit then WQ_OP_OK else WQ_OP_TIMEOUT_ERR, w\<lparr>spi_hist := h'\<rparr>)
      \<and> nor_after p c0 h' = nor_done c (n_mem c) (n_busy c) limit"
proof (intro exI conjI)
  show "wq_finish w (wq_run (nor_hal p c0 hw) mode bs h) =
      (if n_busy c < limit then WQ_OP_OK else WQ_OP_TIMEOUT_ERR,
       w\<lparr>spi_hist := snd (wq_run (nor_hal p c0 hw) mode bs h)\<rparr>)"
    using nor_run(1) [OF assms(1), of hw mode bs] by (simp add: wq_finish_def assms(2,4))
  have "c\<lparr>n_wel := False\<rparr> = c" using assms(3) by simp
  then show "nor_after p c0 (snd (wq_run (nor_hal p c0 hw) mode bs h)) = nor_done c (n_mem c) (n_busy c) limit"
    using nor_run(2) [OF assms(1), of hw mode bs] by (simp add: nor_done_def assms(2,4))
qed

lemma wq_addr_aligned:
  assumes "nor_fits p" and "n_4byte c \<longleftrightarrow> p_id p = 0xEF18" and "unat a < p_size p"
  shows "length (wq_addr_bytes (ucast (p_id p)) (a - a mod n)) = nor_alen c
    \<and> nor_addr p (c\<lparr>n_wel := True\<rparr>) (wq_addr_bytes (ucast (p_id p)) (a - a mod n)) = unat (a - a mod n)"
proof -
  have "unat (a - a mod n) < p_size p" using assms(3) by (simp add: unat_align)
  moreover have "n_4byte (c\<lparr>n_wel := True\<rparr>) \<longleftrightarrow> p_id p = 0xEF18" using assms(2) by simp
  ultimately show ?thesis
    using wq_addr_bytes_of(1) [OF assms(1,2)] wq_addr_bytes_of(2) [OF assms(1), of "c\<lparr>n_wel := True\<rparr>" "a - a mod n" "[]"]
    by simp
qed

lemma nor_erases:
  fixes p c0 hw w a
  assumes "wq_ready p (nor_after p c0 (spi_hist w)) w" and "unat a < p_size p"
  defines "c \<equiv> nor_after p c0 (spi_hist w)" and "H \<equiv> nor_hal p c0 hw"
  shows "\<exists>h. wq_sector_erase H a w = (if p_tsector p < 200 then WQ_OP_OK else WQ_OP_TIMEOUT_ERR, w\<lparr>spi_hist := h\<rparr>)
           \<and> nor_after p c0 h = nor_done c (nor_erase 4096 (unat a) (n_mem c)) (p_tsector p) 200"
    and "\<exists>h. wq_block_erase H a w = (if p_tblock p < 5000 then WQ_OP_OK else WQ_OP_TIMEOUT_ERR, w\<lparr>spi_hist := h\<rparr>)
           \<and> nor_after p c0 h = nor_done c (nor_erase 65536 (unat a) (n_mem c)) (p_tblock p) 5000"
    and "\<exists>h. wq_chip_erase H w = (if p_tchip p < 5000 then WQ_OP_OK else WQ_OP_TIMEOUT_ERR, w\<lparr>spi_hist := h\<rparr>)
           \<and> nor_after p c0 h = nor_done c (\<lambda>_. 0xFF) (p_tchip p) 5000"
proof -
  have r: "nor_fits p" "w25q_chip_id w = ucast (p_id p)" "nor_idle c" "n_busy c = 0" "n_4byte c \<longleftrightarrow> p_id p = 0xEF18"
    using assms(1) by (simp_all add: wq_ready_def c_def)
  obtain h where w: "wq_wait_busy H 0 (wq_write_enable H (spi_hist w)) = (WQ_OP_OK, h)"
    and h: "nor_after p c0 h = c\<lparr>n_wel := True\<rparr>"
    using nor_enabled [of p c0 "spi_hist w" hw] r(3,4) unfolding c_def H_def by (metis surjective_pairing)
  note runs = wq_erase_runs [OF wq_ready_known [OF assms(1)] w [unfolded H_def], folded H_def]
  have i: "nor_idle (nor_after p c0 h)" using r(3) by (simp add: h nor_idle_def)
  note l = wq_addr_aligned [OF r(1,5)]
  have al: "nor_alen (c\<lparr>n_wel := True\<rparr>) = nor_alen c" by (simp add: nor_alen_def)
  have al4: "nor_erase 4096 (unat (a - a mod W25X_SECTOR_SIZE)) = nor_erase 4096 (unat a)"
    by (simp only: unat_align) (simp add: W25X_SECTOR_SIZE_def nor_erase_align)
  have al64: "nor_erase 65536 (unat (a - a mod W25X_BLOCK_SIZE)) = nor_erase 65536 (unat a)"
    by (simp only: unat_align) (simp add: W25X_BLOCK_SIZE_def nor_erase_align)
  have cs: "nor_command p (W25X_SectorErase # wq_addr_bytes (w25q_chip_id w) (a - a mod W25X_SECTOR_SIZE)) (c\<lparr>n_wel := True\<rparr>)
      = c\<lparr>n_mem := nor_erase 4096 (unat a) (n_mem c), n_wel := False, n_busy := p_tsector p\<rparr>"
    using l [OF assms(2), of W25X_SECTOR_SIZE] r(4)
    by (simp add: nor_command_def W25X_SectorErase_def r(2) al al4)
  have cb: "nor_command p (W25X_BlockErase # wq_addr_bytes (w25q_chip_id w) (a - a mod W25X_BLOCK_SIZE)) (c\<lparr>n_wel := True\<rparr>)
      = c\<lparr>n_mem := nor_erase 65536 (unat a) (n_mem c), n_wel := False, n_busy := p_tblock p\<rparr>"
    using l [OF assms(2), of W25X_BLOCK_SIZE] r(4)
    by (simp add: nor_command_def W25X_BlockErase_def r(2) al al64)
  have cc: "nor_command p [W25X_ChipErase] (c\<lparr>n_wel := True\<rparr>)
      = c\<lparr>n_mem := (\<lambda>_. 0xFF), n_wel := False, n_busy := p_tchip p\<rparr>"
    using r(4) by (simp add: nor_command_def W25X_ChipErase_def)
  show "\<exists>h. wq_sector_erase H a w = (if p_tsector p < 200 then WQ_OP_OK else WQ_OP_TIMEOUT_ERR, w\<lparr>spi_hist := h\<rparr>)
           \<and> nor_after p c0 h = nor_done c (nor_erase 4096 (unat a) (n_mem c)) (p_tsector p) 200"
    using nor_finish [OF i, of _ _ 200 0 w hw, OF cs [folded h]] unfolding runs by (simp add: H_def nor_done_def)
  show "\<exists>h. wq_block_erase H a w = (if p_tblock p < 5000 then WQ_OP_OK else WQ_OP_TIMEOUT_ERR, w\<lparr>spi_hist := h\<rparr>)
           \<and> nor_after p c0 h = nor_done c (nor_erase 65536 (unat a) (n_mem c)) (p_tblock p) 5000"
    using nor_finish [OF i, of _ _ 5000 1 w hw, OF cb [folded h]] unfolding runs by (simp add: H_def nor_done_def)
  show "\<exists>h. wq_chip_erase H w = (if p_tchip p < 5000 then WQ_OP_OK else WQ_OP_TIMEOUT_ERR, w\<lparr>spi_hist := h\<rparr>)
           \<and> nor_after p c0 h = nor_done c (\<lambda>_. 0xFF) (p_tchip p) 5000"
    using nor_finish [OF i, of _ _ 5000 1 w hw, OF cc [folded h]] unfolding runs by (simp add: H_def nor_done_def)
qed

lemma wq_write_runs:
  assumes "wq_known w" and "wq_wait_busy (nor_hal p c0 hw) 0 (spi_hist w) = (WQ_OP_OK, h)"
    and "unat num \<le> length data"
  shows "wq_memory_write (nor_hal p c0 hw) addr data num w =
      wq_finish w (wq_run (nor_hal p c0 hw) 0
        (W25X_PageProgram # wq_addr_bytes (w25q_chip_id w) addr @ take (unat num) data)
        (wq_write_enable (nor_hal p c0 hw) h))"
  using assms(1,2)
  by (simp add: wq_memory_write_def wq_finish_def wq_run_def nor_chip.rw_byte wq_send_addr_bytes split_def Let_def
      fold_upt_nth [OF assms(3), of "\<lambda>b h. Spi_Xfer b HAL_OK # h"])

lemma nor_program_effect:
  fixes p c0 hw w a data num
  assumes "wq_ready p (nor_after p c0 (spi_hist w)) w" and "unat a < p_size p"
    and "0 < unat num" and "unat num \<le> length data"
  defines "c \<equiv> nor_after p c0 (spi_hist w)" and "H \<equiv> nor_hal p c0 hw"
  shows "\<exists>h. wq_memory_write H a data num w = (if p_tprog p < 200 then WQ_OP_OK else WQ_OP_TIMEOUT_ERR, w\<lparr>spi_hist := h\<rparr>)
           \<and> nor_after p c0 h = nor_done c (nor_program (unat a) (take (unat num) data) (n_mem c)) (p_tprog p) 200"
proof -
  have r: "nor_fits p" "w25q_chip_id w = ucast (p_id p)" "nor_idle c" "n_busy c = 0" "n_4byte c \<longleftrightarrow> p_id p = 0xEF18"
    using assms(1) by (simp_all add: wq_ready_def c_def)
  have b: "c\<lparr>n_busy := 0\<rparr> = c" using r(4) by simp
  obtain h where w: "wq_wait_busy H 0 (spi_hist w) = (WQ_OP_OK, h)" and h: "nor_after p c0 h = c"
    using nor_wait [of p c0 "spi_hist w" hw 0] r(3,4) b unfolding c_def H_def
    by (metis surjective_pairing diff_0_eq_0 zero_less_numeral)
  let ?h = "wq_write_enable H h"
  have e: "nor_after p c0 ?h = c\<lparr>n_wel := True\<rparr>"
    using nor_write_enable [of p c0 h hw] r(3,4) by (simp add: h H_def)
  have i: "nor_idle (nor_after p c0 ?h)" using r(3) by (simp add: e nor_idle_def)
  have l: "length (wq_addr_bytes (ucast (p_id p)) a) = nor_alen c"
    using r(1,5) assms(2) by (rule wq_addr_bytes_of)
  have n: "nor_addr p (c\<lparr>n_wel := True\<rparr>) (wq_addr_bytes (ucast (p_id p)) a @ take (unat num) data) = unat a"
    by (rule wq_addr_bytes_of [OF r(1) _ assms(2)]) (simp add: r(5))
  have "nor_command p (W25X_PageProgram # wq_addr_bytes (w25q_chip_id w) a @ take (unat num) data) (nor_after p c0 ?h)
      = c\<lparr>n_mem := nor_program (unat a) (take (unat num) data) (n_mem c), n_wel := False, n_busy := p_tprog p\<rparr>"
    using assms(3,4) r(4) n
    by (simp add: e nor_command_def W25X_PageProgram_def r(2) nor_alen_def l [unfolded nor_alen_def])
  from nor_finish [OF i this, of 200 0 w hw]
  show ?thesis
    using wq_write_runs [OF wq_ready_known [OF assms(1)] w [unfolded H_def] assms(4), of a]
    by (simp add: H_def nor_done_def)
qed

lemma nor_read_effect:
  fixes p c0 hw w a num
  assumes "wq_ready p (nor_after p c0 (spi_hist w)) w" and "unat a < p_size p"
  defines "c \<equiv> nor_after p c0 (spi_hist w)" and "H \<equiv> nor_hal p c0 hw"
  shows "\<exists>h. wq_memory_read H a num w =
             (WQ_OP_OK, map (\<lambda>i. n_mem c ((unat a + i) mod p_size p)) [0..<unat num], w\<lparr>spi_hist := h\<rparr>)
           \<and> nor_after p c0 h = c"
proof -
  have r: "nor_fits p" "w25q_chip_id w = ucast (p_id p)" "nor_idle c" "n_busy c = 0" "n_4byte c \<longleftrightarrow> p_id p = 0xEF18"
    using assms(1) by (simp_all add: wq_ready_def c_def)
  let ?bs = "W25X_INSTRU_READ # wq_addr_bytes (w25q_chip_id w) a"
  let ?h = "fold (spi_put H) ?bs (WQ25_CS_ON (spi_hist w))"
  let ?h' = "WQ25_CS_OFF (fold (spi_put H) (?bs @ replicate (unat num) 0xff) (WQ25_CS_ON (spi_hist w)))"
  have i: "nor_idle (nor_after p c0 (spi_hist w))" using r(3) by (simp add: c_def)
  have e: "nor_after p c0 ?h = c\<lparr>n_sel := True, n_in := ?bs\<rparr>"
    unfolding H_def c_def by (rule nor_selected [OF i])
  have k: "(nor_clk 0xff ^^ k) (c\<lparr>n_sel := True, n_in := ?bs\<rparr>) = c\<lparr>n_sel := True, n_in := ?bs @ replicate k 0xff\<rparr>" for k
    by (induction k) (simp_all add: nor_clk_def replicate_append_same)
  have l: "length (wq_addr_bytes (ucast (p_id p)) a) = nor_alen c"
    using r(1,5) assms(2) by (rule wq_addr_bytes_of)
  have n: "nor_addr p (c\<lparr>n_sel := True, n_in := x\<rparr>) (wq_addr_bytes (ucast (p_id p)) a @ y) = unat a" for x y
    by (rule wq_addr_bytes_of [OF r(1) _ assms(2)]) (simp add: r(5))
  have o: "nor_out p ((nor_clk 0xff ^^ k) (nor_after p c0 ?h)) = n_mem c ((unat a + k) mod p_size p)" for k
    unfolding e k using r(4) n l by (simp add: nor_out_def W25X_INSTRU_READ_def r(2) nor_alen_def)
  have rd: "wq_memory_read H a num w =
      (WQ_OP_OK, map (\<lambda>i. nor_out p ((nor_clk 0xff ^^ i) (nor_after p c0 ?h))) [0..<unat num], w\<lparr>spi_hist := ?h'\<rparr>)"
    using wq_ready_known [OF assms(1)]
    by (simp add: wq_memory_read_def H_def nor_chip.rw_byte nor_chip.read_loop wq_send_addr_bytes Let_def)
  have "nor_after p c0 ?h' = nor_command p (?bs @ replicate (unat num) 0xff) c"
    unfolding H_def c_def by (rule nor_frame [OF i])
  also have "\<dots> = c" by (simp add: nor_command_def W25X_INSTRU_READ_def)
  finally show ?thesis unfolding rd o by blast
qed

section \<open>The flash as an array of bytes\<close>

text \<open>Calls of the driver, their effect on an array and what they read from it.\<close>

datatype wq_call =
    Wq_Sector_Erase u32
  | Wq_Block_Erase u32
  | Wq_Chip_Erase
  | Wq_Write u32 "u8 list"
  | Wq_Read u32 u16

fun wq_call_run :: "spi_hal \<Rightarrow> wq_call \<Rightarrow> wq_world \<Rightarrow> (WQ_OP_STATUS \<times> u8 list) \<times> wq_world" where
  "wq_call_run hw (Wq_Sector_Erase a) w = (let (r, w) = wq_sector_erase hw a w in ((r, []), w))"
| "wq_call_run hw (Wq_Block_Erase a) w = (let (r, w) = wq_block_erase hw a w in ((r, []), w))"
| "wq_call_run hw Wq_Chip_Erase w = (let (r, w) = wq_chip_erase hw w in ((r, []), w))"
| "wq_call_run hw (Wq_Write a data) w =
     (let (r, w) = wq_memory_write hw a data (of_nat (length data)) w in ((r, []), w))"
| "wq_call_run hw (Wq_Read a n) w = (let (r, bs, w) = wq_memory_read hw a n w in ((r, bs), w))"

primrec wq_calls_run :: "spi_hal \<Rightarrow> wq_call list \<Rightarrow> wq_world \<Rightarrow> (WQ_OP_STATUS \<times> u8 list) list \<times> wq_world" where
  "wq_calls_run hw [] w = ([], w)"
| "wq_calls_run hw (c # cs) w =
     (let (r, w) = wq_call_run hw c w; (rs, w) = wq_calls_run hw cs w in (r # rs, w))"

definition flash_program :: "nat \<Rightarrow> u8 list \<Rightarrow> (nat \<Rightarrow> u8) \<Rightarrow> nat \<Rightarrow> u8" where
  "flash_program a data m x = (if a \<le> x \<and> x < a + length data then m x AND data ! (x - a) else m x)"

definition flash_fill :: "nat \<Rightarrow> nat \<Rightarrow> (nat \<Rightarrow> u8) \<Rightarrow> nat \<Rightarrow> u8" where
  "flash_fill a n m x = (if a \<le> x \<and> x < a + n then 0xFF else m x)"

fun array_step :: "wq_call \<Rightarrow> (nat \<Rightarrow> u8) \<Rightarrow> u8 list \<times> (nat \<Rightarrow> u8)" where
  "array_step (Wq_Sector_Erase a) m = ([], flash_fill (unat a div 4096 * 4096) 4096 m)"
| "array_step (Wq_Block_Erase a) m = ([], flash_fill (unat a div 65536 * 65536) 65536 m)"
| "array_step Wq_Chip_Erase m = ([], \<lambda>_. 0xFF)"
| "array_step (Wq_Write a data) m = ([], flash_program (unat a) data m)"
| "array_step (Wq_Read a n) m = (map m [unat a..<unat a + unat n], m)"

primrec array_steps :: "wq_call list \<Rightarrow> (nat \<Rightarrow> u8) \<Rightarrow> (WQ_OP_STATUS \<times> u8 list) list \<times> (nat \<Rightarrow> u8)" where
  "array_steps [] m = ([], m)"
| "array_steps (c # cs) m =
     (let (r, m) = array_step c m; (rs, m) = array_steps cs m in ((WQ_OP_OK, r) # rs, m))"

text \<open>A call inside the array, a write inside one page, and a chip fast enough for the driver's limits.\<close>

fun wq_call_ok :: "nor_part \<Rightarrow> wq_call \<Rightarrow> bool" where
  "wq_call_ok p (Wq_Sector_Erase a) \<longleftrightarrow> unat a < p_size p \<and> p_tsector p < 200"
| "wq_call_ok p (Wq_Block_Erase a) \<longleftrightarrow> unat a < p_size p \<and> p_tblock p < 5000"
| "wq_call_ok p Wq_Chip_Erase \<longleftrightarrow> p_tchip p < 5000"
| "wq_call_ok p (Wq_Write a data) \<longleftrightarrow> unat a < p_size p \<and> data \<noteq> [] \<and> unat a mod 256 + length data \<le> 256
     \<and> p_tprog p < 200"
| "wq_call_ok p (Wq_Read a n) \<longleftrightarrow> unat a < p_size p \<and> unat a + unat n \<le> p_size p"

lemma nor_erase_fill: "0 < n \<Longrightarrow> nor_erase n a m = flash_fill (a div n * n) n m"
proof (rule ext)
  fix x
  assume n: "0 < n"
  have "x div n = a div n \<longleftrightarrow> a div n * n \<le> x \<and> x < a div n * n + n"
    using n by (metis div_nat_eqI div_times_less_eq_dividend dividend_less_div_times mult.commute
        mult_Suc_right add.commute)
  then show "nor_erase n a m x = flash_fill (a div n * n) n m x"
    by (simp add: nor_erase_def flash_fill_def)
qed

lemma page_buffer_nth:
  "off + length data \<le> 256 \<Longrightarrow> y < 256 \<Longrightarrow>
   page_buffer off data y = (if off \<le> y \<and> y < off + length data then data ! (y - off) else 0xFF)"
proof (induction data rule: rev_induct)
  case Nil
  then show ?case by (auto simp: page_buffer_def)
next
  case (snoc b data)
  have "page_buffer off (data @ [b]) = (page_buffer off data)((off + length data) mod 256 := b)"
    by (simp add: page_buffer_def enumerate_append_eq)
  then show ?case using snoc by (auto simp: nth_append)
qed

lemma same_page:
  fixes a x n :: nat
  assumes "a mod 256 + n \<le> 256" and "a \<le> x" and "x < a + n"
  shows "x div 256 = a div 256"
proof -
  have d: "256 * (a div 256) + a mod 256 = a" by simp
  have "256 * (a div 256) \<le> x" and "x < 256 + 256 * (a div 256)"
    using assms d by linarith+
  then have "256 * (a div 256) \<le> x" and "x < 256 * Suc (a div 256)" by simp_all
  then show ?thesis by (rule div_nat_eqI)
qed

lemma byte_and_ff: "v AND 0xFF = v" "0xFF AND v = v" for v :: u8
proof -
  have m8: "(0xFF :: u8) = mask 8" by (simp add: mask_eq_exp_minus_1)
  have "v AND 0xFF = take_bit 8 v" unfolding m8 by (simp only: take_bit_eq_mask)
  then show "v AND 0xFF = v" by (simp add: take_bit_word_eq_self)
  then show "0xFF AND v = v" by (simp add: and.commute)
qed

lemma nor_program_fits:
  assumes "a mod 256 + length data \<le> 256"
  shows "nor_program a data m = flash_program a data m"
proof (rule ext)
  fix x
  have i: "x div 256 = a div 256 \<and> a mod 256 \<le> x mod 256 \<and> x mod 256 < a mod 256 + length data
      \<longleftrightarrow> a \<le> x \<and> x < a + length data" (is "?l \<longleftrightarrow> ?r")
  proof
    assume ?l
    then show ?r using div_mult_mod_eq [of x 256] div_mult_mod_eq [of a 256] by linarith
  next
    assume r: ?r
    then have "x div 256 = a div 256" using same_page [OF assms] by blast
    then show ?l using r div_mult_mod_eq [of x 256] div_mult_mod_eq [of a 256] by linarith
  qed
  have "x mod 256 - a mod 256 = x - a" if "x div 256 = a div 256"
    using that div_mult_mod_eq [of x 256] div_mult_mod_eq [of a 256] by linarith
  then show "nor_program a data m x = flash_program a data m x"
    using i by (auto simp: nor_program_def flash_program_def page_buffer_nth [OF assms] byte_and_ff)
qed

text \<open>One call: the array's answer, and the chip again ready for the driver.\<close>

lemma nor_done_ready:
  assumes "wq_ready p c w" and "t < n"
  shows "wq_ready p (nor_done c m t n) (w\<lparr>spi_hist := h\<rparr>)" and "n_mem (nor_done c m t n) = m"
  using assms by (simp_all add: wq_ready_def nor_done_def nor_idle_def)

lemma wq_call_array:
  fixes p c0 hw w call
  assumes "wq_ready p (nor_after p c0 (spi_hist w)) w" and "wq_call_ok p call"
  defines "H \<equiv> nor_hal p c0 hw" and "m \<equiv> n_mem (nor_after p c0 (spi_hist w))"
  shows "\<exists>w'. wq_call_run H call w = ((WQ_OP_OK, fst (array_step call m)), w')
           \<and> wq_ready p (nor_after p c0 (spi_hist w')) w'
           \<and> n_mem (nor_after p c0 (spi_hist w')) = snd (array_step call m)"
proof (cases call)
  case (Wq_Sector_Erase a)
  then show ?thesis
    using nor_erases(1) [OF assms(1), of a hw] assms(2) nor_done_ready [OF assms(1)]
    by (auto simp: H_def m_def nor_erase_fill)
next
  case (Wq_Block_Erase a)
  then show ?thesis
    using nor_erases(2) [OF assms(1), of a hw] assms(2) nor_done_ready [OF assms(1)]
    by (auto simp: H_def m_def nor_erase_fill)
next
  case Wq_Chip_Erase
  have "unat (0 :: u32) < p_size p" using assms(1) by (simp add: wq_ready_def nor_fits_def)
  then show ?thesis
    using nor_erases(3) [OF assms(1), of 0 hw] assms(2) nor_done_ready [OF assms(1)] Wq_Chip_Erase
    by (auto simp: H_def m_def)
next
  case (Wq_Write a data)
  have l: "unat (of_nat (length data) :: u16) = length data"
    using assms(2) Wq_Write by (simp add: unat_of_nat take_bit_nat_eq_self)
  have n: "nor_program (unat a) data = flash_program (unat a) data"
    using assms(2) Wq_Write by (intro ext fun_cong [OF nor_program_fits]) simp
  show ?thesis
    using nor_program_effect [OF assms(1), of a "of_nat (length data)" data hw] assms(2) nor_done_ready [OF assms(1)] Wq_Write
    by (auto simp: H_def m_def l n)
next
  case (Wq_Read a k)
  have "map (\<lambda>i. m ((unat a + i) mod p_size p)) [0..<unat k] = map m [unat a..<unat a + unat k]"
    using assms(2) Wq_Read by (intro nth_equalityI) simp_all
  then show ?thesis
    using nor_read_effect [OF assms(1), of a hw k] assms(1,2) Wq_Read
    by (auto simp: H_def m_def wq_ready_def)
qed

lemma wq_calls_array:
  assumes "wq_ready p (nor_after p c0 (spi_hist w)) w" and "\<forall>call\<in>set calls. wq_call_ok p call"
  shows "\<exists>w'. wq_calls_run (nor_hal p c0 hw) calls w =
             (fst (array_steps calls (n_mem (nor_after p c0 (spi_hist w)))), w')
           \<and> wq_ready p (nor_after p c0 (spi_hist w')) w'
           \<and> n_mem (nor_after p c0 (spi_hist w')) = snd (array_steps calls (n_mem (nor_after p c0 (spi_hist w))))"
  using assms
proof (induction calls arbitrary: w)
  case Nil
  then show ?case by simp
next
  case (Cons call calls)
  obtain w1 where s: "wq_call_run (nor_hal p c0 hw) call w =
        ((WQ_OP_OK, fst (array_step call (n_mem (nor_after p c0 (spi_hist w))))), w1)"
    and r: "wq_ready p (nor_after p c0 (spi_hist w1)) w1"
    and m: "n_mem (nor_after p c0 (spi_hist w1)) = snd (array_step call (n_mem (nor_after p c0 (spi_hist w))))"
    using wq_call_array [OF Cons.prems(1), of call hw] Cons.prems(2) by auto
  have "\<forall>call\<in>set calls. wq_call_ok p call" using Cons.prems(2) by simp
  from Cons.IH [OF r this] show ?case by (auto simp: s m split_def Let_def)
qed

section \<open>Initialisation\<close>

lemma chip_id_bytes: "push_bit 8 (ucast (ucast (drop_bit 8 i) :: u8)) OR ucast (ucast i :: u8) = (i :: u16)"
proof (rule bit_word_eqI)
  fix n assume "n < LENGTH(16)"
  then show "bit (push_bit 8 (ucast (ucast (drop_bit 8 i) :: u8)) OR ucast (ucast i :: u8) :: u16) n \<longleftrightarrow> bit i n"
    by (cases "n < 8") (auto simp: bit_simps)
qed

lemma nor_read_chipid:
  assumes "nor_idle (nor_after p c0 h)" and "n_busy (nor_after p c0 h) = 0"
  shows "\<exists>h'. wq_read_chipid (nor_hal p c0 hw) h = (p_id p, h') \<and> nor_after p c0 h' = nor_after p c0 h"
proof -
  let ?H = "nor_hal p c0 hw" and ?c = "nor_after p c0 h"
  let ?h = "\<lambda>bs. fold (spi_put ?H) bs (WQ25_CS_ON h)"
  let ?hi = "?h [0x90, 0, 0, 0]" and ?lo = "?h [0x90, 0, 0, 0, 0xff]"
  have o: "nor_out p (nor_after p c0 ?hi) = ucast (drop_bit 8 (p_id p))"
    "nor_out p (nor_after p c0 ?lo) = ucast (p_id p)"
    using assms(2) unfolding nor_selected [OF assms(1)] by (simp_all add: nor_out_def)
  have e: "wq_read_chipid ?H h =
      (push_bit 8 (ucast (nor_out p (nor_after p c0 ?hi))) OR ucast (nor_out p (nor_after p c0 ?lo)),
       WQ25_CS_OFF (?h [0x90, 0, 0, 0, 0xff, 0xff]))"
    by (simp add: wq_read_chipid_def nor_chip.rw_byte Let_def)
  have "nor_after p c0 (WQ25_CS_OFF (?h [0x90, 0, 0, 0, 0xff, 0xff])) = ?c"
    unfolding nor_frame [OF assms(1)] by (simp add: nor_command_def)
  then show ?thesis unfolding e o chip_id_bytes by blast
qed

lemma nor_spi_init:
  assumes "nor_idle (nor_after p c0 h)"
    and "hal_spi_init hw = HAL_OK" and "hal_dma_rx hw = HAL_OK" and "hal_dma_tx hw = HAL_OK"
  shows "\<exists>h'. spi_driver_init (nor_hal p c0 hw) h = Some (pdPASS, h') \<and> nor_after p c0 h' = nor_after p c0 h"
  using assms
  by (simp add: spi_driver_init_def nor_hal_def nor_after_Cons nor_event_def nor_select_def nor_idle_def Let_def)

lemma nor_enter_4byte:
  assumes "nor_idle (nor_after p c0 (spi_hist w))" and "n_busy (nor_after p c0 (spi_hist w)) = 0" and "wq_known w"
  shows "\<exists>h. wq_enter_4byte_addr (nor_hal p c0 hw) w = (WQ_OP_OK, w\<lparr>spi_hist := h\<rparr>)
           \<and> nor_after p c0 h = (nor_after p c0 (spi_hist w))\<lparr>n_4byte := True\<rparr>"
proof -
  let ?h = "WQ25_CS_OFF (fold (spi_put (nor_hal p c0 hw)) [W25X_Enable4ByteAddr] (WQ25_CS_ON (spi_hist w)))"
  have "wq_enter_4byte_addr (nor_hal p c0 hw) w = (WQ_OP_OK, w\<lparr>spi_hist := ?h\<rparr>)"
    using assms(3) by (simp add: wq_enter_4byte_addr_def nor_chip.rw_byte Let_def)
  moreover have "nor_after p c0 ?h = (nor_after p c0 (spi_hist w))\<lparr>n_4byte := True\<rparr>"
    using assms(2) unfolding nor_frame [OF assms(1)] by (simp add: nor_command_def W25X_Enable4ByteAddr_def)
  ultimately show ?thesis by blast
qed

lemma wq25_init_reads_id:
  assumes "nor_idle (nor_after p c0 (spi_hist w))" and "n_busy (nor_after p c0 (spi_hist w)) = 0"
    and "hal_spi_init hw = HAL_OK" and "hal_dma_rx hw = HAL_OK" and "hal_dma_tx hw = HAL_OK"
  shows "\<exists>h. nor_after p c0 h = nor_after p c0 (spi_hist w)
      \<and> wq25_driver_init (nor_hal p c0 hw) w =
         (let w1 = w\<lparr>w25q_chip_id := ucast (p_id p), spi_hist := h\<rparr>
          in if drop_bit 8 (p_id p) \<noteq> 0xEF then Some (pdFAIL, w1\<lparr>w25q_chip_id := 0\<rparr>)
             else Some (pdPASS, snd (wq25_read_test (nor_hal p c0 hw)
               (if p_id p = 0xEF18 then snd (wq_enter_4byte_addr (nor_hal p c0 hw) w1) else w1))))"
proof -
  obtain h1 where h1: "spi_driver_init (nor_hal p c0 hw) (spi_hist w) = Some (pdPASS, h1)"
    "nor_after p c0 h1 = nor_after p c0 (spi_hist w)"
    using nor_spi_init [OF assms(1,3,4,5)] by blast
  obtain h2 where h2: "wq_read_chipid (nor_hal p c0 hw) h1 = (p_id p, h2)"
    "nor_after p c0 h2 = nor_after p c0 h1"
    using nor_read_chipid [of p c0 h1 hw] assms(1,2) h1(2) by auto
  show ?thesis
    by (rule exI [of _ h2])
      (simp add: wq25_driver_init_def h1 h2 Let_def split_def manufacturer_id q256_id)
qed

lemma wq25_init_ready:
  assumes "nor_fits p" and "nor_idle (nor_after p c0 (spi_hist w))" and "n_busy (nor_after p c0 (spi_hist w)) = 0"
    and "n_4byte (nor_after p c0 (spi_hist w)) \<longrightarrow> p_id p = 0xEF18"
    and "hal_spi_init hw = HAL_OK" and "hal_dma_rx hw = HAL_OK" and "hal_dma_tx hw = HAL_OK"
  shows "\<exists>w'. wq25_driver_init (nor_hal p c0 hw) w = Some (pdPASS, w')
      \<and> wq_ready p (nor_after p c0 (spi_hist w')) w'
      \<and> n_mem (nor_after p c0 (spi_hist w')) = n_mem (nor_after p c0 (spi_hist w))"
proof -
  let ?H = "nor_hal p c0 hw" and ?c = "nor_after p c0 (spi_hist w)"
  obtain h where h: "nor_after p c0 h = ?c" and i: "wq25_driver_init ?H w =
         (let w1 = w\<lparr>w25q_chip_id := ucast (p_id p), spi_hist := h\<rparr>
          in if drop_bit 8 (p_id p) \<noteq> 0xEF then Some (pdFAIL, w1\<lparr>w25q_chip_id := 0\<rparr>)
             else Some (pdPASS, snd (wq25_read_test ?H
               (if p_id p = 0xEF18 then snd (wq_enter_4byte_addr ?H w1) else w1))))"
    using wq25_init_reads_id [OF assms(2,3,5,6,7)] by blast
  define w1 where "w1 = w\<lparr>w25q_chip_id := ucast (p_id p), spi_hist := h\<rparr>"
  define w2 where "w2 = (if p_id p = 0xEF18 then snd (wq_enter_4byte_addr ?H w1) else w1)"
  have "wq_known w1" using assms(1) by (simp add: w1_def wq_known_def manufacturer_id nor_fits_def)
  then have w2: "nor_after p c0 (spi_hist w2) = ?c\<lparr>n_4byte := (p_id p = 0xEF18)\<rparr> \<and> w25q_chip_id w2 = ucast (p_id p)"
    using nor_enter_4byte [of p c0 w1 hw] assms(2,3,4) by (auto simp: w2_def w1_def h)
  then have r: "wq_ready p (nor_after p c0 (spi_hist w2)) w2"
    using assms(1-3) by (simp add: wq_ready_def nor_idle_def)
  have "unat (0 :: u32) < p_size p" using assms(1) by (simp add: nor_fits_def)
  from nor_read_effect [OF r this, of hw 24] obtain h3 where
    "snd (wq25_read_test ?H w2) = w2\<lparr>spi_hist := h3\<rparr>" and "nor_after p c0 h3 = nor_after p c0 (spi_hist w2)"
    by (auto simp: wq25_read_test_def)
  then show ?thesis
    using r w2 assms(1) by (simp add: i w1_def [symmetric] w2_def [symmetric] nor_fits_def Let_def wq_ready_def)
qed

section \<open>The chip-select pin\<close>

text \<open>Whether the last write of the pin selected the chip.\<close>

primrec cs_selected :: "spi_history \<Rightarrow> bool" where
  "cs_selected [] = False"
| "cs_selected (e # h) =
     (case e of
        Spi_Gpio (WritePin port pin b) \<Rightarrow> if port = GPIOF \<and> pin = GPIO_PIN_6 then \<not> b else cs_selected h
      | _ \<Rightarrow> cs_selected h)"

lemma cs_selected_pin [simp]: "cs_selected (WQ25_CS_ON h)" "\<not> cs_selected (WQ25_CS_OFF h)"
  by (simp_all add: WQ25_CS_ON_def WQ25_CS_OFF_def)

lemma cs_selected_put [simp]: "cs_selected (spi_put hw b h) = cs_selected h"
  by (simp add: spi_rw_byte_def split: prod.split)

lemma cs_selected_puts: "cs_selected (fold (spi_put hw) bs h) = cs_selected h"
  by (induction bs arbitrary: h) simp_all

lemma cs_released [simp]:
  "\<not> cs_selected (wq_write_enable hw h)"
  "\<not> cs_selected (snd (wq_read_status hw h))"
  "\<not> cs_selected (snd (wq_wait_busy hw mode h))"
  by (simp_all add: wq_write_enable_def wq_read_status_def Let_def split_def wq_wait_busy_search poll_search_def wq_poll_def
      split: option.split)

lemma wq_releases:
  assumes "\<not> cs_selected (spi_hist w)"
  shows "\<not> cs_selected (spi_hist (snd (wq_call_run hw call w)))"
  using assms
  by (cases call)
    (simp_all add: wq_sector_erase_def wq_block_erase_def wq_chip_erase_def wq_memory_read_def wq_memory_write_def
      split_def Let_def)

lemma wq_calls_release:
  "\<not> cs_selected (spi_hist w) \<Longrightarrow> \<not> cs_selected (spi_hist (snd (wq_calls_run hw calls w)))"
  by (induction calls arbitrary: w) (simp_all add: split_def Let_def wq_releases)

lemma wq_dma_loop_gives_up:
  assumes "\<And>h. fst (check h) \<noteq> HAL_OK \<and> cs_selected (snd (check h)) = cs_selected h"
  shows "\<not> fst (wq_dma_loop check 0 h) \<and> cs_selected (snd (wq_dma_loop check 0 h)) = cs_selected h"
proof -
  have "wq_dma_loop check 0 h =
      poll_search (\<lambda>h. map_prod (\<lambda>r. r = HAL_OK) id (check h)) ((#) (Spi_Delay 1)) id 201 h"
    using wq_dma.loop_search [of 0 check h] by simp
  then show ?thesis
    using poll_search_inv [where I = "\<lambda>s. cs_selected s = cs_selected h" and s = h and giveup = id and k = 201
        and check = "\<lambda>h. map_prod (\<lambda>r. r = HAL_OK) id (check h)" and pause = "(#) (Spi_Delay 1)"]
    by (simp add: assms poll_search_never)
qed

section \<open>Properties\<close>

definition demo_part :: nor_part where
  "demo_part = \<lparr>p_id = 0xEF18, p_size = 2 ^ 25, p_tprog = 3, p_tsector = 100, p_tblock = 400, p_tchip = 80000\<rparr>"

definition demo_nor :: nor where
  "demo_nor = \<lparr>n_sel = False, n_in = [], n_mem = (\<lambda>_. 0), n_wel = False, n_busy = 0, n_4byte = True\<rparr>"

definition demo_spi :: spi_hal where
  "demo_spi = \<lparr>hal_spi_init = HAL_OK, hal_dma_rx = HAL_OK, hal_dma_tx = HAL_OK, hal_xfer = (\<lambda>_ _. (HAL_OK, None)),
     hal_dma_flag = (\<lambda>_ _. False), hal_dma_start = (\<lambda>_ _. HAL_OK), spi_DR = 0x4001500C\<rparr>"

definition demo_wq :: wq_world where
  "demo_wq = \<lparr>w25q_chip_id = 0xEF18, spi_hist = []\<rparr>"

lemma demo_wq_ready: "wq_ready demo_part (nor_after demo_part demo_nor (spi_hist demo_wq)) demo_wq"
  by (simp add: wq_ready_def nor_fits_def nor_idle_def demo_part_def demo_nor_def demo_wq_def)

text \<open>
  C2. On a W25Q chip as its data sheet describes it, ready for the driver and fast enough for its
  limits, any sequence of sector, block and chip erases, writes inside one page and reads inside the
  array succeeds and behaves as an array of bytes: erases set the aligned block that holds the
  address to 0xFF, writes clear bits of exactly the bytes written, reads return the bytes, and the
  chip is ready again afterwards.
\<close>

theorem wq_refines_array:
  assumes "wq_ready p (nor_after p c0 (spi_hist w)) w" and "\<forall>call\<in>set calls. wq_call_ok p call"
  shows "\<exists>w'. wq_calls_run (nor_hal p c0 hw) calls w =
             (fst (array_steps calls (n_mem (nor_after p c0 (spi_hist w)))), w')
           \<and> wq_ready p (nor_after p c0 (spi_hist w')) w'
           \<and> n_mem (nor_after p c0 (spi_hist w')) = snd (array_steps calls (n_mem (nor_after p c0 (spi_hist w))))"
  using assms by (rule wq_calls_array)

theorem wq_refines_array_witness:
  "\<exists>w'. wq_calls_run (nor_hal demo_part demo_nor demo_spi)
        [Wq_Sector_Erase 5000, Wq_Write 5000 [0x31, 0x32], Wq_Write 5001 [0xF0], Wq_Read 4999 4] demo_wq =
      ([(WQ_OP_OK, []), (WQ_OP_OK, []), (WQ_OP_OK, []), (WQ_OP_OK, [0xFF, 0x31, 0x30, 0xFF])], w')"
proof -
  let ?cs = "[Wq_Sector_Erase 5000, Wq_Write 5000 [0x31, 0x32], Wq_Write 5001 [0xF0], Wq_Read 4999 4]"
  have "\<forall>call\<in>set ?cs. wq_call_ok demo_part call" by (simp add: demo_part_def)
  from wq_refines_array [OF demo_wq_ready this, of demo_spi]
  show ?thesis
    by (auto simp: demo_nor_def demo_wq_def flash_fill_def flash_program_def upt_rec Let_def)
qed

text \<open>
  C18. On such a chip, erasing the sector of an address, writing up to a page's rest of bytes there
  and reading them back returns exactly the bytes written, and all three calls report success.
\<close>

theorem wq_erase_write_read:
  assumes "wq_ready p (nor_after p c0 (spi_hist w)) w" and "p_tsector p < 200" and "p_tprog p < 200"
    and "unat a < p_size p" and "data \<noteq> []" and "unat a mod 256 + length data \<le> 256"
  shows "fst (wq_calls_run (nor_hal p c0 hw)
             [Wq_Sector_Erase a, Wq_Write a data, Wq_Read a (of_nat (length data))] w) =
           [(WQ_OP_OK, []), (WQ_OP_OK, []), (WQ_OP_OK, data)]"
proof -
  have l: "unat (of_nat (length data) :: u16) = length data"
    using assms(6) by (simp add: unat_of_nat take_bit_nat_eq_self)
  have "256 * (unat a div 256) + unat a mod 256 = unat a" by simp
  moreover obtain k where k: "p_size p = 256 * k"
    using assms(1) unfolding wq_ready_def nor_fits_def by (auto elim!: dvdE)
  moreover have "unat a div 256 < k" using assms(4) k by (simp add: less_mult_imp_div_less mult.commute)
  ultimately have fits: "unat a + length data \<le> p_size p" using assms(6) by linarith
  let ?m = "n_mem (nor_after p c0 (spi_hist w))"
  let ?e = "flash_fill (unat a div 4096 * 4096) 4096 ?m"
  have e: "?e x = 0xFF" if "unat a \<le> x" "x < unat a + length data" for x
  proof -
    have "x div 256 div 16 = unat a div 256 div 16" by (simp only: same_page [OF assms(6) that])
    then have "x div 4096 = unat a div 4096" by (simp add: div_mult2_eq [symmetric])
    then have "nor_erase 4096 (unat a) ?m x = 0xFF" by (simp add: nor_erase_def)
    then show ?thesis by (simp add: nor_erase_fill)
  qed
  have "map (flash_program (unat a) data ?e) [unat a..<unat a + length data] = data"
    by (rule nth_equalityI) (simp_all add: flash_program_def e byte_and_ff)
  then show ?thesis
    using wq_calls_array [OF assms(1), where calls = "[Wq_Sector_Erase a, Wq_Write a data, Wq_Read a (of_nat (length data))]" and hw = hw]
      assms(2-6) fits by (auto simp: l Let_def)
qed

theorem wq_erase_write_read_witness:
  "fst (wq_calls_run (nor_hal demo_part demo_nor demo_spi)
       [Wq_Sector_Erase 0x1FFFF00, Wq_Write 0x1FFFF00 (replicate 256 7), Wq_Read 0x1FFFF00 256] demo_wq) =
     [(WQ_OP_OK, []), (WQ_OP_OK, []), (WQ_OP_OK, replicate 256 7)]"
  using wq_erase_write_read [OF demo_wq_ready, where a = "0x1FFFF00" and data = "replicate 256 7" and hw = demo_spi]
  by (simp add: demo_part_def)

text \<open>
  When the HAL initialises and a Winbond chip is on the bus, wq25_driver_init succeeds, reads
  the chip's identifier, switches the W25Q256 (and only it) to four-byte addresses, leaves the array
  unchanged and the chip ready for the driver.
\<close>

lemma wq25_init_knows_chip:
  assumes "nor_fits p" and "nor_idle (nor_after p c0 (spi_hist w))" and "n_busy (nor_after p c0 (spi_hist w)) = 0"
    and "n_4byte (nor_after p c0 (spi_hist w)) \<longrightarrow> p_id p = 0xEF18"
    and "hal_spi_init hw = HAL_OK" and "hal_dma_rx hw = HAL_OK" and "hal_dma_tx hw = HAL_OK"
  shows "\<exists>w'. wq25_driver_init (nor_hal p c0 hw) w = Some (pdPASS, w')
      \<and> wq_ready p (nor_after p c0 (spi_hist w')) w'
      \<and> n_mem (nor_after p c0 (spi_hist w')) = n_mem (nor_after p c0 (spi_hist w))"
  using assms by (rule wq25_init_ready)

text \<open>
  With another manufacturer's chip on the bus wq25_driver_init fails, and from then on every
  operation is refused without any access to the bus; the reading and erasing ones report a device
  error, but the two writing ones return the value of WQ_OP_OK although nothing was written.
\<close>

lemma wq25_refuses_foreign_chip:
  assumes "drop_bit 8 (p_id p) \<noteq> 0xEF"
    and "nor_idle (nor_after p c0 (spi_hist w))" and "n_busy (nor_after p c0 (spi_hist w)) = 0"
    and "hal_spi_init hw = HAL_OK" and "hal_dma_rx hw = HAL_OK" and "hal_dma_tx hw = HAL_OK"
  shows "\<exists>w'. wq25_driver_init (nor_hal p c0 hw) w = Some (pdFAIL, w')
      \<and> (\<forall>hw' a. wq_sector_erase hw' a w' = (WQ_OP_DEVICE_ERR, w')
             \<and> wq_block_erase hw' a w' = (WQ_OP_DEVICE_ERR, w')
             \<and> wq_chip_erase hw' w' = (WQ_OP_DEVICE_ERR, w')
             \<and> wq_enter_4byte_addr hw' w' = (WQ_OP_DEVICE_ERR, w')
             \<and> (\<forall>n. wq_memory_read hw' a n w' = (WQ_OP_DEVICE_ERR, [], w'))
             \<and> (\<forall>b n. wq_memory_read_dma hw' a b n w' = (WQ_OP_DEVICE_ERR, w'))
             \<and> (\<forall>data n. wq_memory_write hw' a data n w' = (WQ_OP_OK, w'))
             \<and> (\<forall>b n. wq_memory_write_dma hw' a b n w' = (WQ_OP_OK, w')))"
proof -
  obtain h where i: "wq25_driver_init (nor_hal p c0 hw) w = Some (pdFAIL, w\<lparr>spi_hist := h, w25q_chip_id := 0\<rparr>)"
    using wq25_init_reads_id [OF assms(2-6)] assms(1) by (auto simp: Let_def)
  have "\<not> wq_known (w\<lparr>spi_hist := h, w25q_chip_id := 0\<rparr>)"
    by (simp add: wq_known_def WQ25_GetManufacturerID_def WQ25_ManufacturerID_def)
  then show ?thesis
    by (intro exI [of _ "w\<lparr>spi_hist := h, w25q_chip_id := 0\<rparr>"])
      (simp add: i wq_sector_erase_def wq_block_erase_def wq_chip_erase_def wq_enter_4byte_addr_def
        wq_memory_read_def wq_memory_write_def wq_memory_read_dma_def wq_memory_write_dma_def)
qed

text \<open>
  Whatever the HAL answers, failures included, every sequence of erase, write and read calls
  that starts with the chip deselected ends with it deselected, and so do the DMA transfers that do
  not time out.
\<close>

lemma wq_calls_release_chip:
  assumes "\<not> cs_selected (spi_hist w)"
  shows "\<not> cs_selected (spi_hist (snd (wq_calls_run hw calls w)))
    \<and> (fst (wq_memory_read_dma hw a b n w) \<noteq> WQ_OP_TIMEOUT_ERR \<longrightarrow>
         \<not> cs_selected (spi_hist (snd (wq_memory_read_dma hw a b n w))))
    \<and> (fst (wq_memory_write_dma hw a b n w) \<noteq> WQ_OP_TIMEOUT_ERR \<longrightarrow>
         \<not> cs_selected (spi_hist (snd (wq_memory_write_dma hw a b n w))))"
  using assms wq_calls_release [OF assms]
  by (simp add: wq_memory_read_dma_def wq_memory_write_dma_def split_def Let_def)

text \<open>
  When the DMA never reports completion, wq_memory_read_dma gives up with a timeout error but
  leaves the chip selected.
\<close>

lemma wq_read_dma_timeout:
  assumes "wq_known w" and "\<And>h. \<not> hal_dma_flag hw h DMA2_Stream3"
    and "fst (hal_xfer hw (WQ25_CS_ON (spi_hist w)) W25X_INSTRU_READ) = HAL_OK"
  shows "fst (wq_memory_read_dma hw a b n w) = WQ_OP_TIMEOUT_ERR
      \<and> cs_selected (spi_hist (snd (wq_memory_read_dma hw a b n w)))"
proof -
  have c: "fst (spi_read_check_ok hw h) \<noteq> HAL_OK \<and> cs_selected (snd (spi_read_check_ok hw h)) = cs_selected h" for h
    using assms(2) by (simp add: spi_read_check_ok_def)
  note l = wq_dma_loop_gives_up [where check = "spi_read_check_ok hw", OF c]
  have d: "cs_selected (snd (spi_read_dma hw x y h)) = cs_selected h" for x y h
    by (simp add: spi_read_dma_def Let_def)
  have s: "fst (snd (spi_rw_byte hw W25X_INSTRU_READ (WQ25_CS_ON (spi_hist w)))) = HAL_OK"
    using assms(3) by (simp add: spi_rw_byte_def split_def)
  show ?thesis
    using assms(1) s by (simp add: wq_memory_read_dma_def Let_def split_def l d wq_send_addr_bytes cs_selected_puts)
qed

end
