(* ===== verification/Tpad.thy ===== *)
theory Tpad
  imports Peripheral "HOL-Library.Multiset"
begin

text \<open>
  The touch pad (\<^verbatim>\<open>Drivers/Src/drv_tpad.c\<close>): the time the pad takes to charge, captured by a timer,
  is measured ten times without a finger at start-up; a key press is a capture well above that.
  The timer's flag, counter and capture register are parameters that may depend on everything done
  before. The capture loop ends only if the timer runs, so it is a partial function; the two log
  messages are left out.
\<close>

section \<open>The timer\<close>

datatype tpad_event =
    Tp_Gpio hw_event
  | Tp_ClearFlags
  | Tp_SetCounter u32
  | Tp_GetFlag
  | Tp_GetCounter
  | Tp_ReadCapture
  | Tp_Tim tim_event

type_synonym tpad_history = "tpad_event list"

record tpad_timer =
  tim_flag :: "tpad_history \<Rightarrow> bool"
  tim_counter :: "tpad_history \<Rightarrow> u32"
  tim_capture :: "tpad_history \<Rightarrow> u32"

record tpad_world =
  no_push_value :: u16
  current_value :: u16
  tpad_hist :: tpad_history

definition TPAD_ARR_MAX_VAL :: u32 where "TPAD_ARR_MAX_VAL = 0xFFFFFFFF"
definition TPAD_TIMER_PRESCALER :: u32 where "TPAD_TIMER_PRESCALER = 1"
definition TPAD_TIMES_CAPTURE_LOW :: u16 where "TPAD_TIMES_CAPTURE_LOW = 50"
definition TPAD_TIMES_CAPTURE_HIGH :: u32 where "TPAD_TIMES_CAPTURE_HIGH = 2500"
definition TPAD_INIT_CHECK_TIMES :: nat where "TPAD_INIT_CHECK_TIMES = 10"
definition TPAD_CAPTURE_LOOP_TIMES :: nat where "TPAD_CAPTURE_LOOP_TIMES = 4"

text \<open>The macros compute with C's \<^verbatim>\<open>int\<close>, into which 16-bit operands fit even when multiplied by 10.\<close>

definition TPAD_IS_VALID_PUSH_KEY :: "u16 \<Rightarrow> u16 \<Rightarrow> bool" where
  "TPAD_IS_VALID_PUSH_KEY v no_push \<longleftrightarrow> unat v > unat no_push * 4 div 3 \<and> unat v < unat no_push * 10"

definition TPAD_IS_VALID_CAPTURE :: "u16 \<Rightarrow> bool" where
  "TPAD_IS_VALID_CAPTURE v \<longleftrightarrow> TPAD_TIMES_CAPTURE_LOW \<le> v \<and> unat v \<le> unat TPAD_TIMES_CAPTURE_HIGH"

section \<open>Capture\<close>

definition tpad_reset :: "tpad_history \<Rightarrow> tpad_history" where
  "tpad_reset h =
     (let g = gpio_init0\<lparr>Pin := GPIO_PIN_5, Mode := GPIO_MODE_OUTPUT_PP, Pull := GPIO_PULLDOWN,
                Speed := GPIO_SPEED_FREQ_VERY_HIGH\<rparr>;
          h = Tp_Gpio (InitPin GPIOA g) # h;
          h = Tp_Gpio (WritePin GPIOA GPIO_PIN_5 False) # h;
          h = Tp_Gpio (DelayMs 3) # h;
          h = Tp_ClearFlags # h;
          h = Tp_SetCounter 0 # h;
          g = g\<lparr>Mode := GPIO_MODE_AF_PP, Pull := GPIO_NOPULL, Alternate := 1\<rparr>
      in Tp_Gpio (InitPin GPIOA g) # h)"

partial_function (option) tpad_wait :: "tpad_timer \<Rightarrow> tpad_history \<Rightarrow> (u16 \<times> tpad_history) option" where
  "tpad_wait tim h =
     (let flag = tim_flag tim h; h = Tp_GetFlag # h
      in if \<not> flag
         then (let c = tim_counter tim h; h = Tp_GetCounter # h
               in if c > TPAD_TIMES_CAPTURE_HIGH
                  then Some (ucast (tim_counter tim h), Tp_GetCounter # h)
                  else tpad_wait tim h)
         else Some (ucast (tim_capture tim h), Tp_ReadCapture # h))"

declare tpad_wait.simps [code]

definition tpad_get_value :: "tpad_timer \<Rightarrow> tpad_history \<Rightarrow> (u16 \<times> tpad_history) option" where
  "tpad_get_value tim h = tpad_wait tim (tpad_reset h)"

text \<open>The loop of \<^verbatim>\<open>tpad_get_max_value\<close>, with the number of passes left.\<close>

fun tpad_max_loop :: "tpad_timer \<Rightarrow> nat \<Rightarrow> u16 \<Rightarrow> u8 \<Rightarrow> tpad_history \<Rightarrow> (u16 \<times> u8 \<times> tpad_history) option" where
  "tpad_max_loop tim 0 res okcnt h = Some (res, okcnt, h)"
| "tpad_max_loop tim (Suc left) res okcnt h =
     (case tpad_get_value tim h of
        None \<Rightarrow> None
      | Some (temp, h) \<Rightarrow>
          tpad_max_loop tim left (if temp > res then temp else res)
            (if TPAD_IS_VALID_CAPTURE temp then okcnt + 1 else okcnt) h)"

definition tpad_get_max_value :: "tpad_timer \<Rightarrow> tpad_history \<Rightarrow> (u16 \<times> tpad_history) option" where
  "tpad_get_max_value tim h =
     (case tpad_max_loop tim TPAD_CAPTURE_LOOP_TIMES 0 0 h of
        None \<Rightarrow> None
      | Some (res, okcnt, h) \<Rightarrow>
          Some (if unat okcnt \<ge> TPAD_CAPTURE_LOOP_TIMES * 2 div 3 then res else 0, h))"

definition tpad_scan_key :: "tpad_timer \<Rightarrow> tpad_world \<Rightarrow> (u8 \<times> tpad_world) option" where
  "tpad_scan_key tim w =
     (case tpad_get_max_value tim (tpad_hist w) of
        None \<Rightarrow> None
      | Some (v, h) \<Rightarrow>
          let w = w\<lparr>current_value := v, tpad_hist := h\<rparr>
          in Some (if TPAD_IS_VALID_PUSH_KEY (current_value w) (no_push_value w) then 1 else 0, w))"

section \<open>Calibration\<close>

text \<open>
  \<^verbatim>\<open>comp\<close> orders descending. \<^verbatim>\<open>qsort\<close> is the C library's: any permutation of the array that is
  ordered by the comparison; here it is an insertion sort, and \<open>qsort_unique\<close> shows that for this
  comparison there is only one.
\<close>

definition comp :: "u16 \<Rightarrow> u16 \<Rightarrow> int" where
  "comp a b = int (unat b) - int (unat a)"

fun qsort_insert :: "('a \<Rightarrow> 'a \<Rightarrow> int) \<Rightarrow> 'a \<Rightarrow> 'a list \<Rightarrow> 'a list" where
  "qsort_insert cmp x [] = [x]"
| "qsort_insert cmp x (y # ys) = (if cmp x y \<le> 0 then x # y # ys else y # qsort_insert cmp x ys)"

definition qsort :: "('a \<Rightarrow> 'a \<Rightarrow> int) \<Rightarrow> 'a list \<Rightarrow> 'a list" where
  "qsort cmp xs = foldr (qsort_insert cmp) xs []"

definition avg :: "u16 list \<Rightarrow> u8 \<Rightarrow> u16" where
  "avg buf n = (let sum = fold (\<lambda>i s. s + buf ! i) [0..<unat n] 0 in of_nat (unat sum div unat n))"

fun tpad_sample :: "tpad_timer \<Rightarrow> nat \<Rightarrow> tpad_history \<Rightarrow> (u16 list \<times> tpad_history) option" where
  "tpad_sample tim 0 h = Some ([], h)"
| "tpad_sample tim (Suc n) h =
     (case tpad_get_value tim h of
        None \<Rightarrow> None
      | Some (v, h) \<Rightarrow>
          (case tpad_sample tim n (Tp_Gpio (DelayMs 5) # h) of
             None \<Rightarrow> None
           | Some (vs, h) \<Rightarrow> Some (v # vs, h)))"

definition tpad_hardware_init :: "tpad_history \<Rightarrow> BaseType_t \<times> tpad_history" where
  "tpad_hardware_init h =
     (let h = Tp_Gpio (PeriphClock RCC_TIM2) # h;
          base = \<lparr>tim_Prescaler = TPAD_TIMER_PRESCALER, tim_CounterMode = TIM_COUNTERMODE_UP,
                  tim_Period = TPAD_ARR_MAX_VAL, tim_ClockDivision = 1, tim_AutoReloadPreload = False\<rparr>;
          h = Tp_Tim (Tim_IC_Init TIM2 base) # h;
          ic = \<lparr>ic_Rising = True, ic_Direct = True, ic_Prescaler = 1, ic_Filter = 0\<rparr>;
          h = Tp_Tim (Tim_IC_Channel TIM2 1 ic) # h;
          h = Tp_Tim (Tim_IC_Start TIM2 1) # h
      in (pdPASS, h))"

definition tpad_driver_init :: "tpad_timer \<Rightarrow> tpad_world \<Rightarrow> (BaseType_t \<times> tpad_world) option" where
  "tpad_driver_init tim w =
     (let (result, h) = tpad_hardware_init (tpad_hist w)
      in if result = pdPASS
         then (case tpad_sample tim TPAD_INIT_CHECK_TIMES h of
                 None \<Rightarrow> None
               | Some (buf, h) \<Rightarrow>
                   Some (result, w\<lparr>no_push_value := avg (qsort comp buf) (of_nat (TPAD_INIT_CHECK_TIMES - 2)),
                                   tpad_hist := h\<rparr>))
         else Some (result, w\<lparr>tpad_hist := h\<rparr>))"

definition tpad_get_no_push_val :: "tpad_world \<Rightarrow> u16" where
  "tpad_get_no_push_val w = no_push_value w"

definition tpad_current_val :: "tpad_world \<Rightarrow> u16" where
  "tpad_current_val w = current_value w"

section \<open>The sort\<close>

definition ordered_by :: "('a \<Rightarrow> 'a \<Rightarrow> int) \<Rightarrow> 'a list \<Rightarrow> bool" where
  "ordered_by cmp = sorted_wrt (\<lambda>x y. cmp x y \<le> 0)"

lemma mset_qsort_insert [simp]: "mset (qsort_insert cmp x xs) = add_mset x (mset xs)"
  by (induction xs) auto

lemma mset_qsort [simp]: "mset (qsort cmp xs) = mset xs"
  by (induction xs) (simp_all add: qsort_def)

lemma set_qsort_insert [simp]: "set (qsort_insert cmp x xs) = insert x (set xs)"
  by (induction xs) auto

lemma comp_le: "comp x y \<le> 0 \<longleftrightarrow> unat y \<le> unat x"
  unfolding comp_def by linarith

lemma qsort_Cons: "qsort cmp (x # xs) = qsort_insert cmp x (qsort cmp xs)"
  by (simp add: qsort_def)

lemma ordered_qsort: "ordered_by comp (qsort comp xs)"
proof (induction xs)
  case Nil
  show ?case by (simp add: qsort_def ordered_by_def)
next
  case (Cons x xs)
  have "ordered_by comp (qsort_insert comp x ys)" if "ordered_by comp ys" for ys
    using that
  proof (induction ys)
    case Nil
    show ?case by (simp add: ordered_by_def)
  next
    case (Cons y ys)
    then have "ordered_by comp (qsort_insert comp x ys)" and "\<forall>z\<in>set ys. unat z \<le> unat y"
      by (simp_all add: ordered_by_def comp_le)
    then show ?case using Cons.prems by (auto simp: ordered_by_def comp_le)
  qed
  then show ?case using Cons.IH by (simp add: qsort_Cons)
qed

text \<open>The numbers of an array sorted by \<^verbatim>\<open>comp\<close> are those of the sorted list, backwards.\<close>

lemma ordered_comp_unique:
  assumes "ordered_by comp ys" and "mset ys = mset xs"
  shows "map unat ys = rev (sort (map unat xs))"
proof -
  have "sorted_wrt (\<ge>) (map unat ys)"
    using assms(1) by (simp add: ordered_by_def comp_le sorted_wrt_map)
  then have "sorted (rev (map unat ys))" by (simp add: sorted_wrt_rev)
  moreover have "mset (rev (map unat ys)) = mset (map unat xs)"
    using assms(2) by simp
  ultimately have "rev (map unat ys) = sort (map unat xs)"
    by (metis properties_for_sort)
  then show ?thesis by (metis rev_rev_ident)
qed

lemma qsort_unique:
  assumes "ordered_by comp ys" and "mset ys = mset xs"
  shows "ys = qsort comp xs"
proof -
  have "map unat ys = map unat (qsort comp xs)"
    using ordered_comp_unique [OF assms] ordered_comp_unique [OF ordered_qsort mset_qsort] by simp
  then show ?thesis by (metis inj_map_eq_map inj_def word_unat_eq_iff)
qed

section \<open>The average\<close>

lemma unat_fold_sum:
  fixes xs :: "u16 list"
  shows "unat (fold (\<lambda>i s. s + xs ! i) [0..<n] 0) = sum_list (map (\<lambda>i. unat (xs ! i)) [0..<n]) mod 65536"
proof (induction n)
  case 0
  show ?case by simp
next
  case (Suc n)
  let ?s = "fold (\<lambda>i s. s + xs ! i) [0..<n] 0"
  have "unat (?s + xs ! n) = (unat ?s + unat (xs ! n)) mod 65536"
    using unat_word_ariths(1) [of ?s "xs ! n"] by simp
  also have "\<dots> = (sum_list (map (\<lambda>i. unat (xs ! i)) [0..<n]) + unat (xs ! n)) mod 65536"
    by (simp only: Suc.IH mod_add_left_eq)
  finally show ?case by simp
qed

lemma avg_value:
  assumes "unat n \<le> length xs" and "sum_list (map unat (take (unat n) xs)) < 65536"
  shows "unat (avg xs n) = sum_list (map unat (take (unat n) xs)) div unat n"
proof -
  let ?S = "sum_list (map unat (take (unat n) xs))"
  have "map (\<lambda>i. unat (xs ! i)) [0..<unat n] = map unat (take (unat n) xs)"
    using assms(1) by (simp add: map_nth_upt_take [symmetric])
  then have "unat (fold (\<lambda>i s. s + xs ! i) [0..<unat n] 0) = ?S"
    using assms(2) by (simp add: unat_fold_sum)
  moreover have "?S div unat n < 2 ^ LENGTH(16)"
    using assms(2) le_less_trans [OF div_le_dividend] by simp
  ultimately show ?thesis by (simp add: avg_def unat_of_nat take_bit_nat_eq_self)
qed

section \<open>Captures\<close>

text \<open>
  A running timer: every reading of its counter since it was last set has let it advance by at least
  one, up to the limit the driver compares with.
\<close>

fun readings :: "tpad_history \<Rightarrow> nat" where
  "readings [] = 0"
| "readings (e # h) = (case e of Tp_GetCounter \<Rightarrow> Suc (readings h) | Tp_SetCounter _ \<Rightarrow> 0 | _ \<Rightarrow> readings h)"

definition timer_runs :: "tpad_timer \<Rightarrow> bool" where
  "timer_runs tim \<longleftrightarrow> (\<forall>h. min 2501 (readings h) \<le> unat (tim_counter tim h))"

lemma tpad_wait_returns:
  assumes "timer_runs tim"
  shows "\<exists>v h'. tpad_wait tim h = Some (v, h')"
proof (induction "2501 - readings h" arbitrary: h rule: less_induct)
  case less
  let ?h = "Tp_GetFlag # h"
  show ?case
  proof (cases "tim_flag tim h \<or> tim_counter tim ?h > TPAD_TIMES_CAPTURE_HIGH")
    case True
    then show ?thesis by (subst tpad_wait.simps) (auto simp: Let_def)
  next
    case False
    have "min 2501 (readings ?h) \<le> unat (tim_counter tim ?h)"
      using assms unfolding timer_runs_def by blast
    moreover have "\<not> 2500 < unat (tim_counter tim ?h)"
      using False by (simp add: TPAD_TIMES_CAPTURE_HIGH_def word_less_unat)
    ultimately have "readings h < 2501" by (auto simp: min_def split: if_splits)
    then have "\<exists>v h'. tpad_wait tim (Tp_GetCounter # ?h) = Some (v, h')"
      by (intro less) simp
    then show ?thesis using False by (subst tpad_wait.simps) (simp add: Let_def)
  qed
qed

lemma tpad_get_value_returns: "timer_runs tim \<Longrightarrow> \<exists>v h'. tpad_get_value tim h = Some (v, h')"
  unfolding tpad_get_value_def by (rule tpad_wait_returns)

text \<open>The values of successive captures.\<close>

fun tpad_captures :: "tpad_timer \<Rightarrow> nat \<Rightarrow> tpad_history \<Rightarrow> (u16 list \<times> tpad_history) option" where
  "tpad_captures tim 0 h = Some ([], h)"
| "tpad_captures tim (Suc n) h =
     (case tpad_get_value tim h of
        None \<Rightarrow> None
      | Some (v, h) \<Rightarrow> map_option (\<lambda>(vs, h). (v # vs, h)) (tpad_captures tim n h))"

lemma tpad_captures_return:
  assumes "timer_runs tim"
  shows "\<exists>vs h'. tpad_captures tim n h = Some (vs, h') \<and> length vs = n"
proof (induction n arbitrary: h)
  case 0
  show ?case by simp
next
  case (Suc n)
  obtain v h1 where "tpad_get_value tim h = Some (v, h1)"
    using tpad_get_value_returns [OF assms] by blast
  then show ?case using Suc [of h1] by auto
qed

lemma tpad_sample_return:
  assumes "timer_runs tim"
  shows "\<exists>vs h'. tpad_sample tim n h = Some (vs, h') \<and> length vs = n"
proof (induction n arbitrary: h)
  case 0
  show ?case by simp
next
  case (Suc n)
  obtain v h1 where "tpad_get_value tim h = Some (v, h1)"
    using tpad_get_value_returns [OF assms] by blast
  then show ?case using Suc [of "Tp_Gpio (DelayMs 5) # h1"] by auto
qed

text \<open>The loop keeps the maximum and counts the captures in the window.\<close>

lemma tpad_max_loop_captures:
  assumes "tpad_captures tim n h = Some (vs, h')" and "unat okcnt + n < 256"
  shows "tpad_max_loop tim n res okcnt h =
      Some (fold max vs res, okcnt + of_nat (length (filter TPAD_IS_VALID_CAPTURE vs)), h')"
  using assms
proof (induction n arbitrary: h vs res okcnt)
  case 0
  then show ?case by simp
next
  case (Suc n)
  from Suc.prems(1) obtain v h1 ws where v: "tpad_get_value tim h = Some (v, h1)"
    and ws: "tpad_captures tim n h1 = Some (ws, h')" and vs: "vs = v # ws"
    by (auto split: option.splits)
  define k where "k = (if TPAD_IS_VALID_CAPTURE v then okcnt + 1 else okcnt)"
  have "unat k + n < 256"
  proof -
    have "unat (okcnt + 1) = (unat okcnt + 1) mod 2 ^ LENGTH(8)"
      using unat_word_ariths(1) [of okcnt 1] by simp
    then have "unat (okcnt + 1) \<le> unat okcnt + 1"
      by (metis mod_less_eq_dividend)
    then show ?thesis using Suc.prems(2) by (auto simp: k_def)
  qed
  from Suc.IH [OF ws this] have "tpad_max_loop tim n (max v res) k h1 =
      Some (fold max ws (max v res), k + of_nat (length (filter TPAD_IS_VALID_CAPTURE ws)), h')" .
  moreover have "(if v > res then v else res) = max v res" by (auto simp: max_def)
  ultimately show ?case by (simp add: v vs k_def [symmetric]) (simp add: k_def)
qed

lemma tpad_valid_capture: "TPAD_IS_VALID_CAPTURE v \<longleftrightarrow> 50 \<le> unat v \<and> unat v \<le> 2500"
  by (simp add: TPAD_IS_VALID_CAPTURE_def TPAD_TIMES_CAPTURE_LOW_def TPAD_TIMES_CAPTURE_HIGH_def word_le_nat_alt)

lemma tpad_max_value:
  assumes "tpad_captures tim 4 h = Some (vs, h')" and "length vs = 4"
  shows "tpad_get_max_value tim h =
      Some (if 2 \<le> length (filter TPAD_IS_VALID_CAPTURE vs) then fold max vs 0 else 0, h')"
proof -
  let ?n = "length (filter TPAD_IS_VALID_CAPTURE vs)"
  have "?n \<le> 4" using length_filter_le [of TPAD_IS_VALID_CAPTURE vs] assms(2) by simp
  then have "unat (of_nat ?n :: u8) = ?n" by (simp add: unat_of_nat take_bit_nat_eq_self)
  then show ?thesis
    using tpad_max_loop_captures [OF assms(1), of 0 0]
    by (simp add: tpad_get_max_value_def TPAD_CAPTURE_LOOP_TIMES_def)
qed

section \<open>Properties\<close>

definition demo_timer :: tpad_timer where
  "demo_timer = \<lparr>tim_flag = (\<lambda>h. True), tim_counter = (\<lambda>h. of_nat (min 2501 (readings h))),
                 tim_capture = (\<lambda>h. 600)\<rparr>"

lemma demo_timer_runs: "timer_runs demo_timer"
  by (simp add: timer_runs_def demo_timer_def unat_of_nat take_bit_nat_eq_self)

lemma demo_captures: "tpad_captures demo_timer n h = Some (vs, h') \<Longrightarrow> vs = replicate n 600"
proof (induction n arbitrary: h vs)
  case 0
  then show ?case by simp
next
  case (Suc n)
  have "\<exists>h1. tpad_get_value demo_timer h = Some (600, h1)"
    by (simp add: tpad_get_value_def tpad_wait.simps demo_timer_def Let_def)
  then show ?case using Suc by (auto split: option.splits)
qed

text \<open>
  C33. When the timer runs, tpad_scan_key returns: it takes four captures, keeps the largest if at
  least two lie between 50 and 2500 and zero otherwise, and reports a touch exactly when that value
  is more than four thirds of the calibrated one and less than ten times it.
\<close>

theorem tpad_scan_detects_touch:
  assumes "timer_runs tim"
  shows "\<exists>vs h v. tpad_captures tim 4 (tpad_hist w) = Some (vs, h) \<and> length vs = 4
      \<and> v = (if 2 \<le> length (filter (\<lambda>x. 50 \<le> unat x \<and> unat x \<le> 2500) vs) then Max (set vs) else 0)
      \<and> tpad_scan_key tim w =
          Some (if 4 * unat (no_push_value w) < 3 * unat v \<and> unat v < 10 * unat (no_push_value w) then 1 else 0,
                w\<lparr>current_value := v, tpad_hist := h\<rparr>)"
proof -
  obtain vs h where c: "tpad_captures tim 4 (tpad_hist w) = Some (vs, h)" and l: "length vs = 4"
    using tpad_captures_return [OF assms] by blast
  obtain x xs where x: "vs = x # xs" using l by (cases vs) auto
  have "fold max vs 0 = fold max xs x" by (simp add: x)
  then have m: "fold max vs 0 = Max (set vs)" by (simp only: x Max.set_eq_fold)
  have d: "unat n * 4 div 3 < unat v \<longleftrightarrow> 4 * unat n < 3 * unat v" for n v :: u16
    by (simp add: div_less_iff_less_mult mult.commute)
  show ?thesis
    using c l tpad_max_value [OF c l]
    by (simp add: tpad_scan_key_def TPAD_IS_VALID_PUSH_KEY_def m d tpad_valid_capture [abs_def] mult.commute)
qed

theorem tpad_scan_detects_touch_witness:
  "\<exists>w'. tpad_scan_key demo_timer \<lparr>no_push_value = 200, current_value = 0, tpad_hist = []\<rparr> = Some (1, w')"
proof -
  from tpad_scan_detects_touch [OF demo_timer_runs, of "\<lparr>no_push_value = 200, current_value = 0, tpad_hist = []\<rparr>"]
  show ?thesis
    by (auto dest!: demo_captures)
qed

text \<open>
  When the timer runs, calibration takes ten samples and sets the reference to the average of
  the eight largest, as long as their sum fits 16 bits: the sort by the C comparison function agrees
  with the sorted list of their values.
\<close>

lemma tpad_calibrates:
  assumes "timer_runs tim"
  shows "\<exists>buf h w'. tpad_sample tim 10 (snd (tpad_hardware_init (tpad_hist w))) = Some (buf, h) \<and> length buf = 10
      \<and> tpad_driver_init tim w = Some (pdPASS, w')
      \<and> (sum_list (take 8 (rev (sort (map unat buf)))) < 65536 \<longrightarrow>
           unat (tpad_get_no_push_val w') = sum_list (take 8 (rev (sort (map unat buf)))) div 8)"
proof -
  obtain buf h where c: "tpad_sample tim 10 (snd (tpad_hardware_init (tpad_hist w))) = Some (buf, h)" and l: "length buf = 10"
    using tpad_sample_return [OF assms] by blast
  have s: "map unat (take 8 (qsort comp buf)) = take 8 (rev (sort (map unat buf)))"
    using ordered_comp_unique [OF ordered_qsort mset_qsort, of buf] by (simp only: take_map [symmetric])
  have n: "length (qsort comp buf) = 10" using l mset_eq_length [OF mset_qsort, of comp buf] by simp
  show ?thesis
    using c l n avg_value [of 8 "qsort comp buf"]
    by (simp add: tpad_driver_init_def tpad_hardware_init_def tpad_get_no_push_val_def TPAD_INIT_CHECK_TIMES_def s)
qed

end
