(* ===== verification/Can.thy ===== *)
theory Can
  imports Gpio Polling Circular_Buffer
begin

text \<open>
  The CAN driver (\<^verbatim>\<open>Drivers/Src/drv_can.c\<close>): a frame is sent after a wait for the transmit
  mailboxes; the receive interrupt drains the controller's FIFO into a ring buffer. The frames waiting
  in the controller, the number of free mailboxes and the results of the HAL are parameters. The HAL
  copies eight data bytes of a received frame and reports the length code of the frame as it came.
\<close>

section \<open>State\<close>

record CAN_TxHeaderTypeDef =
  StdId :: u32
  ExtId :: u32
  IDE_ext :: bool
  RTR_remote :: bool
  DLC :: u32

record CAN_FilterTypeDef =
  FilterBank :: nat
  FilterScale16 :: bool
  FilterIdMask :: bool
  FilterIdLow :: u32
  FilterMaskIdLow :: u32
  FilterIdHigh :: u32
  FilterMaskIdHigh :: u32
  FilterFIFOAssignment :: nat
  FilterActivation :: bool
  SlaveStartFilterBank :: nat

record CAN_InitTypeDef =
  Prescaler :: nat
  Loopback :: bool
  SyncJumpWidth :: nat
  TimeSeg1 :: nat
  TimeSeg2 :: nat
  TimeTriggeredMode :: bool
  AutoBusOff :: bool
  AutoWakeUp :: bool
  AutoRetransmission :: bool
  ReceiveFifoLocked :: bool
  TransmitFifoPriority :: bool

datatype can_event =
    Can_Gpio hw_event
  | Can_Init CAN_InitTypeDef
  | Can_Filter CAN_FilterTypeDef
  | Can_Notify
  | Can_Start
  | Can_GetFreeLevel
  | Can_Delay u32
  | Can_AddTx CAN_TxHeaderTypeDef "u8 list"

type_synonym can_history = "can_event list"

record can_world =
  CanRxBufferInfo :: CircularBuffer
  can_tx_header :: CAN_TxHeaderTypeDef
  can_rx_msg :: "u8 list"
  can_hist :: can_history

text \<open>A received frame: its length code and the eight bytes of its data registers.\<close>

record can_frame =
  rx_dlc :: u32
  rx_data :: "u8 list"

definition CAN_BUFFER_SIZE :: u32 where "CAN_BUFFER_SIZE = 256"

text \<open>A bit of the HAL's headers.\<close>

definition CAN_IT_RX_FIFO0_MSG_PENDING :: u32 where "CAN_IT_RX_FIFO0_MSG_PENDING = 2"

section \<open>Operations\<close>

text \<open>The results of the HAL are those of the initialisation, of the filter and of the notification.\<close>

definition drv_can_init ::
  "HAL_StatusTypeDef \<Rightarrow> HAL_StatusTypeDef \<Rightarrow> HAL_StatusTypeDef \<Rightarrow> u8 list \<Rightarrow> can_world \<Rightarrow> BaseType_t \<times> can_world" where
  "drv_can_init ini flt ntf can_rx_buffer w =
     (let h = can_hist w;
          g = gpio_init0\<lparr>Pin := GPIO_PIN_11 OR GPIO_PIN_12, Mode := GPIO_MODE_AF_PP, Pull := GPIO_NOPULL,
                Speed := GPIO_SPEED_FREQ_VERY_HIGH, Alternate := 9\<rparr>;
          h = Can_Gpio (PeriphClock RCC_CAN1) # h;
          h = Can_Gpio (ClockEnable GPIOA) # h;
          h = Can_Gpio (InitPin GPIOA g) # h;
          h = Can_Init \<lparr>Prescaler = 16, Loopback = True, SyncJumpWidth = 2, TimeSeg1 = 3, TimeSeg2 = 3,
                TimeTriggeredMode = False, AutoBusOff = True, AutoWakeUp = False, AutoRetransmission = False,
                ReceiveFifoLocked = False, TransmitFifoPriority = False\<rparr> # h
      in if ini \<noteq> HAL_OK then (pdFAIL, w\<lparr>can_hist := h\<rparr>)
         else (let h = Can_Filter \<lparr>FilterBank = 0, FilterScale16 = True, FilterIdMask = True, FilterIdLow = 0,
                          FilterMaskIdLow = 0, FilterIdHigh = 0, FilterMaskIdHigh = 0, FilterFIFOAssignment = 0,
                          FilterActivation = True, SlaveStartFilterBank = 14\<rparr> # h
               in if flt \<noteq> HAL_OK then (pdFAIL, w\<lparr>can_hist := h\<rparr>)
                  else (let h = Can_Notify # h
                        in if ntf \<noteq> HAL_OK then (pdFAIL, w\<lparr>can_hist := h\<rparr>)
                           else (let h = Can_Gpio (SetPriority CAN1_RX0_IRQn 1 2) # h;
                                     h = Can_Gpio (EnableIRQ CAN1_RX0_IRQn) # h
                                 in (pdPASS, w\<lparr>CanRxBufferInfo := CircularBufferInit CAN_BUFFER_SIZE can_rx_buffer,
                                                 can_hist := Can_Start # h\<rparr>)))))"

text \<open>
  The wait loop of \<^verbatim>\<open>can_driver_write\<close>; \<open>free\<close> is the number of free mailboxes (0 to 3) the
  controller reports. It waits while all three are free.
\<close>

function can_wait :: "(can_history \<Rightarrow> nat) \<Rightarrow> u8 \<Rightarrow> can_history \<Rightarrow> bool \<times> can_history" where
  "can_wait free err_times h =
     (let level = free h; h = Can_GetFreeLevel # h
      in if level = 3
         then (let h = Can_Delay 1 # h; err_times = err_times + 1
               in if err_times > 100 then (False, h) else can_wait free err_times h)
         else (True, h))"
  by auto

termination
  by (relation "measure (\<lambda>(free, n, h). unat (100 - n))")
    (simp, simp only: in_measure prod.case, rule tries_left_less', simp_all)

declare can_wait.simps [simp del]

definition can_driver_write ::
  "(can_history \<Rightarrow> nat) \<Rightarrow> u8 list \<Rightarrow> u8 \<Rightarrow> can_world \<Rightarrow> BaseType_t \<times> can_world" where
  "can_driver_write free msg n w =
     (let t = \<lparr>StdId = 0x12, ExtId = 0, IDE_ext = False, RTR_remote = False, DLC = ucast n\<rparr>;
          (ok, h) = can_wait free 0 (can_hist w);
          w = w\<lparr>can_tx_header := t\<rparr>
      in if \<not> ok then (pdFAIL, w\<lparr>can_hist := h\<rparr>)
         else (pdPASS, w\<lparr>can_hist := Can_AddTx t msg # h\<rparr>))"

text \<open>The bytes of one frame, as far as the length code says; \<open>None\<close> is a read behind the eight-byte array.\<close>

fun can_rx_copy :: "u8 list \<Rightarrow> nat list \<Rightarrow> CircularBuffer \<Rightarrow> CircularBuffer option" where
  "can_rx_copy msg [] cb = Some cb"
| "can_rx_copy msg (i # is) cb =
     (if i < length msg then can_rx_copy msg is (CircularBufferPut (msg ! i) cb) else None)"

fun can_rx_loop :: "can_frame list \<Rightarrow> can_world \<Rightarrow> can_world option" where
  "can_rx_loop [] w = Some w"
| "can_rx_loop (f # fs) w =
     (let w = w\<lparr>can_rx_msg := rx_data f\<rparr>
      in case can_rx_copy (can_rx_msg w) [0..<unat (rx_dlc f)] (CanRxBufferInfo w) of
           None \<Rightarrow> None
         | Some cb \<Rightarrow> can_rx_loop fs (w\<lparr>CanRxBufferInfo := cb\<rparr>))"

text \<open>The handler, with the interrupt-enable register and the frames waiting in the FIFO.\<close>

definition CAN1_RX0_IRQHandler :: "u32 \<Rightarrow> can_frame list \<Rightarrow> can_world \<Rightarrow> can_world option" where
  "CAN1_RX0_IRQHandler interrupts frames w =
     (if interrupts AND CAN_IT_RX_FIFO0_MSG_PENDING \<noteq> 0 then can_rx_loop frames w else Some w)"

section \<open>Sending\<close>

interpretation can_waiting: bounded_poll "\<lambda>h. (free h \<noteq> 3, Can_GetFreeLevel # h)" "(#) (Can_Delay 1)" "(#) (Can_Delay 1)"
    "can_wait free" "\<lambda>n. 101 - unat n" "\<lambda>n. n + 1"
  for free
proof
  fix n :: u8 and h
  assume l: "0 < 101 - unat n"
  then have n: "unat (n + 1) = Suc (unat n)" by (intro unat_add_one_less [of n 101]) (simp add: word_less_unat)
  then have "n + 1 > 100 \<longleftrightarrow> 101 - unat n = 1"
    using l by (simp add: word_less_unat) linarith
  then show "can_wait free n h =
      (if fst (free h \<noteq> 3, Can_GetFreeLevel # h) then (True, snd (free h \<noteq> 3, Can_GetFreeLevel # h))
       else if 101 - unat n = 1 then (False, Can_Delay 1 # snd (free h \<noteq> 3, Can_GetFreeLevel # h))
       else can_wait free (n + 1) (Can_Delay 1 # snd (free h \<noteq> 3, Can_GetFreeLevel # h)))"
    by (subst can_wait.simps) (simp add: Let_def)
next
  fix n :: u8
  assume "1 < 101 - unat n"
  then have "unat (n + 1) = Suc (unat n)" by (intro unat_add_one_less [of n 101]) (simp add: word_less_unat)
  then show "101 - unat (n + 1) = 101 - unat n - 1" by simp
qed

lemma can_wait_search:
  "can_wait free 0 h =
     poll_search (\<lambda>h. (free h \<noteq> 3, Can_GetFreeLevel # h)) ((#) (Can_Delay 1)) ((#) (Can_Delay 1)) 101 h"
  using can_waiting.loop_search [of 0 free h] by simp

text \<open>An idle controller refuses every frame.\<close>

lemma can_write_idle_fails:
  assumes "\<And>h. free h = 3"
  shows "fst (can_driver_write free msg n w) = pdFAIL
    \<and> (\<forall>t m. Can_AddTx t m \<in> set (can_hist (snd (can_driver_write free msg n w))) \<longrightarrow> Can_AddTx t m \<in> set (can_hist w))"
proof -
  let ?c = "\<lambda>h. (free h \<noteq> 3, Can_GetFreeLevel # h)"
  have "\<not> fst (can_wait free 0 (can_hist w))"
    unfolding can_wait_search by (subst poll_search_never) (simp_all add: assms)
  moreover have "\<forall>t m. Can_AddTx t m \<in> set (snd (can_wait free 0 (can_hist w))) \<longrightarrow> Can_AddTx t m \<in> set (can_hist w)"
    unfolding can_wait_search
    by (rule poll_search_inv [where I = "\<lambda>h. \<forall>t m. Can_AddTx t m \<in> set h \<longrightarrow> Can_AddTx t m \<in> set (can_hist w)"]) auto
  ultimately show ?thesis by (simp add: can_driver_write_def Let_def split_def)
qed

lemma can_write_busy_sends:
  assumes "free (can_hist w) \<noteq> 3"
  shows "can_driver_write free msg n w =
      (let t = \<lparr>StdId = 0x12, ExtId = 0, IDE_ext = False, RTR_remote = False, DLC = ucast n\<rparr>
       in (pdPASS, w\<lparr>can_tx_header := t, can_hist := Can_AddTx t msg # Can_GetFreeLevel # can_hist w\<rparr>))"
  using assms by (simp add: can_driver_write_def can_wait.simps [of free 0] Let_def)

section \<open>Receiving\<close>

lemma can_rx_copy_fold:
  "can_rx_copy msg is cb =
     (if \<forall>i\<in>set is. i < length msg then Some (fold CircularBufferPut (map (\<lambda>i. msg ! i) is) cb) else None)"
  by (induction "is" arbitrary: cb) auto

lemma can_rx_copy_upt:
  "can_rx_copy msg [0..<n] cb = (if n \<le> length msg then Some (fold CircularBufferPut (take n msg) cb) else None)"
proof (cases "n \<le> length msg")
  case True
  then show ?thesis by (simp add: can_rx_copy_fold map_nth_upt_take)
next
  case False
  then have "\<not> (\<forall>i\<in>set [0..<n]. i < length msg)" by (auto intro!: bexI [of _ "length msg"])
  then show ?thesis using False by (simp add: can_rx_copy_fold)
qed

text \<open>The data bytes of a frame, in the sense of its length code.\<close>

definition frame_bytes :: "can_frame \<Rightarrow> u8 list" where
  "frame_bytes f = take (unat (rx_dlc f)) (rx_data f)"

lemma can_rx_loop_puts:
  assumes "\<forall>f\<in>set fs. unat (rx_dlc f) \<le> length (rx_data f)"
  shows "\<exists>msg. can_rx_loop fs w =
      Some (w\<lparr>can_rx_msg := msg,
              CanRxBufferInfo := fold CircularBufferPut (concat (map frame_bytes fs)) (CanRxBufferInfo w)\<rparr>)"
  using assms
proof (induction fs arbitrary: w)
  case Nil
  show ?case by (rule exI [of _ "can_rx_msg w"]) simp
next
  case (Cons f fs)
  let ?w = "w\<lparr>can_rx_msg := rx_data f, CanRxBufferInfo := fold CircularBufferPut (frame_bytes f) (CanRxBufferInfo w)\<rparr>"
  have "can_rx_loop (f # fs) w = can_rx_loop fs ?w"
    using Cons.prems by (simp add: can_rx_copy_upt frame_bytes_def Let_def)
  then show ?case using Cons.IH [of ?w] Cons.prems by auto
qed

text \<open>
  A length code above 8, which the CAN standard allows on the wire, makes the handler read behind its
  array.
\<close>

lemma can_long_frame_faults:
  assumes "f \<in> set fs" and "length (rx_data f) < unat (rx_dlc f)"
  shows "can_rx_loop fs w = None"
  using assms
proof (induction fs arbitrary: w)
  case Nil
  then show ?case by simp
next
  case (Cons g fs)
  then show ?case
    by (cases "g = f") (auto simp: can_rx_copy_upt Let_def split: option.split)
qed

text \<open>
  C30. When frames of at most eight bytes wait in the controller and the receive interrupt is
  enabled, the handler never reads outside its array, keeps the ring buffer well formed and appends
  the frames' bytes in order as far as they fit.
\<close>

theorem can_receive_queues_frames:
  assumes "cb_inv (CanRxBufferInfo w)" and "\<forall>f\<in>set frames. unat (rx_dlc f) \<le> length (rx_data f)"
    and "interrupts AND CAN_IT_RX_FIFO0_MSG_PENDING \<noteq> 0"
  shows "\<exists>w'. CAN1_RX0_IRQHandler interrupts frames w = Some w' \<and> cb_inv (CanRxBufferInfo w')
      \<and> cb_list (CanRxBufferInfo w') =
          take (cb_cap (CanRxBufferInfo w)) (cb_list (CanRxBufferInfo w) @ concat (map frame_bytes frames))"
proof -
  obtain msg where "can_rx_loop frames w =
      Some (w\<lparr>can_rx_msg := msg,
              CanRxBufferInfo := fold CircularBufferPut (concat (map frame_bytes frames)) (CanRxBufferInfo w)\<rparr>)"
    using can_rx_loop_puts [OF assms(2)] by blast
  then show ?thesis
    using assms(3) cbq.puts_take [OF assms(1)] cbq.puts_inv [OF assms(1)]
    by (simp add: CAN1_RX0_IRQHandler_def)
qed

definition demo_can :: can_world where
  "demo_can = \<lparr>CanRxBufferInfo = CircularBufferInit 4 [0, 0, 0, 0],
     can_tx_header = \<lparr>StdId = 0, ExtId = 0, IDE_ext = False, RTR_remote = False, DLC = 0\<rparr>,
     can_rx_msg = replicate 8 0, can_hist = []\<rparr>"

theorem can_receive_queues_frames_witness:
  "\<exists>w'. CAN1_RX0_IRQHandler 2
        [\<lparr>rx_dlc = 2, rx_data = [1, 2, 3, 4, 5, 6, 7, 8]\<rparr>, \<lparr>rx_dlc = 3, rx_data = [9, 8, 7, 6, 5, 4, 3, 2]\<rparr>] demo_can = Some w'
      \<and> cb_list (CanRxBufferInfo w') = [1, 2, 9, 8]"
proof -
  have "cb_inv (CanRxBufferInfo demo_can)"
    unfolding demo_can_def can_world.simps by (rule cb_inv_init) simp_all
  from can_receive_queues_frames [OF this, of
      "[\<lparr>rx_dlc = 2, rx_data = [1, 2, 3, 4, 5, 6, 7, 8]\<rparr>, \<lparr>rx_dlc = 3, rx_data = [9, 8, 7, 6, 5, 4, 3, 2]\<rparr>]" 2]
  show ?thesis
    by (auto simp: CAN_IT_RX_FIFO0_MSG_PENDING_def frame_bytes_def demo_can_def CircularBufferInit_def cb_list_def cb_cap_def)
qed

end
