(* ===== verification/Transfers.thy ===== *)
theory Transfers
  imports Peripheral Polling
begin

text \<open>
  The two drivers that start a transfer and poll for its end: the memory-to-memory DMA with its
  self-test (\<^verbatim>\<open>Drivers/Src/drv_dma.c\<close>) and the SD card (\<^verbatim>\<open>Drivers/Src/drv_sdio_dma.c\<close>). The flags and
  states they poll are parameters that may depend on everything done before. The log messages are left out.
\<close>

section \<open>Memory-to-memory DMA\<close>

datatype dma_event =
    Dma_Clock rcc_periph
  | Dma_Init dma_stream DMA_InitTypeDef
  | Dma_Start u32 u32 u32
  | Dma_GetFlag
  | Dma_ClearFlag
  | Dma_Delay u16

type_synonym dma_history = "dma_event list"

definition DMA_DST_SIZE :: u32 where "DMA_DST_SIZE = 256"
definition DMA_SRC_ADDRESS :: u32 where "DMA_SRC_ADDRESS = 0x8000000"

text \<open>\<open>start\<close> is the HAL's answer to the request.\<close>

definition dma_translate ::
  "HAL_StatusTypeDef \<Rightarrow> u32 \<Rightarrow> u32 \<Rightarrow> u32 \<Rightarrow> dma_history \<Rightarrow> BaseType_t \<times> dma_history" where
  "dma_translate start SrcAddress DstAddress DataLength h =
     (if start \<noteq> HAL_OK then pdFAIL else pdPASS, Dma_Start SrcAddress DstAddress DataLength # h)"

text \<open>The loop of \<^verbatim>\<open>dma_check_finish\<close>: the value of its index when it ends.\<close>

function dma_wait :: "(dma_history \<Rightarrow> bool) \<Rightarrow> u32 \<Rightarrow> u32 \<Rightarrow> dma_history \<Rightarrow> u32 \<times> dma_history" where
  "dma_wait flag timeout_ms index h =
     (let set = flag h; h = Dma_GetFlag # h
      in if set then (index, h)
         else (let index = index + 1
               in if index \<ge> timeout_ms then (index, h)
                  else dma_wait flag timeout_ms index (Dma_Delay (ucast timeout_ms) # h)))"
  by auto

termination
  by (relation "measure (\<lambda>(flag, timeout, n, h). unat (timeout - 1 - n))")
    (simp, simp only: in_measure prod.case, rule tries_left_less, simp)

declare dma_wait.simps [simp del]

definition dma_check_finish ::
  "(dma_history \<Rightarrow> bool) \<Rightarrow> u32 \<Rightarrow> dma_history \<Rightarrow> BaseType_t \<times> dma_history" where
  "dma_check_finish flag timeout_ms h =
     (if timeout_ms = 0 then (if flag h then pdPASS else pdFAIL, Dma_GetFlag # h)
      else (let (index, h) = dma_wait flag timeout_ms 0 h
            in (if index < timeout_ms then pdPASS else pdFAIL, h)))"

text \<open>
  The self-test; \<open>memory\<close> is the memory as the finished transfers of the history have left it, and
  \<open>dma_dst\<close> the address of the destination array.
\<close>

definition dma_memory_run ::
  "(dma_history \<Rightarrow> bool) \<Rightarrow> HAL_StatusTypeDef \<Rightarrow> (dma_history \<Rightarrow> u32 \<Rightarrow> u8) \<Rightarrow> u32 \<Rightarrow> dma_history
     \<Rightarrow> BaseType_t \<times> dma_history" where
  "dma_memory_run flag start memory dma_dst h =
     (let (_, h) = dma_translate start DMA_SRC_ADDRESS dma_dst DMA_DST_SIZE h;
          (r, h) = dma_check_finish flag 100 h
      in if r = pdPASS
         then (let h = Dma_ClearFlag # h
               in (if \<forall>i\<in>set [0..<unat DMA_DST_SIZE].
                        memory h (DMA_SRC_ADDRESS + of_nat i) = memory h (dma_dst + of_nat i)
                   then pdPASS else pdFAIL, h))
         else (pdFAIL, h))"

definition hdma_memtomem_init :: DMA_InitTypeDef where
  "hdma_memtomem_init = \<lparr>dma_Channel = 0, dma_Direction = DMA_MEMORY_TO_MEMORY, dma_PeriphInc = True,
     dma_MemInc = True, dma_PeriphDataAlignment = DMA_DATAALIGN_BYTE, dma_MemDataAlignment = DMA_DATAALIGN_BYTE,
     dma_Mode = DMA_NORMAL, dma_Priority = DMA_PRIORITY_MEDIUM, dma_FIFOMode = True,
     dma_FIFOThreshold = DMA_FIFO_THRESHOLD_FULL, dma_MemBurst = DMA_BURST_SINGLE,
     dma_PeriphBurst = DMA_BURST_SINGLE\<rparr>"

definition dma_driver_init ::
  "HAL_StatusTypeDef \<Rightarrow> (dma_history \<Rightarrow> bool) \<Rightarrow> HAL_StatusTypeDef \<Rightarrow> (dma_history \<Rightarrow> u32 \<Rightarrow> u8) \<Rightarrow> u32
     \<Rightarrow> dma_history \<Rightarrow> BaseType_t \<times> dma_history" where
  "dma_driver_init ini flag start memory dma_dst h =
     (let h = Dma_Clock RCC_DMA2 # h;
          h = Dma_Init DMA2_Stream1 hdma_memtomem_init # h
      in if ini \<noteq> HAL_OK then (pdFAIL, h) else dma_memory_run flag start memory dma_dst h)"

abbreviation dma_poll :: "(dma_history \<Rightarrow> bool) \<Rightarrow> dma_history \<Rightarrow> bool \<times> dma_history" where
  "dma_poll flag \<equiv> \<lambda>h. (flag h, Dma_GetFlag # h)"

interpretation dma_waiting: bounded_poll "dma_poll flag" "(#) (Dma_Delay (ucast timeout))" id
    "\<lambda>n h. map_prod (\<lambda>i. i < timeout) id (dma_wait flag timeout n h)"
    "\<lambda>n. unat timeout - unat n" "\<lambda>n. n + 1"
  for flag timeout
proof
  fix n :: u32 and h
  assume l: "0 < unat timeout - unat n"
  then have n: "unat (n + 1) = Suc (unat n)" by (intro unat_add_one_less [of n timeout]) (simp add: word_less_unat)
  then have "timeout \<le> n + 1 \<longleftrightarrow> unat timeout - unat n = 1"
    using l by (simp add: word_le_nat_alt) linarith
  then show "map_prod (\<lambda>i. i < timeout) id (dma_wait flag timeout n h) =
      (if fst (flag h, Dma_GetFlag # h) then (True, snd (flag h, Dma_GetFlag # h))
       else if unat timeout - unat n = 1 then (False, id (snd (flag h, Dma_GetFlag # h)))
       else map_prod (\<lambda>i. i < timeout) id (dma_wait flag timeout (n + 1) (Dma_Delay (ucast timeout) # snd (flag h, Dma_GetFlag # h))))"
    using l by (subst dma_wait.simps) (auto simp: Let_def word_less_unat word_le_nat_alt n)
next
  fix n :: u32
  assume "1 < unat timeout - unat n"
  then have "unat (n + 1) = Suc (unat n)" by (intro unat_add_one_less [of n timeout]) (simp add: word_less_unat)
  then show "unat timeout - unat (n + 1) = unat timeout - unat n - 1" by simp
qed

text \<open>The check reads the flag at least once and at most \<open>timeout_ms\<close> times.\<close>

lemma dma_check_finish_search:
  "dma_check_finish flag timeout h =
     map_prod (\<lambda>ok. if ok then pdPASS else pdFAIL) id
       (poll_search (dma_poll flag) ((#) (Dma_Delay (ucast timeout))) id (max 1 (unat timeout)) h)"
proof (cases "timeout = 0")
  case True
  then show ?thesis by (simp add: dma_check_finish_def poll_search_def)
next
  case False
  then have "0 < unat timeout" by (simp add: unat_gt_0)
  then have "map_prod (\<lambda>i. i < timeout) id (dma_wait flag timeout 0 h) =
      poll_search (dma_poll flag) ((#) (Dma_Delay (ucast timeout))) id (unat timeout) h"
    using dma_waiting.loop_search [of timeout 0 flag h] by simp
  moreover have "max 1 (unat timeout) = unat timeout" using \<open>0 < unat timeout\<close> by simp
  ultimately have "poll_search (dma_poll flag) ((#) (Dma_Delay (ucast timeout))) id (max 1 (unat timeout)) h =
      map_prod (\<lambda>i. i < timeout) id (dma_wait flag timeout 0 h)" by simp
  then show ?thesis using False by (simp add: dma_check_finish_def split_def map_prod_def)
qed

text \<open>
  The milliseconds waited: every pause is as long as the whole timeout (as far as the 16 bits of
  \<^verbatim>\<open>delay_ms\<close> go), so they add up to its square.
\<close>

fun dma_waited :: "dma_history \<Rightarrow> nat" where
  "dma_waited [] = 0"
| "dma_waited (Dma_Delay t # h) = unat t + dma_waited h"
| "dma_waited (_ # h) = dma_waited h"

lemma dma_waited_polls:
  "dma_waited (poll_at (dma_poll flag) ((#) (Dma_Delay t)) i h) = i * unat t + dma_waited h"
  by (induction i) (simp_all add: poll_at_Suc_outer)

lemma dma_check_finish_waits:
  assumes "\<And>h. \<not> flag h" and "0 < unat t"
  shows "fst (dma_check_finish flag t h) = pdFAIL"
    and "dma_waited (snd (dma_check_finish flag t h)) = (unat t - 1) * unat (ucast t :: u16) + dma_waited h"
proof -
  have "max 1 (unat t) = unat t" using assms(2) by simp
  then have "dma_check_finish flag t h =
      (pdFAIL, Dma_GetFlag # poll_at (dma_poll flag) ((#) (Dma_Delay (ucast t))) (unat t - 1) h)"
    unfolding dma_check_finish_search by (subst poll_search_never) (simp_all add: assms(1))
  then show "fst (dma_check_finish flag t h) = pdFAIL"
    and "dma_waited (snd (dma_check_finish flag t h)) = (unat t - 1) * unat (ucast t :: u16) + dma_waited h"
    by (simp_all add: dma_waited_polls)
qed

section \<open>The SD card\<close>

record SD_InitTypeDef =
  sd_ClockEdge_Rising :: bool
  sd_ClockBypass :: bool
  sd_ClockPowerSave :: bool
  sd_BusWide :: nat
  sd_HardwareFlowControl :: bool
  sd_ClockDiv :: nat

datatype sd_event =
    Sd_Gpio hw_event
  | Sd_Init SD_InitTypeDef
  | Sd_WideBus nat
  | Sd_DmaInit dma_stream DMA_InitTypeDef
  | Sd_ReadBlocks u32 u32 u32
  | Sd_WriteBlocks u32 u32 u32
  | Sd_GetState
  | Sd_Delay u32
  | Sd_SetReady
  | Sd_Abort bool
  | Sd_Unlock bool
  | Sd_DmaReady bool
  | Sd_EnterCritical
  | Sd_ExitCritical
  | Sd_ReadBlocks_Poll u32 u32 u32 u32
  | Sd_WriteBlocks_Poll u32 u32 u32 u32

type_synonym sd_history = "sd_event list"

definition SDMMC_READ_WRITE_TIMEOUT :: u16 where "SDMMC_READ_WRITE_TIMEOUT = 10000"

text \<open>
  The waiting loop of both functions, which ends with the value of \<open>tick\<close>; \<open>transfer\<close> says whether
  the card is in its transfer state.
\<close>

lemma sd_tries_left_less:
  fixes n :: u16
  assumes "n < SDMMC_READ_WRITE_TIMEOUT"
  shows "10000 - unat (n + 1) < 10000 - unat n"
  using assms unat_add_one_less [OF assms] by (simp add: SDMMC_READ_WRITE_TIMEOUT_def word_less_unat)

function sd_wait :: "(sd_history \<Rightarrow> bool) \<Rightarrow> u16 \<Rightarrow> sd_history \<Rightarrow> u16 \<times> sd_history" where
  "sd_wait transfer tick h =
     (let ready = transfer h; h = Sd_GetState # h
      in if \<not> ready \<and> tick < SDMMC_READ_WRITE_TIMEOUT then sd_wait transfer (tick + 1) (Sd_Delay 1 # h)
         else (tick, h))"
  by auto

termination
  by (relation "measure (\<lambda>(transfer, n, h). 10000 - unat n)")
    (simp, simp only: in_measure prod.case, rule sd_tries_left_less, simp)

declare sd_wait.simps [simp del]

text \<open>What both functions do after the wait, for the receiving or the transmitting stream.\<close>

definition sd_finish :: "bool \<Rightarrow> sd_history \<Rightarrow> sd_history" where
  "sd_finish rx h =
     (let h = Sd_SetReady # h;
          h = Sd_Abort rx # h;
          h = Sd_Unlock rx # h
      in Sd_DmaReady rx # h)"

text \<open>\<open>start\<close> is the HAL's answer to the request.\<close>

definition sdcard_read_disk ::
  "HAL_StatusTypeDef \<Rightarrow> (sd_history \<Rightarrow> bool) \<Rightarrow> u32 \<Rightarrow> u32 \<Rightarrow> u32 \<Rightarrow> sd_history \<Rightarrow> HAL_StatusTypeDef \<times> sd_history" where
  "sdcard_read_disk start transfer buf startBlocks NumberOfBlocks h =
     (let status = start; h = Sd_ReadBlocks buf startBlocks NumberOfBlocks # h;
          (status, h) =
            (if status = HAL_OK
             then (let (tick, h) = sd_wait transfer 0 h
                   in (if tick \<ge> SDMMC_READ_WRITE_TIMEOUT then HAL_TIMEOUT else status, h))
             else (status, h))
      in (status, sd_finish True h))"

definition sdcard_write_disk ::
  "HAL_StatusTypeDef \<Rightarrow> (sd_history \<Rightarrow> bool) \<Rightarrow> u32 \<Rightarrow> u32 \<Rightarrow> u32 \<Rightarrow> sd_history \<Rightarrow> HAL_StatusTypeDef \<times> sd_history" where
  "sdcard_write_disk start transfer buf startBlocks NumberOfBlocks h =
     (let status = start; h = Sd_WriteBlocks buf startBlocks NumberOfBlocks # h;
          (status, h) =
            (if status = HAL_OK
             then (let (tick, h) = sd_wait transfer 0 h
                   in (if tick \<ge> SDMMC_READ_WRITE_TIMEOUT then HAL_TIMEOUT else status, h))
             else (status, h))
      in (status, sd_finish False h))"

text \<open>
  Initialisation; the HAL's four results are parameters. The self-test of \<^verbatim>\<open>drv_sdio.c\<close>, switched off
  by the configuration, changes nothing and its result is not used.
\<close>

definition SDMMC_CLOCK_DIV :: nat where "SDMMC_CLOCK_DIV = 2"

definition sdcard_driver_test :: BaseType_t where "sdcard_driver_test = pdPASS"

definition hdma_sdio_init :: "dma_direction \<Rightarrow> DMA_InitTypeDef" where
  "hdma_sdio_init dir = \<lparr>dma_Channel = 4, dma_Direction = dir, dma_PeriphInc = False, dma_MemInc = True,
     dma_PeriphDataAlignment = DMA_DATAALIGN_WORD, dma_MemDataAlignment = DMA_DATAALIGN_WORD,
     dma_Mode = DMA_PFCTRL, dma_Priority = DMA_PRIORITY_HIGH, dma_FIFOMode = True,
     dma_FIFOThreshold = DMA_FIFO_THRESHOLD_FULL, dma_MemBurst = DMA_BURST_INC4, dma_PeriphBurst = DMA_BURST_INC4\<rparr>"

definition sdcard_driver_init ::
  "HAL_StatusTypeDef \<Rightarrow> HAL_StatusTypeDef \<Rightarrow> HAL_StatusTypeDef \<Rightarrow> HAL_StatusTypeDef \<Rightarrow> sd_history
     \<Rightarrow> BaseType_t \<times> sd_history" where
  "sdcard_driver_init sd wide rx tx h =
     (let h = Sd_Gpio (PeriphClock RCC_SDIO) # h;
          h = Sd_Gpio (ClockEnable GPIOC) # h;
          h = Sd_Gpio (ClockEnable GPIOD) # h;
          h = Sd_Gpio (PeriphClock RCC_DMA2) # h;
          g = gpio_init0\<lparr>Pin := GPIO_PIN_8 OR GPIO_PIN_9 OR GPIO_PIN_10 OR GPIO_PIN_11 OR GPIO_PIN_12,
                Mode := GPIO_MODE_AF_PP, Pull := GPIO_PULLUP, Speed := GPIO_SPEED_FREQ_HIGH, Alternate := 12\<rparr>;
          h = Sd_Gpio (InitPin GPIOC g) # h;
          g = g\<lparr>Pin := GPIO_PIN_2\<rparr>;
          h = Sd_Gpio (InitPin GPIOD g) # h;
          h = Sd_Init \<lparr>sd_ClockEdge_Rising = True, sd_ClockBypass = False, sd_ClockPowerSave = False,
                sd_BusWide = 1, sd_HardwareFlowControl = False, sd_ClockDiv = SDMMC_CLOCK_DIV\<rparr> # h
      in if sd \<noteq> HAL_OK then (pdFAIL, h)
         else (let h = Sd_WideBus 4 # h
               in if wide \<noteq> HAL_OK then (pdFAIL, h)
                  else (let h = Sd_DmaInit DMA2_Stream6 (hdma_sdio_init DMA_PERIPH_TO_MEMORY) # h
                        in if rx \<noteq> HAL_OK then (pdFAIL, h)
                           else (let h = Sd_DmaInit DMA2_Stream3 (hdma_sdio_init DMA_MEMORY_TO_PERIPH) # h
                                 in if tx \<noteq> HAL_OK then (pdFAIL, h)
                                    else (let _ = sdcard_driver_test in (pdPASS, h))))))"

lemma sdcard_init_result:
  "fst (sdcard_driver_init sd wide rx tx h) =
     (if sd = HAL_OK \<and> wide = HAL_OK \<and> rx = HAL_OK \<and> tx = HAL_OK then pdPASS else pdFAIL)"
  by (simp add: sdcard_driver_init_def Let_def)

abbreviation sd_poll :: "(sd_history \<Rightarrow> bool) \<Rightarrow> sd_history \<Rightarrow> bool \<times> sd_history" where
  "sd_poll transfer \<equiv> \<lambda>h. (transfer h, Sd_GetState # h)"

interpretation sd_waiting: bounded_poll "sd_poll transfer" "(#) (Sd_Delay 1)" "\<lambda>h. Sd_GetState # Sd_Delay 1 # h"
    "\<lambda>n h. map_prod (\<lambda>i. i < SDMMC_READ_WRITE_TIMEOUT) id (sd_wait transfer n h)"
    "\<lambda>n. 10000 - unat n" "\<lambda>n. n + 1"
  for transfer
proof
  fix n :: u16 and h
  assume l: "0 < 10000 - unat n"
  then have lt: "n < SDMMC_READ_WRITE_TIMEOUT" by (simp add: SDMMC_READ_WRITE_TIMEOUT_def word_less_unat)
  have n: "unat (n + 1) = Suc (unat n)" using lt by (rule unat_add_one_less)
  have last: "n + 1 < SDMMC_READ_WRITE_TIMEOUT \<longleftrightarrow> 10000 - unat n \<noteq> 1"
    using l by (simp add: SDMMC_READ_WRITE_TIMEOUT_def word_less_unat n) linarith
  have "sd_wait transfer (n + 1) (Sd_Delay 1 # Sd_GetState # h) = (n + 1, Sd_GetState # Sd_Delay 1 # Sd_GetState # h)"
    if "10000 - unat n = 1"
    using that last by (subst sd_wait.simps) simp
  then show "map_prod (\<lambda>i. i < SDMMC_READ_WRITE_TIMEOUT) id (sd_wait transfer n h) =
      (if fst (transfer h, Sd_GetState # h) then (True, snd (transfer h, Sd_GetState # h))
       else if 10000 - unat n = 1 then (False, Sd_GetState # Sd_Delay 1 # snd (transfer h, Sd_GetState # h))
       else map_prod (\<lambda>i. i < SDMMC_READ_WRITE_TIMEOUT) id
              (sd_wait transfer (n + 1) (Sd_Delay 1 # snd (transfer h, Sd_GetState # h))))"
    using lt last by (subst sd_wait.simps) (auto simp: Let_def)
next
  fix n :: u16
  assume "1 < 10000 - unat n"
  then have "unat (n + 1) = Suc (unat n)" by (intro unat_add_one_less [of n 10000]) (simp add: word_less_unat)
  then show "10000 - unat (n + 1) = 10000 - unat n - 1" by simp
qed

lemma sd_wait_search:
  "map_prod (\<lambda>i. i < SDMMC_READ_WRITE_TIMEOUT) id (sd_wait transfer 0 h) =
     poll_search (sd_poll transfer) ((#) (Sd_Delay 1)) (\<lambda>h. Sd_GetState # Sd_Delay 1 # h) 10000 h"
  using sd_waiting.loop_search [of 0 transfer h] by simp

text \<open>
  A request the HAL accepts succeeds exactly when the card is in its transfer state at one of the
  first 10000 readings, a millisecond apart; a refused one reports the HAL's answer at once.
\<close>

lemma sd_disk_result:
  "fst (sdcard_read_disk start transfer buf a n h) =
     (if start \<noteq> HAL_OK then start
      else if fst (poll_search (sd_poll transfer) ((#) (Sd_Delay 1)) (\<lambda>h. Sd_GetState # Sd_Delay 1 # h) 10000
                     (Sd_ReadBlocks buf a n # h)) then HAL_OK else HAL_TIMEOUT)"
  "fst (sdcard_write_disk start transfer buf a n h) =
     (if start \<noteq> HAL_OK then start
      else if fst (poll_search (sd_poll transfer) ((#) (Sd_Delay 1)) (\<lambda>h. Sd_GetState # Sd_Delay 1 # h) 10000
                     (Sd_WriteBlocks buf a n # h)) then HAL_OK else HAL_TIMEOUT)"
  by (simp_all add: sdcard_read_disk_def sdcard_write_disk_def sd_wait_search [symmetric] Let_def split_def
      linorder_not_le [symmetric])

text \<open>Whatever happens, the card and its stream are made ready again.\<close>

lemma sd_disk_finishes:
  "\<exists>h'. snd (sdcard_read_disk start transfer buf a n h) = sd_finish True h'"
  "\<exists>h'. snd (sdcard_write_disk start transfer buf a n h) = sd_finish False h'"
  by (auto simp: sdcard_read_disk_def sdcard_write_disk_def Let_def split_def)

text \<open>
  The variant without DMA (\<^verbatim>\<open>drv_sdio.c\<close>) transfers inside a critical section and then waits for the
  card whatever the HAL has answered.
\<close>

definition sdcard_driver_init_poll ::
  "HAL_StatusTypeDef \<Rightarrow> HAL_StatusTypeDef \<Rightarrow> sd_history \<Rightarrow> BaseType_t \<times> sd_history" where
  "sdcard_driver_init_poll sd wide h =
     (let h = Sd_Gpio (PeriphClock RCC_SDIO) # h;
          h = Sd_Gpio (ClockEnable GPIOC) # h;
          h = Sd_Gpio (ClockEnable GPIOD) # h;
          g = gpio_init0\<lparr>Pin := GPIO_PIN_8 OR GPIO_PIN_9 OR GPIO_PIN_10 OR GPIO_PIN_11 OR GPIO_PIN_12,
                Mode := GPIO_MODE_AF_PP, Pull := GPIO_PULLUP, Speed := GPIO_SPEED_FREQ_HIGH, Alternate := 12\<rparr>;
          h = Sd_Gpio (InitPin GPIOC g) # h;
          g = g\<lparr>Pin := GPIO_PIN_2\<rparr>;
          h = Sd_Gpio (InitPin GPIOD g) # h;
          h = Sd_Init \<lparr>sd_ClockEdge_Rising = True, sd_ClockBypass = False, sd_ClockPowerSave = False,
                sd_BusWide = 1, sd_HardwareFlowControl = False, sd_ClockDiv = SDMMC_CLOCK_DIV\<rparr> # h
      in if sd \<noteq> HAL_OK then (pdFAIL, h)
         else (let h = Sd_WideBus 4 # h
               in if wide \<noteq> HAL_OK then (pdFAIL, h)
                  else (let _ = sdcard_driver_test in (pdPASS, h))))"

definition sdcard_read_disk_poll ::
  "HAL_StatusTypeDef \<Rightarrow> (sd_history \<Rightarrow> bool) \<Rightarrow> u32 \<Rightarrow> u32 \<Rightarrow> u32 \<Rightarrow> sd_history \<Rightarrow> HAL_StatusTypeDef \<times> sd_history" where
  "sdcard_read_disk_poll answer transfer buf startBlocks NumberOfBlocks h =
     (let h = Sd_EnterCritical # h;
          status = answer;
          h = Sd_ReadBlocks_Poll buf startBlocks NumberOfBlocks (ucast SDMMC_READ_WRITE_TIMEOUT) # h;
          h = Sd_ExitCritical # h;
          (tick, h) = sd_wait transfer 0 h
      in if tick \<ge> SDMMC_READ_WRITE_TIMEOUT then (HAL_TIMEOUT, h) else (status, h))"

definition sdcard_write_disk_poll ::
  "HAL_StatusTypeDef \<Rightarrow> (sd_history \<Rightarrow> bool) \<Rightarrow> u32 \<Rightarrow> u32 \<Rightarrow> u32 \<Rightarrow> sd_history \<Rightarrow> HAL_StatusTypeDef \<times> sd_history" where
  "sdcard_write_disk_poll answer transfer buf startBlocks NumberOfBlocks h =
     (let h = Sd_EnterCritical # h;
          status = answer;
          h = Sd_WriteBlocks_Poll buf startBlocks NumberOfBlocks (ucast SDMMC_READ_WRITE_TIMEOUT) # h;
          h = Sd_ExitCritical # h;
          (tick, h) = sd_wait transfer 0 h
      in if tick \<ge> SDMMC_READ_WRITE_TIMEOUT then (HAL_TIMEOUT, h) else (status, h))"

text \<open>
  The answer is the HAL's, unless the card is not in its transfer state at any of the first 10000
  readings.
\<close>

lemma sd_poll_result:
  "fst (sdcard_read_disk_poll answer transfer buf a n h) =
     (if fst (poll_search (sd_poll transfer) ((#) (Sd_Delay 1)) (\<lambda>h. Sd_GetState # Sd_Delay 1 # h) 10000
                (Sd_ExitCritical # Sd_ReadBlocks_Poll buf a n 10000 # Sd_EnterCritical # h))
      then answer else HAL_TIMEOUT)"
  "fst (sdcard_write_disk_poll answer transfer buf a n h) =
     (if fst (poll_search (sd_poll transfer) ((#) (Sd_Delay 1)) (\<lambda>h. Sd_GetState # Sd_Delay 1 # h) 10000
                (Sd_ExitCritical # Sd_WriteBlocks_Poll buf a n 10000 # Sd_EnterCritical # h))
      then answer else HAL_TIMEOUT)"
  by (simp_all add: sdcard_read_disk_poll_def sdcard_write_disk_poll_def sd_wait_search [symmetric] Let_def split_def
      SDMMC_READ_WRITE_TIMEOUT_def linorder_not_le [symmetric])

end
