(* ===== verification/Board.thy ===== *)
theory Board
  imports Peripheral
begin

text \<open>
  The small drivers of the board: external memory (\<^verbatim>\<open>drv_sdram.c\<close>), analog inputs
  (\<^verbatim>\<open>drv_adc_dma.c\<close>), keys and LED (\<^verbatim>\<open>drv_key.c\<close>, \<^verbatim>\<open>drv_led.c\<close>), the pulse counter
  (\<^verbatim>\<open>drv_timer.c\<close>), the delay of \<^verbatim>\<open>interface.c\<close>, and the initialisation that combines the results of
  all drivers (\<^verbatim>\<open>driver.c\<close>). What the HAL answers is a parameter.
\<close>

section \<open>External memory\<close>

datatype sdram_command =
    FMC_SDRAM_CMD_CLK_ENABLE
  | FMC_SDRAM_CMD_PALL
  | FMC_SDRAM_CMD_AUTOREFRESH_MODE
  | FMC_SDRAM_CMD_LOAD_MODE

datatype sdram_target = NO_TARGET | FMC_SDRAM_CMD_TARGET_BANK1 | FMC_SDRAM_CMD_TARGET_BANK2

record FMC_SDRAM_CommandTypeDef =
  CommandMode :: sdram_command
  CommandTarget :: sdram_target
  AutoRefreshNumber :: u8
  ModeRegisterDefinition :: u16

record FMC_SDRAM_InitTypeDef =
  SDBank :: nat
  ColumnBitsNumber :: nat
  RowBitsNumber :: nat
  MemoryDataWidth :: nat
  InternalBankNumber :: nat
  CASLatency :: nat
  WriteProtection :: bool
  SDClockPeriod :: nat
  ReadBurst :: bool
  ReadPipeDelay :: nat

record FMC_SDRAM_TimingTypeDef =
  LoadToActiveDelay :: nat
  ExitSelfRefreshDelay :: nat
  SelfRefreshTime :: nat
  RowCycleDelay :: nat
  WriteRecoveryTime :: nat
  RPDelay :: nat
  RCDDelay :: nat

datatype sdram_event =
    Sdram_Gpio hw_event
  | Sdram_Init FMC_SDRAM_InitTypeDef FMC_SDRAM_TimingTypeDef
  | Sdram_Command FMC_SDRAM_CommandTypeDef
  | Sdram_RefreshRate u32
  | Sdram_Delay u32
  | Sdram_Log string

type_synonym sdram_history = "sdram_event list"

definition SDRAM_MODEREG_BURST_LENGTH_1 :: u32 where "SDRAM_MODEREG_BURST_LENGTH_1 = 0x0000"
definition SDRAM_MODEREG_BURST_TYPE_SEQUENTIAL :: u32 where "SDRAM_MODEREG_BURST_TYPE_SEQUENTIAL = 0x0000"
definition SDRAM_MODEREG_CAS_LATENCY_3 :: u32 where "SDRAM_MODEREG_CAS_LATENCY_3 = 0x0030"
definition SDRAM_MODEREG_OPERATING_MODE_STANDARD :: u32 where "SDRAM_MODEREG_OPERATING_MODE_STANDARD = 0x0000"
definition SDRAM_MODEREG_WRITEBURST_MODE_SINGLE :: u32 where "SDRAM_MODEREG_WRITEBURST_MODE_SINGLE = 0x0200"

text \<open>The HAL's answer to a command may depend on everything sent before.\<close>

definition sdram_send_command ::
  "(sdram_history \<Rightarrow> HAL_StatusTypeDef) \<Rightarrow> u8 \<Rightarrow> sdram_command \<Rightarrow> u8 \<Rightarrow> u16 \<Rightarrow> sdram_history
     \<Rightarrow> BaseType_t \<times> sdram_history" where
  "sdram_send_command hal bank cmd refresh regval h =
     (let target_bank = (if bank = 0 then FMC_SDRAM_CMD_TARGET_BANK1
                         else if bank = 1 then FMC_SDRAM_CMD_TARGET_BANK2 else NO_TARGET);
          c = \<lparr>CommandMode = cmd, CommandTarget = target_bank, AutoRefreshNumber = refresh,
               ModeRegisterDefinition = regval\<rparr>;
          h = Sdram_Command c # h
      in (if hal h \<noteq> HAL_OK then pdFAIL else pdPASS, h))"

definition sdram_initialize_sequence ::
  "(sdram_history \<Rightarrow> HAL_StatusTypeDef) \<Rightarrow> sdram_history \<Rightarrow> BaseType_t \<times> sdram_history" where
  "sdram_initialize_sequence hal h =
     (let (result, h) = sdram_send_command hal 0 FMC_SDRAM_CMD_CLK_ENABLE 1 0 h;
          h = Sdram_Delay 1 # h;
          (r, h) = sdram_send_command hal 0 FMC_SDRAM_CMD_PALL 1 0 h;
          result = result AND r;
          (r, h) = sdram_send_command hal 0 FMC_SDRAM_CMD_AUTOREFRESH_MODE 1 0 h;
          result = result AND r;
          temp = SDRAM_MODEREG_BURST_LENGTH_1 OR SDRAM_MODEREG_BURST_TYPE_SEQUENTIAL
                 OR SDRAM_MODEREG_CAS_LATENCY_3 OR SDRAM_MODEREG_OPERATING_MODE_STANDARD
                 OR SDRAM_MODEREG_WRITEBURST_MODE_SINGLE;
          (r, h) = sdram_send_command hal 0 FMC_SDRAM_CMD_LOAD_MODE 1 (ucast temp) h
      in (result AND r, h))"

definition sdram_gpio_init :: "GPIO_TypeDef \<Rightarrow> u16 \<Rightarrow> sdram_history \<Rightarrow> sdram_history" where
  "sdram_gpio_init port pins h =
     Sdram_Gpio (InitPin port (gpio_init0\<lparr>Pin := pins, Mode := GPIO_MODE_AF_PP, Pull := GPIO_NOPULL,
       Speed := GPIO_SPEED_FREQ_VERY_HIGH, Alternate := 12\<rparr>)) # h"

definition hsdram1_init :: FMC_SDRAM_InitTypeDef where
  "hsdram1_init = \<lparr>SDBank = 1, ColumnBitsNumber = 9, RowBitsNumber = 13, MemoryDataWidth = 16,
     InternalBankNumber = 4, CASLatency = 3, WriteProtection = False, SDClockPeriod = 2, ReadBurst = True,
     ReadPipeDelay = 1\<rparr>"

definition SdramTiming :: FMC_SDRAM_TimingTypeDef where
  "SdramTiming = \<lparr>LoadToActiveDelay = 2, ExitSelfRefreshDelay = 8, SelfRefreshTime = 6, RowCycleDelay = 6,
     WriteRecoveryTime = 2, RPDelay = 2, RCDDelay = 2\<rparr>"

definition sdram_hardware_init :: "HAL_StatusTypeDef \<Rightarrow> sdram_history \<Rightarrow> BaseType_t \<times> sdram_history" where
  "sdram_hardware_init ini h =
     (let h = Sdram_Gpio (PeriphClock RCC_FMC) # h;
          h = Sdram_Gpio (ClockEnable GPIOF) # h;
          h = Sdram_Gpio (ClockEnable GPIOC) # h;
          h = Sdram_Gpio (ClockEnable GPIOG) # h;
          h = Sdram_Gpio (ClockEnable GPIOE) # h;
          h = Sdram_Gpio (ClockEnable GPIOD) # h;
          h = sdram_gpio_init GPIOF (GPIO_PIN_0 OR GPIO_PIN_1 OR GPIO_PIN_2 OR GPIO_PIN_3 OR GPIO_PIN_4 OR GPIO_PIN_5
                OR GPIO_PIN_11 OR GPIO_PIN_12 OR GPIO_PIN_13 OR GPIO_PIN_14 OR GPIO_PIN_15) h;
          h = sdram_gpio_init GPIOC (GPIO_PIN_0 OR GPIO_PIN_2 OR GPIO_PIN_3) h;
          h = sdram_gpio_init GPIOG (GPIO_PIN_0 OR GPIO_PIN_1 OR GPIO_PIN_2 OR GPIO_PIN_3 OR GPIO_PIN_4 OR GPIO_PIN_5
                OR GPIO_PIN_8 OR GPIO_PIN_15) h;
          h = sdram_gpio_init GPIOE (GPIO_PIN_0 OR GPIO_PIN_1 OR GPIO_PIN_7 OR GPIO_PIN_8 OR GPIO_PIN_9 OR GPIO_PIN_10
                OR GPIO_PIN_11 OR GPIO_PIN_12 OR GPIO_PIN_13 OR GPIO_PIN_14 OR GPIO_PIN_15) h;
          h = sdram_gpio_init GPIOD (GPIO_PIN_8 OR GPIO_PIN_9 OR GPIO_PIN_10 OR GPIO_PIN_11 OR GPIO_PIN_12
                OR GPIO_PIN_13 OR GPIO_PIN_14 OR GPIO_PIN_15 OR GPIO_PIN_0 OR GPIO_PIN_1 OR GPIO_PIN_4 OR GPIO_PIN_5
                OR GPIO_PIN_7) h;
          h = Sdram_Init hsdram1_init SdramTiming # h
      in (if ini \<noteq> HAL_OK then pdFAIL else pdPASS, h))"

text \<open>
  The memory test on its hundred words. \<open>cell\<close> is what a word reads as, given all that was stored; the
  contents are first zeroed as far as \<^verbatim>\<open>memset\<close> goes, 100 bytes.
\<close>

definition sdram_fill :: "(nat \<Rightarrow> u32) \<Rightarrow> nat \<Rightarrow> u32" where
  "sdram_fill m = fold (\<lambda>i m. m(i := of_nat i)) [0..<100] (\<lambda>i. if i < 25 then 0 else m i)"

fun sdram_check :: "(nat \<Rightarrow> u32) \<Rightarrow> nat list \<Rightarrow> sdram_history \<Rightarrow> sdram_history" where
  "sdram_check rd [] h = h"
| "sdram_check rd (i # is) h =
     (if rd i \<noteq> of_nat i then Sdram_Log ''sdram test failed'' # h else sdram_check rd is h)"

definition sdram_memory_test ::
  "((nat \<Rightarrow> u32) \<Rightarrow> nat \<Rightarrow> u32) \<Rightarrow> (nat \<Rightarrow> u32) \<Rightarrow> sdram_history \<Rightarrow> (nat \<Rightarrow> u32) \<times> sdram_history" where
  "sdram_memory_test cell m h =
     (let m = sdram_fill m;
          h = sdram_check (cell m) [0..<100] h
      in (m, Sdram_Log ''sdram test success'' # h))"

definition sdram_driver_init ::
  "HAL_StatusTypeDef \<Rightarrow> (sdram_history \<Rightarrow> HAL_StatusTypeDef) \<Rightarrow> ((nat \<Rightarrow> u32) \<Rightarrow> nat \<Rightarrow> u32) \<Rightarrow> (nat \<Rightarrow> u32)
     \<Rightarrow> sdram_history \<Rightarrow> BaseType_t \<times> (nat \<Rightarrow> u32) \<times> sdram_history" where
  "sdram_driver_init ini hal cell m h =
     (let (result, h) = sdram_hardware_init ini h;
          (result, m, h) =
            (if result = pdPASS
             then (let (result, h) = sdram_initialize_sequence hal h
                   in if result = pdPASS
                      then (let h = Sdram_RefreshRate 683 # h; (m, h) = sdram_memory_test cell m h
                            in (result, m, h))
                      else (result, m, Sdram_Log ''sdram_initialize_sequence failed'' # h))
             else (result, m, Sdram_Log ''sdram_hardware_init failed'' # h))
      in (result, m, Sdram_Log ''sdram_hardware_init success'' # h))"

lemma pd_and_eq_pass:
  fixes a b :: BaseType_t
  assumes "a = pdPASS \<or> a = pdFAIL" and "b = pdPASS \<or> b = pdFAIL"
  shows "a AND b = pdPASS \<longleftrightarrow> a = pdPASS \<and> b = pdPASS" and "a AND b = pdPASS \<or> a AND b = pdFAIL"
  using assms by auto

lemma sdram_send_command_cases:
  "fst (sdram_send_command hal b c r v h) = pdPASS \<or> fst (sdram_send_command hal b c r v h) = pdFAIL"
  by (simp add: sdram_send_command_def Let_def)

text \<open>The memory that works passes the test; a single stuck word is reported, and so is success.\<close>

lemma sdram_fill_value: "i < 100 \<Longrightarrow> sdram_fill m i = of_nat i"
proof -
  have "fold (\<lambda>i m. m(i := of_nat i)) [0..<n] m' i = (if i < n then of_nat i else m' i)" for n and m' :: "nat \<Rightarrow> u32"
    by (induction n) auto
  then show "i < 100 \<Longrightarrow> sdram_fill m i = of_nat i" by (simp add: sdram_fill_def)
qed

lemma sdram_check_ok: "\<forall>i\<in>set is. rd i = of_nat i \<Longrightarrow> sdram_check rd is h = h"
  by (induction "is") auto

lemma sdram_check_fails:
  "\<exists>i\<in>set is. rd i \<noteq> of_nat i \<Longrightarrow> sdram_check rd is h = Sdram_Log ''sdram test failed'' # h"
  by (induction "is") auto

lemma sdram_test_reports:
  "snd (sdram_memory_test cell m h) =
     (if \<forall>i<100. cell (sdram_fill m) i = of_nat i then Sdram_Log ''sdram test success'' # h
      else Sdram_Log ''sdram test success'' # Sdram_Log ''sdram test failed'' # h)"
proof (cases "\<forall>i<100. cell (sdram_fill m) i = of_nat i")
  case True
  then have "sdram_check (cell (sdram_fill m)) [0..<100] h = h" by (intro sdram_check_ok) simp
  then show ?thesis using True by (simp add: sdram_memory_test_def Let_def)
next
  case False
  then have "sdram_check (cell (sdram_fill m)) [0..<100] h = Sdram_Log ''sdram test failed'' # h"
    by (intro sdram_check_fails) auto
  then show ?thesis using False by (simp add: sdram_memory_test_def Let_def)
qed

text \<open>Initialisation succeeds exactly when the HAL accepts the controller's set-up and all four commands.\<close>

definition sdram_commands :: "sdram_history \<Rightarrow> sdram_history list" where
  "sdram_commands h =
     (let cmd = (\<lambda>c v. Sdram_Command \<lparr>CommandMode = c, CommandTarget = FMC_SDRAM_CMD_TARGET_BANK1,
                          AutoRefreshNumber = 1, ModeRegisterDefinition = v\<rparr>);
          h1 = cmd FMC_SDRAM_CMD_CLK_ENABLE 0 # h;
          h2 = cmd FMC_SDRAM_CMD_PALL 0 # Sdram_Delay 1 # h1;
          h3 = cmd FMC_SDRAM_CMD_AUTOREFRESH_MODE 0 # h2;
          h4 = cmd FMC_SDRAM_CMD_LOAD_MODE 0x230 # h3
      in [h1, h2, h3, h4])"

lemma sdram_sequence:
  "sdram_initialize_sequence hal h =
     (if \<forall>h\<in>set (sdram_commands h). hal h = HAL_OK then pdPASS else pdFAIL, last (sdram_commands h))"
  by (simp add: sdram_initialize_sequence_def sdram_send_command_def sdram_commands_def Let_def
      SDRAM_MODEREG_BURST_LENGTH_1_def SDRAM_MODEREG_BURST_TYPE_SEQUENTIAL_def SDRAM_MODEREG_CAS_LATENCY_3_def
      SDRAM_MODEREG_OPERATING_MODE_STANDARD_def SDRAM_MODEREG_WRITEBURST_MODE_SINGLE_def)

lemma sdram_init_result:
  "fst (sdram_driver_init ini hal cell m h) = pdPASS
     \<longleftrightarrow> ini = HAL_OK \<and> (\<forall>h\<in>set (sdram_commands (snd (sdram_hardware_init ini h))). hal h = HAL_OK)"
proof -
  have "fst (sdram_hardware_init ini h) = pdPASS \<longleftrightarrow> ini = HAL_OK"
    by (simp add: sdram_hardware_init_def Let_def)
  then show ?thesis by (simp add: sdram_driver_init_def sdram_sequence Let_def split_def)
qed

section \<open>Analog inputs\<close>

text \<open>
  The DMA fills the buffer round and round with the two channels in turn. The reference voltage is
  measured once; the conversion of the measured code is a macro of the HAL, a parameter.
\<close>

definition ADC_AVG_TIMES :: nat where "ADC_AVG_TIMES = 5"
definition ADC_BUFFER_SIZE :: nat where "ADC_BUFFER_SIZE = ADC_AVG_TIMES * 2"

text \<open>Channel codes of the HAL's headers.\<close>

definition ADC_CHANNEL_6 :: u32 where "ADC_CHANNEL_6 = 6"
definition ADC_CHANNEL_TEMPSENSOR :: u32 where "ADC_CHANNEL_TEMPSENSOR = 0x10000012"

definition ADC_CHANNEL_VREFINT :: u32 where "ADC_CHANNEL_VREFINT = 17"

datatype adc_eoc = ADC_EOC_SEQ_CONV | ADC_EOC_SINGLE_CONV

record ADC_InitTypeDef =
  adc_ClockDiv :: nat
  adc_ResolutionBits :: nat
  adc_ScanConvMode :: bool
  adc_ContinuousConvMode :: bool
  adc_DiscontinuousConvMode :: bool
  adc_SoftwareStart :: bool
  adc_DataAlignRight :: bool
  adc_NbrOfConversion :: nat
  adc_DMAContinuousRequests :: bool
  adc_EOCSelection :: adc_eoc

record ADC_ChannelConfTypeDef =
  Channel :: u32
  Rank :: nat
  SamplingTime :: nat

record ADC_InjectionConfTypeDef =
  InjectedChannel :: u32
  InjectedRank :: nat
  InjectedNbrOfConversion :: nat
  InjectedSamplingTime :: nat
  InjecSoftwareStart :: bool
  AutoInjectedConv :: bool
  InjectedDiscontinuousConvMode :: bool
  InjectedOffset :: nat

text \<open>The last events are the flag of the interrupt handler and the two flags it clears.\<close>

datatype adc_event =
    Adc_Gpio hw_event
  | Adc_Init ADC_InitTypeDef
  | Adc_Channel ADC_ChannelConfTypeDef
  | Adc_InjectedConfig ADC_InjectionConfTypeDef
  | Adc_InjectedStart
  | Adc_InjectedPoll u32
  | Adc_InjectedGet
  | Adc_Log string u32
  | Adc_EnableDma
  | Adc_DmaInit dma_stream DMA_InitTypeDef
  | Adc_DmaEnableIT
  | Adc_DmaStart nat
  | Adc_Start
  | Adc_GetFlagTC
  | Adc_ClearFlagTC
  | Adc_ClearFlagTE

type_synonym adc_history = "adc_event list"

record adc_world =
  ADC_Buffer :: "u16 list"
  vref_val :: u32
  adc_hist :: adc_history

text \<open>
  The HAL: the results of its initialisations, the two results and the code of the calibration, and the
  macro that turns the code into millivolts.
\<close>

record adc_hal =
  adc_ini :: HAL_StatusTypeDef
  adc_ch6 :: HAL_StatusTypeDef
  adc_temp :: HAL_StatusTypeDef
  adc_dma :: HAL_StatusTypeDef
  adc_cfg :: HAL_StatusTypeDef
  adc_poll :: HAL_StatusTypeDef
  adc_code :: u32
  adc_voltage :: "u32 \<Rightarrow> u32"

definition adc_event_add :: "adc_event \<Rightarrow> adc_world \<Rightarrow> adc_world" where
  "adc_event_add e w = w\<lparr>adc_hist := e # adc_hist w\<rparr>"

definition adc_avg_value_read :: "u32 \<Rightarrow> adc_world \<Rightarrow> u16" where
  "adc_avg_value_read channel w =
     (let pstart = (if channel = ADC_CHANNEL_6 then 0
                    else if channel = ADC_CHANNEL_TEMPSENSOR then 1 else 0);
          temp = fold (\<lambda>index t. t + (ucast (ADC_Buffer w ! (pstart + index * 2)) :: u32)) [0..<ADC_AVG_TIMES] 0
      in ucast (temp div of_nat ADC_AVG_TIMES))"

definition get_vref_val :: "adc_world \<Rightarrow> u32" where
  "get_vref_val w = vref_val w"

definition adc_calibration_init :: "adc_hal \<Rightarrow> adc_world \<Rightarrow> BaseType_t \<times> adc_world" where
  "adc_calibration_init hw w =
     (let w = adc_event_add (Adc_InjectedConfig \<lparr>InjectedChannel = ADC_CHANNEL_VREFINT, InjectedRank = 1,
                InjectedNbrOfConversion = 1, InjectedSamplingTime = 56, InjecSoftwareStart = True,
                AutoInjectedConv = False, InjectedDiscontinuousConvMode = True, InjectedOffset = 0\<rparr>) w
      in if adc_cfg hw \<noteq> HAL_OK then (pdFAIL, w)
         else (let w = adc_event_add Adc_InjectedStart w;
                   w = adc_event_add (Adc_InjectedPoll 100) w
               in if adc_poll hw \<noteq> HAL_OK then (pdFAIL, w)
                  else (let w = adc_event_add Adc_InjectedGet w;
                            w = w\<lparr>vref_val := adc_code hw\<rparr>;
                            w = w\<lparr>vref_val := adc_voltage hw (vref_val w)\<rparr>
                        in (pdPASS, adc_event_add (Adc_Log ''ADC Calcbration success, vref:%d'' (vref_val w)) w))))"

definition hadc1_init :: ADC_InitTypeDef where
  "hadc1_init = \<lparr>adc_ClockDiv = 6, adc_ResolutionBits = 12, adc_ScanConvMode = True, adc_ContinuousConvMode = True,
     adc_DiscontinuousConvMode = False, adc_SoftwareStart = True, adc_DataAlignRight = True,
     adc_NbrOfConversion = 2, adc_DMAContinuousRequests = True, adc_EOCSelection = ADC_EOC_SINGLE_CONV\<rparr>"

definition hdma_adc1_init :: DMA_InitTypeDef where
  "hdma_adc1_init = dma_init0\<lparr>dma_Channel := 0, dma_Direction := DMA_PERIPH_TO_MEMORY, dma_PeriphInc := False,
     dma_MemInc := True, dma_PeriphDataAlignment := DMA_DATAALIGN_HALFWORD,
     dma_MemDataAlignment := DMA_DATAALIGN_HALFWORD, dma_Mode := DMA_CIRCULAR, dma_Priority := DMA_PRIORITY_HIGH,
     dma_FIFOMode := False\<rparr>"

text \<open>The two channels and what follows them, on a converter that has been initialised.\<close>

definition adc_channels_init :: "adc_hal \<Rightarrow> adc_world \<Rightarrow> BaseType_t \<times> adc_world" where
  "adc_channels_init hw w =
     (let w = adc_event_add (Adc_Channel \<lparr>Channel = ADC_CHANNEL_6, Rank = 1, SamplingTime = 144\<rparr>) w
      in if adc_ch6 hw \<noteq> HAL_OK then (pdFAIL, w)
         else (let w = adc_event_add (Adc_Channel \<lparr>Channel = ADC_CHANNEL_TEMPSENSOR, Rank = 2,
                         SamplingTime = 144\<rparr>) w
               in if adc_temp hw \<noteq> HAL_OK then (pdFAIL, w)
                  else (let (_, w) = adc_calibration_init hw w;
                            w = adc_event_add Adc_EnableDma w;
                            w = adc_event_add (Adc_DmaInit DMA2_Stream0 hdma_adc1_init) w
                        in if adc_dma hw \<noteq> HAL_OK then (pdFAIL, w)
                           else (let w = adc_event_add Adc_DmaEnableIT w;
                                     w = adc_event_add (Adc_Gpio (SetPriority DMA2_Stream0_IRQn 0 0)) w;
                                     w = adc_event_add (Adc_Gpio (EnableIRQ DMA2_Stream0_IRQn)) w;
                                     w = adc_event_add (Adc_DmaStart ADC_BUFFER_SIZE) w
                                 in (pdPASS, adc_event_add Adc_Start w)))))"

definition adc_driver_init :: "adc_hal \<Rightarrow> adc_world \<Rightarrow> BaseType_t \<times> adc_world" where
  "adc_driver_init hw w =
     (let w = adc_event_add (Adc_Gpio (PeriphClock RCC_ADC1)) w;
          w = adc_event_add (Adc_Gpio (ClockEnable GPIOA)) w;
          w = adc_event_add (Adc_Gpio (PeriphClock RCC_DMA2)) w;
          g = gpio_init0\<lparr>Pin := GPIO_PIN_6, Mode := GPIO_MODE_ANALOG, Pull := GPIO_NOPULL\<rparr>;
          w = adc_event_add (Adc_Gpio (InitPin GPIOA g)) w;
          w = adc_event_add (Adc_Init hadc1_init) w
      in if adc_ini hw \<noteq> HAL_OK then (pdFAIL, w) else adc_channels_init hw w)"

definition DMA2_Stream0_IRQHandler :: "(adc_history \<Rightarrow> bool) \<Rightarrow> adc_history \<Rightarrow> adc_history" where
  "DMA2_Stream0_IRQHandler flag h =
     (if flag h then (let h = Adc_GetFlagTC # h; h = Adc_ClearFlagTC # h in Adc_ClearFlagTE # h)
      else Adc_GetFlagTC # h)"

text \<open>
  The reference voltage is replaced only by a calibration that succeeds, and a calibration that fails
  does not stop the conversions from being started: its result is not used.
\<close>

lemma adc_driver_init_result:
  "fst (adc_driver_init hw w) = pdPASS
     \<longleftrightarrow> adc_ini hw = HAL_OK \<and> adc_ch6 hw = HAL_OK \<and> adc_temp hw = HAL_OK \<and> adc_dma hw = HAL_OK"
  by (auto simp: adc_driver_init_def adc_channels_init_def Let_def split_def)

lemma adc_driver_init_vref:
  "get_vref_val (snd (adc_driver_init hw w)) =
     (if adc_ini hw = HAL_OK \<and> adc_ch6 hw = HAL_OK \<and> adc_temp hw = HAL_OK \<and> adc_cfg hw = HAL_OK
           \<and> adc_poll hw = HAL_OK
      then adc_voltage hw (adc_code hw) else vref_val w)"
  by (simp add: adc_driver_init_def adc_channels_init_def adc_calibration_init_def adc_event_add_def
      get_vref_val_def Let_def)

lemma unat_fold_sum32:
  assumes "\<And>i. i < n \<Longrightarrow> f i < 65536" and "n \<le> 65536"
  shows "unat (fold (\<lambda>i t. t + of_nat (f i)) [0..<n] (0 :: u32)) = sum_list (map f [0..<n])
    \<and> sum_list (map f [0..<n]) \<le> n * 65535"
  using assms
proof (induction n)
  case 0
  show ?case by simp
next
  case (Suc n)
  let ?s = "fold (\<lambda>i t. t + of_nat (f i)) [0..<n] (0 :: u32)"
  have ih: "unat ?s = sum_list (map f [0..<n])" "sum_list (map f [0..<n]) \<le> n * 65535"
    using Suc by simp_all
  have f: "f n \<le> 65535" using Suc.prems(1) [of n] by simp
  then have "unat (of_nat (f n) :: u32) = f n" by (simp add: unat_of_nat take_bit_nat_eq_self)
  moreover have "sum_list (map f [0..<n]) + f n < 2 ^ 32" using ih(2) f Suc.prems(2) by simp
  ultimately have "unat (?s + of_nat (f n)) = sum_list (map f [0..<n]) + f n"
    using ih(1) by (simp add: unat_word_ariths)
  then show ?case using ih(2) f by simp
qed

text \<open>
  Reading a channel gives the average of its five samples, rounded down; no sum overflows. Samples of
  the other channel do not matter.
\<close>

lemma adc_average:
  fixes ch w
  defines "start \<equiv> if ch = ADC_CHANNEL_TEMPSENSOR then 1 else 0"
  shows "unat (adc_avg_value_read ch w) = sum_list (map (\<lambda>i. unat (ADC_Buffer w ! (start + i * 2))) [0..<5]) div 5"
proof -
  let ?f = "\<lambda>i. unat (ADC_Buffer w ! (start + i * 2))"
  have s: "(if ch = ADC_CHANNEL_6 then 0 else if ch = ADC_CHANNEL_TEMPSENSOR then 1 else 0) = start"
    by (simp add: start_def ADC_CHANNEL_6_def ADC_CHANNEL_TEMPSENSOR_def)
  have l: "?f i < 65536" for i
  proof -
    have "?f i < 2 ^ LENGTH(16)" by (rule unsigned_less)
    then show ?thesis by simp
  qed
  have e: "(ucast (ADC_Buffer w ! (start + i * 2)) :: u32) = of_nat (?f i)" for i
    by (simp add: word_unat_eq_iff unat_ucast_up unat_of_nat take_bit_nat_eq_self order_less_trans [OF l])
  have sum: "unat (fold (\<lambda>i t. t + (ucast (ADC_Buffer w ! (start + i * 2)) :: u32)) [0..<5] 0) = sum_list (map ?f [0..<5])
      \<and> sum_list (map ?f [0..<5]) \<le> 5 * 65535"
    unfolding e by (rule unat_fold_sum32) (simp_all add: l)
  have "sum_list (map ?f [0..<5]) div 5 \<le> 5 * 65535 div 5"
    by (rule div_le_mono) (rule conjunct2 [OF sum])
  then show ?thesis
    using sum unfolding adc_avg_value_read_def Let_def s ADC_AVG_TIMES_def
    by (simp add: unsigned_ucast_eq unat_div take_bit_nat_eq_self del: upt_rec_numeral)
qed

text \<open>
  The variant without DMA (\<^verbatim>\<open>drv_adc.c\<close>) converts one sample at a time; \<open>code\<close> is what the data register
  shows, given everything done before. The calls' results are not looked at.
\<close>

datatype adc_poll_event =
    Adc_Poll_Gpio hw_event
  | Adc_Poll_Init ADC_InitTypeDef
  | Adc_Poll_Channel ADC_ChannelConfTypeDef
  | Adc_Poll_Start
  | Adc_Poll_Conversion u32
  | Adc_Poll_GetValue
  | Adc_Poll_Delay

definition hadc1_init_poll :: ADC_InitTypeDef where
  "hadc1_init_poll = \<lparr>adc_ClockDiv = 6, adc_ResolutionBits = 12, adc_ScanConvMode = False,
     adc_ContinuousConvMode = False, adc_DiscontinuousConvMode = False, adc_SoftwareStart = True,
     adc_DataAlignRight = True, adc_NbrOfConversion = 1, adc_DMAContinuousRequests = False,
     adc_EOCSelection = ADC_EOC_SEQ_CONV\<rparr>"

definition adc_driver_init_poll ::
  "HAL_StatusTypeDef \<Rightarrow> adc_poll_event list \<Rightarrow> BaseType_t \<times> adc_poll_event list" where
  "adc_driver_init_poll ini h =
     (let h = Adc_Poll_Gpio (PeriphClock RCC_ADC1) # h;
          h = Adc_Poll_Gpio (ClockEnable GPIOA) # h;
          g = gpio_init0\<lparr>Pin := GPIO_PIN_6, Mode := GPIO_MODE_ANALOG, Pull := GPIO_NOPULL\<rparr>;
          h = Adc_Poll_Gpio (InitPin GPIOA g) # h;
          h = Adc_Poll_Init hadc1_init_poll # h
      in (if ini \<noteq> HAL_OK then pdFAIL else pdPASS, h))"

definition adv_value_read ::
  "(adc_poll_event list \<Rightarrow> u32) \<Rightarrow> u32 \<Rightarrow> adc_poll_event list \<Rightarrow> u16 \<times> adc_poll_event list" where
  "adv_value_read code channel h =
     (let h = Adc_Poll_Channel \<lparr>Channel = channel, Rank = 1, SamplingTime = 56\<rparr> # h;
          h = Adc_Poll_Start # h;
          h = Adc_Poll_Conversion 10 # h
      in (ucast (code h), Adc_Poll_GetValue # h))"

definition adc_avg_value_read_poll ::
  "(adc_poll_event list \<Rightarrow> u32) \<Rightarrow> u32 \<Rightarrow> adc_poll_event list \<Rightarrow> u16 \<times> adc_poll_event list" where
  "adc_avg_value_read_poll code channel h =
     (let (temp, h) = fold (\<lambda>_ (temp, h). let (v, h) = adv_value_read code channel h
                                          in (temp + (ucast v :: u32), Adc_Poll_Delay # h)) [0..<ADC_AVG_TIMES] (0, h)
      in (ucast (temp div of_nat ADC_AVG_TIMES), h))"

text \<open>A constant input is read as it is.\<close>

lemma adc_poll_constant:
  assumes "\<And>h. code h = ucast v"
  shows "fst (adc_avg_value_read_poll code channel h) = v"
proof -
  let ?x = "ucast v :: u32"
  have "unat v < 2 ^ LENGTH(16)" by (rule unsigned_less)
  then have l: "unat ?x < 65536" by (simp add: unat_ucast_up)
  then have "unat (5 * ?x) = 5 * unat ?x" by (simp add: unat_word_ariths)
  then have d: "(5 * ?x) div 5 = ?x" by (simp add: word_unat_eq_iff unat_div)
  have s: "?x + ?x + ?x + ?x + ?x = 5 * ?x" by simp
  have c: "(ucast ?x :: u16) = v" by (rule bit_word_eqI) (simp add: bit_simps)
  have "fst (adc_avg_value_read_poll code channel h) = ucast ((?x + ?x + ?x + ?x + ?x) div 5)"
    by (simp add: adc_avg_value_read_poll_def adv_value_read_def ADC_AVG_TIMES_def Let_def assms c upt_rec)
  then show ?thesis by (simp only: s d c)
qed

section \<open>Watchdogs and delays\<close>

text \<open>
  The product's configuration leaves both watchdogs out; \<open>iwdg_on\<close> and \<open>wwdg_on\<close> are its switches, and
  the HAL's two answers are parameters.
\<close>

definition IWDG_MODULE_ON :: bool where "IWDG_MODULE_ON = False"
definition WWDG_MODULE_ON :: bool where "WWDG_MODULE_ON = False"

datatype wdg_event =
    Wdg_Gpio hw_event
  | Iwdg_Init nat u32
  | Iwdg_Refresh
  | Wwdg_Init nat u32 u32 bool
  | Wwdg_GetFlag
  | Wwdg_ClearFlag
  | Wwdg_Refresh

definition iwdg_init :: "bool \<Rightarrow> HAL_StatusTypeDef \<Rightarrow> wdg_event list \<Rightarrow> BaseType_t \<times> wdg_event list" where
  "iwdg_init iwdg_on iwdg h =
     (if iwdg_on then (let h = Iwdg_Init 32 4095 # h in (if iwdg \<noteq> HAL_OK then pdFAIL else pdPASS, h))
      else (pdPASS, h))"

definition wwdg_init :: "bool \<Rightarrow> HAL_StatusTypeDef \<Rightarrow> wdg_event list \<Rightarrow> BaseType_t \<times> wdg_event list" where
  "wwdg_init wwdg_on wwdg h =
     (if wwdg_on
      then (let h = Wdg_Gpio (PeriphClock RCC_WWDG) # h;
                h = Wdg_Gpio (SetPriority WWDG_IRQn 0 0) # h;
                h = Wdg_Gpio (EnableIRQ WWDG_IRQn) # h;
                h = Wwdg_Init 8 90 127 True # h
            in (if wwdg \<noteq> HAL_OK then pdFAIL else pdPASS, h))
      else (pdPASS, h))"

definition wdg_driver_init ::
  "bool \<Rightarrow> bool \<Rightarrow> HAL_StatusTypeDef \<Rightarrow> HAL_StatusTypeDef \<Rightarrow> wdg_event list \<Rightarrow> BaseType_t \<times> wdg_event list" where
  "wdg_driver_init iwdg_on wwdg_on iwdg wwdg h =
     (let (result, h) = iwdg_init iwdg_on iwdg h;
          (r, h) = wwdg_init wwdg_on wwdg h
      in (result AND r, h))"

definition iwdg_reload :: "bool \<Rightarrow> wdg_event list \<Rightarrow> wdg_event list" where
  "iwdg_reload iwdg_on h = (if iwdg_on then Iwdg_Refresh # h else h)"

definition WWDG_IRQHandler :: "bool \<Rightarrow> wdg_event list \<Rightarrow> wdg_event list" where
  "WWDG_IRQHandler flag h =
     (let h = Wwdg_GetFlag # h in if flag then Wwdg_Refresh # Wwdg_ClearFlag # h else h)"

lemma wdg_init_result:
  "fst (wdg_driver_init iwdg_on wwdg_on iwdg wwdg h) =
     (if (iwdg_on \<longrightarrow> iwdg = HAL_OK) \<and> (wwdg_on \<longrightarrow> wwdg = HAL_OK) then pdPASS else pdFAIL)"
  by (simp add: wdg_driver_init_def iwdg_init_def wwdg_init_def Let_def)

lemma wdg_off: "wdg_driver_init IWDG_MODULE_ON WWDG_MODULE_ON iwdg wwdg h = (pdPASS, h)"
  by (simp add: wdg_driver_init_def iwdg_init_def wwdg_init_def IWDG_MODULE_ON_def WWDG_MODULE_ON_def)

text \<open>
  Delays (\<^verbatim>\<open>interface.c\<close>): by the scheduler once it runs, by the HAL's busy wait before; the state is
  \<^verbatim>\<open>is_os_on\<close>. \<^verbatim>\<open>delay_us\<close> only executes instructions that do nothing, five per round.
\<close>

datatype delay_event = vTaskDelay u16 | HAL_Delay u16 | NOP

definition set_os_on :: "u8 \<times> delay_event list \<Rightarrow> u8 \<times> delay_event list" where
  "set_os_on w = (1, snd w)"

definition delay_ms :: "u16 \<Rightarrow> u8 \<times> delay_event list \<Rightarrow> u8 \<times> delay_event list" where
  "delay_ms ms w =
     (let (is_os_on, h) = w in (is_os_on, (if is_os_on \<noteq> 0 then vTaskDelay ms else HAL_Delay ms) # h))"

lemma u16_up_less: "i < (n :: u16) \<Longrightarrow> unat (n - (i + 1)) < unat (n - i)"
proof -
  assume l: "i < n"
  then have "n - i \<noteq> 0" by auto
  then have "unat (n - i - 1) < unat (n - i)" by (simp add: unat_minus_one unat_gt_0)
  then show ?thesis by (simp add: diff_diff_eq)
qed

function delay_us_inner :: "u16 \<Rightarrow> delay_event list \<Rightarrow> delay_event list" where
  "delay_us_inner j h = (if j < 5 then delay_us_inner (j + 1) (NOP # h) else h)"
  by auto

termination
  by (relation "measure (\<lambda>(j, h). unat (5 - j))") (simp, simp only: in_measure prod.case, rule u16_up_less, simp)

function delay_us_loop :: "u16 \<Rightarrow> u16 \<Rightarrow> delay_event list \<Rightarrow> delay_event list" where
  "delay_us_loop n i h = (if i < n then delay_us_loop n (i + 1) (delay_us_inner 0 h) else h)"
  by auto

termination
  by (relation "measure (\<lambda>(n, i, h). unat (n - i))") (simp, simp only: in_measure prod.case, rule u16_up_less, simp)

declare delay_us_inner.simps [simp del] delay_us_loop.simps [simp del]

definition delay_us :: "u16 \<Rightarrow> u8 \<times> delay_event list \<Rightarrow> u8 \<times> delay_event list" where
  "delay_us n w = (fst w, delay_us_loop n 0 (snd w))"

lemma delay_us_inner_nops: "delay_us_inner 0 h = replicate 5 NOP @ h"
proof -
  have "replicate 5 NOP = [NOP, NOP, NOP, NOP, NOP]" by (simp add: eval_nat_numeral)
  then show ?thesis by (simp add: delay_us_inner.simps)
qed

lemma delay_us_loop_nops: "delay_us_loop n i h = replicate (5 * (unat n - unat i)) NOP @ h"
proof (induction n i h rule: delay_us_loop.induct)
  case (1 n i h)
  show ?case
  proof (cases "i < n")
    case True
    then have u: "unat (i + 1) = Suc (unat i)" by (rule unat_add_one_less)
    have "unat i < unat n" using True by (simp add: word_less_unat)
    then have d: "5 * (unat n - unat i) = 5 * (unat n - Suc (unat i)) + 5" by simp
    show ?thesis
      using 1 [OF True] True
      by (subst delay_us_loop.simps) (simp add: u d delay_us_inner_nops replicate_add del: replicate.simps)
  next
    case False
    then have "unat n \<le> unat i" by (simp add: not_less word_le_nat_alt)
    then show ?thesis using False by (subst delay_us_loop.simps) simp
  qed
qed

lemma delay_us_nops: "snd (delay_us n w) = replicate (5 * unat n) NOP @ snd w"
  by (simp add: delay_us_def delay_us_loop_nops)

section \<open>Keys, LED and the pulse counter\<close>

definition KEY0_PORT :: GPIO_TypeDef where "KEY0_PORT = GPIOH"
definition KEY0_PIN :: u16 where "KEY0_PIN = GPIO_PIN_3"
definition KEY1_PORT :: GPIO_TypeDef where "KEY1_PORT = GPIOH"
definition KEY1_PIN :: u16 where "KEY1_PIN = GPIO_PIN_2"
definition KEY2_PORT :: GPIO_TypeDef where "KEY2_PORT = GPIOC"
definition KEY2_PIN :: u16 where "KEY2_PIN = GPIO_PIN_13"

definition key_driver_init :: "history \<Rightarrow> BaseType_t \<times> history" where
  "key_driver_init h =
     (let h = ClockEnable GPIOC # h;
          h = ClockEnable GPIOH # h;
          g = gpio_init0\<lparr>Mode := GPIO_MODE_INPUT, Pull := GPIO_PULLUP, Speed := GPIO_SPEED_FREQ_LOW\<rparr>;
          h = HAL_GPIO_Init KEY0_PORT (g\<lparr>Pin := KEY0_PIN\<rparr>) h;
          h = HAL_GPIO_Init KEY1_PORT (g\<lparr>Pin := KEY1_PIN\<rparr>) h;
          h = HAL_GPIO_Init KEY2_PORT (g\<lparr>Pin := KEY2_PIN\<rparr>) h
      in (pdPASS, h))"

text \<open>For an index without a key the state is never assigned: the value is whatever is on the stack.\<close>

definition key_get_value :: "levels \<Rightarrow> bool \<Rightarrow> u8 \<Rightarrow> history \<Rightarrow> bool \<times> history" where
  "key_get_value lv unassigned index h =
     (if index = 0 then HAL_GPIO_ReadPin lv KEY0_PORT KEY0_PIN h
      else if index = 1 then HAL_GPIO_ReadPin lv KEY1_PORT KEY1_PIN h
      else if index = 2 then HAL_GPIO_ReadPin lv KEY2_PORT KEY2_PIN h
      else (unassigned, h))"

definition led_driver_init :: "history \<Rightarrow> BaseType_t \<times> history" where
  "led_driver_init h =
     (let h = ClockEnable GPIOB # h;
          h = HAL_GPIO_WritePin GPIOB GPIO_PIN_0 True h;
          g = gpio_init0\<lparr>Mode := GPIO_MODE_OUTPUT_PP, Pull := GPIO_NOPULL, Speed := GPIO_SPEED_FREQ_LOW,
                Pin := GPIO_PIN_0\<rparr>;
          h = HAL_GPIO_Init GPIOB g h
      in (pdPASS, HAL_GPIO_WritePin GPIOB GPIO_PIN_0 True h))"

text \<open>
  Timer 5 counts the edges of its second input. The HAL's three results are parameters; setting the
  counter also sets it in the model of \<open>get_cnt_per_second\<close>.
\<close>

datatype timer_event =
    Timer_Gpio hw_event
  | Timer_Tim tim_event

definition timer_extend_driver_init ::
  "HAL_StatusTypeDef \<Rightarrow> HAL_StatusTypeDef \<Rightarrow> HAL_StatusTypeDef \<Rightarrow> u32 \<times> timer_event list
     \<Rightarrow> BaseType_t \<times> u32 \<times> timer_event list" where
  "timer_extend_driver_init base slave master w =
     (let (counter, h) = w;
          h = Timer_Gpio (PeriphClock RCC_TIM5) # h;
          h = Timer_Gpio (ClockEnable GPIOH) # h;
          g = gpio_init0\<lparr>Pin := GPIO_PIN_11, Mode := GPIO_MODE_AF_PP, Pull := GPIO_NOPULL,
                Speed := GPIO_SPEED_FREQ_LOW, Alternate := 2\<rparr>;
          h = Timer_Gpio (InitPin GPIOH g) # h;
          h = Timer_Tim (Tim_Base_Init TIM5 \<lparr>tim_Prescaler = 0, tim_CounterMode = TIM_COUNTERMODE_UP,
                tim_Period = 4294967295, tim_ClockDivision = 1, tim_AutoReloadPreload = True\<rparr>) # h
      in if base \<noteq> HAL_OK then (pdFAIL, counter, h)
         else (let h = Timer_Tim (Tim_Slave TIM5 \<lparr>slave_Mode = TIM_SLAVEMODE_EXTERNAL1, slave_TI2FP2 = True,
                         slave_Rising = True, slave_Filter = 0\<rparr>) # h
               in if slave \<noteq> HAL_OK then (pdFAIL, counter, h)
                  else (let h = Timer_Tim (Tim_Master_Reset TIM5) # h
                        in if master \<noteq> HAL_OK then (pdFAIL, counter, h)
                           else (let counter = 0; h = Timer_Tim (Tim_SetCounter TIM5 0) # h
                                 in (pdPASS, counter, Timer_Tim (Tim_Base_Start TIM5) # h)))))"

text \<open>The counter of timer 5; the pulses that arrive are added to it between two calls.\<close>

definition get_cnt_per_second :: "u32 \<Rightarrow> u32 \<times> u32" where
  "get_cnt_per_second counter = (let cnt = counter in (cnt, 0))"

fun pulse_counts :: "nat list \<Rightarrow> u32 \<Rightarrow> u32 list" where
  "pulse_counts [] counter = []"
| "pulse_counts (p # ps) counter =
     (let (cnt, counter) = get_cnt_per_second (counter + of_nat p) in cnt # pulse_counts ps counter)"

text \<open>Called regularly after initialisation, it returns the pulses of each period.\<close>

lemma pulse_counts_periods: "pulse_counts ps 0 = map of_nat ps"
  by (induction ps) (simp_all add: get_cnt_per_second_def)

lemma timer_init_counts:
  assumes "timer_extend_driver_init base slave master w = (pdPASS, counter, h)"
  shows "pulse_counts ps counter = map of_nat ps"
proof -
  have "counter = 0"
    using assms by (auto simp: timer_extend_driver_init_def Let_def split: prod.splits if_splits)
  then show ?thesis by (simp add: pulse_counts_periods)
qed

section \<open>All drivers\<close>

text \<open>The results of the drivers, in the order of the calls.\<close>

record driver_results =
  r_rtc :: BaseType_t
  r_led :: BaseType_t
  r_sdram :: BaseType_t
  r_lcd :: BaseType_t
  r_adc :: BaseType_t
  r_key :: BaseType_t
  r_alg :: BaseType_t
  r_tpad :: BaseType_t
  r_pwm :: BaseType_t
  r_timer :: BaseType_t
  r_pcf8574 :: BaseType_t
  r_ap3216 :: BaseType_t
  r_dac :: BaseType_t
  r_sdcard :: BaseType_t
  r_dma :: BaseType_t
  r_wq25 :: BaseType_t
  r_wdg :: BaseType_t

definition driver_init :: "driver_results \<Rightarrow> BaseType_t" where
  "driver_init r =
     (let result = pdPASS;
          result = result AND r_rtc r;
          result = result AND r_led r;
          result = result AND r_sdram r;
          result = result AND r_lcd r;
          result = result AND r_adc r;
          result = result AND r_key r;
          result = result AND r_alg r;
          result = result AND r_tpad r;
          result = result AND r_pwm r;
          result = result AND r_timer r;
          result = result AND r_pcf8574 r;
          result = result AND r_ap3216 r;
          result = result AND r_dac r;
          result = result AND r_sdcard r;
          result = result AND r_dma r;
          result = result AND r_wq25 r;
          result = result AND r_wdg r
      in result)"

definition driver_list :: "driver_results \<Rightarrow> BaseType_t list" where
  "driver_list r = [r_rtc r, r_led r, r_sdram r, r_lcd r, r_adc r, r_key r, r_alg r, r_tpad r, r_pwm r, r_timer r,
     r_pcf8574 r, r_ap3216 r, r_dac r, r_sdcard r, r_dma r, r_wq25 r, r_wdg r]"

lemma and_results:
  assumes "\<forall>x\<in>set xs. x = pdPASS \<or> x = pdFAIL" and "a = pdPASS \<or> a = pdFAIL"
  shows "fold (\<lambda>x a. a AND x) xs a = (if a = pdPASS \<and> (\<forall>x\<in>set xs. x = pdPASS) then pdPASS else pdFAIL :: BaseType_t)"
  using assms
proof (induction xs arbitrary: a)
  case Nil
  then show ?case by auto
next
  case (Cons x xs)
  note p = pd_and_eq_pass [of a x]
  have "fold (\<lambda>x a. a AND x) xs (a AND x) =
      (if a AND x = pdPASS \<and> (\<forall>y\<in>set xs. y = pdPASS) then pdPASS else pdFAIL)"
    by (rule Cons.IH) (use Cons.prems p(2) in simp_all)
  moreover have "a AND x = pdPASS \<longleftrightarrow> a = pdPASS \<and> x = pdPASS" using Cons.prems p(1) by simp
  ultimately show ?case by simp
qed

text \<open>When every driver reports \<^verbatim>\<open>pdPASS\<close> or \<^verbatim>\<open>pdFAIL\<close>, all must pass.\<close>

lemma driver_init_result:
  assumes "\<forall>x\<in>set (driver_list r). x = pdPASS \<or> x = pdFAIL"
  shows "driver_init r = (if \<forall>x\<in>set (driver_list r). x = pdPASS then pdPASS else pdFAIL)"
proof -
  have "driver_init r = fold (\<lambda>x a. a AND x) (driver_list r) pdPASS"
    by (simp add: driver_init_def driver_list_def)
  then show ?thesis using and_results [OF assms, of pdPASS] by simp
qed

text \<open>
  \<^verbatim>\<open>main\<close> combines the logger's result, whose success is 0, with the drivers' results, whose success
  is 1, by the same operator. The value is not used afterwards.
\<close>

definition main_result :: "GlobalType_t \<Rightarrow> BaseType_t \<Rightarrow> BaseType_t \<Rightarrow> BaseType_t \<Rightarrow> BaseType_t" where
  "main_result logger drivers dsp app =
     (let xReturned = (case logger of GLOBAL_OK \<Rightarrow> 0 | GLOBAL_ERROR \<Rightarrow> 1);
          xReturned = xReturned AND drivers;
          xReturned = xReturned AND dsp
      in xReturned AND app)"

lemma main_result_ok: "main_result GLOBAL_OK d s a = 0"
  by (simp add: main_result_def)

end
