(* ===== verification/Rtc.thy ===== *)
theory Rtc
  imports Gpio
begin

text \<open>
  The real-time clock driver (\<^verbatim>\<open>Drivers/Src/drv_rtc.c\<close>): the copy of the time the tasks read, the
  alarm a given time ahead, and the alarm flag the interrupt handler sets. The HAL is a list of the
  calls made; what it reports (its results, the time and date it reads, the backup register and the
  interrupt flags) are parameters. The two status messages are left out.
\<close>

section \<open>State\<close>

record RTC_TimeTypeDef =
  Hours :: u8
  Minutes :: u8
  Seconds :: u8
  TimeFormat :: u8
  SubSeconds :: u32
  SecondFraction :: u32
  DayLightSaving :: u32
  StoreOperation :: u32

record RTC_DateTypeDef =
  WeekDay :: u8
  Month :: u8
  Date :: u8
  Year :: u8

record RTC_AlarmTypeDef =
  AlarmTime :: RTC_TimeTypeDef
  AlarmMask :: u32
  AlarmSubSecondMask :: u32
  AlarmDateWeekDaySel :: u32
  AlarmDateWeekDay :: u8
  Alarm :: u32

record RTC_INFO =
  rtc_time :: RTC_TimeTypeDef
  rtc_date :: RTC_DateTypeDef

datatype rtc_event =
    Rtc_SetTime RTC_TimeTypeDef
  | Rtc_SetDate RTC_DateTypeDef
  | Rtc_BkpWrite u32
  | Rtc_SetAlarm RTC_AlarmTypeDef
  | Rtc_ClearAlarm
  | Rtc_ClearExti
  | Rtc_Nvic hw_event

record rtc_world =
  rtc_info :: RTC_INFO
  rtc_arm_handler :: RTC_AlarmTypeDef
  is_alarm :: BaseType_t
  rtc_hist :: "rtc_event list"

definition rtc_emit :: "rtc_event \<Rightarrow> rtc_world \<Rightarrow> rtc_world" where
  "rtc_emit e w = w\<lparr>rtc_hist := rtc_hist w @ [e]\<rparr>"

section \<open>Constants\<close>

definition RTC_DATE_YEAR :: u8 where "RTC_DATE_YEAR = 23"
definition RTC_DATE_MONTH :: u8 where "RTC_DATE_MONTH = 9"
definition RTC_DATE_DAY :: u8 where "RTC_DATE_DAY = 4"
definition RTC_DATE_WEEK :: u8 where "RTC_DATE_WEEK = 1"
definition RTC_TIME_HOUR :: u8 where "RTC_TIME_HOUR = 21"
definition RTC_TIME_MINUTE :: u8 where "RTC_TIME_MINUTE = 6"
definition RTC_TIME_SECOND :: u8 where "RTC_TIME_SECOND = 0"
definition RTC_SET_FLAGS :: u32 where "RTC_SET_FLAGS = 0x5B5B"

text \<open>Constants of the HAL's headers.\<close>

definition RTC_ALARMSUBSECONDMASK_NONE :: u32 where "RTC_ALARMSUBSECONDMASK_NONE = 0x0F000000"
definition RTC_ALARMDATEWEEKDAYSEL_WEEKDAY :: u32 where "RTC_ALARMDATEWEEKDAYSEL_WEEKDAY = 0x40000000"
definition RTC_ALARM_A :: u32 where "RTC_ALARM_A = 0x100"

section \<open>Operations\<close>

definition rtc_set_time :: "u8 \<Rightarrow> u8 \<Rightarrow> u8 \<Rightarrow> rtc_world \<Rightarrow> rtc_world" where
  "rtc_set_time hour mn sec w =
     (let t = (rtc_time (rtc_info w))\<lparr>Hours := hour, Minutes := mn, Seconds := sec,
                DayLightSaving := 0, StoreOperation := 0\<rparr>
      in rtc_emit (Rtc_SetTime t) (w\<lparr>rtc_info := (rtc_info w)\<lparr>rtc_time := t\<rparr>\<rparr>))"

definition rtc_set_date :: "u8 \<Rightarrow> u8 \<Rightarrow> u8 \<Rightarrow> u8 \<Rightarrow> rtc_world \<Rightarrow> rtc_world" where
  "rtc_set_date year month date week w =
     (let d = \<lparr>WeekDay = week, Month = month, Date = date, Year = year\<rparr>
      in rtc_emit (Rtc_SetDate d) (w\<lparr>rtc_info := (rtc_info w)\<lparr>rtc_date := d\<rparr>\<rparr>))"

definition rtc_time_read :: "rtc_world \<Rightarrow> RTC_INFO" where
  "rtc_time_read w = rtc_info w"

definition rtc_set_alarm :: "u8 \<Rightarrow> u8 \<Rightarrow> u8 \<Rightarrow> u8 \<Rightarrow> rtc_world \<Rightarrow> rtc_world" where
  "rtc_set_alarm week hour mn sec w =
     (let a = rtc_arm_handler w;
          a = a\<lparr>AlarmTime := (AlarmTime a)\<lparr>Hours := hour, Minutes := mn, Seconds := sec,
                  SubSeconds := 0, TimeFormat := 0\<rparr>,
                AlarmMask := 0, AlarmSubSecondMask := RTC_ALARMSUBSECONDMASK_NONE,
                AlarmDateWeekDaySel := RTC_ALARMDATEWEEKDAYSEL_WEEKDAY,
                AlarmDateWeekDay := week, Alarm := RTC_ALARM_A\<rparr>;
          w = rtc_emit (Rtc_SetAlarm a) (w\<lparr>rtc_arm_handler := a\<rparr>);
          w = rtc_emit (Rtc_Nvic (SetPriority RTC_Alarm_IRQn 1 2)) w
      in rtc_emit (Rtc_Nvic (EnableIRQ RTC_Alarm_IRQn)) w)"

definition rtc_alarm_register :: "u8 \<Rightarrow> u8 \<Rightarrow> u8 \<Rightarrow> u8 \<Rightarrow> rtc_world \<Rightarrow> rtc_world" where
  "rtc_alarm_register day hour mn sec w =
     (let alarm_week = 0; alarm_hour = 0; alarm_min = 0; alarm_sec = 0;
          t = rtc_time (rtc_info w);
          alarm_sec = alarm_sec + (Seconds t + sec);
          (alarm_sec, alarm_min) =
            (if alarm_sec \<ge> 60 then (alarm_sec - 60, alarm_min + 1) else (alarm_sec, alarm_min));
          alarm_min = alarm_min + (Minutes t + mn);
          (alarm_min, alarm_hour) =
            (if alarm_min \<ge> 60 then (alarm_min - 60, alarm_hour + 1) else (alarm_min, alarm_hour));
          alarm_hour = alarm_hour + (Hours t + hour);
          (alarm_hour, alarm_week) =
            (if alarm_hour \<ge> 24 then (alarm_hour - 24, alarm_week + 1) else (alarm_hour, alarm_week));
          alarm_week = alarm_week + (WeekDay (rtc_date (rtc_info w)) + day);
          alarm_week = (if alarm_week > 7 then alarm_week - 7 else alarm_week)
      in rtc_set_alarm alarm_week alarm_hour alarm_min alarm_sec w)"

text \<open>\<open>time\<close> and \<open>date\<close> are what the HAL reads from the clock.\<close>

definition rtc_update :: "RTC_TimeTypeDef \<Rightarrow> RTC_DateTypeDef \<Rightarrow> rtc_world \<Rightarrow> RTC_INFO \<times> rtc_world" where
  "rtc_update time date w =
     (let w = w\<lparr>rtc_info := (rtc_info w)\<lparr>rtc_time := time\<rparr>\<rparr>;
          w = w\<lparr>rtc_info := (rtc_info w)\<lparr>rtc_date := date\<rparr>\<rparr>
      in (rtc_info w, w))"

text \<open>The handler; \<open>flag\<close> and \<open>enabled\<close> are the alarm's bits in the status and control registers.\<close>

definition RTC_Alarm_IRQHandler :: "bool \<Rightarrow> bool \<Rightarrow> rtc_world \<Rightarrow> rtc_world" where
  "RTC_Alarm_IRQHandler flag enabled w =
     rtc_emit Rtc_ClearExti
       (if flag then if enabled then rtc_emit Rtc_ClearAlarm (w\<lparr>is_alarm := 1\<rparr>) else w else w)"

definition rtc_alarm_state_write :: "BaseType_t \<Rightarrow> rtc_world \<Rightarrow> rtc_world" where
  "rtc_alarm_state_write type w =
     (let w = rtc_emit (Rtc_Nvic (DisableIRQ RTC_Alarm_IRQn)) w;
          w = w\<lparr>is_alarm := type\<rparr>
      in rtc_emit (Rtc_Nvic (EnableIRQ RTC_Alarm_IRQn)) w)"

definition rtc_alarm_state_read :: "rtc_world \<Rightarrow> BaseType_t" where
  "rtc_alarm_state_read w = is_alarm w"

text \<open>\<open>clk\<close> and \<open>ini\<close> are the results of the HAL's clock selection and initialisation, \<open>bkp\<close> the backup register.\<close>

definition rtc_hardware_init ::
  "HAL_StatusTypeDef \<Rightarrow> HAL_StatusTypeDef \<Rightarrow> u32 \<Rightarrow> rtc_world \<Rightarrow> BaseType_t \<times> rtc_world" where
  "rtc_hardware_init clk ini bkp w =
     (if clk \<noteq> HAL_OK then (pdFAIL, w)
      else if ini \<noteq> HAL_OK then (pdFAIL, w)
      else if bkp \<noteq> RTC_SET_FLAGS then
        (let w = rtc_set_time RTC_TIME_HOUR RTC_TIME_MINUTE RTC_TIME_SECOND w;
             w = rtc_set_date RTC_DATE_YEAR RTC_DATE_MONTH RTC_DATE_DAY RTC_DATE_WEEK w
         in (pdPASS, rtc_emit (Rtc_BkpWrite RTC_SET_FLAGS) w))
      else (pdPASS, w))"

definition rtc_driver_init ::
  "HAL_StatusTypeDef \<Rightarrow> HAL_StatusTypeDef \<Rightarrow> u32 \<Rightarrow> RTC_TimeTypeDef \<Rightarrow> RTC_DateTypeDef \<Rightarrow> rtc_world
     \<Rightarrow> BaseType_t \<times> rtc_world" where
  "rtc_driver_init clk ini bkp time date w =
     (let (result, w) = rtc_hardware_init clk ini bkp w
      in if result = pdPASS then (result, rtc_alarm_register 0 0 0 5 (snd (rtc_update time date w)))
         else (result, w))"

section \<open>The clock\<close>

text \<open>Weekday (1 to 7), hour, minute and second, and one second passing.\<close>

type_synonym wall = "nat \<times> nat \<times> nat \<times> nat"

fun wall_ok :: "wall \<Rightarrow> bool" where
  "wall_ok (d, h, m, s) \<longleftrightarrow> 1 \<le> d \<and> d \<le> 7 \<and> h < 24 \<and> m < 60 \<and> s < 60"

fun wall_tick :: "wall \<Rightarrow> wall" where
  "wall_tick (d, h, m, s) =
     (if s < 59 then (d, h, m, s + 1)
      else if m < 59 then (d, h, m + 1, 0)
      else if h < 23 then (d, h + 1, 0, 0)
      else if d < 7 then (d + 1, 0, 0, 0) else (1, 0, 0, 0))"

fun wall_seconds :: "wall \<Rightarrow> nat" where
  "wall_seconds (d, h, m, s) = (((d - 1) * 24 + h) * 60 + m) * 60 + s"

abbreviation week_seconds :: nat where
  "week_seconds \<equiv> 604800"

lemma wall_seconds_less: "wall_ok t \<Longrightarrow> wall_seconds t < week_seconds"
  by (cases t) auto

lemma digit_inj:
  fixes a b x y n :: nat
  assumes "a * n + x = b * n + y" and "x < n" and "y < n"
  shows "a = b \<and> x = y"
proof -
  have "(a * n + x) div n = (b * n + y) div n" using assms(1) by simp
  then have "a = b" using assms(2,3) by (simp add: div_mult_self3)
  then show ?thesis using assms(1) by simp
qed

lemma wall_seconds_inj:
  assumes "wall_ok t" and "wall_ok t'" and "wall_seconds t = wall_seconds t'"
  shows "t = t'"
proof -
  obtain d h m s where t: "t = (d, h, m, s)" by (cases t)
  obtain d' h' m' s' where t': "t' = (d', h', m', s')" by (cases t')
  have e: "(((d - 1) * 24 + h) * 60 + m) * 60 + s = (((d' - 1) * 24 + h') * 60 + m') * 60 + s'"
    using assms(3) by (simp only: t t' wall_seconds.simps)
  have ok: "1 \<le> d" "1 \<le> d'" "h < 24" "h' < 24" "m < 60" "m' < 60" "s < 60" "s' < 60"
    using assms(1,2) by (simp_all add: t t')
  note e = digit_inj [OF e ok(7,8)]
  note f = digit_inj [OF conjunct1 [OF e] ok(5,6)]
  note g = digit_inj [OF conjunct1 [OF f] ok(3,4)]
  show ?thesis using e f g ok(1,2) by (auto simp: t t')
qed

lemma wall_tick_ok:
  "wall_ok t \<Longrightarrow> wall_ok (wall_tick t) \<and> wall_seconds (wall_tick t) = (wall_seconds t + 1) mod week_seconds"
proof (cases t)
  case (fields d h m s)
  assume ok: "wall_ok t"
  have l: "wall_seconds t < week_seconds" using ok by (rule wall_seconds_less)
  show ?thesis
  proof (cases "d = 7 \<and> h = 23 \<and> m = 59 \<and> s = 59")
    case True
    then show ?thesis by (simp add: fields)
  next
    case False
    then have "wall_ok (wall_tick t)" and e: "wall_seconds (wall_tick t) = wall_seconds t + 1"
      using ok by (auto simp: fields Suc_diff_le)
    then show ?thesis using wall_seconds_less [of "wall_tick t"] by simp
  qed
qed

lemma wall_ticks:
  assumes "wall_ok t"
  shows "wall_ok ((wall_tick ^^ n) t) \<and> wall_seconds ((wall_tick ^^ n) t) = (wall_seconds t + n) mod week_seconds"
proof (induction n)
  case 0
  show ?case using assms wall_seconds_less [OF assms] by simp
next
  case (Suc n)
  then show ?case using wall_tick_ok [of "(wall_tick ^^ n) t"] by (simp add: mod_simps)
qed

lemma ticks_reach:
  assumes "wall_ok t" and "wall_ok t'" and "wall_seconds t' = (wall_seconds t + n) mod week_seconds"
  shows "(wall_tick ^^ n) t = t'"
  using assms wall_ticks [of t n] wall_seconds_inj by simp

lemma ticks_first:
  assumes "wall_ok t" and "k < n" and "n < week_seconds"
  shows "(wall_tick ^^ k) t \<noteq> (wall_tick ^^ n) t"
proof
  assume e: "(wall_tick ^^ k) t = (wall_tick ^^ n) t"
  have "(wall_seconds t + k) mod week_seconds = (wall_seconds t + n) mod week_seconds"
    using wall_ticks [OF assms(1), of k] wall_ticks [OF assms(1), of n] e by simp
  then have "week_seconds dvd (wall_seconds t + n) - (wall_seconds t + k)"
    using assms(2) by (metis mod_eq_dvd_iff_nat add_le_cancel_left less_imp_le)
  then have "week_seconds dvd n - k" by simp
  then show False using assms(2,3) by (auto dest: dvd_imp_le)
qed

section \<open>The alarm\<close>

text \<open>The wall time a driver time and date denote, and the one an alarm is set for.\<close>

definition wall_of :: "u8 \<Rightarrow> RTC_TimeTypeDef \<Rightarrow> wall" where
  "wall_of d t = (unat d, unat (Hours t), unat (Minutes t), unat (Seconds t))"

abbreviation now :: "rtc_world \<Rightarrow> wall" where
  "now w \<equiv> wall_of (WeekDay (rtc_date (rtc_info w))) (rtc_time (rtc_info w))"

abbreviation alarm_at :: "RTC_AlarmTypeDef \<Rightarrow> wall" where
  "alarm_at a \<equiv> wall_of (AlarmDateWeekDay a) (AlarmTime a)"

lemma unat_plus_small: "unat (a :: u8) + unat b < 256 \<Longrightarrow> unat (a + b) = unat a + unat b"
  by (simp add: unat_word_ariths)

text \<open>One step of the carry chain: \<open>n\<close> is the base of the digit, \<open>c\<close> the carry from the one below.\<close>

lemma carry_step:
  fixes a b c n :: u8
  assumes "unat a < unat n" and "unat b < unat n" and "unat c \<le> 1" and "unat n \<le> 60"
  shows "unat (c + (a + b)) = unat c + unat a + unat b"
    and "n \<le> c + (a + b) \<longleftrightarrow> unat n \<le> unat c + unat a + unat b"
    and "n \<le> c + (a + b) \<Longrightarrow> unat (c + (a + b) - n) = unat c + unat a + unat b - unat n"
proof -
  have ab: "unat (a + b) = unat a + unat b" using assms by (intro unat_plus_small) linarith
  then show s: "unat (c + (a + b)) = unat c + unat a + unat b"
    using assms by (subst unat_plus_small) linarith+
  then show "n \<le> c + (a + b) \<longleftrightarrow> unat n \<le> unat c + unat a + unat b" by (simp add: word_le_nat_alt)
  show "n \<le> c + (a + b) \<Longrightarrow> unat (c + (a + b) - n) = unat c + unat a + unat b - unat n"
    using s by (simp add: unat_sub)
qed

text \<open>The alarm time as numbers.\<close>

definition alarm_wall :: "wall \<Rightarrow> wall \<Rightarrow> wall" where
  "alarm_wall t u =
     (case (t, u) of ((d, h, m, s), (d', h', m', s')) \<Rightarrow>
        let cs = (s + s') div 60; cm = (cs + m + m') div 60; ch = (cm + h + h') div 24; e = ch + d + d'
        in (if e > 7 then e - 7 else e, (cm + h + h') mod 24, (cs + m + m') mod 60, (s + s') mod 60))"

lemma carry_digit:
  fixes x n :: nat
  assumes "x < 2 * n"
  shows "x div n = (if n \<le> x then 1 else 0)" and "x mod n = (if n \<le> x then x - n else x)"
  using assms by (auto simp: div_nat_eqI le_mod_geq)

lemma carry_word:
  fixes a b c n :: u8
  assumes "unat a < unat n" and "unat b < unat n" and "unat c \<le> 1" and "unat n \<le> 60"
  defines "x \<equiv> c + (a + b)"
  shows "unat (if n \<le> x then x - n else x) = (unat c + unat a + unat b) mod unat n"
    and "unat (if n \<le> x then (0 :: u8) + 1 else 0) = (unat c + unat a + unat b) div unat n"
    and "(unat c + unat a + unat b) div unat n \<le> 1"
proof -
  note c = carry_step [OF assms(1-4), folded x_def]
  have l: "unat c + unat a + unat b < 2 * unat n" using assms(1-3) by linarith
  show "unat (if n \<le> x then x - n else x) = (unat c + unat a + unat b) mod unat n"
    using c by (simp add: carry_digit(2) [OF l])
  show "unat (if n \<le> x then (0 :: u8) + 1 else 0) = (unat c + unat a + unat b) div unat n"
    using c(2) by (simp add: carry_digit(1) [OF l])
  show "(unat c + unat a + unat b) div unat n \<le> 1" by (simp add: carry_digit(1) [OF l])
qed

lemma week_word:
  fixes d e c :: u8
  assumes "unat d \<le> 7" and "unat e \<le> 7" and "unat c \<le> 1"
  defines "x \<equiv> c + (d + e)"
  shows "unat (if x > 7 then x - 7 else x)
       = (if unat c + unat d + unat e > 7 then unat c + unat d + unat e - 7 else unat c + unat d + unat e)"
proof -
  have de: "unat (d + e) = unat d + unat e" using assms by (intro unat_plus_small) linarith
  then have x: "unat x = unat c + unat d + unat e" unfolding x_def
    using assms by (subst unat_plus_small) linarith+
  have g: "x > 7 \<longleftrightarrow> unat x > 7" by (simp add: word_less_nat_alt)
  have "x > 7 \<Longrightarrow> unat (x - 7) = unat x - 7" by (simp add: unat_sub word_less_nat_alt word_le_nat_alt)
  then show ?thesis using x g by simp
qed

lemma if_prod: "(if c then (a, b) else (a', b')) = (if c then a else a', if c then b else b')"
  by simp

lemma rtc_set_alarm_wall:
  "alarm_at (rtc_arm_handler (rtc_set_alarm week hour mn sec w)) = (unat week, unat hour, unat mn, unat sec)"
  by (simp add: rtc_set_alarm_def rtc_emit_def wall_of_def Let_def)

lemma rtc_alarm_register_wall:
  assumes ok: "wall_ok (now w)" and off: "unat day < 7" "unat hour < 24" "unat mn < 60" "unat sec < 60"
  shows "alarm_at (rtc_arm_handler (rtc_alarm_register day hour mn sec w))
       = alarm_wall (now w) (unat day, unat hour, unat mn, unat sec)"
proof -
  define t where "t = rtc_time (rtc_info w)"
  define d where "d = WeekDay (rtc_date (rtc_info w))"
  define s where "s = 0 + (Seconds t + sec)"
  define cs where "cs = (if 60 \<le> s then (0 :: u8) + 1 else 0)"
  define m where "m = cs + (Minutes t + mn)"
  define cm where "cm = (if 60 \<le> m then (0 :: u8) + 1 else 0)"
  define h where "h = cm + (Hours t + hour)"
  define ch where "ch = (if 24 \<le> h then (0 :: u8) + 1 else 0)"
  define e where "e = ch + (d + day)"
  have reg: "rtc_alarm_register day hour mn sec w =
      rtc_set_alarm (if e > 7 then e - 7 else e) (if 24 \<le> h then h - 24 else h)
        (if 60 \<le> m then m - 60 else m) (if 60 \<le> s then s - 60 else s) w"
    unfolding rtc_alarm_register_def Let_def if_prod prod.case e_def ch_def h_def cm_def m_def cs_def s_def t_def d_def ..
  have l: "unat (Seconds t) < unat (60 :: u8)" "unat (Minutes t) < unat (60 :: u8)"
    "unat (Hours t) < unat (24 :: u8)" "unat d \<le> 7"
    using ok by (simp_all add: wall_of_def t_def d_def)
  have o: "unat sec < unat (60 :: u8)" "unat mn < unat (60 :: u8)" "unat hour < unat (24 :: u8)" "unat day \<le> 7"
    using off by simp_all
  have z: "unat (0 :: u8) \<le> 1" "unat (60 :: u8) \<le> 60" "unat (24 :: u8) \<le> 60" by simp_all
  note cw1 = carry_word [OF l(1) o(1) z(1,2), folded s_def, folded cs_def]
  have c1: "unat cs \<le> 1" using cw1(2,3) by simp
  note cw2 = carry_word [OF l(2) o(2) c1 z(2), folded m_def, folded cm_def]
  have c2: "unat cm \<le> 1" using cw2(2,3) by simp
  note cw3 = carry_word [OF l(3) o(3) c2 z(3), folded h_def, folded ch_def]
  have c3: "unat ch \<le> 1" using cw3(2,3) by simp
  note ww = week_word [OF l(4) o(4) c3, folded e_def]
  have n: "unat (60 :: u8) = 60" "unat (24 :: u8) = 24" "unat (0 :: u8) = 0" by simp_all
  have now: "now w = (unat d, unat (Hours t), unat (Minutes t), unat (Seconds t))"
    by (simp only: wall_of_def d_def t_def)
  show ?thesis
    unfolding reg rtc_set_alarm_wall now alarm_wall_def prod.case Let_def ww cw1(1) cw2(1) cw3(1) cw1(2) cw2(2) cw3(2) n
    by (simp only: add_0 ac_simps)
qed

lemma alarm_wall_seconds:
  assumes "wall_ok t" and "d' < 7" "h' < 24" "m' < 60" "s' < 60"
  shows "wall_ok (alarm_wall t (d', h', m', s'))
       \<and> wall_seconds (alarm_wall t (d', h', m', s'))
          = (wall_seconds t + (((d' * 24 + h') * 60 + m') * 60 + s')) mod week_seconds"
proof -
  obtain d h m s where t: "t = (d, h, m, s)" by (cases t)
  define cs where "cs = (s + s') div 60"
  define cm where "cm = (cs + m + m') div 60"
  define ch where "ch = (cm + h + h') div 24"
  define e where "e = ch + d + d'"
  define d2 where "d2 = (if e > 7 then e - 7 else e)"
  have s2: "s + s' = cs * 60 + (s + s') mod 60" by (simp add: cs_def)
  have m2: "cs + m + m' = cm * 60 + (cs + m + m') mod 60" by (simp add: cm_def)
  have h2: "cm + h + h' = ch * 24 + (cm + h + h') mod 24" by (simp add: ch_def)
  have ok: "1 \<le> d" "d \<le> 7" "h < 24" "m < 60" "s < 60" using assms(1) by (simp_all add: t)
  have c: "cs \<le> 1" "cm \<le> 1" "ch \<le> 1" unfolding ch_def cm_def cs_def using ok assms(2-5) by simp_all
  have e: "1 \<le> e" "e \<le> 14" using ok(1,2) assms(2) c(3) by (simp_all add: e_def)
  have w: "alarm_wall t (d', h', m', s') = (d2, (cm + h + h') mod 24, (cs + m + m') mod 60, (s + s') mod 60)"
    by (simp add: alarm_wall_def t Let_def d2_def e_def ch_def cm_def cs_def)
  have wok: "wall_ok (alarm_wall t (d', h', m', s'))" using e unfolding w d2_def by auto
  have tot: "wall_seconds t + (((d' * 24 + h') * 60 + m') * 60 + s')
      = (((e - 1) * 24 + (cm + h + h') mod 24) * 60 + (cs + m + m') mod 60) * 60 + (s + s') mod 60"
    using s2 m2 h2 ok(1) by (simp add: t e_def algebra_simps)
  define lo where "lo = ((cm + h + h') mod 24 * 60 + (cs + m + m') mod 60) * 60 + (s + s') mod 60"
  have hi: "((x * 24 + (cm + h + h') mod 24) * 60 + (cs + m + m') mod 60) * 60 + (s + s') mod 60 = x * 86400 + lo" for x
    by (simp add: lo_def)
  have "e - 1 = d2 - 1 \<or> e - 1 = (d2 - 1) + 7" using e by (auto simp: d2_def)
  then have "(e - 1) * 86400 + lo = (d2 - 1) * 86400 + lo \<or> (e - 1) * 86400 + lo = ((d2 - 1) * 86400 + lo) + week_seconds"
    by auto
  then have "((d2 - 1) * 86400 + lo) mod week_seconds = ((e - 1) * 86400 + lo) mod week_seconds"
    by (elim disjE) (simp_all only: mod_add_self2)
  then have "wall_seconds (alarm_wall t (d', h', m', s')) mod week_seconds
      = (wall_seconds t + (((d' * 24 + h') * 60 + m') * 60 + s')) mod week_seconds"
    unfolding w tot wall_seconds.simps hi .
  then show ?thesis using wok wall_seconds_less [OF wok] by simp
qed

text \<open>What a registered alarm means: the first time the clock shows the alarm's time is the offset later.\<close>

definition goes_off_after :: "nat \<Rightarrow> wall \<Rightarrow> RTC_AlarmTypeDef \<Rightarrow> bool" where
  "goes_off_after n t a \<longleftrightarrow> (wall_tick ^^ n) t = alarm_at a \<and> (\<forall>k<n. (wall_tick ^^ k) t \<noteq> alarm_at a)"

lemma rtc_alarm_register_goes_off:
  assumes "wall_ok (now w)" and "unat day < 7" "unat hour < 24" "unat mn < 60" "unat sec < 60"
  shows "goes_off_after (((unat day * 24 + unat hour) * 60 + unat mn) * 60 + unat sec) (now w)
     (rtc_arm_handler (rtc_alarm_register day hour mn sec w))"
proof -
  let ?n = "((unat day * 24 + unat hour) * 60 + unat mn) * 60 + unat sec"
  note a = alarm_wall_seconds [OF assms]
  have n: "?n < week_seconds" using assms(2-5) by simp
  have r: "(wall_tick ^^ ?n) (now w) = alarm_wall (now w) (unat day, unat hour, unat mn, unat sec)"
    using assms(1) conjunct1 [OF a] conjunct2 [OF a] by (rule ticks_reach)
  show ?thesis unfolding goes_off_after_def rtc_alarm_register_wall [OF assms]
    using r ticks_first [OF assms(1) _ n] by auto
qed

lemma rtc_alarm_register_rest:
  "rtc_info (rtc_alarm_register day hour mn sec w) = rtc_info w \<and>
   is_alarm (rtc_alarm_register day hour mn sec w) = is_alarm w \<and>
   rtc_hist (rtc_alarm_register day hour mn sec w) = rtc_hist w
      @ [Rtc_SetAlarm (rtc_arm_handler (rtc_alarm_register day hour mn sec w)),
         Rtc_Nvic (SetPriority RTC_Alarm_IRQn 1 2), Rtc_Nvic (EnableIRQ RTC_Alarm_IRQn)]"
  by (simp add: rtc_alarm_register_def rtc_set_alarm_def rtc_emit_def Let_def split_beta)

section \<open>Properties\<close>

text \<open>
  C29. For a valid time in the driver's copy of the clock (rtc_info_, not a new reading) and an
  offset of less than a week given in days, hours, minutes and seconds, rtc_alarm_register programs
  the alarm (and its interrupt) for a weekday and time that a clock showing that time and ticking
  once a second shows for the first time exactly that many seconds later: every carry and the wrap
  from Sunday to Monday is right.
\<close>

theorem rtc_alarm_goes_off:
  assumes "wall_ok (now w)" and "unat day < 7" and "unat hour < 24" and "unat mn < 60" and "unat sec < 60"
  shows "\<exists>a. goes_off_after (((unat day * 24 + unat hour) * 60 + unat mn) * 60 + unat sec) (now w) a
    \<and> rtc_hist (rtc_alarm_register day hour mn sec w) = rtc_hist w
      @ [Rtc_SetAlarm a, Rtc_Nvic (SetPriority RTC_Alarm_IRQn 1 2), Rtc_Nvic (EnableIRQ RTC_Alarm_IRQn)]"
  using rtc_alarm_register_goes_off [OF assms] rtc_alarm_register_rest [of day hour mn sec w] by blast

definition demo_time :: "u8 \<Rightarrow> u8 \<Rightarrow> u8 \<Rightarrow> RTC_TimeTypeDef" where
  "demo_time h m s = \<lparr>Hours = h, Minutes = m, Seconds = s, TimeFormat = 0, SubSeconds = 0,
     SecondFraction = 255, DayLightSaving = 0, StoreOperation = 0\<rparr>"

definition demo_date :: RTC_DateTypeDef where
  "demo_date = \<lparr>WeekDay = 7, Month = 12, Date = 31, Year = 23\<rparr>"

definition demo_rtc :: rtc_world where
  "demo_rtc = \<lparr>rtc_info = \<lparr>rtc_time = demo_time 23 59 58, rtc_date = demo_date\<rparr>,
     rtc_arm_handler = \<lparr>AlarmTime = demo_time 0 0 0, AlarmMask = 0, AlarmSubSecondMask = 0,
       AlarmDateWeekDaySel = 0, AlarmDateWeekDay = 0, Alarm = 0\<rparr>,
     is_alarm = 0, rtc_hist = []\<rparr>"

lemma demo_now: "now demo_rtc = (7, 23, 59, 58)"
  by (simp add: demo_rtc_def demo_time_def demo_date_def wall_of_def)

theorem rtc_alarm_goes_off_witness:
  "\<exists>a. goes_off_after 5 (now demo_rtc) a \<and> rtc_hist (rtc_alarm_register 0 0 0 5 demo_rtc) =
     [Rtc_SetAlarm a, Rtc_Nvic (SetPriority RTC_Alarm_IRQn 1 2), Rtc_Nvic (EnableIRQ RTC_Alarm_IRQn)]"
proof -
  have h: "rtc_hist demo_rtc = []" by (simp add: demo_rtc_def)
  show ?thesis using rtc_alarm_goes_off [of demo_rtc 0 0 0 5] unfolding demo_now h by simp
qed

text \<open>
  When the hardware initialisation succeeds, rtc_driver_init takes over the clock's time and
  date, programs the default date 2023-09-04 21:06:00 with its marker exactly when the backup
  register does not hold the marker, and schedules an alarm five seconds after the time read.
\<close>

lemma rtc_init_starts_clock:
  assumes "rtc_driver_init HAL_OK HAL_OK bkp time date w = (r, w')" and "wall_ok (wall_of (WeekDay date) time)"
  shows "r = pdPASS \<and> rtc_info w' = \<lparr>rtc_time = time, rtc_date = date\<rparr>
    \<and> is_alarm w' = is_alarm w
    \<and> (\<exists>a t d. goes_off_after 5 (wall_of (WeekDay date) time) a
        \<and> wall_of (WeekDay d) t = (1, 21, 6, 0) \<and> Date d = 4 \<and> Month d = 9 \<and> Year d = 23
        \<and> rtc_hist w' = rtc_hist w
          @ (if bkp = RTC_SET_FLAGS then [] else [Rtc_SetTime t, Rtc_SetDate d, Rtc_BkpWrite RTC_SET_FLAGS])
          @ [Rtc_SetAlarm a, Rtc_Nvic (SetPriority RTC_Alarm_IRQn 1 2), Rtc_Nvic (EnableIRQ RTC_Alarm_IRQn)])"
proof -
  define v where "v = snd (rtc_hardware_init HAL_OK HAL_OK bkp w)"
  define u where "u = snd (rtc_update time date v)"
  have w': "r = pdPASS" "w' = rtc_alarm_register 0 0 0 5 u"
    using assms(1) by (auto simp: rtc_driver_init_def rtc_hardware_init_def u_def v_def Let_def split: if_splits)
  have u: "rtc_info u = \<lparr>rtc_time = time, rtc_date = date\<rparr>" "is_alarm u = is_alarm w"
    by (simp_all add: u_def v_def rtc_update_def rtc_hardware_init_def rtc_set_time_def rtc_set_date_def rtc_emit_def Let_def)
  obtain t d where td: "wall_of (WeekDay d) t = (1, 21, 6, 0)" "Date d = 4" "Month d = 9" "Year d = 23"
    "rtc_hist u = rtc_hist w
        @ (if bkp = RTC_SET_FLAGS then [] else [Rtc_SetTime t, Rtc_SetDate d, Rtc_BkpWrite RTC_SET_FLAGS])"
    by (rule that [of "\<lparr>WeekDay = 1, Month = 9, Date = 4, Year = 23\<rparr>"
          "(rtc_time (rtc_info w))\<lparr>Hours := 21, Minutes := 6, Seconds := 0, DayLightSaving := 0, StoreOperation := 0\<rparr>"])
      (simp_all add: u_def v_def rtc_update_def rtc_hardware_init_def rtc_set_time_def rtc_set_date_def rtc_emit_def
        Let_def wall_of_def RTC_TIME_HOUR_def RTC_TIME_MINUTE_def RTC_TIME_SECOND_def RTC_DATE_YEAR_def
        RTC_DATE_MONTH_def RTC_DATE_DAY_def RTC_DATE_WEEK_def)
  define a where "a = rtc_arm_handler (rtc_alarm_register 0 0 0 5 u)"
  have g: "goes_off_after 5 (wall_of (WeekDay date) time) a"
    using rtc_alarm_register_goes_off [of u 0 0 0 5] assms(2) by (simp add: u(1) a_def)
  have rest: "rtc_info w' = rtc_info u" "is_alarm w' = is_alarm u"
    "rtc_hist w' = rtc_hist u @ [Rtc_SetAlarm a, Rtc_Nvic (SetPriority RTC_Alarm_IRQn 1 2), Rtc_Nvic (EnableIRQ RTC_Alarm_IRQn)]"
    using rtc_alarm_register_rest [of 0 0 0 5 u] by (simp_all add: w'(2) a_def)
  show ?thesis using w'(1) u td g rest by (intro conjI exI [of _ a] exI [of _ t] exI [of _ d]) simp_all
qed

end
