(* ===== verification/Fatfs_Log.thy ===== *)
theory Fatfs_Log
  imports Rtc "HOL-Library.Sublist"
begin

text \<open>
  The log file (\<^verbatim>\<open>UsrParts/fatfs_log/fatfs_logs.c\<close>): every record is stamped with the time and
  appended to a file of the SD card, directly before the scheduler runs and through a message buffer
  and a task after it. The file system is the vendored FatFS, a parameter of the model: its calls are
  functions on a state of any type. FreeRTOS's message buffer is a queue of messages of limited size.
  The log messages of the task are left out.

  \<open>log_run\<close> is any sequence of requests of the tasks, the start of the scheduler and turns of the logging
  task; \<open>log_run_device\<close> reduces it to the operations on the file in the order in which they were asked for.
  The locale \<open>file_system\<close> is what FatFS documents of the calls the log makes, \<open>late_directory\<close> what more its
  source shows of files written without a synchronisation; the lemmas on the log hold for every such file
  system. A file system in memory, with a limited space and a medium that may fail, interprets both.
\<close>

section \<open>State\<close>

definition FATFS_SYNC_MAX_TIMES :: u16 where "FATFS_SYNC_MAX_TIMES = 100"
definition FATFS_MAX_MESSAGE_BUFFER :: nat where "FATFS_MAX_MESSAGE_BUFFER = 4096"
definition FATFS_SIGNAL_WRITE_MAX_SIZE :: nat where "FATFS_SIGNAL_WRITE_MAX_SIZE = 255"

definition FATFS_LOG_OK :: u8 where "FATFS_LOG_OK = 0"
definition FATFS_LOG_MOUNT_ERROR :: u8 where "FATFS_LOG_MOUNT_ERROR = 1"
definition FATFS_LOG_FILE_ERROR :: u8 where "FATFS_LOG_FILE_ERROR = 2"
definition FATFS_LOG_SEEK_ERROR :: u8 where "FATFS_LOG_SEEK_ERROR = 3"
definition FATFS_LOG_WRITE_ERROR :: u8 where "FATFS_LOG_WRITE_ERROR = 5"
definition FATFS_LOG_OS_ERROR :: u8 where "FATFS_LOG_OS_ERROR = 6"

definition FATFS_LOG_IDLE :: u8 where "FATFS_LOG_IDLE = 0"
definition FATFS_LOG_OPEN :: u8 where "FATFS_LOG_OPEN = 1"
definition FATFS_LOG_CLOSE :: u8 where "FATFS_LOG_CLOSE = 2"

definition FATFS_EVENT_WRITE :: u8 where "FATFS_EVENT_WRITE = 0"
definition FATFS_EVENT_CLOSE :: u8 where "FATFS_EVENT_CLOSE = 1"

text \<open>FatFS's result codes, as far as the code tells them apart.\<close>

abbreviation (input) FR_OK :: u8 where "FR_OK \<equiv> 0"
abbreviation (input) FR_NO_FILE :: u8 where "FR_NO_FILE \<equiv> 4"

text \<open>The calls of FatFS; the second argument of \<open>f_open\<close> is \<^verbatim>\<open>FA_CREATE_NEW\<close>.\<close>

record 'fs fatfs_api =
  f_mount :: "'fs \<Rightarrow> u8 \<times> 'fs"
  f_open :: "u8 list \<Rightarrow> bool \<Rightarrow> 'fs \<Rightarrow> u8 \<times> 'fs"
  f_size :: "'fs \<Rightarrow> nat"
  f_lseek :: "nat \<Rightarrow> 'fs \<Rightarrow> u8 \<times> 'fs"
  f_write :: "u8 list \<Rightarrow> 'fs \<Rightarrow> u8 \<times> 'fs"
  f_sync :: "'fs \<Rightarrow> u8 \<times> 'fs"
  f_close :: "'fs \<Rightarrow> u8 \<times> 'fs"

record 'fs fatfs_world =
  fl_state :: u8
  w_times :: u16
  file_name :: "u8 list"
  msg_buffer :: "u8 list list"
  is_fatfs_os_on :: u8
  gRtcInfo :: RTC_INFO
  fs :: 'fs

section \<open>Text\<close>

text \<open>\<^verbatim>\<open>%02d\<close>\<close>

definition dec2 :: "u8 \<Rightarrow> u8 list" where
  "dec2 n = (if n < 10 then 48 # dec_str (unat n) else dec_str (unat n))"

text \<open>The time in front of a record, \<^verbatim>\<open>"%02d:%02d:%02d "\<close>, and the name of the file.\<close>

definition time_text :: "RTC_INFO \<Rightarrow> u8 list" where
  "time_text i = (let t = rtc_time i in dec2 (Hours t) @ [58] @ dec2 (Minutes t) @ [58] @ dec2 (Seconds t) @ [32])"

definition log_file_name :: "RTC_INFO \<Rightarrow> u8 list" where
  "log_file_name i =
     (let d = rtc_date i
      in str_bytes ''1:'' @ dec2 (Year d) @ [45] @ dec2 (Month d) @ [45] @ dec2 (Date d) @ str_bytes ''.txt'')"

lemma length_dec2: "2 \<le> length (dec2 n) \<and> length (dec2 n) \<le> 3"
proof -
  have l: "unat n < 2 ^ LENGTH(8)" by (rule unsigned_less)
  then have "length (dec_str (unat n)) \<le> 3" and "0 < length (dec_str (unat n))"
    using length_dec_str [of "unat n" 2] by (simp_all add: numeral_eq_Suc)
  moreover have "length (dec_str (unat n)) = 1" if "n < 10"
    using that by (simp add: dec_str.simps [of "unat n"] word_less_unat)
  moreover have "2 \<le> length (dec_str (unat n))" if "\<not> n < 10"
  proof -
    have "10 \<le> unat n" using that by (simp add: word_less_unat)
    then show ?thesis using length_dec_str [of "unat n div 10" 2] l
      by (simp add: dec_str.simps [of "unat n"] Suc_le_eq)
  qed
  ultimately show ?thesis by (simp add: dec2_def)
qed

lemma length_time_text: "9 \<le> length (time_text i) \<and> length (time_text i) \<le> 12"
  using length_dec2 [of "Hours (rtc_time i)"] length_dec2 [of "Minutes (rtc_time i)"] length_dec2 [of "Seconds (rtc_time i)"]
  by (simp add: time_text_def Let_def)

section \<open>Operations\<close>

text \<open>The results of creating the task, the message buffer and the mutex.\<close>

definition fatfs_os_init :: "BaseType_t \<Rightarrow> bool \<Rightarrow> bool \<Rightarrow> BaseType_t" where
  "fatfs_os_init xReturn buffer_ok mutex_ok =
     (if xReturn \<noteq> pdPASS \<or> \<not> buffer_ok \<or> \<not> mutex_ok then pdFAIL else pdPASS)"

definition fatfs_logs_init ::
  "'fs fatfs_api \<Rightarrow> RTC_INFO \<Rightarrow> BaseType_t \<Rightarrow> bool \<Rightarrow> bool \<Rightarrow> 'fs fatfs_world \<Rightarrow> u8 \<times> 'fs fatfs_world" where
  "fatfs_logs_init api rtc xReturn buffer_ok mutex_ok w =
     (let w = w\<lparr>w_times := 0, file_name := [], msg_buffer := []\<rparr>;
          w = w\<lparr>fl_state := FATFS_LOG_CLOSE\<rparr>;
          (r, s) = f_mount api (fs w); w = w\<lparr>fs := s\<rparr>
      in if r \<noteq> FR_OK then (FATFS_LOG_MOUNT_ERROR, w)
         else
           let w = w\<lparr>gRtcInfo := rtc\<rparr>;
               w = w\<lparr>file_name := log_file_name (gRtcInfo w)\<rparr>;
               (r, s) = f_open api (file_name w) False (fs w); w = w\<lparr>fs := s\<rparr>;
               (err, w) =
                 (if r = FR_NO_FILE
                  then (let (r, s) = f_open api (file_name w) True (fs w); w = w\<lparr>fs := s\<rparr>
                        in (if r \<noteq> FR_OK then FATFS_LOG_FILE_ERROR else FATFS_LOG_OK, w))
                  else if r = FR_OK
                  then (let (r, s) = f_lseek api (f_size api (fs w)) (fs w); w = w\<lparr>fs := s\<rparr>
                        in (if r \<noteq> FR_OK then FATFS_LOG_SEEK_ERROR else FATFS_LOG_OK, w))
                  else (FATFS_LOG_FILE_ERROR, w))
           in if err \<noteq> FATFS_LOG_OK then (err, w)
              else if fatfs_os_init xReturn buffer_ok mutex_ok \<noteq> pdPASS then (FATFS_LOG_OS_ERROR, w)
              else (FATFS_LOG_OK, w\<lparr>fl_state := FATFS_LOG_OPEN\<rparr>))"

definition fatfs_device_close :: "'fs fatfs_api \<Rightarrow> 'fs fatfs_world \<Rightarrow> u8 \<times> 'fs fatfs_world" where
  "fatfs_device_close api w =
     (if fl_state w = FATFS_LOG_IDLE then (FATFS_LOG_FILE_ERROR, w)
      else (let w = w\<lparr>fl_state := FATFS_LOG_CLOSE\<rparr>;
                (r, s) = f_close api (fs w)
            in (r, w\<lparr>fs := s\<rparr>)))"

text \<open>Opening the file again when it is closed, and the write.\<close>

definition fatfs_reopen :: "'fs fatfs_api \<Rightarrow> 'fs fatfs_world \<Rightarrow> u8 \<times> 'fs fatfs_world" where
  "fatfs_reopen api w =
     (if fl_state w = FATFS_LOG_CLOSE
      then (let (r, s) = f_open api (file_name w) False (fs w); w = w\<lparr>fs := s\<rparr>
            in if r \<noteq> FR_OK then (FATFS_LOG_FILE_ERROR, w)
               else (let (r, s) = f_lseek api (f_size api (fs w)) (fs w); w = w\<lparr>fs := s\<rparr>
                     in (if r \<noteq> FR_OK then FATFS_LOG_SEEK_ERROR else FATFS_LOG_OK, w)))
      else (FATFS_LOG_OK, w))"

definition fatfs_device_write :: "'fs fatfs_api \<Rightarrow> u8 list \<Rightarrow> 'fs fatfs_world \<Rightarrow> u8 \<times> 'fs fatfs_world" where
  "fatfs_device_write api ptr w =
     (if fl_state w = FATFS_LOG_IDLE then (FATFS_LOG_FILE_ERROR, w)
      else (let (err, w) = fatfs_reopen api w
            in if err \<noteq> FATFS_LOG_OK then (err, w)
               else (let (r, s) = f_write api ptr (fs w); w = w\<lparr>fs := s\<rparr>
                     in if r \<noteq> FR_OK then (FATFS_LOG_WRITE_ERROR, w)
                        else (let w = w\<lparr>w_times := w_times w + 1\<rparr>
                              in (FATFS_LOG_OK,
                                  if w_times w > FATFS_SYNC_MAX_TIMES
                                  then (let (_, s) = f_sync api (fs w) in w\<lparr>fs := s, w_times := 0\<rparr>)
                                  else w)))))"

text \<open>
  FreeRTOS stores every message with its length in a word of four bytes, and sends it only if it fits;
  nothing drains the buffer during the wait. The result is the number of bytes sent; \<open>mutex\<close> tells
  whether the mutex was obtained.
\<close>

definition msg_used :: "u8 list list \<Rightarrow> nat" where
  "msg_used ms = sum_list (map (\<lambda>m. length m + 4) ms)"

definition fatfs_send_message :: "bool \<Rightarrow> u8 list \<Rightarrow> 'fs fatfs_world \<Rightarrow> nat \<times> 'fs fatfs_world" where
  "fatfs_send_message mutex msg w =
     (if mutex \<and> msg_used (msg_buffer w) + length msg + 4 \<le> FATFS_MAX_MESSAGE_BUFFER
      then (length msg, w\<lparr>msg_buffer := msg_buffer w @ [msg]\<rparr>) else (0, w))"

text \<open>
  The public functions. \<open>None\<close> is an access outside the allocated 255 bytes, or through the null
  pointer when the allocation fails; \<open>unassigned\<close> is the status the code returns without having set
  it.
\<close>

definition fatfs_write ::
  "'fs fatfs_api \<Rightarrow> RTC_INFO \<Rightarrow> bool \<Rightarrow> bool \<Rightarrow> u8 \<Rightarrow> u8 list \<Rightarrow> 'fs fatfs_world \<Rightarrow> (u8 \<times> 'fs fatfs_world) option" where
  "fatfs_write api rtc allocated mutex unassigned ptr w =
     (if \<not> allocated then None
      else
        let w = w\<lparr>gRtcInfo := rtc\<rparr>
        in if is_fatfs_os_on w = 0
           then (let line = time_text (gRtcInfo w) @ ptr
                 in if length line > FATFS_SIGNAL_WRITE_MAX_SIZE then None
                    else Some (fatfs_device_write api line w))
           else (let msg = FATFS_EVENT_WRITE # time_text (gRtcInfo w) @ ptr
                 in if length msg > FATFS_SIGNAL_WRITE_MAX_SIZE then None
                    else (let (n, w) = fatfs_send_message mutex msg w
                          in Some (if n = 0 then FATFS_LOG_WRITE_ERROR else unassigned, w))))"

definition fatfs_close :: "'fs fatfs_api \<Rightarrow> bool \<Rightarrow> u8 \<Rightarrow> 'fs fatfs_world \<Rightarrow> u8 \<times> 'fs fatfs_world" where
  "fatfs_close api mutex unassigned w =
     (if is_fatfs_os_on w = 0 then fatfs_device_close api w
      else (let (n, w) = fatfs_send_message mutex [FATFS_EVENT_CLOSE] w
            in (if n = 0 then FATFS_LOG_WRITE_ERROR else unassigned, w)))"

text \<open>The task: its start, and one turn of its loop; with no message it waits.\<close>

definition fatfs_log_start :: "'fs fatfs_world \<Rightarrow> 'fs fatfs_world" where
  "fatfs_log_start w = w\<lparr>is_fatfs_os_on := 1\<rparr>"

definition fatfs_log_task :: "'fs fatfs_api \<Rightarrow> 'fs fatfs_world \<Rightarrow> 'fs fatfs_world" where
  "fatfs_log_task api w =
     (case msg_buffer w of
        [] \<Rightarrow> w
      | m # ms \<Rightarrow>
          let w = w\<lparr>msg_buffer := ms\<rparr>
          in case m of
               [] \<Rightarrow> w
             | ev # rest \<Rightarrow>
                 if ev = FATFS_EVENT_WRITE then snd (fatfs_device_write api rest w)
                 else if ev = FATFS_EVENT_CLOSE then snd (fatfs_device_close api w)
                 else w)"

section \<open>The task and direct writing\<close>

text \<open>Records with the times at which they are written.\<close>

fun fatfs_writes ::
  "'fs fatfs_api \<Rightarrow> u8 \<Rightarrow> (RTC_INFO \<times> u8 list) list \<Rightarrow> 'fs fatfs_world \<Rightarrow> 'fs fatfs_world option" where
  "fatfs_writes api unassigned [] w = Some w"
| "fatfs_writes api unassigned ((rtc, d) # rs) w =
     (case fatfs_write api rtc True True unassigned d w of
        None \<Rightarrow> None
      | Some (_, w) \<Rightarrow> fatfs_writes api unassigned rs w)"

definition record_line :: "RTC_INFO \<times> u8 list \<Rightarrow> u8 list" where
  "record_line r = time_text (fst r) @ snd r"

definition device_writes :: "'fs fatfs_api \<Rightarrow> u8 list list \<Rightarrow> 'fs fatfs_world \<Rightarrow> 'fs fatfs_world" where
  "device_writes api ls w = fold (\<lambda>l w. snd (fatfs_device_write api l w)) ls w"

text \<open>The fields around the file, which the device functions neither read nor write.\<close>

definition with_queue :: "RTC_INFO \<Rightarrow> u8 \<Rightarrow> u8 list list \<Rightarrow> 'fs fatfs_world \<Rightarrow> 'fs fatfs_world" where
  "with_queue g on ms w = w\<lparr>gRtcInfo := g, is_fatfs_os_on := on, msg_buffer := ms\<rparr>"

lemma reopen_with_queue:
  "fatfs_reopen api (with_queue g on ms w) = map_prod id (with_queue g on ms) (fatfs_reopen api w)"
  by (simp add: fatfs_reopen_def with_queue_def Let_def split_def)

lemma device_write_with_queue:
  "snd (fatfs_device_write api l (with_queue g on ms w)) = with_queue g on ms (snd (fatfs_device_write api l w))"
proof -
  have s: "fl_state (with_queue g on ms w) = fl_state w" by (simp add: with_queue_def)
  obtain e w1 where r: "fatfs_reopen api w = (e, w1)" by fastforce
  show ?thesis
    unfolding fatfs_device_write_def s reopen_with_queue r
    by (simp add: with_queue_def Let_def split_def)
qed

lemma device_writes_with_queue:
  "device_writes api ls (with_queue g on ms w) = with_queue g on ms (device_writes api ls w)"
  by (induction ls arbitrary: w) (simp_all add: device_writes_def device_write_with_queue)

lemma device_writes_Cons: "device_writes api (l # ls) w = device_writes api ls (snd (fatfs_device_write api l w))"
  by (simp add: device_writes_def)

lemma device_write_queue:
  "is_fatfs_os_on (snd (fatfs_device_write api l w)) = is_fatfs_os_on w"
  "msg_buffer (snd (fatfs_device_write api l w)) = msg_buffer w"
  by (simp_all add: fatfs_device_write_def fatfs_reopen_def Let_def split_def)

lemma with_queue_id: "is_fatfs_os_on w = on \<Longrightarrow> msg_buffer w = ms \<Longrightarrow> w\<lparr>gRtcInfo := g\<rparr> = with_queue g on ms w"
  by (simp add: with_queue_def)

text \<open>The last time that was read.\<close>

definition last_time :: "(RTC_INFO \<times> u8 list) list \<Rightarrow> 'fs fatfs_world \<Rightarrow> RTC_INFO" where
  "last_time rs w = (if rs = [] then gRtcInfo w else fst (last rs))"

lemma direct_writes:
  assumes "is_fatfs_os_on w = 0" and "\<forall>r\<in>set rs. length (record_line r) \<le> 255"
  shows "fatfs_writes api u rs w =
     Some (with_queue (last_time rs w) 0 (msg_buffer w) (device_writes api (map record_line rs) w))"
  using assms
proof (induction rs arbitrary: w)
  case Nil
  then show ?case by (simp add: last_time_def device_writes_def with_queue_def)
next
  case (Cons r rs)
  obtain rtc d where r: "r = (rtc, d)" by fastforce
  define w1 where "w1 = snd (fatfs_device_write api (record_line r) (w\<lparr>gRtcInfo := rtc\<rparr>))"
  have e: "w1 = with_queue rtc 0 (msg_buffer w) (snd (fatfs_device_write api (record_line r) w))"
    unfolding w1_def using Cons.prems(1) by (simp add: with_queue_id device_write_with_queue)
  have "fatfs_writes api u (r # rs) w = fatfs_writes api u rs w1"
    using Cons.prems by (simp add: r fatfs_write_def record_line_def FATFS_SIGNAL_WRITE_MAX_SIZE_def w1_def Let_def
        split: prod.split)
  also have "\<dots> = Some (with_queue (last_time rs w1) 0 (msg_buffer w1) (device_writes api (map record_line rs) w1))"
    by (rule Cons.IH) (use Cons.prems in \<open>simp_all add: e with_queue_def\<close>)
  finally show ?case
    by (simp add: e device_writes_with_queue device_writes_Cons last_time_def)
      (simp add: with_queue_def r)
qed

lemma queued_writes:
  assumes "is_fatfs_os_on w = 1" and "\<forall>r\<in>set rs. length (record_line r) \<le> 254"
    and "msg_used (msg_buffer w) + sum_list (map (\<lambda>r. length (record_line r) + 5) rs) \<le> 4096"
  shows "fatfs_writes api u rs w =
     Some (with_queue (last_time rs w) 1 (msg_buffer w @ map (\<lambda>r. FATFS_EVENT_WRITE # record_line r) rs) w)"
  using assms
proof (induction rs arbitrary: w)
  case Nil
  then show ?case by (simp add: last_time_def with_queue_def)
next
  case (Cons r rs)
  obtain rtc d where r: "r = (rtc, d)" by fastforce
  let ?w = "with_queue rtc 1 (msg_buffer w @ [FATFS_EVENT_WRITE # record_line r]) w"
  have e: "w\<lparr>gRtcInfo := rtc, msg_buffer := msg_buffer w @ [FATFS_EVENT_WRITE # record_line r]\<rparr> = ?w"
    using Cons.prems(1) by (cases w) (simp add: with_queue_def)
  have "fatfs_writes api u (r # rs) w = fatfs_writes api u rs ?w"
    unfolding e [symmetric] using Cons.prems
    by (simp add: r fatfs_write_def record_line_def FATFS_SIGNAL_WRITE_MAX_SIZE_def fatfs_send_message_def
        FATFS_MAX_MESSAGE_BUFFER_def Let_def)
  also have "\<dots> = Some (with_queue (last_time rs ?w) 1
      (msg_buffer ?w @ map (\<lambda>r. FATFS_EVENT_WRITE # record_line r) rs) ?w)"
    by (rule Cons.IH) (use Cons.prems in \<open>simp_all add: with_queue_def msg_used_def\<close>)
  finally show ?case by (simp add: with_queue_def last_time_def r)
qed

lemma task_drains:
  "(fatfs_log_task api ^^ length ls) (with_queue g on (map (\<lambda>l. FATFS_EVENT_WRITE # l) ls @ ms) w) =
     with_queue g on ms (device_writes api ls w)"
proof (induction ls arbitrary: w)
  case Nil
  show ?case by (simp add: device_writes_def)
next
  case (Cons l ls)
  have "fatfs_log_task api (with_queue g on (map (\<lambda>l. FATFS_EVENT_WRITE # l) (l # ls) @ ms) w) =
      snd (fatfs_device_write api l (with_queue g on (map (\<lambda>l. FATFS_EVENT_WRITE # l) ls @ ms) w))"
    by (simp add: fatfs_log_task_def with_queue_def Let_def)
  also have "\<dots> = with_queue g on (map (\<lambda>l. FATFS_EVENT_WRITE # l) ls @ ms) (snd (fatfs_device_write api l w))"
    by (rule device_write_with_queue)
  finally show ?case
    by (simp only: length_Cons funpow_Suc_right comp_def Cons.IH device_writes_Cons)
qed

text \<open>
  C13. For every file system, records that fit the message buffer and are written while the
  scheduler runs have, once the logging task has taken as many turns, exactly the effect of writing
  them directly: the same file, counters and state.
\<close>

theorem fatfs_task_equals_direct:
  assumes "is_fatfs_os_on w = 0" and "msg_buffer w = []"
    and "\<forall>r\<in>set rs. length (record_line r) \<le> 254"
    and "sum_list (map (\<lambda>r. length (record_line r) + 5) rs) \<le> 4096"
  shows "\<exists>w1 w2. fatfs_writes api u rs w = Some w1
      \<and> fatfs_writes api u' rs (fatfs_log_start w) = Some w2
      \<and> length (msg_buffer w2) = length rs
      \<and> (fatfs_log_task api ^^ length rs) w2 = fatfs_log_start w1"
proof -
  let ?g = "last_time rs w" and ?ls = "map record_line rs"
  have d: "fatfs_writes api u rs w = Some (with_queue ?g 0 [] (device_writes api ?ls w))"
    using direct_writes [OF assms(1)] assms(2,3) by fastforce
  have q: "fatfs_writes api u' rs (fatfs_log_start w) =
      Some (with_queue ?g 1 (map (\<lambda>l. FATFS_EVENT_WRITE # l) ?ls @ []) (fatfs_log_start w))"
    using queued_writes [of "fatfs_log_start w" rs api u'] assms(2-4)
    by (simp add: fatfs_log_start_def msg_used_def last_time_def comp_def)
  have "fatfs_log_start w = with_queue (gRtcInfo w) 1 [] w"
    using assms(2) by (simp add: fatfs_log_start_def with_queue_def)
  then have f: "(fatfs_log_task api ^^ length ?ls) (with_queue ?g 1 (map (\<lambda>l. FATFS_EVENT_WRITE # l) ?ls @ []) (fatfs_log_start w))
      = with_queue ?g 1 [] (with_queue (gRtcInfo w) 1 [] (device_writes api ?ls w))"
    by (simp only: task_drains device_writes_with_queue)
  show ?thesis
  proof (intro exI conjI)
    show "fatfs_writes api u rs w = Some (with_queue ?g 0 [] (device_writes api ?ls w))" by (rule d)
    show "fatfs_writes api u' rs (fatfs_log_start w) =
        Some (with_queue ?g 1 (map (\<lambda>l. FATFS_EVENT_WRITE # l) ?ls @ []) (fatfs_log_start w))" by (rule q)
  qed (use f in \<open>simp_all add: with_queue_def fatfs_log_start_def\<close>)
qed

section \<open>The log at work\<close>

text \<open>
  What happens to the log: a task writes a record at some time or closes the log, the scheduler starts,
  the logging task takes a turn. Memory is available and the mutex obtained.
\<close>

datatype log_op = Log_Write RTC_INFO "u8 list" | Log_Close | Task_Start | Task_Turn

fun log_step :: "'fs fatfs_api \<Rightarrow> log_op \<Rightarrow> 'fs fatfs_world \<Rightarrow> 'fs fatfs_world option" where
  "log_step api (Log_Write rtc d) w = map_option snd (fatfs_write api rtc True True 0 d w)"
| "log_step api Log_Close w = Some (snd (fatfs_close api True 0 w))"
| "log_step api Task_Start w = Some (fatfs_log_start w)"
| "log_step api Task_Turn w = Some (fatfs_log_task api w)"

fun log_run :: "'fs fatfs_api \<Rightarrow> log_op list \<Rightarrow> 'fs fatfs_world \<Rightarrow> 'fs fatfs_world option" where
  "log_run api [] w = Some w"
| "log_run api (op # ops) w = (case log_step api op w of None \<Rightarrow> None | Some w \<Rightarrow> log_run api ops w)"

text \<open>Records short enough for a message, and room for each message that is sent.\<close>

fun log_short :: "log_op \<Rightarrow> bool" where
  "log_short (Log_Write rtc d) \<longleftrightarrow> length (record_line (rtc, d)) \<le> 254"
| "log_short _ \<longleftrightarrow> True"

fun log_accepts :: "log_op \<Rightarrow> 'fs fatfs_world \<Rightarrow> bool" where
  "log_accepts (Log_Write rtc d) w \<longleftrightarrow> is_fatfs_os_on w = 0
     \<or> msg_used (msg_buffer w) + length (record_line (rtc, d)) + 5 \<le> FATFS_MAX_MESSAGE_BUFFER"
| "log_accepts Log_Close w \<longleftrightarrow> is_fatfs_os_on w = 0 \<or> msg_used (msg_buffer w) + 5 \<le> FATFS_MAX_MESSAGE_BUFFER"
| "log_accepts _ w \<longleftrightarrow> True"

fun all_accepted :: "'fs fatfs_api \<Rightarrow> log_op list \<Rightarrow> 'fs fatfs_world \<Rightarrow> bool" where
  "all_accepted api [] w \<longleftrightarrow> True"
| "all_accepted api (op # ops) w \<longleftrightarrow> log_accepts op w
     \<and> (case log_step api op w of None \<Rightarrow> True | Some w \<Rightarrow> all_accepted api ops w)"

lemma log_run_append:
  "log_run api (as @ bs) w = (case log_run api as w of None \<Rightarrow> None | Some w \<Rightarrow> log_run api bs w)"
  by (induction api as w rule: log_run.induct) (simp_all split: option.split)

lemma all_accepted_append:
  "all_accepted api (as @ bs) w \<longleftrightarrow> all_accepted api as w
     \<and> (case log_run api as w of None \<Rightarrow> True | Some w \<Rightarrow> all_accepted api bs w)"
  by (induction api as w rule: log_run.induct) (simp_all split: option.split)

lemma log_run_turns: "log_run api (replicate n Task_Turn) w = Some ((fatfs_log_task api ^^ n) w)"
  by (induction n arbitrary: w) (simp_all add: funpow_swap1)

text \<open>What this asks of the file: the operations of the device, in the order in which they were asked for.\<close>

datatype device_op = Dev_Write "u8 list" | Dev_Close

fun device_ops :: "log_op list \<Rightarrow> device_op list" where
  "device_ops [] = []"
| "device_ops (Log_Write rtc d # ops) = Dev_Write (record_line (rtc, d)) # device_ops ops"
| "device_ops (Log_Close # ops) = Dev_Close # device_ops ops"
| "device_ops (_ # ops) = device_ops ops"

lemma device_ops_append: "device_ops (as @ bs) = device_ops as @ device_ops bs"
  by (induction as rule: device_ops.induct) simp_all

lemma device_ops_turns [simp]: "device_ops (replicate n Task_Turn) = []"
  by (induction n) simp_all

fun device_step :: "'fs fatfs_api \<Rightarrow> device_op \<Rightarrow> 'fs fatfs_world \<Rightarrow> 'fs fatfs_world" where
  "device_step api (Dev_Write l) w = snd (fatfs_device_write api l w)"
| "device_step api Dev_Close w = snd (fatfs_device_close api w)"

abbreviation device_run :: "'fs fatfs_api \<Rightarrow> device_op list \<Rightarrow> 'fs fatfs_world \<Rightarrow> 'fs fatfs_world" where
  "device_run api ds w \<equiv> fold (device_step api) ds w"

fun message :: "device_op \<Rightarrow> u8 list" where
  "message (Dev_Write l) = FATFS_EVENT_WRITE # l"
| "message Dev_Close = [FATFS_EVENT_CLOSE]"

lemma device_step_with_queue: "device_step api d (with_queue g on ms w) = with_queue g on ms (device_step api d w)"
  by (cases d) (simp_all add: device_write_with_queue, simp add: fatfs_device_close_def with_queue_def split_beta Let_def)

lemma device_run_with_queue: "device_run api ds (with_queue g on ms w) = with_queue g on ms (device_run api ds w)"
  by (induction ds arbitrary: w) (simp_all add: device_step_with_queue)

lemma with_queue_twice [simp]: "with_queue g on ms (with_queue g' on' ms' w) = with_queue g on ms w"
  by (simp add: with_queue_def)

lemma with_queue_fields [simp]:
  "fs (with_queue g on ms w) = fs w" "msg_buffer (with_queue g on ms w) = ms" "is_fatfs_os_on (with_queue g on ms w) = on"
  "fl_state (with_queue g on ms w) = fl_state w" "w_times (with_queue g on ms w) = w_times w"
  "file_name (with_queue g on ms w) = file_name w" "gRtcInfo (with_queue g on ms w) = g"
  by (simp_all add: with_queue_def)

lemma with_queue_same: "with_queue (gRtcInfo w) (is_fatfs_os_on w) (msg_buffer w) w = w"
  by (simp add: with_queue_def)

text \<open>A message that waits is an operation still to be done; without the task none waits.\<close>

definition log_waiting :: "'fs fatfs_world \<Rightarrow> device_op list \<Rightarrow> bool" where
  "log_waiting w ps \<longleftrightarrow> msg_buffer w = map message ps \<and> (is_fatfs_os_on w = 0 \<longrightarrow> ps = [])"

lemma task_turn:
  assumes "log_waiting w ps"
  shows "\<exists>done ps'. ps = done @ ps' \<and> log_waiting (fatfs_log_task api w) ps' \<and> length ps' = length ps - 1
    \<and> (\<exists>g on ms. fatfs_log_task api w = with_queue g on ms (device_run api done w))"
proof (cases ps)
  case Nil
  then have "fatfs_log_task api w = w" using assms by (simp add: log_waiting_def fatfs_log_task_def)
  then show ?thesis using assms Nil with_queue_same [of w]
    by (intro exI [of _ "[]"]) (metis append_Nil fold_simps(1) diff_0_eq_0 list.size(3))
next
  case (Cons p ps')
  let ?g = "gRtcInfo w" and ?on = "is_fatfs_os_on w"
  have b: "msg_buffer w = message p # map message ps'" "?on \<noteq> 0" using assms Cons by (auto simp: log_waiting_def)
  have "fatfs_log_task api w = device_step api p (with_queue ?g ?on (map message ps') w)"
    using b(1) by (cases p)
      (simp_all add: fatfs_log_task_def with_queue_def FATFS_EVENT_WRITE_def FATFS_EVENT_CLOSE_def Let_def)
  then have e: "fatfs_log_task api w = with_queue ?g ?on (map message ps') (device_run api [p] w)"
    by (simp add: device_step_with_queue)
  then have "log_waiting (fatfs_log_task api w) ps'" using b(2) by (simp add: log_waiting_def)
  then show ?thesis using e Cons by (intro exI [of _ "[p]"] exI [of _ ps']) auto
qed

lemma request_step:
  assumes "log_waiting w ps" and "log_short op" and "log_accepts op w"
  shows "\<exists>w' done ps'. log_step api op w = Some w' \<and> ps @ device_ops [op] = done @ ps' \<and> log_waiting w' ps'
    \<and> (\<exists>g on ms. w' = with_queue g on ms (device_run api done w))"
proof (cases op)
  case (Log_Write rtc d)
  let ?l = "record_line (rtc, d)"
  have len: "length (time_text rtc) + length d \<le> 254" using assms(2) Log_Write by (simp add: record_line_def)
  show ?thesis
  proof (cases "is_fatfs_os_on w = 0")
    case True
    then have ps: "ps = []" "msg_buffer w = []" using assms(1) by (simp_all add: log_waiting_def)
    have "log_step api op w = Some (snd (fatfs_device_write api ?l (with_queue rtc 0 [] w)))"
      using len True ps by (simp add: Log_Write fatfs_write_def record_line_def FATFS_SIGNAL_WRITE_MAX_SIZE_def
          with_queue_id [of w 0 "[]"] Let_def)
    then have "log_step api op w = Some (with_queue rtc 0 [] (device_run api [Dev_Write ?l] w))"
      by (simp add: device_write_with_queue)
    then show ?thesis using ps
      by (intro exI [of _ "with_queue rtc 0 [] (device_run api [Dev_Write ?l] w)"] exI [of _ "[Dev_Write ?l]"] exI [of _ "[]"])
        (auto simp: Log_Write log_waiting_def)
  next
    case False
    let ?w = "with_queue rtc (is_fatfs_os_on w) (msg_buffer w @ [message (Dev_Write ?l)]) w"
    have "w\<lparr>gRtcInfo := rtc, msg_buffer := msg_buffer w @ [message (Dev_Write ?l)]\<rparr> = ?w"
      by (cases w) (simp add: with_queue_def)
    moreover have "msg_used (msg_buffer w) + (length (time_text rtc) + length d) + 5 \<le> 4096"
      using assms(3) False by (simp add: Log_Write record_line_def FATFS_MAX_MESSAGE_BUFFER_def)
    ultimately have "log_step api op w = Some ?w"
      using len False by (simp add: Log_Write fatfs_write_def record_line_def FATFS_SIGNAL_WRITE_MAX_SIZE_def
          fatfs_send_message_def FATFS_MAX_MESSAGE_BUFFER_def Let_def)
    then show ?thesis using assms(1) False
      by (intro exI [of _ ?w] exI [of _ "[]"] exI [of _ "ps @ [Dev_Write ?l]"]) (auto simp: Log_Write log_waiting_def)
  qed
next
  case Log_Close
  show ?thesis
  proof (cases "is_fatfs_os_on w = 0")
    case True
    then have ps: "ps = []" "msg_buffer w = []" using assms(1) by (simp_all add: log_waiting_def)
    let ?w = "device_run api [Dev_Close] w"
    have "with_queue (gRtcInfo w) 0 [] w = w" using with_queue_same [of w] True ps(2) by metis
    then have e: "?w = with_queue (gRtcInfo w) 0 [] ?w"
      using device_run_with_queue [of api "[Dev_Close]" "gRtcInfo w" 0 "[]" w] by metis
    have "log_step api op w = Some ?w" using True by (simp add: Log_Close fatfs_close_def)
    moreover have "log_waiting ?w []" by (subst e) (simp add: log_waiting_def)
    ultimately show ?thesis using ps e
      by (intro exI [of _ ?w] exI [of _ "[Dev_Close]"] exI [of _ "[]"]) (auto simp: Log_Close)
  next
    case False
    let ?w = "with_queue (gRtcInfo w) (is_fatfs_os_on w) (msg_buffer w @ [message Dev_Close]) w"
    have "w\<lparr>msg_buffer := msg_buffer w @ [message Dev_Close]\<rparr> = ?w" by (cases w) (simp add: with_queue_def)
    moreover have "msg_used (msg_buffer w) + 5 \<le> 4096"
      using assms(3) False by (simp add: Log_Close FATFS_MAX_MESSAGE_BUFFER_def)
    ultimately have "log_step api op w = Some ?w"
      using False by (simp add: Log_Close fatfs_close_def fatfs_send_message_def FATFS_MAX_MESSAGE_BUFFER_def)
    then show ?thesis using assms(1) False
      by (intro exI [of _ ?w] exI [of _ "[]"] exI [of _ "ps @ [Dev_Close]"]) (auto simp: Log_Close log_waiting_def)
  qed
next
  case Task_Start
  have "fatfs_log_start w = with_queue (gRtcInfo w) 1 (msg_buffer w) (device_run api [] w)"
    by (simp add: fatfs_log_start_def with_queue_def)
  then show ?thesis using assms(1)
    by (intro exI [of _ "fatfs_log_start w"] exI [of _ "[]"] exI [of _ ps]) (auto simp: Task_Start log_waiting_def)
next
  case Task_Turn
  have "log_step api op w = Some (fatfs_log_task api w)" and "ps @ device_ops [op] = ps" by (simp_all add: Task_Turn)
  then show ?thesis using task_turn [OF assms(1), of api] by metis
qed

lemma log_run_device:
  "log_waiting w ps \<Longrightarrow> \<forall>op\<in>set ops. log_short op \<Longrightarrow> all_accepted api ops w \<Longrightarrow>
   \<exists>w' done ps'. log_run api ops w = Some w' \<and> ps @ device_ops ops = done @ ps' \<and> log_waiting w' ps'
     \<and> (\<exists>g on ms. w' = with_queue g on ms (device_run api done w))"
proof (induction ops arbitrary: w ps)
  case Nil
  have "log_run api [] w = Some w \<and> ps @ device_ops [] = [] @ ps \<and> log_waiting w ps
      \<and> (\<exists>g on ms. w = with_queue g on ms (device_run api [] w))"
    using Nil with_queue_same [of w] by (simp, metis)
  then show ?case by blast
next
  case (Cons op ops)
  obtain w1 ds1 ps1 g1 on1 ms1 where 1: "log_step api op w = Some w1" "ps @ device_ops [op] = ds1 @ ps1"
    "log_waiting w1 ps1" "w1 = with_queue g1 on1 ms1 (device_run api ds1 w)"
    using request_step [of w ps op api] Cons.prems by auto
  obtain w2 ds2 ps2 g2 on2 ms2 where 2: "log_run api ops w1 = Some w2" "ps1 @ device_ops ops = ds2 @ ps2"
    "log_waiting w2 ps2" "w2 = with_queue g2 on2 ms2 (device_run api ds2 w1)"
    using Cons.IH [OF 1(3)] Cons.prems 1(1) by auto
  have "w2 = with_queue g2 on2 ms2 (device_run api (ds1 @ ds2) w)"
    unfolding 2(4) 1(4) by (simp add: device_run_with_queue)
  moreover have "ps @ device_ops (op # ops) = (ds1 @ ds2) @ ps2"
    using 1(2) 2(2) device_ops_append [of "[op]" ops] by simp (metis append.assoc)
  moreover have "log_run api (op # ops) w = Some w2" using 1(1) 2(1) by simp
  ultimately show ?case using 2(3) by blast
qed

text \<open>As many turns as messages wait do all that has been asked for.\<close>

lemma turns_drain:
  "log_waiting w ps \<Longrightarrow> length ps \<le> n \<Longrightarrow>
   \<exists>g on ms. (fatfs_log_task api ^^ n) w = with_queue g on ms (device_run api ps w)"
proof (induction n arbitrary: w ps)
  case 0
  then show ?case using with_queue_same [of w] by (simp, metis)
next
  case (Suc n)
  obtain ds ps' g on ms where 1: "ps = ds @ ps'" "log_waiting (fatfs_log_task api w) ps'" "length ps' = length ps - 1"
    "fatfs_log_task api w = with_queue g on ms (device_run api ds w)"
    using task_turn [OF Suc.prems(1), of api] by blast
  have "length ps' \<le> n" using Suc.prems(2) 1(3) by simp
  from Suc.IH [OF 1(2) this] obtain g' on' ms' where
    "(fatfs_log_task api ^^ n) (fatfs_log_task api w) = with_queue g' on' ms' (device_run api ps' (fatfs_log_task api w))"
    by blast
  then show ?case by (auto simp: 1(1,4) funpow_swap1 device_run_with_queue)
qed

text \<open>The file after a run that the task has caught up with.\<close>

lemma log_run_caught_up:
  assumes "msg_buffer w = []" and "\<forall>op\<in>set ops. log_short op" and "all_accepted api ops w"
  shows "\<exists>w'. log_run api ops w = Some w'
    \<and> (\<forall>n \<ge> length (msg_buffer w'). fs ((fatfs_log_task api ^^ n) w') = fs (device_run api (device_ops ops) w))"
proof -
  have "log_waiting w []" using assms(1) by (simp add: log_waiting_def)
  from log_run_device [OF this assms(2,3)] obtain w' ds ps g on ms where
    1: "log_run api ops w = Some w'" "device_ops ops = ds @ ps" "log_waiting w' ps" "w' = with_queue g on ms (device_run api ds w)"
    by auto
  have "fs ((fatfs_log_task api ^^ n) w') = fs (device_run api (device_ops ops) w)" if "length (msg_buffer w') \<le> n" for n
  proof -
    have "length ps \<le> n" using that 1(3) by (simp add: log_waiting_def)
    from turns_drain [OF 1(3) this, of api] show ?thesis by (auto simp: 1(2,4) device_run_with_queue)
  qed
  then show ?thesis using 1(1) by blast
qed

section \<open>What FatFS promises\<close>

text \<open>
  What can be observed of the file system's state: the contents of every file as opening it anew would find
  them, the file object (the file it is open on, the contents and the position it sees), the number of
  bytes that can still be appended to it, and whether the medium works.
\<close>

record 'fs file_view =
  on_disk :: "'fs \<Rightarrow> u8 list \<Rightarrow> u8 list option"
  file_open :: "'fs \<Rightarrow> u8 list option"
  file_data :: "'fs \<Rightarrow> u8 list"
  file_pos :: "'fs \<Rightarrow> nat"
  file_room :: "'fs \<Rightarrow> nat"
  fs_works :: "'fs \<Rightarrow> bool"

text \<open>
  The documentation of FatFS, call by call: what a call has done when it reports \<^verbatim>\<open>FR_OK\<close>, and that the
  calls report it while the medium works. Writing at the end appends to the file object as much as there is
  room for; the file on the disk may lag behind the file object and is brought up to it by \<^verbatim>\<open>f_sync\<close> and
  \<^verbatim>\<open>f_close\<close>. Nothing is said of a call that fails.
\<close>

locale file_system =
  fixes api :: "'fs fatfs_api" and V :: "'fs file_view"
  assumes mount: "f_mount api s = (FR_OK, s') \<Longrightarrow> on_disk V s' = on_disk V s"
    and open_file: "f_open api n False s = (FR_OK, s') \<Longrightarrow>
      on_disk V s n = Some (file_data V s') \<and> on_disk V s' = on_disk V s \<and> file_open V s' = Some n \<and> file_pos V s' = 0"
    and open_none: "f_open api n False s = (FR_NO_FILE, s') \<Longrightarrow> on_disk V s n = None \<and> on_disk V s' = on_disk V s"
    and create: "f_open api n True s = (FR_OK, s') \<Longrightarrow> on_disk V s n = None \<and> on_disk V s' = (on_disk V s)(n \<mapsto> [])
      \<and> file_open V s' = Some n \<and> file_data V s' = [] \<and> file_pos V s' = 0"
    and file_size: "file_open V s = Some n \<Longrightarrow> f_size api s = length (file_data V s)"
    and seek: "f_lseek api k s = (FR_OK, s') \<Longrightarrow> k \<le> length (file_data V s) \<Longrightarrow> file_pos V s' = k
      \<and> on_disk V s' = on_disk V s \<and> file_open V s' = file_open V s \<and> file_data V s' = file_data V s
      \<and> file_room V s \<le> file_room V s'"
    and append: "f_write api bs s = (FR_OK, s') \<Longrightarrow> file_open V s = Some n \<Longrightarrow> file_pos V s = length (file_data V s) \<Longrightarrow>
      file_open V s' = Some n \<and> file_pos V s' = length (file_data V s') \<and> file_room V s \<le> file_room V s' + length bs
      \<and> (\<exists>k. file_data V s' = file_data V s @ take k bs \<and> (length bs \<le> file_room V s \<longrightarrow> length bs \<le> k))"
    and behind: "f_write api bs s = (FR_OK, s') \<Longrightarrow> file_open V s = Some n \<Longrightarrow> file_pos V s = length (file_data V s) \<Longrightarrow>
      on_disk V s n = Some d \<Longrightarrow> prefix d (file_data V s) \<Longrightarrow>
      \<exists>d'. on_disk V s' n = Some d' \<and> prefix d d' \<and> prefix d' (file_data V s')"
    and sync: "f_sync api s = (FR_OK, s') \<Longrightarrow> file_open V s = Some n \<Longrightarrow> on_disk V s' = (on_disk V s)(n \<mapsto> file_data V s)
      \<and> file_open V s' = Some n \<and> file_data V s' = file_data V s \<and> file_pos V s' = file_pos V s
      \<and> file_room V s \<le> file_room V s'"
    and close: "f_close api s = (FR_OK, s') \<Longrightarrow> file_open V s = Some n \<Longrightarrow> on_disk V s' = (on_disk V s)(n \<mapsto> file_data V s)"
    and open_works: "fs_works V s \<Longrightarrow> on_disk V s n = Some d \<Longrightarrow> \<exists>s'. f_open api n False s = (FR_OK, s') \<and> fs_works V s'"
    and seek_works: "fs_works V s \<Longrightarrow> file_open V s = Some n \<Longrightarrow> \<exists>s'. f_lseek api k s = (FR_OK, s') \<and> fs_works V s'"
    and write_works: "fs_works V s \<Longrightarrow> file_open V s = Some n \<Longrightarrow> \<exists>s'. f_write api bs s = (FR_OK, s') \<and> fs_works V s'"
    and sync_works: "fs_works V s \<Longrightarrow> file_open V s = Some n \<Longrightarrow> \<exists>s'. f_sync api s = (FR_OK, s') \<and> fs_works V s'"
    and close_works: "fs_works V s \<Longrightarrow> file_open V s = Some n \<Longrightarrow> \<exists>s'. f_close api s = (FR_OK, s')"

lemmas fatfs_codes = FATFS_LOG_OK_def FATFS_LOG_FILE_ERROR_def FATFS_LOG_SEEK_ERROR_def FATFS_LOG_WRITE_ERROR_def
  FATFS_LOG_MOUNT_ERROR_def FATFS_LOG_OS_ERROR_def FATFS_LOG_IDLE_def FATFS_LOG_OPEN_def FATFS_LOG_CLOSE_def
  FATFS_SYNC_MAX_TIMES_def

text \<open>The open log: the file object at its end, the disk at most as far behind as the count says.\<close>

definition log_open :: "'fs file_view \<Rightarrow> u8 list \<Rightarrow> u8 list \<Rightarrow> u8 list list \<Rightarrow> 'fs fatfs_world \<Rightarrow> bool" where
  "log_open V name old ls w \<longleftrightarrow>
     fl_state w = FATFS_LOG_OPEN \<and> fs_works V (fs w) \<and> file_open V (fs w) = Some name
     \<and> file_data V (fs w) = old @ concat ls \<and> file_pos V (fs w) = length (file_data V (fs w))
     \<and> unat (w_times w) \<le> 100 \<and> unat (w_times w) \<le> length ls
     \<and> (\<exists>d. on_disk V (fs w) name = Some d \<and> prefix (old @ concat (take (length ls - unat (w_times w)) ls)) d
          \<and> prefix d (old @ concat ls))"

definition old_contents :: "'fs file_view \<Rightarrow> 'fs \<Rightarrow> u8 list \<Rightarrow> u8 list" where
  "old_contents V s name = (case on_disk V s name of None \<Rightarrow> [] | Some c \<Rightarrow> c)"

context file_system
begin

lemma append_all:
  assumes "fs_works V s" and "file_open V s = Some n" and "file_pos V s = length (file_data V s)"
    and "length l \<le> file_room V s"
  shows "\<exists>s'. f_write api l s = (FR_OK, s') \<and> fs_works V s' \<and> file_open V s' = Some n \<and> file_data V s' = file_data V s @ l
    \<and> file_pos V s' = length (file_data V s') \<and> file_room V s \<le> file_room V s' + length l"
proof -
  obtain s' where w: "f_write api l s = (FR_OK, s')" "fs_works V s'" using write_works [OF assms(1,2)] by blast
  from append [OF w(1) assms(2,3)] assms(4) w show ?thesis by auto
qed

lemma log_open_write:
  assumes "log_open V name old ls w" and "length l \<le> file_room V (fs w)"
  defines "w' \<equiv> snd (fatfs_device_write api l w)"
  shows "log_open V name old (ls @ [l]) w'" and "file_room V (fs w) \<le> file_room V (fs w') + length l"
proof -
  let ?n = "w_times w + 1"
  have o: "fs_works V (fs w)" "file_open V (fs w) = Some name" "file_pos V (fs w) = length (file_data V (fs w))"
    "file_data V (fs w) = old @ concat ls" "unat (w_times w) \<le> 100" "unat (w_times w) \<le> length ls"
    using assms(1) by (simp_all add: log_open_def)
  obtain d where d: "on_disk V (fs w) name = Some d" "prefix d (file_data V (fs w))"
    "prefix (old @ concat (take (length ls - unat (w_times w)) ls)) d" using assms(1) o(4) by (auto simp: log_open_def)
  obtain s1 where s1: "f_write api l (fs w) = (FR_OK, s1)" "fs_works V s1" "file_open V s1 = Some name"
    "file_data V s1 = old @ concat (ls @ [l])" "file_pos V s1 = length (file_data V s1)"
    "file_room V (fs w) \<le> file_room V s1 + length l"
    using append_all [OF o(1-3) assms(2)] o(4) by auto
  obtain d1 where d1: "on_disk V s1 name = Some d1" "prefix d d1" "prefix d1 (file_data V s1)"
    using behind [OF s1(1) o(2,3) d(1,2)] by blast
  have u: "unat ?n = Suc (unat (w_times w))"
    using o(5) by (intro unat_add_one_less [of "w_times w" 200]) (simp add: word_less_unat)
  have due: "?n > FATFS_SYNC_MAX_TIMES \<longleftrightarrow> unat (w_times w) = 100"
    using o(5) by (simp add: FATFS_SYNC_MAX_TIMES_def word_less_unat u) linarith
  have st: "fl_state w = FATFS_LOG_OPEN" "fl_state w \<noteq> FATFS_LOG_IDLE" "fl_state w \<noteq> FATFS_LOG_CLOSE"
    using assms(1) by (simp_all add: log_open_def fatfs_codes)
  have e: "w' = (let w1 = w\<lparr>fs := s1, w_times := ?n\<rparr>
      in if unat (w_times w) = 100 then w1\<lparr>fs := snd (f_sync api s1), w_times := 0\<rparr> else w1)"
    unfolding w'_def using s1(1) st by (simp add: fatfs_device_write_def fatfs_reopen_def due Let_def split_beta)
  have "log_open V name old (ls @ [l]) w' \<and> file_room V (fs w) \<le> file_room V (fs w') + length l"
  proof (cases "unat (w_times w) = 100")
    case True
    obtain s2 where s2: "f_sync api s1 = (FR_OK, s2)" "fs_works V s2" using sync_works [OF s1(2,3)] by blast
    have "w' = w\<lparr>fs := s2, w_times := 0\<rparr>" using True s2(1) by (simp add: e Let_def)
    then show ?thesis using sync [OF s2(1) s1(3)] s1(4-6) s2(2) st(1) by (simp add: log_open_def)
  next
    case False
    have "w' = w\<lparr>fs := s1, w_times := ?n\<rparr>" using False by (simp add: e Let_def)
    moreover have "Suc (length ls) - unat ?n = length ls - unat (w_times w)" by (simp add: u)
    moreover have "prefix (old @ concat (take (length ls - unat (w_times w)) ls)) d1"
      using d(3) d1(2) by (rule prefix_order.trans)
    ultimately show ?thesis using s1 d1(1,3) False o(5,6) st(1) by (auto simp: log_open_def u)
  qed
  then show "log_open V name old (ls @ [l]) w'" and "file_room V (fs w) \<le> file_room V (fs w') + length l" by auto
qed

lemma log_open_writes:
  "log_open V name old ls w \<Longrightarrow> length (concat ms) \<le> file_room V (fs w) \<Longrightarrow>
   log_open V name old (ls @ ms) (device_run api (map Dev_Write ms) w)"
proof (induction ms arbitrary: ls w)
  case Nil
  then show ?case by simp
next
  case (Cons m ms)
  have m: "length m \<le> file_room V (fs w)" using Cons.prems(2) by simp
  note s = log_open_write [OF Cons.prems(1) m]
  have "length (concat ms) \<le> file_room V (fs (snd (fatfs_device_write api m w)))" using Cons.prems(2) s(2) by simp
  from Cons.IH [OF s(1) this] show ?case by simp
qed

lemma log_open_close:
  assumes "log_open V name old ls w"
  shows "on_disk V (fs (snd (fatfs_device_close api w))) name = Some (old @ concat ls)"
proof -
  have o: "fs_works V (fs w)" "file_open V (fs w) = Some name" "file_data V (fs w) = old @ concat ls"
    "fl_state w \<noteq> FATFS_LOG_IDLE" using assms by (simp_all add: log_open_def fatfs_codes)
  obtain s' where s: "f_close api (fs w) = (FR_OK, s')" using close_works [OF o(1,2)] by blast
  from close [OF s o(2)] show ?thesis using o(3,4) s by (simp add: fatfs_device_close_def Let_def)
qed

text \<open>A successful initialisation has opened the file of the day at its end.\<close>

lemma fatfs_logs_init_opens:
  assumes "fatfs_logs_init api rtc x b m w = (FATFS_LOG_OK, w1)" and "fs_works V (fs w1)"
  shows "log_open V (log_file_name rtc) (old_contents V (fs w) (log_file_name rtc)) [] w1" and "msg_buffer w1 = []"
proof -
  let ?n = "log_file_name rtc"
  obtain r0 s0 r1 s1 where c: "f_mount api (fs w) = (r0, s0)" "f_open api ?n False s0 = (r1, s1)" by fastforce
  have m: "r0 = FR_OK" using assms(1) c(1) by (auto simp: fatfs_logs_init_def fatfs_codes Let_def split: if_splits)
  have d0: "on_disk V s0 = on_disk V (fs w)" using mount c(1) m by simp
  have "log_open V ?n (old_contents V (fs w) ?n) [] w1 \<and> msg_buffer w1 = []"
  proof (cases "r1 = FR_NO_FILE")
    case True
    obtain r2 s2 where c2: "f_open api ?n True s1 = (r2, s2)" by fastforce
    have w1: "r2 = FR_OK" "w1 = w\<lparr>w_times := 0, file_name := ?n, msg_buffer := [], gRtcInfo := rtc, fs := s2, fl_state := FATFS_LOG_OPEN\<rparr>"
      using assms(1) c c2 m True by (auto simp: fatfs_logs_init_def fatfs_codes Let_def split: if_splits)
    have "on_disk V s0 ?n = None" using open_none c(2) True by blast
    then have "old_contents V (fs w) ?n = []" by (simp add: old_contents_def d0)
    then show ?thesis using create [OF c2 [unfolded w1(1)]] assms(2) by (simp add: w1(2) log_open_def)
  next
    case False
    obtain r2 s2 where c2: "f_lseek api (f_size api s1) s1 = (r2, s2)" by fastforce
    have w1: "r1 = FR_OK" "r2 = FR_OK"
      "w1 = w\<lparr>w_times := 0, file_name := ?n, msg_buffer := [], gRtcInfo := rtc, fs := s2, fl_state := FATFS_LOG_OPEN\<rparr>"
      using assms(1) c c2 m False by (auto simp: fatfs_logs_init_def fatfs_codes Let_def split: if_splits)
    note o = open_file [OF c(2) [unfolded w1(1)]]
    then have z: "f_size api s1 = length (file_data V s1)" using file_size by blast
    have "old_contents V (fs w) ?n = file_data V s1" using o d0 by (simp add: old_contents_def)
    then show ?thesis using seek [OF c2 [unfolded w1(2)]] o z assms(2) by (simp add: w1(3) log_open_def)
  qed
  then show "log_open V ?n (old_contents V (fs w) ?n) [] w1" and "msg_buffer w1 = []" by auto
qed

end

section \<open>How much of the log can be lost\<close>

text \<open>The lines that have been asked for.\<close>

fun log_lines :: "log_op list \<Rightarrow> u8 list list" where
  "log_lines [] = []"
| "log_lines (Log_Write rtc d # ops) = record_line (rtc, d) # log_lines ops"
| "log_lines (_ # ops) = log_lines ops"

lemma device_ops_lines: "Log_Close \<notin> set ops \<Longrightarrow> device_ops ops = map Dev_Write (log_lines ops)"
  by (induction ops rule: log_lines.induct) simp_all

context file_system
begin

lemma log_session:
  assumes "log_open V name old [] w" and "msg_buffer w = []"
    and "\<forall>op\<in>set ops. log_short op" and "Log_Close \<notin> set ops" and "all_accepted api ops w"
    and "length (concat (log_lines ops)) \<le> file_room V (fs w)"
  shows "\<exists>w2 k d. log_run api ops w = Some w2 \<and> on_disk V (fs w2) name = Some d
    \<and> prefix (old @ concat (take k (log_lines ops))) d \<and> prefix d (old @ concat (log_lines ops))
    \<and> length (log_lines ops) \<le> k + 100 + length (msg_buffer w2)"
proof -
  let ?ls = "log_lines ops"
  have "log_waiting w []" using assms(2) by (simp add: log_waiting_def)
  from log_run_device [OF this assms(3,5)] obtain w2 ds ps g on ms where
    r: "log_run api ops w = Some w2" "map Dev_Write ?ls = ds @ ps" "log_waiting w2 ps" "w2 = with_queue g on ms (device_run api ds w)"
    using device_ops_lines [OF assms(4)] by auto
  let ?j = "length ds"
  have ds: "ds = map Dev_Write (take ?j ?ls)" using r(2) by (metis append_eq_conv_conj take_map)
  have j: "length ?ls = ?j + length (msg_buffer w2)" using arg_cong [OF r(2), of length] r(3) by (simp add: log_waiting_def)
  have split: "concat ?ls = concat (take ?j ?ls) @ concat (drop ?j ?ls)" by (simp flip: concat_append)
  then have "length (concat (take ?j ?ls)) \<le> file_room V (fs w)" using assms(6) by simp
  from log_open_writes [OF assms(1) this] have o: "log_open V name old (take ?j ?ls) (device_run api ds w)"
    by (simp flip: ds)
  let ?d = "device_run api ds w"
  let ?k = "length (take ?j ?ls) - unat (w_times ?d)"
  obtain d where d: "on_disk V (fs ?d) name = Some d" "prefix (old @ concat (take ?k (take ?j ?ls))) d"
    "prefix d (old @ concat (take ?j ?ls))" using o unfolding log_open_def by blast
  have "unat (w_times ?d) \<le> 100" using o by (simp add: log_open_def)
  then have "length ?ls \<le> ?k + 100 + length (msg_buffer w2)" using j by simp
  moreover have "take ?k (take ?j ?ls) = take ?k ?ls" by simp
  moreover have "prefix (old @ concat (take ?j ?ls)) (old @ concat ?ls)" unfolding split by simp
  then have "prefix d (old @ concat ?ls)" using d(3) by (rule prefix_order.trans [rotated])
  ultimately show ?thesis using r(1) d(1,2) unfolding r(4) by (simp del: take_take) blast
qed

lemma log_session_closed:
  assumes "log_open V name old [] w" and "msg_buffer w = []"
    and "\<forall>op\<in>set ops. log_short op" and "all_accepted api ops w"
    and "device_ops ops = map Dev_Write ls @ [Dev_Close]" and "length (concat ls) \<le> file_room V (fs w)"
  shows "\<exists>w2. log_run api ops w = Some w2 \<and> (\<forall>n \<ge> length (msg_buffer w2).
      on_disk V (fs ((fatfs_log_task api ^^ n) w2)) name = Some (old @ concat ls))"
proof -
  have "log_open V name old ls (device_run api (map Dev_Write ls) w)"
    using log_open_writes [OF assms(1,6)] by simp
  from log_open_close [OF this] have "on_disk V (fs (device_run api (device_ops ops) w)) name = Some (old @ concat ls)"
    by (simp add: assms(5))
  then show ?thesis using log_run_caught_up [OF assms(2-4)] by metis
qed

end

text \<open>
  C16. On every file system that does what FatFS documents (the hypothesis file_system), after a
  successful fatfs_logs_init, while the medium works and has room: whatever the tasks write, in
  records of at most 254 bytes with their times, and whenever the scheduler starts and the logging
  task takes its turns, as long as no record finds the message buffer full, the file as a later
  f_open would find it holds its old contents and a prefix of the log, in which at most the last 100
  records the task has taken are incomplete or missing besides those that still wait in the message
  buffer; and once the log has been closed and the task has caught up, it holds the whole log.
\<close>

theorem fatfs_log_loses_at_most_100:
  assumes "file_system api V" and "fatfs_logs_init api rtc x b m w = (FATFS_LOG_OK, w1)" and "fs_works V (fs w1)"
    and "\<forall>op\<in>set ops. log_short op" and "Log_Close \<notin> set ops" and "all_accepted api (ops @ [Log_Close]) w1"
    and "length (concat (log_lines ops)) \<le> file_room V (fs w1)" and "old = old_contents V (fs w) (log_file_name rtc)"
  shows "\<exists>w2 w3 k d. log_run api ops w1 = Some w2 \<and> on_disk V (fs w2) (log_file_name rtc) = Some d
      \<and> prefix (old @ concat (take k (log_lines ops))) d \<and> prefix d (old @ concat (log_lines ops))
      \<and> length (log_lines ops) \<le> k + 100 + length (msg_buffer w2)
      \<and> log_run api [Log_Close] w2 = Some w3 \<and> (\<forall>n \<ge> length (msg_buffer w3).
          on_disk V (fs ((fatfs_log_task api ^^ n) w3)) (log_file_name rtc) = Some (old @ concat (log_lines ops)))"
proof -
  let ?ops = "ops @ [Log_Close]"
  note i = file_system.fatfs_logs_init_opens [OF assms(1-3), folded assms(8)]
  have a: "all_accepted api ops w1" using assms(6) by (simp add: all_accepted_append)
  have s: "\<forall>op\<in>set ?ops. log_short op" using assms(4) by simp
  have d: "device_ops ?ops = map Dev_Write (log_lines ops) @ [Dev_Close]"
    using device_ops_lines [OF assms(5)] by (simp add: device_ops_append)
  obtain w2 k d where 2: "log_run api ops w1 = Some w2" "on_disk V (fs w2) (log_file_name rtc) = Some d"
    "prefix (old @ concat (take k (log_lines ops))) d" "prefix d (old @ concat (log_lines ops))"
    "length (log_lines ops) \<le> k + 100 + length (msg_buffer w2)"
    using file_system.log_session [OF assms(1) i assms(4,5) a assms(7)] by blast
  obtain w3 where 3: "log_run api ?ops w1 = Some w3" "\<forall>n \<ge> length (msg_buffer w3).
      on_disk V (fs ((fatfs_log_task api ^^ n) w3)) (log_file_name rtc) = Some (old @ concat (log_lines ops))"
    using file_system.log_session_closed [OF assms(1) i s assms(6) d assms(7)] by blast
  have "log_run api [Log_Close] w2 = Some w3" using 3(1) 2(1) by (simp add: log_run_append)
  then show ?thesis using 2 3(2) by blast
qed

section \<open>Writing to a closed log\<close>

text \<open>
  FatFS enters a file's size into the directory when it is synchronised, not when it is written
  (\<^verbatim>\<open>f_write\<close> and \<^verbatim>\<open>f_sync\<close> of \<^verbatim>\<open>ff.c\<close>), and a file opened anew may lose the room in an allocation unit that
  had been appended to it but not entered.
\<close>

locale late_directory = file_system api V for api :: "'fs fatfs_api" and V :: "'fs file_view" +
  fixes unit_size :: nat
  assumes late: "f_write api bs s = (FR_OK, s') \<Longrightarrow> file_open V s = Some n \<Longrightarrow> file_pos V s = length (file_data V s) \<Longrightarrow>
      on_disk V s' = on_disk V s"
    and open_room: "f_open api n False s = (FR_OK, s') \<Longrightarrow> file_room V s \<le> file_room V s' + unit_size"

text \<open>After the log has been closed, every write starts again from what is on the disk.\<close>

definition log_closed :: "'fs file_view \<Rightarrow> u8 list \<Rightarrow> u8 list \<Rightarrow> 'fs fatfs_world \<Rightarrow> bool" where
  "log_closed V name old w \<longleftrightarrow>
     fl_state w = FATFS_LOG_CLOSE \<and> fs_works V (fs w) \<and> file_name w = name \<and> on_disk V (fs w) name = Some old"

context late_directory
begin

lemma log_closed_write:
  assumes "log_closed V name old w" and "unat (w_times w) < 100" and "length l + unit_size \<le> file_room V (fs w)"
  defines "w' \<equiv> snd (fatfs_device_write api l w)"
  shows "log_closed V name old w'" and "unat (w_times w') = Suc (unat (w_times w))"
    and "file_open V (fs w') = Some name" and "file_data V (fs w') = old @ l"
    and "file_room V (fs w) \<le> file_room V (fs w') + length l + unit_size"
proof -
  have c: "fl_state w = FATFS_LOG_CLOSE" "fs_works V (fs w)" "file_name w = name" "on_disk V (fs w) name = Some old"
    using assms(1) by (simp_all add: log_closed_def)
  obtain s1 where s1: "f_open api name False (fs w) = (FR_OK, s1)" "fs_works V s1" using open_works [OF c(2,4)] by blast
  note o = open_file [OF s1(1)] open_room [OF s1(1)]
  then have o1: "file_open V s1 = Some name" and sz: "f_size api s1 = length (file_data V s1)" using file_size by blast+
  obtain s2 where s2: "f_lseek api (f_size api s1) s1 = (FR_OK, s2)" "fs_works V s2" using seek_works [OF s1(2) o1] by blast
  have k: "file_pos V s2 = length (file_data V s2)" "file_open V s2 = Some name" "file_data V s2 = old"
    "on_disk V s2 = on_disk V (fs w)" "file_room V s1 \<le> file_room V s2"
    using seek [OF s2(1)] o c(4) o1 sz by simp_all
  have "length l \<le> file_room V s2" using assms(3) o(2) k(5) by simp
  from append_all [OF s2(2) k(2,1) this] obtain s3 where s3: "f_write api l s2 = (FR_OK, s3)" "fs_works V s3"
    "file_open V s3 = Some name" "file_data V s3 = old @ l" "file_room V s2 \<le> file_room V s3 + length l"
    unfolding k(3) by auto
  have u: "unat (w_times w + 1) = Suc (unat (w_times w))"
    using assms(2) by (intro unat_add_one_less [of "w_times w" 100]) (simp add: word_less_unat)
  then have "\<not> w_times w + 1 > FATFS_SYNC_MAX_TIMES"
    using assms(2) by (simp add: FATFS_SYNC_MAX_TIMES_def word_less_unat)
  then have e: "w' = w\<lparr>fs := s3, w_times := w_times w + 1\<rparr>"
    using s1(1) s2(1) s3(1) c(1,3) unfolding w'_def
    by (simp add: fatfs_device_write_def fatfs_reopen_def fatfs_codes Let_def)
  show "log_closed V name old w'" "unat (w_times w') = Suc (unat (w_times w))" "file_open V (fs w') = Some name"
    "file_data V (fs w') = old @ l" "file_room V (fs w) \<le> file_room V (fs w') + length l + unit_size"
    using late [OF s3(1) k(2,1)] k(4,5) c s3 u o(2) by (simp_all add: e log_closed_def)
qed

lemma log_closed_writes:
  "log_closed V name old w \<Longrightarrow> unat (w_times w) + length ls \<le> 100 \<Longrightarrow> ls \<noteq> [] \<Longrightarrow>
   length (concat ls) + length ls * unit_size \<le> file_room V (fs w) \<Longrightarrow>
   log_closed V name old (device_run api (map Dev_Write ls) w)
   \<and> file_open V (fs (device_run api (map Dev_Write ls) w)) = Some name
   \<and> file_data V (fs (device_run api (map Dev_Write ls) w)) = old @ last ls"
proof (induction ls arbitrary: w)
  case Nil
  then show ?case by simp
next
  case (Cons l ls)
  have lt: "unat (w_times w) < 100" and room: "length l + unit_size \<le> file_room V (fs w)" using Cons.prems(2,4) by simp_all
  note s = log_closed_write [OF Cons.prems(1) lt room]
  show ?case
  proof (cases "ls = []")
    case True
    then show ?thesis using s by simp
  next
    case False
    have "length (concat ls) + length ls * unit_size \<le> file_room V (fs (snd (fatfs_device_write api l w)))"
      using s(5) Cons.prems(4) by simp
    then show ?thesis using Cons.IH [OF s(1)] s(2) Cons.prems(2) False by simp
  qed
qed

text \<open>Of all records written to a closed log only the last one survives.\<close>

lemma fatfs_write_after_close_loses:
  assumes "log_closed V name old w" and "msg_buffer w = []" and "\<forall>op\<in>set ops. log_short op" and "all_accepted api ops w"
    and "device_ops ops = map Dev_Write ls @ [Dev_Close]" and "ls \<noteq> []" and "unat (w_times w) + length ls \<le> 100"
    and "length (concat ls) + length ls * unit_size \<le> file_room V (fs w)"
  shows "\<exists>w2. log_run api ops w = Some w2 \<and> (\<forall>n \<ge> length (msg_buffer w2).
      on_disk V (fs ((fatfs_log_task api ^^ n) w2)) name = Some (old @ last ls))"
proof -
  let ?w = "device_run api (map Dev_Write ls) w"
  from log_closed_writes [OF assms(1,7,6,8)] have c: "fl_state ?w \<noteq> FATFS_LOG_IDLE" "fs_works V (fs ?w)"
    "file_open V (fs ?w) = Some name" "file_data V (fs ?w) = old @ last ls"
    by (simp_all add: log_closed_def fatfs_codes)
  obtain s' where s: "f_close api (fs ?w) = (FR_OK, s')" using close_works [OF c(2,3)] by blast
  from close [OF s c(3)] have "on_disk V (fs (device_run api (device_ops ops) w)) name = Some (old @ last ls)"
    using c(1,4) s by (simp add: assms(5) fatfs_device_close_def Let_def)
  then show ?thesis using log_run_caught_up [OF assms(2-4)] by metis
qed

end

section \<open>A file system\<close>

text \<open>
  A file system in memory that keeps the promises: files by name, one file object whose changes reach the
  files when it is synchronised or closed, a limited space, and a medium that may be broken, in which case
  every call reports a disk error.
\<close>

record ramfs =
  disk :: "u8 list \<Rightarrow> u8 list option"
  cur :: "u8 list option"
  cache :: "u8 list"
  pos :: nat
  space :: nat
  broken :: bool

abbreviation (input) FR_DISK_ERR :: u8 where "FR_DISK_ERR \<equiv> 1"
abbreviation (input) FR_EXIST :: u8 where "FR_EXIST \<equiv> 8"
abbreviation (input) FR_INVALID_OBJECT :: u8 where "FR_INVALID_OBJECT \<equiv> 9"

definition ram_mount :: "ramfs \<Rightarrow> u8 \<times> ramfs" where
  "ram_mount s = (if broken s then FR_DISK_ERR else FR_OK, s\<lparr>cur := None\<rparr>)"

definition ram_open :: "u8 list \<Rightarrow> bool \<Rightarrow> ramfs \<Rightarrow> u8 \<times> ramfs" where
  "ram_open name new s =
     (if broken s then (FR_DISK_ERR, s)
      else case disk s name of
        Some c \<Rightarrow> if new then (FR_EXIST, s) else (FR_OK, s\<lparr>cur := Some name, cache := c, pos := 0\<rparr>)
      | None \<Rightarrow> if new then (FR_OK, s\<lparr>disk := (disk s)(name \<mapsto> []), cur := Some name, cache := [], pos := 0\<rparr>)
                else (FR_NO_FILE, s))"

text \<open>A call on the file object.\<close>

definition ram_file :: "(u8 list \<Rightarrow> ramfs \<Rightarrow> ramfs) \<Rightarrow> ramfs \<Rightarrow> u8 \<times> ramfs" where
  "ram_file f s =
     (if broken s then (FR_DISK_ERR, s)
      else case cur s of None \<Rightarrow> (FR_INVALID_OBJECT, s) | Some n \<Rightarrow> (FR_OK, f n s))"

definition ram_put :: "u8 list \<Rightarrow> ramfs \<Rightarrow> ramfs" where
  "ram_put bs s = s\<lparr>cache := take (pos s) (cache s) @ bs @ drop (pos s + length bs) (cache s), pos := pos s + length bs,
     space := space s - length bs\<rparr>"

definition ramfs_api :: "ramfs fatfs_api" where
  "ramfs_api = \<lparr>f_mount = ram_mount, f_open = ram_open, f_size = (\<lambda>s. length (cache s)),
     f_lseek = (\<lambda>k. ram_file (\<lambda>n s. s\<lparr>pos := k\<rparr>)),
     f_write = (\<lambda>bs. ram_file (\<lambda>n s. ram_put (take (space s) bs) s)),
     f_sync = ram_file (\<lambda>n s. s\<lparr>disk := (disk s)(n \<mapsto> cache s)\<rparr>),
     f_close = ram_file (\<lambda>n s. s\<lparr>disk := (disk s)(n \<mapsto> cache s), cur := None\<rparr>)\<rparr>"

definition ramfs_view :: "ramfs file_view" where
  "ramfs_view = \<lparr>on_disk = disk, file_open = cur, file_data = cache, file_pos = pos, file_room = space,
     fs_works = (\<lambda>s. \<not> broken s)\<rparr>"

lemmas ramfs_defs = ramfs_api_def ramfs_view_def ram_mount_def ram_open_def ram_file_def ram_put_def

interpretation ram: late_directory ramfs_api ramfs_view 0
  by unfold_locales (auto simp: ramfs_defs split: if_splits option.splits)

section \<open>Witnesses\<close>

definition demo_log :: "ramfs fatfs_world" where
  "demo_log = \<lparr>fl_state = 0, w_times = 0, file_name = [7], msg_buffer = [], is_fatfs_os_on = 0,
     gRtcInfo = \<lparr>rtc_time = demo_time 1 2 3, rtc_date = demo_date\<rparr>,
     fs = \<lparr>disk = (\<lambda>n. if n = [7] then Some [1] else None), cur = None, cache = [], pos = 0, space = 1000, broken = False\<rparr>\<rparr>"

definition demo_records :: "(RTC_INFO \<times> u8 list) list" where
  "demo_records = [(gRtcInfo demo_log, [65]), (gRtcInfo demo_log, [66, 67])]"

lemma demo_records_short: "\<forall>r\<in>set demo_records. length (record_line r) \<le> 14"
  using length_time_text [of "gRtcInfo demo_log"] by (simp add: demo_records_def record_line_def)

theorem fatfs_task_equals_direct_witness:
  "\<exists>w1 w2. fatfs_writes ramfs_api 0 demo_records demo_log = Some w1
      \<and> fatfs_writes ramfs_api 0 demo_records (fatfs_log_start demo_log) = Some w2
      \<and> (fatfs_log_task ramfs_api ^^ 2) w2 = fatfs_log_start w1"
proof -
  have "sum_list (map (\<lambda>r. length (record_line r) + 5) demo_records) \<le> 4096"
    using demo_records_short by (simp add: demo_records_def)
  moreover have "\<forall>r\<in>set demo_records. length (record_line r) \<le> 254"
    using demo_records_short by auto
  moreover have "length demo_records = 2" by (simp add: demo_records_def)
  ultimately show ?thesis
    using fatfs_task_equals_direct [of demo_log demo_records ramfs_api 0 0] by (fastforce simp: demo_log_def)
qed

text \<open>A record before the scheduler starts and one after it, with the task's turn.\<close>

definition demo_ops :: "log_op list" where
  "demo_ops = [Log_Write (gRtcInfo demo_log) [65], Task_Start, Log_Write (gRtcInfo demo_log) [66, 67], Task_Turn]"

definition demo_log1 :: "ramfs fatfs_world" where
  "demo_log1 = snd (fatfs_logs_init ramfs_api (gRtcInfo demo_log) pdPASS True True demo_log)"

lemma log_file_name_not_7: "log_file_name i \<noteq> [7]"
  by (simp add: log_file_name_def str_bytes_def Let_def)

lemma demo_log1:
  "fatfs_logs_init ramfs_api (gRtcInfo demo_log) pdPASS True True demo_log = (FATFS_LOG_OK, demo_log1)"
  "fs_works ramfs_view (fs demo_log1)" "file_room ramfs_view (fs demo_log1) = 1000" "is_fatfs_os_on demo_log1 = 0"
  "msg_buffer demo_log1 = []"
proof -
  have d: "disk (fs demo_log) (log_file_name i) = None" for i
    by (simp add: demo_log_def log_file_name_not_7)
  have f: "broken (fs demo_log) = False" "space (fs demo_log) = 1000" "is_fatfs_os_on demo_log = 0"
    by (simp_all add: demo_log_def)
  show "fatfs_logs_init ramfs_api (gRtcInfo demo_log) pdPASS True True demo_log = (FATFS_LOG_OK, demo_log1)"
    "fs_works ramfs_view (fs demo_log1)" "file_room ramfs_view (fs demo_log1) = 1000" "is_fatfs_os_on demo_log1 = 0"
    "msg_buffer demo_log1 = []"
    by (simp_all add: demo_log1_def fatfs_logs_init_def ramfs_defs d f fatfs_os_init_def fatfs_codes Let_def)
qed

lemma few_accepted:
  assumes "log_waiting w ps" and "\<forall>op\<in>set ops. log_short op" and "msg_used (msg_buffer w) + length ops * 259 \<le> 4096"
  shows "all_accepted api ops w"
  using assms
proof (induction ops arbitrary: w ps)
  case (Cons op ops)
  have a: "log_accepts op w"
    using Cons.prems(2,3) by (cases op) (simp_all add: FATFS_MAX_MESSAGE_BUFFER_def)
  obtain w1 ds ps1 where s: "log_step api op w = Some w1" "ps @ device_ops [op] = ds @ ps1" "log_waiting w1 ps1"
    using request_step [OF Cons.prems(1) _ a, of api] Cons.prems(2) by auto
  have u: "msg_used (map message (xs @ ys)) = msg_used (map message xs) + msg_used (map message ys)" for xs ys
    by (simp add: msg_used_def)
  have "msg_used (map message (device_ops [op])) \<le> 259"
    using Cons.prems(2) by (cases op) (simp_all add: msg_used_def)
  then have "msg_used (msg_buffer w1) \<le> msg_used (msg_buffer w) + 259"
    using u [of ps "device_ops [op]"] u [of ds ps1] s(2,3) Cons.prems(1) by (simp add: log_waiting_def)
  then have "all_accepted api ops w1" using Cons.prems(2,3) by (intro Cons.IH [OF s(3)]) simp_all
  then show ?case using a s(1) by simp
qed simp

lemma demo_ops:
  "\<forall>op\<in>set demo_ops. log_short op" "Log_Close \<notin> set demo_ops" "all_accepted ramfs_api (demo_ops @ [Log_Close]) demo_log1"
  "length (concat (log_lines demo_ops)) \<le> 1000"
proof -
  have l: "length (time_text (gRtcInfo demo_log)) \<le> 12" using length_time_text by blast
  then show s: "\<forall>op\<in>set demo_ops. log_short op" by (simp add: demo_ops_def record_line_def)
  show "Log_Close \<notin> set demo_ops" by (simp add: demo_ops_def)
  have "log_waiting demo_log1 []" by (simp add: log_waiting_def demo_log1)
  then show "all_accepted ramfs_api (demo_ops @ [Log_Close]) demo_log1"
    by (rule few_accepted) (use s in \<open>auto simp: demo_log1 msg_used_def demo_ops_def\<close>)
  show "length (concat (log_lines demo_ops)) \<le> 1000" using l by (simp add: demo_ops_def record_line_def)
qed

theorem fatfs_log_loses_at_most_100_witness:
  "\<exists>w2 w3. log_run ramfs_api demo_ops demo_log1 = Some w2 \<and> log_run ramfs_api [Log_Close] w2 = Some w3
      \<and> (\<forall>n \<ge> length (msg_buffer w3). disk (fs ((fatfs_log_task ramfs_api ^^ n) w3)) (log_file_name (gRtcInfo demo_log))
           = Some (record_line (gRtcInfo demo_log, [65]) @ record_line (gRtcInfo demo_log, [66, 67])))"
proof -
  have "old_contents ramfs_view (fs demo_log) (log_file_name (gRtcInfo demo_log)) = []"
    by (simp add: old_contents_def ramfs_view_def demo_log_def log_file_name_not_7)
  moreover have "log_lines demo_ops = [record_line (gRtcInfo demo_log, [65]), record_line (gRtcInfo demo_log, [66, 67])]"
    by (simp add: demo_ops_def)
  moreover have "on_disk ramfs_view = disk" by (simp add: ramfs_view_def)
  ultimately show ?thesis
    using fatfs_log_loses_at_most_100 [OF ram.file_system_axioms demo_log1(1,2) demo_ops(1-3) _ refl] demo_ops(4) demo_log1(3)
    by fastforce
qed

end
