(* ===== verification/Usart_Poll.thy ===== *)
theory Usart_Poll
  imports Peripheral
begin

text \<open>
  The polling variant of the serial port (\<^verbatim>\<open>Drivers/Src/usart_poll.c\<close>), for builds without the logger.
  What the flags and the data register show is a parameter that may depend on everything done before.
  The wait for the transmitter has no limit, so it is a partial function; it ends when the transmitter
  becomes free after finitely many readings.
\<close>

section \<open>The driver\<close>

type_synonym uart_history = "uart_event list"

record uart_signals =
  TXE :: "uart_history \<Rightarrow> bool"
  RXNE :: "uart_history \<Rightarrow> bool"
  DR :: "uart_history \<Rightarrow> u16"

definition UART_ReceiveData_poll :: "uart_signals \<Rightarrow> uart_history \<Rightarrow> u16 \<times> uart_history" where
  "UART_ReceiveData_poll s h = (let rx_data = DR s h AND 0x1FF in (rx_data, Uart_Receive rx_data # h))"

definition UART_SendData_poll :: "u16 \<Rightarrow> uart_history \<Rightarrow> uart_history" where
  "UART_SendData_poll Data h = Uart_Send (Data AND 0x1FF) # h"

partial_function (option) usart_wait_txe :: "uart_signals \<Rightarrow> uart_history \<Rightarrow> uart_history option" where
  "usart_wait_txe s h =
     (let set = TXE s h; h = Uart_GetTXE # h in if \<not> set then usart_wait_txe s h else Some h)"

declare usart_wait_txe.simps [code]

fun usart_send_loop :: "uart_signals \<Rightarrow> u8 list \<Rightarrow> uart_history \<Rightarrow> uart_history option" where
  "usart_send_loop s [] h = Some h"
| "usart_send_loop s (c # cs) h =
     (case usart_wait_txe s h of
        None \<Rightarrow> None
      | Some h \<Rightarrow> usart_send_loop s cs (UART_SendData_poll (ucast c) h))"

text \<open>\<open>None\<close> is also a read outside the caller's buffer.\<close>

definition usart_translate_poll :: "uart_signals \<Rightarrow> u8 list \<Rightarrow> u16 \<Rightarrow> uart_history \<Rightarrow> uart_history option" where
  "usart_translate_poll s ptr sz h =
     (if length ptr < unat sz then None else usart_send_loop s (take (unat sz) ptr) h)"

text \<open>One round of the endless echo loop of the self-test.\<close>

definition usart_run_test_poll :: "uart_signals \<Rightarrow> uart_history \<Rightarrow> uart_history option" where
  "usart_run_test_poll s h =
     (let set = RXNE s h; h = Uart_GetRXNE # h
      in if set
         then (let (rx_data, h) = UART_ReceiveData_poll s h
               in case usart_wait_txe s h of
                    None \<Rightarrow> None
                  | Some h \<Rightarrow> Some (UART_SendData_poll rx_data h))
         else Some h)"

text \<open>The state is whether the driver has been initialised, and the history.\<close>

definition usart_driver_init_poll :: "HAL_StatusTypeDef \<Rightarrow> u8 \<times> uart_history \<Rightarrow> BaseType_t \<times> u8 \<times> uart_history" where
  "usart_driver_init_poll ini w =
     (let (is_usart_driver_init, h) = w;
          h = Uart_Gpio (PeriphClock RCC_USART1) # h;
          h = Uart_Gpio (ClockEnable GPIOA) # h;
          h = Uart_Gpio (PeriphClock RCC_DMA2) # h;
          h = Uart_Gpio (InitPin GPIOA uart1_gpio) # h;
          h = Uart_Init uart1_init # h
      in if ini \<noteq> HAL_OK then (pdFAIL, is_usart_driver_init, h) else (pdPASS, 1, h))"

definition fputc_poll :: "uart_signals \<Rightarrow> u32 \<Rightarrow> u8 \<times> uart_history \<Rightarrow> (u32 \<times> u8 \<times> uart_history) option" where
  "fputc_poll s ch w =
     (let (is_usart_driver_init, h) = w
      in if is_usart_driver_init = 1
         then (case usart_translate_poll s [ucast ch] 1 h of
                 None \<Rightarrow> None
               | Some h \<Rightarrow> Some (ch, is_usart_driver_init, h))
         else Some (ch, is_usart_driver_init, h))"

section \<open>What is sent\<close>

text \<open>The values written to the data register, in order, and whether each was written to a free transmitter.\<close>

fun uart_sent :: "uart_history \<Rightarrow> u16 list" where
  "uart_sent [] = []"
| "uart_sent (Uart_Send d # h) = uart_sent h @ [d]"
| "uart_sent (_ # h) = uart_sent h"

fun paced :: "uart_signals \<Rightarrow> uart_history \<Rightarrow> bool" where
  "paced s [] \<longleftrightarrow> True"
| "paced s (Uart_Send d # h) \<longleftrightarrow> (case h of Uart_GetTXE # h' \<Rightarrow> TXE s h' | _ \<Rightarrow> False) \<and> paced s h"
| "paced s (_ # h) \<longleftrightarrow> paced s h"

text \<open>The transmitter becomes free if it is only asked often enough.\<close>

definition transmitter_recovers :: "uart_signals \<Rightarrow> bool" where
  "transmitter_recovers s \<longleftrightarrow> (\<forall>h. \<exists>n. TXE s (replicate n Uart_GetTXE @ h))"

lemma wait_txe_returns:
  assumes "TXE s (replicate n Uart_GetTXE @ h)" and "paced s h"
  shows "\<exists>h'. usart_wait_txe s h = Some (Uart_GetTXE # h') \<and> TXE s h' \<and> paced s h' \<and> uart_sent h' = uart_sent h"
  using assms
proof (induction n arbitrary: h)
  case 0
  then show ?case by (subst usart_wait_txe.simps) (simp add: Let_def)
next
  case (Suc n)
  show ?case
  proof (cases "TXE s h")
    case True
    then show ?thesis using Suc.prems(2) by (subst usart_wait_txe.simps) (simp add: Let_def)
  next
    case False
    have "TXE s (replicate n Uart_GetTXE @ Uart_GetTXE # h)"
      using Suc.prems(1) by (simp add: replicate_app_Cons_same)
    moreover have "paced s (Uart_GetTXE # h)" using Suc.prems(2) by simp
    ultimately obtain h' where "usart_wait_txe s (Uart_GetTXE # h) = Some (Uart_GetTXE # h')"
      and "TXE s h'" and "paced s h'" and "uart_sent h' = uart_sent h"
      using Suc.IH by fastforce
    then show ?thesis using False by (subst usart_wait_txe.simps) (simp add: Let_def)
  qed
qed

lemma send_loop_sends:
  assumes "transmitter_recovers s" and "paced s h"
  shows "\<exists>h'. usart_send_loop s cs h = Some h' \<and> uart_sent h' = uart_sent h @ map ucast cs \<and> paced s h'"
  using assms(2)
proof (induction cs arbitrary: h)
  case Nil
  then show ?case by simp
next
  case (Cons c cs)
  obtain n where "TXE s (replicate n Uart_GetTXE @ h)"
    using assms(1) unfolding transmitter_recovers_def by blast
  then obtain h1 where w: "usart_wait_txe s h = Some (Uart_GetTXE # h1)" and t: "TXE s h1" and p: "paced s h1"
    and e: "uart_sent h1 = uart_sent h"
    using wait_txe_returns Cons.prems by blast
  let ?h = "UART_SendData_poll (ucast c) (Uart_GetTXE # h1)"
  have "paced s ?h" and "uart_sent ?h = uart_sent h @ [ucast c]"
    using t p e by (simp_all add: UART_SendData_poll_def)
  then show ?case using Cons.IH [of ?h] w by auto
qed

lemma usart_translate_sends:
  assumes "transmitter_recovers s" and "paced s h" and "unat sz \<le> length ptr"
  shows "\<exists>h'. usart_translate_poll s ptr sz h = Some h'
      \<and> uart_sent h' = uart_sent h @ map ucast (take (unat sz) ptr) \<and> paced s h'"
  using send_loop_sends [OF assms(1,2), of "take (unat sz) ptr"] assms(3)
  by (simp add: usart_translate_poll_def)

text \<open>A transmitter that is never free hangs the caller.\<close>

lemma wait_txe_returned:
  assumes "usart_wait_txe s h = Some h'"
  shows "\<exists>h. TXE s h"
  by (rule usart_wait_txe.raw_induct [where P = "\<lambda>s h h'. \<exists>h. TXE s h", OF _ assms])
    (auto simp: Let_def split: if_splits)

lemma wait_txe_hangs: "(\<And>h. \<not> TXE s h) \<Longrightarrow> usart_wait_txe s h = None"
  using wait_txe_returned by (cases "usart_wait_txe s h") blast+

text \<open>The echo sends what it receives.\<close>

lemma usart_echo:
  assumes "transmitter_recovers s" and "paced s h" and "RXNE s h"
  shows "\<exists>h'. usart_run_test_poll s h = Some h'
      \<and> uart_sent h' = uart_sent h @ [DR s (Uart_GetRXNE # h) AND 0x1FF] \<and> paced s h'"
proof -
  let ?h = "snd (UART_ReceiveData_poll s (Uart_GetRXNE # h))"
  obtain n where "TXE s (replicate n Uart_GetTXE @ ?h)"
    using assms(1) unfolding transmitter_recovers_def by blast
  moreover have "paced s ?h" using assms(2) by (simp add: UART_ReceiveData_poll_def Let_def)
  ultimately obtain h1 where "usart_wait_txe s ?h = Some (Uart_GetTXE # h1)" and "TXE s h1" and "paced s h1"
    and "uart_sent h1 = uart_sent ?h"
    using wait_txe_returns by blast
  then show ?thesis using assms(3)
    by (simp add: usart_run_test_poll_def UART_ReceiveData_poll_def UART_SendData_poll_def Let_def)
qed

end
