(* ===== verification/Usart_Dma.thy ===== *)
theory Usart_Dma
  imports Peripheral
begin

text \<open>
  The DMA variant of the serial port (\<^verbatim>\<open>Drivers/Src/usart_dma.c\<close>), for builds without the logger: a
  message is copied to a buffer from which a DMA stream feeds the transmitter, and another stream
  collects what arrives until the line is idle. The two streams run by themselves; their items, the
  interrupt handlers and the calls of the driver interleave in the step relation at the end.
\<close>

section \<open>State\<close>

definition DMA_BUFFER_SIZE :: u32 where "DMA_BUFFER_SIZE = 256"

text \<open>Where the linker puts the buffers, and the address of the data register.\<close>

record uart_addresses =
  tx_addr :: u32
  rx_addr :: u32
  dr_addr :: u32

record RX_INFO =
  rx_size :: u8
  is_rx_dma :: u8

text \<open>\<open>line\<close> holds the bytes handed to the data register, in order.\<close>

record uart_dma =
  hdma_usart1_rx :: DMA_HandleTypeDef
  hdma_usart1_tx :: DMA_HandleTypeDef
  is_usart_driver_init :: u8
  gRxInfo :: RX_INFO
  dma_rx_buffer :: "u8 list"
  dma_tx_buffer :: "u8 list"
  line :: "u8 list"
  uart_hist :: "uart_event list"

definition uart_log :: "uart_event list \<Rightarrow> uart_dma \<Rightarrow> uart_dma" where
  "uart_log es w = w\<lparr>uart_hist := rev es @ uart_hist w\<rparr>"

section \<open>The driver\<close>

text \<open>
  \<open>None\<close> is an access outside the caller's buffer or outside \<open>dma_tx_buffer\<close>. The macro clears the
  transfer flag of the stream twice, as the code does.
\<close>

definition usart_translate_dma :: "uart_addresses \<Rightarrow> u8 list \<Rightarrow> u16 \<Rightarrow> uart_dma \<Rightarrow> uart_dma option" where
  "usart_translate_dma ad ptr sz w =
     (if length ptr < unat sz \<or> length (dma_tx_buffer w) < unat sz then None
      else
        let w = w\<lparr>dma_tx_buffer := take (unat sz) ptr @ drop (unat sz) (dma_tx_buffer w)\<rparr>;
            tx = hdma_usart1_tx w;
            tx = tx\<lparr>TCIF := False\<rparr>;
            tx = tx\<lparr>TCIF := False\<rparr>;
            w = uart_log [Dma_ClearTC DMA2_Stream7, Dma_ClearTC DMA2_Stream7, Uart_ClearTC, Uart_DmaEnableTC] w;
            tx = tx\<lparr>TCIE := True\<rparr>;
            (_, tx) = HAL_DMA_Start (tx_addr ad) (dr_addr ad) (ucast sz) tx
        in Some (w\<lparr>hdma_usart1_tx := tx\<rparr>))"

text \<open>
  The flag is cleared through the handle of the transmit stream, in the register of streams 4 to 7:
  it is that of stream 6. The length asked for is not used.
\<close>

definition usart_receive_dma :: "uart_addresses \<Rightarrow> u32 \<Rightarrow> u16 \<Rightarrow> uart_dma \<Rightarrow> uart_dma" where
  "usart_receive_dma ad ptr sz w =
     (let w = uart_log [Dma_ClearTC DMA2_Stream6, Dma_ClearTC DMA2_Stream6] w;
          (_, rx) = HAL_DMA_Start (dr_addr ad) ptr DMA_BUFFER_SIZE (hdma_usart1_rx w)
      in w\<lparr>hdma_usart1_rx := rx\<rparr>)"

definition hdma_usart1_init :: "dma_direction \<Rightarrow> dma_priority \<Rightarrow> DMA_InitTypeDef" where
  "hdma_usart1_init dir prio = \<lparr>dma_Channel = 4, dma_Direction = dir, dma_PeriphInc = False, dma_MemInc = True,
     dma_PeriphDataAlignment = DMA_DATAALIGN_BYTE, dma_MemDataAlignment = DMA_DATAALIGN_BYTE,
     dma_Mode = DMA_NORMAL, dma_Priority = prio, dma_FIFOMode = True,
     dma_FIFOThreshold = DMA_FIFO_THRESHOLD_FULL, dma_MemBurst = DMA_BURST_SINGLE,
     dma_PeriphBurst = DMA_BURST_SINGLE\<rparr>"

text \<open>The HAL's three results are parameters; a successful initialisation of a stream makes it ready.\<close>

definition usart_driver_init_dma ::
  "uart_addresses \<Rightarrow> HAL_StatusTypeDef \<Rightarrow> HAL_StatusTypeDef \<Rightarrow> HAL_StatusTypeDef \<Rightarrow> uart_dma
     \<Rightarrow> BaseType_t \<times> uart_dma" where
  "usart_driver_init_dma ad ini rx tx w =
     (let w = uart_log [Uart_Gpio (PeriphClock RCC_USART1), Uart_Gpio (ClockEnable GPIOA),
                Uart_Gpio (PeriphClock RCC_DMA2), Uart_Gpio (InitPin GPIOA uart1_gpio), Uart_Init uart1_init] w
      in if ini \<noteq> HAL_OK then (pdFAIL, w)
         else (let w = uart_log [Uart_EnableIDLE, Uart_Gpio (EnableIRQ USART1_IRQn),
                         Uart_Gpio (SetPriority USART1_IRQn 0 1), Uart_DmaRequests, Uart_DmaRequests] w;
                   w = uart_log [Uart_DmaInit DMA2_Stream2 (hdma_usart1_init DMA_PERIPH_TO_MEMORY DMA_PRIORITY_MEDIUM)] w
               in if rx \<noteq> HAL_OK then (pdFAIL, w)
                  else (let w = w\<lparr>hdma_usart1_rx := dma_ready DMA_PERIPH_TO_MEMORY\<rparr>;
                            w = uart_log [Uart_DmaInit DMA2_Stream7 (hdma_usart1_init DMA_MEMORY_TO_PERIPH DMA_PRIORITY_LOW)] w
                        in if tx \<noteq> HAL_OK then (pdFAIL, w)
                           else (let w = w\<lparr>hdma_usart1_tx := dma_ready DMA_MEMORY_TO_PERIPH\<rparr>;
                                     w = uart_log [Uart_DmaEnableTC] w;
                                     w = w\<lparr>hdma_usart1_tx := (hdma_usart1_tx w)\<lparr>TCIE := True\<rparr>\<rparr>;
                                     w = uart_log [Uart_Gpio (EnableIRQ DMA2_Stream7_IRQn),
                                           Uart_Gpio (SetPriority DMA2_Stream7_IRQn 0 1)] w;
                                     w = usart_receive_dma ad (rx_addr ad) (ucast DMA_BUFFER_SIZE) w
                                 in (pdPASS, w\<lparr>is_usart_driver_init := 1\<rparr>)))))"

text \<open>The two handlers; \<open>off\<close> is whether the stream stops within the HAL's time limit.\<close>

definition DMA2_Stream7_IRQHandler :: "bool \<Rightarrow> uart_dma \<Rightarrow> uart_dma" where
  "DMA2_Stream7_IRQHandler off w =
     (if TCIF (hdma_usart1_tx w) then w\<lparr>hdma_usart1_tx := snd (HAL_DMA_Abort off (hdma_usart1_tx w))\<rparr> else w)"

definition USART1_IRQHandler_dma :: "bool \<Rightarrow> bool \<Rightarrow> uart_dma \<Rightarrow> uart_dma" where
  "USART1_IRQHandler_dma idle off w =
     (if idle
      then (let w = uart_log [Uart_ClearPE] w;
                w = w\<lparr>hdma_usart1_rx := snd (HAL_DMA_Abort off (hdma_usart1_rx w))\<rparr>;
                w = w\<lparr>gRxInfo := (gRxInfo w)\<lparr>is_rx_dma := 1\<rparr>\<rparr>
            in w\<lparr>gRxInfo := (gRxInfo w)\<lparr>rx_size := ucast (DMA_BUFFER_SIZE - NDTR (hdma_usart1_rx w))\<rparr>\<rparr>)
      else w)"

text \<open>
  One round of the endless echo loop of the self-test. \<open>junk\<close> is what its uninitialised local array
  holds.
\<close>

definition usart_run_test_dma :: "uart_addresses \<Rightarrow> u8 list \<Rightarrow> uart_dma \<Rightarrow> uart_dma option" where
  "usart_run_test_dma ad junk w =
     (if is_rx_dma (gRxInfo w) = 1
      then (let n = unat (rx_size (gRxInfo w));
                data = take n (dma_rx_buffer w) @ drop n junk;
                w = w\<lparr>dma_rx_buffer := replicate (unat DMA_BUFFER_SIZE) 0\<rparr>;
                w = w\<lparr>gRxInfo := (gRxInfo w)\<lparr>is_rx_dma := 0\<rparr>\<rparr>;
                w = usart_receive_dma ad (rx_addr ad) (ucast DMA_BUFFER_SIZE) w
            in usart_translate_dma ad data (ucast (rx_size (gRxInfo w))) w)
      else Some w)"

text \<open>\<^verbatim>\<open>fputc\<close> sends nothing in this variant.\<close>

definition fputc_dma :: "u32 \<Rightarrow> uart_dma \<Rightarrow> u32 \<times> uart_dma" where
  "fputc_dma ch w = (ch, w)"

section \<open>The streams\<close>

text \<open>
  One item of an enabled stream: the transmit stream takes the next byte of its buffer to the data
  register, the receive stream stores a byte that has arrived. After the last item the hardware
  disables the stream and sets its flag.
\<close>

definition next_item :: "DMA_HandleTypeDef \<Rightarrow> DMA_HandleTypeDef" where
  "next_item d =
     (let d = d\<lparr>NDTR := NDTR d - 1, moved := moved d + 1\<rparr>
      in if NDTR d = 0 then d\<lparr>EN := False, TCIF := True\<rparr> else d)"

definition tx_item :: "uart_dma \<Rightarrow> uart_dma" where
  "tx_item w = w\<lparr>line := line w @ [dma_tx_buffer w ! moved (hdma_usart1_tx w)],
                 hdma_usart1_tx := next_item (hdma_usart1_tx w)\<rparr>"

definition rx_item :: "u8 \<Rightarrow> uart_dma \<Rightarrow> uart_dma" where
  "rx_item b w = w\<lparr>dma_rx_buffer := (dma_rx_buffer w)[moved (hdma_usart1_rx w) := b],
                   hdma_usart1_rx := next_item (hdma_usart1_rx w)\<rparr>"

definition tx_running :: "uart_addresses \<Rightarrow> uart_dma \<Rightarrow> bool" where
  "tx_running ad w \<longleftrightarrow> EN (hdma_usart1_tx w) \<and> NDTR (hdma_usart1_tx w) \<noteq> 0
     \<and> M0AR (hdma_usart1_tx w) = tx_addr ad \<and> PAR (hdma_usart1_tx w) = dr_addr ad"

definition rx_running :: "uart_addresses \<Rightarrow> uart_dma \<Rightarrow> bool" where
  "rx_running ad w \<longleftrightarrow> EN (hdma_usart1_rx w) \<and> NDTR (hdma_usart1_rx w) \<noteq> 0
     \<and> M0AR (hdma_usart1_rx w) = rx_addr ad \<and> PAR (hdma_usart1_rx w) = dr_addr ad"

text \<open>Everything that happens besides the sending of a message.\<close>

inductive background :: "uart_addresses \<Rightarrow> uart_dma \<Rightarrow> uart_dma \<Rightarrow> bool" for ad where
  bg_tx: "tx_running ad w \<Longrightarrow> background ad w (tx_item w)"
| bg_rx: "rx_running ad w \<Longrightarrow> background ad w (rx_item b w)"
| bg_tx_irq: "TCIE (hdma_usart1_tx w) \<Longrightarrow> background ad w (DMA2_Stream7_IRQHandler off w)"
| bg_rx_irq: "background ad w (USART1_IRQHandler_dma idle off w)"
| bg_receive: "background ad w (usart_receive_dma ad ptr sz w)"

inductive_cases backgroundE: "background ad w w'"

text \<open>Every interleaving, with messages sent at any time.\<close>

inductive uart_dma_step :: "uart_addresses \<Rightarrow> uart_dma \<Rightarrow> uart_dma \<Rightarrow> bool" for ad where
  step_background: "background ad w w' \<Longrightarrow> uart_dma_step ad w w'"
| step_send: "usart_translate_dma ad ptr sz w = Some w' \<Longrightarrow> uart_dma_step ad w w'"

text \<open>The careful caller waits until the transmit stream is ready; \<open>bs\<close> are the bytes it has sent so far.\<close>

inductive careful :: "uart_addresses \<Rightarrow> uart_dma \<Rightarrow> u8 list \<Rightarrow> uart_dma \<Rightarrow> bool" for ad w0 where
  careful_start: "careful ad w0 [] w0"
| careful_background: "careful ad w0 bs w \<Longrightarrow> background ad w w' \<Longrightarrow> careful ad w0 bs w'"
| careful_send: "careful ad w0 bs w \<Longrightarrow> State (hdma_usart1_tx w) = HAL_DMA_STATE_READY \<Longrightarrow> 0 < sz
    \<Longrightarrow> usart_translate_dma ad ptr sz w = Some w' \<Longrightarrow> careful ad w0 (bs @ take (unat sz) ptr) w'"

section \<open>Messages in order\<close>

text \<open>The receiving side leaves the sending side alone.\<close>

definition same_tx :: "uart_dma \<Rightarrow> uart_dma \<Rightarrow> bool" where
  "same_tx w w' \<longleftrightarrow> hdma_usart1_tx w' = hdma_usart1_tx w \<and> dma_tx_buffer w' = dma_tx_buffer w \<and> line w' = line w"

lemma rx_same_tx:
  "same_tx w (rx_item b w)"
  "same_tx w (usart_receive_dma ad ptr sz w)"
  "same_tx w (USART1_IRQHandler_dma idle off w)"
  "same_tx w (uart_log es w)"
  by (simp_all add: same_tx_def rx_item_def usart_receive_dma_def USART1_IRQHandler_dma_def uart_log_def Let_def
      split: prod.split)

lemma moved_next: "moved (next_item d) = moved d + 1" "NDTR (next_item d) = NDTR d - 1"
    "State (next_item d) = State d" "Lock (next_item d) = Lock d" "TCIE (next_item d) = TCIE d"
    "M0AR (next_item d) = M0AR d" "PAR (next_item d) = PAR d" "Init_Direction (next_item d) = Init_Direction d"
    "EN (next_item d) = (EN d \<and> NDTR d - 1 \<noteq> 0)" "TCIF (next_item d) = (TCIF d \<or> NDTR d - 1 = 0)"
  by (simp_all add: next_item_def Let_def)

text \<open>\<open>bs\<close> is what has been sent or is still to be sent.\<close>

definition tx_inv :: "uart_addresses \<Rightarrow> u8 list \<Rightarrow> uart_dma \<Rightarrow> bool" where
  "tx_inv ad bs w \<longleftrightarrow>
     (let tx = hdma_usart1_tx w
      in Init_Direction tx = DMA_MEMORY_TO_PERIPH \<and> length (dma_tx_buffer w) = 256 \<and> State tx \<noteq> HAL_DMA_STATE_RESET
       \<and> (State tx = HAL_DMA_STATE_BUSY \<longrightarrow>
            Lock tx \<and> TCIE tx \<and> M0AR tx = tx_addr ad \<and> PAR tx = dr_addr ad \<and> EN tx = (NDTR tx \<noteq> 0)
            \<and> TCIF tx = (NDTR tx = 0) \<and> moved tx + unat (NDTR tx) \<le> 256
            \<and> bs = line w @ take (unat (NDTR tx)) (drop (moved tx) (dma_tx_buffer w)))
       \<and> (State tx \<noteq> HAL_DMA_STATE_BUSY \<longrightarrow> \<not> EN tx \<and> \<not> Lock tx \<and> bs = line w)
       \<and> (State tx = HAL_DMA_STATE_READY \<longrightarrow> \<not> TCIF tx))"

lemma tx_inv_same: "tx_inv ad bs w \<Longrightarrow> same_tx w w' \<Longrightarrow> tx_inv ad bs w'"
  by (simp add: tx_inv_def same_tx_def)

lemma tx_inv_item:
  assumes "tx_inv ad bs w" and "tx_running ad w"
  shows "tx_inv ad bs (tx_item w)"
proof -
  let ?tx = "hdma_usart1_tx w"
  have n: "NDTR ?tx \<noteq> 0" and busy: "State ?tx = HAL_DMA_STATE_BUSY"
    using assms by (auto simp: tx_running_def tx_inv_def Let_def)
  then have u: "unat (NDTR ?tx - 1) = unat (NDTR ?tx) - 1" and p: "0 < unat (NDTR ?tx)"
    by (simp_all add: unat_minus_one unat_gt_0)
  have m: "moved ?tx < length (dma_tx_buffer w)"
    using assms(1) busy p by (simp add: tx_inv_def Let_def)
  then have "drop (moved ?tx) (dma_tx_buffer w) = dma_tx_buffer w ! moved ?tx # drop (Suc (moved ?tx)) (dma_tx_buffer w)"
    by (rule Cons_nth_drop_Suc [symmetric])
  then have "take (unat (NDTR ?tx)) (drop (moved ?tx) (dma_tx_buffer w))
      = dma_tx_buffer w ! moved ?tx # take (unat (NDTR ?tx) - 1) (drop (Suc (moved ?tx)) (dma_tx_buffer w))"
    using p by (simp add: take_Cons')
  then show ?thesis
    using assms(1) busy n p by (auto simp: tx_inv_def tx_item_def Let_def moved_next u)
qed

lemma tx_inv_irq: "tx_inv ad bs w \<Longrightarrow> tx_inv ad bs (DMA2_Stream7_IRQHandler off w)"
  by (auto simp: tx_inv_def DMA2_Stream7_IRQHandler_def HAL_DMA_Abort_def Let_def)

lemma tx_inv_background: "background ad w w' \<Longrightarrow> tx_inv ad bs w \<Longrightarrow> tx_inv ad bs w'"
  by (erule backgroundE) (auto intro: tx_inv_item tx_inv_irq tx_inv_same rx_same_tx)

lemma unat_ucast_16_32 [simp]: "unat (ucast (n :: u16) :: u32) = unat n"
  by (simp add: unat_ucast_up)

lemma tx_inv_send:
  assumes "tx_inv ad bs w" and "State (hdma_usart1_tx w) = HAL_DMA_STATE_READY" and "0 < sz"
    and "usart_translate_dma ad ptr sz w = Some w'"
  shows "tx_inv ad (bs @ take (unat sz) ptr) w'"
proof -
  have "ucast sz \<noteq> (0 :: u32)"
    using assms(3) by (metis unat_ucast_16_32 unat_eq_zero word_gt_0)
  moreover have "unat sz \<le> length ptr" "unat sz \<le> length (dma_tx_buffer w)"
    using assms(4) by (auto simp: usart_translate_dma_def split: if_splits)
  ultimately show ?thesis
    using assms
    by (auto simp: tx_inv_def usart_translate_dma_def uart_log_def HAL_DMA_Start_def DMA_SetConfig_def Let_def)
qed

lemma careful_inv:
  assumes "careful ad w0 bs w" and "tx_inv ad [] w0"
  shows "tx_inv ad bs w"
  using assms by (induction rule: careful.induct) (auto intro: tx_inv_background tx_inv_send)

lemma init_tx_inv:
  assumes "usart_driver_init_dma ad ini rx tx v = (pdPASS, w)" and "length (dma_tx_buffer v) = 256" and "line v = []"
  shows "tx_inv ad [] w"
  using assms
  by (auto simp: usart_driver_init_dma_def usart_receive_dma_def uart_log_def dma_ready_def tx_inv_def
      Let_def split: if_splits prod.splits)

text \<open>The stream and its handler alone bring a running transfer to its end.\<close>

lemma tx_finishes:
  assumes "tx_inv ad bs w" and "State (hdma_usart1_tx w) = HAL_DMA_STATE_BUSY"
  shows "\<exists>w'. (background ad)\<^sup>*\<^sup>* w w' \<and> State (hdma_usart1_tx w') = HAL_DMA_STATE_READY \<and> line w' = bs"
  using assms
proof (induction "unat (NDTR (hdma_usart1_tx w))" arbitrary: w)
  case 0
  then have z: "NDTR (hdma_usart1_tx w) = 0" by (metis unat_eq_zero)
  let ?w = "DMA2_Stream7_IRQHandler True w"
  have "background ad w ?w"
    by (rule bg_tx_irq) (use 0 in \<open>simp add: tx_inv_def Let_def\<close>)
  moreover have "State (hdma_usart1_tx ?w) = HAL_DMA_STATE_READY"
    using 0 z by (simp add: tx_inv_def DMA2_Stream7_IRQHandler_def HAL_DMA_Abort_def Let_def)
  moreover have "line ?w = bs"
    using 0 z by (simp add: tx_inv_def DMA2_Stream7_IRQHandler_def Let_def)
  ultimately show ?case by blast
next
  case (Suc n)
  then have n0: "NDTR (hdma_usart1_tx w) \<noteq> 0" by (metis unat_0 nat.distinct(1))
  then have r: "tx_running ad w" using Suc.prems by (simp add: tx_running_def tx_inv_def Let_def)
  have "n = unat (NDTR (hdma_usart1_tx (tx_item w)))"
    using Suc.hyps(2) n0 by (simp add: tx_item_def moved_next unat_minus_one)
  moreover have "State (hdma_usart1_tx (tx_item w)) = HAL_DMA_STATE_BUSY"
    using Suc.prems(2) by (simp add: tx_item_def moved_next)
  ultimately obtain w' where "(background ad)\<^sup>*\<^sup>* (tx_item w) w'" and "State (hdma_usart1_tx w') = HAL_DMA_STATE_READY"
    and "line w' = bs"
    using Suc.hyps(1) [of "tx_item w"] tx_inv_item [OF Suc.prems(1) r] by blast
  then show ?case using bg_tx [OF r] by (blast intro: converse_rtranclp_into_rtranclp)
qed

section \<open>A completion that is lost\<close>

text \<open>A transmit stream that the HAL holds busy though it has stopped and its flag is gone.\<close>

definition tx_stuck :: "uart_dma \<Rightarrow> bool" where
  "tx_stuck w \<longleftrightarrow> State (hdma_usart1_tx w) = HAL_DMA_STATE_BUSY \<and> Lock (hdma_usart1_tx w)
     \<and> \<not> EN (hdma_usart1_tx w) \<and> \<not> TCIF (hdma_usart1_tx w)"

lemma tx_stuck_same: "tx_stuck w \<Longrightarrow> same_tx w w' \<Longrightarrow> tx_stuck w' \<and> line w' = line w"
  by (simp add: tx_stuck_def same_tx_def)

lemma translate_sticks:
  assumes "State (hdma_usart1_tx w) = HAL_DMA_STATE_BUSY" and "Lock (hdma_usart1_tx w)" and "\<not> EN (hdma_usart1_tx w)"
    and "usart_translate_dma ad ptr sz w = Some w'"
  shows "tx_stuck w' \<and> line w' = line w"
  using assms
  by (auto simp: tx_stuck_def usart_translate_dma_def uart_log_def HAL_DMA_Start_def Let_def split: if_splits)

lemma background_stuck:
  assumes "background ad w w'" and "tx_stuck w"
  shows "tx_stuck w' \<and> line w' = line w"
  using assms(1)
proof cases
  case bg_tx
  then show ?thesis using assms(2) by (simp add: tx_running_def tx_stuck_def)
next
  case bg_tx_irq
  then show ?thesis using assms(2) by (simp add: DMA2_Stream7_IRQHandler_def tx_stuck_def)
qed (use assms(2) tx_stuck_same rx_same_tx in blast)+

lemma step_stuck: "uart_dma_step ad w w' \<Longrightarrow> tx_stuck w \<Longrightarrow> tx_stuck w' \<and> line w' = line w"
  by (erule uart_dma_step.cases) (auto dest: background_stuck translate_sticks simp: tx_stuck_def)

lemma steps_stuck: "(uart_dma_step ad)\<^sup>*\<^sup>* w w' \<Longrightarrow> tx_stuck w \<Longrightarrow> tx_stuck w' \<and> line w' = line w"
  by (induction rule: rtranclp_induct) (auto dest: step_stuck)

section \<open>Received messages\<close>

definition rx_inv :: "uart_addresses \<Rightarrow> u8 list \<Rightarrow> uart_dma \<Rightarrow> bool" where
  "rx_inv ad bs w \<longleftrightarrow>
     (let rx = hdma_usart1_rx w
      in length (dma_rx_buffer w) = 256 \<and> length bs \<le> 256 \<and> State rx = HAL_DMA_STATE_BUSY
       \<and> M0AR rx = rx_addr ad \<and> PAR rx = dr_addr ad \<and> EN rx = (NDTR rx \<noteq> 0) \<and> moved rx = length bs
       \<and> NDTR rx = of_nat (256 - length bs) \<and> take (length bs) (dma_rx_buffer w) = bs)"

lemma rx_inv_item:
  assumes "rx_inv ad bs w" and "length bs < 256"
  shows "rx_running ad w" and "rx_inv ad (bs @ [b]) (rx_item b w)"
proof -
  let ?rx = "hdma_usart1_rx w"
  have n: "NDTR ?rx = of_nat (256 - length bs)" using assms(1) by (simp add: rx_inv_def Let_def)
  have "unat (NDTR ?rx) = 256 - length bs" unfolding n by (simp add: unat_of_nat take_bit_nat_eq_self)
  then have "NDTR ?rx \<noteq> 0" using assms(2) by auto
  then show "rx_running ad w" using assms(1) by (simp add: rx_running_def rx_inv_def Let_def)
  have "of_nat (256 - length bs) - 1 = (of_nat (255 - length bs) :: u32)"
  proof -
    have "256 - length bs = Suc (255 - length bs)" using assms(2) by simp
    then show ?thesis by simp
  qed
  moreover have "take (Suc (length bs)) ((dma_rx_buffer w)[length bs := b]) = take (length bs) (dma_rx_buffer w) @ [b]"
    using assms by (simp add: rx_inv_def Let_def take_Suc_conv_app_nth)
  ultimately show "rx_inv ad (bs @ [b]) (rx_item b w)"
    using assms \<open>NDTR ?rx \<noteq> 0\<close> by (simp add: rx_inv_def rx_item_def Let_def moved_next)
qed

lemma rx_items_inv:
  assumes "rx_inv ad as w" and "length as + length bs \<le> 256"
  shows "rx_inv ad (as @ bs) (fold rx_item bs w)"
  using assms
proof (induction bs arbitrary: as w)
  case Nil
  then show ?case by simp
next
  case (Cons b bs)
  then have "rx_inv ad (as @ [b]) (rx_item b w)" by (intro rx_inv_item(2)) simp_all
  then show ?case using Cons.IH [of "as @ [b]" "rx_item b w"] Cons.prems(2) by simp
qed

text \<open>
  When the line falls idle the length and the message are there, except that the length of a message
  that fills the buffer, 256, is stored as zero.
\<close>

lemma rx_idle:
  assumes "rx_inv ad bs w"
  shows "is_rx_dma (gRxInfo (USART1_IRQHandler_dma True off w)) = 1"
    and "rx_size (gRxInfo (USART1_IRQHandler_dma True off w)) = of_nat (length bs)"
    and "take (length bs) (dma_rx_buffer (USART1_IRQHandler_dma True off w)) = bs"
proof -
  have "of_nat (256 - length bs) = (256 - of_nat (length bs) :: u32)"
    using assms by (simp add: rx_inv_def Let_def)
  then have "DMA_BUFFER_SIZE - NDTR (snd (HAL_DMA_Abort off (hdma_usart1_rx w))) = of_nat (length bs)"
    using assms by (simp add: rx_inv_def Let_def HAL_DMA_Abort_def DMA_BUFFER_SIZE_def)
  moreover have "(ucast (of_nat n :: u32) :: u8) = of_nat n" for n
    by (simp add: unsigned_of_nat word_of_nat_eq_iff)
  ultimately show "rx_size (gRxInfo (USART1_IRQHandler_dma True off w)) = of_nat (length bs)"
    by (simp add: USART1_IRQHandler_dma_def uart_log_def Let_def)
qed (use assms in \<open>simp_all add: rx_inv_def USART1_IRQHandler_dma_def uart_log_def Let_def\<close>)

text \<open>The echo of the self-test sends back a message that leaves room in the buffer.\<close>

lemma echo_sends:
  assumes "rx_inv ad bs w" and "tx_inv ad as w" and "State (hdma_usart1_tx w) = HAL_DMA_STATE_READY"
    and "bs \<noteq> []" and "length bs < 256" and "length junk = 256"
  shows "\<exists>w'. usart_run_test_dma ad junk (USART1_IRQHandler_dma True off w) = Some w' \<and> tx_inv ad (as @ bs) w'
      \<and> is_rx_dma (gRxInfo w') = 0"
proof -
  let ?w = "USART1_IRQHandler_dma True off w"
  let ?v = "usart_receive_dma ad (rx_addr ad) (ucast DMA_BUFFER_SIZE)
      (?w\<lparr>dma_rx_buffer := replicate (unat DMA_BUFFER_SIZE) 0, gRxInfo := (gRxInfo ?w)\<lparr>is_rx_dma := 0\<rparr>\<rparr>)"
  note i = rx_idle [OF assms(1), of off]
  have n: "unat (rx_size (gRxInfo ?w)) = length bs"
    using i(2) assms(5) by (simp add: unat_of_nat take_bit_nat_eq_self)
  have info: "gRxInfo ?v = (gRxInfo ?w)\<lparr>is_rx_dma := 0\<rparr>"
    by (simp add: usart_receive_dma_def uart_log_def Let_def split: prod.split)
  have same: "same_tx w ?v"
    using rx_same_tx(3) [of w True off] rx_same_tx(2)
    by (simp add: same_tx_def usart_receive_dma_def uart_log_def Let_def split: prod.split)
  let ?data = "bs @ drop (length bs) junk"
  have l: "length bs \<le> length (dma_tx_buffer ?v)"
    using same assms(2,5) by (simp add: same_tx_def tx_inv_def Let_def)
  have u: "unat (ucast (rx_size (gRxInfo ?w)) :: u16) = length bs" by (simp add: unat_ucast_up n)
  have "\<exists>w'. usart_translate_dma ad ?data (ucast (rx_size (gRxInfo ?w))) ?v = Some w'"
    using l by (simp add: usart_translate_dma_def u Let_def split: prod.split)
  then obtain w' where t: "usart_translate_dma ad ?data (ucast (rx_size (gRxInfo ?w))) ?v = Some w'" by blast
  have "tx_inv ad (as @ take (unat (ucast (rx_size (gRxInfo ?w)) :: u16)) ?data) w'"
  proof (rule tx_inv_send [OF tx_inv_same [OF assms(2) same] _ _ t])
    show "State (hdma_usart1_tx ?v) = HAL_DMA_STATE_READY" using same assms(3) by (simp add: same_tx_def)
    show "0 < (ucast (rx_size (gRxInfo ?w)) :: u16)"
      using u assms(4) by (metis length_greater_0_conv unat_gt_0 word_gt_0)
  qed
  moreover have "is_rx_dma (gRxInfo w') = 0"
    using t info by (auto simp: usart_translate_dma_def uart_log_def Let_def split: if_splits prod.splits)
  moreover have "usart_run_test_dma ad junk ?w = Some w'"
    using t info i(1,3) by (simp add: usart_run_test_dma_def n Let_def)
  ultimately show ?thesis by (simp add: u)
qed

section \<open>Properties\<close>

definition demo_addresses :: uart_addresses where
  "demo_addresses = \<lparr>tx_addr = 0x20000000, rx_addr = 0x20000100, dr_addr = 0x40011004\<rparr>"

definition demo_uart :: uart_dma where
  "demo_uart = \<lparr>hdma_usart1_rx = dma_ready DMA_PERIPH_TO_MEMORY, hdma_usart1_tx = dma_ready DMA_MEMORY_TO_PERIPH,
     is_usart_driver_init = 0, gRxInfo = \<lparr>rx_size = 0, is_rx_dma = 0\<rparr>, dma_rx_buffer = replicate 256 0,
     dma_tx_buffer = replicate 256 0, line = [], uart_hist = []\<rparr>"

definition demo_started :: uart_dma where
  "demo_started = snd (usart_driver_init_dma demo_addresses HAL_OK HAL_OK HAL_OK demo_uart)"

lemma demo_started_init:
  "usart_driver_init_dma demo_addresses HAL_OK HAL_OK HAL_OK demo_uart = (pdPASS, demo_started)"
  by (simp add: demo_started_def usart_driver_init_dma_def Let_def)

definition demo_sending :: uart_dma where
  "demo_sending = the (usart_translate_dma demo_addresses [72, 105] 1 demo_started)"

lemma demo_started_tx:
  "hdma_usart1_tx demo_started = (dma_ready DMA_MEMORY_TO_PERIPH)\<lparr>TCIE := True\<rparr>"
  "dma_tx_buffer demo_started = replicate 256 0" "line demo_started = []"
  by (simp_all add: demo_started_def demo_uart_def usart_driver_init_dma_def usart_receive_dma_def uart_log_def
      Let_def split: prod.split)

lemma demo_sending_eq: "usart_translate_dma demo_addresses [72, 105] 1 demo_started = Some demo_sending"
  by (simp add: demo_sending_def usart_translate_dma_def demo_started_tx Let_def split: prod.split)

text \<open>
  C31. When the caller sends its next message only once the transmit stream is ready again, then
  whatever the interleaving of the streams, the two handlers and restarts of the receiver, the line
  carries the messages in order and without loss: at any time a prefix of them, and all of them when
  the stream is ready; and unless the stream has timed out it gets there with nothing but its own
  items and its handler.
\<close>

theorem usart_dma_sends_in_order:
  assumes "usart_driver_init_dma ad ini rx tx v = (pdPASS, w0)" and "length (dma_tx_buffer v) = 256" and "line v = []"
    and "careful ad w0 bs w"
  shows "(\<exists>rest. bs = line w @ rest) \<and> (State (hdma_usart1_tx w) = HAL_DMA_STATE_READY \<longrightarrow> line w = bs)
      \<and> (State (hdma_usart1_tx w) \<noteq> HAL_DMA_STATE_TIMEOUT \<longrightarrow>
           (\<exists>w'. (background ad)\<^sup>*\<^sup>* w w' \<and> State (hdma_usart1_tx w') = HAL_DMA_STATE_READY \<and> line w' = bs))"
proof -
  have i: "tx_inv ad bs w" by (rule careful_inv [OF assms(4) init_tx_inv [OF assms(1-3)]])
  have idle: "bs = line w" if "State (hdma_usart1_tx w) \<noteq> HAL_DMA_STATE_BUSY"
    using i that by (simp add: tx_inv_def Let_def)
  have "\<exists>rest. bs = line w @ rest" using i idle by (auto simp: tx_inv_def Let_def)
  moreover have "\<exists>w'. (background ad)\<^sup>*\<^sup>* w w' \<and> State (hdma_usart1_tx w') = HAL_DMA_STATE_READY \<and> line w' = bs"
    if "State (hdma_usart1_tx w) \<noteq> HAL_DMA_STATE_TIMEOUT"
  proof (cases "State (hdma_usart1_tx w)")
    case HAL_DMA_STATE_READY
    then show ?thesis using idle by auto
  next
    case HAL_DMA_STATE_BUSY
    then show ?thesis by (rule tx_finishes [OF i])
  qed (use i that in \<open>simp_all add: tx_inv_def Let_def\<close>)
  ultimately show ?thesis using idle by simp
qed

theorem usart_dma_sends_in_order_witness:
  "\<exists>w'. (background demo_addresses)\<^sup>*\<^sup>* demo_sending w' \<and> line w' = [72]"
proof -
  have "careful demo_addresses demo_started ([] @ take (unat (1 :: u16)) [72, 105]) demo_sending"
    by (rule careful_send [OF careful_start _ _ demo_sending_eq]) (simp_all add: demo_started_tx dma_ready_def)
  then have c: "careful demo_addresses demo_started [72] demo_sending" by simp
  have "State (hdma_usart1_tx demo_sending) = HAL_DMA_STATE_BUSY"
    by (simp add: demo_sending_def usart_translate_dma_def demo_started_tx dma_ready_def uart_log_def HAL_DMA_Start_def
        DMA_SetConfig_def Let_def)
  then show ?thesis
    using usart_dma_sends_in_order [OF demo_started_init _ _ c] by (auto simp: demo_uart_def)
qed

text \<open>
  C32. A message sent in the window between the end of the previous transfer and the run of its
  handler is refused by the HAL and clears the flag the handler looks for: from then on, whatever
  happens, the stream stays busy and not one more byte reaches the line.
\<close>

theorem usart_dma_lost_completion:
  assumes "State (hdma_usart1_tx w) = HAL_DMA_STATE_BUSY" and "Lock (hdma_usart1_tx w)"
    and "\<not> EN (hdma_usart1_tx w)" and "TCIF (hdma_usart1_tx w)"
    and "usart_translate_dma ad ptr sz w = Some w1" and "(uart_dma_step ad)\<^sup>*\<^sup>* w1 w2"
  shows "line w2 = line w \<and> State (hdma_usart1_tx w2) = HAL_DMA_STATE_BUSY
      \<and> (\<forall>src dst n. HAL_DMA_Start src dst n (hdma_usart1_tx w2) = (HAL_BUSY, hdma_usart1_tx w2))"
  using translate_sticks [OF assms(1-3,5)] steps_stuck [OF assms(6)]
  by (auto simp: tx_stuck_def HAL_DMA_Start_def)

definition demo_finished :: uart_dma where
  "demo_finished = tx_item demo_sending"

lemma demo_finished_tx:
  "State (hdma_usart1_tx demo_finished) = HAL_DMA_STATE_BUSY" "Lock (hdma_usart1_tx demo_finished)"
  "\<not> EN (hdma_usart1_tx demo_finished)" "TCIF (hdma_usart1_tx demo_finished)" "line demo_finished = [72]"
  "length (dma_tx_buffer demo_finished) = 256"
  by (simp_all add: demo_finished_def demo_sending_def tx_item_def next_item_def usart_translate_dma_def demo_started_tx
      dma_ready_def uart_log_def HAL_DMA_Start_def DMA_SetConfig_def Let_def)

theorem usart_dma_lost_completion_witness:
  "\<exists>w1. usart_translate_dma demo_addresses [72, 105] 2 demo_finished = Some w1
     \<and> (\<forall>w2. (uart_dma_step demo_addresses)\<^sup>*\<^sup>* w1 w2 \<longrightarrow> line w2 = [72])"
proof -
  obtain w1 where t: "usart_translate_dma demo_addresses [72, 105] 2 demo_finished = Some w1"
    using demo_finished_tx(6) by (auto simp: usart_translate_dma_def Let_def split_beta)
  then show ?thesis
    using usart_dma_lost_completion [OF demo_finished_tx(1-4) t] demo_finished_tx(5) by auto
qed

end
