(* ===== verification/Analog_Out.thy ===== *)
theory Analog_Out
  imports Peripheral
begin

text \<open>
  The two drivers that shape an output signal: the analog output (\<^verbatim>\<open>Drivers/Src/drv_dac.c\<close>) and the
  pulse-width modulation (\<^verbatim>\<open>drv_pwm.c\<close>), in the variants that run from a table by DMA and in those
  that do not. The code scales by a \<^verbatim>\<open>float\<close>; the product, converted back to an integer, is a
  parameter. The HAL's answers are parameters too.
\<close>

section \<open>Analog output\<close>

definition DAC_REFERENCE_VOL :: u16 where "DAC_REFERENCE_VOL = 3300"

datatype dac_trigger = DAC_TRIGGER_NONE | DAC_TRIGGER_T4_TRGO

record DAC_ChannelConfTypeDef =
  DAC_Trigger :: dac_trigger
  DAC_OutputBuffer :: bool

datatype dac_event =
    Dac_Gpio hw_event
  | Dac_Init
  | Dac_Channel DAC_ChannelConfTypeDef
  | Dac_DmaInit dma_stream DMA_InitTypeDef
  | Dac_Tim tim_event
  | Dac_DmaRequest
  | Dac_DmaStart nat
  | Dac_Enable
  | Dac_Stop
  | Dac_SetValue u32
  | Dac_Start

type_synonym dac_history = "dac_event list"

text \<open>\<open>code\<close> is \<^verbatim>\<open>(float)mv / 3300 * 4095\<close>, converted to an unsigned integer.\<close>

definition dac_voltage_write :: "(u16 \<Rightarrow> u32) \<Rightarrow> u16 \<Rightarrow> dac_history \<Rightarrow> dac_history" where
  "dac_voltage_write code mv h =
     (let mv = (if mv > DAC_REFERENCE_VOL then DAC_REFERENCE_VOL else mv);
          adc_value = code mv;
          h = Dac_Stop # h;
          h = Dac_SetValue adc_value # h
      in Dac_Start # h)"

definition vol_cycle :: "u16 list" where
  "vol_cycle = [
    2048, 2368, 2680, 2977, 3251,
    3496, 3704, 3872, 3995, 4070,
    4095, 4070, 3995, 3872, 3704,
    3496, 3251, 2977, 2680, 2368,
    2048, 1727, 1415, 1118, 844,
    599,  391,  223,  100,  25,
    0,    25,   100,  223,  391,
    599,  844, 1118, 1415, 1727]"

text \<open>\<open>scale\<close> is the product of the factor and a sample; the loop fills all forty entries.\<close>

definition dac_convert_voltage_write :: "(u16 \<Rightarrow> u16) \<Rightarrow> u16 list \<Rightarrow> u16 list" where
  "dac_convert_voltage_write scale vol_convert_cycle =
     fold (\<lambda>i v. v[i := scale (vol_cycle ! i)]) [0..<40] vol_convert_cycle"

definition hdma_dac1_init :: DMA_InitTypeDef where
  "hdma_dac1_init = \<lparr>dma_Channel = 7, dma_Direction = DMA_MEMORY_TO_PERIPH, dma_PeriphInc = False, dma_MemInc = True,
     dma_PeriphDataAlignment = DMA_DATAALIGN_HALFWORD, dma_MemDataAlignment = DMA_DATAALIGN_HALFWORD,
     dma_Mode = DMA_CIRCULAR, dma_Priority = DMA_PRIORITY_LOW, dma_FIFOMode = True,
     dma_FIFOThreshold = DMA_FIFO_THRESHOLD_HALFFULL, dma_MemBurst = DMA_BURST_SINGLE,
     dma_PeriphBurst = DMA_BURST_SINGLE\<rparr>"

record dac_hal =
  dac_ini :: HAL_StatusTypeDef
  dac_channel :: HAL_StatusTypeDef
  dac_dma :: HAL_StatusTypeDef
  dac_timer :: HAL_StatusTypeDef
  dac_clock :: HAL_StatusTypeDef
  dac_master :: HAL_StatusTypeDef

definition dac_gpio_init :: "dac_history \<Rightarrow> dac_history" where
  "dac_gpio_init h =
     (let h = Dac_Gpio (PeriphClock RCC_DAC) # h;
          h = Dac_Gpio (ClockEnable GPIOA) # h;
          g = gpio_init0\<lparr>Pin := GPIO_PIN_4, Mode := GPIO_MODE_ANALOG, Pull := GPIO_NOPULL\<rparr>;
          h = Dac_Gpio (InitPin GPIOA g) # h
      in Dac_Init # h)"

text \<open>The timer that paces the table, and the start of the output; \<open>one\<close> is the product with 1.0.\<close>

definition dac_timer_init ::
  "dac_hal \<Rightarrow> (u16 \<Rightarrow> u16) \<Rightarrow> u16 list \<times> dac_history \<Rightarrow> BaseType_t \<times> u16 list \<times> dac_history" where
  "dac_timer_init hw one w =
     (let (vol, h) = w;
          h = Dac_Tim (Tim_Base_Init TIM4 \<lparr>tim_Prescaler = 89, tim_CounterMode = TIM_COUNTERMODE_UP, tim_Period = 1,
                tim_ClockDivision = 2, tim_AutoReloadPreload = True\<rparr>) # h
      in if dac_timer hw \<noteq> HAL_OK then (pdFAIL, vol, h)
         else (let h = Dac_Tim (Tim_Clock_Internal TIM4) # h
               in if dac_clock hw \<noteq> HAL_OK then (pdFAIL, vol, h)
                  else (let h = Dac_Tim (Tim_Master_Update TIM4) # h
                        in if dac_master hw \<noteq> HAL_OK then (pdFAIL, vol, h)
                           else (let vol = dac_convert_voltage_write one vol;
                                     h = Dac_Tim (Tim_Base_Start TIM4) # h;
                                     h = Dac_DmaRequest # h;
                                     h = Dac_DmaStart 40 # h
                                 in (pdPASS, vol, Dac_Enable # h)))))"

definition dac_driver_init ::
  "dac_hal \<Rightarrow> (u16 \<Rightarrow> u16) \<Rightarrow> u16 list \<times> dac_history \<Rightarrow> BaseType_t \<times> u16 list \<times> dac_history" where
  "dac_driver_init hw one w =
     (let (vol, h) = w;
          h = Dac_Gpio (PeriphClock RCC_DMA1) # h;
          h = Dac_Gpio (PeriphClock RCC_TIM4) # h;
          h = dac_gpio_init h
      in if dac_ini hw \<noteq> HAL_OK then (pdFAIL, vol, h)
         else (let h = Dac_Channel \<lparr>DAC_Trigger = DAC_TRIGGER_T4_TRGO, DAC_OutputBuffer = False\<rparr> # h
               in if dac_channel hw \<noteq> HAL_OK then (pdFAIL, vol, h)
                  else (let h = Dac_DmaInit DMA1_Stream5 hdma_dac1_init # h
                        in if dac_dma hw \<noteq> HAL_OK then (pdFAIL, vol, h) else dac_timer_init hw one (vol, h))))"

text \<open>The variant without DMA, which puts out a constant voltage.\<close>

definition dac_driver_init_poll :: "dac_hal \<Rightarrow> (u16 \<Rightarrow> u32) \<Rightarrow> dac_history \<Rightarrow> BaseType_t \<times> dac_history" where
  "dac_driver_init_poll hw code h =
     (let h = dac_gpio_init h
      in if dac_ini hw \<noteq> HAL_OK then (pdFAIL, h)
         else (let h = Dac_Channel \<lparr>DAC_Trigger = DAC_TRIGGER_NONE, DAC_OutputBuffer = True\<rparr> # h
               in if dac_channel hw \<noteq> HAL_OK then (pdFAIL, h) else (pdPASS, dac_voltage_write code 2000 h)))"

text \<open>\<open>part\<close> is \<^verbatim>\<open>4095 * percent\<close>, which the function then takes for millivolts.\<close>

definition dac_convert_voltage_write_poll :: "(u16 \<Rightarrow> u32) \<Rightarrow> u32 \<Rightarrow> dac_history \<Rightarrow> dac_history" where
  "dac_convert_voltage_write_poll code part h =
     (let adc_vol = part in dac_voltage_write code (ucast adc_vol) h)"

text \<open>The table is replaced as a whole, from the constant one.\<close>

lemma fold_upt_update:
  "n \<le> length v \<Longrightarrow> fold (\<lambda>i v. v[i := f i]) [0..<n] v = map f [0..<n] @ drop n v"
proof (induction n)
  case 0
  show ?case by simp
next
  case (Suc n)
  then have "drop n v = v ! n # drop (Suc n) v" by (simp add: Cons_nth_drop_Suc)
  then show ?case using Suc by (simp add: list_update_append)
qed

lemma dac_table:
  assumes "length v = 40"
  shows "dac_convert_voltage_write scale v = map scale vol_cycle"
proof -
  have "length vol_cycle = 40" by (simp add: vol_cycle_def)
  then have "map (\<lambda>i. scale (vol_cycle ! i)) [0..<40] = map scale vol_cycle"
    by (intro nth_equalityI) simp_all
  then show ?thesis
    using fold_upt_update [of 40 v "\<lambda>i. scale (vol_cycle ! i)"] assms
    by (simp add: dac_convert_voltage_write_def del: upt_rec_numeral)
qed

text \<open>No voltage above the reference is asked for.\<close>

lemma dac_voltage_clamped:
  "dac_voltage_write code mv h = Dac_Start # Dac_SetValue (code (min mv DAC_REFERENCE_VOL)) # Dac_Stop # h"
  by (simp add: dac_voltage_write_def min_def Let_def not_less [symmetric])

section \<open>Pulse-width modulation\<close>

definition TIME_PWM_PEROID :: u32 where "TIME_PWM_PEROID = 1000"

datatype pwm_event =
    Pwm_Gpio hw_event
  | Pwm_Tim tim_event
  | Pwm_DmaInit dma_stream DMA_InitTypeDef
  | Pwm_DmaStart nat
  | Pwm_SetCompare u32

type_synonym pwm_history = "pwm_event list"

record pwm_hal =
  pwm_ini :: HAL_StatusTypeDef
  pwm_clock :: HAL_StatusTypeDef
  pwm_master :: HAL_StatusTypeDef
  pwm_channel :: HAL_StatusTypeDef
  pwm_dma :: HAL_StatusTypeDef

definition timer_pwm_buffer0 :: "u16 list" where "timer_pwm_buffer0 = [200, 400, 600, 800]"

text \<open>What both variants of the initialisation share: the pin and the timer; \<open>dma\<close> is the variant.\<close>

definition pwm_timer_init :: "bool \<Rightarrow> pwm_hal \<Rightarrow> pwm_history \<Rightarrow> BaseType_t \<times> pwm_history" where
  "pwm_timer_init dma hw h =
     (let h = Pwm_Gpio (PeriphClock RCC_TIM3) # h;
          h = Pwm_Gpio (ClockEnable GPIOB) # h;
          h = (if dma then Pwm_Gpio (PeriphClock RCC_DMA1) # h else h);
          g = gpio_init0\<lparr>Pin := GPIO_PIN_1, Mode := GPIO_MODE_AF_PP, Pull := GPIO_NOPULL,
                Speed := GPIO_SPEED_FREQ_HIGH, Alternate := 2\<rparr>;
          h = Pwm_Gpio (InitPin GPIOB g) # h;
          h = Pwm_Tim (Tim_PWM_Init TIM3 \<lparr>tim_Prescaler = 89, tim_CounterMode = TIM_COUNTERMODE_UP,
                tim_Period = TIME_PWM_PEROID, tim_ClockDivision = 1, tim_AutoReloadPreload = True\<rparr>) # h
      in if pwm_ini hw \<noteq> HAL_OK then (pdFAIL, h)
         else (let h = Pwm_Tim (Tim_Clock_Internal TIM3) # h
               in if pwm_clock hw \<noteq> HAL_OK then (pdFAIL, h)
                  else (let h = Pwm_Tim (Tim_Master_Reset TIM3) # h
                        in if pwm_master hw \<noteq> HAL_OK then (pdFAIL, h)
                           else (let h = Pwm_Tim (Tim_PWM_Channel TIM3 4 \<lparr>oc_PWM1 = True,
                                           oc_Pulse = TIME_PWM_PEROID div 2, oc_High = True, oc_FastMode = False\<rparr>) # h
                                 in (if pwm_channel hw \<noteq> HAL_OK then pdFAIL else pdPASS, h)))))"

definition hdma_tim3_init :: DMA_InitTypeDef where
  "hdma_tim3_init = dma_init0\<lparr>dma_Channel := 5, dma_Direction := DMA_MEMORY_TO_PERIPH, dma_PeriphInc := False,
     dma_MemInc := True, dma_PeriphDataAlignment := DMA_DATAALIGN_HALFWORD,
     dma_MemDataAlignment := DMA_DATAALIGN_HALFWORD, dma_Mode := DMA_CIRCULAR, dma_Priority := DMA_PRIORITY_HIGH,
     dma_FIFOMode := False\<rparr>"

definition pwm_driver_init :: "pwm_hal \<Rightarrow> pwm_history \<Rightarrow> BaseType_t \<times> pwm_history" where
  "pwm_driver_init hw h =
     (let (result, h) = pwm_timer_init True hw h
      in if result \<noteq> pdPASS then (pdFAIL, h)
         else (let h = Pwm_DmaInit DMA1_Stream2 hdma_tim3_init # h
               in if pwm_dma hw \<noteq> HAL_OK then (pdFAIL, h)
                  else (let h = Pwm_Tim (Tim_Update_DMA TIM3) # h;
                            h = Pwm_DmaStart 4 # h
                        in (pdPASS, Pwm_Tim (Tim_PWM_Start TIM3 4) # h))))"

definition pwm_driver_init_normal :: "pwm_hal \<Rightarrow> pwm_history \<Rightarrow> BaseType_t \<times> pwm_history" where
  "pwm_driver_init_normal hw h =
     (let (result, h) = pwm_timer_init False hw h
      in if result \<noteq> pdPASS then (pdFAIL, h) else (pdPASS, Pwm_Tim (Tim_PWM_Start TIM3 4) # h))"

text \<open>The buffer the DMA plays is scaled in place.\<close>

definition pwm_set_percent :: "(u16 \<Rightarrow> u16) \<Rightarrow> u16 list \<Rightarrow> u16 list" where
  "pwm_set_percent scale timer_pwm_buffer =
     fold (\<lambda>i b. b[i := scale (b ! i)]) [0..<4] timer_pwm_buffer"

text \<open>\<open>part\<close> is \<^verbatim>\<open>1000 * percent\<close> as a 16-bit integer.\<close>

definition pwm_set_percent_normal :: "u16 \<Rightarrow> pwm_history \<Rightarrow> pwm_history" where
  "pwm_set_percent_normal part h = (let period = part in Pwm_SetCompare (ucast period) # h)"

lemma pwm_scales:
  assumes "length b = 4"
  shows "pwm_set_percent scale b = map scale b"
proof -
  obtain x y z u where "b = [x, y, z, u]"
    using assms by (auto simp: numeral_eq_Suc length_Suc_conv)
  then show ?thesis by (simp add: pwm_set_percent_def upt_rec)
qed

text \<open>
  So percentages accumulate: setting one and then another applies their product, and once a factor has
  brought an entry to zero no later one changes it.
\<close>

lemma pwm_percent_accumulates:
  assumes "length b = 4"
  shows "pwm_set_percent second (pwm_set_percent first b) = map (second \<circ> first) b"
  using assms by (simp add: pwm_scales)

lemma pwm_zero_stays:
  assumes "length b = 4" and "\<And>x. zero x = 0" and "\<And>scale. scale \<in> set ps \<Longrightarrow> scale 0 = 0"
  shows "fold pwm_set_percent ps (pwm_set_percent zero b) = replicate 4 0"
proof -
  have "pwm_set_percent zero b = replicate 4 0"
  proof -
    have "zero = (\<lambda>_. 0)" using assms(2) by auto
    then show ?thesis using assms(1) by (simp add: pwm_scales map_replicate_const)
  qed
  moreover have "fold pwm_set_percent ps (replicate 4 0) = replicate 4 0"
    using assms(3)
  proof (induction ps)
    case (Cons p ps)
    have "p 0 = 0" by (rule Cons.prems) simp
    then have "pwm_set_percent p (replicate 4 0) = replicate 4 0" by (simp add: pwm_scales)
    moreover have "fold pwm_set_percent ps (replicate 4 0) = replicate 4 0"
      by (rule Cons.IH) (simp add: Cons.prems)
    ultimately show ?case by (simp only: fold_simps comp_apply)
  qed simp
  ultimately show ?thesis by simp
qed

end
