(* ===== verification/Crc_Division.thy ===== *)
theory Crc_Division
  imports Alg
begin

text \<open>
  The reference definition of a cyclic redundancy check: the remainder of a long division of
  polynomials over the integers modulo 2, which are lists of bits, the highest coefficient first. The
  routines of \<^verbatim>\<open>drv_alg.c\<close>, which shift a register bit by bit, compute it.
\<close>

section \<open>Long division\<close>

text \<open>Adding a polynomial to the leading coefficients of another.\<close>

fun xor_prefix :: "bool list \<Rightarrow> bool list \<Rightarrow> bool list" where
  "xor_prefix (a # as) (b # bs) = (a \<noteq> b) # xor_prefix as bs"
| "xor_prefix as bs = bs"

lemma length_xor_prefix [simp]: "length (xor_prefix as bs) = length bs"
  by (induction as bs rule: xor_prefix.induct) auto

text \<open>
  The remainder modulo the polynomial of degree \<open>length g\<close> whose highest coefficient is 1 and whose
  others are \<open>g\<close>.
\<close>

fun poly_mod :: "bool list \<Rightarrow> bool list \<Rightarrow> bool list" where
  "poly_mod g [] = []"
| "poly_mod g (b # bs) =
     (if length bs < length g then b # bs else poly_mod g (if b then xor_prefix g bs else bs))"

definition word_bits :: "'a::len word \<Rightarrow> bool list" where
  "word_bits w = map (\<lambda>i. bit w (LENGTH('a) - 1 - i)) [0..<LENGTH('a)]"

lemma length_word_bits [simp]: "length (word_bits (w :: 'a::len word)) = LENGTH('a)"
  by (simp add: word_bits_def)

lemma nth_word_bits: "i < LENGTH('a) \<Longrightarrow> word_bits (w :: 'a::len word) ! i = bit w (LENGTH('a) - 1 - i)"
  by (simp add: word_bits_def)

lemma word_bits_inj:
  fixes v w :: "'a::len word"
  assumes "word_bits v = word_bits w"
  shows "v = w"
proof (rule bit_word_eqI)
  fix n assume n: "n < LENGTH('a)"
  then have "word_bits v ! (LENGTH('a) - 1 - n) = word_bits w ! (LENGTH('a) - 1 - n)" using assms by simp
  then show "bit v n = bit w n" using n by (simp add: nth_word_bits)
qed

section \<open>One step of the register\<close>

lemma xor_prefix_nth:
  "i < length bs \<Longrightarrow> xor_prefix as bs ! i = (if i < length as then as ! i \<noteq> bs ! i else bs ! i)"
  by (induction as bs arbitrary: i rule: xor_prefix.induct) (auto simp: nth_Cons split: nat.splits)

lemma lfsr_prefix:
  fixes r :: "'a::len word"
  assumes "LENGTH('a) \<le> length ms"
  shows "xor_prefix (word_bits (lfsr poly r)) ms =
      (let rest = xor_prefix (tl (word_bits r)) ms
       in if bit r (LENGTH('a) - 1) then xor_prefix (word_bits poly) rest else rest)"
proof (rule nth_equalityI)
  fix i assume "i < length (xor_prefix (word_bits (lfsr poly r)) ms)"
  then have i: "i < length ms" by simp
  show "xor_prefix (word_bits (lfsr poly r)) ms ! i =
      (let rest = xor_prefix (tl (word_bits r)) ms
       in if bit r (LENGTH('a) - 1) then xor_prefix (word_bits poly) rest else rest) ! i"
  proof (cases "i < LENGTH('a)")
    case True
    have "tl (word_bits r) ! i = bit r (LENGTH('a) - 1 - i - 1)" if "i < LENGTH('a) - 1"
      using that by (simp add: nth_tl nth_word_bits)
    moreover have "i < LENGTH('a) - 1 \<longleftrightarrow> LENGTH('a) - 1 - i \<noteq> 0" using True by linarith
    moreover have "bit (lfsr poly r) (LENGTH('a) - 1 - i) =
        ((LENGTH('a) - 1 - i \<noteq> 0 \<and> bit r (LENGTH('a) - 1 - i - 1))
           \<noteq> (bit r (LENGTH('a) - 1) \<and> bit poly (LENGTH('a) - 1 - i)))"
      by (rule bit_lfsr) simp
    ultimately show ?thesis
      using True i by (auto simp: xor_prefix_nth nth_word_bits Let_def)
  qed (use i in \<open>auto simp: xor_prefix_nth Let_def\<close>)
qed (simp add: Let_def)

lemma division_step:
  fixes r :: "'a::len word"
  assumes "LENGTH('a) \<le> length ms"
  shows "poly_mod (word_bits poly) (xor_prefix (word_bits r) (False # ms))
       = poly_mod (word_bits poly) (xor_prefix (word_bits (lfsr poly r)) ms)"
proof -
  have u: "[0..<LENGTH('a)] = 0 # [1..<LENGTH('a)]" by (simp add: upt_conv_Cons)
  obtain bs where b: "word_bits r = bit r (LENGTH('a) - 1) # bs"
    unfolding word_bits_def u by simp
  have "tl (word_bits r) = bs" by (simp only: b list.sel)
  then have p: "xor_prefix (word_bits (lfsr poly r)) ms =
      (if bit r (LENGTH('a) - 1) then xor_prefix (word_bits poly) (xor_prefix bs ms) else xor_prefix bs ms)"
    by (simp only: lfsr_prefix [OF assms] Let_def)
  show ?thesis
    unfolding p b using assms by (simp del: One_nat_def)
qed

lemma division_steps:
  fixes r :: "'a::len word"
  assumes "LENGTH('a) \<le> length ms"
  shows "poly_mod (word_bits poly) (xor_prefix (word_bits r) (replicate k False @ ms))
       = poly_mod (word_bits poly) (xor_prefix (word_bits ((lfsr poly ^^ k) r)) ms)"
proof (induction k arbitrary: r)
  case 0
  show ?case by simp
next
  case (Suc k)
  have "poly_mod (word_bits poly) (xor_prefix (word_bits r) (False # replicate k False @ ms))
      = poly_mod (word_bits poly) (xor_prefix (word_bits (lfsr poly r)) (replicate k False @ ms))"
    by (rule division_step) (use assms in simp)
  then show ?case using Suc.IH [of "lfsr poly r"] by (simp add: funpow_Suc_right del: funpow.simps)
qed

text \<open>Feeding a word first and shifting zeros in is the same as shifting its bits in.\<close>

lemma xor_prefix_word:
  fixes r w :: "'a::len word"
  shows "xor_prefix (word_bits r) (word_bits w @ ms) = xor_prefix (word_bits (r XOR w)) (replicate LENGTH('a) False @ ms)"
  by (rule nth_equalityI) (auto simp: xor_prefix_nth nth_append nth_word_bits bit_xor_iff)

section \<open>Checksums as remainders\<close>

text \<open>
  A register that shifts every word through with an odd polynomial. It is a \<open>crc_register\<close>, so what
  holds of those holds of it.
\<close>

locale crc_division =
  fixes poly :: "'a::len word"
    and crc :: "'a word list \<Rightarrow> 'a word"
    and seed :: "'a word"
  assumes poly_odd: "bit poly 0"
    and crc_shift: "crc data = foldl (\<lambda>c b. (lfsr poly ^^ LENGTH('a)) (c XOR b)) seed data"

sublocale crc_division \<subseteq> crc_register "lfsr poly ^^ LENGTH('a)" crc seed
proof unfold_locales
  fix c d :: "'a word"
  have "inj (lfsr poly)" by (rule injI) (rule lfsr_inj [OF poly_odd])
  then show "(lfsr poly ^^ LENGTH('a)) c = (lfsr poly ^^ LENGTH('a)) d \<Longrightarrow> c = d" by (rule funpow_inj)
qed (simp_all add: funpow_fix crc_shift)

context crc_division
begin

text \<open>The message, its first bits combined with the seed, followed by as many zeros as the checksum has bits.\<close>

lemma remainder_from:
  "poly_mod (word_bits poly) (xor_prefix (word_bits c) (concat (map word_bits data) @ replicate LENGTH('a) False))
     = word_bits (foldl (\<lambda>c b. (lfsr poly ^^ LENGTH('a)) (c XOR b)) c data)"
proof (induction data arbitrary: c)
  case Nil
  have "xor_prefix (word_bits c) (replicate LENGTH('a) False) = word_bits c"
    by (rule nth_equalityI) (simp_all add: xor_prefix_nth)
  moreover obtain b bs where "word_bits c = b # bs" and "length bs < LENGTH('a)"
    using length_word_bits [of c] by (cases "word_bits c") auto
  ultimately show ?case by simp
next
  case (Cons w data)
  let ?rest = "concat (map word_bits data) @ replicate LENGTH('a) False"
  have "poly_mod (word_bits poly) (xor_prefix (word_bits c) (word_bits w @ ?rest))
      = poly_mod (word_bits poly) (xor_prefix (word_bits ((lfsr poly ^^ LENGTH('a)) (c XOR w))) ?rest)"
    unfolding xor_prefix_word by (rule division_steps) simp
  then show ?case by (simp add: Cons.IH)
qed

lemma remainder:
  "word_bits (crc data) =
     poly_mod (word_bits poly) (xor_prefix (word_bits seed) (concat (map word_bits data) @ replicate LENGTH('a) False))"
  by (simp only: remainder_from crc_shift)

lemma remainder_unique:
  assumes "\<And>data. word_bits (unit data) =
     poly_mod (word_bits poly) (xor_prefix (word_bits seed) (concat (map word_bits data) @ replicate LENGTH('a) False))"
  shows "unit data = crc data"
  by (rule word_bits_inj) (simp only: remainder assms)

end

interpretation crc8_div: crc_division CRC8_POLYNOMIAL calc_crc8 CRC8_INIT
  by unfold_locales (simp_all add: CRC8_POLYNOMIAL_def calc_crc8_def crc8_bit_lfsr)

interpretation crc32_div: crc_division CRC32_POLYNOMIAL calc_crc32 CRC32_INIT
  by unfold_locales (simp_all add: CRC32_POLYNOMIAL_def calc_crc32_def crc32_bit_lfsr)

text \<open>
  So the software routine agrees with a hardware unit that divides by the same polynomial from the same
  seed, which is what the reference manual says of the STM32's.
\<close>

lemma hw_crc32_agrees:
  assumes "\<And>data. word_bits (unit data) =
     poly_mod (word_bits (0x04C11DB7 :: u32))
       (xor_prefix (replicate 32 True) (concat (map word_bits data) @ replicate 32 False))"
  shows "calc_hw_crc32 unit data = calc_crc32 data"
proof -
  have seed: "word_bits CRC32_INIT = replicate 32 True"
    by (simp add: word_bits_def CRC32_INIT_def eval_nat_numeral)
  have "unit data = calc_crc32 data"
    by (rule crc32_div.remainder_unique) (simp only: assms seed CRC32_POLYNOMIAL_def len_of_numeral_defs, simp)
  then show ?thesis by (simp add: calc_hw_crc32_def)
qed

section \<open>Properties\<close>

text \<open>
  C27. calc_crc8 and calc_crc32, which shift a register bit by bit, compute the textbook definition
  of a cyclic redundancy check: the remainder of a polynomial long division, modulo 2, of the
  message with its first bits combined with the seed and followed by as many zeros as the checksum
  has bits.
\<close>

theorem crc_is_long_division:
  "word_bits (calc_crc8 bytes) =
     poly_mod (word_bits CRC8_POLYNOMIAL)
       (xor_prefix (word_bits CRC8_INIT) (concat (map word_bits bytes) @ replicate 8 False))
   \<and> word_bits (calc_crc32 words) =
     poly_mod (word_bits CRC32_POLYNOMIAL)
       (xor_prefix (word_bits CRC32_INIT) (concat (map word_bits words) @ replicate 32 False))"
  using crc8_div.remainder [of bytes] crc32_div.remainder [of words] by simp

end
