(* ===== verification/Button.thy ===== *)
theory Button
  imports Prelude
begin

text \<open>
  The push buttons (\<^verbatim>\<open>ThirdParts/MultiButton/multi_button.c\<close>, with the timing of this product): every 20 ms
  each started button is read, debounced and run through a state machine that calls the attached
  functions. The bit fields keep their widths. A call of an attached function is recorded with the
  button as it is at that moment, which is what the function can ask about.
\<close>

section \<open>State\<close>

datatype PressEvent =
    PRESS_DOWN | PRESS_UP | PRESS_REPEAT | SINGLE_CLICK | DOUBLE_CLICK | LONG_PRESS_START | LONG_PRESS_HOLD
  | number_of_event | NONE_PRESS

definition DEBOUNCE_TICKS :: nat where "DEBOUNCE_TICKS = 3"
definition SHORT_TICKS :: nat where "SHORT_TICKS = 300 div 20"
definition LONG_TICKS :: nat where "LONG_TICKS = 4000 div 20"

record 'c Button =
  ticks :: u16
  repeat :: "4 word"
  event :: PressEvent
  state :: "3 word"
  debounce_cnt :: "3 word"
  active_level :: "1 word"
  button_level :: "1 word"
  button_id :: u8
  cb :: "PressEvent \<Rightarrow> 'c option"

section \<open>Operations\<close>

text \<open>\<open>level\<close> is the function that reads the pin.\<close>

definition button_init :: "(u8 \<Rightarrow> u8) \<Rightarrow> u8 \<Rightarrow> u8 \<Rightarrow> 'c Button" where
  "button_init level active i =
     \<lparr>ticks = 0, repeat = 0, event = NONE_PRESS, state = 0, debounce_cnt = 0, active_level = ucast active,
      button_level = ucast (level i), button_id = i, cb = (\<lambda>_. None)\<rparr>"

text \<open>The array of attached functions has a place for each of the first seven events.\<close>

definition button_attach :: "PressEvent \<Rightarrow> 'c \<Rightarrow> 'c Button \<Rightarrow> 'c Button option" where
  "button_attach ev f b =
     (if ev \<in> {number_of_event, NONE_PRESS} then None else Some (b\<lparr>cb := (cb b)(ev := Some f)\<rparr>))"

definition get_button_event :: "'c Button \<Rightarrow> PressEvent" where
  "get_button_event b = event b"

definition get_button_level :: "'c Button \<Rightarrow> u8" where
  "get_button_level b = ucast (button_level b)"

definition is_button_active :: "'c Button \<Rightarrow> bool" where
  "is_button_active b \<longleftrightarrow> button_level b = active_level b"

text \<open>The macro \<^verbatim>\<open>EVENT_CB\<close>.\<close>

definition EVENT_CB :: "PressEvent \<Rightarrow> 'c Button \<Rightarrow> ('c Button \<times> 'c) list" where
  "EVENT_CB ev b = (case cb b ev of None \<Rightarrow> [] | Some f \<Rightarrow> [(b, f)])"

definition button_debounce :: "u8 \<Rightarrow> 'c Button \<Rightarrow> 'c Button" where
  "button_debounce read_gpio_level b =
     (if read_gpio_level \<noteq> ucast (button_level b)
      then (let b = b\<lparr>debounce_cnt := debounce_cnt b + 1\<rparr>
            in if unat (debounce_cnt b) \<ge> DEBOUNCE_TICKS
               then b\<lparr>button_level := ucast read_gpio_level, debounce_cnt := 0\<rparr> else b)
      else b\<lparr>debounce_cnt := 0\<rparr>)"

definition button_machine :: "'c Button \<Rightarrow> 'c Button \<times> ('c Button \<times> 'c) list" where
  "button_machine b =
     (if state b = 0
      then (if button_level b = active_level b
            then (let b = b\<lparr>event := PRESS_DOWN\<rparr>; calls = EVENT_CB PRESS_DOWN b
                  in (b\<lparr>ticks := 0, repeat := 1, state := 1\<rparr>, calls))
            else (b\<lparr>event := NONE_PRESS\<rparr>, []))
      else if state b = 1
      then (if button_level b \<noteq> active_level b
            then (let b = b\<lparr>event := PRESS_UP\<rparr>; calls = EVENT_CB PRESS_UP b
                  in (b\<lparr>ticks := 0, state := 2\<rparr>, calls))
            else if unat (ticks b) > LONG_TICKS
            then (let b = b\<lparr>event := LONG_PRESS_START\<rparr>; calls = EVENT_CB LONG_PRESS_START b
                  in (b\<lparr>state := 5\<rparr>, calls))
            else (b, []))
      else if state b = 2
      then (if button_level b = active_level b
            then (let b = b\<lparr>event := PRESS_DOWN\<rparr>; calls = EVENT_CB PRESS_DOWN b;
                      b = b\<lparr>repeat := repeat b + 1\<rparr>; calls = calls @ EVENT_CB PRESS_REPEAT b
                  in (b\<lparr>ticks := 0, state := 3\<rparr>, calls))
            else if unat (ticks b) > SHORT_TICKS
            then (let (b, calls) =
                        (if repeat b = 1
                         then (let b = b\<lparr>event := SINGLE_CLICK\<rparr> in (b, EVENT_CB SINGLE_CLICK b))
                         else if repeat b = 2
                         then (let b = b\<lparr>event := DOUBLE_CLICK\<rparr> in (b, EVENT_CB DOUBLE_CLICK b))
                         else (b, []))
                  in (b\<lparr>state := 0\<rparr>, calls))
            else (b, []))
      else if state b = 3
      then (if button_level b \<noteq> active_level b
            then (let b = b\<lparr>event := PRESS_UP\<rparr>; calls = EVENT_CB PRESS_UP b
                  in (if unat (ticks b) < SHORT_TICKS then b\<lparr>ticks := 0, state := 2\<rparr> else b\<lparr>state := 0\<rparr>, calls))
            else if unat (ticks b) > SHORT_TICKS then (b\<lparr>state := 0\<rparr>, []) else (b, []))
      else if state b = 5
      then (if button_level b = active_level b
            then (let b = b\<lparr>event := LONG_PRESS_HOLD\<rparr> in (b, EVENT_CB LONG_PRESS_HOLD b))
            else (let b = b\<lparr>event := PRESS_UP\<rparr>; calls = EVENT_CB PRESS_UP b in (b\<lparr>state := 0\<rparr>, calls)))
      else (b\<lparr>state := 0\<rparr>, []))"

definition button_handler :: "u8 \<Rightarrow> 'c Button \<Rightarrow> 'c Button \<times> ('c Button \<times> 'c) list" where
  "button_handler read_gpio_level b =
     (let b = (if state b > 0 then b\<lparr>ticks := ticks b + 1\<rparr> else b);
          b = button_debounce read_gpio_level b
      in button_machine b)"

text \<open>
  The list of started buttons, by their addresses (\<open>nat\<close>), the head first. It never links a button
  twice, so the two loops over it end.
\<close>

definition button_start :: "nat \<Rightarrow> nat list \<Rightarrow> int \<times> nat list" where
  "button_start handle head_handle =
     (if handle \<in> set head_handle then (-1, head_handle) else (0, handle # head_handle))"

definition button_stop :: "nat \<Rightarrow> nat list \<Rightarrow> nat list" where
  "button_stop handle head_handle = remove1 handle head_handle"

text \<open>
  One round over the started buttons. \<open>level\<close> reads the pin of a button, \<open>call\<close> runs an attached
  function for the button at an address, given all buttons as they are at that moment.
\<close>

definition button_ticks ::
  "('w \<Rightarrow> u8 \<Rightarrow> u8 \<times> 'w) \<Rightarrow> ('c \<Rightarrow> nat \<Rightarrow> (nat \<Rightarrow> 'c Button) \<Rightarrow> 'w \<Rightarrow> 'w) \<Rightarrow> nat list
     \<Rightarrow> (nat \<Rightarrow> 'c Button) \<times> 'w \<Rightarrow> (nat \<Rightarrow> 'c Button) \<times> 'w" where
  "button_ticks level call head_handle =
     fold (\<lambda>i (bs, w).
             let (r, w) = level w (button_id (bs i));
                 (b, calls) = button_handler r (bs i);
                 w = fold (\<lambda>(snap, f) w. call f i (bs(i := snap)) w) calls w
             in (bs(i := b), w)) head_handle"

lemma button_start_distinct: "distinct hs \<Longrightarrow> distinct (snd (button_start h hs))"
  by (simp add: button_start_def)

lemma button_stop_distinct: "distinct hs \<Longrightarrow> distinct (button_stop h hs) \<and> h \<notin> set (button_stop h hs)"
  by (simp add: button_stop_def)

section \<open>A button over a sequence of readings\<close>

text \<open>\<open>pin a p\<close> is what the pin of a button with active level \<open>a\<close> reads when it is pressed or not.\<close>

definition pin :: "1 word \<Rightarrow> bool \<Rightarrow> u8" where
  "pin a pressed = (if pressed then ucast a else ucast (a + 1))"

lemma bit_cases: "l = 0 \<or> l = (1 :: 1 word)"
proof -
  have "unat l < 2 ^ LENGTH(1)" by (rule unsigned_less)
  then have "unat l = 0 \<or> unat l = 1" by auto
  then show ?thesis by (metis unat_0 unat_1 word_unat_eq_iff)
qed

lemma bit_flip [simp]: "a + 1 \<noteq> (a :: 1 word)" "(l \<noteq> a) = (l = a + 1)" "a + 1 + 1 = a"
  using bit_cases [of a] bit_cases [of l] by auto

lemma pin_simps [simp]:
  "ucast (pin a p) = (if p then a else a + 1)" "(pin a p = ucast l) = (if p then l = a else l = a + 1)"
  using bit_cases [of a] bit_cases [of l] by (auto simp: pin_def)

text \<open>The calls made at each reading.\<close>

fun button_run :: "bool list \<Rightarrow> 'c Button \<Rightarrow> 'c Button \<times> ('c Button \<times> 'c) list list" where
  "button_run [] b = (b, [])"
| "button_run (p # ps) b =
     (let (b, calls) = button_handler (pin (active_level b) p) b; (b, rest) = button_run ps b in (b, calls # rest))"

lemma button_run_append:
  "button_run (ps @ qs) b =
     (let (b, cs) = button_run ps b; (b, ds) = button_run qs b in (b, cs @ ds))"
  by (induction ps arbitrary: b) (auto simp: Let_def split: prod.split)

lemma button_machine_keeps [simp]:
  "button_level (fst (button_machine b)) = button_level b" "debounce_cnt (fst (button_machine b)) = debounce_cnt b"
  "active_level (fst (button_machine b)) = active_level b" "cb (fst (button_machine b)) = cb b"
  by (simp_all add: button_machine_def Let_def del: bit_flip)

lemma button_debounce_keeps [simp]:
  "active_level (button_debounce r b) = active_level b" "state (button_debounce r b) = state b"
  "ticks (button_debounce r b) = ticks b" "cb (button_debounce r b) = cb b" "repeat (button_debounce r b) = repeat b"
  "event (button_debounce r b) = event b"
  by (simp_all add: button_debounce_def Let_def)

section \<open>Debouncing\<close>

text \<open>
  The specification reads the samples backwards, the most recent first: the level is that of the latest
  three equal samples in a row, and the initial one as long as there have been none.
\<close>

fun settled :: "bool \<Rightarrow> bool list \<Rightarrow> bool" where
  "settled l (u # v # w # vs) = (if u = v \<and> v = w then u else settled l (v # w # vs))"
| "settled l vs = l"

lemma settled_same: "settled l vs = v \<Longrightarrow> settled l (v # vs) = v"
  by (cases vs; cases "tl vs") auto

lemma settled_diff:
  "settled l vs \<noteq> v \<Longrightarrow> settled l (v # vs) = (if 2 \<le> length (takeWhile (\<lambda>u. u \<noteq> settled l vs) vs) then v else settled l vs)"
  by (cases vs; cases "tl vs") (auto split: if_splits)

definition level_ok :: "bool \<Rightarrow> bool list \<Rightarrow> 'c Button \<Rightarrow> bool" where
  "level_ok l vs b \<longleftrightarrow> is_button_active b = settled l vs
     \<and> unat (debounce_cnt b) = length (takeWhile (\<lambda>v. v \<noteq> settled l vs) vs) \<and> unat (debounce_cnt b) \<le> 2"

lemma button_debounce_ok:
  assumes "level_ok l vs b"
  shows "level_ok l (v # vs) (button_debounce (pin (active_level b) v) b)"
proof (cases "settled l vs = v")
  case True
  then have "button_debounce (pin (active_level b) v) b = b\<lparr>debounce_cnt := 0\<rparr>"
    using assms by (simp add: button_debounce_def level_ok_def is_button_active_def)
  then show ?thesis using True assms settled_same [OF True] by (simp add: level_ok_def is_button_active_def)
next
  case False
  have le: "unat (debounce_cnt b) \<le> 2" using assms unfolding level_ok_def by blast
  then have len: "unat (debounce_cnt b + 1) = Suc (unat (debounce_cnt b))"
    using unat_add_one_less [of "debounce_cnt b" 7] by (simp add: word_less_nat_alt)
  have d: "button_debounce (pin (active_level b) v) b =
      (if unat (debounce_cnt b) = 2 then b\<lparr>button_level := ucast (pin (active_level b) v), debounce_cnt := 0\<rparr>
       else b\<lparr>debounce_cnt := debounce_cnt b + 1\<rparr>)"
    using assms False le len by (auto simp: button_debounce_def level_ok_def is_button_active_def DEBOUNCE_TICKS_def)
  have s: "settled l (v # vs) = (if unat (debounce_cnt b) = 2 then v else settled l vs)"
    using settled_diff [OF False] assms le by (auto simp: level_ok_def)
  show ?thesis
    using assms False le by (cases "unat (debounce_cnt b) = 2") (auto simp: d s len level_ok_def is_button_active_def)
qed

lemma level_ok_simps [simp]:
  "level_ok l vs (fst (button_machine b)) = level_ok l vs b" "level_ok l vs (b\<lparr>ticks := t\<rparr>) = level_ok l vs b"
  by (simp_all add: level_ok_def is_button_active_def)

lemma button_handler_ok:
  "level_ok l vs b \<Longrightarrow> level_ok l (v # vs) (fst (button_handler (pin (active_level b) v) b))"
  using button_debounce_ok [of l vs b v] button_debounce_ok [of l vs "b\<lparr>ticks := ticks b + 1\<rparr>" v]
  by (simp add: button_handler_def Let_def)

lemma button_run_ok: "level_ok l vs b \<Longrightarrow> level_ok l (rev ps @ vs) (fst (button_run ps b))"
proof (induction ps arbitrary: vs b)
  case (Cons p ps)
  obtain b' calls where h: "button_handler (pin (active_level b) p) b = (b', calls)" by force
  show ?case using Cons.IH [OF button_handler_ok [OF Cons.prems, of p]] h by (cases "button_run ps b'") simp
qed simp

text \<open>
  C40. The debouncing in button_handler agrees with its specification on every sequence of readings:
  the level is that of the latest three equal readings in a row, and the initial one as long as
  there have been none.
\<close>

theorem button_level_is_debounced:
  "debounce_cnt b = 0
     \<Longrightarrow> is_button_active (fst (button_run ps b)) = settled (is_button_active b) (rev ps)"
  using button_run_ok [of "is_button_active b" "[]" b ps] by (simp add: level_ok_def)

text \<open>A press that bounces: three equal readings come only at the end.\<close>

theorem button_level_is_debounced_witness:
  "\<not> is_button_active (button_init (\<lambda>_. 1) 0 7)
   \<and> is_button_active (fst (button_run [True, True, False, True, False, True, True, True] (button_init (\<lambda>_. 1) 0 7)))
   \<and> \<not> is_button_active (fst (button_run [True, True, False, True, False, True, True] (button_init (\<lambda>_. 1) 0 7)))"
proof -
  let ?b = "button_init (\<lambda>_. 1) 0 7"
  have c: "debounce_cnt ?b = 0" and l: "\<not> is_button_active ?b"
    by (simp_all add: button_init_def is_button_active_def)
  show ?thesis
    using button_level_is_debounced [of ?b "[True, True, False, True, False, True, True, True]"]
      button_level_is_debounced [of ?b "[True, True, False, True, False, True, True]"]
    by (simp add: c l del: button_run.simps)
qed

section \<open>The events of a press\<close>

text \<open>The debounced level at each reading, \<open>vs\<close> being the readings so far, and the calls of the state machine on levels.\<close>

fun levels :: "bool \<Rightarrow> bool list \<Rightarrow> bool list \<Rightarrow> bool list" where
  "levels l vs [] = []"
| "levels l vs (p # ps) = settled l (p # vs) # levels l (p # vs) ps"

definition sampled :: "bool \<Rightarrow> 'c Button \<Rightarrow> 'c Button" where
  "sampled p b = b\<lparr>ticks := (if state b > 0 then ticks b + 1 else ticks b),
                   button_level := (if p then active_level b else active_level b + 1)\<rparr>"

definition level_step :: "bool \<Rightarrow> 'c Button \<Rightarrow> 'c Button \<times> ('c Button \<times> 'c) list" where
  "level_step p b = button_machine (sampled p b)"

fun level_run :: "bool list \<Rightarrow> 'c Button \<Rightarrow> 'c list list" where
  "level_run [] b = []"
| "level_run (p # ps) b = map snd (snd (level_step p b)) # level_run ps (fst (level_step p b))"

lemma button_machine_cnt:
  "button_machine (b\<lparr>debounce_cnt := c\<rparr>) =
     ((fst (button_machine b))\<lparr>debounce_cnt := c\<rparr>, map (\<lambda>(b, f). (b\<lparr>debounce_cnt := c\<rparr>, f)) (snd (button_machine b)))"
  by (simp add: button_machine_def EVENT_CB_def Let_def del: bit_flip split: option.split)

lemma sampled_cnt: "sampled p (b\<lparr>debounce_cnt := c\<rparr>) = (sampled p b)\<lparr>debounce_cnt := c\<rparr>"
  by (cases b) (simp add: sampled_def)

lemma level_step_cnt:
  "fst (level_step p (b\<lparr>debounce_cnt := c\<rparr>)) = (fst (level_step p b))\<lparr>debounce_cnt := c\<rparr>"
  "map snd (snd (level_step p (b\<lparr>debounce_cnt := c\<rparr>))) = map snd (snd (level_step p b))"
  by (simp_all add: level_step_def sampled_cnt button_machine_cnt split_def comp_def)

lemma level_run_cnt: "level_run ps (b\<lparr>debounce_cnt := c\<rparr>) = level_run ps b"
  by (induction ps arbitrary: b) (simp_all add: level_step_cnt)

lemma button_debounce_level:
  "\<exists>c. button_debounce r b = b\<lparr>button_level := button_level (button_debounce r b), debounce_cnt := c\<rparr>"
  by (cases b) (simp add: button_debounce_def Let_def)

lemma level_ok_level:
  "level_ok l vs b \<Longrightarrow> button_level b = (if settled l vs then active_level b else active_level b + 1)"
  by (auto simp: level_ok_def is_button_active_def)

lemma button_handler_step:
  assumes "level_ok l vs b"
  shows "\<exists>c. button_handler (pin (active_level b) v) b = level_step (settled l (v # vs)) (b\<lparr>debounce_cnt := c\<rparr>)"
proof -
  let ?b = "b\<lparr>ticks := (if state b > 0 then ticks b + 1 else ticks b)\<rparr>"
  have "level_ok l (v # vs) (button_debounce (pin (active_level ?b) v) ?b)" by (rule button_debounce_ok) (simp add: assms)
  note lv = level_ok_level [OF this]
  obtain c where c: "button_debounce (pin (active_level ?b) v) ?b = ?b\<lparr>button_level :=
      button_level (button_debounce (pin (active_level ?b) v) ?b), debounce_cnt := c\<rparr>"
    using button_debounce_level by blast
  have "button_handler (pin (active_level b) v) b = button_machine (button_debounce (pin (active_level ?b) v) ?b)"
    by (simp add: button_handler_def)
  also have "\<dots> = level_step (settled l (v # vs)) (b\<lparr>debounce_cnt := c\<rparr>)"
    by (subst c, subst lv) (cases b, simp add: level_step_def sampled_def)
  finally show ?thesis by blast
qed

lemma button_run_levels:
  "level_ok l vs b \<Longrightarrow> map (map snd) (snd (button_run ps b)) = level_run (levels l vs ps) b"
proof (induction ps arbitrary: vs b)
  case (Cons p ps)
  obtain c where c: "button_handler (pin (active_level b) p) b = level_step (settled l (p # vs)) (b\<lparr>debounce_cnt := c\<rparr>)"
    using button_handler_step [OF Cons.prems] by blast
  let ?h = "button_handler (pin (active_level b) p) b"
  have "level_ok l (p # vs) (fst ?h)" by (rule button_handler_ok [OF Cons.prems])
  then have "map (map snd) (snd (button_run ps (fst ?h))) = level_run (levels l (p # vs) ps) (fst ?h)" by (rule Cons.IH)
  then show ?case by (simp add: Let_def split_def level_run_cnt level_step_cnt c)
qed simp

text \<open>Where a button with every event attached is in its cycle; the function attached to an event is its name.\<close>

definition at_state :: "3 word \<Rightarrow> nat \<Rightarrow> 4 word \<Rightarrow> PressEvent Button \<Rightarrow> bool" where
  "at_state s t r b \<longleftrightarrow> cb b = Some \<and> state b = s \<and> unat (ticks b) = t \<and> repeat b = r"

definition idle :: "PressEvent Button \<Rightarrow> bool" where
  "idle b \<longleftrightarrow> cb b = Some \<and> state b = 0"

definition held :: "PressEvent Button \<Rightarrow> bool" where
  "held b \<longleftrightarrow> cb b = Some \<and> state b = 5"

lemmas machine_defs =
  level_step_def sampled_def button_machine_def EVENT_CB_def SHORT_TICKS_def LONG_TICKS_def Let_def

lemma tick [simp]: "unat t < 65535 \<Longrightarrow> unat (t + 1 :: u16) = Suc (unat t)"
  using unat_add_one_less [of t 65535] by (simp add: word_less_nat_alt)

lemma step_idle:
  "idle b \<Longrightarrow> map snd (snd (level_step False b)) = [] \<and> idle (fst (level_step False b))"
  "idle b \<Longrightarrow> map snd (snd (level_step True b)) = [PRESS_DOWN] \<and> at_state 1 0 1 (fst (level_step True b))"
  by (simp_all add: machine_defs at_state_def idle_def)

lemma step_down:
  "at_state 1 t r b \<Longrightarrow> t < 200
     \<Longrightarrow> map snd (snd (level_step True b)) = [] \<and> at_state 1 (Suc t) r (fst (level_step True b))"
  "at_state 1 200 r b
     \<Longrightarrow> map snd (snd (level_step True b)) = [LONG_PRESS_START] \<and> held (fst (level_step True b))"
  "at_state 1 t r b
     \<Longrightarrow> map snd (snd (level_step False b)) = [PRESS_UP] \<and> at_state 2 0 r (fst (level_step False b))"
  by (simp_all add: machine_defs at_state_def held_def)

lemma step_up:
  "at_state 2 t r b \<Longrightarrow> t < 15
     \<Longrightarrow> map snd (snd (level_step False b)) = [] \<and> at_state 2 (Suc t) r (fst (level_step False b))"
  "at_state 2 15 r b
     \<Longrightarrow> map snd (snd (level_step False b)) =
          (if r = 1 then [SINGLE_CLICK] else if r = 2 then [DOUBLE_CLICK] else [])
        \<and> idle (fst (level_step False b))"
  "at_state 2 t r b
     \<Longrightarrow> map snd (snd (level_step True b)) = [PRESS_DOWN, PRESS_REPEAT]
        \<and> at_state 3 0 (r + 1) (fst (level_step True b))"
  by (auto simp: machine_defs at_state_def idle_def)

lemma step_again:
  "at_state 3 t r b \<Longrightarrow> t < 15
     \<Longrightarrow> map snd (snd (level_step True b)) = [] \<and> at_state 3 (Suc t) r (fst (level_step True b))"
  "at_state 3 15 r b \<Longrightarrow> map snd (snd (level_step True b)) = [] \<and> idle (fst (level_step True b))"
  "at_state 3 t r b \<Longrightarrow> t < 14
     \<Longrightarrow> map snd (snd (level_step False b)) = [PRESS_UP] \<and> at_state 2 0 r (fst (level_step False b))"
  by (auto simp: machine_defs at_state_def idle_def)

lemma step_held:
  "held b \<Longrightarrow> map snd (snd (level_step True b)) = [LONG_PRESS_HOLD] \<and> held (fst (level_step True b))"
  "held b \<Longrightarrow> map snd (snd (level_step False b)) = [PRESS_UP] \<and> idle (fst (level_step False b))"
  by (simp_all add: machine_defs held_def idle_def)

lemma level_run_replicate:
  assumes "\<And>i b. i < k \<Longrightarrow> P i b \<Longrightarrow> map snd (snd (level_step p b)) = e \<and> P (Suc i) (fst (level_step p b))"
    and "P 0 b"
  shows "\<exists>b'. level_run (replicate k p @ ps) b = replicate k e @ level_run ps b' \<and> P k b'"
  using assms
proof (induction k arbitrary: P b)
  case (Suc k)
  have "\<exists>b'. level_run (replicate k p @ ps) (fst (level_step p b)) = replicate k e @ level_run ps b' \<and> P (Suc k) b'"
    by (rule Suc.IH [where P = "\<lambda>i. P (Suc i)"]) (use Suc.prems in auto)
  moreover have "map snd (snd (level_step p b)) = e" using Suc.prems by blast
  ultimately show ?case by auto
qed auto

lemma run_idle:
  "idle b \<Longrightarrow> \<exists>b'. level_run (replicate k False @ ps) b = replicate k [] @ level_run ps b' \<and> idle b'"
  by (rule level_run_replicate [where P = "\<lambda>_. idle"]) (simp_all add: step_idle)

lemma run_idle_end: "idle b \<Longrightarrow> level_run (replicate k False) b = replicate k []"
  using run_idle [of b k "[]"] by auto

lemma run_down:
  "at_state 1 t r b \<Longrightarrow> t + k \<le> 200
     \<Longrightarrow> \<exists>b'. level_run (replicate k True @ ps) b = replicate k [] @ level_run ps b' \<and> at_state 1 (t + k) r b'"
  by (rule level_run_replicate [where P = "\<lambda>i. at_state 1 (t + i) r"]) (simp_all add: step_down)

lemma run_up:
  "at_state 2 t r b \<Longrightarrow> t + k \<le> 15
     \<Longrightarrow> \<exists>b'. level_run (replicate k False @ ps) b = replicate k [] @ level_run ps b' \<and> at_state 2 (t + k) r b'"
  by (rule level_run_replicate [where P = "\<lambda>i. at_state 2 (t + i) r"]) (simp_all add: step_up)

lemma run_again:
  "at_state 3 t r b \<Longrightarrow> t + k \<le> 15
     \<Longrightarrow> \<exists>b'. level_run (replicate k True @ ps) b = replicate k [] @ level_run ps b' \<and> at_state 3 (t + k) r b'"
  by (rule level_run_replicate [where P = "\<lambda>i. at_state 3 (t + i) r"]) (simp_all add: step_again)

lemma run_held:
  "held b \<Longrightarrow> \<exists>b'. level_run (replicate k True @ ps) b = replicate k [LONG_PRESS_HOLD] @ level_run ps b' \<and> held b'"
  by (rule level_run_replicate [where P = "\<lambda>_. held"]) (simp_all add: step_held)

lemma run_press:
  assumes "idle b" and "0 < n" and "n \<le> 201"
  shows "\<exists>b'. level_run (replicate n True @ False # ps) b =
           [PRESS_DOWN] # replicate (n - 1) [] @ [PRESS_UP] # level_run ps b' \<and> at_state 2 0 1 b'"
proof -
  have n: "replicate n True = True # replicate (n - 1) True" using assms(2) by (cases n) simp_all
  have k: "0 + (n - 1) \<le> 200" using assms(3) by simp
  obtain b' where b': "at_state 1 (n - 1) 1 b'"
    "level_run (replicate (n - 1) True @ False # ps) (fst (level_step True b)) = replicate (n - 1) [] @ level_run (False # ps) b'"
    using run_down [where ps = "False # ps", OF conjunct2 [OF step_idle(2) [OF assms(1)]] k] by auto
  then show ?thesis using step_idle(2) [OF assms(1)] step_down(3) [OF b'(1)] by (auto simp: n)
qed

lemma run_long_press:
  assumes "idle b"
  shows "\<exists>b'. level_run (replicate (202 + k) True @ False # ps) b =
           [PRESS_DOWN] # replicate 200 [] @ [LONG_PRESS_START] # replicate k [LONG_PRESS_HOLD] @ [PRESS_UP] # level_run ps b'
           \<and> idle b'"
proof -
  have n: "replicate (202 + k) True = True # replicate 200 True @ True # replicate k True"
    by (simp flip: replicate_Suc replicate_add add: replicate_app_Cons_same)
  obtain b1 where b1: "at_state 1 200 1 b1"
    "level_run (replicate 200 True @ True # replicate k True @ False # ps) (fst (level_step True b)) =
       replicate 200 [] @ level_run (True # replicate k True @ False # ps) b1"
    using run_down [of 0 1 "fst (level_step True b)" 200 "True # replicate k True @ False # ps"] step_idle(2) [OF assms] by auto
  obtain b2 where "held b2"
    "level_run (replicate k True @ False # ps) (fst (level_step True b1)) = replicate k [LONG_PRESS_HOLD] @ level_run (False # ps) b2"
    using run_held step_down(2) [OF b1(1)] by blast
  then show ?thesis using b1 step_idle(2) [OF assms] step_down(2) [OF b1(1)] step_held(2) [of b2] by (auto simp: n)
qed

lemma run_released:
  assumes "at_state 2 0 r b" and "16 \<le> m"
  shows "level_run (replicate m False) b =
     replicate 15 [] @ (if r = 1 then [SINGLE_CLICK] else if r = 2 then [DOUBLE_CLICK] else []) # replicate (m - 16) []"
proof -
  have m: "replicate m False = replicate 15 False @ False # replicate (m - 16) False"
    using assms(2) by (simp flip: replicate_Suc replicate_add add: Suc_diff_le)
  obtain b' where b': "at_state 2 15 r b'"
    "level_run (replicate 15 False @ False # replicate (m - 16) False) b = replicate 15 [] @ level_run (False # replicate (m - 16) False) b'"
    using run_up [of 0 r b 15 "False # replicate (m - 16) False"] assms(1) by auto
  show ?thesis using b' step_up(2) [OF b'(1)] by (simp add: m run_idle_end)
qed

lemma button_run_events:
  "debounce_cnt b = 0
     \<Longrightarrow> map (map snd) (snd (button_run ps b)) = level_run (levels (is_button_active b) [] ps) b"
  by (rule button_run_levels) (simp add: level_ok_def)

text \<open>
  C24. For any readings whose debounced level is high for a while, then low n times and high at
  least 17 times, the handler reports exactly: the press at the first, then for n up to 201 the
  release and 16 readings later a single click, otherwise a long press at reading 202, a hold at
  every further one and the release.
\<close>

theorem button_click_events:
  assumes "cb b = Some" and "state b = 0" and "debounce_cnt b = 0"
    and "levels (is_button_active b) [] ps = replicate i False @ replicate n True @ replicate m False"
    and "0 < n" and "17 \<le> m"
  shows "map (map snd) (snd (button_run ps b)) =
     replicate i []
     @ (if n \<le> 201
        then [PRESS_DOWN] # replicate (n - 1) [] @ [PRESS_UP] # replicate 15 [] @ [SINGLE_CLICK] # replicate (m - 17) []
        else [PRESS_DOWN] # replicate 200 [] @ [LONG_PRESS_START] # replicate (n - 202) [LONG_PRESS_HOLD]
             @ [PRESS_UP] # replicate (m - 1) [])"
proof -
  obtain l where m: "m = Suc l" using assms(6) by (cases m) simp_all
  have "idle b" using assms(1,2) by (simp add: idle_def)
  then obtain b1 where b1: "idle b1"
    "level_run (replicate i False @ replicate n True @ replicate m False) b =
       replicate i [] @ level_run (replicate n True @ replicate m False) b1"
    using run_idle by blast
  show ?thesis
  proof (cases "n \<le> 201")
    case True
    obtain b2 where "at_state 2 0 1 b2" "level_run (replicate n True @ False # replicate l False) b1 =
        [PRESS_DOWN] # replicate (n - 1) [] @ [PRESS_UP] # level_run (replicate l False) b2"
      using run_press [OF b1(1) assms(5) True] by blast
    then show ?thesis using True b1 assms run_released [of 1 b2 l] by (simp add: button_run_events m)
  next
    case False
    obtain b2 where "idle b2" "level_run (replicate (202 + (n - 202)) True @ False # replicate l False) b1 =
        [PRESS_DOWN] # replicate 200 [] @ [LONG_PRESS_START] # replicate (n - 202) [LONG_PRESS_HOLD]
        @ [PRESS_UP] # level_run (replicate l False) b2"
      using run_long_press [OF b1(1)] by blast
    then show ?thesis using False b1 assms run_idle_end [of b2 l] by (simp add: button_run_events m)
  qed
qed

text \<open>Four readings down, after a spike on the line: a click, 16 readings after the release.\<close>

theorem button_click_events_witness:
  "map (map snd) (snd (button_run ([True, False] @ replicate 4 True @ replicate 20 False)
     (button_init (\<lambda>_. 1) 0 7\<lparr>cb := Some\<rparr>)))
   = replicate 4 [] @ [PRESS_DOWN] # replicate 3 [] @ [PRESS_UP] # replicate 15 [] @ [SINGLE_CLICK] # [[]]"
  using button_click_events [where b = "button_init (\<lambda>_. 1) 0 7\<lparr>cb := Some\<rparr>" and i = 4 and n = 4 and m = 18
      and ps = "[True, False] @ replicate 4 True @ replicate 20 False"]
  by (simp add: button_init_def is_button_active_def eval_nat_numeral del: button_run.simps)

lemma run_second_press:
  assumes "idle b" and "0 < n" and "n \<le> 201" and "g \<le> 15"
  shows "\<exists>b'. level_run (replicate n True @ False # replicate g False @ True # ps) b =
           [PRESS_DOWN] # replicate (n - 1) [] @ [PRESS_UP] # replicate g [] @ [PRESS_DOWN, PRESS_REPEAT]
             # level_run ps b' \<and> at_state 3 0 2 b'"
proof -
  obtain b1 where b1: "at_state 2 0 1 b1" "level_run (replicate n True @ False # replicate g False @ True # ps) b =
      [PRESS_DOWN] # replicate (n - 1) [] @ [PRESS_UP] # level_run (replicate g False @ True # ps) b1"
    using run_press [OF assms(1-3)] by blast
  obtain b2 where "at_state 2 (0 + g) 1 b2"
    "level_run (replicate g False @ True # ps) b1 = replicate g [] @ level_run (True # ps) b2"
    using run_up [where k = g and ps = "True # ps", OF b1(1)] assms(4) by auto
  then show ?thesis using b1(2) step_up(3) [of g 1 b2] by auto
qed

text \<open>A double click: the second press at most 15 readings after the release of the first, and short.\<close>

lemma button_double_click_events:
  assumes "cb b = Some" and "state b = 0" and "debounce_cnt b = 0"
    and "levels (is_button_active b) [] ps =
           replicate n True @ False # replicate g False @ True # replicate k True @ False # replicate m False"
    and "0 < n" and "n \<le> 201" and "g \<le> 15" and "k < 14" and "16 \<le> m"
  shows "map (map snd) (snd (button_run ps b)) =
     [PRESS_DOWN] # replicate (n - 1) [] @ [PRESS_UP] # replicate g [] @ [PRESS_DOWN, PRESS_REPEAT]
     # replicate k [] @ [PRESS_UP] # replicate 15 [] @ [DOUBLE_CLICK] # replicate (m - 16) []"
proof -
  have "idle b" using assms(1,2) by (simp add: idle_def)
  then obtain b1 where b1: "at_state 3 0 2 b1"
    "level_run (replicate n True @ False # replicate g False @ True # replicate k True @ False # replicate m False) b =
      [PRESS_DOWN] # replicate (n - 1) [] @ [PRESS_UP] # replicate g [] @ [PRESS_DOWN, PRESS_REPEAT]
        # level_run (replicate k True @ False # replicate m False) b1"
    using run_second_press [OF _ assms(5-7)] by blast
  obtain b2 where b2: "at_state 3 (0 + k) 2 b2"
    "level_run (replicate k True @ False # replicate m False) b1 = replicate k [] @ level_run (False # replicate m False) b2"
    using run_again [where k = k and ps = "False # replicate m False", OF b1(1)] assms(8) by auto
  then show ?thesis
    using b1(2) step_again(3) [of k 2 b2] run_released [of 2 "fst (level_step False b2)" m] assms
    by (simp add: button_run_events)
qed

text \<open>
  A second press that is held: after 17 readings the machine starts over although the button is down, and
  reports it pressed once more without having reported a release.
\<close>

lemma button_second_press_reported_twice:
  assumes "idle b" and "0 < n" and "n \<le> 201" and "g \<le> 15"
  shows "\<exists>b'. level_run (replicate n True @ False # replicate g False @ True # replicate 17 True @ ps) b =
           [PRESS_DOWN] # replicate (n - 1) [] @ [PRESS_UP] # replicate g [] @ [PRESS_DOWN, PRESS_REPEAT]
             # replicate 16 [] @ [PRESS_DOWN] # level_run ps b'"
proof -
  have r: "replicate 17 True @ ps = replicate 15 True @ True # True # ps" by (simp add: eval_nat_numeral)
  obtain b1 where b1: "at_state 3 0 2 b1"
    "level_run (replicate n True @ False # replicate g False @ True # replicate 17 True @ ps) b =
      [PRESS_DOWN] # replicate (n - 1) [] @ [PRESS_UP] # replicate g [] @ [PRESS_DOWN, PRESS_REPEAT]
        # level_run (replicate 17 True @ ps) b1"
    using run_second_press [OF assms] by blast
  obtain b2 where b2: "at_state 3 15 2 b2"
    "level_run (replicate 15 True @ True # True # ps) b1 = replicate 15 [] @ level_run (True # True # ps) b2"
    using run_again [where k = 15 and ps = "True # True # ps", OF b1(1)] by auto
  show ?thesis
    using b1(2) b2(2) step_again(2) [OF b2(1)] step_idle(2) [of "fst (level_step True b2)"]
    by (auto simp: r eval_nat_numeral)
qed

end
