(* ===== verification/Timer_Manage.thy ===== *)
theory Timer_Manage
  imports Prelude
begin

text \<open>
  The timer manager (\<^verbatim>\<open>Application/Src/timer_manage.cpp\<close> and its header, the module switched on): up to ten
  triggers, each of which calls its function every so many periods of 100 ms, a given number of times or
  forever. FreeRTOS answers whether the mutex was obtained; the functions are called on a world of their
  own, since none of them touches the list, whose mutex the manager holds.
\<close>

section \<open>A trigger\<close>

definition SYSTEM_TIME_MAX_TRIGGERS :: nat where "SYSTEM_TIME_MAX_TRIGGERS = 10"
definition SOFT_LOOP_TIMER_PERIOD :: u32 where "SOFT_LOOP_TIMER_PERIOD = 100"
definition TIME_MANAGE_CNT :: "u32 \<Rightarrow> u32" where "TIME_MANAGE_CNT T = T div SOFT_LOOP_TIMER_PERIOD"
definition TIMER_TRIGGER_FOREVER :: u16 where "TIMER_TRIGGER_FOREVER = 65535"

text \<open>The trailing underscores of the members are left out. The pointer to the value is an address; \<open>mem\<close> is the memory it is read from when the function is called.\<close>

record 'f TimeTrigger =
  triggerFunc :: "'f option"
  time_compare :: u32
  time_cmp_count :: u32
  trigger_var :: "nat option"
  used :: u8
  triggerId :: u16
  triggerCount :: u16

definition trigger0 :: "'f TimeTrigger" where
  "trigger0 = \<lparr>triggerFunc = None, time_compare = 0, time_cmp_count = 0, trigger_var = None, used = 0,
               triggerId = 0, triggerCount = 0\<rparr>"

definition isMatch :: "'f TimeTrigger \<Rightarrow> bool \<times> 'f TimeTrigger" where
  "isMatch t =
     (let t = t\<lparr>time_cmp_count := time_cmp_count t + 1\<rparr>
      in if time_cmp_count t \<ge> time_compare t then (True, t\<lparr>time_cmp_count := 0\<rparr>) else (False, t))"

definition getId :: "'f TimeTrigger \<Rightarrow> u16" where "getId t = triggerId t"
definition getCount :: "'f TimeTrigger \<Rightarrow> u16" where "getCount t = triggerCount t"

definition initalize :: "u16 \<Rightarrow> u32 \<Rightarrow> nat option \<Rightarrow> u16 \<Rightarrow> 'f option \<Rightarrow> 'f TimeTrigger \<Rightarrow> 'f TimeTrigger" where
  "initalize i time_cnt pv TriggerCount func t =
     t\<lparr>triggerId := i, time_compare := time_cnt, trigger_var := pv, triggerFunc := func,
       triggerCount := TriggerCount, time_cmp_count := 0\<rparr>"

text \<open>\<open>call f i v\<close> runs the function \<open>f\<close> for the trigger \<open>i\<close>, with the value or without one.\<close>

definition action ::
  "('f \<Rightarrow> u16 \<Rightarrow> u32 option \<Rightarrow> 'w \<Rightarrow> 'w) \<Rightarrow> (nat \<Rightarrow> u32) \<Rightarrow> 'f TimeTrigger \<times> 'w \<Rightarrow> 'f TimeTrigger \<times> 'w" where
  "action call mem = (\<lambda>(t, w).
     if triggerCount t > 0
     then (let (m, t) = isMatch t
           in if m
              then (let t = (if triggerCount t \<noteq> TIMER_TRIGGER_FOREVER then t\<lparr>triggerCount := triggerCount t - 1\<rparr> else t)
                    in case triggerFunc t of None \<Rightarrow> (t, w)
                       | Some f \<Rightarrow> (t, call f (triggerId t) (map_option mem (trigger_var t)) w))
              else (t, w))
     else (t, w))"

section \<open>The manager\<close>

record 'f SysTimeManage =
  timeCount :: u32
  triggerList :: "'f TimeTrigger list"

definition SysTimeManage0 :: "'f SysTimeManage" where
  "SysTimeManage0 = \<lparr>timeCount = 0, triggerList = replicate SYSTEM_TIME_MAX_TRIGGERS trigger0\<rparr>"

text \<open>
  \<open>handler\<close> and \<open>mutex\<close> say whether FreeRTOS could create the timer and the mutex, \<open>start\<close> is the result
  of starting the timer. The result is not initialised: \<open>xReturn\<close> is what it happens to be.
\<close>

definition SysTimeManage_init ::
  "BaseType_t \<Rightarrow> bool \<Rightarrow> bool \<Rightarrow> BaseType_t \<Rightarrow> 'f SysTimeManage \<Rightarrow> BaseType_t \<times> 'f SysTimeManage" where
  "SysTimeManage_init xReturn handler mutex start s =
     (let s = s\<lparr>triggerList := map (\<lambda>t. t\<lparr>used := 0\<rparr>) (triggerList s)\<rparr>;
          xReturn = (if \<not> handler \<or> \<not> mutex then pdFAIL else xReturn);
          xReturn = (if xReturn \<noteq> pdFAIL then start else xReturn)
      in (xReturn, s))"

definition updateTimeCount :: "'f SysTimeManage \<Rightarrow> 'f SysTimeManage" where
  "updateTimeCount s = s\<lparr>timeCount := timeCount s + 1\<rparr>"

definition getTimeCount :: "'f SysTimeManage \<Rightarrow> u32" where
  "getTimeCount s = timeCount s"

text \<open>The first statement of the loops that look for triggers to free.\<close>

definition free_trigger :: "'f TimeTrigger \<Rightarrow> 'f TimeTrigger" where
  "free_trigger t = (if used t \<noteq> 1 \<and> getCount t = 0 then t\<lparr>used := 0\<rparr> else t)"

fun process_loop ::
  "('f \<Rightarrow> u16 \<Rightarrow> u32 option \<Rightarrow> 'w \<Rightarrow> 'w) \<Rightarrow> (nat \<Rightarrow> u32) \<Rightarrow> 'f TimeTrigger list \<Rightarrow> 'w \<Rightarrow> 'f TimeTrigger list \<times> 'w" where
  "process_loop call mem [] w = ([], w)"
| "process_loop call mem (t # ts) w =
     (let t = free_trigger t;
          (t, w) = (if used t \<noteq> 0 then action call mem (t, w) else (t, w));
          (ts, w) = process_loop call mem ts w
      in (t # ts, w))"

definition processTrigger ::
  "('f \<Rightarrow> u16 \<Rightarrow> u32 option \<Rightarrow> 'w \<Rightarrow> 'w) \<Rightarrow> (nat \<Rightarrow> u32) \<Rightarrow> bool \<Rightarrow> 'f SysTimeManage \<times> 'w \<Rightarrow> 'f SysTimeManage \<times> 'w" where
  "processTrigger call mem taken = (\<lambda>(s, w).
     if taken then (let (ts, w) = process_loop call mem (triggerList s) w in (s\<lparr>triggerList := ts\<rparr>, w))
     else (s, w))"

definition prvxSoftLoopTimerCallback ::
  "('f \<Rightarrow> u16 \<Rightarrow> u32 option \<Rightarrow> 'w \<Rightarrow> 'w) \<Rightarrow> (nat \<Rightarrow> u32) \<Rightarrow> bool \<Rightarrow> 'f SysTimeManage \<times> 'w \<Rightarrow> 'f SysTimeManage \<times> 'w" where
  "prvxSoftLoopTimerCallback call mem taken = (\<lambda>(s, w). processTrigger call mem taken (updateTimeCount s, w))"

definition removeEventTrigger :: "bool \<Rightarrow> u16 \<Rightarrow> 'f SysTimeManage \<Rightarrow> 'f SysTimeManage" where
  "removeEventTrigger taken i s =
     (if taken
      then s\<lparr>triggerList := map (\<lambda>t. if used t \<noteq> 0 \<and> getId t = i then t\<lparr>used := 0\<rparr> else t) (triggerList s)\<rparr>
      else s)"

fun register_loop ::
  "('f TimeTrigger \<Rightarrow> 'f TimeTrigger) \<Rightarrow> 'f TimeTrigger list \<Rightarrow> bool \<times> 'f TimeTrigger list" where
  "register_loop set_up [] = (False, [])"
| "register_loop set_up (t # ts) =
     (let t = free_trigger t
      in if used t = 0 then (True, set_up (t\<lparr>used := 1\<rparr>) # ts)
         else (let (r, ts) = register_loop set_up ts in (r, t # ts)))"

definition registerEventTrigger ::
  "bool \<Rightarrow> u16 \<Rightarrow> u32 \<Rightarrow> 'f option \<Rightarrow> nat option \<Rightarrow> u16 \<Rightarrow> 'f SysTimeManage \<Rightarrow> GlobalType_t \<times> 'f SysTimeManage" where
  "registerEventTrigger taken i time_cnt func pv TriggerCount s =
     (if taken
      then (let (r, ts) = register_loop (initalize i time_cnt pv TriggerCount func) (triggerList s)
            in (if r then GLOBAL_OK else GLOBAL_ERROR, s\<lparr>triggerList := ts\<rparr>))
      else (GLOBAL_ERROR, s))"

section \<open>How often a trigger is called\<close>

text \<open>The history of the calls, as a world of its own.\<close>

definition note_call :: "'f \<Rightarrow> u16 \<Rightarrow> u32 option \<Rightarrow> ('f \<times> u16 \<times> u32 option) list \<Rightarrow> ('f \<times> u16 \<times> u32 option) list" where
  "note_call f i v w = w @ [(f, i, v)]"

definition called :: "'f \<Rightarrow> u16 \<Rightarrow> 'f \<times> u16 \<times> u32 option \<Rightarrow> bool" where
  "called f i = (\<lambda>(g, j, v). g = f \<and> j = i)"

lemma called_simp [simp]: "called f i (g, j, v) \<longleftrightarrow> g = f \<and> j = i"
  by (simp add: called_def)

text \<open>The specification: the number of calls in \<open>m\<close> rounds.\<close>

definition period :: "u32 \<Rightarrow> nat" where "period c = max 1 (unat c)"

definition fires :: "u16 \<Rightarrow> u32 \<Rightarrow> nat \<Rightarrow> nat" where
  "fires k c m = (if k = TIMER_TRIGGER_FOREVER then m div period c else min (unat k) (m div period c))"

text \<open>A trigger that was registered \<open>m\<close> rounds ago.\<close>

definition slot :: "'f \<Rightarrow> u16 \<Rightarrow> u32 \<Rightarrow> nat option \<Rightarrow> u16 \<Rightarrow> nat \<Rightarrow> 'f TimeTrigger \<Rightarrow> bool" where
  "slot f i c pv k m t \<longleftrightarrow>
     triggerFunc t = Some f \<and> triggerId t = i \<and> time_compare t = c \<and> trigger_var t = pv \<and> used t = 1
     \<and> (if k = TIMER_TRIGGER_FOREVER then triggerCount t = k else unat (triggerCount t) = unat k - fires k c m)
     \<and> unat (time_cmp_count t) = (if k = TIMER_TRIGGER_FOREVER \<or> fires k c m < unat k then m mod period c else 0)"

lemma period_pos [simp]: "0 < period c"
  by (simp add: period_def)

lemma unat_u32: "unat (c :: u32) < 4294967296"
  using unsigned_less [of c] by simp

lemma isMatch_period:
  assumes "unat (time_cmp_count t) = m mod period (time_compare t)"
  shows "isMatch t = (if Suc (m mod period (time_compare t)) = period (time_compare t) then (True, t\<lparr>time_cmp_count := 0\<rparr>)
                      else (False, t\<lparr>time_cmp_count := time_cmp_count t + 1\<rparr>))"
    and "Suc (m mod period (time_compare t)) \<noteq> period (time_compare t)
           \<Longrightarrow> unat (time_cmp_count t + 1) = Suc (m mod period (time_compare t))"
proof -
  let ?c = "time_compare t" and ?n = "time_cmp_count t"
  have lt: "unat ?n < period ?c" using assms by simp
  show "isMatch t = (if Suc (m mod period ?c) = period ?c then (True, t\<lparr>time_cmp_count := 0\<rparr>)
                     else (False, t\<lparr>time_cmp_count := ?n + 1\<rparr>))"
  proof (cases "?c = 0")
    case True
    then show ?thesis by (simp add: isMatch_def period_def)
  next
    case False
    then have p: "period ?c = unat ?c" by (simp add: period_def Suc_leI unat_gt_0)
    have "unat (?n + 1) = Suc (unat ?n)" using lt p unat_add_one_less [of ?n ?c] by (simp add: word_less_nat_alt)
    then have "?c \<le> ?n + 1 \<longleftrightarrow> Suc (m mod period ?c) = period ?c"
      using lt assms p by (auto simp: word_le_nat_alt)
    then show ?thesis by (auto simp: isMatch_def Let_def)
  qed
  show "unat (?n + 1) = Suc (m mod period ?c)" if "Suc (m mod period ?c) \<noteq> period ?c"
  proof -
    have "Suc (unat ?n) < period ?c" using that lt unfolding assms by linarith
    then have "Suc (unat ?n) < unat ?c" by (auto simp: period_def split: if_splits)
    then show ?thesis using assms unat_add_one_less [of ?n ?c] by (simp add: word_less_nat_alt)
  qed
qed

lemma fires_Suc:
  "fires k c (Suc m) = fires k c m
     + (if Suc (m mod period c) = period c \<and> (k = TIMER_TRIGGER_FOREVER \<or> fires k c m < unat k) then 1 else 0)"
  by (auto simp: fires_def div_Suc min_def mod_Suc)

lemma fires_le: "k \<noteq> TIMER_TRIGGER_FOREVER \<Longrightarrow> fires k c m \<le> unat k"
  by (simp add: fires_def)

lemma action_slot:
  assumes "slot f i c pv k m t"
  shows "\<exists>t'. action note_call mem (t, w) =
           (t', w @ replicate (fires k c (Suc m) - fires k c m) (f, i, map_option mem pv)) \<and> slot f i c pv k (Suc m) t'"
proof (cases "k = TIMER_TRIGGER_FOREVER \<or> fires k c m < unat k")
  case False
  then have "triggerCount t = 0" using assms by (simp add: slot_def unat_eq_zero flip: unat_0_iff)
  then show ?thesis
    using False assms fires_le [of k c m] by (auto simp: action_def fires_Suc slot_def)
next
  case True
  note m = isMatch_period [of t m]
  have t: "time_compare t = c" "unat (time_cmp_count t) = m mod period c" using assms True by (auto simp: slot_def)
  have "unat (triggerCount t) > 0"
    using assms True by (cases "k = TIMER_TRIGGER_FOREVER") (auto simp: slot_def TIMER_TRIGGER_FOREVER_def)
  then have pos: "triggerCount t > 0" by (simp add: word_less_nat_alt)
  show ?thesis
  proof (cases "Suc (m mod period c) = period c")
    case False
    then show ?thesis
      using m t pos True assms by (auto simp: action_def fires_Suc slot_def mod_Suc)
  next
    case match: True
    have "triggerCount t \<noteq> TIMER_TRIGGER_FOREVER \<Longrightarrow> unat (triggerCount t - 1) = unat (triggerCount t) - 1"
      using pos by (simp add: unat_minus_one)
    moreover have "triggerCount t \<noteq> TIMER_TRIGGER_FOREVER" if "k \<noteq> TIMER_TRIGGER_FOREVER"
    proof
      have "unat k \<noteq> 65535" using that by (simp add: TIMER_TRIGGER_FOREVER_def word_unat_eq_iff)
      moreover have "unat k < 2 ^ LENGTH(16)" by (rule unsigned_less)
      moreover assume "triggerCount t = TIMER_TRIGGER_FOREVER"
      moreover from this have "unat k - fires k c m = 65535"
        using assms that by (simp add: slot_def TIMER_TRIGGER_FOREVER_def)
      ultimately show False by simp
    qed
    ultimately show ?thesis
      using m t pos True assms match
      by (auto simp: action_def fires_Suc slot_def mod_Suc note_call_def Let_def)
  qed
qed

lemma process_loop_append:
  "process_loop call mem (ts @ us) w =
     (let (ts, w) = process_loop call mem ts w; (us, w) = process_loop call mem us w in (ts @ us, w))"
  by (induction ts arbitrary: w) (auto simp: Let_def split: prod.split)

text \<open>Triggers with other functions or numbers neither add calls of \<open>f\<close> for \<open>i\<close> nor come to have them.\<close>

definition others :: "'f \<Rightarrow> u16 \<Rightarrow> 'f TimeTrigger list \<Rightarrow> bool" where
  "others f i ts \<longleftrightarrow> (\<forall>t \<in> set ts. used t \<noteq> 0 \<longrightarrow> \<not> (triggerFunc t = Some f \<and> triggerId t = i))"

lemma others_simps [simp]:
  "others f i []" "others f i (t # ts) \<longleftrightarrow> (used t \<noteq> 0 \<longrightarrow> \<not> (triggerFunc t = Some f \<and> triggerId t = i)) \<and> others f i ts"
  "others f i (ts @ us) \<longleftrightarrow> others f i ts \<and> others f i us"
  by (auto simp: others_def)

lemma action_keeps:
  assumes "action call mem (t, w) = (t', w')"
  shows "triggerFunc t' = triggerFunc t \<and> triggerId t' = triggerId t \<and> used t' = used t"
  using assms by (auto simp: action_def isMatch_def Let_def split: if_splits option.splits)

lemma action_other:
  assumes "action note_call mem (t, w) = (t', w')" and "\<not> (triggerFunc t = Some f \<and> triggerId t = i)"
  shows "filter (called f i) w' = filter (called f i) w"
  using assms by (auto simp: action_def isMatch_def note_call_def Let_def split: if_splits option.splits)

lemma process_others:
  "others f i ts \<Longrightarrow> process_loop note_call mem ts w = (ts', w')
     \<Longrightarrow> others f i ts' \<and> filter (called f i) w' = filter (called f i) w"
proof (induction ts arbitrary: w ts' w')
  case (Cons t ts)
  obtain t1 w1 where a: "(if used (free_trigger t) \<noteq> 0 then action note_call mem (free_trigger t, w) else (free_trigger t, w)) = (t1, w1)"
    by force
  obtain us where p: "process_loop note_call mem ts w1 = (us, w')" "ts' = t1 # us"
    using Cons.prems(2) a by (auto simp: Let_def split: prod.splits)
  have f: "used (free_trigger t) \<noteq> 0 \<Longrightarrow> \<not> (triggerFunc (free_trigger t) = Some f \<and> triggerId (free_trigger t) = i)"
    using Cons.prems(1) by (auto simp: free_trigger_def split: if_splits)
  have "(used t1 \<noteq> 0 \<longrightarrow> \<not> (triggerFunc t1 = Some f \<and> triggerId t1 = i)) \<and> filter (called f i) w1 = filter (called f i) w"
    using a f action_keeps [of note_call mem "free_trigger t" w t1 w1] action_other [of mem "free_trigger t" w t1 w1 f i]
    by (auto split: if_splits)
  then show ?case using Cons.IH [OF _ p(1)] Cons.prems(1) p(2) by simp
qed simp

text \<open>The list has one trigger for \<open>f\<close>, registered \<open>m\<close> rounds ago.\<close>

definition has_slot :: "'f \<Rightarrow> u16 \<Rightarrow> u32 \<Rightarrow> nat option \<Rightarrow> u16 \<Rightarrow> nat \<Rightarrow> 'f SysTimeManage \<Rightarrow> bool" where
  "has_slot f i c pv k m s \<longleftrightarrow>
     (\<exists>ts t us. triggerList s = ts @ t # us \<and> others f i ts \<and> others f i us \<and> slot f i c pv k m t)"

lemma register_loop_slot:
  "register_loop set_up ts = (True, ts') \<Longrightarrow> others f i ts
     \<Longrightarrow> \<exists>us t vs. ts' = us @ set_up (t\<lparr>used := 1\<rparr>) # vs \<and> others f i us \<and> others f i vs"
proof (induction ts arbitrary: ts')
  case (Cons t ts)
  show ?case
  proof (cases "used (free_trigger t) = 0")
    case True
    then have "ts' = [] @ set_up ((free_trigger t)\<lparr>used := 1\<rparr>) # ts" using Cons.prems(1) by (simp add: Let_def)
    then show ?thesis using Cons.prems(2) by (metis others_simps(1,2))
  next
    case False
    then have free: "free_trigger t = t"
      by (cases "used t \<noteq> 1 \<and> getCount t = 0") (auto simp: free_trigger_def)
    obtain us where us: "register_loop set_up ts = (True, us)" "ts' = t # us"
      using Cons.prems(1) False by (auto simp: Let_def free split: prod.splits)
    obtain as t' bs where "us = as @ set_up (t'\<lparr>used := 1\<rparr>) # bs" "others f i as" "others f i bs"
      using Cons.IH [OF us(1)] Cons.prems(2) by auto
    then have "ts' = (t # as) @ set_up (t'\<lparr>used := 1\<rparr>) # bs" "others f i (t # as)" "others f i bs"
      using us(2) Cons.prems(2) by simp_all
    then show ?thesis by blast
  qed
qed simp

lemma register_has_slot:
  assumes "registerEventTrigger taken i c (Some f) pv k s = (GLOBAL_OK, s')" and "others f i (triggerList s)"
  shows "has_slot f i c pv k 0 s'"
proof -
  obtain ts where ts: "register_loop (initalize i c pv k (Some f)) (triggerList s) = (True, ts)" "s' = s\<lparr>triggerList := ts\<rparr>"
    using assms(1) by (auto simp: registerEventTrigger_def Let_def split: if_splits prod.splits)
  obtain us t vs where "ts = us @ initalize i c pv k (Some f) (t\<lparr>used := 1\<rparr>) # vs" "others f i us" "others f i vs"
    using register_loop_slot [OF ts(1) assms(2)] by blast
  moreover have "slot f i c pv k 0 (initalize i c pv k (Some f) (t\<lparr>used := 1\<rparr>))"
    by (simp add: slot_def initalize_def fires_def)
  ultimately show ?thesis unfolding has_slot_def ts(2) by auto
qed

lemma process_slot:
  assumes "has_slot f i c pv k m s"
  shows "\<exists>s' w'. processTrigger note_call mem True (s, w) = (s', w') \<and> has_slot f i c pv k (Suc m) s'
     \<and> filter (called f i) w' =
         filter (called f i) w @ replicate (fires k c (Suc m) - fires k c m) (f, i, map_option mem pv)"
proof -
  obtain ts t us where l: "triggerList s = ts @ t # us" "others f i ts" "others f i us" "slot f i c pv k m t"
    using assms by (auto simp: has_slot_def)
  obtain ts' w1 where 1: "process_loop note_call mem ts w = (ts', w1)" by force
  obtain t' where 2: "action note_call mem (t, w1) =
      (t', w1 @ replicate (fires k c (Suc m) - fires k c m) (f, i, map_option mem pv))" "slot f i c pv k (Suc m) t'"
    using action_slot [OF l(4)] by blast
  obtain us' w3 where 3: "process_loop note_call mem us
      (w1 @ replicate (fires k c (Suc m) - fires k c m) (f, i, map_option mem pv)) = (us', w3)" by force
  have u: "free_trigger t = t" "used t = 1" using l(4) by (simp_all add: slot_def free_trigger_def)
  have "processTrigger note_call mem True (s, w) = (s\<lparr>triggerList := ts' @ t' # us'\<rparr>, w3)"
    by (simp add: processTrigger_def l(1) process_loop_append 1 2 3 u)
  moreover have "has_slot f i c pv k (Suc m) (s\<lparr>triggerList := ts' @ t' # us'\<rparr>)"
    using process_others [OF l(2) 1] process_others [OF l(3) 3] 2(2) unfolding has_slot_def by auto
  ultimately show ?thesis using process_others [OF l(2) 1] process_others [OF l(3) 3] by (auto simp: filter_replicate)
qed

lemma fires_mono: "fires k c m \<le> fires k c (Suc m)" by (simp add: fires_Suc)

lemma rounds_fire:
  assumes "has_slot f i c pv k m s"
    and "filter (called f i) w = replicate (fires k c m) (f, i, map_option mem pv)"
  shows "filter (called f i) (snd (fold (processTrigger note_call mem) takes (s, w))) =
           replicate (fires k c (m + length (filter id takes))) (f, i, map_option mem pv)"
  using assms
proof (induction takes arbitrary: m s w)
  case (Cons t takes)
  show ?case
  proof (cases t)
    case True
    obtain s' w' where p: "processTrigger note_call mem True (s, w) = (s', w')" "has_slot f i c pv k (Suc m) s'"
      "filter (called f i) w' = replicate (fires k c m) (f, i, map_option mem pv)
         @ replicate (fires k c (Suc m) - fires k c m) (f, i, map_option mem pv)"
      using process_slot [OF Cons.prems(1)] Cons.prems(2) by fastforce
    have "filter (called f i) w' = replicate (fires k c (Suc m)) (f, i, map_option mem pv)"
      using p(3) fires_mono [of k c m] by (simp flip: replicate_add)
    then show ?thesis using Cons.IH [OF p(2)] True p(1) by simp
  next
    case False
    then show ?thesis using Cons.IH [OF Cons.prems] by (simp add: processTrigger_def)
  qed
qed simp

text \<open>
  C23. A trigger registered with a period and a count calls its function, with its number and value,
  exactly once every period of rounds in which the mutex was obtained and at most as often as the
  count says (forever for 65535), whatever other triggers there are.
\<close>

theorem trigger_fires_as_registered:
  assumes "registerEventTrigger taken i c (Some f) pv k s = (GLOBAL_OK, s')"
    and "\<forall>t \<in> set (triggerList s). used t \<noteq> 0 \<longrightarrow> \<not> (triggerFunc t = Some f \<and> triggerId t = i)"
  shows "filter (called f i) (snd (fold (processTrigger note_call mem) takes (s', []))) =
           replicate (fires k c (length (filter id takes))) (f, i, map_option mem pv)"
proof -
  have "others f i (triggerList s)" using assms(2) by (simp add: others_def)
  note h = register_has_slot [OF assms(1) this]
  have "fires k c 0 = 0" by (simp add: fires_def)
  then show ?thesis using rounds_fire [OF h, of "[]" mem takes] by simp
qed

text \<open>A trigger for two calls every three rounds, beside one that is called forever.\<close>

theorem trigger_fires_as_registered_witness:
  "let s = snd (registerEventTrigger True 0 1 (Some ''f'') None TIMER_TRIGGER_FOREVER SysTimeManage0);
       (r, s') = registerEventTrigger True 1 3 (Some ''f'') (Some 7) 2 s
   in r = GLOBAL_OK \<and>
      filter (called ''f'' 1) (snd (fold (processTrigger note_call (\<lambda>_. 50)) (replicate 8 True @ [False]) (s', []))) =
        [(''f'', 1, Some 50), (''f'', 1, Some 50)]"
proof -
  let ?s = "snd (registerEventTrigger True 0 1 (Some ''f'') None TIMER_TRIGGER_FOREVER SysTimeManage0)"
  obtain r s' where r: "registerEventTrigger True 1 3 (Some ''f'') (Some 7) 2 ?s = (r, s')" by fastforce
  then have ok: "r = GLOBAL_OK"
    by (auto simp: registerEventTrigger_def SysTimeManage0_def SYSTEM_TIME_MAX_TRIGGERS_def trigger0_def
        free_trigger_def getCount_def initalize_def Let_def eval_nat_numeral)
  have "\<forall>t \<in> set (triggerList ?s). used t \<noteq> 0 \<longrightarrow> \<not> (triggerFunc t = Some ''f'' \<and> triggerId t = 1)"
    by (auto simp: registerEventTrigger_def SysTimeManage0_def SYSTEM_TIME_MAX_TRIGGERS_def trigger0_def
        free_trigger_def getCount_def initalize_def Let_def eval_nat_numeral)
  note calls = trigger_fires_as_registered [OF r [unfolded ok] this, of "\<lambda>_. 50" "replicate 8 True @ [False]"]
  have n: "fires 2 3 (length (filter id (replicate 8 True @ [False]))) = 2"
    by (simp add: fires_def period_def TIMER_TRIGGER_FOREVER_def)
  have "replicate 2 x = [x, x]" for x :: "string \<times> u16 \<times> u32 option" by (simp add: numeral_2_eq_2)
  then show ?thesis unfolding Let_def r prod.case calls n by (simp add: ok)
qed

section \<open>Triggers that have run out\<close>

text \<open>
  A trigger whose count has reached zero is to be freed, but the test asks for a trigger that is not in
  use: its slot stays occupied until the trigger is removed by its number.
\<close>

lemma free_trigger_used: "used t \<in> {0, 1} \<Longrightarrow> used (free_trigger t) = used t"
  by (auto simp: free_trigger_def)

lemma process_used:
  "\<forall>t \<in> set ts. used t \<in> {0, 1} \<Longrightarrow> map used (fst (process_loop call mem ts w)) = map used ts"
proof (induction ts arbitrary: w)
  case (Cons t ts)
  obtain t1 w1 where a: "(if used (free_trigger t) \<noteq> 0 then action call mem (free_trigger t, w) else (free_trigger t, w)) = (t1, w1)"
    by force
  have "used t1 = used t"
    using a free_trigger_used [of t] action_keeps [of call mem "free_trigger t" w t1 w1] Cons.prems
    by (simp split: if_splits)
  moreover have "map used (fst (process_loop call mem ts w1)) = map used ts" using Cons.IH Cons.prems by simp
  ultimately show ?case by (simp add: a [simplified] Let_def split_beta)
qed simp

lemma processTrigger_used:
  assumes "processTrigger call mem taken (s, w) = (s', w')" and "\<forall>t \<in> set (triggerList s). used t \<in> {0, 1}"
  shows "map used (triggerList s') = map used (triggerList s)"
proof (cases taken)
  case True
  obtain ts w1 where p: "process_loop call mem (triggerList s) w = (ts, w1)" by fastforce
  then have "s' = s\<lparr>triggerList := ts\<rparr>" using assms(1) True by (simp add: processTrigger_def)
  then show ?thesis using process_used [OF assms(2), of call mem w] p by simp
next
  case False
  then show ?thesis using assms(1) by (simp add: processTrigger_def)
qed

lemma register_loop_used:
  "\<forall>t \<in> set ts. used t \<in> {0, 1} \<Longrightarrow> fst (register_loop set_up ts) \<longleftrightarrow> 0 \<in> set (map used ts)"
proof (induction ts)
  case (Cons t ts)
  then show ?case
    using free_trigger_used [of t] by (cases "register_loop set_up ts") (auto simp: Let_def)
qed simp

lemma register_used:
  "\<forall>t \<in> set (triggerList s). used t \<in> {0, 1}
     \<Longrightarrow> fst (registerEventTrigger True i c f pv k s) = (if 0 \<in> set (map used (triggerList s)) then GLOBAL_OK else GLOBAL_ERROR)"
  using register_loop_used [of "triggerList s" "initalize i c pv k f"]
  by (simp add: registerEventTrigger_def split_beta)

text \<open>
  C39. Rounds of the timer manager never free a slot: after any of them a registration succeeds
  exactly if a slot was free before, so ten triggers that have long made all their calls leave no
  room for an eleventh.
\<close>

theorem expired_triggers_keep_slots:
  assumes "\<forall>t \<in> set (triggerList s). used t \<in> {0, 1}"
  shows "fst (registerEventTrigger True i c f pv k (fst (fold (processTrigger call mem) takes (s, w)))) = GLOBAL_OK
     \<longleftrightarrow> (\<exists>t \<in> set (triggerList s). used t = 0)"
  using assms
proof (induction takes arbitrary: s w)
  case Nil
  then show ?case by (auto simp: register_used)
next
  case (Cons t takes)
  obtain s' w' where p: "processTrigger call mem t (s, w) = (s', w')" by fastforce
  from arg_cong [where f = set, OF processTrigger_used [OF p Cons.prems]]
  have m: "used ` set (triggerList s') = used ` set (triggerList s)" by simp
  have "used ` set (triggerList s) \<subseteq> {0, 1}" using Cons.prems by blast
  then have "\<forall>t \<in> set (triggerList s'). used t \<in> {0, 1}" unfolding m [symmetric] by blast
  note IH = Cons.IH [OF this, of w']
  have "(\<exists>t \<in> set (triggerList r). used t = 0) \<longleftrightarrow> 0 \<in> used ` set (triggerList r)" for r :: "'a SysTimeManage" by force
  then have "(\<exists>t \<in> set (triggerList s'). used t = 0) \<longleftrightarrow> (\<exists>t \<in> set (triggerList s). used t = 0)" by (simp only: m)
  then show ?case using IH p by simp
qed

text \<open>Ten triggers for one call each, all of them called: an eleventh is refused.\<close>

theorem expired_triggers_keep_slots_witness:
  "let t = \<lparr>triggerFunc = Some (), time_compare = 1, time_cmp_count = 0, trigger_var = None, used = 1,
            triggerId = 3, triggerCount = 1\<rparr>;
       s = \<lparr>timeCount = 0, triggerList = replicate 10 t\<rparr>
   in map triggerCount (triggerList (fst (processTrigger note_call (\<lambda>_. 0) True (s, [])))) = replicate 10 0
    \<and> fst (registerEventTrigger True 10 1 (Some ()) None 1 (fst (fold (processTrigger note_call (\<lambda>_. 0)) [True] (s, []))))
        \<noteq> GLOBAL_OK"
proof -
  let ?t = "\<lparr>triggerFunc = Some (), time_compare = 1, time_cmp_count = 0, trigger_var = None, used = 1,
             triggerId = 3, triggerCount = 1\<rparr>"
  let ?s = "\<lparr>timeCount = 0, triggerList = replicate 10 ?t\<rparr>"
  have a: "action note_call mem (?t, w) = (?t\<lparr>triggerCount := 0\<rparr>, w @ [((), 3, None)])" for mem w
    by (simp add: action_def isMatch_def note_call_def TIMER_TRIGGER_FOREVER_def)
  have "process_loop note_call mem (replicate n ?t) w =
      (replicate n (?t\<lparr>triggerCount := 0\<rparr>), w @ replicate n ((), 3, None))" for n mem w
    by (induction n arbitrary: w) (simp_all add: free_trigger_def a Let_def)
  then have "map triggerCount (triggerList (fst (processTrigger note_call (\<lambda>_. 0) True (?s, [])))) = replicate 10 0"
    by (simp add: processTrigger_def)
  moreover have "fst (registerEventTrigger True 10 1 (Some ()) None 1
      (fst (fold (processTrigger note_call (\<lambda>_. 0)) [True] (?s, [])))) \<noteq> GLOBAL_OK"
    using expired_triggers_keep_slots [of ?s 10 1 "Some ()" None 1 note_call "\<lambda>_. 0" "[True]" "[]"] by simp
  ultimately show ?thesis unfolding Let_def by blast
qed

end
