(* ===== verification/I2C_Monitor.thy ===== *)
theory I2C_Monitor
  imports I2C_Devices Timer_Manage Logger_Buffers
begin

text \<open>
  The task that owns the I2C devices (\<^verbatim>\<open>Application/Src/i2c_monitor.cpp\<close>, the module switched on): other
  tasks, the timer manager and the port expander's interrupt put events into its queue, and it serves
  them one by one with the drivers of \<open>I2C_Devices\<close>. What it prints is kept as a list of messages.
\<close>

section \<open>State\<close>

definition OUTPUT_BEEP :: u8 where "OUTPUT_BEEP = 0"
definition OUTPUT_DCMI_PWDN :: u8 where "OUTPUT_DCMI_PWDN = 2"
definition OUTPUT_USB_PWR :: u8 where "OUTPUT_USB_PWR = 3"
definition OUTPUT_RS485_SEL :: u8 where "OUTPUT_RS485_SEL = 6"
definition OUTPUT_ETH_RESET :: u8 where "OUTPUT_ETH_RESET = 7"
definition IO_OFF :: u8 where "IO_OFF = 0"
definition IO_ON :: u8 where "IO_ON = 1"

definition i2c_monitor_MAX_QUEUE :: nat where "i2c_monitor_MAX_QUEUE = 32"
definition I2C_EVENT_IO_CHIP_WRITE :: u8 where "I2C_EVENT_IO_CHIP_WRITE = 0"
definition I2C_EVENT_IO_CHIP_READ :: u8 where "I2C_EVENT_IO_CHIP_READ = 1"
definition I2C_EVENT_IO_DELAY_READ :: u8 where "I2C_EVENT_IO_DELAY_READ = 2"
definition I2C_EVENT_DEVICE_REFRESH :: u8 where "I2C_EVENT_DEVICE_REFRESH = 3"

definition I2C_IO_DELAY_READ_TIME_MS :: u32 where "I2C_IO_DELAY_READ_TIME_MS = 500"
definition I2C_DEVICE_UPDATE_TIME_MS :: u32 where "I2C_DEVICE_UPDATE_TIME_MS = 1000"
definition EVENT_I2C_IO_DELAY_TIMER_TIGGER :: u16 where "EVENT_I2C_IO_DELAY_TIMER_TIGGER = 0"
definition EVENT_I2C_DEV_UPDATE_TIMER_TIGGER :: u16 where "EVENT_I2C_DEV_UPDATE_TIMER_TIGGER = 1"
definition AP3216C_IRDATALOW :: u8 where "AP3216C_IRDATALOW = 0x0A"
definition LOG_INFO_RECORD :: u8 where "LOG_INFO_RECORD = LOG_INFO OR LOG_RECORD"

text \<open>The byte that goes with an event; \<open>None\<close> when it is left uninitialised.\<close>

record i2c_event =
  ev_id :: u8
  ev_data :: "u8 option"

record AP3216C_INFO =
  ir :: u16
  als :: u16
  ps :: u16

text \<open>The timer manager's functions: the only one is the monitor's.\<close>

datatype TimerFunction = I2cTriggerFunc

text \<open>
  The bits of the expander's port, whose unions of a byte and bit fields have the first field in bit 0;
  the pending external interrupts and the bus with its history belong to the hardware.
\<close>

record app_world =
  pcf8574_read_data :: u8
  pcf8574_write_data :: u8
  ap3216_info :: AP3216C_INFO
  queue :: "i2c_event list"
  timers :: "TimerFunction SysTimeManage"
  messages :: "(u8 \<times> string \<times> nat list) list"
  pending :: u16
  bus :: i2c_world

definition PRINT_LOG :: "u8 \<Rightarrow> string \<Rightarrow> nat list \<Rightarrow> app_world \<Rightarrow> app_world" where
  "PRINT_LOG lev fmt args w = w\<lparr>messages := messages w @ [(lev, fmt, args)]\<rparr>"

section \<open>Events\<close>

text \<open>
  A task waits for at most one tick until there is room; the queue here is the one at the end of that
  wait. The interrupt does not wait.
\<close>

definition xQueueSend :: "i2c_event \<Rightarrow> app_world \<Rightarrow> BaseType_t \<times> app_world" where
  "xQueueSend ev w =
     (if length (queue w) < i2c_monitor_MAX_QUEUE then (pdPASS, w\<lparr>queue := queue w @ [ev]\<rparr>) else (pdFAIL, w))"

text \<open>\<open>pdata\<close> is the list of the \<open>size\<close> bytes passed.\<close>

definition trigger :: "u8 \<Rightarrow> u8 list \<Rightarrow> app_world \<Rightarrow> BaseType_t \<times> app_world" where
  "trigger ev pdata w =
     xQueueSend \<lparr>ev_id = ev, ev_data = (case pdata of [] \<Rightarrow> None | d # _ \<Rightarrow> Some d)\<rparr> w"

text \<open>
  From the handler. Its interrupt has priority 0, at which FreeRTOS does not allow its functions to be
  called; the model takes the call to put the event into the queue all the same.
\<close>

definition trigger_isr :: "u8 \<Rightarrow> u8 list \<Rightarrow> app_world \<Rightarrow> BaseType_t \<times> app_world" where
  "trigger_isr ev pdata w =
     xQueueSend \<lparr>ev_id = ev, ev_data = (case pdata of [] \<Rightarrow> None | d # _ \<Rightarrow> Some d)\<rparr> w"

definition i2c_io_isr_trigger :: "app_world \<Rightarrow> app_world" where
  "i2c_io_isr_trigger w = snd (trigger_isr I2C_EVENT_IO_DELAY_READ [] w)"

text \<open>The interrupt of the expander's line, with the application's callback.\<close>

definition expander_isr :: "app_world \<Rightarrow> app_world" where
  "expander_isr w =
     (let (p, h, w') = EXTI15_10_IRQHandler i2c_io_isr_trigger (pending w, hist (bus w), w)
      in w'\<lparr>pending := p, bus := (bus w')\<lparr>hist := h\<rparr>\<rparr>)"

definition I2cTriggerFunc_call :: "u16 \<Rightarrow> app_world \<Rightarrow> app_world" where
  "I2cTriggerFunc_call timer_event w =
     (if timer_event = EVENT_I2C_IO_DELAY_TIMER_TIGGER then snd (trigger I2C_EVENT_IO_CHIP_READ [] w)
      else if timer_event = EVENT_I2C_DEV_UPDATE_TIMER_TIGGER then snd (trigger I2C_EVENT_DEVICE_REFRESH [] w)
      else w)"

text \<open>
  The timer manager's calls. Only the operator without a value is overridden; with one the base class's
  operator does nothing.
\<close>

fun timer_call :: "TimerFunction \<Rightarrow> u16 \<Rightarrow> u32 option \<Rightarrow> app_world \<Rightarrow> app_world" where
  "timer_call I2cTriggerFunc i None w = I2cTriggerFunc_call i w"
| "timer_call I2cTriggerFunc i (Some v) w = w"

definition soft_loop_timer :: "(nat \<Rightarrow> u32) \<Rightarrow> bool \<Rightarrow> app_world \<Rightarrow> app_world" where
  "soft_loop_timer mem taken w =
     (let (s, w) = prvxSoftLoopTimerCallback timer_call mem taken (timers w, w) in w\<lparr>timers := s\<rparr>)"

text \<open>One field of the union: the bit at \<open>n\<close>.\<close>

definition set_field :: "nat \<Rightarrow> u8 \<Rightarrow> u8 \<Rightarrow> u8" where
  "set_field n v d = (if v = 0 then d AND NOT (push_bit n 1) else d OR push_bit n 1)"

definition pcf8574_write_io :: "u8 \<Rightarrow> u8 \<Rightarrow> app_world \<Rightarrow> app_world" where
  "pcf8574_write_io pin status w =
     (let io_status = (if status = IO_ON then 0 else 1);
          d = pcf8574_write_data w;
          d = (if pin = OUTPUT_BEEP then set_field 0 io_status d
               else if pin = OUTPUT_DCMI_PWDN then set_field 2 io_status d
               else if pin = OUTPUT_USB_PWR then set_field 3 io_status d
               else if pin = OUTPUT_RS485_SEL then set_field 6 io_status d
               else if pin = OUTPUT_ETH_RESET then set_field 7 io_status d
               else d);
          w = w\<lparr>pcf8574_write_data := d\<rparr>
      in snd (trigger I2C_EVENT_IO_CHIP_WRITE [] w))"

definition i2c_write_io :: "u8 \<Rightarrow> u8 \<Rightarrow> app_world \<Rightarrow> app_world" where
  "i2c_write_io pin status w = pcf8574_write_io pin status w"

section \<open>Serving an event\<close>

definition removeIODelayTimeTrigger :: "app_world \<Rightarrow> app_world" where
  "removeIODelayTimeTrigger w = w\<lparr>timers := removeEventTrigger True EVENT_I2C_IO_DELAY_TIMER_TIGGER (timers w)\<rparr>"

definition registerIODelayTimeTrigger :: "app_world \<Rightarrow> app_world" where
  "registerIODelayTimeTrigger w =
     (let w = removeIODelayTimeTrigger w
      in w\<lparr>timers := snd (registerEventTrigger True EVENT_I2C_IO_DELAY_TIMER_TIGGER
                           (TIME_MANAGE_CNT I2C_IO_DELAY_READ_TIME_MS) (Some I2cTriggerFunc) None 1 (timers w))\<rparr>)"

definition removeDevUpdateTimeTrigger :: "app_world \<Rightarrow> app_world" where
  "removeDevUpdateTimeTrigger w = w\<lparr>timers := removeEventTrigger True EVENT_I2C_DEV_UPDATE_TIMER_TIGGER (timers w)\<rparr>"

definition registerDevUpdateTimeTrigger :: "app_world \<Rightarrow> app_world" where
  "registerDevUpdateTimeTrigger w =
     (let w = removeDevUpdateTimeTrigger w
      in w\<lparr>timers := snd (registerEventTrigger True EVENT_I2C_DEV_UPDATE_TIMER_TIGGER
                           (TIME_MANAGE_CNT I2C_DEVICE_UPDATE_TIME_MS) (Some I2cTriggerFunc) None
                           TIMER_TRIGGER_FOREVER (timers w))\<rparr>)"

text \<open>The loop over the six data registers from \<open>index\<close> on, \<open>n\<close> of them left; \<open>None\<close> when a transfer fails.\<close>

fun ap3216_read_loop :: "levels \<Rightarrow> nat \<Rightarrow> u8 \<Rightarrow> app_world \<Rightarrow> u8 list option \<times> app_world" where
  "ap3216_read_loop lv 0 index w = (Some [], w)"
| "ap3216_read_loop lv (Suc n) index w =
     (let (r, vs, b) = ap3216_i2c_multi_read lv (AP3216C_IRDATALOW + index) 1 (bus w);
          w = w\<lparr>bus := b\<rparr>
      in if r \<noteq> pdPASS then (None, PRINT_LOG LOG_INFO ''ap3216c i2c device read failed.'' [] w)
         else (let (buf, w) = ap3216_read_loop lv n (index + 1) w in (map_option ((@) vs) buf, w)))"

definition ap3216c_i2c_run :: "levels \<Rightarrow> app_world \<Rightarrow> app_world" where
  "ap3216c_i2c_run lv w =
     (let (buf, w) = ap3216_read_loop lv 6 0 w
      in case buf of None \<Rightarrow> w
         | Some buf \<Rightarrow>
             w\<lparr>ap3216_info :=
                \<lparr>ir = (if buf ! 0 AND push_bit 7 1 \<noteq> 0 then 0
                      else push_bit 2 (ucast (buf ! 1)) OR ucast (buf ! 0 AND 0x03)),
                 als = push_bit 8 (ucast (buf ! 3)) OR ucast (buf ! 2),
                 ps = (if buf ! 4 AND push_bit 6 1 \<noteq> 0 then 0
                      else push_bit 4 (ucast (buf ! 5 AND 0x3F)) OR ucast (buf ! 4 AND 0x0F))\<rparr>\<rparr>)"

definition serve_chip_read :: "levels \<Rightarrow> app_world \<Rightarrow> app_world" where
  "serve_chip_read lv w =
     (let (r, io_read, b) = pcf8574_i2c_read lv (bus w);
          w = w\<lparr>bus := b\<rparr>;
          w = (if r = pdPASS
               then (let w = w\<lparr>pcf8574_read_data := hd io_read\<rparr>;
                         w = PRINT_LOG LOG_INFO ''i2c read:0x%x!'' [unat (hd io_read)] w;
                         w = ap3216c_i2c_run lv w;
                         info = ap3216_info w;
                         w = PRINT_LOG LOG_INFO_RECORD ''ap3216c i2c read success, ir:%d, als:%d, ps:%d.''
                               [unat (ir info), unat (als info), unat (ps info)] w
                     in if ps info > 500 then pcf8574_write_io OUTPUT_BEEP IO_ON w
                        else pcf8574_write_io OUTPUT_BEEP IO_OFF w)
               else PRINT_LOG LOG_ERROR ''i2c read failed!'' [] w)
      in w\<lparr>pending := pending w AND NOT GPIO_PIN_12, bus := hw_emit [EnableIRQ EXTI15_10_IRQn] (bus w)\<rparr>)"

definition serve :: "levels \<Rightarrow> i2c_event \<Rightarrow> app_world \<Rightarrow> app_world" where
  "serve lv event w =
     (if ev_id event = I2C_EVENT_IO_CHIP_WRITE
      then (let (r, b) = pcf8574_i2c_write lv (pcf8574_write_data w) (bus w)
            in PRINT_LOG LOG_INFO ''i2c write:0x%x!'' [unat (pcf8574_write_data w)] (w\<lparr>bus := b\<rparr>))
      else if ev_id event = I2C_EVENT_IO_CHIP_READ then serve_chip_read lv w
      else if ev_id event = I2C_EVENT_IO_DELAY_READ
      then PRINT_LOG LOG_DEBUG ''i2c trigger delay read!'' [] (registerIODelayTimeTrigger w)
      else if ev_id event = I2C_EVENT_DEVICE_REFRESH then ap3216c_i2c_run lv w
      else w)"

text \<open>One round of the task's loop; it waits while the queue is empty.\<close>

definition i2c_monitor_run :: "levels \<Rightarrow> app_world \<Rightarrow> app_world" where
  "i2c_monitor_run lv w =
     (case queue w of [] \<Rightarrow> w | event # q \<Rightarrow> serve lv event (w\<lparr>queue := q\<rparr>))"

text \<open>\<open>task\<close> and \<open>queued\<close> say whether FreeRTOS could create the task and the queue.\<close>

definition i2c_monitor_init :: "levels \<Rightarrow> BaseType_t \<Rightarrow> bool \<Rightarrow> app_world \<Rightarrow> BaseType_t \<times> app_world" where
  "i2c_monitor_init lv task queued w =
     (if \<not> queued \<or> task \<noteq> pdPASS then (pdFAIL, w)
      else
        let (r, vs, b) = pcf8574_i2c_read lv (bus w);
            w = w\<lparr>pcf8574_read_data := (case vs of [] \<Rightarrow> pcf8574_read_data w | v # _ \<Rightarrow> v), bus := b\<rparr>
        in if r \<noteq> pdPASS then (pdFAIL, w) else (pdPASS, registerDevUpdateTimeTrigger w))"

definition app_world0 :: app_world where
  "app_world0 = \<lparr>pcf8574_read_data = 0xff, pcf8574_write_data = 0xff, ap3216_info = \<lparr>ir = 0, als = 0, ps = 0\<rparr>,
                 queue = [], timers = SysTimeManage0, messages = [], pending = 0, bus = i2c_world0\<rparr>"

section \<open>The expander\<close>

text \<open>
  The PCF8574 as its data sheet has it, on the symbols of the bus: after a start it compares eight bits
  with its write address, and if it acknowledged them it puts every further byte it acknowledges on its
  outputs, which are all high after power-on.
\<close>

datatype pcf_mode = Pcf_Off | Pcf_Address | Pcf_Selected

record pcf_chip =
  mode :: pcf_mode
  shift :: "bool list"
  outputs :: u8

definition pcf_chip0 :: pcf_chip where
  "pcf_chip0 = \<lparr>mode = Pcf_Off, shift = [], outputs = 0xff\<rparr>"

fun pcf_step :: "i2c_symbol \<Rightarrow> pcf_chip \<Rightarrow> pcf_chip" where
  "pcf_step START p = p\<lparr>mode := Pcf_Address, shift := []\<rparr>"
| "pcf_step STOP p = p\<lparr>mode := Pcf_Off, shift := []\<rparr>"
| "pcf_step (BIT b) p =
     (if mode p = Pcf_Off then p
      else if length (shift p) < 8 then p\<lparr>shift := shift p @ [b]\<rparr>
      else if b then p\<lparr>mode := Pcf_Off, shift := []\<rparr>
      else if mode p = Pcf_Selected then p\<lparr>outputs := bits_byte (shift p), shift := []\<rparr>
      else if bits_byte (shift p) = PCF8574_ADDR then p\<lparr>mode := Pcf_Selected, shift := []\<rparr>
      else p\<lparr>mode := Pcf_Off, shift := []\<rparr>)"

definition pcf_outputs :: "i2c_symbol list \<Rightarrow> u8" where
  "pcf_outputs ss = outputs (fold pcf_step ss pcf_chip0)"

lemma pcf_bits:
  "mode p \<noteq> Pcf_Off \<Longrightarrow> length (shift p) + length bs \<le> 8
     \<Longrightarrow> fold pcf_step (map BIT bs) p = p\<lparr>shift := shift p @ bs\<rparr>"
  by (induction bs arbitrary: p) simp_all

lemma pcf_off: "mode p = Pcf_Off \<Longrightarrow> fold pcf_step (map BIT bs) p = p"
  by (induction bs) simp_all

text \<open>What the transfers of the drivers do to it.\<close>

lemma acked_bits: "\<exists>bs. acked vs = map BIT bs"
  by (induction vs) (auto intro: exI [of _ "byte_bits v @ False # bs" for v bs])

lemma answered_bits: "\<exists>bs. answered k n vs = map BIT bs"
proof -
  have "answered k n vs = map BIT (concat (map (\<lambda>(i, v). byte_bits v @ [Suc i = k + n]) (enumerate k vs)))"
    by (simp add: answered_def map_concat comp_def split_def)
  then show ?thesis by blast
qed

lemma pcf_write_frame:
  "fold pcf_step ([START] @ acked [PCF8574_ADDR, d] @ [STOP]) p = p\<lparr>mode := Pcf_Off, shift := [], outputs := d\<rparr>"
  by (cases p) (simp add: pcf_bits)

lemma pcf_other_frame:
  assumes "a \<noteq> PCF8574_ADDR"
  shows "fold pcf_step ([START] @ acked (a # vs)) p = p\<lparr>mode := Pcf_Off, shift := []\<rparr>"
    and "fold pcf_step ([START] @ acked [a] @ answered k n vs @ [STOP]) p = p\<lparr>mode := Pcf_Off, shift := []\<rparr>"
proof -
  obtain bs cs where "acked vs = map BIT bs" "answered k n vs = map BIT cs" using acked_bits answered_bits by metis
  then show "fold pcf_step ([START] @ acked (a # vs)) p = p\<lparr>mode := Pcf_Off, shift := []\<rparr>"
    and "fold pcf_step ([START] @ acked [a] @ answered k n vs @ [STOP]) p = p\<lparr>mode := Pcf_Off, shift := []\<rparr>"
    using assms by (simp_all add: pcf_bits pcf_off)
qed

lemma pcf_outputs_append:
  "pcf_outputs (ss @ ts) = outputs (fold pcf_step ts (fold pcf_step ss pcf_chip0))"
  by (simp add: pcf_outputs_def)

text \<open>The bus is set up, and what the devices on it acknowledge every byte.\<close>

definition bus_ok :: "levels \<Rightarrow> i2c_world \<Rightarrow> bool" where
  "bus_ok lv b \<longleftrightarrow> on_bus b \<and> bus_inv b \<and> acknowledges lv board_i2c_info"

lemma bus_ok_write:
  assumes "bus_ok lv b" and "pcf8574_i2c_write lv d b = (r, b')"
  shows "r = pdPASS \<and> bus_ok lv b' \<and> pcf_outputs (bus_syms b') = d"
proof -
  have on: "on_bus b" "bus_inv b" "acknowledges lv board_i2c_info" using assms(1) by (auto simp: bus_ok_def)
  note ok = pcf_write_bus [OF on(1,2) assms(2)]
  obtain res b1 where t: "i2c_write_device lv SOFT_I2C2 PCF8574_ADDR [d] b = (res, b1)" by fastforce
  have b': "b' = b1" using assms(2) t by (auto simp: pcf8574_i2c_write_def split: if_splits)
  have res: "res = I2C_OK" using ok assms(2) t on(3) by (auto simp: pcf8574_i2c_write_def I2C_OK_def split: if_splits)
  have "PCF8574_ADDR AND 0xfe = PCF8574_ADDR" by (simp add: PCF8574_ADDR_def)
  then have "bus_syms b' = bus_syms b @ [START] @ acked [PCF8574_ADDR, d] @ [STOP]"
    using write_device_frame [OF refl conjunct1 [OF on_bus_ready [OF on(1)]] t] on_bus_ready [OF on(1)] res b'
    by (simp add: I2C_OK_def I2C_ERROR_def)
  then show ?thesis
    using ok on pcf_outputs_append [of "bus_syms b" "[START] @ acked [PCF8574_ADDR, d] @ [STOP]"]
    by (simp add: bus_ok_def pcf_write_frame [simplified])
qed

lemma pcf_read_frame:
  "fold pcf_step ([START] @ acked [PCF8574_ADDR OR 1] @ answered k n vs @ [STOP]) p = p\<lparr>mode := Pcf_Off, shift := []\<rparr>"
  by (rule pcf_other_frame) (simp add: PCF8574_ADDR_def)

lemma bus_ok_read:
  assumes "bus_ok lv b" and "pcf8574_i2c_read lv b = (r, vs, b')"
  shows "r = pdPASS \<and> bus_ok lv b' \<and> pcf_outputs (bus_syms b') = pcf_outputs (bus_syms b)"
proof -
  have on: "on_bus b" "bus_inv b" "acknowledges lv board_i2c_info" using assms(1) by (auto simp: bus_ok_def)
  note ok = pcf_read_bus [OF on(1,2) assms(2)]
  obtain res ws b1 where t: "i2c_read_device lv SOFT_I2C2 PCF8574_ADDR 1 b = (res, ws, b1)"
    by (cases "i2c_read_device lv SOFT_I2C2 PCF8574_ADDR 1 b") auto
  have b': "b' = b1" "vs = ws" using assms(2) t by (auto simp: pcf8574_i2c_read_def split: if_splits)
  have res: "res = I2C_OK" using ok assms(2) t on(3) by (auto simp: pcf8574_i2c_read_def I2C_OK_def split: if_splits)
  have "bus_syms b' = bus_syms b @ [START] @ acked [PCF8574_ADDR OR 1] @ answered 0 1 ws @ [STOP]"
    using read_device_frame [OF refl conjunct1 [OF on_bus_ready [OF on(1)]] t] on_bus_ready [OF on(1)] res b'
    by (simp add: I2C_OK_def I2C_ERROR_def)
  then show ?thesis
    using ok on pcf_outputs_append [of "bus_syms b" "[START] @ acked [PCF8574_ADDR OR 1] @ answered 0 1 ws @ [STOP]"]
    by (simp add: bus_ok_def pcf_read_frame [simplified]) (simp add: pcf_outputs_def)
qed

text \<open>The six data registers of the sensor, one frame for each.\<close>

definition ap3216_read_frame :: "u8 \<Rightarrow> u8 \<Rightarrow> i2c_symbol list" where
  "ap3216_read_frame reg v = [START] @ acked [0x3c, reg] @ [START] @ acked [0x3d] @ answered 0 1 [v] @ [STOP]"

lemma pcf_ap_frame: "pcf_outputs (ss @ ap3216_read_frame reg v) = pcf_outputs ss"
  using pcf_other_frame(1) [of "0x3c" "[reg]"] pcf_other_frame(2) [of "0x3d" 0 1 "[v]"]
  by (simp add: ap3216_read_frame_def pcf_outputs_def PCF8574_ADDR_def)

lemma bus_ok_ap:
  assumes "bus_ok lv b" and "ap3216_i2c_multi_read lv reg 1 b = (r, vs, b')"
  shows "\<exists>v. vs = [v] \<and> r = pdPASS \<and> bus_ok lv b' \<and> bus_syms b' = bus_syms b @ ap3216_read_frame reg v"
proof -
  have on: "on_bus b" "bus_inv b" "acknowledges lv board_i2c_info" using assms(1) by (auto simp: bus_ok_def)
  have a: "push_bit 1 AP3216C_ADDR AND 0xfe = 0x3c" "push_bit 1 AP3216C_ADDR OR 1 = 0x3d"
    by (simp_all add: AP3216C_ADDR_def)
  have "r = pdPASS" using ap3216.read_ok [OF on(1,3) assms(2)] .
  with ap3216.read_frame [OF on(1) assms(2), unfolded a] show ?thesis
    using on by (cases vs) (auto simp: bus_ok_def ap3216_read_frame_def)
qed

lemma ap3216_read_loop_ok:
  "bus_ok lv (bus w) \<Longrightarrow> \<exists>vs b. length vs = n \<and> bus_ok lv b
     \<and> ap3216_read_loop lv n i w = (Some vs, w\<lparr>bus := b\<rparr>)
     \<and> bus_syms b = bus_syms (bus w) @ concat (map (\<lambda>j. ap3216_read_frame (AP3216C_IRDATALOW + i + of_nat j) (vs ! j)) [0..<n])"
proof (induction n arbitrary: i w)
  case 0
  then show ?case by (cases w) auto
next
  case (Suc n)
  obtain r vs1 b where 1: "ap3216_i2c_multi_read lv (AP3216C_IRDATALOW + i) 1 (bus w) = (r, vs1, b)"
    by (cases "ap3216_i2c_multi_read lv (AP3216C_IRDATALOW + i) 1 (bus w)") auto
  obtain v where v: "vs1 = [v]" "r = pdPASS" "bus_ok lv b" "bus_syms b = bus_syms (bus w) @ ap3216_read_frame (AP3216C_IRDATALOW + i) v"
    using bus_ok_ap [OF Suc.prems 1] by blast
  obtain vs b' where 2: "length vs = n" "bus_ok lv b'" "ap3216_read_loop lv n (i + 1) (w\<lparr>bus := b\<rparr>) = (Some vs, w\<lparr>bus := b'\<rparr>)"
    "bus_syms b' = bus_syms b @ concat (map (\<lambda>j. ap3216_read_frame (AP3216C_IRDATALOW + (i + 1) + of_nat j) (vs ! j)) [0..<n])"
    using Suc.IH [of "w\<lparr>bus := b\<rparr>" "i + 1"] v(3) by auto
  have m: "map (\<lambda>j. ap3216_read_frame (AP3216C_IRDATALOW + i + of_nat j) ((v # vs) ! j)) [0..<Suc n]
      = ap3216_read_frame (AP3216C_IRDATALOW + i) v
          # map (\<lambda>j. ap3216_read_frame (AP3216C_IRDATALOW + (i + 1) + of_nat j) (vs ! j)) [0..<n]"
    by (subst upt_conv_Cons; simp add: map_Suc_upt [symmetric] comp_def ac_simps del: upt_Suc)
  have "length (v # vs) = Suc n \<and> ap3216_read_loop lv (Suc n) i w = (Some (v # vs), w\<lparr>bus := b'\<rparr>)
     \<and> bus_syms b' = bus_syms (bus w)
         @ concat (map (\<lambda>j. ap3216_read_frame (AP3216C_IRDATALOW + i + of_nat j) ((v # vs) ! j)) [0..<Suc n])"
    unfolding m using 1 2 v by simp
  then show ?case using 2(2) by blast
qed

text \<open>
  The measurements in the six registers, as the sensor's data sheet has them: ten bits of infrared
  light, zero if the overflow bit is set; sixteen bits of ambient light; ten bits of proximity, zero if
  infrared light disturbs it.
\<close>

definition ap3216_decode :: "u8 list \<Rightarrow> nat \<times> nat \<times> nat" where
  "ap3216_decode bs =
     (if bit (bs ! 0) 7 then 0 else 4 * unat (bs ! 1) + unat (bs ! 0) mod 4,
      256 * unat (bs ! 3) + unat (bs ! 2),
      if bit (bs ! 4) 6 then 0 else 16 * (unat (bs ! 5) mod 64) + unat (bs ! 4) mod 16)"

lemma join_bits:
  fixes a b :: u8
  assumes "n \<le> 8" and "unat b < 2 ^ n"
  shows "unat (push_bit n (ucast a) OR ucast b :: u16) = 2 ^ n * unat a + unat b"
proof -
  have a: "unat a < 2 ^ 8" using unsigned_less [of a] by simp
  have "unat a * 2 ^ n \<le> unat a * 2 ^ 8" using assms(1) by (intro mult_le_mono power_increasing) auto
  then have "unat a * 2 ^ n < 2 ^ 16" by (rule le_less_trans) (use a in simp)
  then have "unat (push_bit n (ucast a :: u16)) = push_bit n (unat a)"
    by (simp add: unsigned_push_bit_eq unat_ucast_up take_bit_nat_eq_self push_bit_eq_mult [where 'a = nat])
  moreover have "push_bit n (unat a) AND unat b = 0"
  proof (rule bit_eqI)
    fix i
    have "take_bit n (unat b) = unat b" using assms(2) by (rule take_bit_nat_eq_self)
    then have "bit (unat b) i \<longleftrightarrow> i < n \<and> bit (unat b) i" using bit_take_bit_iff [of n "unat b" i] by simp
    then show "bit (push_bit n (unat a) AND unat b) i = bit (0 :: nat) i" by (auto simp: bit_simps)
  qed
  ultimately show ?thesis
    by (simp add: unsigned_or_eq unat_ucast_up disjunctive_add_eq_or [symmetric]) (simp add: push_bit_eq_mult)
qed

lemma low_bits:
  "unat (b AND 0x03 :: u8) = unat b mod 4" "unat (b AND 0x3F :: u8) = unat b mod 64" "unat (b AND 0x0F :: u8) = unat b mod 16"
proof -
  have m: "(0x03 :: u8) = mask 2" "(0x3F :: u8) = mask 6" "(0x0F :: u8) = mask 4" by (simp_all add: mask_eq_exp_minus_1)
  show "unat (b AND 0x03 :: u8) = unat b mod 4" "unat (b AND 0x3F :: u8) = unat b mod 64" "unat (b AND 0x0F :: u8) = unat b mod 16"
    unfolding m take_bit_eq_mask [symmetric] by (simp_all add: unsigned_take_bit_eq) (simp_all add: take_bit_eq_mod)
qed

abbreviation ap3216_values :: "app_world \<Rightarrow> nat \<times> nat \<times> nat" where
  "ap3216_values w \<equiv> (unat (ir (ap3216_info w)), unat (als (ap3216_info w)), unat (ps (ap3216_info w)))"

lemma ap3216_run_ok:
  assumes "bus_ok lv (bus w)"
  shows "\<exists>vs b i. length vs = 6 \<and> bus_ok lv b \<and> ap3216c_i2c_run lv w = w\<lparr>bus := b, ap3216_info := i\<rparr>
     \<and> (unat (ir i), unat (als i), unat (ps i)) = ap3216_decode vs
     \<and> bus_syms b = bus_syms (bus w) @ concat (map (\<lambda>j. ap3216_read_frame (AP3216C_IRDATALOW + of_nat j) (vs ! j)) [0..<6])"
proof -
  obtain vs b where vs: "length vs = 6" "bus_ok lv b" "ap3216_read_loop lv 6 0 w = (Some vs, w\<lparr>bus := b\<rparr>)"
    "bus_syms b = bus_syms (bus w) @ concat (map (\<lambda>j. ap3216_read_frame (AP3216C_IRDATALOW + of_nat j) (vs ! j)) [0..<6])"
    using ap3216_read_loop_ok [OF assms, of 6 0] by auto
  let ?i = "ap3216_info (ap3216c_i2c_run lv w)"
  have "unat (vs ! 0 AND 0x03) < 2 ^ 2" "unat (vs ! 4 AND 0x0F) < 2 ^ 4" by (simp_all add: low_bits)
  moreover have "unat (vs ! 2) < 2 ^ 8" using unsigned_less [of "vs ! 2"] by simp
  ultimately have "(unat (ir ?i), unat (als ?i), unat (ps ?i)) = ap3216_decode vs"
    using join_bits [of 2 "vs ! 0 AND 0x03" "vs ! 1"] join_bits [of 8 "vs ! 2" "vs ! 3"]
      join_bits [of 4 "vs ! 4 AND 0x0F" "vs ! 5 AND 0x3F"]
    by (simp add: ap3216c_i2c_run_def vs(3) ap3216_decode_def low_bits bit_iff_and_push_bit_not_eq_0)
  moreover have "ap3216c_i2c_run lv w = w\<lparr>bus := b, ap3216_info := ?i\<rparr>"
    by (simp add: ap3216c_i2c_run_def vs(3))
  ultimately show ?thesis using vs by blast
qed

text \<open>
  C25. When the devices acknowledge, ap3216c_i2c_run puts exactly the six one-byte reads of the
  sensor's data registers on the bus, and stores the infrared, ambient light and proximity values
  that the bytes answered on the wire encode.
\<close>

theorem ap3216_values_are_on_wire:
  assumes "on_bus (bus w)" and "bus_inv (bus w)" and "acknowledges lv board_i2c_info" and "w' = ap3216c_i2c_run lv w"
  shows "\<exists>vs. length vs = 6 \<and> ap3216_values w' = ap3216_decode vs
     \<and> bus_syms (bus w') = bus_syms (bus w)
          @ concat (map (\<lambda>j. ap3216_read_frame (AP3216C_IRDATALOW + of_nat j) (vs ! j)) [0..<6])"
  using ap3216_run_ok [of lv w] assms by (auto simp: bus_ok_def)

theorem ap3216_values_are_on_wire_witness:
  "let w = app_world0\<lparr>bus := snd (pcf8574_driver_init i2c_world0)\<rparr>
   in \<exists>vs. length vs = 6 \<and> ap3216_values (ap3216c_i2c_run (ack_device board_i2c_info) w) = ap3216_decode vs"
proof -
  let ?w = "app_world0\<lparr>bus := snd (pcf8574_driver_init i2c_world0)\<rparr>"
  have b: "on_bus (bus ?w)" "bus_inv (bus ?w)" using pcf8574_init_bus [OF bus_inv0 surjective_pairing] by simp_all
  show ?thesis using ap3216_values_are_on_wire [OF b ack_device_acknowledges refl] unfolding Let_def by blast
qed

section \<open>The outputs follow the requests\<close>

text \<open>
  What happens around the queue: a task asks for an output, the line of the expander falls and its
  interrupt runs, the timer manager's callback runs, a round of the monitor's task.
\<close>

datatype app_op = Write_IO u8 u8 | Interrupt | Timer "nat \<Rightarrow> u32" bool | Round

fun app_step :: "levels \<Rightarrow> app_op \<Rightarrow> app_world \<Rightarrow> app_world" where
  "app_step lv (Write_IO pin status) w = pcf8574_write_io pin status w"
| "app_step lv Interrupt w = expander_isr (w\<lparr>pending := pending w OR GPIO_PIN_12\<rparr>)"
| "app_step lv (Timer mem taken) w = soft_loop_timer mem taken w"
| "app_step lv Round w = i2c_monitor_run lv w"

definition write_event :: i2c_event where
  "write_event = \<lparr>ev_id = I2C_EVENT_IO_CHIP_WRITE, ev_data = None\<rparr>"

text \<open>
  The invariant. A write that is requested while 32 other events wait is refused, which the code does
  not notice; \<open>heard\<close> says that this does not happen, or does not matter since a write waits already.
\<close>

definition app_inv :: "levels \<Rightarrow> app_world \<Rightarrow> bool" where
  "app_inv lv w \<longleftrightarrow> bus_ok lv (bus w) \<and> length (queue w) \<le> i2c_monitor_MAX_QUEUE
     \<and> (write_event \<in> set (queue w) \<or> pcf_outputs (bus_syms (bus w)) = pcf8574_write_data w)"

fun heard :: "app_op \<Rightarrow> app_world \<Rightarrow> bool" where
  "heard (Write_IO pin status) w \<longleftrightarrow> length (queue w) < i2c_monitor_MAX_QUEUE \<or> write_event \<in> set (queue w)"
| "heard _ w \<longleftrightarrow> True"

lemma emit_ok [simp]:
  "list_all off_bus es \<Longrightarrow> bus_ok lv (hw_emit es b) = bus_ok lv b"
  by (simp add: bus_ok_def)

lemma send_inv:
  "app_inv lv w \<Longrightarrow> app_inv lv (snd (xQueueSend ev w))"
  by (auto simp: app_inv_def xQueueSend_def i2c_monitor_MAX_QUEUE_def)

lemma PRINT_LOG_inv [simp]: "app_inv lv (PRINT_LOG lev fmt args w) = app_inv lv w"
  by (simp add: app_inv_def PRINT_LOG_def)

lemma app_inv_fields [simp]:
  "app_inv lv (w\<lparr>timers := t\<rparr>) = app_inv lv w" "app_inv lv (w\<lparr>pending := p\<rparr>) = app_inv lv w"
  "app_inv lv (w\<lparr>pcf8574_read_data := d\<rparr>) = app_inv lv w" "app_inv lv (w\<lparr>ap3216_info := i\<rparr>) = app_inv lv w"
  by (simp_all add: app_inv_def)

lemma write_io_inv:
  assumes "bus_ok lv (bus w)" and "length (queue w) \<le> i2c_monitor_MAX_QUEUE"
    and "heard (Write_IO pin status) w"
  shows "app_inv lv (pcf8574_write_io pin status w)"
  using assms by (auto simp: app_inv_def pcf8574_write_io_def trigger_def xQueueSend_def write_event_def Let_def)

lemma pcf_ap_frames:
  "pcf_outputs (ss @ concat (map (\<lambda>j. ap3216_read_frame (r j) (v j)) js)) = pcf_outputs ss"
  by (induction js arbitrary: ss) (simp_all add: pcf_ap_frame flip: append_assoc)

lemma ap3216_run_inv: "app_inv lv w \<Longrightarrow> app_inv lv (ap3216c_i2c_run lv w)"
proof -
  assume w: "app_inv lv w"
  obtain vs b i where "bus_ok lv b" "ap3216c_i2c_run lv w = w\<lparr>bus := b, ap3216_info := i\<rparr>"
    "bus_syms b = bus_syms (bus w) @ concat (map (\<lambda>j. ap3216_read_frame (AP3216C_IRDATALOW + of_nat j) (vs ! j)) [0..<6])"
    using ap3216_run_ok [of lv w] w by (auto simp: app_inv_def)
  then show ?thesis using w by (simp add: app_inv_def pcf_ap_frames)
qed

lemma ap3216_run_queue [simp]: "queue (ap3216c_i2c_run lv w) = queue w"
proof -
  have q: "queue (snd (ap3216_read_loop lv n i w)) = queue w" for n i
    by (induction n arbitrary: i w) (simp_all add: PRINT_LOG_def Let_def split_beta)
  show ?thesis using q [of 6 0] by (simp add: ap3216c_i2c_run_def split_beta split: option.split)
qed

lemma timer_call_inv: "app_inv lv w \<Longrightarrow> app_inv lv (timer_call f i v w)"
  by (cases f; cases v) (simp_all add: I2cTriggerFunc_call_def trigger_def send_inv)

lemma process_loop_inv:
  "app_inv lv w \<Longrightarrow> app_inv lv (snd (process_loop timer_call mem ts w))"
proof (induction ts arbitrary: w)
  case (Cons t ts)
  have "app_inv lv (snd (action timer_call mem (t', w)))" for t'
    using Cons.prems by (simp add: action_def Let_def split_beta timer_call_inv split: option.split)
  then show ?case
    using Cons by (simp add: Let_def split_beta)
qed simp

lemma soft_loop_timer_inv: "app_inv lv w \<Longrightarrow> app_inv lv (soft_loop_timer mem taken w)"
  using process_loop_inv [of lv w mem "triggerList (timers w)"]
  by (simp add: soft_loop_timer_def prvxSoftLoopTimerCallback_def processTrigger_def updateTimeCount_def split_beta Let_def)

lemma expander_isr_inv: "app_inv lv w \<Longrightarrow> app_inv lv (expander_isr w)"
proof -
  assume w: "app_inv lv w"
  define w1 where "w1 = snd (trigger_isr I2C_EVENT_IO_DELAY_READ [] w)"
  have 1: "app_inv lv w1" "bus w1 = bus w"
    using w send_inv [of lv w] by (simp_all add: w1_def trigger_isr_def) (simp add: xQueueSend_def)
  have "expander_isr w = (if pending w AND GPIO_PIN_12 \<noteq> 0
      then w1\<lparr>pending := pending w AND NOT GPIO_PIN_12, bus := hw_emit [DisableIRQ EXTI15_10_IRQn] (bus w)\<rparr> else w)"
    by (simp add: expander_isr_def EXTI15_10_IRQHandler_def i2c_io_isr_trigger_def w1_def hw_emit_def xQueueSend_def
        trigger_isr_def)
  moreover have "bus_syms (hw_emit [DisableIRQ EXTI15_10_IRQn] b) = bus_syms b"
    "bus_ok lv (hw_emit [DisableIRQ EXTI15_10_IRQn] b) = bus_ok lv b" for b
    by (simp_all add: off_bus_def)
  ultimately show ?thesis using w 1 by (simp add: app_inv_def)
qed

lemma serve_chip_read_inv:
  assumes "app_inv lv w" and "length (queue w) < i2c_monitor_MAX_QUEUE"
  shows "app_inv lv (serve_chip_read lv w)"
proof -
  obtain r vs b where r: "pcf8574_i2c_read lv (bus w) = (r, vs, b)" by (cases "pcf8574_i2c_read lv (bus w)") auto
  have ok: "r = pdPASS" "bus_ok lv b" "pcf_outputs (bus_syms b) = pcf_outputs (bus_syms (bus w))"
    using bus_ok_read [OF _ r] assms(1) by (auto simp: app_inv_def)
  define w1 where "w1 = ap3216c_i2c_run lv (PRINT_LOG LOG_INFO ''i2c read:0x%x!'' [unat (hd vs)]
      (w\<lparr>bus := b, pcf8574_read_data := hd vs\<rparr>))"
  have "app_inv lv (w\<lparr>bus := b, pcf8574_read_data := hd vs\<rparr>)" using assms(1) ok by (simp add: app_inv_def)
  then have w1: "app_inv lv w1" "queue w1 = queue w" by (simp_all add: w1_def ap3216_run_inv) (simp add: PRINT_LOG_def)
  then have "app_inv lv (pcf8574_write_io OUTPUT_BEEP st (PRINT_LOG lev fmt args w1))" for st lev fmt args
    using assms(2) by (intro write_io_inv) (simp_all add: app_inv_def PRINT_LOG_def)
  moreover have "app_inv lv (w\<lparr>pending := p, bus := hw_emit [EnableIRQ EXTI15_10_IRQn] (bus w)\<rparr>) = app_inv lv w" for w p
    by (simp add: app_inv_def off_bus_def)
  ultimately show ?thesis by (simp add: serve_chip_read_def r ok(1) Let_def flip: w1_def)
qed

lemma round_inv: "app_inv lv w \<Longrightarrow> app_inv lv (i2c_monitor_run lv w)"
proof (cases "queue w")
  case (Cons ev q)
  assume w: "app_inv lv w"
  define w1 where "w1 = w\<lparr>queue := q\<rparr>"
  have len: "length (queue w1) < i2c_monitor_MAX_QUEUE" using w Cons by (simp add: app_inv_def w1_def)
  obtain r b where r: "pcf8574_i2c_write lv (pcf8574_write_data w1) (bus w1) = (r, b)" by force
  have "bus_ok lv (bus w1)" using w by (simp add: app_inv_def w1_def)
  note wr = bus_ok_write [OF this r]
  have "ev_id ev \<noteq> I2C_EVENT_IO_CHIP_WRITE \<Longrightarrow> app_inv lv w1"
    using w Cons by (auto simp: app_inv_def w1_def write_event_def)
  moreover have "app_inv lv (w1\<lparr>bus := b\<rparr>)" using wr len by (simp add: app_inv_def)
  ultimately have "app_inv lv (serve lv ev w1)"
    using len r by (simp add: serve_def serve_chip_read_inv ap3216_run_inv registerIODelayTimeTrigger_def
        removeIODelayTimeTrigger_def)
  then show ?thesis by (simp add: i2c_monitor_run_def Cons w1_def)
qed (simp add: i2c_monitor_run_def)

lemma app_step_inv: "app_inv lv w \<Longrightarrow> heard op w \<Longrightarrow> app_inv lv (app_step lv op w)"
  by (cases op) (auto simp: write_io_inv round_inv expander_isr_inv soft_loop_timer_inv app_inv_def [of _ w])

text \<open>A sequence of these in which no request is refused.\<close>

fun all_heard :: "levels \<Rightarrow> app_op list \<Rightarrow> app_world \<Rightarrow> bool" where
  "all_heard lv [] w \<longleftrightarrow> True"
| "all_heard lv (op # ops) w \<longleftrightarrow> heard op w \<and> all_heard lv ops (app_step lv op w)"

abbreviation app_run :: "levels \<Rightarrow> app_op list \<Rightarrow> app_world \<Rightarrow> app_world" where
  "app_run lv ops w \<equiv> fold (app_step lv) ops w"

lemma app_run_inv: "app_inv lv w \<Longrightarrow> all_heard lv ops w \<Longrightarrow> app_inv lv (app_run lv ops w)"
  by (induction ops arbitrary: w) (auto simp: app_step_inv)

text \<open>Serving a read of the expander asks for one write; nothing else the task does adds an event.\<close>

definition work :: "app_world \<Rightarrow> nat" where
  "work w = (\<Sum>ev \<leftarrow> queue w. if ev_id ev = I2C_EVENT_IO_CHIP_READ then 2 else 1)"

lemma write_io_queue:
  "queue (pcf8574_write_io pin st w) =
     (if length (queue w) < i2c_monitor_MAX_QUEUE then queue w @ [write_event] else queue w)"
  by (simp add: pcf8574_write_io_def trigger_def xQueueSend_def write_event_def Let_def)

lemma serve_queue:
  "queue (serve lv ev w) = queue w
     \<or> ev_id ev = I2C_EVENT_IO_CHIP_READ \<and> queue (serve lv ev w) = queue w @ [write_event]"
  by (auto simp: serve_def serve_chip_read_def PRINT_LOG_def registerIODelayTimeTrigger_def removeIODelayTimeTrigger_def
      write_io_queue Let_def split_beta)

lemma work_round: "queue w \<noteq> [] \<Longrightarrow> work (i2c_monitor_run lv w) < work w"
proof (cases "queue w")
  case (Cons ev q)
  then show ?thesis
    using serve_queue [of lv ev "w\<lparr>queue := q\<rparr>"]
    by (auto simp: i2c_monitor_run_def work_def write_event_def I2C_EVENT_IO_CHIP_READ_def I2C_EVENT_IO_CHIP_WRITE_def)
qed simp

lemma rounds_serve_all: "work w \<le> n \<Longrightarrow> queue (app_run lv (replicate n Round) w) = []"
proof (induction n arbitrary: w)
  case 0
  then show ?case by (cases "queue w") (auto simp: work_def split: if_splits)
next
  case (Suc n)
  show ?case
  proof (cases "queue w = []")
    case True
    then show ?thesis using Suc.IH [of w] by (simp add: i2c_monitor_run_def work_def)
  next
    case False
    from work_round [OF this, of lv] show ?thesis using Suc by simp
  qed
qed

lemma rounds_heard: "all_heard lv (replicate n Round) w"
  by (induction n arbitrary: w) simp_all

text \<open>
  What is asked of the outputs: the other tasks ask for a level of a pin, and the I2C task itself for the
  beeper whenever it has read the expander, on if the proximity just measured is above 500.
\<close>

definition asked :: "levels \<Rightarrow> app_op \<Rightarrow> app_world \<Rightarrow> (u8 \<times> u8) list" where
  "asked lv op w =
     (case op of
        Write_IO pin st \<Rightarrow> [(pin, st)]
      | Round \<Rightarrow>
          if queue w \<noteq> [] \<and> ev_id (hd (queue w)) = I2C_EVENT_IO_CHIP_READ
          then [(OUTPUT_BEEP, if ps (ap3216_info (app_step lv Round w)) > 500 then IO_ON else IO_OFF)] else []
      | _ \<Rightarrow> [])"

primrec requests :: "levels \<Rightarrow> app_op list \<Rightarrow> app_world \<Rightarrow> (u8 \<times> u8) list" where
  "requests lv [] w = []"
| "requests lv (op # ops) w = asked lv op w @ requests lv ops (app_step lv op w)"

text \<open>The level last asked of a pin: high is off.\<close>

fun wanted :: "nat \<Rightarrow> (u8 \<times> u8) list \<Rightarrow> bool \<Rightarrow> bool" where
  "wanted k [] v = v"
| "wanted k ((pin, st) # rs) v = wanted k rs (if unat pin = k then st \<noteq> IO_ON else v)"

lemma wanted_append: "wanted k (rs @ qs) v = wanted k qs (wanted k rs v)"
  by (induction k rs v rule: wanted.induct) simp_all

text \<open>The pins that are outputs; the other three are inputs and have to stay high.\<close>

abbreviation output_pins :: "nat set" where "output_pins \<equiv> {0, 2, 3, 6, 7}"

definition level_after :: "nat \<Rightarrow> (u8 \<times> u8) list \<Rightarrow> bool \<Rightarrow> bool" where
  "level_after k rs v = (if k \<in> output_pins then wanted k rs v else v)"

lemma level_after_simps [simp]: "level_after k [] v = v"
  "level_after k (rs @ qs) v = level_after k qs (level_after k rs v)"
  by (simp_all add: level_after_def wanted_append del: insert_iff)

lemma set_field_bit: "n < 8 \<Longrightarrow> bit (set_field k v d) n = (if n = k then v \<noteq> 0 else bit d n)"
  by (auto simp: set_field_def bit_simps)

lemma write_io_bit:
  assumes "k < 8"
  shows "bit (pcf8574_write_data (pcf8574_write_io pin st w)) k = level_after k [(pin, st)] (bit (pcf8574_write_data w) k)"
proof -
  have "unat pin = k \<longleftrightarrow> pin = of_nat k" using assms by (auto simp: word_unat_eq_iff unat_of_nat)
  moreover have "k = 0 \<or> k = 1 \<or> k = 2 \<or> k = 3 \<or> k = 4 \<or> k = 5 \<or> k = 6 \<or> k = 7" using assms by linarith
  ultimately show ?thesis
    by (elim disjE) (auto simp: pcf8574_write_io_def trigger_def xQueueSend_def Let_def set_field_bit OUTPUT_BEEP_def
        OUTPUT_DCMI_PWDN_def OUTPUT_USB_PWR_def OUTPUT_RS485_SEL_def OUTPUT_ETH_RESET_def level_after_def)
qed

lemma send_data [simp]: "pcf8574_write_data (snd (xQueueSend ev w)) = pcf8574_write_data w"
  by (simp add: xQueueSend_def)

lemma PRINT_LOG_fields [simp]:
  "pcf8574_write_data (PRINT_LOG lev fmt args w) = pcf8574_write_data w"
  "queue (PRINT_LOG lev fmt args w) = queue w"
  "ap3216_info (PRINT_LOG lev fmt args w) = ap3216_info w"
  "bus (PRINT_LOG lev fmt args w) = bus w"
  by (simp_all add: PRINT_LOG_def)

lemma ap3216_run_data [simp]: "pcf8574_write_data (ap3216c_i2c_run lv w) = pcf8574_write_data w"
proof -
  have q: "pcf8574_write_data (snd (ap3216_read_loop lv n i w)) = pcf8574_write_data w" for n i
    by (induction n arbitrary: i w) (simp_all add: Let_def split_beta)
  show ?thesis using q [of 6 0] by (simp add: ap3216c_i2c_run_def split_beta split: option.split)
qed

lemma timer_data [simp]: "pcf8574_write_data (soft_loop_timer mem taken w) = pcf8574_write_data w"
proof -
  have c: "pcf8574_write_data (timer_call f i v w) = pcf8574_write_data w" for f i v w
    by (cases f; cases v) (simp_all add: I2cTriggerFunc_call_def trigger_def)
  have a: "pcf8574_write_data (snd (action timer_call mem (t, w))) = pcf8574_write_data w" for t w
    by (simp add: action_def Let_def split_beta c split: option.split)
  have "pcf8574_write_data (snd (process_loop timer_call mem ts w)) = pcf8574_write_data w" for ts
    by (induction ts arbitrary: w) (simp_all add: Let_def split_beta a)
  then show ?thesis
    by (simp add: soft_loop_timer_def prvxSoftLoopTimerCallback_def processTrigger_def updateTimeCount_def split_beta Let_def)
qed

lemma isr_data [simp]: "pcf8574_write_data (expander_isr w) = pcf8574_write_data w"
  by (simp add: expander_isr_def EXTI15_10_IRQHandler_def i2c_io_isr_trigger_def trigger_isr_def)

lemma write_io_info [simp]: "ap3216_info (pcf8574_write_io pin st w) = ap3216_info w"
  by (simp add: pcf8574_write_io_def trigger_def xQueueSend_def Let_def)

text \<open>A read of the expander switches the beeper by the proximity it has measured.\<close>

lemma chip_read_asks:
  assumes "bus_ok lv (bus w)" and "k < 8"
  shows "bit (pcf8574_write_data (serve_chip_read lv w)) k = level_after k
      [(OUTPUT_BEEP, if ps (ap3216_info (serve_chip_read lv w)) > 500 then IO_ON else IO_OFF)] (bit (pcf8574_write_data w) k)"
proof -
  obtain r vs b where r: "pcf8574_i2c_read lv (bus w) = (r, vs, b)" by (cases "pcf8574_i2c_read lv (bus w)") auto
  have "r = pdPASS" using bus_ok_read [OF assms(1) r] by simp
  then show ?thesis by (simp add: serve_chip_read_def r Let_def write_io_bit [OF assms(2)])
qed

lemma round_bit:
  assumes "app_inv lv w" and "k < 8"
  shows "bit (pcf8574_write_data (i2c_monitor_run lv w)) k = level_after k (asked lv Round w) (bit (pcf8574_write_data w) k)"
proof (cases "queue w")
  case Nil
  then show ?thesis by (simp add: i2c_monitor_run_def asked_def)
next
  case (Cons ev q)
  show ?thesis
  proof (cases "ev_id ev = I2C_EVENT_IO_CHIP_READ")
    case True
    have s: "serve lv ev (w\<lparr>queue := q\<rparr>) = serve_chip_read lv (w\<lparr>queue := q\<rparr>)"
      by (simp add: serve_def True I2C_EVENT_IO_CHIP_READ_def I2C_EVENT_IO_CHIP_WRITE_def)
    have "bus_ok lv (bus (w\<lparr>queue := q\<rparr>))" using assms(1) by (simp add: app_inv_def)
    from chip_read_asks [OF this assms(2)] show ?thesis
      by (simp add: i2c_monitor_run_def asked_def Cons True s)
  next
    case False
    then show ?thesis
      by (simp add: i2c_monitor_run_def asked_def Cons serve_def registerIODelayTimeTrigger_def removeIODelayTimeTrigger_def
          split_beta)
  qed
qed

lemma app_run_bit:
  "app_inv lv w \<Longrightarrow> all_heard lv ops w \<Longrightarrow> k < 8
     \<Longrightarrow> bit (pcf8574_write_data (app_run lv ops w)) k = level_after k (requests lv ops w) (bit (pcf8574_write_data w) k)"
proof (induction ops arbitrary: w)
  case (Cons op ops)
  have "bit (pcf8574_write_data (app_step lv op w)) k = level_after k (asked lv op w) (bit (pcf8574_write_data w) k)"
    using Cons.prems by (cases op) (simp_all add: write_io_bit round_bit, simp_all add: asked_def)
  then show ?case using Cons app_step_inv [of lv w op] by simp
qed simp

lemma monitor_init_ok:
  assumes "bus_ok lv b" and "i2c_monitor_init lv pdPASS True (app_world0\<lparr>bus := b\<rparr>) = (r, w0)"
  shows "r = pdPASS \<and> bus_ok lv (bus w0) \<and> queue w0 = [] \<and> pcf8574_write_data w0 = 0xff
     \<and> pcf_outputs (bus_syms (bus w0)) = pcf_outputs (bus_syms b)"
proof -
  obtain r1 vs b1 where 1: "pcf8574_i2c_read lv b = (r1, vs, b1)" by (cases "pcf8574_i2c_read lv b") auto
  show ?thesis
    using assms(2) bus_ok_read [OF assms(1) 1]
    by (auto simp: i2c_monitor_init_def 1 app_world0_def registerDevUpdateTimeTrigger_def removeDevUpdateTimeTrigger_def Let_def)
qed

lemma all_heard_append: "all_heard lv (as @ bs) w = (all_heard lv as w \<and> all_heard lv bs (app_run lv as w))"
  by (induction as arbitrary: w) simp_all

text \<open>
  C5. The I2C task and the port expander, on a bus whose devices acknowledge every transfer and with
  all pins of the chip high at first: after the task's initialisation and any interleaving of
  requests for outputs, interrupts, timer callbacks and rounds of the task in which no request finds
  the queue full, as many further rounds as there is work empty the queue, and then each of the five
  outputs of the chip (beeper, camera power, USB power, RS485 direction, Ethernet reset), decoded
  from the wires of the software bus, has the level requested last, by another task or for the
  beeper by the task itself after a read of the expander; the three pins that are inputs are still
  high.
\<close>

theorem expander_outputs_follow_requests:
  assumes "on_bus b" and "bus_inv b" and "acknowledges lv board_i2c_info" and "pcf_outputs (bus_syms b) = 0xff"
    and "i2c_monitor_init lv pdPASS True (app_world0\<lparr>bus := b\<rparr>) = (r, w0)"
    and "all_heard lv ops w0" and "w = app_run lv ops w0" and "work w \<le> n" and "w' = app_run lv (replicate n Round) w"
    and "rs = requests lv (ops @ replicate n Round) w0"
  shows "r = pdPASS \<and> queue w' = [] \<and> pcf_outputs (bus_syms (bus w')) = pcf8574_write_data w'
     \<and> (\<forall>k < 8. bit (pcf_outputs (bus_syms (bus w'))) k = (if k \<in> {0, 2, 3, 6, 7} then wanted k rs True else True))"
proof -
  have "bus_ok lv b" using assms(1-3) by (simp add: bus_ok_def)
  note w0 = monitor_init_ok [OF this assms(5)]
  then have i: "app_inv lv w0" using assms(4) by (simp add: app_inv_def)
  have h: "all_heard lv (ops @ replicate n Round) w0" using assms(6) by (simp add: all_heard_append rounds_heard)
  have w': "w' = app_run lv (ops @ replicate n Round) w0" by (simp add: assms(7,9))
  then have "app_inv lv w'" using app_run_inv [OF i h] by simp
  moreover have q: "queue w' = []" unfolding assms(9) by (rule rounds_serve_all [OF assms(8)])
  ultimately have out: "pcf_outputs (bus_syms (bus w')) = pcf8574_write_data w'" by (simp add: app_inv_def)
  have "bit (pcf8574_write_data w') k = level_after k rs True" if "k < 8" for k
  proof -
    have "k = 0 \<or> k = 1 \<or> k = 2 \<or> k = 3 \<or> k = 4 \<or> k = 5 \<or> k = 6 \<or> k = 7" using that by linarith
    then have "bit (0xff :: u8) k" by (elim disjE) simp_all
    then show ?thesis using app_run_bit [OF i h that] w0 by (simp only: w' assms(10))
  qed
  then show ?thesis using w0 q out by (simp add: level_after_def)
qed

lemma write_rounds_ask_nothing:
  "set (queue w) \<subseteq> {write_event} \<Longrightarrow> requests lv (replicate n Round) w = []"
proof (induction n arbitrary: w)
  case (Suc n)
  have "asked lv Round w = []"
    using Suc.prems by (cases "queue w") (auto simp: asked_def write_event_def I2C_EVENT_IO_CHIP_READ_def I2C_EVENT_IO_CHIP_WRITE_def)
  moreover have "set (queue (i2c_monitor_run lv w)) \<subseteq> {write_event}"
    using Suc.prems serve_queue [of lv write_event "w\<lparr>queue := tl (queue w)\<rparr>"]
    by (cases "queue w") (auto simp: i2c_monitor_run_def write_event_def I2C_EVENT_IO_CHIP_READ_def I2C_EVENT_IO_CHIP_WRITE_def)
  ultimately show ?case using Suc.IH by simp
qed simp

text \<open>The reset of the Ethernet chip, and the beeper switched on.\<close>

theorem expander_outputs_follow_requests_witness:
  "let b = snd (pcf8574_driver_init i2c_world0);
       lv = ack_device board_i2c_info;
       w0 = snd (i2c_monitor_init lv pdPASS True (app_world0\<lparr>bus := b\<rparr>));
       w = app_run lv [Write_IO OUTPUT_ETH_RESET IO_OFF, Write_IO OUTPUT_ETH_RESET IO_ON, Write_IO OUTPUT_BEEP IO_ON] w0;
       w' = app_run lv (replicate 3 Round) w
   in \<not> bit (pcf_outputs (bus_syms (bus w'))) 7 \<and> \<not> bit (pcf_outputs (bus_syms (bus w'))) 0
      \<and> bit (pcf_outputs (bus_syms (bus w'))) 6 \<and> bit (pcf_outputs (bus_syms (bus w'))) 1"
proof -
  let ?b = "snd (pcf8574_driver_init i2c_world0)" and ?lv = "ack_device board_i2c_info"
  let ?ops = "[Write_IO OUTPUT_ETH_RESET IO_OFF, Write_IO OUTPUT_ETH_RESET IO_ON, Write_IO OUTPUT_BEEP IO_ON]"
  have b: "on_bus ?b" "bus_inv ?b" "bus_syms ?b = []"
    using pcf8574_init_bus [OF bus_inv0 surjective_pairing] by (simp_all add: i2c_world0_def monitor0_def)
  then have p: "pcf_outputs (bus_syms ?b) = 0xff" by (simp add: pcf_outputs_def pcf_chip0_def)
  obtain r w0 where i: "i2c_monitor_init ?lv pdPASS True (app_world0\<lparr>bus := ?b\<rparr>) = (r, w0)" by fastforce
  have "bus_ok ?lv ?b" using b ack_device_acknowledges by (simp add: bus_ok_def)
  note w0 = monitor_init_ok [OF this i]
  have q: "queue (app_run ?lv ?ops w0) = [write_event, write_event, write_event]"
    using w0 by (simp add: write_io_queue i2c_monitor_MAX_QUEUE_def)
  have h: "all_heard ?lv ?ops w0" using w0 by (simp add: write_io_queue i2c_monitor_MAX_QUEUE_def)
  have "work (app_run ?lv ?ops w0) \<le> 3" unfolding work_def q
    by (simp add: write_event_def I2C_EVENT_IO_CHIP_WRITE_def I2C_EVENT_IO_CHIP_READ_def)
  from expander_outputs_follow_requests [OF b(1,2) ack_device_acknowledges p i h refl this refl refl]
  have a: "bit (pcf_outputs (bus_syms (bus (app_run ?lv (replicate 3 Round) (app_run ?lv ?ops w0))))) k =
      (if k \<in> {0, 2, 3, 6, 7} then wanted k (requests ?lv (?ops @ replicate 3 Round) w0) True else True)"
    if "k < 8" for k using that by blast
  have "requests ?lv (replicate n Round) w = []" if "set (queue w) \<subseteq> {write_event}" for n w
    using that by (rule write_rounds_ask_nothing)
  then have "requests ?lv (replicate 3 Round) (app_run ?lv ?ops w0) = []" using q by simp
  then have "requests ?lv (?ops @ replicate 3 Round) w0 = [(OUTPUT_ETH_RESET, IO_OFF), (OUTPUT_ETH_RESET, IO_ON), (OUTPUT_BEEP, IO_ON)]"
    by (simp add: asked_def)
  with a [of 7] a [of 0] a [of 6] a [of 1] show ?thesis
    unfolding Let_def i snd_conv
    by (simp add: OUTPUT_ETH_RESET_def OUTPUT_BEEP_def IO_ON_def IO_OFF_def del: fold.simps)
qed

end
