(* ===== verification/Monitor.thy ===== *)
theory Monitor
  imports Button I2C_Monitor Board Fatfs_Log Alg
begin

text \<open>
  The task behind keys, clock and display (\<^verbatim>\<open>Application/Src/monitor.cpp\<close>, the module switched on): every
  20 ms it runs the buttons, whose functions ask the I2C task for outputs, debounces the touch pad and
  the key on the expander, and shows the time. Calls of the display, the converters and the watchdog are
  recorded; arithmetic on floating-point numbers is a parameter.
\<close>

section \<open>State\<close>

text \<open>The states of a key are those of its pin: \<open>KEY_ON\<close> is the low level, 0, and \<open>KEY_OFF\<close> is 1.\<close>

type_synonym KEY_STATE = bool

definition KEY_NUM :: nat where "KEY_NUM = 2"
definition KEY_ON :: KEY_STATE where "KEY_ON = False"
definition KEY_OFF :: KEY_STATE where "KEY_OFF = True"
definition ANTI_SHAKE_TICK :: nat where "ANTI_SHAKE_TICK = 4"

definition btn0_id :: u8 where "btn0_id = 0"
definition btn1_id :: u8 where "btn1_id = 1"
definition btn2_id :: u8 where "btn2_id = 2"
definition btn3_id :: u8 where "btn3_id = 3"

datatype BtnHandler = BTN0_PRESS_Handler | BTN1_PRESS_Handler | BTN2_PRESS_Handler | BTN3_LONG_PRESS_Handler

datatype 'p mon_call =
    Show_String u16 u16 u16 u16 u8 "u8 list"
  | Show_Num u16 u16 u32 u8 u8 u8
  | Dac_Write 'p
  | Pwm_Set 'p
  | Watchdog

text \<open>What the handlers of the buttons can change, next to the I2C task.\<close>

record 'p mon_io =
  app :: app_world
  clock :: rtc_world
  calls :: "'p mon_call list"
  precent :: 'p
  per_second :: u32

text \<open>
  The manager with its arrays and the static variables of its functions; the buttons are at the
  addresses 0 to 3.
\<close>

record 'p monitor_manage =
  key_last :: "KEY_STATE list"
  key_now :: "KEY_STATE list"
  tick :: "u8 list"
  btns :: "nat \<Rightarrow> BtnHandler Button"
  head_handle :: "nat list"
  key_first_run :: u8
  last_second :: u8
  timer_loop :: u8
  adc_loop :: u8
  task_loop :: u16
  io :: "'p mon_io"

text \<open>
  What one round reads: the pins (and the value of an unassigned variable), the touch pad, the random
  number, the hardware checksum, the time and the counter of pulses; and the arithmetic on the percentage.
\<close>

record 'p mon_in =
  pins :: levels
  unassigned :: bool
  tpad_key :: u8
  tpad_no_push :: u16
  tpad_current :: u16
  random :: "u32 option"
  crc_unit :: "u32 list \<Rightarrow> u32"
  now_time :: RTC_TimeTypeDef
  now_date :: RTC_DateTypeDef
  pulses :: u32
  minus_tenth :: "'p \<Rightarrow> 'p"
  below_half :: "'p \<Rightarrow> bool"
  hundred_percent :: 'p

section \<open>Keys\<close>

definition mon_print :: "u8 \<Rightarrow> string \<Rightarrow> nat list \<Rightarrow> 'p mon_io \<Rightarrow> 'p mon_io" where
  "mon_print lev fmt args s = s\<lparr>app := PRINT_LOG lev fmt args (app s)\<rparr>"

definition mon_init :: "'p monitor_manage \<Rightarrow> 'p monitor_manage" where
  "mon_init m = m\<lparr>key_last := replicate KEY_NUM KEY_OFF, key_now := replicate KEY_NUM KEY_OFF, tick := replicate KEY_NUM 0\<rparr>"

definition is_time_escape :: "u32 \<Rightarrow> u32 \<Rightarrow> u32 \<Rightarrow> bool" where
  "is_time_escape now_tick tks time =
     (let tick_end = tks + time
      in if tick_end > tks
         then now_tick \<ge> tick_end \<or> now_tick < tick_end \<and> tick_end - now_tick > 65535
         else now_tick \<ge> tick_end \<and> now_tick < tks)"

definition key_func_list :: "'p mon_in \<Rightarrow> nat \<Rightarrow> 'p mon_io \<Rightarrow> 'p mon_io" where
  "key_func_list inp index s =
     (if index = 0
      then (let s = mon_print LOG_INFO_RECORD ''Tpad Key Push down, no_push:%d, push:%d!''
                      [unat (tpad_no_push inp), unat (tpad_current inp)] s
            in s\<lparr>clock := rtc_alarm_register 0 0 0 5 (clock s)\<rparr>)
      else mon_print LOG_INFO_RECORD ''EXIO Push down!'' [] s)"

text \<open>Reading the keys is an event on the pins, whose history the I2C bus keeps.\<close>

definition read_key :: "'p mon_in \<Rightarrow> u8 \<Rightarrow> 'p mon_io \<Rightarrow> bool \<times> 'p mon_io" where
  "read_key inp i s =
     (let (b, h) = key_get_value (pins inp) (unassigned inp) i (hist (bus (app s)))
      in (b, s\<lparr>app := (app s)\<lparr>bus := (bus (app s))\<lparr>hist := h\<rparr>\<rparr>\<rparr>))"

text \<open>For the fourth button the second key is read only if the first one is up.\<close>

definition read_button_GPIO :: "'p mon_in \<Rightarrow> u8 \<Rightarrow> 'p mon_io \<Rightarrow> u8 \<times> 'p mon_io" where
  "read_button_GPIO inp bid s =
     (let gpio_state = False;
          (gpio_state, s) =
            (if bid = btn0_id then read_key inp 0 s
             else if bid = btn1_id then read_key inp 1 s
             else if bid = btn2_id then read_key inp 2 s
             else if bid = btn3_id
             then (let (b, s) = read_key inp 0 s in if b then read_key inp 1 s else (False, s))
             else (gpio_state, s))
      in (if gpio_state then 1 else 0, s))"

text \<open>The buffer of the second handler.\<close>

definition crc_buffer :: "u32 list" where "crc_buffer = [0x1234, 0x02341515, 0x12321321, 0x23458686]"

text \<open>\<open>bs\<close> are all buttons as they are when the function is called, \<open>i\<close> is the address it is given.\<close>

fun handler_call ::
  "'p mon_in \<Rightarrow> BtnHandler \<Rightarrow> nat \<Rightarrow> (nat \<Rightarrow> BtnHandler Button) \<Rightarrow> 'p mon_io \<Rightarrow> 'p mon_io" where
  "handler_call inp BTN0_PRESS_Handler i bs s =
     (let ev = get_button_event (bs i)
      in if is_button_active (bs 1) then s
         else if ev = PRESS_DOWN
         then (let s = mon_print LOG_INFO_RECORD ''Key0 Push down!'' [] s
               in s\<lparr>app := pcf8574_write_io OUTPUT_BEEP IO_ON (app s)\<rparr>)
         else if ev = PRESS_UP
         then (let s = mon_print LOG_INFO_RECORD ''Key0 Push up!'' [] s
               in s\<lparr>app := pcf8574_write_io OUTPUT_BEEP IO_OFF (app s)\<rparr>)
         else s)"
| "handler_call inp BTN1_PRESS_Handler i bs s =
     (let ev = get_button_event (bs i)
      in if is_button_active (bs 0) then s
         else if ev = PRESS_DOWN
         then (let hw_crc_value = calc_hw_crc32 (crc_unit inp) crc_buffer;
                   soft_crc_value = calc_crc32 crc_buffer;
                   s = mon_print LOG_INFO_RECORD ''Key1 Push down!'' [] s;
                   s = mon_print LOG_INFO_RECORD ''rng:%d crc:0x%x, 0x%x''
                         [unat (rng_get_value (random inp)), unat hw_crc_value, unat soft_crc_value] s
               in mon_print LOG_INFO_RECORD ''time per cnt:0x%x'' [unat (per_second s)] s)
         else if ev = PRESS_UP then mon_print LOG_INFO_RECORD ''Key1 Push up!'' [] s
         else s)"
| "handler_call inp BTN2_PRESS_Handler i bs s =
     (let ev = get_button_event (bs i)
      in if ev = PRESS_DOWN
         then (let s = mon_print LOG_INFO_RECORD ''Key2 Push down!'' [] s;
                   s = s\<lparr>calls := calls s @ [Dac_Write (precent s), Pwm_Set (precent s)]\<rparr>;
                   s = s\<lparr>precent := minus_tenth inp (precent s)\<rparr>;
                   s = (if below_half inp (precent s) then s\<lparr>precent := hundred_percent inp\<rparr> else s);
                   info = ap3216_info (app s)
               in mon_print LOG_INFO_RECORD ''ap3216c i2c read success, ir:%d, als:%d, ps:%d.''
                    [unat (ir info), unat (als info), unat (ps info)] s)
         else if ev = PRESS_UP then mon_print LOG_INFO_RECORD ''Key2 Push up!'' [] s
         else s)"
| "handler_call inp BTN3_LONG_PRESS_Handler i bs s =
     mon_print LOG_INFO_RECORD ''long press group button set!'' [] s"

definition anti_shake :: "u8 \<Rightarrow> KEY_STATE \<Rightarrow> KEY_STATE \<Rightarrow> u8 \<times> KEY_STATE" where
  "anti_shake pTick nowIoStatus readIoStatus =
     (let OutIoStatus = nowIoStatus; pTick = pTick + 1
      in if nowIoStatus = KEY_ON
         then (if readIoStatus = KEY_OFF
               then (if unat pTick > ANTI_SHAKE_TICK then (0, KEY_OFF) else (pTick, OutIoStatus))
               else (0, OutIoStatus))
         else (if readIoStatus = KEY_ON
               then (if unat pTick > ANTI_SHAKE_TICK then (0, KEY_ON) else (pTick, OutIoStatus))
               else (1, OutIoStatus)))"

section \<open>The task\<close>

text \<open>The buttons are initialised in the first round, from their pins as they are then.\<close>

definition init_button :: "'p mon_in \<Rightarrow> nat \<Rightarrow> u8 \<Rightarrow> 'p monitor_manage \<Rightarrow> 'p monitor_manage" where
  "init_button inp a i m =
     (let (l, s) = read_button_GPIO inp i (io m)
      in m\<lparr>btns := (btns m)(a := button_init (\<lambda>_. l) 0 i), io := s\<rparr>)"

definition attach_button :: "nat \<Rightarrow> PressEvent \<Rightarrow> BtnHandler \<Rightarrow> 'p monitor_manage \<Rightarrow> 'p monitor_manage" where
  "attach_button a ev f m =
     (case button_attach ev f (btns m a) of None \<Rightarrow> m | Some b \<Rightarrow> m\<lparr>btns := (btns m)(a := b)\<rparr>)"

definition start_button :: "nat \<Rightarrow> 'p monitor_manage \<Rightarrow> 'p monitor_manage" where
  "start_button a m = m\<lparr>head_handle := snd (button_start a (head_handle m))\<rparr>"

definition first_run :: "'p mon_in \<Rightarrow> 'p monitor_manage \<Rightarrow> 'p monitor_manage" where
  "first_run inp m =
     (let m = m\<lparr>key_first_run := 1\<rparr>;
          m = init_button inp 0 btn0_id m;
          m = init_button inp 1 btn1_id m;
          m = init_button inp 2 btn2_id m;
          m = init_button inp 3 btn3_id m;
          m = attach_button 0 PRESS_DOWN BTN0_PRESS_Handler m;
          m = attach_button 0 PRESS_UP BTN0_PRESS_Handler m;
          m = attach_button 1 PRESS_DOWN BTN1_PRESS_Handler m;
          m = attach_button 1 PRESS_UP BTN1_PRESS_Handler m;
          m = attach_button 2 PRESS_DOWN BTN2_PRESS_Handler m;
          m = attach_button 2 PRESS_UP BTN2_PRESS_Handler m;
          m = attach_button 3 LONG_PRESS_START BTN3_LONG_PRESS_Handler m;
          m = start_button 0 m;
          m = start_button 1 m
      in start_button 2 m)"

definition run_buttons :: "'p mon_in \<Rightarrow> 'p monitor_manage \<Rightarrow> 'p monitor_manage" where
  "run_buttons inp m =
     (let (bs, s) = button_ticks (\<lambda>s i. read_button_GPIO inp i s) (handler_call inp) (head_handle m) (btns m, io m)
      in m\<lparr>btns := bs, io := s\<rparr>)"

text \<open>The two keys that are debounced here; \<open>reading\<close> is the state just read.\<close>

definition shake_key :: "nat \<Rightarrow> KEY_STATE \<Rightarrow> 'p monitor_manage \<Rightarrow> 'p monitor_manage" where
  "shake_key k reading m =
     (let (t, st) = anti_shake (tick m ! k) (key_now m ! k) reading
      in m\<lparr>tick := (tick m)[k := t], key_now := (key_now m)[k := st]\<rparr>)"

definition key_dispatch :: "'p mon_in \<Rightarrow> nat \<Rightarrow> 'p monitor_manage \<Rightarrow> 'p monitor_manage" where
  "key_dispatch inp index m =
     (if key_now m ! index = KEY_ON
      then (if key_last m ! index \<noteq> key_now m ! index
            then (let m = m\<lparr>key_last := (key_last m)[index := key_now m ! index]\<rparr>
                  in m\<lparr>io := key_func_list inp index (io m)\<rparr>)
            else m)
      else m\<lparr>key_last := (key_last m)[index := key_now m ! index]\<rparr>)"

definition key_motion :: "'p mon_in \<Rightarrow> 'p monitor_manage \<Rightarrow> 'p monitor_manage" where
  "key_motion inp m =
     (let m = (if key_first_run m = 0 then first_run inp m else m);
          m = run_buttons inp m;
          m = shake_key 0 (if tpad_key inp = 1 then KEY_ON else KEY_OFF) m;
          m = shake_key 1 (if bit (pcf8574_read_data (app (io m))) 4 then KEY_OFF else KEY_ON) m
      in fold (key_dispatch inp) [0..<KEY_NUM] m)"

abbreviation (input) pdTRUE :: BaseType_t where "pdTRUE \<equiv> 1"
abbreviation (input) pdFALSE :: BaseType_t where "pdFALSE \<equiv> 0"

text \<open>\<^verbatim>\<open>"Timer: %02d-%02d-%02d %02d:%02d:%02d"\<close>\<close>

definition clock_text :: "RTC_INFO \<Rightarrow> u8 list" where
  "clock_text i =
     (let d = rtc_date i; t = rtc_time i
      in str_bytes ''Timer: '' @ dec2 (Year d) @ [45] @ dec2 (Month d) @ [45] @ dec2 (Date d) @ [32]
         @ dec2 (Hours t) @ [58] @ dec2 (Minutes t) @ [58] @ dec2 (Seconds t))"

definition timer_loop_motion :: "'p mon_in \<Rightarrow> 'p monitor_manage \<Rightarrow> 'p monitor_manage" where
  "timer_loop_motion inp m =
     (let m = m\<lparr>timer_loop := timer_loop m + 1\<rparr>;
          m = (if timer_loop m \<ge> 10
               then (let m = m\<lparr>timer_loop := 0\<rparr>;
                         (info, r) = rtc_update (now_time inp) (now_date inp) (clock (io m));
                         m = m\<lparr>io := (io m)\<lparr>clock := r\<rparr>\<rparr>
                     in if last_second m \<noteq> Seconds (rtc_time info)
                        then m\<lparr>last_second := Seconds (rtc_time info),
                               io := (io m)\<lparr>calls := calls (io m) @ [Show_String 10 160 200 16 16 (clock_text info)]\<rparr>\<rparr>
                        else m)
               else m)
      in if rtc_alarm_state_read (clock (io m)) = pdTRUE
         then (let s = mon_print LOG_INFO_RECORD ''RTC Alarm'' [] (io m)
               in m\<lparr>io := s\<lparr>clock := rtc_alarm_state_write pdFALSE (clock s)\<rparr>\<rparr>)
         else m)"

text \<open>
  The temperature and the voltage are computed in floating point from the averaged readings;
  \<open>temp\<close> and \<open>volt\<close> are the four integers shown.
\<close>

definition adc_monitor :: "u32 \<times> u32 \<Rightarrow> u32 \<times> u32 \<Rightarrow> 'p monitor_manage \<Rightarrow> 'p monitor_manage" where
  "adc_monitor temp volt m =
     (let m = m\<lparr>adc_loop := adc_loop m + 1\<rparr>
      in if adc_loop m \<ge> 20
         then m\<lparr>adc_loop := 0,
                io := (io m)\<lparr>calls := calls (io m)
                  @ [Show_Num (10 + 11 * 8) 140 (fst temp) 2 16 0, Show_Num (10 + 14 * 8) 140 (snd temp) 2 16 0,
                     Show_Num (10 + 23 * 8) 140 (fst volt) 2 16 0, Show_Num (10 + 26 * 8) 140 (snd volt) 2 16 0]\<rparr>\<rparr>
         else m)"

definition task_per_second :: "'p mon_in \<Rightarrow> 'p monitor_manage \<Rightarrow> 'p monitor_manage" where
  "task_per_second inp m =
     (let m = m\<lparr>task_loop := task_loop m + 1\<rparr>
      in if task_loop m \<ge> 50
         then m\<lparr>task_loop := 0, io := (io m)\<lparr>per_second := fst (get_cnt_per_second (pulses inp))\<rparr>\<rparr>
         else m)"

text \<open>One round of the task's loop.\<close>

definition monitor_run :: "'p mon_in \<Rightarrow> u32 \<times> u32 \<Rightarrow> u32 \<times> u32 \<Rightarrow> 'p monitor_manage \<Rightarrow> 'p monitor_manage" where
  "monitor_run inp temp volt m =
     (let m = timer_loop_motion inp m;
          m = key_motion inp m;
          m = adc_monitor temp volt m;
          m = task_per_second inp m
      in m\<lparr>io := (io m)\<lparr>calls := calls (io m) @ [Watchdog]\<rparr>\<rparr>)"

section \<open>What leaves the requests to the I2C task alone\<close>

definition same_io :: "'p mon_io \<Rightarrow> 'p mon_io \<Rightarrow> bool" where
  "same_io s s' \<longleftrightarrow> pcf8574_write_data (app s') = pcf8574_write_data (app s) \<and> queue (app s') = queue (app s)
     \<and> (\<forall>lv. app_inv lv (app s) \<longrightarrow> app_inv lv (app s'))"

lemma same_ioD:
  "same_io s s' \<Longrightarrow> pcf8574_write_data (app s') = pcf8574_write_data (app s)"
  "same_io s s' \<Longrightarrow> queue (app s') = queue (app s)"
  "same_io s s' \<Longrightarrow> app_inv lv (app s) \<Longrightarrow> app_inv lv (app s')"
  by (simp_all add: same_io_def)

lemma same_io_refl [simp]: "same_io s s"
  by (simp add: same_io_def)

lemma same_io_trans: "same_io s s' \<Longrightarrow> same_io s' s'' \<Longrightarrow> same_io s s''"
  by (simp add: same_io_def)

lemma same_io_print [simp]: "same_io s (mon_print lev fmt args s') = same_io s s'"
  by (simp add: same_io_def mon_print_def)

lemma same_io_fields [simp]:
  "same_io s (s'\<lparr>clock := r\<rparr>) = same_io s s'" "same_io s (s'\<lparr>calls := c\<rparr>) = same_io s s'"
  "same_io s (s'\<lparr>precent := p\<rparr>) = same_io s s'" "same_io s (s'\<lparr>per_second := n\<rparr>) = same_io s s'"
  by (simp_all add: same_io_def)

text \<open>The keys are not the pins of the I2C bus.\<close>

lemma key_read_mon:
  "key_get_value lv u i h = (b, h') \<Longrightarrow> mon board_i2c_info h' = mon board_i2c_info h"
  by (auto simp: key_get_value_def hw_defs KEY0_PORT_def KEY0_PIN_def KEY1_PORT_def KEY1_PIN_def KEY2_PORT_def
      board_i2c_info_def is_sda_def GPIO_PIN_2_def GPIO_PIN_3_def GPIO_PIN_5_def Let_def split: if_splits)

lemma same_mon_inv:
  assumes "mon board_i2c_info h = mon board_i2c_info (hist (bus a))"
  shows "app_inv lv (a\<lparr>bus := (bus a)\<lparr>hist := h\<rparr>\<rparr>) = app_inv lv a"
proof -
  have "on_bus ((bus a)\<lparr>hist := h\<rparr>) = on_bus (bus a)" using assms by (auto simp: on_bus_def i2c_ready_def)
  moreover from this have "bus_inv ((bus a)\<lparr>hist := h\<rparr>) = bus_inv (bus a)" using assms by (simp add: bus_inv_def)
  ultimately show ?thesis using assms by (simp add: app_inv_def bus_ok_def)
qed

lemma same_io_read: "same_io s (snd (read_button_GPIO inp i s))"
proof -
  have r: "same_io s (snd (read_key inp j s))" for j s
  proof -
    obtain b h where k: "key_get_value (pins inp) (unassigned inp) j (hist (bus (app s))) = (b, h)" by fastforce
    show ?thesis by (simp add: read_key_def k same_io_def same_mon_inv [OF key_read_mon [OF k]])
  qed
  show ?thesis
    using r [of s 0] r [of s 1] r [of s 2] same_io_trans [OF r [of s 0] r [where j = 1]]
    by (simp add: read_button_GPIO_def Let_def split_beta)
qed

lemma same_io_handler:
  "f \<noteq> BTN0_PRESS_Handler \<Longrightarrow> same_io s (handler_call inp f i bs s)"
  by (cases f) (auto simp: Let_def)

lemma same_io_key_func [simp]: "same_io s (key_func_list inp k s)"
  by (simp add: key_func_list_def Let_def)

section \<open>The first key and the beeper\<close>

text \<open>The inputs while key 0 is pressed and key 1 is not, and while both are released.\<close>

definition key0_down :: "'p mon_in \<Rightarrow> bool" where
  "key0_down inp \<longleftrightarrow> (\<forall>h. \<not> pins inp h KEY0_PORT KEY0_PIN \<and> pins inp h KEY1_PORT KEY1_PIN)"

definition keys_up :: "'p mon_in \<Rightarrow> bool" where
  "keys_up inp \<longleftrightarrow> (\<forall>h. pins inp h KEY0_PORT KEY0_PIN \<and> pins inp h KEY1_PORT KEY1_PIN)"

lemma read_keys:
  "key0_down inp \<Longrightarrow> fst (read_button_GPIO inp 0 s) = 0"
  "keys_up inp \<Longrightarrow> fst (read_button_GPIO inp 0 s) = 1"
  "key0_down inp \<or> keys_up inp \<Longrightarrow> fst (read_button_GPIO inp 1 s) = 1"
  by (auto simp: key0_down_def keys_up_def read_button_GPIO_def read_key_def key_get_value_def hw_defs btn0_id_def
      btn1_id_def Let_def)

text \<open>A button at rest, and the first button in the middle of a press or a release.\<close>

definition at_rest :: "BtnHandler Button \<Rightarrow> bool" where
  "at_rest b \<longleftrightarrow> state b = 0 \<and> button_level b = 1 \<and> active_level b = 0 \<and> debounce_cnt b = 0"

definition btn0_cb :: "PressEvent \<Rightarrow> BtnHandler option" where
  "btn0_cb = (\<lambda>_. None)(PRESS_DOWN := Some BTN0_PRESS_Handler, PRESS_UP := Some BTN0_PRESS_Handler)"

definition btn0_at :: "3 word set \<Rightarrow> 1 word \<Rightarrow> 3 word \<Rightarrow> BtnHandler Button \<Rightarrow> bool" where
  "btn0_at S l c b \<longleftrightarrow> state b \<in> S \<and> button_level b = l \<and> debounce_cnt b = c \<and> active_level b = 0 \<and> cb b = btn0_cb
     \<and> button_id b = 0"

lemmas step_defs =
  button_handler_def button_debounce_def button_machine_def EVENT_CB_def DEBOUNCE_TICKS_def SHORT_TICKS_def
  LONG_TICKS_def Let_def

lemma at_rest_step:
  "at_rest b \<Longrightarrow> snd (button_handler 1 b) = [] \<and> at_rest (fst (button_handler 1 b))
     \<and> button_id (fst (button_handler 1 b)) = button_id b"
  by (simp add: at_rest_def step_defs)

lemma btn0_press_steps:
  "btn0_at {0} 1 0 b \<Longrightarrow> snd (button_handler 0 b) = [] \<and> btn0_at {0} 1 1 (fst (button_handler 0 b))"
  "btn0_at {0} 1 1 b \<Longrightarrow> snd (button_handler 0 b) = [] \<and> btn0_at {0} 1 2 (fst (button_handler 0 b))"
  "btn0_at {0} 1 2 b \<Longrightarrow> (\<exists>b'. snd (button_handler 0 b) = [(b', BTN0_PRESS_Handler)] \<and> event b' = PRESS_DOWN)
     \<and> btn0_at {1, 5} 0 0 (fst (button_handler 0 b))"
  "btn0_at {1, 5} 0 0 b \<Longrightarrow> snd (button_handler 0 b) = [] \<and> btn0_at {1, 5} 0 0 (fst (button_handler 0 b))"
  by (auto simp: btn0_at_def btn0_cb_def step_defs simp del: bit_flip)

lemma btn0_release_steps:
  "btn0_at {1, 5} 0 0 b \<Longrightarrow> snd (button_handler 1 b) = [] \<and> btn0_at {1, 5} 0 1 (fst (button_handler 1 b))"
  "btn0_at {1, 5} 0 1 b \<Longrightarrow> snd (button_handler 1 b) = [] \<and> btn0_at {1, 5} 0 2 (fst (button_handler 1 b))"
  "btn0_at {1, 5} 0 2 b \<Longrightarrow> (\<exists>b'. snd (button_handler 1 b) = [(b', BTN0_PRESS_Handler)] \<and> event b' = PRESS_UP)
     \<and> btn0_at {0, 2} 1 0 (fst (button_handler 1 b))"
  "btn0_at {0, 2} 1 0 b \<Longrightarrow> snd (button_handler 1 b) = [] \<and> btn0_at {0, 2} 1 0 (fst (button_handler 1 b))"
  by (auto simp: btn0_at_def btn0_cb_def step_defs simp del: bit_flip)

text \<open>One button of the round.\<close>

definition one_button ::
  "'p mon_in \<Rightarrow> nat \<Rightarrow> (nat \<Rightarrow> BtnHandler Button) \<times> 'p mon_io \<Rightarrow> (nat \<Rightarrow> BtnHandler Button) \<times> 'p mon_io" where
  "one_button inp i = (\<lambda>(bs, s).
     let (r, s) = read_button_GPIO inp (button_id (bs i)) s;
         (b, calls) = button_handler r (bs i)
     in (bs(i := b), fold (\<lambda>(snap, f) s. handler_call inp f i (bs(i := snap)) s) calls s))"

lemma run_buttons_eq:
  "head_handle m = [2, 1, 0]
     \<Longrightarrow> run_buttons inp m =
       (let (bs, s) = one_button inp 0 (one_button inp 1 (one_button inp 2 (btns m, io m))) in m\<lparr>btns := bs, io := s\<rparr>)"
  by (simp add: run_buttons_def button_ticks_def one_button_def split_def Let_def)

lemma machine_calls: "(b', f) \<in> set (snd (button_machine b)) \<Longrightarrow> \<exists>e. cb b e = Some f"
  by (auto simp: button_machine_def EVENT_CB_def Let_def simp del: bit_flip split: if_splits option.splits)

lemma handler_calls: "(b', f) \<in> set (snd (button_handler r b)) \<Longrightarrow> \<exists>e. cb b e = Some f"
  using machine_calls by (fastforce simp: button_handler_def Let_def split: if_splits)

lemma button_id_keeps [simp]:
  "button_id (fst (button_machine b)) = button_id b" "button_id (button_debounce r b) = button_id b"
  by (simp_all add: button_machine_def button_debounce_def Let_def del: bit_flip)

lemma handler_keeps [simp]:
  "cb (fst (button_handler r b)) = cb b" "button_id (fst (button_handler r b)) = button_id b"
  by (simp_all add: button_handler_def Let_def)

lemma same_io_calls:
  "\<forall>c \<in> set cs. snd c \<noteq> BTN0_PRESS_Handler
     \<Longrightarrow> same_io s (fold (\<lambda>(snap, f) s. handler_call inp f i (bs(i := snap)) s) cs s)"
proof (induction cs arbitrary: s)
  case (Cons c cs)
  have "same_io s (handler_call inp (snd c) i (bs(i := fst c)) s)"
    using Cons.prems by (intro same_io_handler) simp
  from same_io_trans [OF this Cons.IH] Cons.prems show ?case by (cases c) (simp del: fun_upd_apply)
qed simp

lemma one_button_other:
  assumes "\<forall>e. cb (bs i) e \<noteq> Some BTN0_PRESS_Handler"
  shows "\<exists>b' s'. one_button inp i (bs, s) = (bs(i := b'), s') \<and> same_io s s' \<and> cb b' = cb (bs i) \<and> button_id b' = button_id (bs i)"
proof -
  obtain r s1 where r: "read_button_GPIO inp (button_id (bs i)) s = (r, s1)" by fastforce
  have "snd c \<noteq> BTN0_PRESS_Handler" if "c \<in> set (snd (button_handler r (bs i)))" for c
    using handler_calls [of "fst c" "snd c" r "bs i"] that assms by auto
  then have "same_io s1 (fold (\<lambda>(snap, f) s. handler_call inp f i (bs(i := snap)) s) (snd (button_handler r (bs i))) s1)"
    by (intro same_io_calls) blast
  moreover have "same_io s s1" using same_io_read [of s inp "button_id (bs i)"] r by simp
  ultimately have "same_io s (fold (\<lambda>(snap, f) s. handler_call inp f i (bs(i := snap)) s) (snd (button_handler r (bs i))) s1)"
    using same_io_trans by blast
  moreover have "one_button inp i (bs, s) = (bs(i := fst (button_handler r (bs i))),
      fold (\<lambda>(snap, f) s. handler_call inp f i (bs(i := snap)) s) (snd (button_handler r (bs i))) s1)"
    by (simp add: one_button_def r split_beta)
  ultimately show ?thesis by (intro exI [of _ "fst (button_handler r (bs i))"]) auto
qed

lemma one_button_rest:
  assumes "at_rest (bs i)" and "fst (read_button_GPIO inp (button_id (bs i)) s) = 1"
  shows "\<exists>b' s'. one_button inp i (bs, s) = (bs(i := b'), s') \<and> same_io s s' \<and> at_rest b' \<and> cb b' = cb (bs i)
     \<and> button_id b' = button_id (bs i)"
  using at_rest_step [OF assms(1)] assms(2) same_io_read [of s inp "button_id (bs i)"]
  by (auto simp: one_button_def split_beta Let_def)

text \<open>The rest of the round, for a manager that has been set up and whose second button is at rest.\<close>

definition ready :: "'p monitor_manage \<Rightarrow> bool" where
  "ready m \<longleftrightarrow> key_first_run m \<noteq> 0 \<and> head_handle m = [2, 1, 0] \<and> at_rest (btns m 1) \<and> button_id (btns m 1) = 1
     \<and> (\<forall>e. cb (btns m 2) e \<noteq> Some BTN0_PRESS_Handler)"

lemma shake_key_simps [simp]:
  "btns (shake_key k r m) = btns m" "io (shake_key k r m) = io m" "key_first_run (shake_key k r m) = key_first_run m"
  "head_handle (shake_key k r m) = head_handle m"
  by (simp_all add: shake_key_def split_beta)

lemma key_dispatch_simps [simp]:
  "btns (key_dispatch inp k m) = btns m" "key_first_run (key_dispatch inp k m) = key_first_run m"
  "head_handle (key_dispatch inp k m) = head_handle m" "same_io (io m) (io (key_dispatch inp k m))"
  by (simp_all add: key_dispatch_def Let_def)

lemma key_dispatch_all:
  "btns (fold (key_dispatch inp) ks m) = btns m" "key_first_run (fold (key_dispatch inp) ks m) = key_first_run m"
  "head_handle (fold (key_dispatch inp) ks m) = head_handle m" "same_io (io m) (io (fold (key_dispatch inp) ks m))"
proof -
  show "btns (fold (key_dispatch inp) ks m) = btns m" "key_first_run (fold (key_dispatch inp) ks m) = key_first_run m"
    "head_handle (fold (key_dispatch inp) ks m) = head_handle m"
    by (induction ks arbitrary: m) simp_all
  show "same_io (io m) (io (fold (key_dispatch inp) ks m))"
    by (induction ks arbitrary: m) (auto intro: same_io_trans [OF key_dispatch_simps(4)])
qed

lemma key_motion_io:
  assumes "key_first_run m \<noteq> 0"
  shows "btns (key_motion inp m) = btns (run_buttons inp m)" "same_io (io (run_buttons inp m)) (io (key_motion inp m))"
    "key_first_run (key_motion inp m) = key_first_run m" "head_handle (key_motion inp m) = head_handle m"
proof -
  obtain m' ks where "key_motion inp m = fold (key_dispatch inp) ks m'" and "btns m' = btns (run_buttons inp m)"
    "io m' = io (run_buttons inp m)" "key_first_run m' = key_first_run m" "head_handle m' = head_handle m"
    using assms by (simp add: key_motion_def Let_def run_buttons_def split_beta)
  then show "btns (key_motion inp m) = btns (run_buttons inp m)" "same_io (io (run_buttons inp m)) (io (key_motion inp m))"
    "key_first_run (key_motion inp m) = key_first_run m" "head_handle (key_motion inp m) = head_handle m"
    using key_dispatch_all [where inp = inp and ks = ks and m = m'] by simp_all
qed

lemma key_motion_step:
  assumes "ready m" and "button_id (btns m 0) = 0" and "key0_down inp \<or> keys_up inp"
    and "r = (if key0_down inp then 0 else 1)"
  shows "\<exists>s b1 b2. same_io (io m) s \<and> at_rest b1 \<and> ready (key_motion inp m)
     \<and> btns (key_motion inp m) 0 = fst (button_handler r (btns m 0))
     \<and> same_io (fold (\<lambda>(snap, f) s. handler_call inp f 0 ((btns m)(2 := b2, 1 := b1, 0 := snap)) s)
                 (snd (button_handler r (btns m 0))) s) (io (key_motion inp m))"
proof -
  have rd: "key_first_run m \<noteq> 0" "head_handle m = [2, 1, 0]" "at_rest (btns m 1)" "button_id (btns m 1) = 1"
    "\<forall>e. cb (btns m 2) e \<noteq> Some BTN0_PRESS_Handler" using assms(1) by (auto simp: ready_def)
  obtain b2 s2 where 2: "one_button inp 2 (btns m, io m) = ((btns m)(2 := b2), s2)" "same_io (io m) s2" "cb b2 = cb (btns m 2)"
    using one_button_other [where bs = "btns m" and i = 2, OF rd(5)] by blast
  obtain b1 s1 where 1: "one_button inp 1 ((btns m)(2 := b2), s2) = ((btns m)(2 := b2, 1 := b1), s1)" "same_io s2 s1"
    "at_rest b1" "button_id b1 = 1"
    using one_button_rest [of "(btns m)(2 := b2)" 1 inp s2] rd read_keys(3) [OF assms(3)] by auto
  obtain s where s: "read_button_GPIO inp 0 s1 = (r, s)" "same_io s1 s"
    using read_keys(1,2) [of inp s1] assms(3,4) same_io_read [of s1 inp 0]
    by (cases "read_button_GPIO inp 0 s1"; cases "key0_down inp") auto
  have 0: "one_button inp 0 ((btns m)(2 := b2, 1 := b1), s1) =
      ((btns m)(2 := b2, 1 := b1, 0 := fst (button_handler r (btns m 0))),
       fold (\<lambda>(snap, f) s. handler_call inp f 0 ((btns m)(2 := b2, 1 := b1, 0 := snap)) s)
         (snd (button_handler r (btns m 0))) s)"
    by (simp add: one_button_def assms(2) s(1) split_beta)
  have run: "run_buttons inp m = m\<lparr>btns := (btns m)(2 := b2, 1 := b1, 0 := fst (button_handler r (btns m 0))),
      io := fold (\<lambda>(snap, f) s. handler_call inp f 0 ((btns m)(2 := b2, 1 := b1, 0 := snap)) s)
              (snd (button_handler r (btns m 0))) s\<rparr>"
    by (simp only: run_buttons_eq [OF rd(2)] 2(1) 1(1) 0 Let_def prod.case)
  note k = key_motion_io [where inp = inp, OF rd(1)]
  have "ready (key_motion inp m)" using k run rd 1 2 by (simp add: ready_def)
  moreover have "same_io (io m) s" using 2(2) 1(2) s(2) same_io_trans by blast
  moreover have "btns (key_motion inp m) 0 = fst (button_handler r (btns m 0))" using k(1) run by simp
  ultimately show ?thesis using k(2) run 1(3) by auto
qed

text \<open>A step of the manager that only asks for the beeper to be \<open>st\<close>.\<close>

definition asks :: "u8 \<Rightarrow> 'p mon_io \<Rightarrow> 'p mon_io \<Rightarrow> bool" where
  "asks st s s' \<longleftrightarrow> (\<exists>a. same_io s a \<and> same_io (a\<lparr>app := pcf8574_write_io OUTPUT_BEEP st (app a)\<rparr>) s')"

lemma asks_same: "asks st s s' \<Longrightarrow> same_io s' s'' \<Longrightarrow> asks st s s''"
  "same_io s0 s \<Longrightarrow> asks st s s' \<Longrightarrow> asks st s0 s'"
  by (auto simp: asks_def intro: same_io_trans)

definition input_of :: "bool \<Rightarrow> 'p mon_in \<Rightarrow> bool" where
  "input_of p inp \<longleftrightarrow> (if p then key0_down inp else keys_up inp)"

lemma not_both: "key0_down inp \<Longrightarrow> \<not> keys_up inp"
  by (simp add: key0_down_def keys_up_def)

lemma quiet_round:
  assumes "ready m" and "btn0_at S l c (btns m 0)" and "input_of p inp" and "r = (if p then 0 else 1)"
    and "snd (button_handler r (btns m 0)) = [] \<and> btn0_at S' l' c' (fst (button_handler r (btns m 0)))"
  shows "ready (key_motion inp m) \<and> btn0_at S' l' c' (btns (key_motion inp m) 0) \<and> same_io (io m) (io (key_motion inp m))"
proof -
  have "r = (if key0_down inp then 0 else 1)" "key0_down inp \<or> keys_up inp" "button_id (btns m 0) = 0"
    using assms(2-4) not_both [of inp] by (auto simp: input_of_def btn0_at_def split: if_splits)
  from key_motion_step [OF assms(1) this(3,2,1)] show ?thesis using assms(5) by (auto intro: same_io_trans)
qed

lemma asking_round:
  assumes "ready m" and "btn0_at S l c (btns m 0)" and "input_of p inp" and "r = (if p then 0 else 1)"
    and "\<exists>b'. snd (button_handler r (btns m 0)) = [(b', BTN0_PRESS_Handler)] \<and> event b' = (if p then PRESS_DOWN else PRESS_UP)"
    and "btn0_at S' l' c' (fst (button_handler r (btns m 0)))"
  shows "ready (key_motion inp m) \<and> btn0_at S' l' c' (btns (key_motion inp m) 0)
     \<and> asks (if p then IO_ON else IO_OFF) (io m) (io (key_motion inp m))"
proof -
  have i: "r = (if key0_down inp then 0 else 1)" "key0_down inp \<or> keys_up inp" "button_id (btns m 0) = 0"
    using assms(2-4) not_both [of inp] by (auto simp: input_of_def btn0_at_def split: if_splits)
  obtain b' where b': "snd (button_handler r (btns m 0)) = [(b', BTN0_PRESS_Handler)]"
    "event b' = (if p then PRESS_DOWN else PRESS_UP)" using assms(5) by blast
  obtain s b1 b2 where k: "same_io (io m) s" "at_rest b1" "ready (key_motion inp m)"
    "btns (key_motion inp m) 0 = fst (button_handler r (btns m 0))"
    "same_io (handler_call inp BTN0_PRESS_Handler 0 ((btns m)(2 := b2, 1 := b1, 0 := b')) s) (io (key_motion inp m))"
    using key_motion_step [OF assms(1) i(3,2,1)] b'(1) by auto
  have "\<not> is_button_active b1" using k(2) by (simp add: at_rest_def is_button_active_def)
  then have "asks (if p then IO_ON else IO_OFF) s (handler_call inp BTN0_PRESS_Handler 0 ((btns m)(2 := b2, 1 := b1, 0 := b')) s)"
    using b'(2) unfolding asks_def
    by (intro exI [of _ "mon_print LOG_INFO_RECORD (if p then ''Key0 Push down!'' else ''Key0 Push up!'') [] s"])
       (simp add: get_button_event_def Let_def)
  then show ?thesis using asks_same k assms(6) by metis
qed

lemma quiet_rounds:
  assumes "ready m" and "btn0_at S l c (btns m 0)" and "\<forall>inp \<in> set ins. input_of p inp" and "r = (if p then 0 else 1)"
    and "\<And>b. btn0_at S l c b \<Longrightarrow> snd (button_handler r b) = [] \<and> btn0_at S l c (fst (button_handler r b))"
  shows "ready (fold key_motion ins m) \<and> btn0_at S l c (btns (fold key_motion ins m) 0)
     \<and> same_io (io m) (io (fold key_motion ins m))"
  using assms(1-3)
proof (induction ins arbitrary: m)
  case (Cons inp ins)
  then have q: "ready (key_motion inp m) \<and> btn0_at S l c (btns (key_motion inp m) 0) \<and> same_io (io m) (io (key_motion inp m))"
    using quiet_round [OF Cons.prems(1,2) _ assms(4) assms(5)] by simp
  then show ?case using Cons.IH Cons.prems(3) same_io_trans by fastforce
qed simp

text \<open>Three readings in a row, and any number of them after that.\<close>

lemma three_rounds:
  assumes "ready m" and "btn0_at S1 l1 0 (btns m 0)" and "\<forall>inp \<in> set ins. input_of p inp" and "3 \<le> length ins"
    and "r = (if p then 0 else 1)"
    and "\<And>b. btn0_at S1 l1 0 b \<Longrightarrow> snd (button_handler r b) = [] \<and> btn0_at S1 l1 1 (fst (button_handler r b))"
    and "\<And>b. btn0_at S1 l1 1 b \<Longrightarrow> snd (button_handler r b) = [] \<and> btn0_at S1 l1 2 (fst (button_handler r b))"
    and "\<And>b. btn0_at S1 l1 2 b \<Longrightarrow>
           (\<exists>b'. snd (button_handler r b) = [(b', BTN0_PRESS_Handler)] \<and> event b' = (if p then PRESS_DOWN else PRESS_UP))
           \<and> btn0_at S2 l2 0 (fst (button_handler r b))"
    and "\<And>b. btn0_at S2 l2 0 b \<Longrightarrow> snd (button_handler r b) = [] \<and> btn0_at S2 l2 0 (fst (button_handler r b))"
  shows "ready (fold key_motion ins m) \<and> btn0_at S2 l2 0 (btns (fold key_motion ins m) 0)
     \<and> asks (if p then IO_ON else IO_OFF) (io m) (io (fold key_motion ins m))"
proof -
  obtain i1 i2 i3 rest where ins: "ins = i1 # i2 # i3 # rest"
    using assms(4) by (auto simp: numeral_3_eq_3 Suc_le_length_iff)
  have i: "input_of p i1" "input_of p i2" "input_of p i3" "\<forall>inp \<in> set rest. input_of p inp" using assms(3) ins by auto
  define m1 where "m1 = key_motion i1 m"
  define m2 where "m2 = key_motion i2 m1"
  define m3 where "m3 = key_motion i3 m2"
  have 1: "ready m1 \<and> btn0_at S1 l1 1 (btns m1 0) \<and> same_io (io m) (io m1)"
    unfolding m1_def by (rule quiet_round [OF assms(1,2) i(1) assms(5) assms(6) [OF assms(2)]])
  then have 2: "ready m2 \<and> btn0_at S1 l1 2 (btns m2 0) \<and> same_io (io m1) (io m2)"
    unfolding m2_def by (intro quiet_round [OF _ _ i(2) assms(5) assms(7)]) auto
  then have b: "btn0_at S1 l1 2 (btns m2 0)" by blast
  have 3: "ready m3 \<and> btn0_at S2 l2 0 (btns m3 0) \<and> asks (if p then IO_ON else IO_OFF) (io m2) (io m3)"
    unfolding m3_def
    by (rule asking_round [OF conjunct1 [OF 2] b i(3) assms(5)]) (use assms(8) [OF b] in auto)
  then have 4: "ready (fold key_motion rest m3) \<and> btn0_at S2 l2 0 (btns (fold key_motion rest m3) 0)
     \<and> same_io (io m3) (io (fold key_motion rest m3))"
    by (intro quiet_rounds [OF _ _ i(4) assms(5) assms(9)]) auto
  have "same_io (io m) (io m2)" using 1 2 same_io_trans by blast
  then have "asks (if p then IO_ON else IO_OFF) (io m) (io (fold key_motion rest m3))"
    using 3 4 asks_same by blast
  moreover have "fold key_motion ins m = fold key_motion rest m3" by (simp add: ins m1_def m2_def m3_def)
  ultimately show ?thesis using 4 by simp
qed

lemma asks_effect:
  assumes "asks st s s'" and "length (queue (app s)) < i2c_monitor_MAX_QUEUE" and "app_inv lv (app s)"
  shows "app_inv lv (app s') \<and> bit (pcf8574_write_data (app s')) 0 = (st \<noteq> IO_ON)
     \<and> length (queue (app s')) = Suc (length (queue (app s)))"
proof -
  obtain a where a: "same_io s a" "same_io (a\<lparr>app := pcf8574_write_io OUTPUT_BEEP st (app a)\<rparr>) s'"
    using assms(1) by (auto simp: asks_def)
  have q: "length (queue (app a)) < i2c_monitor_MAX_QUEUE" using same_ioD(2) [OF a(1)] assms(2) by simp
  have "app_inv lv (app a)" by (rule same_ioD(3) [OF a(1) assms(3)])
  then have "app_inv lv (pcf8574_write_io OUTPUT_BEEP st (app a))"
    using q by (intro write_io_inv) (auto simp: app_inv_def)
  then have "app_inv lv (app s')" using same_ioD(3) [OF a(2)] by simp
  moreover have "bit (pcf8574_write_data (pcf8574_write_io OUTPUT_BEEP st (app a))) 0 = (st \<noteq> IO_ON)"
    by (simp add: pcf8574_write_io_def trigger_def Let_def set_field_bit OUTPUT_BEEP_def)
  moreover have "length (queue (pcf8574_write_io OUTPUT_BEEP st (app a))) = Suc (length (queue (app s)))"
    using q same_ioD(2) [OF a(1)] by (simp add: write_io_queue)
  ultimately show ?thesis using same_ioD(1,2) [OF a(2)] by simp
qed

text \<open>Rounds of the I2C task in which no read of the expander is due, which could change the beeper by itself.\<close>

definition no_read :: "app_world \<Rightarrow> bool" where
  "no_read a \<longleftrightarrow> (\<forall>ev \<in> set (queue a). ev_id ev \<noteq> I2C_EVENT_IO_CHIP_READ)"

lemma no_read_round:
  assumes "no_read a"
  shows "no_read (i2c_monitor_run lv a) \<and> pcf8574_write_data (i2c_monitor_run lv a) = pcf8574_write_data a"
proof (cases "queue a")
  case (Cons ev q)
  then have ev: "ev_id ev \<noteq> I2C_EVENT_IO_CHIP_READ" using assms by (simp add: no_read_def)
  then have "queue (i2c_monitor_run lv a) = q"
    using serve_queue [of lv ev "a\<lparr>queue := q\<rparr>"] Cons by (simp add: i2c_monitor_run_def)
  moreover have "pcf8574_write_data (serve lv ev w) = pcf8574_write_data w" for w
    using ev by (simp add: serve_def registerIODelayTimeTrigger_def removeIODelayTimeTrigger_def split_beta Let_def)
  ultimately show ?thesis using assms Cons by (simp add: no_read_def i2c_monitor_run_def)
qed (use assms in \<open>simp add: i2c_monitor_run_def\<close>)

lemma no_read_rounds:
  "no_read a \<Longrightarrow> no_read (app_run lv (replicate n Round) a)
     \<and> pcf8574_write_data (app_run lv (replicate n Round) a) = pcf8574_write_data a"
proof (induction n arbitrary: a)
  case (Suc n)
  from Suc.IH [OF conjunct1 [OF no_read_round [OF Suc.prems, of lv]]] no_read_round [OF Suc.prems, of lv]
  show ?case by simp
qed simp

lemma served:
  assumes "app_inv lv a" and "no_read a" and "length (queue a) \<le> n" and "a' = app_run lv (replicate n Round) a"
  shows "app_inv lv a' \<and> queue a' = [] \<and> pcf_outputs (bus_syms (bus a')) = pcf8574_write_data a
     \<and> pcf8574_write_data a' = pcf8574_write_data a"
proof -
  have "work a = sum_list (map (\<lambda>_. 1) (queue a))"
    unfolding work_def by (rule arg_cong [where f = sum_list], rule map_cong) (use assms(2) in \<open>auto simp: no_read_def\<close>)
  then have work: "work a \<le> n" using assms(3) by (simp add: sum_list_triv)
  from no_read_rounds [OF assms(2)] have d: "pcf8574_write_data a' = pcf8574_write_data a" unfolding assms(4) by blast
  have inv: "app_inv lv a'" unfolding assms(4) by (rule app_run_inv [OF assms(1) rounds_heard])
  have q: "queue a' = []" unfolding assms(4) by (rule rounds_serve_all [OF work])
  have "pcf_outputs (bus_syms (bus a')) = pcf8574_write_data a'" using inv q by (simp add: app_inv_def)
  then show ?thesis using d inv q by simp
qed

lemma asks_no_read: "asks st s s' \<Longrightarrow> no_read (app s) \<Longrightarrow> no_read (app s')"
  unfolding asks_def no_read_def
  by (auto simp: same_ioD(2) write_io_queue write_event_def I2C_EVENT_IO_CHIP_READ_def I2C_EVENT_IO_CHIP_WRITE_def
      split: if_splits)

lemma press_or_release:
  assumes "app_inv lv (app s)" and "no_read (app s)" and "length (queue (app s)) < i2c_monitor_MAX_QUEUE"
    and "asks st s s'" and "length (queue (app s')) \<le> n" and "a = app_run lv (replicate n Round) (app s')"
  shows "app_inv lv a \<and> queue a = [] \<and> no_read a \<and> bit (pcf_outputs (bus_syms (bus a))) 0 = (st \<noteq> IO_ON)"
proof -
  note e = asks_effect [OF assms(4,3,1)]
  have "app_inv lv a \<and> queue a = [] \<and> pcf_outputs (bus_syms (bus a)) = pcf8574_write_data (app s')
     \<and> pcf8574_write_data a = pcf8574_write_data (app s')"
    by (rule served [OF conjunct1 [OF e] asks_no_read [OF assms(4,2)] assms(5,6)])
  then show ?thesis using e by (simp add: no_read_def)
qed

text \<open>The first round sets the manager up.\<close>

lemma init_button_simps [simp]:
  "btns (init_button inp a i m) k = (if k = a then button_init (\<lambda>_. fst (read_button_GPIO inp i (io m))) 0 i else btns m k)"
  "io (init_button inp a i m) = snd (read_button_GPIO inp i (io m))"
  "key_first_run (init_button inp a i m) = key_first_run m" "head_handle (init_button inp a i m) = head_handle m"
  by (simp_all add: init_button_def split_beta)

lemma attach_button_simps [simp]:
  "ev \<notin> {number_of_event, NONE_PRESS}
     \<Longrightarrow> btns (attach_button a ev f m) k = (if k = a then cb_update (\<lambda>c. c(ev := Some f)) (btns m k) else btns m k)"
  "io (attach_button a ev f m) = io m"
  "key_first_run (attach_button a ev f m) = key_first_run m" "head_handle (attach_button a ev f m) = head_handle m"
  by (simp_all add: attach_button_def button_attach_def)

lemma start_button_simps [simp]:
  "btns (start_button a m) = btns m" "io (start_button a m) = io m" "key_first_run (start_button a m) = key_first_run m"
  "head_handle (start_button a m) = (if a \<in> set (head_handle m) then head_handle m else a # head_handle m)"
  by (simp_all add: start_button_def button_start_def)

lemma first_run_ready:
  assumes "keys_up inp" and "head_handle m = []"
  shows "ready (first_run inp m) \<and> btn0_at {0} 1 0 (btns (first_run inp m) 0) \<and> same_io (io m) (io (first_run inp m))"
proof -
  define s1 where "s1 = snd (read_button_GPIO inp 0 (io m))"
  define s2 where "s2 = snd (read_button_GPIO inp 1 s1)"
  define s3 where "s3 = snd (read_button_GPIO inp 2 s2)"
  define s4 where "s4 = snd (read_button_GPIO inp 3 s3)"
  have s: "same_io (io m) s1" "same_io s1 s2" "same_io s2 s3" "same_io s3 s4"
    by (simp_all add: s1_def s2_def s3_def s4_def same_io_read)
  have "fst (read_button_GPIO inp 0 (io m)) = 1" "fst (read_button_GPIO inp 1 s1) = 1"
    using read_keys(2) [of inp "io m"] read_keys(3) [of inp s1] assms(1) by blast+
  note r = this
  let ?m = "first_run inp m"
  have f: "key_first_run ?m = 1" "head_handle ?m = [2, 1, 0]" "io ?m = s4"
    by (simp_all add: first_run_def assms(2) btn0_id_def btn1_id_def btn2_id_def btn3_id_def s1_def s2_def s3_def s4_def Let_def)
  have b: "btns ?m 0 = (button_init (\<lambda>_. 1) 0 0)\<lparr>cb := btn0_cb\<rparr>"
    "btns ?m 1 = (button_init (\<lambda>_. 1) 0 1)\<lparr>cb := (\<lambda>_. None)(PRESS_DOWN := Some BTN1_PRESS_Handler, PRESS_UP := Some BTN1_PRESS_Handler)\<rparr>"
    "cb (btns ?m 2) = (\<lambda>_. None)(PRESS_DOWN := Some BTN2_PRESS_Handler, PRESS_UP := Some BTN2_PRESS_Handler)"
    using r
    by (simp_all add: first_run_def btn0_cb_def button_init_def btn0_id_def btn1_id_def btn2_id_def btn3_id_def s1_def Let_def)
  have "same_io (io m) (io ?m)" unfolding f by (rule same_io_trans [OF same_io_trans [OF s(1,2)] same_io_trans [OF s(3,4)]])
  moreover have "cb (btns ?m 2) e \<noteq> Some BTN0_PRESS_Handler" for e unfolding b by simp
  moreover have "at_rest (btns ?m 1)" "button_id (btns ?m 1) = 1" unfolding b by (simp_all add: at_rest_def button_init_def)
  moreover have "btn0_at {0} 1 0 (btns ?m 0)" unfolding b by (simp add: btn0_at_def button_init_def)
  ultimately show ?thesis using f by (simp add: ready_def)
qed

text \<open>
  C7. From the key to the wire: the buttons are set up and at rest, the devices on the I2C bus
  acknowledge, and the queue of the I2C task has a free place and holds no read of the expander
  (which would switch the beeper by the proximity). When key 0 then reads low for at least three
  rounds of key_motion (60 ms) while key 1 is up, and the I2C task serves its queue, the beeper's
  output of the port expander is low, whatever the other inputs of the rounds are; after at least
  three rounds with both keys up, and the task served again, it is high.
\<close>

theorem key0_switches_beeper:
  assumes "ready m" and "btn0_at {0} 1 0 (btns m 0)"
    and "app_inv lv (app (io m))" and "no_read (app (io m))" and "length (queue (app (io m))) < i2c_monitor_MAX_QUEUE"
    and "\<forall>inp \<in> set downs. key0_down inp" and "3 \<le> length downs"
    and "m1 = fold key_motion downs m" and "a1 = app_run lv (replicate i2c_monitor_MAX_QUEUE Round) (app (io m1))"
    and "\<forall>inp \<in> set ups. keys_up inp" and "3 \<le> length ups"
    and "m2 = fold key_motion ups (m1\<lparr>io := (io m1)\<lparr>app := a1\<rparr>\<rparr>)"
    and "a2 = app_run lv (replicate i2c_monitor_MAX_QUEUE Round) (app (io m2))"
  shows "\<not> bit (pcf_outputs (bus_syms (bus a1))) 0 \<and> bit (pcf_outputs (bus_syms (bus a2))) 0"
proof -
  have p: "\<forall>inp \<in> set downs. input_of True inp" "\<forall>inp \<in> set ups. input_of False inp"
    using assms(6,10) by (simp_all add: input_of_def)
  let ?m = "m1\<lparr>io := (io m1)\<lparr>app := a1\<rparr>\<rparr>"
  have 1: "ready m1 \<and> btn0_at {1, 5} 0 0 (btns m1 0) \<and> asks IO_ON (io m) (io m1)"
    using three_rounds [OF assms(1,2) p(1) assms(7) refl, of "{1, 5}" 0] btn0_press_steps unfolding assms(8) by simp
  then have r: "ready ?m" "btn0_at {1, 5} 0 0 (btns ?m 0)" and k1: "asks IO_ON (io m) (io m1)" by (simp_all add: ready_def)
  have 2: "asks IO_OFF (io ?m) (io m2)"
    using three_rounds [OF r p(2) assms(11) refl, of "{0, 2}" 1] btn0_release_steps unfolding assms(12) by simp
  have "length (queue (app (io m1))) \<le> i2c_monitor_MAX_QUEUE"
    using asks_effect [OF k1 assms(5,3)] assms(5) by simp
  note e1 = press_or_release [OF assms(3,4,5) k1 this assms(9)]
  have a: "app_inv lv (app (io ?m))" "no_read (app (io ?m))" "length (queue (app (io ?m))) < i2c_monitor_MAX_QUEUE"
    using e1 by (simp_all add: i2c_monitor_MAX_QUEUE_def)
  have "length (queue (app (io m2))) \<le> i2c_monitor_MAX_QUEUE" using asks_effect [OF 2 a(3,1)] a(3) by simp
  note e2 = press_or_release [OF a 2 this assms(13)]
  show ?thesis using e1 e2 by (simp add: IO_ON_def IO_OFF_def)
qed

text \<open>After the start, four rounds with the key down and three with it up.\<close>

definition example_time :: RTC_TimeTypeDef where
  "example_time = \<lparr>Hours = 0, Minutes = 0, Seconds = 0, TimeFormat = 0, SubSeconds = 0, SecondFraction = 0,
                   DayLightSaving = 0, StoreOperation = 0\<rparr>"

definition example_date :: RTC_DateTypeDef where
  "example_date = \<lparr>WeekDay = 0, Month = 0, Date = 0, Year = 0\<rparr>"

definition example_in :: "bool \<Rightarrow> unit mon_in" where
  "example_in key0 =
     \<lparr>pins = (\<lambda>h port pin. \<not> (port = KEY0_PORT \<and> pin = KEY0_PIN \<and> key0)), unassigned = False, tpad_key = 0, tpad_no_push = 0,
      tpad_current = 0, random = None, crc_unit = (\<lambda>_. 0), now_time = example_time, now_date = example_date, pulses = 0,
      minus_tenth = (\<lambda>p. p), below_half = (\<lambda>_. False), hundred_percent = ()\<rparr>"

definition example_start :: "app_world \<Rightarrow> unit monitor_manage" where
  "example_start a =
     \<lparr>key_last = [], key_now = [], tick = [], btns = (\<lambda>_. button_init (\<lambda>_. 0) 0 0), head_handle = [], key_first_run = 0,
      last_second = 0, timer_loop = 0, adc_loop = 0, task_loop = 0,
      io = \<lparr>app = a,
            clock = \<lparr>rtc_info = \<lparr>rtc_time = example_time, rtc_date = example_date\<rparr>,
                     rtc_arm_handler = \<lparr>AlarmTime = example_time, AlarmMask = 0, AlarmSubSecondMask = 0,
                       AlarmDateWeekDaySel = 0, AlarmDateWeekDay = 0, Alarm = 0\<rparr>,
                     is_alarm = 0, rtc_hist = []\<rparr>,
            calls = [], precent = (), per_second = 0\<rparr>\<rparr>"

lemma example_inputs: "key0_down (example_in True)" "keys_up (example_in False)"
  by (simp_all add: key0_down_def keys_up_def example_in_def KEY0_PORT_def KEY0_PIN_def KEY1_PORT_def KEY1_PIN_def
      GPIO_PIN_2_def GPIO_PIN_3_def)

lemma app_start_inv: "app_inv (ack_device board_i2c_info) (app_world0\<lparr>bus := snd (pcf8574_driver_init i2c_world0)\<rparr>)"
proof -
  have "on_bus (snd (pcf8574_driver_init i2c_world0))" "bus_inv (snd (pcf8574_driver_init i2c_world0))"
    "bus_syms (snd (pcf8574_driver_init i2c_world0)) = []"
    using pcf8574_init_bus [OF bus_inv0 surjective_pairing] by (simp_all add: i2c_world0_def monitor0_def)
  then show ?thesis
    using ack_device_acknowledges by (simp add: app_inv_def bus_ok_def app_world0_def pcf_outputs_def pcf_chip0_def)
qed

theorem key0_switches_beeper_witness:
  "let lv = ack_device board_i2c_info;
       a = app_world0\<lparr>bus := snd (pcf8574_driver_init i2c_world0)\<rparr>;
       m1 = fold key_motion (replicate 4 (example_in True)) (first_run (example_in False) (example_start a));
       a1 = app_run lv (replicate i2c_monitor_MAX_QUEUE Round) (app (io m1));
       m2 = fold key_motion (replicate 3 (example_in False)) (m1\<lparr>io := (io m1)\<lparr>app := a1\<rparr>\<rparr>);
       a2 = app_run lv (replicate i2c_monitor_MAX_QUEUE Round) (app (io m2))
   in \<not> bit (pcf_outputs (bus_syms (bus a1))) 0 \<and> bit (pcf_outputs (bus_syms (bus a2))) 0"
proof -
  let ?a = "app_world0\<lparr>bus := snd (pcf8574_driver_init i2c_world0)\<rparr>"
  let ?m = "first_run (example_in False) (example_start ?a)"
  have f: "ready ?m \<and> btn0_at {0} 1 0 (btns ?m 0) \<and> same_io (io (example_start ?a)) (io ?m)"
    by (rule first_run_ready) (simp_all add: example_inputs example_start_def)
  have "app (io (example_start ?a)) = ?a" by (simp add: example_start_def)
  then have a: "app_inv (ack_device board_i2c_info) (app (io ?m))" "queue (app (io ?m)) = []"
    using f app_start_inv same_ioD(2,3) [of "io (example_start ?a)" "io ?m"] by (simp_all add: app_world0_def)
  then have q: "no_read (app (io ?m))" "length (queue (app (io ?m))) < i2c_monitor_MAX_QUEUE"
    by (simp_all add: no_read_def i2c_monitor_MAX_QUEUE_def)
  have i: "\<forall>inp \<in> set (replicate 4 (example_in True)). key0_down inp" "3 \<le> length (replicate 4 (example_in True))"
    "\<forall>inp \<in> set (replicate 3 (example_in False)). keys_up inp" "3 \<le> length (replicate 3 (example_in False))"
    by (simp_all add: example_inputs)
  show ?thesis
    unfolding Let_def
    by (rule key0_switches_beeper [OF _ _ a(1) q i(1,2) refl refl i(3,4) refl refl]) (use f in auto)
qed

text \<open>A release of the first key while the second is active is not seen: the beeper stays on.\<close>

lemma key0_release_ignored: "is_button_active (bs 1) \<Longrightarrow> handler_call inp BTN0_PRESS_Handler i bs s = s"
  by (simp add: Let_def)

section \<open>Debouncing of the touch pad and the key on the expander\<close>

text \<open>
  Equal readings that deviate from the state change it when the tick exceeds the limit. While a key is
  stable the tick is set to its state, 0 when it is on and 1 when it is off: four readings switch a key
  on that has been off, five switch it off.
\<close>

fun shake_run :: "KEY_STATE list \<Rightarrow> u8 \<times> KEY_STATE \<Rightarrow> u8 \<times> KEY_STATE" where
  "shake_run [] k = k"
| "shake_run (r # rs) (t, st) = shake_run rs (anti_shake t st r)"

lemma shake_stable: "shake_run (replicate (Suc n) v) (t, v) = (if v = KEY_ON then 0 else 1, v)"
proof (induction n arbitrary: t)
  case 0
  then show ?case by (cases v) (simp_all add: anti_shake_def KEY_ON_def KEY_OFF_def)
next
  case (Suc n)
  obtain t' where "anti_shake t v v = (t', v)" by (cases v) (simp_all add: anti_shake_def KEY_ON_def KEY_OFF_def)
  then show ?case using Suc [of t'] by simp
qed

lemma shake_step:
  "t \<le> 3 \<Longrightarrow> anti_shake (of_nat t) v (\<not> v) = (of_nat (Suc t), v)" "anti_shake 4 v (\<not> v) = (0, \<not> v)"
proof -
  assume "t \<le> 3"
  then have "unat (of_nat t + 1 :: u8) = Suc t" by (simp add: unat_word_ariths unat_of_nat)
  then show "anti_shake (of_nat t) v (\<not> v) = (of_nat (Suc t), v)"
    using \<open>t \<le> 3\<close> by (cases v) (simp_all add: anti_shake_def KEY_ON_def KEY_OFF_def ANTI_SHAKE_TICK_def)
qed (cases v; simp add: anti_shake_def KEY_ON_def KEY_OFF_def ANTI_SHAKE_TICK_def)

lemma shake_deviates: "t + n \<le> 4 \<Longrightarrow> shake_run (replicate n (\<not> v) @ rs) (of_nat t, v) = shake_run rs (of_nat (t + n), v)"
proof (induction n arbitrary: t)
  case (Suc n)
  then have "anti_shake (of_nat t) v (\<not> v) = (of_nat (Suc t), v)" by (intro shake_step) simp
  then show ?case using Suc.IH [of "Suc t"] Suc.prems by simp
qed simp

lemma shake_after:
  assumes "t \<le> 4"
  shows "snd (shake_run (replicate n (\<not> v)) (of_nat t, v)) = (if t + n \<le> 4 then v else \<not> v)"
proof (cases "t + n \<le> 4")
  case True
  then show ?thesis using shake_deviates [of t n v "[]"] by simp
next
  case False
  define k where "k = n - (4 - t) - 1"
  have "replicate n (\<not> v) = replicate (4 - t) (\<not> v) @ (\<not> v) # replicate k (\<not> v)"
    using False assms by (simp add: k_def flip: replicate_Suc replicate_add)
  then have "shake_run (replicate n (\<not> v)) (of_nat t, v) = shake_run (replicate k (\<not> v)) (0, \<not> v)"
    using shake_deviates [of t "4 - t" v "(\<not> v) # replicate k (\<not> v)"] assms shake_step(2) [of v] by simp
  moreover have "snd (shake_run (replicate k (\<not> v)) (0, \<not> v)) = (\<not> v)"
    using shake_stable [of _ "\<not> v" 0] by (cases k) simp_all
  ultimately show ?thesis using False by simp
qed

text \<open>Switching on takes four readings after a stable one, switching off five.\<close>

lemma shake_switches:
  "snd (shake_run (KEY_OFF # replicate n KEY_ON) (t, KEY_OFF)) = (if n < 4 then KEY_OFF else KEY_ON)"
  "snd (shake_run (KEY_ON # replicate n KEY_OFF) (t, KEY_ON)) = (if n < 5 then KEY_ON else KEY_OFF)"
  using shake_after [of 1 n True] shake_after [of 0 n False]
  by (simp_all add: anti_shake_def KEY_ON_def KEY_OFF_def)

text \<open>The text of the clock fits its buffer of 60 bytes.\<close>

lemma clock_text_fits: "length (clock_text i) < 60"
  using length_dec2 [of "Year (rtc_date i)"] length_dec2 [of "Month (rtc_date i)"] length_dec2 [of "Date (rtc_date i)"]
    length_dec2 [of "Hours (rtc_time i)"] length_dec2 [of "Minutes (rtc_time i)"] length_dec2 [of "Seconds (rtc_time i)"]
  by (simp add: clock_text_def str_bytes_def Let_def)

section \<open>Elapsed time\<close>

text \<open>
  The test for an elapsed time is right for times up to 65535 ticks, as long as it is asked less than
  about 2^32 - 65535 ticks after the start; the counter may wrap around in between.
\<close>

lemma is_time_escape_correct:
  assumes "0 < time" and "time \<le> 65535" and "e + 65535 < 2 ^ 32 + time"
  shows "is_time_escape (t0 + of_nat e) t0 (of_nat time) \<longleftrightarrow> time \<le> e"
proof -
  let ?t = "unat t0"
  have t: "?t < 2 ^ 32" using unsigned_less [of t0] by simp
  have stop: "unat (t0 + of_nat time) = (?t + time) mod 2 ^ 32" using assms(2) by (simp add: unat_word_ariths unat_of_nat)
  have now: "unat (t0 + of_nat e) = (?t + e) mod 2 ^ 32" using assms(2,3) by (simp add: unat_word_ariths unat_of_nat)
  have sub: "b < a \<Longrightarrow> unat (a - b) = unat a - unat b" for a b :: u32 by (rule unat_sub) (rule less_imp_le)
  have e: "e < 2 ^ 32" using assms(2,3) by simp
  show ?thesis
  proof (cases "?t + time < 2 ^ 32")
    case True
    then have s: "unat (t0 + of_nat time) = ?t + time" using stop by simp
    then have gt: "t0 + of_nat time > t0" using assms(1) by (simp add: word_less_nat_alt)
    show ?thesis
    proof (cases "?t + e < 2 ^ 32")
      case True
      then have n: "unat (t0 + of_nat e) = ?t + e" using now by simp
      have "unat (t0 + of_nat time - (t0 + of_nat e)) \<le> 65535" if "t0 + of_nat e < t0 + of_nat time"
        using sub [OF that] s n assms(2) by simp
      then show ?thesis using gt s n by (auto simp: is_time_escape_def Let_def word_less_nat_alt word_le_nat_alt)
    next
      case False
      then have n: "unat (t0 + of_nat e) = ?t + e - 2 ^ 32" using now e t by (simp add: le_mod_geq)
      have "?t + e - 2 ^ 32 < ?t + time" using e False assms(1) by linarith
      then have lt: "t0 + of_nat e < t0 + of_nat time" unfolding word_less_nat_alt s n .
      have "unat (t0 + of_nat time - (t0 + of_nat e)) > 65535" using sub [OF lt] s n assms(3) False by linarith
      then show ?thesis using gt lt False True by (simp add: is_time_escape_def Let_def word_less_nat_alt)
    qed
  next
    case False
    then have s: "unat (t0 + of_nat time) = ?t + time - 2 ^ 32" using stop assms(2) t by (simp add: le_mod_geq)
    then have gt: "\<not> t0 + of_nat time > t0" using assms(2) False by (simp add: word_less_nat_alt)
    show ?thesis
    proof (cases "?t + e < 2 ^ 32")
      case True
      then have "unat (t0 + of_nat e) = ?t + e" using now by simp
      then show ?thesis using gt True False by (simp add: is_time_escape_def Let_def word_less_nat_alt)
    next
      case False
      then have "unat (t0 + of_nat e) = ?t + e - 2 ^ 32" using now e t by (simp add: le_mod_geq)
      then show ?thesis using gt s e False \<open>\<not> ?t + time < 2 ^ 32\<close>
        by (simp add: is_time_escape_def Let_def word_less_nat_alt word_le_nat_alt) linarith
    qed
  qed
qed

end
