(* ===== verification/Application.thy ===== *)
theory Application
  imports Monitor
begin

text \<open>
  The start of the program outside the drivers: the clock tree (\<^verbatim>\<open>SystemClock_Config\<close> in \<^verbatim>\<open>Core/Src/main.c\<close>),
  the start of the application (\<^verbatim>\<open>Application/Src/application.cpp\<close>) and the task that resets the Ethernet
  chip and blinks the LED (\<^verbatim>\<open>Application/Src/schedular.cpp\<close>).
\<close>

section \<open>The clock tree\<close>

text \<open>Oscillators are named by the sets of the HAL's flags; the dividers are numbers.\<close>

datatype oscillator = HSE | LSE | LSI

record RCC_PLLInitTypeDef =
  PLLState :: bool
  PLLSource :: oscillator
  PLLM :: nat
  PLLN :: nat
  PLLP :: nat
  PLLQ :: nat

record RCC_OscInitTypeDef =
  OscillatorType :: "oscillator set"
  HSEState :: bool
  LSEState :: bool
  LSIState :: bool
  PLL :: RCC_PLLInitTypeDef

record RCC_ClkInitTypeDef =
  SYSCLKSource_PLL :: bool
  AHBCLKDivider :: nat
  APB1CLKDivider :: nat
  APB2CLKDivider :: nat

datatype clock_event =
    Pwr_Clock
  | Voltage_Scale1
  | Osc_Config RCC_OscInitTypeDef
  | Over_Drive
  | Clock_Config RCC_ClkInitTypeDef nat

definition system_osc :: RCC_OscInitTypeDef where
  "system_osc = \<lparr>OscillatorType = {LSI, HSE, LSE}, HSEState = True, LSEState = True, LSIState = True,
     PLL = \<lparr>PLLState = True, PLLSource = HSE, PLLM = 25, PLLN = 360, PLLP = 2, PLLQ = 8\<rparr>\<rparr>"

definition system_clk :: RCC_ClkInitTypeDef where
  "system_clk = \<lparr>SYSCLKSource_PLL = True, AHBCLKDivider = 1, APB1CLKDivider = 4, APB2CLKDivider = 2\<rparr>"

text \<open>The result is a \<open>GlobalType_t\<close> in the code, whose value for an error is that of \<open>pdPASS\<close>.\<close>

definition SystemClock_Config ::
  "HAL_StatusTypeDef \<Rightarrow> HAL_StatusTypeDef \<Rightarrow> HAL_StatusTypeDef \<Rightarrow> clock_event list \<Rightarrow> BaseType_t \<times> clock_event list" where
  "SystemClock_Config osc drive clk h =
     (let h = Voltage_Scale1 # Pwr_Clock # h;
          h = Osc_Config system_osc # h
      in if osc \<noteq> HAL_OK then (pdFAIL, h)
         else
           let h = Over_Drive # h
           in if drive \<noteq> HAL_OK then (pdFAIL, h)
              else
                let h = Clock_Config system_clk 5 # h
                in if clk \<noteq> HAL_OK then (pdFAIL, h) else (pdPASS, h))"

text \<open>The frequencies, from a crystal of 25 MHz: those the comments state, all within the chip's limits.\<close>

definition HSE_VALUE :: nat where "HSE_VALUE = 25000000"

definition pll_clock :: "RCC_PLLInitTypeDef \<Rightarrow> nat" where
  "pll_clock p = HSE_VALUE div PLLM p * PLLN p div PLLP p"

lemma clock_tree:
  "pll_clock (PLL system_osc) = 180000000"
  "pll_clock (PLL system_osc) div AHBCLKDivider system_clk div APB1CLKDivider system_clk = 45000000"
  "pll_clock (PLL system_osc) div AHBCLKDivider system_clk div APB2CLKDivider system_clk = 90000000"
  "HSE_VALUE div PLLM (PLL system_osc) * PLLN (PLL system_osc) div PLLQ (PLL system_osc) = 45000000"
  by (simp_all add: pll_clock_def system_osc_def system_clk_def HSE_VALUE_def)

section \<open>The application\<close>

text \<open>
  The result of the timer manager is combined with a variable that has no value yet, and overwritten by
  the next assignment.
\<close>

definition application_init :: "BaseType_t \<Rightarrow> BaseType_t \<Rightarrow> bool \<Rightarrow> BaseType_t \<Rightarrow> BaseType_t \<Rightarrow> bool \<Rightarrow> BaseType_t" where
  "application_init unset timer schedular_ok monitor i2c logs_ok =
     (let xReturn = unset AND timer;
          xReturn = (if schedular_ok then 1 else 0);
          xReturn = xReturn AND monitor;
          xReturn = xReturn AND i2c
      in if \<not> logs_ok then pdFAIL else xReturn)"

definition schedular_init :: "BaseType_t \<Rightarrow> bool" where
  "schedular_init task = (if task = pdPASS then True else False)"

lemma application_init_ignores_timer: "application_init u t s m i l = application_init u' t' s m i l"
  by (simp add: application_init_def)

section \<open>The task with the LED\<close>

text \<open>
  The reset of the Ethernet chip; \<open>other\<close> is what the rest of the system does while the task sleeps.
\<close>

definition ETH_Reset :: "(nat \<Rightarrow> app_world \<Rightarrow> app_world) \<Rightarrow> app_world \<Rightarrow> app_world" where
  "ETH_Reset other w =
     (let w = pcf8574_write_io OUTPUT_ETH_RESET IO_OFF w;
          w = other 200 w;
          w = pcf8574_write_io OUTPUT_ETH_RESET IO_ON w
      in other 200 w)"

text \<open>One round of the task's loop, on the history of the pins, which the I2C bus keeps.\<close>

definition emit_pin :: "bool \<Rightarrow> app_world \<Rightarrow> app_world" where
  "emit_pin b w = w\<lparr>bus := (bus w)\<lparr>hist := HAL_GPIO_WritePin GPIOB GPIO_PIN_0 b (hist (bus w))\<rparr>\<rparr>"

definition schedular_round :: "(nat \<Rightarrow> app_world \<Rightarrow> app_world) \<Rightarrow> app_world \<Rightarrow> app_world" where
  "schedular_round other w =
     (let w = emit_pin False w;
          w = other 200 w;
          w = emit_pin True w
      in other 200 w)"

lemma schedular_round_inv:
  assumes "\<And>n w. app_inv lv w \<Longrightarrow> app_inv lv (other n w)" and "app_inv lv w"
  shows "app_inv lv (schedular_round other w)"
proof -
  have e: "app_inv lv (emit_pin b w) = app_inv lv w" for b w
    unfolding emit_pin_def by (rule same_mon_inv) (simp add: hw_defs board_i2c_info_def is_scl_def is_sda_def)
  show ?thesis using assms by (simp add: schedular_round_def e Let_def)
qed

text \<open>
  While the task sleeps the I2C task serves its queue: the reset line of the Ethernet chip is high for
  the first 200 ms and low afterwards.
\<close>

lemma eth_reset_line:
  assumes "app_inv lv w" and "queue w = []" and "other = (\<lambda>n. app_run lv (replicate n Round))"
    and "w1 = other 200 (pcf8574_write_io OUTPUT_ETH_RESET IO_OFF w)"
  shows "bit (pcf_outputs (bus_syms (bus w1))) 7 \<and> \<not> bit (pcf_outputs (bus_syms (bus (ETH_Reset other w)))) 7"
proof -
  have step: "app_inv lv v' \<and> queue v' = [] \<and> bit (pcf_outputs (bus_syms (bus v'))) 7 = (st \<noteq> IO_ON)"
    if "app_inv lv v" "queue v = []" "v' = other 200 (pcf8574_write_io OUTPUT_ETH_RESET st v)" for v v' st
  proof -
    let ?u = "pcf8574_write_io OUTPUT_ETH_RESET st v"
    have q: "queue ?u = [write_event]" using that(2) by (simp add: write_io_queue i2c_monitor_MAX_QUEUE_def)
    have "app_inv lv ?u" using that(1,2) by (intro write_io_inv) (auto simp: app_inv_def i2c_monitor_MAX_QUEUE_def)
    moreover have "no_read ?u"
      by (simp add: no_read_def q write_event_def I2C_EVENT_IO_CHIP_READ_def I2C_EVENT_IO_CHIP_WRITE_def)
    ultimately have "app_inv lv v' \<and> queue v' = [] \<and> pcf_outputs (bus_syms (bus v')) = pcf8574_write_data ?u
        \<and> pcf8574_write_data v' = pcf8574_write_data ?u"
      by (rule served [where n = 200]) (simp_all add: q that(3) assms(3))
    then show ?thesis using write_io_bit [of 7 OUTPUT_ETH_RESET st v] by (simp add: OUTPUT_ETH_RESET_def level_after_def)
  qed
  note 1 = step [OF assms(1,2,4)]
  have "ETH_Reset other w = other 200 (pcf8574_write_io OUTPUT_ETH_RESET IO_ON w1)" by (simp add: ETH_Reset_def assms(4))
  from step [OF _ _ this] 1 show ?thesis by (simp add: IO_ON_def IO_OFF_def)
qed

section \<open>The test of the file system\<close>

text \<open>
  \<open>fatfs_app\<close>, which \<open>application_init\<close> has commented out. A history records the calls of FatFS and the
  messages, the most recent first; what FatFS answers is a parameter: a result code and, for a read, the
  bytes read. \<open>Drive_Mount True\<close> registers the local file system object, \<open>Drive_Mount False\<close> removes it.
\<close>

datatype app_file_call =
    Drive_Mount bool
  | Drive_Format
  | File_Open
  | File_Read nat
  | File_Close
  | App_Message string u8
  | App_Text "u8 list"

type_synonym app_file_answers = "app_file_call list \<Rightarrow> app_file_call \<Rightarrow> u8 \<times> u8 list"

definition app_file_ask :: "app_file_answers \<Rightarrow> app_file_call \<Rightarrow> app_file_call list \<Rightarrow> u8 \<times> app_file_call list" where
  "app_file_ask ff q h = (fst (ff h q), q # h)"

text \<open>From the label \<^verbatim>\<open>__mount\<close> on; the result of \<^verbatim>\<open>f_read\<close> is not looked at.\<close>

definition fatfs_app_mounted :: "app_file_answers \<Rightarrow> app_file_call list \<Rightarrow> app_file_call list" where
  "fatfs_app_mounted ff h =
     (let (res, h) = app_file_ask ff File_Open h;
          h = (if res \<noteq> 0 then App_Message ''f_mount open failed!'' 0 # h
               else
                 let bytes = snd (ff h (File_Read 64));
                     h = File_Read 64 # h;
                     h = (if length bytes \<noteq> 0 then App_Text bytes # h else h)
                 in File_Close # h)
      in Drive_Mount False # h)"

definition fatfs_app :: "app_file_answers \<Rightarrow> app_file_call list \<Rightarrow> app_file_call list" where
  "fatfs_app ff h =
     (let (res, h) = app_file_ask ff (Drive_Mount True) h
      in if res = 0 then fatfs_app_mounted ff h
         else
           let (res, h) = app_file_ask ff Drive_Format h
           in if res = 0 then
                let (res, h) = app_file_ask ff (Drive_Mount True) h
                in if res = 0 then fatfs_app_mounted ff h else App_Message ''f_mount failed:%d'' res # h
              else App_Message ''f_mkfs failed:%d'' res # h)"

text \<open>The calls that concern open files and the registered object, the oldest first.\<close>

definition held_calls :: "app_file_call list \<Rightarrow> app_file_call list" where
  "held_calls h = filter (\<lambda>q. q \<in> {Drive_Mount True, Drive_Mount False, File_Open, File_Close}) (rev h)"

text \<open>
  A file that could be opened is closed before the drive is removed. When the drive can be neither mounted
  nor formatted, the function returns without removing its local object, which FatFS keeps registered.
\<close>

lemma fatfs_app_mounts:
  assumes "fst (ff [] (Drive_Mount True)) = 0"
  shows "held_calls (fatfs_app ff []) =
    (if fst (ff [Drive_Mount True] File_Open) = 0 then [Drive_Mount True, File_Open, File_Close, Drive_Mount False]
     else [Drive_Mount True, File_Open, Drive_Mount False])"
  using assms by (simp add: fatfs_app_def fatfs_app_mounted_def app_file_ask_def held_calls_def Let_def)

lemma fatfs_app_leaves_drive:
  assumes "fst (ff [] (Drive_Mount True)) \<noteq> 0"
    and "fst (ff [Drive_Mount True] Drive_Format) \<noteq> 0"
  shows "held_calls (fatfs_app ff []) = [Drive_Mount True]"
  using assms by (simp add: fatfs_app_def app_file_ask_def held_calls_def)

end
