(* ===== verification/Httpd.thy ===== *)
theory Httpd
  imports Prelude
begin

text \<open>
  The web server (\<^verbatim>\<open>UsrParts/web/httpd.c\<close>): a task that accepts a connection, copies what it receives
  into one buffer and hands it to the engine, which is still empty. LwIP's answers are inputs: a received
  buffer is the list of the contents of its chained parts.
\<close>

definition RX_BUFFER_MAX_LEN :: nat where "RX_BUFFER_MAX_LEN = 1600"

record HttpServer_t =
  full_package :: u8
  rx_length :: u8
  rx_buffer :: "u8 list"

definition HttpServer0 :: HttpServer_t where
  "HttpServer0 = \<lparr>full_package = 0, rx_length = 0, rx_buffer = replicate RX_BUFFER_MAX_LEN 0\<rparr>"

text \<open>The task's creation is the only thing that can fail.\<close>

definition http_server_init :: "BaseType_t \<Rightarrow> BaseType_t \<times> HttpServer_t" where
  "http_server_init task = (task, HttpServer0)"

text \<open>Copying into the buffer at \<open>dst\<close>; \<open>None\<close> beyond its end.\<close>

definition copy_at :: "nat \<Rightarrow> u8 list \<Rightarrow> u8 list \<Rightarrow> u8 list option" where
  "copy_at dst src buf =
     (if dst + length src \<le> length buf then Some (take dst buf @ src @ drop (dst + length src) buf) else None)"

text \<open>The loop over the chain; the offset of the destination pointer and \<open>copylen\<close> are the same number as long as it fits 16 bits.\<close>

fun copy_loop :: "u8 list list \<Rightarrow> nat \<Rightarrow> u16 \<Rightarrow> u8 list \<Rightarrow> (u16 \<times> u8 list) option" where
  "copy_loop [] dst copylen buf = Some (copylen, buf)"
| "copy_loop (p # ps) dst copylen buf =
     (if unat copylen < RX_BUFFER_MAX_LEN - 1
      then (case copy_at dst p buf of None \<Rightarrow> None
            | Some buf \<Rightarrow> copy_loop ps (dst + length p) (copylen + of_nat (length p)) buf)
      else Some (copylen, buf))"

definition http_server_engine :: "u8 list \<Rightarrow> u16 \<Rightarrow> HttpServer_t \<Rightarrow> HttpServer_t" where
  "http_server_engine pbuffer len s = s"

definition http_receive :: "u8 list list \<Rightarrow> HttpServer_t \<Rightarrow> HttpServer_t option" where
  "http_receive inbuf s =
     (case copy_loop inbuf 0 0 (rx_buffer s) of None \<Rightarrow> None
      | Some (copylen, buf) \<Rightarrow>
          if unat copylen < RX_BUFFER_MAX_LEN
          then let s = s\<lparr>rx_length := ucast copylen, rx_buffer := buf[unat copylen := 0]\<rparr>
               in Some (http_server_engine (rx_buffer s) (ucast (rx_length s)) s)
          else None)"

text \<open>
  A connection: the results of the calls that receive, \<open>None\<close> for an error. The result says whether the
  loop has been left when they are used up.
\<close>

fun http_connection :: "u8 list list option list \<Rightarrow> HttpServer_t \<Rightarrow> (bool \<times> HttpServer_t) option" where
  "http_connection [] s = Some (False, s)"
| "http_connection (r # rs) s =
     (case (case r of None \<Rightarrow> Some s | Some inbuf \<Rightarrow> http_receive inbuf s) of None \<Rightarrow> None
      | Some s \<Rightarrow> if full_package s = 0 then http_connection rs s else Some (True, s))"

definition http_accept :: "u8 list list option list \<Rightarrow> HttpServer_t \<Rightarrow> (bool \<times> HttpServer_t) option" where
  "http_accept rs s = http_connection rs (s\<lparr>full_package := 0\<rparr>)"

section \<open>What is received\<close>

lemma copy_loop_ok:
  "dst + length (concat ps) \<le> length buf \<Longrightarrow> length buf = RX_BUFFER_MAX_LEN \<Longrightarrow> copylen = of_nat dst
     \<Longrightarrow> dst + length (concat ps) < RX_BUFFER_MAX_LEN
     \<Longrightarrow> copy_loop ps dst copylen buf =
           Some (of_nat (dst + length (concat ps)), take dst buf @ concat ps @ drop (dst + length (concat ps)) buf)"
proof (induction ps arbitrary: dst copylen buf)
  case (Cons p ps)
  show ?case
  proof (cases "dst < RX_BUFFER_MAX_LEN - 1")
    case True
    then have u: "unat (of_nat dst :: u16) < RX_BUFFER_MAX_LEN - 1" using True by (simp add: RX_BUFFER_MAX_LEN_def unat_of_nat)
    have c: "copy_at dst p buf = Some (take dst buf @ p @ drop (dst + length p) buf)"
      using Cons.prems(1) by (simp add: copy_at_def)
    show ?thesis
      using Cons.IH [of "dst + length p" "take dst buf @ p @ drop (dst + length p) buf" "copylen + of_nat (length p)"] Cons.prems
      by (simp add: u [simplified] c min_def ac_simps)
  next
    case False
    have "dst + length p + length (concat ps) < 1600" using Cons.prems(4) by (simp add: RX_BUFFER_MAX_LEN_def)
    then have "dst = 1599" "length p = 0" "length (concat ps) = 0" using False unfolding RX_BUFFER_MAX_LEN_def by linarith+
    then have "dst = 1599" "p = []" "concat ps = []" by (simp_all only: length_0_conv)
    then show ?thesis using Cons.prems by (simp add: RX_BUFFER_MAX_LEN_def unat_of_nat del: concat_eq_Nil_conv)
  qed
qed simp

lemma http_receive_ok:
  assumes "length (rx_buffer s) = RX_BUFFER_MAX_LEN" and "length (concat inbuf) < RX_BUFFER_MAX_LEN"
  shows "\<exists>s'. http_receive inbuf s = Some s' \<and> length (rx_buffer s') = RX_BUFFER_MAX_LEN
     \<and> take (length (concat inbuf)) (rx_buffer s') = concat inbuf \<and> rx_buffer s' ! length (concat inbuf) = 0
     \<and> unat (rx_length s') = length (concat inbuf) mod 256 \<and> full_package s' = full_package s"
proof -
  let ?n = "length (concat inbuf)"
  have n: "unat (of_nat ?n :: u16) = ?n" using assms(2) by (simp add: RX_BUFFER_MAX_LEN_def unat_of_nat)
  have l: "unat (ucast (of_nat ?n :: u16) :: u8) = ?n mod 256" by (simp add: unsigned_ucast_eq take_bit_eq_mod n)
  have c: "copy_loop inbuf 0 0 (rx_buffer s) = Some (of_nat ?n, concat inbuf @ drop ?n (rx_buffer s))"
    using copy_loop_ok [of 0 inbuf "rx_buffer s" 0] assms by simp
  show ?thesis
    using assms by (simp add: http_receive_def c n l http_server_engine_def nth_append)
qed

text \<open>The check in front of a copy does not look at the part that is copied: a large one runs over the buffer.\<close>

lemma http_receive_overruns: "RX_BUFFER_MAX_LEN < length p \<Longrightarrow> length (rx_buffer s) = RX_BUFFER_MAX_LEN
    \<Longrightarrow> http_receive (p # ps) s = None"
  by (simp add: http_receive_def copy_at_def RX_BUFFER_MAX_LEN_def)

text \<open>Nothing sets the flag that ends a connection: the server never comes to a second one.\<close>

lemma http_connection_stays:
  "full_package s = 0 \<Longrightarrow> length (rx_buffer s) = RX_BUFFER_MAX_LEN
     \<Longrightarrow> \<forall>r \<in> set rs. case r of None \<Rightarrow> True | Some inbuf \<Rightarrow> length (concat inbuf) < RX_BUFFER_MAX_LEN
     \<Longrightarrow> \<exists>s'. http_connection rs s = Some (False, s')"
proof (induction rs arbitrary: s)
  case (Cons r rs)
  show ?case
  proof (cases r)
    case None
    then show ?thesis using Cons by simp
  next
    case (Some inbuf)
    then have "length (concat inbuf) < RX_BUFFER_MAX_LEN" using Cons.prems(3) by simp
    then obtain s' where "http_receive inbuf s = Some s'" "length (rx_buffer s') = RX_BUFFER_MAX_LEN" "full_package s' = 0"
      using http_receive_ok [OF Cons.prems(2)] Cons.prems(1) by metis
    then show ?thesis using Cons.IH [of s'] Cons.prems(3) Some by simp
  qed
qed simp

end
