(* ===== verification/Expander_Irq.thy ===== *)
theory Expander_Irq
  imports I2C_Monitor
begin

text \<open>
  The life of an interrupt of the port expander, across the handler, the I2C task and the timer manager
  (\<^verbatim>\<open>drv_i2c_pcf8574.c\<close>, \<^verbatim>\<open>i2c_monitor.cpp\<close>, \<^verbatim>\<open>timer_manage.cpp\<close>). The handler switches the interrupt off and
  queues a request for a delayed read; serving it starts a trigger of five periods; the trigger queues a
  read; serving that reads the expander and switches the interrupt on again. While the interrupt is off
  there is exactly one such request, trigger or read: a token. The theory shows that the token is kept
  and moves on, and what happens when the queue drops it.
\<close>

section \<open>Progress by steps\<close>

text \<open>
  Steps of a system, taken in any order as long as each is allowed where it is taken. A rank goes down
  with every useful step and is kept by the others; after the last one the goal is reached.
\<close>

fun allowed :: "('op \<Rightarrow> 's \<Rightarrow> 's) \<Rightarrow> ('op \<Rightarrow> 's \<Rightarrow> bool) \<Rightarrow> 'op list \<Rightarrow> 's \<Rightarrow> bool" where
  "allowed step ok [] s \<longleftrightarrow> True"
| "allowed step ok (op # ops) s \<longleftrightarrow> ok op s \<and> allowed step ok ops (step op s)"

lemma allowed_append:
  "allowed step ok (xs @ ys) s \<longleftrightarrow> allowed step ok xs s \<and> allowed step ok ys (fold step xs s)"
  by (induction xs arbitrary: s) simp_all

locale leads_to =
  fixes step :: "'op \<Rightarrow> 's \<Rightarrow> 's" and ok :: "'op \<Rightarrow> 's \<Rightarrow> bool" and inv :: "'s \<Rightarrow> bool"
    and useful :: "'op \<Rightarrow> bool" and rank :: "nat \<Rightarrow> 's \<Rightarrow> bool" and goal :: "'s \<Rightarrow> bool"
  assumes inv_step: "inv s \<Longrightarrow> ok op s \<Longrightarrow> inv (step op s)"
    and other_step: "inv s \<Longrightarrow> ok op s \<Longrightarrow> rank n s \<Longrightarrow> \<not> useful op \<Longrightarrow> rank n (step op s)"
    and useful_step: "inv s \<Longrightarrow> ok op s \<Longrightarrow> rank (Suc n) s \<Longrightarrow> useful op \<Longrightarrow> rank n (step op s)"
    and last_step: "inv s \<Longrightarrow> ok op s \<Longrightarrow> rank 0 s \<Longrightarrow> useful op \<Longrightarrow> goal (step op s)"
begin

lemma inv_run: "inv s \<Longrightarrow> allowed step ok ops s \<Longrightarrow> inv (fold step ops s)"
  by (induction ops arbitrary: s) (auto intro: inv_step)

lemma reaches:
  assumes "inv s" and "rank n s" and "allowed step ok ops s" and "n < length (filter useful ops)"
  shows "\<exists>xs ys. ops = xs @ ys \<and> goal (fold step xs s) \<and> inv (fold step xs s)"
  using assms
proof (induction ops arbitrary: n s)
  case (Cons op ops)
  have i: "inv (step op s)" using Cons.prems by (simp add: inv_step)
  have "\<exists>xs ys. op # ops = (op # xs) @ ys \<and> goal (fold step (op # xs) s) \<and> inv (fold step (op # xs) s)"
  proof (cases "useful op")
    case True
    show ?thesis
    proof (cases n)
      case 0
      then have "goal (fold step [op] s)" using Cons.prems True by (simp add: last_step)
      then show ?thesis using i by (intro exI [of _ "[]"] exI [of _ ops]) simp
    next
      case (Suc m)
      then have "rank m (step op s)" using Cons.prems True by (simp add: useful_step)
      from Cons.IH [OF i this] show ?thesis using Cons.prems True Suc by simp
    qed
  next
    case False
    then have "rank n (step op s)" using Cons.prems by (simp add: other_step)
    from Cons.IH [OF i this] show ?thesis using Cons.prems False by simp
  qed
  then show ?case by blast
qed simp

end

section \<open>The interrupt in the interrupt controller\<close>

text \<open>Whether the interrupt is on after a history, the most recent event first; it is off after a reset.\<close>

fun exti_on :: "history \<Rightarrow> bool" where
  "exti_on [] = False"
| "exti_on (EnableIRQ q # h) = (q = EXTI15_10_IRQn \<or> exti_on h)"
| "exti_on (DisableIRQ q # h) = (q \<noteq> EXTI15_10_IRQn \<and> exti_on h)"
| "exti_on (_ # h) = exti_on h"

text \<open>No transfer on the bus changes it.\<close>

named_theorems exti_simps

lemma exti_pins [exti_simps]:
  "exti_on (I2C_SCL_H p h) = exti_on h" "exti_on (I2C_SCL_L p h) = exti_on h"
  "exti_on (I2C_SDA_H p h) = exti_on h" "exti_on (I2C_SDA_L p h) = exti_on h"
  "exti_on (i2c_sda_config_in p h) = exti_on h" "exti_on (i2c_sda_config_out p h) = exti_on h"
  "exti_on (snd (I2C_SDA_INPUT lv p h)) = exti_on h" "exti_on (i2c_delay n h) = exti_on h"
  by (simp_all add: hw_defs Let_def gpio_init0_def)

lemma exti_primitives [exti_simps]:
  "exti_on (i2c_start p h) = exti_on h" "exti_on (i2c_stop p h) = exti_on h"
  "exti_on (i2c_send_ack p h) = exti_on h" "exti_on (i2c_send_nack p h) = exti_on h"
  by (simp_all add: i2c_start_def i2c_stop_def i2c_send_ack_def i2c_send_nack_def exti_simps)

lemma exti_send_bits: "exti_on (i2c_send_bits p n b h) = exti_on h"
  by (induction n arbitrary: b h) (simp_all add: Let_def exti_simps)

lemma exti_send_byte [exti_simps]: "exti_on (i2c_send_byte p b h) = exti_on h"
  by (simp add: i2c_send_byte_def exti_send_bits exti_simps)

lemma exti_poll [exti_simps]: "exti_on (snd (sda_poll lv p want n h)) = exti_on h"
proof (induction lv p want n h rule: sda_poll.induct)
  case (1 lv p want n h)
  obtain b g where read: "I2C_SDA_INPUT lv p h = (b, g)" by fastforce
  have g: "exti_on g = exti_on h" using exti_pins(7) [of lv p h] read by simp
  show ?case
    using "1.IH" [OF read [symmetric] refl] g read by (simp add: sda_poll.simps [of lv p want n h] exti_simps)
qed

lemma exti_idle_check [exti_simps]: "exti_on (snd (i2c_idle_check lv p h)) = exti_on h"
  by (simp add: i2c_idle_check_def exti_simps)

lemma exti_wait_ack [exti_simps]: "exti_on (snd (i2c_wait_ack lv p h)) = exti_on h"
  by (simp add: i2c_wait_ack_def split_beta Let_def exti_simps)

lemma exti_read_bits: "exti_on (snd (i2c_read_bits lv p n v h)) = exti_on h"
  by (induction n arbitrary: v h) (simp_all add: Let_def split_beta exti_simps)

lemma exti_read_byte [exti_simps]: "exti_on (snd (i2c_read_byte lv p ack h)) = exti_on h"
  by (simp add: i2c_read_byte_def split_beta Let_def exti_read_bits exti_simps)

lemma exti_send_loop [exti_simps]: "exti_on (snd (i2c_send_loop lv p bs h)) = exti_on h"
  by (induction bs arbitrary: h) (simp_all add: Let_def split_beta exti_simps)

lemma exti_read_loop [exti_simps]: "exti_on (snd (i2c_read_loop lv p n h)) = exti_on h"
  by (induction n arbitrary: h) (simp_all add: Let_def split_beta exti_simps)

lemma exti_transfers [simp]:
  "exti_on (hist (snd (pcf8574_i2c_write lv d b))) = exti_on (hist b)"
  "exti_on (hist (snd (snd (pcf8574_i2c_read lv b)))) = exti_on (hist b)"
  "exti_on (hist (snd (snd (ap3216_i2c_multi_read lv reg n b)))) = exti_on (hist b)"
  by (simp_all add: pcf8574_i2c_write_def pcf8574_i2c_read_def ap3216_i2c_multi_read_def i2c_write_device_def
      i2c_read_device_def i2c_read_memory_def split_beta Let_def exti_simps)

section \<open>The triggers\<close>

text \<open>
  The triggers the I2C task registers: at most one for the delayed read, which is called once and less
  than five periods after it was registered, and at most one for the sensor.
\<close>

definition io_trigger :: "TimerFunction TimeTrigger \<Rightarrow> bool" where
  "io_trigger t \<longleftrightarrow> used t \<in> {0, 1} \<and> (used t = 1 \<longrightarrow>
     triggerFunc t = Some I2cTriggerFunc \<and> trigger_var t = None
     \<and> (triggerId t = EVENT_I2C_IO_DELAY_TIMER_TIGGER \<and> time_compare t = 5
          \<and> (triggerCount t = 0 \<or> triggerCount t = 1 \<and> time_cmp_count t < 5)
        \<or> triggerId t = EVENT_I2C_DEV_UPDATE_TIMER_TIGGER))"

definition in_use :: "u16 \<Rightarrow> 'f TimeTrigger \<Rightarrow> bool" where
  "in_use i t \<longleftrightarrow> used t = 1 \<and> triggerId t = i"

definition io_triggers :: "TimerFunction TimeTrigger list \<Rightarrow> bool" where
  "io_triggers ts \<longleftrightarrow> length ts = 10 \<and> list_all io_trigger ts
     \<and> length (filter (in_use EVENT_I2C_IO_DELAY_TIMER_TIGGER) ts) \<le> 1
     \<and> length (filter (in_use EVENT_I2C_DEV_UPDATE_TIMER_TIGGER) ts) \<le> 1"

text \<open>The trigger for the delayed read before its call.\<close>

definition armed :: "'f TimeTrigger \<Rightarrow> bool" where
  "armed t \<longleftrightarrow> in_use EVENT_I2C_IO_DELAY_TIMER_TIGGER t \<and> triggerCount t \<noteq> 0"

text \<open>What one period does to a trigger, and the event it queues.\<close>

definition tick :: "'f TimeTrigger \<Rightarrow> 'f TimeTrigger" where
  "tick t = (if used t \<noteq> 0 then fst (action (\<lambda>f i v w. w) (\<lambda>_. 0) (t, ())) else t)"

definition trigger_event :: "u16 \<Rightarrow> i2c_event" where
  "trigger_event i =
     \<lparr>ev_id = (if i = EVENT_I2C_IO_DELAY_TIMER_TIGGER then I2C_EVENT_IO_CHIP_READ else I2C_EVENT_DEVICE_REFRESH), ev_data = None\<rparr>"

definition due :: "'f TimeTrigger \<Rightarrow> i2c_event list" where
  "due t = (if used t \<noteq> 0 \<and> triggerCount t > 0 \<and> fst (isMatch t) then [trigger_event (triggerId t)] else [])"

text \<open>A queue of 32 places.\<close>

definition fill :: "i2c_event list \<Rightarrow> i2c_event list \<Rightarrow> i2c_event list" where
  "fill evs q = q @ take (i2c_monitor_MAX_QUEUE - length q) evs"

lemma fill_simps [simp]:
  "fill [] q = q" "fill (es @ fs) q = fill fs (fill es q)"
  "length (fill es q) = length q + min (length es) (i2c_monitor_MAX_QUEUE - length q)"
  by (auto simp: fill_def min_def)

lemma xQueueSend_fill: "snd (xQueueSend ev w) = w\<lparr>queue := fill [ev] (queue w)\<rparr>"
  by (cases "i2c_monitor_MAX_QUEUE - length (queue w)") (auto simp: xQueueSend_def fill_def)

lemma io_action:
  assumes "io_trigger t" and "used t \<noteq> 0"
  shows "action timer_call mem (t, w) = (tick t, w\<lparr>queue := fill (due t) (queue w)\<rparr>)"
proof -
  have t: "triggerFunc t = Some I2cTriggerFunc" "trigger_var t = None"
    "triggerId t \<in> {EVENT_I2C_IO_DELAY_TIMER_TIGGER, EVENT_I2C_DEV_UPDATE_TIMER_TIGGER}"
    using assms by (auto simp: io_trigger_def)
  have call: "timer_call I2cTriggerFunc (triggerId t) None w = w\<lparr>queue := fill [trigger_event (triggerId t)] (queue w)\<rparr>"
    using t(3) by (auto simp: I2cTriggerFunc_call_def trigger_def xQueueSend_fill trigger_event_def
        EVENT_I2C_IO_DELAY_TIMER_TIGGER_def EVENT_I2C_DEV_UPDATE_TIMER_TIGGER_def)
  have m: "triggerId (snd (isMatch t)) = triggerId t" "triggerFunc (snd (isMatch t)) = triggerFunc t"
    "trigger_var (snd (isMatch t)) = trigger_var t"
    by (simp_all add: isMatch_def Let_def)
  show ?thesis
    using assms(2) t(1,2) call m by (simp add: action_def tick_def due_def split_beta Let_def)
qed

lemma io_process_loop:
  "list_all io_trigger ts
     \<Longrightarrow> process_loop timer_call mem ts w = (map tick ts, w\<lparr>queue := fill (concat (map due ts)) (queue w)\<rparr>)"
proof (induction ts arbitrary: w)
  case (Cons t ts)
  have f: "free_trigger t = t" using Cons.prems by (auto simp: free_trigger_def io_trigger_def)
  then show ?case
    using Cons io_action [of t mem w] by (simp add: f Let_def tick_def due_def)
qed simp

lemma soft_loop_timer_io:
  assumes "list_all io_trigger (triggerList (timers w))"
  shows "soft_loop_timer mem taken w =
           (if taken then w\<lparr>timers := (timers w)\<lparr>timeCount := timeCount (timers w) + 1, triggerList := map tick (triggerList (timers w))\<rparr>,
                            queue := fill (concat (map due (triggerList (timers w)))) (queue w)\<rparr>
            else w\<lparr>timers := (timers w)\<lparr>timeCount := timeCount (timers w) + 1\<rparr>\<rparr>)"
  using io_process_loop [OF assms, of mem w]
  by (simp add: soft_loop_timer_def prvxSoftLoopTimerCallback_def processTrigger_def updateTimeCount_def)

lemma five_periods: "x < (5 :: u32) \<Longrightarrow> 5 \<le> x + 1 \<longleftrightarrow> x = 4" "x < (4 :: u32) \<Longrightarrow> x + 1 < 5"
  "x < (5 :: u32) \<Longrightarrow> x < 4 \<or> x = 4"
proof -
  have s: "unat (x + 1) = Suc (unat x)" if "x < 5" using unat_add_one_less [OF that] by simp
  show "x < 5 \<Longrightarrow> 5 \<le> x + 1 \<longleftrightarrow> x = 4" using s by (auto simp: word_le_nat_alt word_less_nat_alt word_unat_eq_iff)
  show "x < 5 \<Longrightarrow> x < 4 \<or> x = 4" by (auto simp: word_less_nat_alt word_unat_eq_iff)
  show "x < 4 \<Longrightarrow> x + 1 < 5" using s by (auto simp: word_less_nat_alt)
qed

lemma tick_in_use: "in_use i (tick t) = in_use i t"
  by (simp add: tick_def in_use_def action_def isMatch_def Let_def split: option.split)

lemma tick_armed:
  assumes "io_trigger t" and "armed t"
  shows "tick t = (if time_cmp_count t = 4 then t\<lparr>time_cmp_count := 0, triggerCount := 0\<rparr>
                   else t\<lparr>time_cmp_count := time_cmp_count t + 1\<rparr>)"
    and "due t = (if time_cmp_count t = 4 then [trigger_event EVENT_I2C_IO_DELAY_TIMER_TIGGER] else [])"
    and "time_cmp_count t < 5"
proof -
  have t: "used t = 1" "triggerFunc t = Some I2cTriggerFunc" "time_compare t = 5" "triggerCount t = 1"
    "time_cmp_count t < 5" "triggerId t = EVENT_I2C_IO_DELAY_TIMER_TIGGER"
    using assms by (auto simp: io_trigger_def armed_def in_use_def EVENT_I2C_IO_DELAY_TIMER_TIGGER_def
        EVENT_I2C_DEV_UPDATE_TIMER_TIGGER_def)
  note five = five_periods(1) [OF t(5)]
  show "tick t = (if time_cmp_count t = 4 then t\<lparr>time_cmp_count := 0, triggerCount := 0\<rparr>
                  else t\<lparr>time_cmp_count := time_cmp_count t + 1\<rparr>)"
    using t by (simp add: tick_def action_def isMatch_def Let_def five TIMER_TRIGGER_FOREVER_def)
  show "due t = (if time_cmp_count t = 4 then [trigger_event EVENT_I2C_IO_DELAY_TIMER_TIGGER] else [])"
    using t by (simp add: due_def isMatch_def Let_def five)
  show "time_cmp_count t < 5" by (rule t(5))
qed

lemma tick_not_armed:
  assumes "io_trigger t" and "\<not> armed t"
  shows "io_trigger (tick t) \<and> \<not> armed (tick t)" and "\<forall>e \<in> set (due t). ev_id e = I2C_EVENT_DEVICE_REFRESH"
proof -
  consider "used t = 0" | "in_use EVENT_I2C_IO_DELAY_TIMER_TIGGER t" "triggerCount t = 0" | "in_use EVENT_I2C_DEV_UPDATE_TIMER_TIGGER t"
    using assms by (auto simp: io_trigger_def armed_def in_use_def)
  then have "io_trigger (tick t) \<and> \<not> armed (tick t) \<and> (\<forall>e \<in> set (due t). ev_id e = I2C_EVENT_DEVICE_REFRESH)"
  proof cases
    case 1
    then show ?thesis using assms by (simp add: tick_def due_def)
  next
    case 2
    then have "tick t = t" by (simp add: tick_def action_def)
    then show ?thesis using 2 assms by (simp add: due_def)
  next
    case 3
    then have "in_use EVENT_I2C_DEV_UPDATE_TIMER_TIGGER (tick t)" by (simp add: tick_in_use)
    moreover have "triggerFunc (tick t) = triggerFunc t" "trigger_var (tick t) = trigger_var t"
      by (simp_all add: tick_def action_def isMatch_def Let_def split: option.split)
    ultimately show ?thesis using 3 assms
      by (auto simp: io_trigger_def armed_def in_use_def due_def trigger_event_def EVENT_I2C_DEV_UPDATE_TIMER_TIGGER_def
          EVENT_I2C_IO_DELAY_TIMER_TIGGER_def)
  qed
  then show "io_trigger (tick t) \<and> \<not> armed (tick t)" and "\<forall>e \<in> set (due t). ev_id e = I2C_EVENT_DEVICE_REFRESH" by auto
qed

lemma tick_io: "io_trigger t \<Longrightarrow> io_trigger (tick t)"
proof (cases "armed t")
  case True
  assume t: "io_trigger t"
  from five_periods(3) [OF tick_armed(3) [OF this True]] show "io_trigger (tick t)"
    using t True five_periods(2) [of "time_cmp_count t"] by (auto simp: tick_armed(1) [OF t True] io_trigger_def armed_def in_use_def)
qed (simp add: tick_not_armed)

lemma io_triggers_tick: "io_triggers ts \<Longrightarrow> io_triggers (map tick ts)"
  by (simp add: io_triggers_def filter_map comp_def tick_in_use list.pred_map list_all_iff tick_io)

text \<open>Registering the trigger for the delayed read: it is the only one for it, and has all its periods ahead.\<close>

definition delay_trigger :: "'f \<Rightarrow> 'f TimeTrigger \<Rightarrow> 'f TimeTrigger" where
  "delay_trigger f t = initalize EVENT_I2C_IO_DELAY_TIMER_TIGGER 5 None 1 (Some f) (t\<lparr>used := 1\<rparr>)"

lemma register_free:
  assumes "\<forall>t \<in> set ts. used t \<in> {0, 1}" and "\<exists>t \<in> set ts. used t = 0"
  shows "\<exists>us t vs. ts = us @ t # vs \<and> used t = 0 \<and> register_loop set_up ts = (True, us @ set_up (t\<lparr>used := 1\<rparr>) # vs)"
  using assms
proof (induction ts)
  case (Cons t ts)
  have f: "free_trigger t = t" using Cons.prems(1) by (auto simp: free_trigger_def)
  show ?case
  proof (cases "used t = 0")
    case True
    then have "t # ts = [] @ t # ts \<and> used t = 0 \<and> register_loop set_up (t # ts) = (True, [] @ set_up (t\<lparr>used := 1\<rparr>) # ts)"
      by (simp add: f)
    then show ?thesis by blast
  next
    case False
    then obtain us u vs where "ts = us @ u # vs" "used u = 0" "register_loop set_up ts = (True, us @ set_up (u\<lparr>used := 1\<rparr>) # vs)"
      using Cons by auto
    then have "t # ts = (t # us) @ u # vs \<and> used u = 0
        \<and> register_loop set_up (t # ts) = (True, (t # us) @ set_up (u\<lparr>used := 1\<rparr>) # vs)"
      using False by (simp add: f)
    then show ?thesis by blast
  qed
qed simp

lemma io_triggers_free:
  assumes "io_triggers ts"
  shows "\<exists>t \<in> set ts. used t = 0"
proof (rule ccontr)
  assume "\<not> (\<exists>t \<in> set ts. used t = 0)"
  then have "\<forall>t \<in> set ts. in_use EVENT_I2C_IO_DELAY_TIMER_TIGGER t \<or> in_use EVENT_I2C_DEV_UPDATE_TIMER_TIGGER t"
    using assms by (auto simp: io_triggers_def list_all_iff io_trigger_def in_use_def)
  then have "length ts \<le> length (filter (in_use EVENT_I2C_IO_DELAY_TIMER_TIGGER) ts)
      + length (filter (in_use EVENT_I2C_DEV_UPDATE_TIMER_TIGGER) ts)"
    by (induction ts) auto
  then show False using assms by (simp add: io_triggers_def)
qed

lemma registerIODelay:
  assumes "io_triggers (triggerList (timers w))"
  obtains us t vs where "registerIODelayTimeTrigger w =
      w\<lparr>timers := (timers w)\<lparr>triggerList := us @ delay_trigger I2cTriggerFunc t # vs\<rparr>\<rparr>"
    and "io_triggers (us @ delay_trigger I2cTriggerFunc t # vs)"
    and "filter armed (us @ delay_trigger I2cTriggerFunc t # vs) = [delay_trigger I2cTriggerFunc t]"
proof -
  define off where "off = (\<lambda>t :: TimerFunction TimeTrigger.
      if used t \<noteq> 0 \<and> getId t = EVENT_I2C_IO_DELAY_TIMER_TIGGER then t\<lparr>used := 0\<rparr> else t)"
  define ts where "ts = triggerList (timers w)"
  have ids: "EVENT_I2C_IO_DELAY_TIMER_TIGGER \<noteq> EVENT_I2C_DEV_UPDATE_TIMER_TIGGER"
    by (simp add: EVENT_I2C_IO_DELAY_TIMER_TIGGER_def EVENT_I2C_DEV_UPDATE_TIMER_TIGGER_def)
  have io: "\<forall>t \<in> set ts. io_trigger t" using assms by (simp add: io_triggers_def ts_def list_all_iff)
  have off: "io_trigger (off t) \<and> in_use i (off t) = (i \<noteq> EVENT_I2C_IO_DELAY_TIMER_TIGGER \<and> in_use i t)"
    if "t \<in> set ts" for i t
    using io that by (auto simp: off_def in_use_def getId_def io_trigger_def)
  have u: "\<forall>t \<in> set (map off ts). used t \<in> {0, 1}" using off by (auto simp: io_trigger_def)
  have none: "\<forall>t \<in> set (map off ts). \<not> in_use EVENT_I2C_IO_DELAY_TIMER_TIGGER t" using off by auto
  have "filter (in_use EVENT_I2C_DEV_UPDATE_TIMER_TIGGER) (map off ts) = map off (filter (in_use EVENT_I2C_DEV_UPDATE_TIMER_TIGGER) ts)"
    unfolding filter_map comp_def using off ids by (intro arg_cong [where f = "map off"] filter_cong) auto
  then have io': "io_triggers (map off ts)"
    using assms off none by (auto simp: io_triggers_def filter_empty_conv list_all_iff ts_def)
  obtain us t vs where r: "map off ts = us @ t # vs" "used t = 0"
    "register_loop (initalize EVENT_I2C_IO_DELAY_TIMER_TIGGER 5 None 1 (Some I2cTriggerFunc)) (map off ts)
       = (True, us @ delay_trigger I2cTriggerFunc t # vs)"
    using register_free [OF u io_triggers_free [OF io']] unfolding delay_trigger_def by blast
  have "TIME_MANAGE_CNT I2C_IO_DELAY_READ_TIME_MS = 5"
    by (simp add: TIME_MANAGE_CNT_def I2C_IO_DELAY_READ_TIME_MS_def SOFT_LOOP_TIMER_PERIOD_def)
  then have 1: "registerIODelayTimeTrigger w = w\<lparr>timers := (timers w)\<lparr>triggerList := us @ delay_trigger I2cTriggerFunc t # vs\<rparr>\<rparr>"
    using r(3) by (simp add: registerIODelayTimeTrigger_def removeIODelayTimeTrigger_def removeEventTrigger_def registerEventTrigger_def
        off_def ts_def)
  have d: "in_use i (delay_trigger I2cTriggerFunc t) = (i = EVENT_I2C_IO_DELAY_TIMER_TIGGER)" "armed (delay_trigger I2cTriggerFunc t)"
    "io_trigger (delay_trigger I2cTriggerFunc t)" for i
    by (auto simp: in_use_def armed_def io_trigger_def delay_trigger_def initalize_def)
  have n: "\<forall>x \<in> set us \<union> set vs. \<not> in_use EVENT_I2C_IO_DELAY_TIMER_TIGGER x" using none unfolding r(1) by auto
  have 2: "io_triggers (us @ delay_trigger I2cTriggerFunc t # vs)"
    using io' n r(2) ids unfolding r(1) by (simp add: io_triggers_def d filter_empty_conv in_use_def [of _ t])
  have 3: "filter armed (us @ delay_trigger I2cTriggerFunc t # vs) = [delay_trigger I2cTriggerFunc t]"
    using n by (simp add: d filter_empty_conv) (simp add: armed_def)
  show ?thesis using 1 2 3 by (rule that)
qed

section \<open>The token\<close>

definition token_event :: "i2c_event \<Rightarrow> bool" where
  "token_event e \<longleftrightarrow> ev_id e = I2C_EVENT_IO_DELAY_READ \<or> ev_id e = I2C_EVENT_IO_CHIP_READ"

definition tokens :: "app_world \<Rightarrow> nat" where
  "tokens w = length (filter token_event (queue w)) + length (filter armed (triggerList (timers w)))"

abbreviation irq_on :: "app_world \<Rightarrow> bool" where "irq_on w \<equiv> exti_on (hist (bus w))"

definition irq_inv :: "levels \<Rightarrow> app_world \<Rightarrow> bool" where
  "irq_inv lv w \<longleftrightarrow> bus_ok lv (bus w) \<and> io_triggers (triggerList (timers w)) \<and> length (queue w) \<le> i2c_monitor_MAX_QUEUE
     \<and> tokens w = (if irq_on w then 0 else 1)"

text \<open>
  When a step can be taken without losing the token: the interrupt only while it is on, and where it and
  the timer find room in the queue.
\<close>

fun possible :: "app_op \<Rightarrow> app_world \<Rightarrow> bool" where
  "possible Interrupt w \<longleftrightarrow> irq_on w \<and> length (queue w) < i2c_monitor_MAX_QUEUE"
| "possible (Timer mem taken) w \<longleftrightarrow> length (queue w) + 2 \<le> i2c_monitor_MAX_QUEUE"
| "possible _ w \<longleftrightarrow> True"

lemmas event_ids = I2C_EVENT_IO_CHIP_WRITE_def I2C_EVENT_IO_CHIP_READ_def I2C_EVENT_IO_DELAY_READ_def
  I2C_EVENT_DEVICE_REFRESH_def

definition delay_event :: i2c_event where
  "delay_event = \<lparr>ev_id = I2C_EVENT_IO_DELAY_READ, ev_data = None\<rparr>"

lemma token_events [simp]: "\<not> token_event write_event" "token_event delay_event"
  by (simp_all add: token_event_def write_event_def delay_event_def event_ids)

lemma write_io_irq:
  "queue (pcf8574_write_io pin st w) = fill [write_event] (queue w)"
  "timers (pcf8574_write_io pin st w) = timers w" "bus (pcf8574_write_io pin st w) = bus w"
  "pending (pcf8574_write_io pin st w) = pending w" "pcf8574_read_data (pcf8574_write_io pin st w) = pcf8574_read_data w"
  "ap3216_info (pcf8574_write_io pin st w) = ap3216_info w"
  by (simp_all add: pcf8574_write_io_def trigger_def xQueueSend_fill write_event_def Let_def)

lemma isr_irq:
  "expander_isr w =
     (if pending w AND GPIO_PIN_12 \<noteq> 0
      then w\<lparr>pending := pending w AND NOT GPIO_PIN_12, queue := fill [delay_event] (queue w),
             bus := hw_emit [DisableIRQ EXTI15_10_IRQn] (bus w)\<rparr>
      else w)"
  by (simp add: expander_isr_def EXTI15_10_IRQHandler_def i2c_io_isr_trigger_def trigger_isr_def xQueueSend_fill
      delay_event_def hw_emit_def)

lemma line_pending: "(p OR GPIO_PIN_12) AND GPIO_PIN_12 \<noteq> 0"
proof -
  have "(p OR GPIO_PIN_12) AND GPIO_PIN_12 = GPIO_PIN_12" by (rule bit_word_eqI) (auto simp: bit_simps)
  then show ?thesis by (simp add: GPIO_PIN_12_def)
qed

lemma exti_emit [simp]:
  "exti_on (hist (hw_emit [DisableIRQ EXTI15_10_IRQn] b)) = False" "exti_on (hist (hw_emit [EnableIRQ EXTI15_10_IRQn] b)) = True"
  by (simp_all add: hw_emit_def)

lemma ap3216_run_irq:
  "exti_on (hist (bus (ap3216c_i2c_run lv w))) = irq_on w" "timers (ap3216c_i2c_run lv w) = timers w"
  "pending (ap3216c_i2c_run lv w) = pending w" "pcf8574_read_data (ap3216c_i2c_run lv w) = pcf8574_read_data w"
proof -
  have q: "exti_on (hist (bus (snd (ap3216_read_loop lv n i w)))) = irq_on w
      \<and> timers (snd (ap3216_read_loop lv n i w)) = timers w \<and> pending (snd (ap3216_read_loop lv n i w)) = pending w
      \<and> pcf8574_read_data (snd (ap3216_read_loop lv n i w)) = pcf8574_read_data w" for n i
  proof (induction n arbitrary: i w)
    case (Suc n)
    then show ?case by (simp add: Let_def split_beta PRINT_LOG_def)
  qed simp
  show "exti_on (hist (bus (ap3216c_i2c_run lv w))) = irq_on w" "timers (ap3216c_i2c_run lv w) = timers w"
    "pending (ap3216c_i2c_run lv w) = pending w" "pcf8574_read_data (ap3216c_i2c_run lv w) = pcf8574_read_data w"
    using q [of 6 0] by (simp_all add: ap3216c_i2c_run_def split_beta split: option.split)
qed

text \<open>What serving an event does to the queue, the triggers and the interrupt.\<close>

lemma serve_irq:
  "queue (serve lv e w) = queue w
     \<or> ev_id e = I2C_EVENT_IO_CHIP_READ \<and> queue (serve lv e w) = fill [write_event] (queue w)"
  "ev_id e \<noteq> I2C_EVENT_IO_DELAY_READ \<Longrightarrow> timers (serve lv e w) = timers w"
  "ev_id e = I2C_EVENT_IO_DELAY_READ \<Longrightarrow> timers (serve lv e w) = timers (registerIODelayTimeTrigger w)"
  "irq_on (serve lv e w) \<longleftrightarrow> ev_id e = I2C_EVENT_IO_CHIP_READ \<or> irq_on w"
  by (auto simp: serve_def serve_chip_read_def PRINT_LOG_def registerIODelayTimeTrigger_def removeIODelayTimeTrigger_def
      write_io_irq ap3216_run_irq event_ids Let_def split_beta)

text \<open>The bus stays usable, and a read of the expander succeeds and comes with one of the sensor.\<close>

definition expander_read_frame :: "u8 \<Rightarrow> i2c_symbol list" where
  "expander_read_frame v = [START] @ acked [PCF8574_ADDR OR 1] @ answered 0 1 [v] @ [STOP]"

definition sensor_frames :: "u8 list \<Rightarrow> i2c_symbol list" where
  "sensor_frames vs = concat (map (\<lambda>j. ap3216_read_frame (AP3216C_IRDATALOW + of_nat j) (vs ! j)) [0..<6])"

lemma expander_read:
  assumes "bus_ok lv b"
  obtains v b' where "pcf8574_i2c_read lv b = (pdPASS, [v], b')" and "bus_ok lv b'"
    and "bus_syms b' = bus_syms b @ expander_read_frame v"
proof -
  obtain r vs b' where 1: "pcf8574_i2c_read lv b = (r, vs, b')" by (cases "pcf8574_i2c_read lv b") auto
  have on: "on_bus b" using assms by (simp add: bus_ok_def)
  note ok = bus_ok_read [OF assms 1]
  obtain res ws b1 where t: "i2c_read_device lv SOFT_I2C2 PCF8574_ADDR 1 b = (res, ws, b1)"
    by (cases "i2c_read_device lv SOFT_I2C2 PCF8574_ADDR 1 b") auto
  have b': "b' = b1" "vs = ws" "res = I2C_OK" using 1 t ok by (auto simp: pcf8574_i2c_read_def I2C_OK_def split: if_splits)
  then have f: "length vs = 1 \<and> bus_syms b' = bus_syms b @ [START] @ acked [PCF8574_ADDR OR 1] @ answered 0 1 vs @ [STOP]"
    using read_device_frame [OF refl conjunct1 [OF on_bus_ready [OF on]] t] on_bus_ready [OF on]
    by (simp add: I2C_OK_def I2C_ERROR_def)
  then obtain v where "vs = [v]" by (cases vs) auto
  then show ?thesis using that [of v b'] 1 ok f by (simp add: expander_read_frame_def)
qed

lemma serve_chip_read_ok:
  assumes "bus_ok lv (bus w)" and "w' = serve_chip_read lv w"
  shows "bus_ok lv (bus w') \<and> irq_on w' \<and> pending w' AND GPIO_PIN_12 = 0
     \<and> (\<exists>v vs. length vs = 6 \<and> bus_syms (bus w') = bus_syms (bus w) @ expander_read_frame v @ sensor_frames vs
           \<and> pcf8574_read_data w' = v \<and> ap3216_values w' = ap3216_decode vs)"
proof -
  obtain v b where r: "pcf8574_i2c_read lv (bus w) = (pdPASS, [v], b)" "bus_ok lv b"
    "bus_syms b = bus_syms (bus w) @ expander_read_frame v"
    using expander_read [OF assms(1)] .
  define w1 where "w1 = PRINT_LOG LOG_INFO ''i2c read:0x%x!'' [unat v] (w\<lparr>bus := b, pcf8574_read_data := v\<rparr>)"
  have "bus w1 = b" by (simp add: w1_def PRINT_LOG_def)
  then obtain vs b2 i where ap: "length vs = 6" "bus_ok lv b2" "ap3216c_i2c_run lv w1 = w1\<lparr>bus := b2, ap3216_info := i\<rparr>"
    "(unat (ir i), unat (als i), unat (ps i)) = ap3216_decode vs" "bus_syms b2 = bus_syms b @ sensor_frames vs"
    using ap3216_run_ok [of lv w1] r(2) unfolding sensor_frames_def by auto
  have off: "bus_syms (hw_emit [EnableIRQ EXTI15_10_IRQn] b) = bus_syms b"
    "bus_ok lv (hw_emit [EnableIRQ EXTI15_10_IRQn] b) = bus_ok lv b" for b
    by (simp_all add: off_bus_def)
  have "bus w' = hw_emit [EnableIRQ EXTI15_10_IRQn] b2 \<and> ap3216_info w' = i \<and> pcf8574_read_data w' = v
      \<and> pending w' = pending w AND NOT GPIO_PIN_12"
    unfolding assms(2)
    using ap(3) by (simp add: serve_chip_read_def r(1) Let_def write_io_irq PRINT_LOG_def w1_def)
  then show ?thesis using ap r(3) off by (auto simp: and.assoc)
qed

lemma serve_bus_ok: "bus_ok lv (bus w) \<Longrightarrow> bus_ok lv (bus (serve lv e w))"
proof -
  assume w: "bus_ok lv (bus w)"
  obtain r b where 1: "pcf8574_i2c_write lv (pcf8574_write_data w) (bus w) = (r, b)" by fastforce
  obtain b2 i where 2: "bus_ok lv b2" "ap3216c_i2c_run lv w = w\<lparr>bus := b2, ap3216_info := i\<rparr>"
    using ap3216_run_ok [OF w] by blast
  show "bus_ok lv (bus (serve lv e w))"
    using w bus_ok_write [OF w 1] 1 2 serve_chip_read_ok [OF w refl]
    by (simp add: serve_def registerIODelayTimeTrigger_def removeIODelayTimeTrigger_def)
qed

section \<open>The token is kept\<close>

lemma due_tokens:
  "list_all io_trigger ts \<Longrightarrow>
     length (filter token_event (concat (map due ts))) + length (filter armed (map tick ts)) = length (filter armed ts)"
proof (induction ts)
  case (Cons t ts)
  have t: "io_trigger t" using Cons.prems by simp
  have "length (filter token_event (due t)) + (if armed (tick t) then 1 else 0) = (if armed t then 1 else 0 :: nat)"
  proof (cases "armed t")
    case True
    have "armed (tick t) \<longleftrightarrow> time_cmp_count t \<noteq> 4"
      using True by (simp add: tick_armed(1) [OF t True]) (simp add: armed_def in_use_def)
    then show ?thesis
      using True by (simp add: tick_armed(2) [OF t True] token_event_def trigger_event_def)
  next
    case False
    have "filter token_event (due t) = []"
      using tick_not_armed(2) [OF t False] by (auto simp: filter_empty_conv token_event_def event_ids)
    then show ?thesis using False tick_not_armed(1) [OF t False] by simp
  qed
  then show ?case using Cons by (auto split: if_splits)
qed simp

lemma due_length:
  "list_all io_trigger ts \<Longrightarrow> length (concat (map due ts)) \<le>
     length (filter (in_use EVENT_I2C_IO_DELAY_TIMER_TIGGER) ts) + length (filter (in_use EVENT_I2C_DEV_UPDATE_TIMER_TIGGER) ts)"
proof (induction ts)
  case (Cons t ts)
  have "length (due t) \<le> (if in_use EVENT_I2C_IO_DELAY_TIMER_TIGGER t then 1 else 0) + (if in_use EVENT_I2C_DEV_UPDATE_TIMER_TIGGER t then 1 else 0)"
    using Cons.prems by (auto simp: due_def io_trigger_def in_use_def)
  then show ?case using Cons by (cases "in_use EVENT_I2C_IO_DELAY_TIMER_TIGGER t"; cases "in_use EVENT_I2C_DEV_UPDATE_TIMER_TIGGER t") simp_all
qed simp

lemma fill_room: "length q + length es \<le> i2c_monitor_MAX_QUEUE \<Longrightarrow> fill es q = q @ es"
  by (simp add: fill_def)

lemma fill_le: "length q \<le> i2c_monitor_MAX_QUEUE \<Longrightarrow> length (fill es q) \<le> i2c_monitor_MAX_QUEUE"
  by (auto simp: fill_def)

lemma fill_other [simp]: "\<not> token_event e \<Longrightarrow> filter token_event (fill [e] q) = filter token_event q"
  by (cases "i2c_monitor_MAX_QUEUE - length q") (simp_all add: fill_def)

lemma timer_tokens:
  assumes "io_triggers (triggerList (timers w))" and "length (queue w) + 2 \<le> i2c_monitor_MAX_QUEUE"
  shows "tokens (soft_loop_timer mem taken w) = tokens w"
    and "taken \<Longrightarrow> queue (soft_loop_timer mem taken w) = queue w @ concat (map due (triggerList (timers w)))"
    and "length (queue (soft_loop_timer mem taken w)) \<le> i2c_monitor_MAX_QUEUE"
proof -
  have io: "list_all io_trigger (triggerList (timers w))" using assms(1) by (simp add: io_triggers_def)
  note t = soft_loop_timer_io [OF io, of mem taken]
  have r: "length (queue w) + length (concat (map due (triggerList (timers w)))) \<le> i2c_monitor_MAX_QUEUE"
    using due_length [OF io] assms by (simp add: io_triggers_def)
  show "tokens (soft_loop_timer mem taken w) = tokens w"
    using due_tokens [OF io] by (simp add: t tokens_def fill_room [OF r])
  show "taken \<Longrightarrow> queue (soft_loop_timer mem taken w) = queue w @ concat (map due (triggerList (timers w)))"
    unfolding t by (simp add: fill_room [OF r])
  show "length (queue (soft_loop_timer mem taken w)) \<le> i2c_monitor_MAX_QUEUE"
    using r assms(2) by (simp add: t fill_room [OF r])
qed

lemma tokens_simps [simp]:
  "tokens (w\<lparr>bus := b\<rparr>) = tokens w" "tokens (w\<lparr>pending := p\<rparr>) = tokens w"
  by (simp_all add: tokens_def)

text \<open>A round takes the first event from the queue; what serving it does to the tokens.\<close>

lemma tokens_head: "queue w = e # q \<Longrightarrow> tokens w = (if token_event e then 1 else 0) + tokens (w\<lparr>queue := q\<rparr>)"
  by (simp add: tokens_def)

lemma serve_tokens:
  assumes "io_triggers (triggerList (timers w))"
  shows "io_triggers (triggerList (timers (serve lv e w)))"
    and "ev_id e \<noteq> I2C_EVENT_IO_DELAY_READ \<Longrightarrow> tokens (serve lv e w) = tokens w"
    and "ev_id e = I2C_EVENT_IO_DELAY_READ \<Longrightarrow> tokens (serve lv e w) = length (filter token_event (queue w)) + 1"
    and "ev_id e = I2C_EVENT_IO_DELAY_READ \<Longrightarrow>
           \<exists>t \<in> set (triggerList (timers (serve lv e w))). armed t \<and> time_cmp_count t = 0"
proof -
  obtain us t vs where r: "registerIODelayTimeTrigger w =
      w\<lparr>timers := (timers w)\<lparr>triggerList := us @ delay_trigger I2cTriggerFunc t # vs\<rparr>\<rparr>"
    "io_triggers (us @ delay_trigger I2cTriggerFunc t # vs)"
    "filter armed (us @ delay_trigger I2cTriggerFunc t # vs) = [delay_trigger I2cTriggerFunc t]"
    using registerIODelay [OF assms] .
  note s = serve_irq [where w = w and e = e and lv = lv]
  show "io_triggers (triggerList (timers (serve lv e w)))"
    using s(2,3) r(1,2) assms by (cases "ev_id e = I2C_EVENT_IO_DELAY_READ") simp_all
  show "ev_id e \<noteq> I2C_EVENT_IO_DELAY_READ \<Longrightarrow> tokens (serve lv e w) = tokens w"
    using s(1,2) by (auto simp: tokens_def)
  show "tokens (serve lv e w) = length (filter token_event (queue w)) + 1" if d: "ev_id e = I2C_EVENT_IO_DELAY_READ"
    using s(1) s(3) [OF d] r(3) d by (auto simp: tokens_def r(1) event_ids)
  have "delay_trigger I2cTriggerFunc t \<in> set (filter armed (us @ delay_trigger I2cTriggerFunc t # vs))"
    unfolding r(3) by simp
  then have "armed (delay_trigger I2cTriggerFunc t)" by (simp only: set_filter mem_Collect_eq)
  then show "\<exists>t \<in> set (triggerList (timers (serve lv e w))). armed t \<and> time_cmp_count t = 0"
    if "ev_id e = I2C_EVENT_IO_DELAY_READ"
    using s(3) [OF that] by (simp add: r(1)) (simp add: delay_trigger_def initalize_def)
qed

lemma irq_inv_round:
  assumes "irq_inv lv w" and "queue w = e # q"
  shows "irq_inv lv (serve lv e (w\<lparr>queue := q\<rparr>))"
proof -
  let ?w = "w\<lparr>queue := q\<rparr>"
  have w: "bus_ok lv (bus ?w)" "io_triggers (triggerList (timers ?w))" "length q < i2c_monitor_MAX_QUEUE"
    using assms by (auto simp: irq_inv_def)
  have t: "(if token_event e then 1 else 0) + tokens ?w = (if irq_on w then 0 else 1)"
    using assms tokens_head [OF assms(2)] by (simp add: irq_inv_def)
  note s = serve_tokens [OF w(2), where e = e and lv = lv] serve_irq [where w = ?w and e = e and lv = lv]
  have len: "length (queue (serve lv e ?w)) \<le> i2c_monitor_MAX_QUEUE" using s(5) w(3) by auto
  have "tokens (serve lv e ?w) = (if irq_on (serve lv e ?w) then 0 else 1)"
  proof (cases "token_event e")
    case True
    then have 0: "tokens ?w = 0" "\<not> irq_on w" using t by (auto split: if_splits)
    then have f: "length (filter token_event q) = 0" by (simp add: tokens_def)
    show ?thesis
      using True 0 s(2,3,8) f by (auto simp: token_event_def event_ids)
  next
    case False
    then have "ev_id e \<noteq> I2C_EVENT_IO_DELAY_READ" "ev_id e \<noteq> I2C_EVENT_IO_CHIP_READ" by (auto simp: token_event_def)
    then show ?thesis using s(2,8) t False by simp
  qed
  then show ?thesis using s(1) serve_bus_ok [OF w(1)] len by (simp add: irq_inv_def)
qed

lemma irq_inv_step:
  assumes "irq_inv lv w" and "possible op w"
  shows "irq_inv lv (app_step lv op w)"
proof (cases op)
  case (Write_IO pin st)
  then show ?thesis using assms(1) by (simp add: irq_inv_def write_io_irq tokens_def fill_le del: fill_simps)
next
  case Interrupt
  have "tokens w = 0" using assms Interrupt by (simp add: irq_inv_def)
  moreover have "bus_ok lv (hw_emit [DisableIRQ EXTI15_10_IRQn] b) = bus_ok lv b" for b by (simp add: off_bus_def)
  ultimately show ?thesis
    using assms Interrupt by (simp add: irq_inv_def isr_irq line_pending fill_room) (simp add: tokens_def fill_room)
next
  case (Timer mem taken)
  have io: "io_triggers (triggerList (timers w))" and room: "length (queue w) + 2 \<le> i2c_monitor_MAX_QUEUE"
    using assms Timer by (simp_all add: irq_inv_def)
  have l: "list_all io_trigger (triggerList (timers w))" using io by (simp add: io_triggers_def)
  have "io_triggers (triggerList (timers (soft_loop_timer mem taken w)))" "bus (soft_loop_timer mem taken w) = bus w"
    using io io_triggers_tick by (simp_all add: soft_loop_timer_io [OF l])
  then show ?thesis
    using assms(1) timer_tokens(1,3) [OF io room, of mem taken] Timer by (simp add: irq_inv_def)
next
  case Round
  then show ?thesis
    using assms(1) irq_inv_round [OF assms(1)] by (simp add: i2c_monitor_run_def split: list.split)
qed

section \<open>The token moves on\<close>

definition queued :: "u8 \<Rightarrow> nat \<Rightarrow> app_world \<Rightarrow> bool" where
  "queued k n w \<longleftrightarrow> (\<exists>us e vs. queue w = us @ e # vs \<and> length us = n \<and> ev_id e = k)"

definition waiting :: "nat \<Rightarrow> app_world \<Rightarrow> bool" where
  "waiting n w \<longleftrightarrow> (\<exists>t \<in> set (triggerList (timers w)). armed t \<and> unat (time_cmp_count t) + n = 4)"

fun is_tick :: "app_op \<Rightarrow> bool" where
  "is_tick (Timer mem taken) \<longleftrightarrow> taken"
| "is_tick _ \<longleftrightarrow> False"

definition read_queued :: "app_world \<Rightarrow> bool" where
  "read_queued w \<longleftrightarrow> (\<exists>n < i2c_monitor_MAX_QUEUE. queued I2C_EVENT_IO_CHIP_READ n w)"

text \<open>
  The interrupt is on again, no edge is pending, and the last transfers on the bus are a read of the
  expander and the six reads of the sensor, whose bytes are the values kept.
\<close>

definition served :: "app_world \<Rightarrow> bool" where
  "served w \<longleftrightarrow> irq_on w \<and> pending w AND GPIO_PIN_12 = 0
     \<and> (\<exists>ss v vs. length vs = 6 \<and> bus_syms (bus w) = ss @ expander_read_frame v @ sensor_frames vs
           \<and> pcf8574_read_data w = v \<and> ap3216_values w = ap3216_decode vs)"

lemma queued_fill: "queued k n w \<Longrightarrow> queue w' = fill es (queue w) \<Longrightarrow> queued k n w'"
  by (auto simp: queued_def fill_def) blast

lemma queued_off:
  assumes "irq_inv lv w" and "queued k n w" and "k \<in> {I2C_EVENT_IO_DELAY_READ, I2C_EVENT_IO_CHIP_READ}"
  shows "\<not> irq_on w"
  using assms by (auto simp: irq_inv_def queued_def tokens_def token_event_def split: if_splits)

lemma queued_other:
  assumes "irq_inv lv w" and "possible op w" and "queued k n w" and "op \<noteq> Round"
    and "k \<in> {I2C_EVENT_IO_DELAY_READ, I2C_EVENT_IO_CHIP_READ}"
  shows "queued k n (app_step lv op w)"
proof -
  have io: "list_all io_trigger (triggerList (timers w))" using assms(1) by (simp add: irq_inv_def io_triggers_def)
  have "\<exists>es. queue (app_step lv op w) = fill es (queue w)"
    using queued_off [OF assms(1,3,5)] assms(2,4)
    by (cases op) (auto simp: write_io_irq soft_loop_timer_io [OF io] intro: exI [of _ "[]"])
  then show ?thesis using queued_fill [OF assms(3)] by blast
qed

lemma queued_round:
  assumes "queued k (Suc n) w"
  shows "queued k n (app_step lv Round w)"
proof -
  obtain a us e vs where q: "queue w = a # us @ e # vs" "length us = n" "ev_id e = k"
    using assms by (auto simp: queued_def length_Suc_conv)
  then have "queued k n (w\<lparr>queue := us @ e # vs\<rparr>)" by (auto simp: queued_def)
  moreover have "\<exists>es. queue (serve lv a (w\<lparr>queue := us @ e # vs\<rparr>)) = fill es (us @ e # vs)"
    using serve_irq(1) [of lv a "w\<lparr>queue := us @ e # vs\<rparr>"] by (auto intro: exI [of _ "[]"])
  ultimately show ?thesis using queued_fill by (fastforce simp: i2c_monitor_run_def q(1))
qed

lemma waiting_off:
  assumes "irq_inv lv w" and "waiting n w"
  shows "\<not> irq_on w" and "filter token_event (queue w) = []"
proof -
  have "filter armed (triggerList (timers w)) \<noteq> []" using assms(2) by (auto simp: waiting_def filter_empty_conv)
  then have "length (filter armed (triggerList (timers w))) \<ge> 1" by (simp add: Suc_leI)
  moreover have "length (filter token_event (queue w)) + length (filter armed (triggerList (timers w))) = (if irq_on w then 0 else 1)"
    using assms(1) by (simp add: irq_inv_def tokens_def)
  ultimately have "\<not> irq_on w \<and> length (filter token_event (queue w)) = 0" unfolding le_less by (cases "irq_on w") auto
  then show "\<not> irq_on w" and "filter token_event (queue w) = []" by simp_all
qed

lemma waiting_other:
  assumes "irq_inv lv w" and "possible op w" and "waiting n w" and "\<not> is_tick op"
  shows "waiting n (app_step lv op w)"
proof -
  have io: "list_all io_trigger (triggerList (timers w))" using assms(1) by (simp add: irq_inv_def io_triggers_def)
  note off = waiting_off [OF assms(1,3)]
  have "triggerList (timers (app_step lv op w)) = triggerList (timers w)"
  proof (cases op)
    case Round
    have "ev_id e \<noteq> I2C_EVENT_IO_DELAY_READ" if "queue w = e # q" for e q
      using off(2) that by (auto simp: token_event_def split: if_splits)
    then show ?thesis using Round serve_irq(2) by (auto simp: i2c_monitor_run_def split: list.split)
  qed (use off(1) assms(2,4) in \<open>simp_all add: write_io_irq soft_loop_timer_io [OF io]\<close>)
  then show ?thesis using assms(3) by (simp add: waiting_def)
qed

lemma tick_step:
  assumes "irq_inv lv w" and "possible op w" and "is_tick op"
  obtains mem where "op = Timer mem True" and "triggerList (timers (app_step lv op w)) = map tick (triggerList (timers w))"
    and "queue (app_step lv op w) = queue w @ concat (map due (triggerList (timers w)))"
    and "length (queue (app_step lv op w)) \<le> i2c_monitor_MAX_QUEUE"
proof -
  obtain mem where op: "op = Timer mem True" using assms(3) by (cases op) auto
  have io: "io_triggers (triggerList (timers w))" "list_all io_trigger (triggerList (timers w))"
    using assms(1) by (simp_all add: irq_inv_def io_triggers_def)
  have room: "length (queue w) + 2 \<le> i2c_monitor_MAX_QUEUE" using assms(2) op by simp
  have "triggerList (timers (soft_loop_timer mem True w)) = map tick (triggerList (timers w))"
    by (simp add: soft_loop_timer_io [OF io(2)])
  then show ?thesis
    using timer_tokens(2,3) [OF io(1) room, where mem = mem and taken = True] by (intro that [OF op]) (simp_all add: op)
qed

lemma waiting_tick:
  assumes "irq_inv lv w" and "possible op w" and "waiting (Suc n) w" and "is_tick op"
  shows "waiting n (app_step lv op w)"
proof -
  obtain t where t: "t \<in> set (triggerList (timers w))" "armed t" "unat (time_cmp_count t) + Suc n = 4"
    using assms(3) by (auto simp: waiting_def)
  have io: "io_trigger t" using assms(1) t(1) by (auto simp: irq_inv_def io_triggers_def list_all_iff)
  have "time_cmp_count t \<noteq> 4" using t(3) by auto
  then have "tick t = t\<lparr>time_cmp_count := time_cmp_count t + 1\<rparr>" by (simp add: tick_armed(1) [OF io t(2)])
  moreover have "unat (time_cmp_count t + 1) = Suc (unat (time_cmp_count t))"
    using unat_add_one_less [of "time_cmp_count t" 5] tick_armed(3) [OF io t(2)] by simp
  ultimately have "armed (tick t) \<and> unat (time_cmp_count (tick t)) + n = 4"
    using t(2,3) by (simp add: armed_def in_use_def)
  then show ?thesis using tick_step [OF assms(1,2,4)] t(1) unfolding waiting_def by force
qed

lemma waiting_over:
  assumes "irq_inv lv w" and "possible op w" and "waiting 0 w" and "is_tick op"
  shows "read_queued (app_step lv op w)"
proof -
  obtain t where t: "t \<in> set (triggerList (timers w))" "armed t" "unat (time_cmp_count t) = 4"
    using assms(3) by (auto simp: waiting_def)
  have io: "io_trigger t" using assms(1) t(1) by (auto simp: irq_inv_def io_triggers_def list_all_iff)
  have "time_cmp_count t = 4" using t(3) by (simp add: word_unat_eq_iff)
  then have "trigger_event EVENT_I2C_IO_DELAY_TIMER_TIGGER \<in> set (due t)" by (simp add: tick_armed(2) [OF io t(2)])
  then have "trigger_event EVENT_I2C_IO_DELAY_TIMER_TIGGER \<in> set (queue (app_step lv op w))"
    using tick_step [OF assms(1,2,4)] t(1) by force
  then obtain us vs where q: "queue (app_step lv op w) = us @ trigger_event EVENT_I2C_IO_DELAY_TIMER_TIGGER # vs"
    by (auto dest: split_list)
  moreover have "length (queue (app_step lv op w)) \<le> i2c_monitor_MAX_QUEUE" using tick_step [OF assms(1,2,4)] by metis
  ultimately have "length us < i2c_monitor_MAX_QUEUE" by simp
  moreover have "queued I2C_EVENT_IO_CHIP_READ (length us) (app_step lv op w)"
    unfolding queued_def using q by (force simp: trigger_event_def)
  ultimately show ?thesis by (auto simp: read_queued_def)
qed

text \<open>The three stages.\<close>

lemma delay_served:
  assumes "irq_inv lv w" and "queued I2C_EVENT_IO_DELAY_READ 0 w"
  shows "waiting 4 (app_step lv Round w)"
proof -
  obtain e q where q: "queue w = e # q" "ev_id e = I2C_EVENT_IO_DELAY_READ" using assms(2) by (auto simp: queued_def)
  have "io_triggers (triggerList (timers (w\<lparr>queue := q\<rparr>)))" using assms(1) by (simp add: irq_inv_def)
  from serve_tokens(4) [OF this q(2), of lv] show ?thesis
    by (auto simp: waiting_def i2c_monitor_run_def q(1))
qed

lemma read_served:
  assumes "irq_inv lv w" and "queued I2C_EVENT_IO_CHIP_READ 0 w"
  shows "served (app_step lv Round w)"
proof -
  obtain e q where q: "queue w = e # q" "ev_id e = I2C_EVENT_IO_CHIP_READ" using assms(2) by (auto simp: queued_def)
  have "bus_ok lv (bus (w\<lparr>queue := q\<rparr>))" using assms(1) by (simp add: irq_inv_def)
  moreover have "app_step lv Round w = serve_chip_read lv (w\<lparr>queue := q\<rparr>)"
    by (simp add: i2c_monitor_run_def q serve_def event_ids)
  ultimately show ?thesis using serve_chip_read_ok unfolding served_def by blast
qed

interpretation delay_stage: leads_to "app_step lv" possible "irq_inv lv" "\<lambda>op. op = Round"
    "queued I2C_EVENT_IO_DELAY_READ" "waiting 4" for lv
  by unfold_locales (auto simp del: app_step.simps possible.simps
      intro: irq_inv_step queued_other queued_round delay_served)

interpretation wait_stage: leads_to "app_step lv" possible "irq_inv lv" is_tick waiting read_queued for lv
  by unfold_locales (auto simp del: app_step.simps possible.simps
      intro: irq_inv_step waiting_other waiting_tick waiting_over)

interpretation read_stage: leads_to "app_step lv" possible "irq_inv lv" "\<lambda>op. op = Round"
    "queued I2C_EVENT_IO_CHIP_READ" served for lv
  by unfold_locales (auto simp del: app_step.simps possible.simps
      intro: irq_inv_step queued_other queued_round read_served)

abbreviation app_allowed :: "levels \<Rightarrow> app_op list \<Rightarrow> app_world \<Rightarrow> bool" where
  "app_allowed lv \<equiv> allowed (app_step lv) possible"

lemma token_served:
  assumes "irq_inv lv w" and "queued I2C_EVENT_IO_DELAY_READ n w" and "n < length (filter (\<lambda>op. op = Round) as)"
    and "5 \<le> length (filter is_tick bs)" and "i2c_monitor_MAX_QUEUE \<le> length (filter (\<lambda>op. op = Round) cs)"
    and "app_allowed lv (as @ bs @ cs) w"
  shows "\<exists>xs ys. as @ bs @ cs = xs @ ys \<and> served (app_run lv xs w)"
proof -
  obtain x1 y1 where 1: "as = x1 @ y1" "waiting 4 (app_run lv x1 w)" "irq_inv lv (app_run lv x1 w)"
    using delay_stage.reaches [OF assms(1,2) _ assms(3)] assms(6) by (auto simp: allowed_append)
  define w1 where "w1 = app_run lv x1 w"
  have a1: "app_allowed lv (y1 @ bs @ cs) w1" using assms(6) by (simp add: 1(1) allowed_append w1_def)
  obtain x2 y2 where 2: "y1 @ bs = x2 @ y2" "read_queued (app_run lv x2 w1)" "irq_inv lv (app_run lv x2 w1)"
    using wait_stage.reaches [OF 1(3,2), of "y1 @ bs", folded w1_def] a1 assms(4) by (auto simp: allowed_append)
  define w2 where "w2 = app_run lv x2 w1"
  have yz: "y1 @ bs @ cs = x2 @ y2 @ cs" using arg_cong [OF 2(1), of "\<lambda>l. l @ cs"] by simp
  have a2: "app_allowed lv (y2 @ cs) w2"
    using a1 unfolding yz allowed_append [of _ _ x2] w2_def by simp
  obtain m where m: "m < i2c_monitor_MAX_QUEUE" "queued I2C_EVENT_IO_CHIP_READ m w2"
    using 2(2) by (auto simp: read_queued_def w2_def)
  obtain x3 y3 where 3: "y2 @ cs = x3 @ y3" "served (app_run lv x3 w2)"
    using read_stage.reaches [OF 2(3) m(2) [unfolded w2_def], folded w2_def, OF a2] m(1) assms(5) by auto
  have "as @ bs @ cs = (x1 @ x2 @ x3) @ y3"
    using 1(1) yz 3(1) by simp
  moreover have "served (app_run lv (x1 @ x2 @ x3) w)" using 3(2) by (simp add: w1_def w2_def)
  ultimately show ?thesis by blast
qed

section \<open>From the start\<close>

lemma monitor_init_irq:
  assumes "bus_ok lv b" and "exti_on (hist b)" and "i2c_monitor_init lv pdPASS True (app_world0\<lparr>bus := b\<rparr>) = (r, w0)"
  shows "r = pdPASS \<and> irq_inv lv w0 \<and> irq_on w0 \<and> queue w0 = []"
proof -
  obtain v b' where 1: "pcf8574_i2c_read lv b = (pdPASS, [v], b')" "bus_ok lv b'" using expander_read [OF assms(1)] .
  have on: "exti_on (hist b')" using exti_transfers(2) [of lv b] assms(2) by (simp add: 1(1))
  have ten: "SYSTEM_TIME_MAX_TRIGGERS = Suc 9" by (simp add: SYSTEM_TIME_MAX_TRIGGERS_def)
  let ?t = "initalize EVENT_I2C_DEV_UPDATE_TIMER_TIGGER (TIME_MANAGE_CNT I2C_DEVICE_UPDATE_TIME_MS) None
      TIMER_TRIGGER_FOREVER (Some I2cTriggerFunc) (trigger0\<lparr>used := 1\<rparr>)"
  have t0: "free_trigger (trigger0 :: TimerFunction TimeTrigger) = trigger0" "used (trigger0 :: TimerFunction TimeTrigger) = 0"
    by (simp_all add: free_trigger_def trigger0_def getCount_def)
  have reg: "register_loop set_up (replicate SYSTEM_TIME_MAX_TRIGGERS (trigger0 :: TimerFunction TimeTrigger))
      = (True, set_up (trigger0\<lparr>used := 1\<rparr>) # replicate 9 trigger0)" for set_up
    unfolding ten replicate_Suc by (simp add: t0)
  have w0: "r = pdPASS" "bus w0 = b'" "queue w0 = []" "triggerList (timers w0) = ?t # replicate 9 trigger0"
    using assms(3)
    by (auto simp: i2c_monitor_init_def 1(1) app_world0_def registerDevUpdateTimeTrigger_def removeDevUpdateTimeTrigger_def
        removeEventTrigger_def registerEventTrigger_def SysTimeManage0_def t0 reg split: prod.splits)
  have t: "io_trigger ?t" "in_use i ?t = (i = EVENT_I2C_DEV_UPDATE_TIMER_TIGGER)" "\<not> armed ?t" for i
    by (auto simp: io_trigger_def in_use_def armed_def initalize_def EVENT_I2C_DEV_UPDATE_TIMER_TIGGER_def
        EVENT_I2C_IO_DELAY_TIMER_TIGGER_def)
  have off: "io_trigger trigger0" "\<not> in_use i trigger0" "\<not> armed trigger0" for i
    by (simp_all add: io_trigger_def in_use_def armed_def trigger0_def)
  have "io_triggers (triggerList (timers w0))"
    unfolding w0(4) by (simp add: io_triggers_def t off list_all_iff)
  moreover have "tokens w0 = 0" by (simp add: tokens_def w0(3,4) t off)
  ultimately show ?thesis using w0 1(2) on by (simp add: irq_inv_def)
qed

lemma pcf8574_init_on:
  assumes "pcf8574_driver_init b = (pdPASS, b')"
  shows "exti_on (hist b')"
  using assms by (auto simp: pcf8574_driver_init_def Let_def split_beta hw_emit_def split: if_splits)

text \<open>How many places of the queue a step can take: enough of them are enough for all steps.\<close>

fun places :: "app_op \<Rightarrow> nat" where
  "places (Timer mem taken) = 2"
| "places Round = 0"
| "places _ = 1"

lemma queue_grows:
  assumes "irq_inv lv w"
  shows "length (queue (app_step lv op w)) \<le> length (queue w) + places op"
proof (cases op)
  case (Timer mem taken)
  have io: "io_triggers (triggerList (timers w))" "list_all io_trigger (triggerList (timers w))"
    using assms by (simp_all add: irq_inv_def io_triggers_def)
  then show ?thesis
    using Timer due_length [OF io(2)] by (simp add: soft_loop_timer_io [OF io(2)] io_triggers_def min_def)
next
  case Round
  show ?thesis
  proof (cases "queue w")
    case (Cons e q)
    have "length (queue (serve lv e (w\<lparr>queue := q\<rparr>))) \<le> Suc (length q)"
      using serve_irq(1) [of lv e "w\<lparr>queue := q\<rparr>"] by (auto simp: min_def)
    then show ?thesis by (simp add: Round i2c_monitor_run_def Cons)
  qed (simp add: Round i2c_monitor_run_def)
qed (auto simp: write_io_irq isr_irq min_def)

lemma room_suffices:
  "irq_inv lv w \<Longrightarrow> Interrupt \<notin> set ops \<Longrightarrow> length (queue w) + sum_list (map places ops) \<le> i2c_monitor_MAX_QUEUE
     \<Longrightarrow> app_allowed lv ops w"
proof (induction ops arbitrary: w)
  case (Cons op ops)
  have p: "possible op w" using Cons.prems by (cases op) auto
  have "irq_inv lv (app_step lv op w)" by (rule irq_inv_step [OF Cons.prems(1) p])
  then show ?case using Cons.IH queue_grows [OF Cons.prems(1), of op] Cons.prems p by simp
qed simp

lemma interrupt_queued:
  assumes "irq_inv lv w" and "possible Interrupt w"
  shows "irq_inv lv (app_step lv Interrupt w) \<and> \<not> irq_on (app_step lv Interrupt w)
     \<and> queue (app_step lv Interrupt w) = queue w @ [delay_event]"
proof -
  have "GPIO_PIN_12 \<noteq> 0" by (simp add: GPIO_PIN_12_def)
  then show ?thesis using irq_inv_step [OF assms] assms(2) by (simp add: isr_irq line_pending fill_room)
qed

text \<open>
  C6. With devices that acknowledge, an interrupt of the port expander is switched off by its
  handler and served: whatever other tasks ask for in between, as long as the interrupt and the
  timer find room in the queue, 32 rounds of the I2C task, five periods of the timer manager and 32
  further rounds lead to a moment at which the interrupt is on again, nothing is pending, and the
  task has just read the expander and the sensor, whose bytes on the wire are the values it keeps.
\<close>

theorem expander_interrupt_served:
  assumes "on_bus b" and "bus_inv b" and "acknowledges lv board_i2c_info" and "exti_on (hist b)"
    and "i2c_monitor_init lv pdPASS True (app_world0\<lparr>bus := b\<rparr>) = (r, w0)"
    and "app_allowed lv (us @ Interrupt # as @ bs @ cs) w0"
    and "32 \<le> length (filter (\<lambda>op. op = Round) as)" and "5 \<le> length (filter is_tick bs)"
    and "32 \<le> length (filter (\<lambda>op. op = Round) cs)"
  shows "\<not> irq_on (app_run lv (us @ [Interrupt]) w0)
     \<and> (\<exists>xs ys. as @ bs @ cs = xs @ ys \<and> served (app_run lv (us @ Interrupt # xs) w0))"
proof -
  have "bus_ok lv b" using assms(1-3) by (simp add: bus_ok_def)
  note i = monitor_init_irq [OF this assms(4,5)]
  define w where "w = app_run lv us w0"
  have w: "irq_inv lv w" using delay_stage.inv_run [of lv w0 us] i assms(6) by (simp add: w_def allowed_append)
  have p: "possible Interrupt w" "app_allowed lv (as @ bs @ cs) (app_step lv Interrupt w)"
    using assms(6) by (simp_all add: w_def allowed_append)
  note n = interrupt_queued [OF w p(1)]
  have "queued I2C_EVENT_IO_DELAY_READ (length (queue w)) (app_step lv Interrupt w)"
    unfolding queued_def
    by (intro exI [of _ "queue w"] exI [of _ delay_event] exI [of _ "[]"]) (simp add: n del: app_step.simps, simp add: delay_event_def)
  moreover have "length (queue w) < 32" using p(1) by (simp add: i2c_monitor_MAX_QUEUE_def)
  ultimately obtain xs ys where "as @ bs @ cs = xs @ ys" "served (app_run lv xs (app_step lv Interrupt w))"
    using token_served [of lv "app_step lv Interrupt w" "length (queue w)" as bs cs] n assms(7-9) p(2)
    by (auto simp: i2c_monitor_MAX_QUEUE_def)
  then show ?thesis using n unfolding w_def by auto
qed

text \<open>
  The board after start-up: another task has asked for an output when the line of the expander falls.
\<close>

lemma board_start:
  obtains r w0 where "i2c_monitor_init (ack_device board_i2c_info) pdPASS True
      (app_world0\<lparr>bus := snd (pcf8574_driver_init i2c_world0)\<rparr>) = (r, w0)"
    and "irq_inv (ack_device board_i2c_info) w0" and "irq_on w0" and "queue w0 = []"
    and "on_bus (snd (pcf8574_driver_init i2c_world0))" and "bus_inv (snd (pcf8574_driver_init i2c_world0))"
    and "exti_on (hist (snd (pcf8574_driver_init i2c_world0)))"
proof -
  let ?b = "snd (pcf8574_driver_init i2c_world0)" and ?lv = "ack_device board_i2c_info"
  obtain r1 b where i: "pcf8574_driver_init i2c_world0 = (r1, b)" by fastforce
  note p = pcf8574_init_bus [OF bus_inv0 i]
  have on: "exti_on (hist ?b)" using pcf8574_init_on [of i2c_world0 b] p i by simp
  obtain r w0 where 0: "i2c_monitor_init ?lv pdPASS True (app_world0\<lparr>bus := ?b\<rparr>) = (r, w0)" by fastforce
  have "bus_ok ?lv ?b" using p i ack_device_acknowledges by (simp add: bus_ok_def)
  from monitor_init_irq [OF this on 0] show ?thesis using that [OF 0] on p i by simp
qed

abbreviation quiet :: "nat \<Rightarrow> app_op list" where "quiet n \<equiv> replicate n Round"

theorem expander_interrupt_served_witness:
  "let lv = ack_device board_i2c_info; tick = Timer (\<lambda>_. 0) True;
       w0 = snd (i2c_monitor_init lv pdPASS True (app_world0\<lparr>bus := snd (pcf8574_driver_init i2c_world0)\<rparr>))
   in \<exists>xs ys. quiet 32 @ [tick, tick, tick, tick, tick] @ quiet 32 = xs @ ys
        \<and> served (app_run lv ([Write_IO OUTPUT_USB_PWR IO_ON] @ Interrupt # xs) w0)"
proof -
  let ?lv = "ack_device board_i2c_info" and ?tick = "Timer (\<lambda>_. 0) True"
  let ?ticks = "[?tick, ?tick, ?tick, ?tick, ?tick]" and ?us = "[Write_IO OUTPUT_USB_PWR IO_ON]"
  obtain r w0 where 0: "i2c_monitor_init ?lv pdPASS True (app_world0\<lparr>bus := snd (pcf8574_driver_init i2c_world0)\<rparr>) = (r, w0)"
    "irq_inv ?lv w0" "irq_on w0" "queue w0 = []"
    "on_bus (snd (pcf8574_driver_init i2c_world0))" "bus_inv (snd (pcf8574_driver_init i2c_world0))"
    "exti_on (hist (snd (pcf8574_driver_init i2c_world0)))"
    by (rule board_start)
  define w1 where "w1 = pcf8574_write_io OUTPUT_USB_PWR IO_ON w0"
  have 1: "irq_inv ?lv w1" "queue w1 = [write_event]" "irq_on w1"
    using irq_inv_step [OF 0(2), of "Write_IO OUTPUT_USB_PWR IO_ON"] 0(3,4)
    by (simp_all add: w1_def write_io_irq) (simp add: fill_def i2c_monitor_MAX_QUEUE_def)
  have p: "possible Interrupt w1" using 1 by (simp add: i2c_monitor_MAX_QUEUE_def)
  note n = interrupt_queued [OF 1(1) p]
  have "app_allowed ?lv (quiet 32 @ ?ticks @ quiet 32) (app_step ?lv Interrupt w1)"
    using n by (intro room_suffices) (simp_all add: 1(2) sum_list_replicate i2c_monitor_MAX_QUEUE_def del: app_step.simps)
  then have a: "app_allowed ?lv (?us @ Interrupt # quiet 32 @ ?ticks @ quiet 32) w0"
    using p by (simp add: w1_def del: possible.simps(1))
  from expander_interrupt_served [OF 0(5,6) ack_device_acknowledges 0(7,1) a]
  have "\<exists>xs ys. quiet 32 @ ?ticks @ quiet 32 = xs @ ys \<and> served (app_run ?lv (?us @ Interrupt # xs) w0)"
    by simp
  then show ?thesis unfolding Let_def 0(1) snd_conv .
qed

section \<open>The token is lost\<close>

text \<open>
  The handler does not look at what sending the event returned. Without a token nothing switches the
  interrupt on again.
\<close>

definition dead :: "app_world \<Rightarrow> bool" where
  "dead w \<longleftrightarrow> io_triggers (triggerList (timers w)) \<and> tokens w = 0 \<and> \<not> irq_on w"

text \<open>The interrupt controller lets the interrupt run only while it is on.\<close>

fun lets_run :: "app_op \<Rightarrow> app_world \<Rightarrow> bool" where
  "lets_run Interrupt w \<longleftrightarrow> irq_on w"
| "lets_run _ w \<longleftrightarrow> True"

lemma fill_none:
  "filter token_event es = [] \<Longrightarrow> filter token_event q = [] \<Longrightarrow> filter token_event (fill es q) = []"
  using filter_is_subset [of token_event es] by (auto simp: fill_def filter_empty_conv dest: in_set_takeD)

lemma dead_step:
  assumes "dead w" and "lets_run op w"
  shows "dead (app_step lv op w) \<and> pcf8574_read_data (app_step lv op w) = pcf8574_read_data w"
proof (cases op)
  case (Write_IO pin st)
  then show ?thesis using assms(1) by (simp add: dead_def write_io_irq tokens_def)
next
  case Interrupt
  then show ?thesis using assms by (simp add: dead_def)
next
  case (Timer mem taken)
  have io: "io_triggers (triggerList (timers w))" "list_all io_trigger (triggerList (timers w))"
    using assms(1) by (simp_all add: dead_def io_triggers_def)
  have "length (filter armed (triggerList (timers w))) = 0" "filter token_event (queue w) = []"
    using assms(1) by (simp_all add: dead_def tokens_def)
  moreover from this have "length (filter token_event (concat (map due (triggerList (timers w))))) = 0"
    "length (filter armed (map tick (triggerList (timers w)))) = 0"
    using due_tokens [OF io(2)] by linarith+
  ultimately show ?thesis
    using assms(1) Timer io_triggers_tick [OF io(1)]
    by (simp add: dead_def soft_loop_timer_io [OF io(2)] tokens_def fill_none filter_map)
next
  case Round
  show ?thesis
  proof (cases "queue w")
    case (Cons e q)
    have "tokens (w\<lparr>queue := q\<rparr>) = 0" "\<not> token_event e"
      using assms(1) tokens_head [OF Cons] by (auto simp: dead_def split: if_splits)
    moreover from this have e: "ev_id e \<noteq> I2C_EVENT_IO_DELAY_READ" "ev_id e \<noteq> I2C_EVENT_IO_CHIP_READ"
      by (auto simp: token_event_def)
    moreover have "io_triggers (triggerList (timers (w\<lparr>queue := q\<rparr>)))" using assms(1) by (simp add: dead_def)
    ultimately have "dead (serve lv e (w\<lparr>queue := q\<rparr>))"
      using serve_tokens(1,2) [where w = "w\<lparr>queue := q\<rparr>" and lv = lv and e = e]
        serve_irq(4) [of lv e "w\<lparr>queue := q\<rparr>"] assms(1) by (simp add: dead_def)
    moreover have "pcf8574_read_data (serve lv e (w\<lparr>queue := q\<rparr>)) = pcf8574_read_data w"
      using e by (simp add: serve_def ap3216_run_irq PRINT_LOG_def split_beta)
    ultimately show ?thesis by (simp add: Round i2c_monitor_run_def Cons)
  qed (use assms(1) Round in \<open>simp add: i2c_monitor_run_def\<close>)
qed

lemma dead_run:
  "dead w \<Longrightarrow> allowed (app_step lv) lets_run ops w
     \<Longrightarrow> dead (app_run lv ops w) \<and> pcf8574_read_data (app_run lv ops w) = pcf8574_read_data w"
proof (induction ops arbitrary: w)
  case (Cons op ops)
  then show ?case using dead_step [of w op lv] by simp
qed simp

text \<open>
  C20. When the line of the expander falls while 32 events wait for the I2C task, the event is
  dropped but the interrupt has been switched off: whatever happens afterwards, it is never switched
  on again and the inputs of the expander are never read again.
\<close>

theorem expander_interrupt_lost:
  assumes "on_bus b" and "bus_inv b" and "acknowledges lv board_i2c_info" and "exti_on (hist b)"
    and "i2c_monitor_init lv pdPASS True (app_world0\<lparr>bus := b\<rparr>) = (r, w0)"
    and "app_allowed lv us w0" and "w = app_run lv us w0" and "irq_on w" and "length (queue w) = i2c_monitor_MAX_QUEUE"
    and "allowed (app_step lv) lets_run ops (app_step lv Interrupt w)"
  shows "\<not> irq_on (app_run lv (Interrupt # ops) w)
     \<and> pcf8574_read_data (app_run lv (Interrupt # ops) w) = pcf8574_read_data w"
proof -
  have "bus_ok lv b" using assms(1-3) by (simp add: bus_ok_def)
  note i = monitor_init_irq [OF this assms(4,5)]
  have w: "irq_inv lv w" using delay_stage.inv_run [of lv w0 us] i assms(6) by (simp add: assms(7))
  then have t: "tokens w = 0" using assms(8) by (simp add: irq_inv_def)
  have s: "app_step lv Interrupt w = w\<lparr>pending := (pending w OR GPIO_PIN_12) AND NOT GPIO_PIN_12,
      bus := hw_emit [DisableIRQ EXTI15_10_IRQn] (bus w)\<rparr>"
    using line_pending [of "pending w"] assms(9) by (simp add: isr_irq fill_def del: word_log_esimps)
  have "dead (app_step lv Interrupt w)" using w t unfolding s by (simp add: dead_def irq_inv_def)
  from dead_run [OF this assms(10)] show ?thesis by (simp add: dead_def del: app_step.simps) (simp add: s del: app_step.simps)
qed

text \<open>Tasks have asked for 32 outputs when the line falls; then the I2C task gets to run.\<close>

lemma requests_fill:
  "irq_inv lv w \<Longrightarrow> length (queue w) + n \<le> i2c_monitor_MAX_QUEUE
     \<Longrightarrow> app_allowed lv (replicate n (Write_IO pin st)) w
       \<and> length (queue (app_run lv (replicate n (Write_IO pin st)) w)) = length (queue w) + n
       \<and> irq_on (app_run lv (replicate n (Write_IO pin st)) w) = irq_on w"
proof (induction n arbitrary: w)
  case (Suc n)
  have q: "length (queue (pcf8574_write_io pin st w)) = Suc (length (queue w))"
    using Suc.prems(2) by (simp add: write_io_irq min_def)
  have "irq_inv lv (pcf8574_write_io pin st w)" using irq_inv_step [OF Suc.prems(1), of "Write_IO pin st"] by simp
  from Suc.IH [OF this] show ?case using Suc.prems(2) by (simp add: q) (simp add: write_io_irq)
qed simp

theorem expander_interrupt_lost_witness:
  "let lv = ack_device board_i2c_info;
       w0 = snd (i2c_monitor_init lv pdPASS True (app_world0\<lparr>bus := snd (pcf8574_driver_init i2c_world0)\<rparr>));
       w = app_run lv (replicate 32 (Write_IO OUTPUT_BEEP IO_ON)) w0
   in irq_on w \<and> \<not> irq_on (app_run lv (Interrupt # quiet 40) w)"
proof -
  let ?lv = "ack_device board_i2c_info" and ?us = "replicate 32 (Write_IO OUTPUT_BEEP IO_ON)"
  obtain r w0 where 0: "i2c_monitor_init ?lv pdPASS True (app_world0\<lparr>bus := snd (pcf8574_driver_init i2c_world0)\<rparr>) = (r, w0)"
    "irq_inv ?lv w0" "irq_on w0" "queue w0 = []"
    "on_bus (snd (pcf8574_driver_init i2c_world0))" "bus_inv (snd (pcf8574_driver_init i2c_world0))"
    "exti_on (hist (snd (pcf8574_driver_init i2c_world0)))"
    by (rule board_start)
  have f: "app_allowed ?lv ?us w0" "length (queue (app_run ?lv ?us w0)) = i2c_monitor_MAX_QUEUE" "irq_on (app_run ?lv ?us w0)"
    using requests_fill [OF 0(2), of 32 OUTPUT_BEEP IO_ON] 0(3,4) by (simp_all add: i2c_monitor_MAX_QUEUE_def)
  have "allowed (app_step ?lv) lets_run (replicate n Round) w" for n w
    by (induction n arbitrary: w) (simp_all del: app_step.simps)
  then show ?thesis
    using expander_interrupt_lost [OF 0(5,6) ack_device_acknowledges 0(7,1) f(1) refl f(3,2), of "quiet 40"] f(3)
    unfolding Let_def 0(1) snd_conv by blast
qed

end
