(* ===== verification/Soft_Flash.thy ===== *)
theory Soft_Flash
  imports W25q Soft_SPI
begin

text \<open>
  The other two variants of the SPI port in \<^verbatim>\<open>drv_spi.c\<close>, by polling and by the software bus, and the
  serial flash on the software bus: a W25Q chip that knows only the four wires, clocks in a bit at each
  rising edge and shows a bit at each falling one. The lemmas show that the chip at the wires and the
  software port together are the byte-level slave of \<open>W25q\<close>, so that the driver over pins is the same
  array of bytes.
\<close>

section \<open>The port by polling\<close>

definition spi_driver_init_poll :: "spi_hal \<Rightarrow> spi_history \<Rightarrow> BaseType_t \<times> spi_history" where
  "spi_driver_init_poll hw h =
     (let h = Spi_Gpio (ClockEnable GPIOF) # h;
          h = Spi_Gpio (PeriphClock RCC_SPI5) # h;
          h = Spi_Gpio (WritePin GPIOF GPIO_PIN_6 True) # h;
          g = gpio_init0\<lparr>Pin := GPIO_PIN_7 OR GPIO_PIN_8 OR GPIO_PIN_9, Mode := GPIO_MODE_AF_PP, Pull := GPIO_PULLUP,
                Speed := GPIO_SPEED_FREQ_VERY_HIGH, Alternate := 5\<rparr>;
          h = Spi_Gpio (InitPin GPIOF g) # h;
          g = g\<lparr>Pin := GPIO_PIN_6, Mode := GPIO_MODE_OUTPUT_PP, Pull := GPIO_PULLUP, Speed := GPIO_SPEED_FREQ_HIGH\<rparr>;
          h = Spi_Gpio (InitPin GPIOF g) # h;
          h = Spi_Init spi5_init # h
      in if hal_spi_init hw \<noteq> HAL_OK then (pdFAIL, h) else (pdPASS, h))"

definition spi_rw_byte_poll :: "spi_hal \<Rightarrow> u8 \<Rightarrow> spi_history \<Rightarrow> u8 \<times> HAL_StatusTypeDef \<times> spi_history" where
  "spi_rw_byte_poll hw data h =
     (let (status, rx) = hal_xfer hw h data
      in (case rx of None \<Rightarrow> 0xff | Some r \<Rightarrow> r, status, Spi_Xfer data status # h))"

section \<open>The port by software\<close>

definition SOFT_SPI5 :: u8 where "SOFT_SPI5 = 4"

definition spi5_pins :: SOFT_SPI_INFO where
  "spi5_pins = \<lparr>spi_mode = SPI_MODE_CPOL_H_CPHA_2, sck_pin = ucast GPIO_PIN_7, sck_port = GPIOF,
     mosi_pin = ucast GPIO_PIN_9, mosi_port = GPIOF, miso_pin = ucast GPIO_PIN_8, miso_port = GPIOF\<rparr>"

definition pin_event :: "hw_event \<Rightarrow> spi_world \<Rightarrow> spi_world" where
  "pin_event e w = w\<lparr>spi_world.spi_hist := e # spi_world.spi_hist w\<rparr>"

definition spi_driver_init_soft :: "spi_world \<Rightarrow> BaseType_t \<times> spi_world" where
  "spi_driver_init_soft w =
     (let w = pin_event (ClockEnable GPIOF) w;
          (r, w) = spi_soft_init SOFT_SPI5 spi5_pins w
      in if r \<noteq> SPI_OK then (pdFAIL, w)
         else
           let w = pin_event (WritePin GPIOF GPIO_PIN_6 True) w;
               g = gpio_init0\<lparr>Pin := GPIO_PIN_6, Mode := GPIO_MODE_OUTPUT_PP, Pull := GPIO_PULLUP,
                     Speed := GPIO_SPEED_FREQ_HIGH\<rparr>
           in (pdPASS, pin_event (InitPin GPIOF g) w))"

text \<open>The byte received stays \<open>0xff\<close> when nothing was stored.\<close>

definition spi_rw_byte_soft :: "levels \<Rightarrow> u8 \<Rightarrow> spi_world \<Rightarrow> u8 \<times> HAL_StatusTypeDef \<times> spi_world" where
  "spi_rw_byte_soft lv data w =
     (let (spi_status, rdata, w) = spi_soft_rw_byte lv SOFT_SPI5 (Some [data]) True 1 w
      in (case rdata of [] \<Rightarrow> 0xff | r # _ \<Rightarrow> r, if spi_status = SPI_OK then HAL_OK else HAL_ERROR, w))"

section \<open>The driver over the software port\<close>

text \<open>
  The port after a history of the flash driver, which sets the chip-select pin, exchanges bytes and
  waits; and what the port then answers to a byte. The pins of the bus belong to the port: the driver
  does not touch them, and such an event would be left out.
\<close>

definition driver_pin :: "hw_event \<Rightarrow> bool" where
  "driver_pin e \<longleftrightarrow> (case e of WritePin port pin b \<Rightarrow> port = GPIOF \<longrightarrow> pin \<noteq> GPIO_PIN_7 \<and> pin \<noteq> GPIO_PIN_9
     | DelayMs ms \<Rightarrow> False | _ \<Rightarrow> True)"

fun soft_port :: "levels \<Rightarrow> spi_world \<Rightarrow> spi_history \<Rightarrow> spi_world" where
  "soft_port lv w [] = w"
| "soft_port lv w (Spi_Gpio e # h) = (if driver_pin e then pin_event e (soft_port lv w h) else soft_port lv w h)"
| "soft_port lv w (Spi_Xfer b s # h) = snd (snd (spi_rw_byte_soft lv b (soft_port lv w h)))"
| "soft_port lv w (Spi_Delay ms # h) = pin_event (DelayMs ms) (soft_port lv w h)"
| "soft_port lv w (_ # h) = soft_port lv w h"

definition soft_hal :: "levels \<Rightarrow> spi_world \<Rightarrow> spi_hal \<Rightarrow> spi_hal" where
  "soft_hal lv w hw =
     hw\<lparr>hal_xfer := (\<lambda>h b. let (r, status, _) = spi_rw_byte_soft lv b (soft_port lv w h) in (status, Some r))\<rparr>"

section \<open>The chip at the wires\<close>

text \<open>
  The chip with the levels it sees on clock and data, the bits of the byte under way and the level of
  its output, which is high while it is not selected.
\<close>

record wire_chip =
  chip :: nor
  c_sck :: bool
  c_di :: bool
  c_bits :: "bool list"
  c_do :: bool

definition chip_sck :: "nor_part \<Rightarrow> bool \<Rightarrow> wire_chip \<Rightarrow> wire_chip" where
  "chip_sck p b c =
     (if b = c_sck c then c
      else if \<not> b then c\<lparr>c_sck := False, c_do := bit (nor_out p (chip c)) (7 - length (c_bits c))\<rparr>
      else if \<not> n_sel (chip c) then c\<lparr>c_sck := True\<rparr>
      else let bs = c_bits c @ [c_di c]
           in if length bs = 8 then c\<lparr>c_sck := True, chip := nor_clk (bits_byte bs) (chip c), c_bits := []\<rparr>
              else c\<lparr>c_sck := True, c_bits := bs\<rparr>)"

fun wire_event :: "nor_part \<Rightarrow> hw_event \<Rightarrow> wire_chip \<Rightarrow> wire_chip" where
  "wire_event p (WritePin port pin b) c =
     (if port \<noteq> GPIOF then c
      else if pin = GPIO_PIN_7 then chip_sck p b c
      else if pin = GPIO_PIN_9 then c\<lparr>c_di := b\<rparr>
      else if pin = GPIO_PIN_6 then c\<lparr>chip := nor_select p (\<not> b) (chip c), c_bits := []\<rparr>
      else c)"
| "wire_event p (DelayMs ms) c = c\<lparr>chip := (chip c)\<lparr>n_busy := n_busy (chip c) - unat ms\<rparr>\<rparr>"
| "wire_event p _ c = c"

definition wire_after :: "nor_part \<Rightarrow> wire_chip \<Rightarrow> history \<Rightarrow> wire_chip" where
  "wire_after p c0 h = foldr (wire_event p) h c0"

text \<open>The chip's output is wired to the input pin.\<close>

definition wired :: "levels \<Rightarrow> nor_part \<Rightarrow> wire_chip \<Rightarrow> bool" where
  "wired lv p c0 \<longleftrightarrow> (\<forall>h. lv h GPIOF GPIO_PIN_8 = c_do (wire_after p c0 h))"

lemma wire_after_Cons [simp]: "wire_after p c0 (e # h) = wire_event p e (wire_after p c0 h)"
  by (simp add: wire_after_def)

text \<open>Between two bytes.\<close>

definition rests :: "nor \<Rightarrow> wire_chip \<Rightarrow> bool" where
  "rests n c \<longleftrightarrow> chip c = n \<and> c_sck c \<and> c_bits c = []"

lemmas spi5_simps = spi5_pins_def GPIO_PIN_6_def GPIO_PIN_7_def GPIO_PIN_8_def GPIO_PIN_9_def

lemma bits_selected:
  assumes "wired lv p c0" and "wire_after p c0 h = c" and "n_sel (chip c)" and "c_sck c"
    and "length (c_bits c) + n = 8" and "n \<noteq> 0"
  shows "\<exists>h' c'. spi_bits True lv spi5_pins n data rdata h
            = (foldl shift_in rdata (map (\<lambda>i. bit (nor_out p (chip c)) (7 - i)) [length (c_bits c)..<8]), h')
        \<and> wire_after p c0 h' = c' \<and> rests (nor_clk (bits_byte (c_bits c @ top_bits n data)) (chip c)) c'"
  using assms(2-)
proof (induction n arbitrary: data rdata h c)
  case (Suc n)
  let ?k = "length (c_bits c)"
  define h1 where "h1 = spi_sck spi5_pins True (spi_delay SPI_DELAY_COUNT (HAL_GPIO_WritePin (mosi_port spi5_pins)
      (ucast (mosi_pin spi5_pins)) (msb data) (spi_sck spi5_pins False h)))"
  define b where "b = lv h1 GPIOF GPIO_PIN_8"
  define h2 where "h2 = spi_delay SPI_DELAY_COUNT (ReadPin GPIOF GPIO_PIN_8 b # h1)"
  have step: "spi_bits True lv spi5_pins (Suc n) data rdata h = spi_bits True lv spi5_pins n (push_bit 1 data) (shift_in rdata b) h2"
    by (simp add: h1_def h2_def b_def SPI_MISO_INPUT_def HAL_GPIO_ReadPin_def Let_def spi5_simps)
  define c1 where "c1 = c\<lparr>c_do := bit (nor_out p (chip c)) (7 - ?k), c_di := msb data\<rparr>"
  define c2 where "c2 = (if n = 0 then c1\<lparr>chip := nor_clk (bits_byte (c_bits c @ [msb data])) (chip c), c_bits := []\<rparr>
      else c1\<lparr>c_bits := c_bits c @ [msb data]\<rparr>)"
  have k: "Suc ?k = 8 \<longleftrightarrow> n = 0" using Suc.prems(4) by arith
  have h1: "wire_after p c0 h1 = c2"
    using Suc.prems(1-3) k
    by (cases c) (simp add: h1_def c2_def c1_def hw_defs spi5_simps chip_sck_def Let_def)
  have b: "b = bit (nor_out p (chip c)) (7 - ?k)"
    using assms(1) h1 by (simp add: b_def wired_def c2_def c1_def)
  have h2: "wire_after p c0 h2 = c2" using h1 by (simp add: h2_def hw_defs)
  have idx: "[?k..<8] = ?k # [Suc ?k..<8]" using Suc.prems(4) by (subst upt_conv_Cons) simp_all
  show ?case
  proof (cases "n = 0")
    case True
    then have "[Suc ?k..<8] = []" using k by simp
    moreover have "rests (nor_clk (bits_byte (c_bits c @ top_bits (Suc n) data)) (chip c)) c2"
      using True Suc.prems(3) by (simp add: rests_def c2_def c1_def)
    ultimately show ?thesis unfolding step idx using True h2 b by simp
  next
    case False
    then have c2: "n_sel (chip c2)" "c_sck c2" "length (c_bits c2) + n = 8" "chip c2 = chip c"
      "c_bits c2 = c_bits c @ [msb data]"
      using Suc.prems(2-4) by (simp_all add: c2_def c1_def)
    obtain h' c' where "spi_bits True lv spi5_pins n (push_bit 1 data) (shift_in rdata b) h2
            = (foldl shift_in (shift_in rdata b) (map (\<lambda>i. bit (nor_out p (chip c2)) (7 - i)) [length (c_bits c2)..<8]), h')"
      "wire_after p c0 h' = c'" "rests (nor_clk (bits_byte (c_bits c2 @ top_bits n (push_bit 1 data))) (chip c2)) c'"
      using Suc.IH [OF h2 c2(1-3) False] by blast
    then show ?thesis unfolding step idx by (simp add: b c2(4,5))
  qed
qed simp

text \<open>A chip that is not selected shows ones and keeps its state.\<close>

lemma bits_unselected:
  assumes "wired lv p c0" and "rests m (wire_after p c0 h)" and "\<not> n_sel m"
  shows "\<exists>h'. spi_bits True lv spi5_pins n data rdata h = (foldl shift_in rdata (replicate n True), h')
        \<and> rests m (wire_after p c0 h')"
  using assms(2)
proof (induction n arbitrary: data rdata h)
  case (Suc n)
  define h1 where "h1 = spi_sck spi5_pins True (spi_delay SPI_DELAY_COUNT (HAL_GPIO_WritePin (mosi_port spi5_pins)
      (ucast (mosi_pin spi5_pins)) (msb data) (spi_sck spi5_pins False h)))"
  define b where "b = lv h1 GPIOF GPIO_PIN_8"
  define h2 where "h2 = spi_delay SPI_DELAY_COUNT (ReadPin GPIOF GPIO_PIN_8 b # h1)"
  have step: "spi_bits True lv spi5_pins (Suc n) data rdata h = spi_bits True lv spi5_pins n (push_bit 1 data) (shift_in rdata b) h2"
    by (simp add: h1_def h2_def b_def SPI_MISO_INPUT_def HAL_GPIO_ReadPin_def Let_def spi5_simps)
  have o: "nor_out p m = 0xFF" using assms(3) by (simp add: nor_out_def)
  have ff: "bit (0xFF :: u8) 7" unfolding msb_bit [symmetric] by (simp add: msb_def)
  have h1: "rests m (wire_after p c0 h1) \<and> c_do (wire_after p c0 h1)"
    using Suc.prems assms(3) o ff by (simp add: h1_def rests_def hw_defs spi5_simps chip_sck_def Let_def)
  then have "b" using assms(1) by (simp add: b_def wired_def)
  moreover have "rests m (wire_after p c0 h2)" using h1 by (simp add: h2_def hw_defs)
  ultimately show ?case using Suc.IH [of h2 "push_bit 1 data" "shift_in rdata b"] unfolding step by simp
qed auto

section \<open>The two views agree\<close>

definition port_ok :: "spi_world \<Rightarrow> bool" where
  "port_ok w \<longleftrightarrow> is_spi_init w ! unat SOFT_SPI5 \<noteq> 0 \<and> spi_list w ! unat SOFT_SPI5 = spi5_pins"

abbreviation pins_of :: "spi_world \<Rightarrow> history" where "pins_of \<equiv> spi_world.spi_hist"

lemma soft_byte:
  assumes "wired lv p c0" and "port_ok w" and "rests m (wire_after p c0 (pins_of w))"
  shows "\<exists>w'. spi_rw_byte_soft lv b w = (nor_out p m, HAL_OK, w') \<and> port_ok w'
     \<and> rests (nor_clk b m) (wire_after p c0 (pins_of w'))"
proof -
  let ?c = "wire_after p c0 (pins_of w)"
  have c: "chip ?c = m" "c_sck ?c" "c_bits ?c = []" using assms(3) by (simp_all add: rests_def)
  have "\<exists>h'. spi_bits True lv spi5_pins 8 b 0 (pins_of w) = (nor_out p m, h') \<and> rests (nor_clk b m) (wire_after p c0 h')"
  proof (cases "n_sel m")
    case True
    then obtain h' where "spi_bits True lv spi5_pins 8 b 0 (pins_of w)
        = (foldl shift_in 0 (map (\<lambda>i. bit (nor_out p m) (7 - i)) [0..<8]), h')"
      "rests (nor_clk (bits_byte (top_bits 8 b)) m) (wire_after p c0 h')"
      using bits_selected [OF assms(1) refl, of "pins_of w" 8 b 0] c by auto
    moreover have "foldl shift_in 0 (map (\<lambda>i. bit (nor_out p m) (7 - i)) [0..<8]) = nor_out p m"
      unfolding bits_byte_def [symmetric] byte_bits_def [symmetric] by simp
    ultimately show ?thesis by (simp add: top_bits_8)
  next
    case False
    moreover have "foldl shift_in 0 (replicate 8 True) = 0xFF"
      by (simp add: shift_in_def eval_nat_numeral)
    moreover have "nor_out p m = 0xFF" "nor_clk b m = m" using False by (simp_all add: nor_out_def nor_clk_def)
    ultimately show ?thesis using bits_unselected [OF assms(1,3) False, of 8 b 0] by auto
  qed
  then obtain h' where h': "spi_bits True lv spi5_pins 8 b 0 (pins_of w) = (nor_out p m, h')"
    "rests (nor_clk b m) (wire_after p c0 h')" by blast
  have "rests (nor_clk b m) (wire_after p c0 (spi_sck spi5_pins True h'))"
    using h'(2) by (simp add: rests_def hw_defs spi5_simps chip_sck_def)
  moreover have "spi_mode spi5_pins = SPI_MODE_CPOL_H_CPHA_2" by (simp add: spi5_pins_def)
  moreover have "sample_level SPI_MODE_CPOL_H_CPHA_2" "clock_idle SPI_MODE_CPOL_H_CPHA_2"
    by (simp_all add: sample_level_def clock_idle_def second_edge_def)
  ultimately show ?thesis
    using assms(2) h'(1)
    by (simp add: spi_rw_byte_soft_def spi_soft_rw_byte_def SOFT_SPI5_def SOFT_SPI_NUM_def port_ok_def Let_def
        spi_pfunc_bits SPI_OK_def)
qed

lemma soft_port_rests:
  assumes "wired lv p c0" and "port_ok w0" and "rests m (wire_after p c0 (pins_of w0))"
  shows "port_ok (soft_port lv w0 h) \<and> rests (nor_after p m h) (wire_after p c0 (pins_of (soft_port lv w0 h)))"
proof (induction h)
  case Nil
  then show ?case using assms by simp
next
  case (Cons e h)
  let ?w = "soft_port lv w0 h" and ?n = "nor_after p m h"
  have r: "port_ok ?w" "rests ?n (wire_after p c0 (pins_of ?w))" using Cons by auto
  have p: "port_ok (pin_event x w) = port_ok w" "pins_of (pin_event x w) = x # pins_of w" for x w
    by (simp_all add: port_ok_def pin_event_def)
  show ?case
  proof (cases e)
    case (Spi_Gpio x)
    have "GPIO_PIN_6 \<noteq> GPIO_PIN_7" "GPIO_PIN_6 \<noteq> GPIO_PIN_9" by (simp_all add: spi5_simps)
    then show ?thesis
      using r Spi_Gpio
      by (cases x) (auto simp: p nor_after_Cons nor_event_def driver_pin_def rests_def)
  next
    case (Spi_Xfer b s)
    then show ?thesis
      using soft_byte [OF assms(1) r, of b] by (auto simp: nor_after_Cons nor_event_def nor_clk_def)
  next
    case (Spi_Delay ms)
    then show ?thesis using r by (simp add: p nor_after_Cons nor_event_def rests_def)
  qed (use r in \<open>simp_all add: nor_after_Cons nor_event_def\<close>)
qed

lemma soft_hal_is_nor_hal:
  assumes "wired lv p c0" and "port_ok w0" and "rests m (wire_after p c0 (pins_of w0))"
  shows "soft_hal lv w0 hw = nor_hal p m hw"
proof -
  have "(let (r, status, _) = spi_rw_byte_soft lv b (soft_port lv w0 h) in (status, Some r))
      = (HAL_OK, Some (nor_out p (nor_after p m h)))" for h b
  proof -
    obtain w' where "spi_rw_byte_soft lv b (soft_port lv w0 h) = (nor_out p (nor_after p m h), HAL_OK, w')"
      using soft_byte [OF assms(1)] soft_port_rests [OF assms, of h] by blast
    then show ?thesis by simp
  qed
  then show ?thesis by (simp add: soft_hal_def nor_hal_def)
qed

lemma soft_init:
  assumes "rests m c0" and "nor_idle m" and "spi_driver_init_soft spi_world0 = (r, w0)"
  shows "r = pdPASS \<and> port_ok w0 \<and> rests m (wire_after p c0 (pins_of w0))"
proof -
  have "nor_select p False m = m" using assms(2) by (simp add: nor_select_def nor_idle_def)
  moreover have "is_spi_init spi_world0 ! 4 = 0" "length (is_spi_init spi_world0) = 6" "length (spi_list spi_world0) = 6"
    "pins_of spi_world0 = []" by (simp_all add: spi_world0_def)
  ultimately show ?thesis
    using assms(1,3)
    by (auto simp: spi_driver_init_soft_def spi_soft_init_def SOFT_SPI5_def SOFT_SPI_NUM_def pin_event_def Let_def
        spi_modes SPI_OK_def port_ok_def hw_defs spi5_simps rests_def chip_sck_def gpio_init0_def wire_after_def)
qed

section \<open>The flash over the software bus\<close>

text \<open>
  C3. The serial flash on the software bus: with a W25Q chip at the four pins, which clocks in a bit
  at each rising edge of the clock and shows one at each falling edge, the initialisation of the
  software port succeeds. When the chip is idle, identified and in the address mode of its size, any
  sequence of erases, writes inside one page and reads inside the array through the flash driver
  behaves as an array of bytes, as does the memory of the chip at the pins, as long as the chip
  finishes each operation used within the driver's limit: a page or a sector in less than 200
  readings of its status (a millisecond apart), a block or the whole chip in less than 5000.
\<close>

theorem flash_over_software_bus:
  assumes "wired lv p c0" and "rests m c0" and "nor_idle m" and "spi_driver_init_soft spi_world0 = (r, w0)"
    and "wq_ready p m w" and "wq_world.spi_hist w = []" and "\<forall>call\<in>set calls. wq_call_ok p call"
  shows "r = pdPASS
     \<and> (\<exists>w'. wq_calls_run (soft_hal lv w0 hw) calls w = (fst (array_steps calls (n_mem m)), w')
          \<and> n_mem (chip (wire_after p c0 (pins_of (soft_port lv w0 (wq_world.spi_hist w')))))
              = snd (array_steps calls (n_mem m)))"
proof -
  note i = soft_init [OF assms(2-4)]
  have h: "soft_hal lv w0 hw = nor_hal p m hw" using soft_hal_is_nor_hal [OF assms(1)] i by blast
  have "wq_ready p (nor_after p m (wq_world.spi_hist w)) w" using assms(5,6) by simp
  from wq_calls_array [OF this assms(7), of hw] obtain w' where
    w': "wq_calls_run (nor_hal p m hw) calls w = (fst (array_steps calls (n_mem m)), w')"
    "n_mem (nor_after p m (wq_world.spi_hist w')) = snd (array_steps calls (n_mem m))"
    by (auto simp: assms(6))
  have "rests (nor_after p m (wq_world.spi_hist w')) (wire_after p c0 (pins_of (soft_port lv w0 (wq_world.spi_hist w'))))"
    using soft_port_rests [OF assms(1)] i by blast
  then have "n_mem (chip (wire_after p c0 (pins_of (soft_port lv w0 (wq_world.spi_hist w')))))
      = snd (array_steps calls (n_mem m))" using w'(2) by (simp add: rests_def)
  then show ?thesis using i w'(1) by (auto simp: h)
qed

text \<open>The chip of the other properties, at the pins of the board.\<close>

definition demo_wire :: wire_chip where
  "demo_wire = \<lparr>chip = demo_nor, c_sck = True, c_di = True, c_bits = [], c_do = True\<rparr>"

definition board_levels :: "nor_part \<Rightarrow> wire_chip \<Rightarrow> levels" where
  "board_levels p c0 h port pin \<longleftrightarrow> c_do (wire_after p c0 h)"

theorem flash_over_software_bus_witness:
  "let w0 = snd (spi_driver_init_soft spi_world0)
   in fst (wq_calls_run (soft_hal (board_levels demo_part demo_wire) w0 W25q.demo_spi)
        [Wq_Sector_Erase 5000, Wq_Write 5000 [0x31, 0x32], Wq_Write 5001 [0xF0], Wq_Read 4999 4] demo_wq) =
      [(WQ_OP_OK, []), (WQ_OP_OK, []), (WQ_OP_OK, []), (WQ_OP_OK, [0xFF, 0x31, 0x30, 0xFF])]"
proof -
  let ?cs = "[Wq_Sector_Erase 5000, Wq_Write 5000 [0x31, 0x32], Wq_Write 5001 [0xF0], Wq_Read 4999 4]"
  obtain r w0 where i: "spi_driver_init_soft spi_world0 = (r, w0)" by fastforce
  have "wired (board_levels demo_part demo_wire) demo_part demo_wire" by (simp add: wired_def board_levels_def)
  moreover have "rests demo_nor demo_wire" "nor_idle demo_nor" by (simp_all add: rests_def demo_wire_def nor_idle_def demo_nor_def)
  moreover have "wq_world.spi_hist demo_wq = []" by (simp add: demo_wq_def)
  moreover from this have "wq_ready demo_part demo_nor demo_wq" using demo_wq_ready by simp
  moreover have "\<forall>call\<in>set ?cs. wq_call_ok demo_part call" by (simp add: demo_part_def)
  ultimately have "\<exists>w'. wq_calls_run (soft_hal (board_levels demo_part demo_wire) w0 W25q.demo_spi) ?cs demo_wq
      = (fst (array_steps ?cs (n_mem demo_nor)), w')"
    using flash_over_software_bus [OF _ _ _ i] by blast
  then show ?thesis
    unfolding Let_def i snd_conv by (auto simp: demo_nor_def flash_fill_def flash_program_def upt_rec Let_def)
qed

end
