(* ===== verification/I2C_Hardware.thy ===== *)
theory I2C_Hardware
  imports I2C_Devices
begin

text \<open>
  The hardware variants of the three I2C drivers (\<^verbatim>\<open>I2C_RUN_MODE\<close> set to \<^verbatim>\<open>I2C_USE_HARDWARE\<close>), over the
  HAL's driver of the port I2C2. A history records what is asked of the HAL, the most recent first; its
  answers are a parameter. With the frames that the HAL documents for its transfers, the lemmas compare
  the two variants at the bus.
\<close>

section \<open>The port\<close>

record I2C_InitTypeDef =
  ClockSpeed :: nat
  DutyCycle_2 :: bool
  OwnAddress1 :: u16
  AddressingMode_7Bit :: bool
  DualAddressMode :: bool
  OwnAddress2 :: u16
  GeneralCallMode :: bool
  NoStretchMode :: bool

text \<open>
  The transfers carry the HAL's arguments: the device's address in the upper seven bits of a byte, the
  number of the register and its size in bytes, the bytes to send or the number of bytes to read, and the
  limit in milliseconds.
\<close>

datatype i2c_request =
    I2c_Pin hw_event
  | I2c_Clock
  | I2c_Init I2C_InitTypeDef
  | I2c_AnalogFilter bool
  | I2c_DigitalFilter nat
  | I2c_Transmit u16 "u8 list" u32
  | I2c_Receive u16 u16 u32
  | I2c_MemWrite u16 u16 u16 "u8 list" u32
  | I2c_MemRead u16 u16 u16 u16 u32

type_synonym i2c_requests = "i2c_request list"

text \<open>What the HAL answers to a request after a history: its status, and the bytes it has stored.\<close>

type_synonym i2c_hal = "i2c_requests \<Rightarrow> i2c_request \<Rightarrow> HAL_StatusTypeDef \<times> u8 list"

definition i2c_ask :: "i2c_hal \<Rightarrow> i2c_request \<Rightarrow> i2c_requests \<Rightarrow> HAL_StatusTypeDef \<times> u8 list \<times> i2c_requests" where
  "i2c_ask hal q h = (let (status, vs) = hal h q in (status, vs, q # h))"

lemma i2c_ask_simp [simp]: "i2c_ask hal q h = (fst (hal h q), snd (hal h q), q # h)"
  by (simp add: i2c_ask_def split_beta)

definition i2c2_init :: I2C_InitTypeDef where
  "i2c2_init = \<lparr>ClockSpeed = 100000, DutyCycle_2 = True, OwnAddress1 = 0, AddressingMode_7Bit = True,
     DualAddressMode = False, OwnAddress2 = 0, GeneralCallMode = False, NoStretchMode = False\<rparr>"

definition i2c2_pins :: GPIO_InitTypeDef where
  "i2c2_pins = gpio_init0\<lparr>Pin := GPIO_PIN_4 OR GPIO_PIN_5, Mode := GPIO_MODE_AF_OD, Pull := GPIO_NOPULL,
     Speed := GPIO_SPEED_FREQ_VERY_HIGH, Alternate := 4\<rparr>"

text \<open>The initialisation of the port and its filters, which the three drivers repeat.\<close>

definition i2c2_setup :: "i2c_hal \<Rightarrow> i2c_requests \<Rightarrow> BaseType_t \<times> i2c_requests" where
  "i2c2_setup hal h =
     (let (status, _, h) = i2c_ask hal (I2c_Init i2c2_init) h
      in if status \<noteq> HAL_OK then (pdFAIL, h)
         else
           let (status, _, h) = i2c_ask hal (I2c_AnalogFilter True) h
           in if status \<noteq> HAL_OK then (pdFAIL, h)
              else
                let (status, _, h) = i2c_ask hal (I2c_DigitalFilter 0) h
                in if status \<noteq> HAL_OK then (pdFAIL, h) else (pdPASS, h))"

section \<open>The expander\<close>

definition PCF8574_I2C_TIMEOUT :: u32 where "PCF8574_I2C_TIMEOUT = 10"

definition pcf8574_driver_init_hw :: "i2c_hal \<Rightarrow> i2c_requests \<Rightarrow> BaseType_t \<times> i2c_requests" where
  "pcf8574_driver_init_hw hal h =
     (let h = I2c_Clock # h;
          h = I2c_Pin (ClockEnable GPIOB) # h;
          h = I2c_Pin (ClockEnable GPIOH) # h;
          h = I2c_Pin (InitPin GPIOH i2c2_pins) # h;
          g = i2c2_pins\<lparr>Pin := GPIO_PIN_12, Mode := GPIO_MODE_IT_FALLING, Pull := GPIO_PULLUP\<rparr>;
          h = I2c_Pin (InitPin GPIOB g) # h;
          h = I2c_Pin (SetPriority EXTI15_10_IRQn 0 0) # h;
          h = I2c_Pin (EnableIRQ EXTI15_10_IRQn) # h
      in i2c2_setup hal h)"

definition pcf8574_i2c_write_hw :: "i2c_hal \<Rightarrow> u8 \<Rightarrow> i2c_requests \<Rightarrow> BaseType_t \<times> i2c_requests" where
  "pcf8574_i2c_write_hw hal data h =
     (let (status, _, h) = i2c_ask hal (I2c_Transmit (ucast (PCF8574_ADDR OR 0x00)) [data] PCF8574_I2C_TIMEOUT) h
      in if status \<noteq> HAL_OK then (pdFAIL, h) else (pdPASS, h))"

definition pcf8574_i2c_read_hw :: "i2c_hal \<Rightarrow> i2c_requests \<Rightarrow> BaseType_t \<times> u8 list \<times> i2c_requests" where
  "pcf8574_i2c_read_hw hal h =
     (let (status, pdata, h) = i2c_ask hal (I2c_Receive (ucast (PCF8574_ADDR OR 0x01)) 1 PCF8574_I2C_TIMEOUT) h
      in if status \<noteq> HAL_OK then (pdFAIL, pdata, h) else (pdPASS, pdata, h))"

section \<open>The sensors\<close>

definition MPU9250_TIMEOUT :: u32 where "MPU9250_TIMEOUT = 10"
definition AP3216C_TIMEOUT :: u32 where "AP3216C_TIMEOUT = 10"

definition mpu9250_driver_init_hw :: "i2c_hal \<Rightarrow> i2c_requests \<Rightarrow> BaseType_t \<times> i2c_requests" where
  "mpu9250_driver_init_hw hal h =
     (let h = I2c_Clock # h;
          h = I2c_Pin (ClockEnable GPIOH) # h;
          h = I2c_Pin (InitPin GPIOH i2c2_pins) # h
      in i2c2_setup hal h)"

definition mpu9250_i2c_multi_write_hw :: "i2c_hal \<Rightarrow> u8 \<Rightarrow> u8 list \<Rightarrow> i2c_requests \<Rightarrow> BaseType_t \<times> i2c_requests" where
  "mpu9250_i2c_multi_write_hw hal reg data h =
     (let (res, _, h) = i2c_ask hal (I2c_MemWrite (ucast MPU9250_ADDR) (ucast reg) 1 data MPU9250_TIMEOUT) h
      in if res \<noteq> HAL_OK then (pdFAIL, h) else (pdPASS, h))"

definition mpu9250_i2c_multi_read_hw ::
  "i2c_hal \<Rightarrow> u8 \<Rightarrow> u8 \<Rightarrow> i2c_requests \<Rightarrow> BaseType_t \<times> u8 list \<times> i2c_requests" where
  "mpu9250_i2c_multi_read_hw hal reg sz h =
     (let (res, rdata, h) = i2c_ask hal (I2c_MemRead (ucast MPU9250_ADDR) (ucast reg) 1 (ucast sz) MPU9250_TIMEOUT) h
      in if res \<noteq> HAL_OK then (pdFAIL, rdata, h) else (pdPASS, rdata, h))"

text \<open>The shift of the sensor's address is one of \<^verbatim>\<open>int\<close>, so nothing is lost.\<close>

definition ap3216_i2c_multi_write_hw :: "i2c_hal \<Rightarrow> u8 \<Rightarrow> u8 list \<Rightarrow> i2c_requests \<Rightarrow> BaseType_t \<times> i2c_requests" where
  "ap3216_i2c_multi_write_hw hal reg data h =
     (let (res, _, h) = i2c_ask hal (I2c_MemWrite (push_bit 1 (ucast AP3216C_ADDR)) (ucast reg) 1 data AP3216C_TIMEOUT) h
      in if res \<noteq> HAL_OK then (pdFAIL, h) else (pdPASS, h))"

definition ap3216_i2c_multi_read_hw ::
  "i2c_hal \<Rightarrow> u8 \<Rightarrow> u8 \<Rightarrow> i2c_requests \<Rightarrow> BaseType_t \<times> u8 list \<times> i2c_requests" where
  "ap3216_i2c_multi_read_hw hal reg sz h =
     (let (res, rdata, h) = i2c_ask hal (I2c_MemRead (push_bit 1 (ucast AP3216C_ADDR)) (ucast reg) 1 (ucast sz) AP3216C_TIMEOUT) h
      in if res \<noteq> HAL_OK then (pdFAIL, rdata, h) else (pdPASS, rdata, h))"

definition ap3216_reg_write_hw :: "i2c_hal \<Rightarrow> u8 \<Rightarrow> u8 \<Rightarrow> i2c_requests \<Rightarrow> BaseType_t \<times> i2c_requests" where
  "ap3216_reg_write_hw hal reg data h = ap3216_i2c_multi_write_hw hal reg [data] h"

definition ap3216_driver_init_hw :: "i2c_hal \<Rightarrow> i2c_requests \<Rightarrow> BaseType_t \<times> i2c_requests" where
  "ap3216_driver_init_hw hal h =
     (let h = I2c_Clock # h;
          h = I2c_Pin (ClockEnable GPIOH) # h;
          h = I2c_Pin (InitPin GPIOH i2c2_pins) # h;
          (r, h) = i2c2_setup hal h
      in if r \<noteq> pdPASS then (pdFAIL, h)
         else
           let (res, h) = ap3216_reg_write_hw hal AP3216C_SYSTEMCONG 0x40 h
           in if res \<noteq> pdPASS then (pdFAIL, h)
              else
                let h = I2c_Pin (DelayMs 20) # h;
                    (res, h) = ap3216_reg_write_hw hal AP3216C_SYSTEMCONG 0x03 h
                in if res \<noteq> pdPASS then (pdFAIL, h) else (pdPASS, h))"

section \<open>At the bus\<close>

text \<open>
  The frame of a transfer the HAL reports as done, as its manual has it; \<open>vs\<close> are the bytes received.
  A register's number has one byte here.
\<close>

definition addr_byte :: "u16 \<Rightarrow> bool \<Rightarrow> u8" where
  "addr_byte a rd = (if rd then ucast a OR 1 else ucast a AND 0xfe)"

fun hal_frame :: "i2c_request \<Rightarrow> u8 list \<Rightarrow> i2c_symbol list" where
  "hal_frame (I2c_Transmit a ds t) vs = [START] @ acked (addr_byte a False # ds) @ [STOP]"
| "hal_frame (I2c_Receive a n t) vs = [START] @ acked [addr_byte a True] @ answered 0 (unat n) vs @ [STOP]"
| "hal_frame (I2c_MemWrite a r k ds t) vs = [START] @ acked (addr_byte a False # ucast r # ds) @ [STOP]"
| "hal_frame (I2c_MemRead a r k n t) vs =
     [START] @ acked [addr_byte a False, ucast r] @ [START] @ acked [addr_byte a True] @ answered 0 (unat n) vs @ [STOP]"
| "hal_frame _ vs = []"

text \<open>Two transfers of the variants, both successful, that read the same bytes, and their frames.\<close>

lemma addr_bytes:
  "addr_byte (ucast PCF8574_ADDR) False = PCF8574_ADDR AND 0xfe"
  "addr_byte (ucast (PCF8574_ADDR OR 1)) True = PCF8574_ADDR OR 1"
  "addr_byte (ucast MPU9250_ADDR) False = MPU9250_ADDR AND 0xfe" "addr_byte (ucast MPU9250_ADDR) True = MPU9250_ADDR OR 1"
  "addr_byte (push_bit 1 (ucast AP3216C_ADDR)) False = push_bit 1 AP3216C_ADDR AND 0xfe"
  "addr_byte (push_bit 1 (ucast AP3216C_ADDR)) True = push_bit 1 AP3216C_ADDR OR 1"
  by (simp_all add: addr_byte_def PCF8574_ADDR_def MPU9250_ADDR_def AP3216C_ADDR_def)

lemma addr_bytes_double:
  "addr_byte (ucast AP3216C_ADDR * 2) False = AP3216C_ADDR * 2 AND 254"
  "addr_byte (ucast AP3216C_ADDR * 2) True = AP3216C_ADDR * 2 OR 1"
  by (simp_all add: addr_byte_def AP3216C_ADDR_def)

lemma reg_byte [simp]: "ucast (ucast (reg :: u8) :: u16) = reg"
  by (rule bit_word_eqI) (auto simp: bit_simps)

lemma size_byte [simp]: "unat (ucast (n :: u8) :: u16) = unat n"
  by (simp add: unat_ucast_up)

lemma expander_write_frame:
  assumes "pcf8574_i2c_write_hw hal d h = (pdPASS, q # h')"
    and "on_bus w" and "pcf8574_i2c_write lv d w = (pdPASS, w')"
  shows "bus_syms w' = bus_syms w @ hal_frame q []"
proof -
  obtain res w1 where t: "i2c_write_device lv SOFT_I2C2 PCF8574_ADDR [d] w = (res, w1)" by fastforce
  then have "res = I2C_OK" "w' = w1" using assms(3) by (auto simp: pcf8574_i2c_write_def I2C_OK_def split: if_splits)
  then have "bus_syms w' = bus_syms w @ [START] @ acked [PCF8574_ADDR AND 0xfe, d] @ [STOP]"
    using write_device_frame [OF refl conjunct1 [OF on_bus_ready [OF assms(2)]] t] on_bus_ready [OF assms(2)]
    by (simp add: I2C_OK_def I2C_ERROR_def)
  moreover have "q = I2c_Transmit (ucast (PCF8574_ADDR OR 0x00)) [d] PCF8574_I2C_TIMEOUT"
    using assms(1) by (auto simp: pcf8574_i2c_write_hw_def split: if_splits)
  ultimately show ?thesis by (simp add: addr_bytes)
qed

lemma expander_read_frame_hw:
  assumes "pcf8574_i2c_read_hw hal h = (pdPASS, vs, q # h')"
    and "on_bus w" and "pcf8574_i2c_read lv w = (pdPASS, vs, w')"
  shows "bus_syms w' = bus_syms w @ hal_frame q vs"
proof -
  obtain res ws w1 where t: "i2c_read_device lv SOFT_I2C2 PCF8574_ADDR 1 w = (res, ws, w1)"
    by (cases "i2c_read_device lv SOFT_I2C2 PCF8574_ADDR 1 w") auto
  then have "res = I2C_OK" "w' = w1" "ws = vs"
    using assms(3) by (auto simp: pcf8574_i2c_read_def I2C_OK_def split: if_splits)
  then have "bus_syms w' = bus_syms w @ [START] @ acked [PCF8574_ADDR OR 1] @ answered 0 1 vs @ [STOP]"
    using read_device_frame [OF refl conjunct1 [OF on_bus_ready [OF assms(2)]] t] on_bus_ready [OF assms(2)]
    by (simp add: I2C_OK_def I2C_ERROR_def)
  moreover have "q = I2c_Receive (ucast (PCF8574_ADDR OR 0x01)) 1 PCF8574_I2C_TIMEOUT"
    using assms(1) by (auto simp: pcf8574_i2c_read_hw_def split: if_splits)
  ultimately show ?thesis by (simp add: addr_bytes)
qed

text \<open>
  The two sensors: both variants put the same frames on the bus, with the same address byte. For the
  MPU9250 that is the address of its data sheet without the shift the HAL and the software bus ask for.
\<close>

lemma sensor_write_frame:
  assumes "on_bus w"
  shows "mpu9250_i2c_multi_write_hw hal reg data h = (pdPASS, q # h') \<Longrightarrow> mpu9250_i2c_multi_write lv reg data w = (pdPASS, w')
       \<Longrightarrow> bus_syms w' = bus_syms w @ hal_frame q []"
    and "ap3216_i2c_multi_write_hw hal reg data h = (pdPASS, q # h') \<Longrightarrow> ap3216_i2c_multi_write lv reg data w = (pdPASS, w')
       \<Longrightarrow> bus_syms w' = bus_syms w @ hal_frame q []"
proof -
  assume "mpu9250_i2c_multi_write_hw hal reg data h = (pdPASS, q # h')" "mpu9250_i2c_multi_write lv reg data w = (pdPASS, w')"
  then show "bus_syms w' = bus_syms w @ hal_frame q []"
    using mpu9250.write_frame [OF assms, of lv reg data 1 w']
    by (auto simp: mpu9250_i2c_multi_write_hw_def addr_bytes split: if_splits)
next
  assume "ap3216_i2c_multi_write_hw hal reg data h = (pdPASS, q # h')" "ap3216_i2c_multi_write lv reg data w = (pdPASS, w')"
  then show "bus_syms w' = bus_syms w @ hal_frame q []"
    using ap3216.write_frame [OF assms, of lv reg data 1 w']
    by (auto simp: ap3216_i2c_multi_write_hw_def addr_bytes_double split: if_splits)
qed

lemma sensor_read_frame:
  assumes "on_bus w"
  shows "mpu9250_i2c_multi_read_hw hal reg sz h = (pdPASS, vs, q # h') \<Longrightarrow> mpu9250_i2c_multi_read lv reg sz w = (pdPASS, vs, w')
       \<Longrightarrow> bus_syms w' = bus_syms w @ hal_frame q vs"
    and "ap3216_i2c_multi_read_hw hal reg sz h = (pdPASS, vs, q # h') \<Longrightarrow> ap3216_i2c_multi_read lv reg sz w = (pdPASS, vs, w')
       \<Longrightarrow> bus_syms w' = bus_syms w @ hal_frame q vs"
proof -
  assume "mpu9250_i2c_multi_read_hw hal reg sz h = (pdPASS, vs, q # h')" "mpu9250_i2c_multi_read lv reg sz w = (pdPASS, vs, w')"
  then show "bus_syms w' = bus_syms w @ hal_frame q vs"
    using mpu9250.read_frame [OF assms, of lv reg sz 1 vs w']
    by (auto simp: mpu9250_i2c_multi_read_hw_def addr_bytes split: if_splits)
next
  assume "ap3216_i2c_multi_read_hw hal reg sz h = (pdPASS, vs, q # h')" "ap3216_i2c_multi_read lv reg sz w = (pdPASS, vs, w')"
  then show "bus_syms w' = bus_syms w @ hal_frame q vs"
    using ap3216.read_frame [OF assms, of lv reg sz 1 vs w']
    by (auto simp: ap3216_i2c_multi_read_hw_def addr_bytes_double split: if_splits)
qed

section \<open>Initialisation\<close>

text \<open>Each step of the port's initialisation is taken only if the ones before succeeded.\<close>

lemma i2c2_setup_ok:
  assumes "i2c2_setup hal h = (r, h')"
  shows "r = pdPASS \<longleftrightarrow> fst (hal h (I2c_Init i2c2_init)) = HAL_OK
      \<and> fst (hal (I2c_Init i2c2_init # h) (I2c_AnalogFilter True)) = HAL_OK
      \<and> fst (hal (I2c_AnalogFilter True # I2c_Init i2c2_init # h) (I2c_DigitalFilter 0)) = HAL_OK"
    and "\<exists>qs. h' = qs @ h"
  using assms by (auto simp: i2c2_setup_def split: if_splits)

text \<open>
  The expander's interrupt is already on when the initialisation of the port fails: the driver reports
  the failure but leaves the interrupt, unlike the software variant, which enables it last.
\<close>

lemma pcf8574_init_hw_leaves_irq:
  assumes "pcf8574_driver_init_hw hal h = (r, h')"
  shows "I2c_Pin (EnableIRQ EXTI15_10_IRQn) \<in> set h'"
  using assms i2c2_setup_ok(2) [of hal _ r h'] by (fastforce simp: pcf8574_driver_init_hw_def Let_def)

text \<open>
  The sensor is reset, left alone for 20 ms and switched on, in this order, when the driver
  succeeds.
\<close>

lemma ap3216_init_hw:
  assumes "ap3216_driver_init_hw hal h = (pdPASS, h')"
  shows "take 3 h' = [I2c_MemWrite 0x3C 0 1 [0x03] AP3216C_TIMEOUT, I2c_Pin (DelayMs 20), I2c_MemWrite 0x3C 0 1 [0x40] AP3216C_TIMEOUT]"
  using assms
  by (auto simp: ap3216_driver_init_hw_def ap3216_reg_write_hw_def ap3216_i2c_multi_write_hw_def i2c_ask_def
      AP3216C_ADDR_def AP3216C_SYSTEMCONG_def Let_def numeral_3_eq_3 split: if_splits prod.splits)

end
