(* ===== verification/Internal_Flash.thy ===== *)
theory Internal_Flash
  imports Flash_Store
begin

text \<open>
  The device functions of \<^verbatim>\<open>drv_flash.c\<close> for the flash memory of the microcontroller itself (the branch
  under \<^verbatim>\<open>STM32F429xE\<close>, a name the device headers do not define: the configuration of the repository does
  not compile it), over the HAL, and the record store on top of them. The branch has no reading function,
  which is a parameter here. The locale \<open>flash_part\<close> is what
  the HAL's manual says of its functions; a part that erases and programs as the data sheet has it
  interprets it. Erased flash reads as ones, while the store takes zeros for erased (\<^verbatim>\<open>PAGE_ERASED\<close>):
  the lemmas show what becomes of the store then.
\<close>

section \<open>Sectors\<close>

definition sector_starts :: "u32 list" where
  "sector_starts =
     [0x08000000, 0x08004000, 0x08008000, 0x0800C000, 0x08010000, 0x08020000, 0x08040000, 0x08060000,
      0x08080000, 0x080a0000, 0x080c0000, 0x080e0000,
      0x08100000, 0x08104000, 0x08108000, 0x0810C000, 0x08110000, 0x08120000, 0x08140000, 0x08160000,
      0x08180000, 0x081a0000, 0x081c0000, 0x081e0000]"

definition FLASH_SECTOR_START_ADDRESS :: "nat \<Rightarrow> u32" where
  "FLASH_SECTOR_START_ADDRESS n = sector_starts ! n"

text \<open>The chain of comparisons with the starts of sectors 1 to 23.\<close>

fun sector_below :: "u32 \<Rightarrow> u8 \<Rightarrow> u32 list \<Rightarrow> u8" where
  "sector_below address n [] = n"
| "sector_below address n (s # ss) = (if address < s then n else sector_below address (n + 1) ss)"

definition flash_get_sector_int :: "u32 \<Rightarrow> u8" where
  "flash_get_sector_int address = sector_below address 0 (map FLASH_SECTOR_START_ADDRESS [1..<24])"

section \<open>The device functions\<close>

record FLASH_EraseInitTypeDef =
  TypeErase :: u32
  Banks :: u32
  Sector :: u32
  NbSectors :: u32
  VoltageRange :: u32

text \<open>The functions of the HAL, on a state of the flash controller.\<close>

record 'c flash_hal =
  HAL_FLASH_Unlock :: "'c \<Rightarrow> 'c"
  HAL_FLASH_Lock :: "'c \<Rightarrow> 'c"
  HAL_FLASHEx_Erase :: "FLASH_EraseInitTypeDef \<Rightarrow> 'c \<Rightarrow> HAL_StatusTypeDef \<times> 'c"
  HAL_FLASH_Program :: "u32 \<Rightarrow> u32 \<Rightarrow> 'c \<Rightarrow> HAL_StatusTypeDef \<times> 'c"
  FLASH_FlushCaches :: "'c \<Rightarrow> 'c"

definition FLASH_TYPEERASE_SECTORS :: u32 where "FLASH_TYPEERASE_SECTORS = 0"
definition FLASH_BANK_1 :: u32 where "FLASH_BANK_1 = 1"
definition FLASH_VOLTAGE_RANGE_3 :: u32 where "FLASH_VOLTAGE_RANGE_3 = 2"

definition sector_erase_init :: "u32 \<Rightarrow> FLASH_EraseInitTypeDef" where
  "sector_erase_init address =
     \<lparr>TypeErase = FLASH_TYPEERASE_SECTORS, Banks = FLASH_BANK_1, Sector = ucast (flash_get_sector_int address),
      NbSectors = 1, VoltageRange = FLASH_VOLTAGE_RANGE_3\<rparr>"

definition flash_empty_device_int :: "'c flash_hal \<Rightarrow> u32 \<Rightarrow> u32 \<Rightarrow> 'c \<Rightarrow> BaseType_t \<times> 'c" where
  "flash_empty_device_int hal address sz c =
     (let c = HAL_FLASH_Unlock hal c;
          (status, c) = HAL_FLASHEx_Erase hal (sector_erase_init address) c
      in if status \<noteq> HAL_OK then (pdFAIL, HAL_FLASH_Lock hal c) else (pdPASS, HAL_FLASH_Lock hal c))"

text \<open>
  The loop of \<open>flash_write_device\<close> over the words of the buffer. Its 16-bit index reaches every size the
  store uses (at most 256 words).
\<close>

fun program_loop :: "'c flash_hal \<Rightarrow> u32 \<Rightarrow> u8 list \<Rightarrow> nat list \<Rightarrow> 'c \<Rightarrow> BaseType_t \<times> 'c" where
  "program_loop hal address pbuffer [] c = (pdPASS, c)"
| "program_loop hal address pbuffer (i # is) c =
     (let (status, c) = HAL_FLASH_Program hal (address + of_nat (i * 4)) (le_word (take 4 (drop (i * 4) pbuffer))) c
      in if status \<noteq> HAL_OK then (pdFAIL, c) else program_loop hal address pbuffer is c)"

definition flash_write_device_int :: "'c flash_hal \<Rightarrow> u32 \<Rightarrow> u8 list \<Rightarrow> u32 \<Rightarrow> 'c \<Rightarrow> BaseType_t \<times> 'c" where
  "flash_write_device_int hal address pbuffer sz c =
     (let c = HAL_FLASH_Unlock hal c;
          (r, c) = program_loop hal address pbuffer [0..<unat sz] c;
          c = HAL_FLASH_Lock hal c
      in if r \<noteq> pdPASS then (pdFAIL, c) else (pdPASS, FLASH_FlushCaches hal c))"

section \<open>Facts about sectors\<close>

definition sector_start :: "nat \<Rightarrow> u32" where
  "sector_start s = FLASH_SECTOR_START_ADDRESS s"

definition sector_size :: "nat \<Rightarrow> nat" where
  "sector_size s = unat ((if s = 23 then 0x08200000 else sector_start (Suc s)) - sector_start s)"

lemma sector_below_bounds:
  assumes "x \<le> a" and "unat n + length ss < 256"
  shows "unat n \<le> unat (sector_below a n ss) \<and> unat (sector_below a n ss) \<le> unat n + length ss
    \<and> (x # ss) ! (unat (sector_below a n ss) - unat n) \<le> a
    \<and> (unat (sector_below a n ss) < unat n + length ss \<longrightarrow> a < ss ! (unat (sector_below a n ss) - unat n))"
  using assms
proof (induction ss arbitrary: x n)
  case Nil
  then show ?case by simp
next
  case (Cons s ss)
  show ?case
  proof (cases "a < s")
    case True
    then show ?thesis using Cons.prems by simp
  next
    case False
    have n: "unat (n + 1) = Suc (unat n)" using Cons.prems(2) by (simp add: unat_word_ariths)
    show ?thesis
      using Cons.IH [of s "n + 1"] Cons.prems(2) False by (auto simp: not_less n Suc_diff_le nth_Cons' Suc_le_eq)
  qed
qed

lemma get_sector_bounds:
  assumes "0x08000000 \<le> a" and "a < 0x08200000"
  shows "unat (flash_get_sector_int a) < 24"
    and "sector_start (unat (flash_get_sector_int a)) \<le> a"
    and "unat (a - sector_start (unat (flash_get_sector_int a))) < sector_size (unat (flash_get_sector_int a))"
proof -
  define k where "k = unat (flash_get_sector_int a)"
  have "0x08000000 = sector_start 0" by (simp add: sector_start_def FLASH_SECTOR_START_ADDRESS_def sector_starts_def)
  then have k: "k \<le> 23 \<and> (sector_start 0 # map FLASH_SECTOR_START_ADDRESS [1..<24]) ! k \<le> a
      \<and> (k < 23 \<longrightarrow> a < map FLASH_SECTOR_START_ADDRESS [1..<24] ! k)"
    using sector_below_bounds [of "sector_start 0" a 0 "map FLASH_SECTOR_START_ADDRESS [1..<24]"] assms(1)
    by (simp add: k_def flash_get_sector_int_def)
  show l: "k < 24" using k by simp
  have nth: "(sector_start 0 # map FLASH_SECTOR_START_ADDRESS [1..<24]) ! k = sector_start k"
    using l by (cases k) (simp_all add: sector_start_def)
  then show le: "sector_start k \<le> a" using k by simp
  have "k < 23 \<Longrightarrow> map FLASH_SECTOR_START_ADDRESS [1..<24] ! k = sector_start (Suc k)"
    by (simp add: sector_start_def)
  then have nx: "a < (if k = 23 then 0x08200000 else sector_start (Suc k))"
    using k assms(2) by auto
  then show "unat (a - sector_start k) < sector_size k"
    using le by (simp add: sector_size_def word_less_nat_alt word_le_nat_alt unat_sub_if' split: if_splits)
qed

lemma get_sector_starts: "list_all (\<lambda>s. flash_get_sector_int (sector_start s) = of_nat s) [0..<24]"
  by code_simp

lemma get_sector_start: "s < 24 \<Longrightarrow> flash_get_sector_int (sector_start s) = of_nat s"
  using get_sector_starts by (simp only: list_all_iff set_upt) simp

lemma word_bytes_le:
  assumes "length bs = 4"
  shows "word_bytes (le_word bs) = bs"
proof -
  obtain a b c d where bs: "bs = [a, b, c, d]"
    using assms by (auto simp: numeral_eq_Suc length_Suc_conv)
  have "ucast (le_word bs) = a" "ucast (drop_bit 8 (le_word bs)) = b" "ucast (drop_bit 16 (le_word bs)) = c"
    "ucast (drop_bit 24 (le_word bs)) = d"
    by (rule bit_word_eqI; auto simp: bs le_word_def bit_simps dest: bit_imp_le_length)+
  then show ?thesis by (simp add: word_bytes_def bs)
qed

lemma program_loop_append:
  "program_loop hal a buf is c = (pdPASS, c') \<Longrightarrow> program_loop hal a buf (is @ js) c = program_loop hal a buf js c'"
  by (induction "is" arbitrary: c) (auto split: prod.splits if_splits)

section \<open>The contract of the HAL\<close>

text \<open>
  What the manual says of the five functions: a sector is erased to ones and an erased word is
  programmed if the controller is unlocked.
\<close>

locale flash_part =
  fixes hal :: "'c flash_hal" and cells :: "'c \<Rightarrow> memory" and unlocked :: "'c \<Rightarrow> bool"
  assumes unlock: "cells (HAL_FLASH_Unlock hal c) = cells c" "unlocked (HAL_FLASH_Unlock hal c)"
    and lock: "cells (HAL_FLASH_Lock hal c) = cells c" "\<not> unlocked (HAL_FLASH_Lock hal c)"
    and flush: "cells (FLASH_FlushCaches hal c) = cells c" "unlocked (FLASH_FlushCaches hal c) = unlocked c"
    and erase: "unlocked c \<Longrightarrow> TypeErase e = FLASH_TYPEERASE_SECTORS \<Longrightarrow> NbSectors e = 1 \<Longrightarrow> unat (Sector e) < 24 \<Longrightarrow>
      \<exists>c'. HAL_FLASHEx_Erase hal e c = (HAL_OK, c') \<and> unlocked c' \<and> cells c' = mem_write
        (sector_start (unat (Sector e))) (replicate (sector_size (unat (Sector e))) 0xff) (cells c)"
    and program: "unlocked c \<Longrightarrow> unat a mod 4 = 0 \<Longrightarrow> mem_read (cells c) a 4 = replicate 4 0xff \<Longrightarrow>
      \<exists>c'. HAL_FLASH_Program hal a v c = (HAL_OK, c') \<and> unlocked c' \<and> cells c' = mem_write a (word_bytes v) (cells c)"
begin

text \<open>Erasing: the sector of the address, whatever the size asked for.\<close>

lemma empty_device:
  assumes "0x08000000 \<le> a" and "a < 0x08200000"
  shows "\<exists>c'. flash_empty_device_int hal a n c = (pdPASS, c') \<and> \<not> unlocked c' \<and> cells c' = mem_write
    (sector_start (unat (flash_get_sector_int a))) (replicate (sector_size (unat (flash_get_sector_int a))) 0xff) (cells c)"
proof -
  have u: "unat (ucast (flash_get_sector_int a) :: u32) = unat (flash_get_sector_int a)"
    by (simp add: unat_ucast_up)
  obtain c' where "HAL_FLASHEx_Erase hal (sector_erase_init a) (HAL_FLASH_Unlock hal c) = (HAL_OK, c')" "unlocked c'"
    "cells c' = mem_write (sector_start (unat (flash_get_sector_int a)))
      (replicate (sector_size (unat (flash_get_sector_int a))) 0xff) (cells c)"
    using erase [OF unlock(2), of "sector_erase_init a" c] get_sector_bounds(1) [OF assms]
    by (auto simp: sector_erase_init_def u unlock)
  then show ?thesis by (simp add: flash_empty_device_int_def lock)
qed

lemma program_words:
  assumes "unlocked c" and "unat a mod 4 = 0" and "4 * n \<le> length buf" and "run_ok a (4 * n)"
    and "mem_read (cells c) a (4 * n) = replicate (4 * n) 0xff"
  shows "\<exists>c'. program_loop hal a buf [0..<n] c = (pdPASS, c') \<and> unlocked c'
    \<and> cells c' = mem_write a (take (4 * n) buf) (cells c)"
  using assms(3-5)
proof (induction n)
  case 0
  then show ?case using assms(1) by (simp add: mem_write_def)
next
  case (Suc n)
  have blank: "mem_read (cells c) a (4 * n) = replicate (4 * n) 0xff"
    "mem_read (cells c) (a + of_nat (4 * n)) 4 = replicate 4 0xff"
    using mem_read_part [of 0 "4 * n" "4 * Suc n" "cells c" a] mem_read_part [of "4 * n" 4 "4 * Suc n" "cells c" a]
      Suc.prems(3) by simp_all
  have run: "run_ok a (4 * n)" using Suc.prems(2) by (simp add: run_ok_def)
  have at: "unat (a + of_nat (4 * n)) = unat a + 4 * n" by (rule unat_run [OF Suc.prems(2)]) simp
  obtain c1 where c1: "program_loop hal a buf [0..<n] c = (pdPASS, c1)" "unlocked c1"
    "cells c1 = mem_write a (take (4 * n) buf) (cells c)"
    using Suc.IH [OF _ run blank(1)] Suc.prems(1) by auto
  have l: "length (take (4 * n) buf) = 4 * n" "length (take 4 (drop (n * 4) buf)) = 4" using Suc.prems(1) by simp_all
  have "mem_read (cells c1) (a + of_nat (4 * n)) 4 = replicate 4 0xff"
    unfolding c1(3) blank(2) [symmetric] using Suc.prems(2)
    by (intro mem_read_write_apart) (simp_all only: l run_ok_def runs_apart_def at, simp_all)
  then obtain c2 where c2: "HAL_FLASH_Program hal (a + of_nat (4 * n)) (le_word (take 4 (drop (n * 4) buf))) c1 = (HAL_OK, c2)"
    "unlocked c2" "cells c2 = mem_write (a + of_nat (4 * n)) (take 4 (drop (n * 4) buf)) (cells c1)"
    using program [OF c1(2), of "a + of_nat (4 * n)" "le_word (take 4 (drop (n * 4) buf))"] assms(2) at
      word_bytes_le [OF l(2)] by (auto simp: mod_add_eq)
  have loop: "program_loop hal a buf ([0..<n] @ [n]) c = (pdPASS, c2)"
    using program_loop_append [OF c1(1), of "[n]"] c2(1) by (simp add: mult.commute)
  have "take (4 * Suc n) buf = take (4 * n) buf @ take 4 (drop (n * 4) buf)"
    by (simp add: take_add [symmetric] mult.commute add.commute)
  then have "cells c2 = mem_write a (take (4 * Suc n) buf) (cells c)"
    using mem_write_append [of "take (4 * n) buf" "take 4 (drop (n * 4) buf)" a "cells c"] Suc.prems(2)
    unfolding c2(3) c1(3) l by (simp add: run_ok_def)
  then show ?case using loop c2(2) by simp
qed

text \<open>Writing to erased flash; the controller is locked again at the end.\<close>

lemma write_device:
  assumes "unat a mod 4 = 0" and "4 * unat n \<le> length buf" and "run_ok a (4 * unat n)"
    and "mem_read (cells c) a (4 * unat n) = replicate (4 * unat n) 0xff"
  shows "\<exists>c'. flash_write_device_int hal a buf n c = (pdPASS, c') \<and> \<not> unlocked c'
    \<and> cells c' = mem_write a (take (4 * unat n) buf) (cells c)"
  using program_words [OF unlock(2) assms(1-3), of c] assms(4)
  by (auto simp: flash_write_device_int_def unlock lock flush)

end

text \<open>Whatever the HAL answers, the device functions end by locking the controller.\<close>

lemma device_functions_lock:
  "\<exists>c0. snd (flash_empty_device_int hal a n c) = HAL_FLASH_Lock hal c0"
  "\<exists>c0. flash_write_device_int hal a buf n c = (pdFAIL, HAL_FLASH_Lock hal c0)
      \<or> flash_write_device_int hal a buf n c = (pdPASS, FLASH_FlushCaches hal (HAL_FLASH_Lock hal c0))"
proof -
  show "\<exists>c0. snd (flash_empty_device_int hal a n c) = HAL_FLASH_Lock hal c0"
    by (auto simp: flash_empty_device_int_def split: prod.split)
  show "\<exists>c0. flash_write_device_int hal a buf n c = (pdFAIL, HAL_FLASH_Lock hal c0)
      \<or> flash_write_device_int hal a buf n c = (pdPASS, FLASH_FlushCaches hal (HAL_FLASH_Lock hal c0))"
    by (auto simp: flash_write_device_int_def Let_def split: prod.split)
qed

section \<open>The part of the data sheet\<close>

text \<open>Erasing sets all bits of a sector, programming can only clear bits; both need the lock to be open.\<close>

record part =
  part_cells :: memory
  part_locked :: bool

definition part_erase :: "FLASH_EraseInitTypeDef \<Rightarrow> part \<Rightarrow> HAL_StatusTypeDef \<times> part" where
  "part_erase e p =
     (let s = unat (Sector e)
      in if part_locked p \<or> TypeErase e \<noteq> FLASH_TYPEERASE_SECTORS \<or> NbSectors e \<noteq> 1 \<or> 24 \<le> s then (HAL_ERROR, p)
         else (HAL_OK, p\<lparr>part_cells := mem_write (sector_start s) (replicate (sector_size s) 0xff) (part_cells p)\<rparr>))"

definition part_program :: "u32 \<Rightarrow> u32 \<Rightarrow> part \<Rightarrow> HAL_StatusTypeDef \<times> part" where
  "part_program a v p =
     (if part_locked p \<or> unat a mod 4 \<noteq> 0 then (HAL_ERROR, p)
      else (HAL_OK, p\<lparr>part_cells :=
              mem_write a (map2 (AND) (mem_read (part_cells p) a 4) (word_bytes v)) (part_cells p)\<rparr>))"

definition part_hal :: "part flash_hal" where
  "part_hal = \<lparr>HAL_FLASH_Unlock = part_locked_update (\<lambda>_. False), HAL_FLASH_Lock = part_locked_update (\<lambda>_. True),
     HAL_FLASHEx_Erase = part_erase, HAL_FLASH_Program = part_program, FLASH_FlushCaches = (\<lambda>p. p)\<rparr>"

lemma and_erased_byte [simp]: "(0xff :: u8) AND b = b"
proof -
  have "(0xff :: u8) = - 1" by simp
  then show ?thesis by (simp only: and.left_neutral)
qed

lemma and_erased: "length bs = n \<Longrightarrow> map2 (AND) (replicate n 0xff) bs = (bs :: u8 list)"
  by (intro nth_equalityI) (simp_all add: and_erased_byte)

interpretation sheet: flash_part part_hal part_cells "\<lambda>p. \<not> part_locked p"
  by unfold_locales (auto simp: part_hal_def part_erase_def part_program_def and_erased Let_def)

text \<open>
  The device functions over the part, as the store calls them: the controller is locked between the
  calls. The branch has no \<^verbatim>\<open>flash_read_device\<close>: the function that reads is the parameter \<open>rd\<close>, and is to
  read the memory, which is mapped.
\<close>

definition internal_device :: "(u32 \<Rightarrow> u32 \<Rightarrow> memory \<Rightarrow> BaseType_t \<times> u8 list) \<Rightarrow> flash_dev" where
  "internal_device rd =
     \<lparr>dev_empty = (\<lambda>a n m. map_prod id part_cells (flash_empty_device_int part_hal a n \<lparr>part_cells = m, part_locked = True\<rparr>)),
      dev_write = (\<lambda>a buf n m. map_prod id part_cells
        (flash_write_device_int part_hal a buf n \<lparr>part_cells = m, part_locked = True\<rparr>)),
      dev_read = rd\<rparr>"

definition reads_mapped :: "(u32 \<Rightarrow> u32 \<Rightarrow> memory \<Rightarrow> BaseType_t \<times> u8 list) \<Rightarrow> bool" where
  "reads_mapped rd \<longleftrightarrow> (\<forall>a n m. unat n \<le> 256 \<longrightarrow> rd a n m = (pdPASS, mem_read m a (4 * unat n)))"

text \<open>What the store can rely on: as with \<open>flash_device\<close>, but sectors are erased, and to ones.\<close>

locale sector_flash =
  fixes dev :: flash_dev
  assumes write_blank: "4 * unat n \<le> length buf \<Longrightarrow> unat a mod 4 = 0 \<Longrightarrow> run_ok a (4 * unat n) \<Longrightarrow>
      mem_read m a (4 * unat n) = replicate (4 * unat n) 0xff \<Longrightarrow>
      dev_write dev a buf n m = (pdPASS, mem_write a (take (4 * unat n) buf) m)"
    and erase_sector: "s < 24 \<Longrightarrow> dev_empty dev (sector_start s) n m
      = (pdPASS, mem_write (sector_start s) (replicate (sector_size s) 0xff) m)"
    and read_any: "unat n \<le> 256 \<Longrightarrow> dev_read dev a n m = (pdPASS, mem_read m a (4 * unat n))"

lemma sector_starts_ok:
  "list_all (\<lambda>a. 0x08000000 \<le> a \<and> a < 0x08200000 \<and> unat a mod 4 = 0) sector_starts"
  by (simp add: sector_starts_def)

lemma sector_start_ok:
  assumes "s < 24"
  shows "0x08000000 \<le> sector_start s" "sector_start s < 0x08200000" "unat (sector_start s) mod 4 = 0"
proof -
  have "s < length sector_starts" using assms by (simp add: sector_starts_def)
  then show "0x08000000 \<le> sector_start s" "sector_start s < 0x08200000" "unat (sector_start s) mod 4 = 0"
    using sector_starts_ok by (simp_all add: list_all_length sector_start_def FLASH_SECTOR_START_ADDRESS_def)
qed

lemma internal_sector_flash:
  assumes "reads_mapped rd"
  shows "sector_flash (internal_device rd)"
proof unfold_locales
  fix s and n :: u32 and m
  assume s: "s < (24 :: nat)"
  then have "unat (of_nat s :: u8) = s" by (simp add: unat_of_nat)
  then show "dev_empty (internal_device rd) (sector_start s) n m
      = (pdPASS, mem_write (sector_start s) (replicate (sector_size s) 0xff) m)"
    using sheet.empty_device [OF sector_start_ok(1,2) [OF s], of n "\<lparr>part_cells = m, part_locked = True\<rparr>"]
    by (auto simp: internal_device_def get_sector_start [OF s])
next
  fix n a :: u32 and buf :: "u8 list" and m
  assume "4 * unat n \<le> length buf" "unat a mod 4 = 0" "run_ok a (4 * unat n)"
    "mem_read m a (4 * unat n) = replicate (4 * unat n) 0xff"
  then show "dev_write (internal_device rd) a buf n m = (pdPASS, mem_write a (take (4 * unat n) buf) m)"
    using sheet.write_device [of a n buf "\<lparr>part_cells = m, part_locked = True\<rparr>"]
    by (auto simp: internal_device_def)
next
  fix n a :: u32 and m
  assume "unat n \<le> 256"
  then show "dev_read (internal_device rd) a n m = (pdPASS, mem_read m a (4 * unat n))"
    using assms by (simp add: internal_device_def reads_mapped_def)
qed

text \<open>For instance with the reading function of the other branch.\<close>

lemma flash_read_device_mapped: "reads_mapped flash_read_device"
  using read_words by (simp add: reads_mapped_def flash_read_device_def)

interpretation internal: sector_flash "internal_device flash_read_device"
  by (rule internal_sector_flash [OF flash_read_device_mapped])

section \<open>The store on two sectors\<close>

text \<open>The pages are two whole sectors of the same size.\<close>

definition sector_page :: "FlashInfo_t \<Rightarrow> u32 \<Rightarrow> bool" where
  "sector_page H page \<longleftrightarrow> (\<exists>s < 24. page = sector_start s \<and> psz H = sector_size s)"

definition sector_config :: "FlashInfo_t \<Rightarrow> bool" where
  "sector_config H \<longleftrightarrow> flash_config H \<and> sector_page H (page0_address H) \<and> sector_page H (page1_address H)"

definition blank_page :: "FlashInfo_t \<Rightarrow> memory \<Rightarrow> u32 \<Rightarrow> bool" where
  "blank_page H m page \<longleftrightarrow> page_at H m page = replicate (psz H) 0xff"

text \<open>A page with one block, the first, and nothing behind it.\<close>

definition used_page :: "FlashInfo_t \<Rightarrow> memory \<Rightarrow> u32 \<Rightarrow> u8 list \<Rightarrow> bool" where
  "used_page H m page b \<longleftrightarrow> mem_word m page = PAGE_VALID \<and> block_at H m page 1 = b \<and> good_block H b
     \<and> (\<forall>j. 1 < j \<longrightarrow> j \<le> bnum H \<longrightarrow> block_at H m page j = replicate (bsz H) 0xff)"

text \<open>
  The store after \<open>k\<close> writes: none, and both pages are blank; or the value is in the first page after an
  odd number of writes, in the second after an even number, and the other page is blank.
\<close>

definition worn_page :: "FlashInfo_t \<Rightarrow> nat \<Rightarrow> u32" where
  "worn_page H k = (if odd k then page0_address H else page1_address H)"

definition worn_store :: "FlashInfo_t \<Rightarrow> nat \<Rightarrow> memory \<Rightarrow> u8 list option \<Rightarrow> bool" where
  "worn_store H k m v \<longleftrightarrow>
     (if k = 0 then v = None \<and> blank_page H m (page0_address H) \<and> blank_page H m (page1_address H)
      else \<exists>b. v = Some (payload H b) \<and> used_page H m (worn_page H k) b \<and> blank_page H m (worn_page H (Suc k)))"

lemma sector_configD:
  assumes "sector_config H"
  shows "flash_config H" and "is_page H page \<Longrightarrow> sector_page H page"
  using assms by (auto simp: sector_config_def is_page_def)

lemma le_word_ones: "le_word (replicate 4 0xff) = 0xFFFFFFFF"
  by (simp add: le_word_def)

lemma blank_block_word:
  assumes "flash_config H" and "block_at H m page j = replicate (bsz H) 0xff"
  shows "mem_word m (page + of_nat (j * bsz H)) = 0xFFFFFFFF"
  using flash_configD(2) [OF assms(1)] le_word_ones by (simp add: word_of_block [OF assms(1)] assms(2) min_def del: of_nat_mult)

lemma blank_word:
  assumes "flash_config H" and "blank_page H m page"
  shows "mem_word m page = 0xFFFFFFFF"
  using blank_block_word [OF assms(1) block_in_empty_page [OF assms(1) _ assms(2) [unfolded blank_page_def]], of 0] by simp

lemma used_word:
  assumes "flash_config H" and "used_page H m page b" and "1 \<le> j" and "j \<le> bnum H"
  shows "mem_word m (page + of_nat (j * bsz H)) = (if j = 1 then BLOCK_VALID else 0xFFFFFFFF)"
proof (cases "j = 1")
  case True
  then show ?thesis
    using assms(2) word_of_block [OF assms(1), of m page 1] by (simp add: used_page_def good_block_def)
next
  case False
  then show ?thesis
    using assms(2-4) blank_block_word [OF assms(1), of m page j] by (simp add: used_page_def del: of_nat_mult)
qed

lemma find_block_blank:
  assumes "flash_config H" and "blank_page H m (page0_address H)" and "blank_page H m (page1_address H)"
  shows "flash_find_block H operation m = (FLASH_SEARCH_PAGE_EMPTY, 0)"
  using blank_word [OF assms(1,2)] blank_word [OF assms(1,3)] by (simp add: flash_find_block_def PAGE_VALID_def)

text \<open>No block of a used page looks free: a write takes the page for full.\<close>

lemma find_block_used:
  assumes "flash_config H" and "is_page H page" and "is_page H other" and "page \<noteq> other"
    and "used_page H m page b" and "blank_page H m other"
  shows "flash_find_block H FLASH_OP_ACTION_READ m = (FLASH_SEARCH_OK, page + of_nat (1 * bsz H))"
    and "flash_find_block H FLASH_OP_ACTION_WRITE m =
      (if page = page0_address H then FLASH_SEARCH_BLOCK_WRITE_FULL_0 else FLASH_SEARCH_BLOCK_WRITE_FULL_1, 0)"
proof -
  have "mem_word m page = PAGE_VALID" using assms(5) by (simp add: used_page_def)
  moreover have "mem_word m other \<noteq> PAGE_VALID" using blank_word [OF assms(1,6)] by (simp add: PAGE_VALID_def)
  ultimately have v: "(if mem_word m (page0_address H) = PAGE_VALID then page0_address H else page1_address H) = page"
    "\<not> (mem_word m (page0_address H) = PAGE_VALID \<and> mem_word m (page1_address H) = PAGE_VALID)"
    "\<not> (mem_word m (page0_address H) \<noteq> PAGE_VALID \<and> mem_word m (page1_address H) \<noteq> PAGE_VALID)"
    using assms(2-4) by (auto simp: is_page_def)
  note c = counters [OF assms(1)]
  note w = used_word [OF assms(1,5)]
  have n: "1 \<le> bnum H" by (rule flash_configD(5) [OF assms(1)])
  have "find (\<lambda>i. mem_word m (page + of_nat ((bnum H - i) * bsz H)) = BLOCK_VALID) [0..<bnum H] = Some (bnum H - 1)"
  proof (rule find_upt_Some)
    show "mem_word m (page + of_nat ((bnum H - (bnum H - 1)) * bsz H)) = BLOCK_VALID" using n w [of 1] by simp
    show "mem_word m (page + of_nat ((bnum H - j) * bsz H)) \<noteq> BLOCK_VALID" if "j < bnum H - 1" for j
      using that w [of "bnum H - j"] by (simp add: BLOCK_VALID_def del: of_nat_mult)
  qed (use n in simp)
  moreover have "bnum H - (bnum H - 1) = 1" using n by simp
  ultimately show "flash_find_block H FLASH_OP_ACTION_READ m = (FLASH_SEARCH_OK, page + of_nat (1 * bsz H))"
    unfolding flash_find_block_def Let_def c if_not_P [OF v(2)] if_not_P [OF v(3)] v(1)
    by (simp only: PageOperationAction_t.case option.case)
  have "find (\<lambda>i. mem_word m (page + of_nat ((i + 1) * bsz H)) = PAGE_ERASED) [0..<bnum H] = None"
    using w by (intro find_upt_None) (simp only: PAGE_ERASED_def BLOCK_VALID_def, simp)
  then show "flash_find_block H FLASH_OP_ACTION_WRITE m =
      (if page = page0_address H then FLASH_SEARCH_BLOCK_WRITE_FULL_0 else FLASH_SEARCH_BLOCK_WRITE_FULL_1, 0)"
    unfolding flash_find_block_def Let_def c if_not_P [OF v(2)] if_not_P [OF v(3)] v(1)
    using assms(2) by (simp only: PageOperationAction_t.case option.case) (auto simp: is_page_def)
qed

text \<open>What the erasure of another page, and the two writes to a fresh one, leave of a page.\<close>

lemma used_erase_apart:
  assumes "flash_config H" and "is_page H q" and "is_page H page" and "q \<noteq> page" and "used_page H m page b"
  shows "used_page H (mem_write q (replicate (psz H) e) m) page b"
  using assms(5) erase_apart(2) [OF assms(1-4)] flash_configD(5) [OF assms(1)]
  by (simp add: used_page_def word_of_page [OF assms(1)])

lemma blank_write_apart:
  assumes "flash_config H" and "is_page H page" and "is_page H other" and "page \<noteq> other"
    and "i \<le> bnum H" and "length bs = bsz H" and "blank_page H m other"
  shows "blank_page H (mem_write (page + of_nat (i * bsz H)) bs m) other"
  using page_write_apart [OF assms(1-4), of bs "i * bsz H" m] block_offset [OF assms(1,5)] assms(6,7)
    flash_configD(2) [OF assms(1)]
  by (cases bs) (auto simp: blank_page_def)

context sector_flash
begin

lemma erase_page:
  assumes "sector_config H" and "is_page H page"
  shows "dev_empty dev page (page_size H) m = (pdPASS, mem_write page (replicate (psz H) 0xff) m)"
proof -
  obtain s where "s < 24" "page = sector_start s" "psz H = sector_size s"
    using sector_configD(2) [OF assms] by (auto simp: sector_page_def)
  then show ?thesis using erase_sector [of s "page_size H" m] by simp
qed

lemma write_block:
  assumes "sector_config H" and "is_page H page" and "i \<le> bnum H"
    and "block_at H m page i = replicate (bsz H) 0xff" and "length buf = 1028"
  shows "dev_write dev (page + of_nat (i * bsz H)) buf (block_size H div 4) m
       = (pdPASS, mem_write (page + of_nat (i * bsz H)) (take (bsz H) buf) m)"
proof -
  note c = sector_configD(1) [OF assms(1)]
  have "unat page mod 4 = 0"
    using sector_configD(2) [OF assms(1,2)] sector_start_ok(3) by (auto simp: sector_page_def)
  moreover have "i * bsz H mod 4 = 0" using flash_configD(1) [OF c] by auto
  ultimately have "unat (page + of_nat (i * bsz H)) mod 4 = 0"
    unfolding block_address [OF c assms(2,3)] by presburger
  then show ?thesis
    using write_blank [of "block_size H div 4" buf "page + of_nat (i * bsz H)" m] block_run [OF c assms(2,3)]
      flash_configD(3) [OF c] assms(4,5) flash_configD(10) [OF c]
    by (simp add: block_at_def)
qed

text \<open>A page whose header is not zero is erased before it is used, a blank one too.\<close>

lemma ensure_erases:
  assumes "sector_config H" and "is_page H page" and "mem_word m page \<noteq> PAGE_ERASED"
  shows "flash_ensure_empty dev H page m = mem_write page (replicate (psz H) 0xff) m"
  using assms(3) by (simp add: flash_ensure_empty_def erase_page [OF assms(1,2)])

lemma write_fresh:
  assumes config: "sector_config H" and p: "is_page H page" "is_page H other" "page \<noteq> other"
    and find: "flash_find_block H FLASH_OP_ACTION_WRITE (fmem w) = (status, x)" "status \<noteq> FLASH_SEARCH_OK"
    and new: "new_page dev H status (fmem w) = (m, page)" and blank: "blank_page H m page"
    and buffer: "length (block_buffer w) = 1028" and sz: "unat sz \<le> capacity H" "unat sz \<le> length data"
    and old: "old_page H status = None \<and> blank_page H m other \<or> old_page H status = Some other"
  shows "\<exists>w' b. flash_write dev (Some H) (Some data) sz w = Some (FLASH_OP_SUCCESS, w')
    \<and> used_page H (fmem w') page b \<and> blank_page H (fmem w') other
    \<and> payload H b = padded H (take (unat sz) data) \<and> length (block_buffer w') = 1028"
proof -
  note c = sector_configD(1) [OF config]
  note n = flash_configD(5) [OF c]
  note z = block_in_empty_page [OF c _ blank [unfolded blank_page_def]]
  have wr: "dev_write dev page buf (block_size H div 4) m = (pdPASS, mem_write page (take (bsz H) buf) m)"
    if "length buf = 1028" for buf
    using write_block [OF config p(1) _ z that, of 0] by simp
  obtain h buf0 where h: "length h = bsz H" "take 4 h = word_bytes PAGE_VALID" "length buf0 = 1028"
    and opened: "flash_open_page dev H status w
      = Inr (page + block_size H, w\<lparr>fmem := mem_write page h m, block_buffer := buf0\<rparr>)"
    using open_page_any [OF c new buffer wr] by blast
  define w1 where "w1 = w\<lparr>fmem := mem_write page h m, block_buffer := buf0\<rparr>"
  have w1: "fmem w1 = mem_write page h m" "length (block_buffer w1) = 1028" by (simp_all add: w1_def h)
  note blocks = new_page_blocks [OF c p(1) blank [unfolded blank_page_def] h(1,2)]
  have z1: "block_at H (fmem w1) page 1 = replicate (bsz H) 0xff" using blocks(1) [OF h(1)] w1 by simp
  have wr1: "dev_write dev (page + block_size H) buf (block_size H div 4) (fmem w1)
      = (pdPASS, mem_write (page + block_size H) (take (bsz H) buf) (fmem w1))" if "length buf = 1028" for buf
    using write_block [OF config p(1) n z1 that] by simp
  have er: "snd (dev_empty dev q (page_size H) m) = mem_write q (replicate (psz H) 0xff) m"
    if "old_page H status = Some q" for q m
    using that erase_page [OF config, of q] by (auto simp: old_page_def is_page_def split: if_splits)
  have d: "length (take (unat sz) data) \<le> capacity H" using sz by simp
  obtain b buf where b: "good_block H b" "payload H b = padded H (take (unat sz) data)" "length buf = 1028"
    and put: "flash_put_block dev H status (page + block_size H) (take (unat sz) data) w1 = (FLASH_OP_SUCCESS,
      w1\<lparr>block_buffer := buf, fmem := (let m = mem_write (page + block_size H) b (fmem w1)
         in case old_page H status of None \<Rightarrow> m | Some q \<Rightarrow> mem_write q (replicate (psz H) 0xff) m)\<rparr>)"
    using put_block_any [OF c w1(2) d wr1 er] by blast
  have l: "length b = bsz H" using b(1) by (simp add: good_block_def)
  let ?m = "mem_write (page + block_size H) b (mem_write page h m)"
  have used: "used_page H ?m page b" using blocks(2-4) [OF l] b(1) by (simp add: used_page_def)
  have other: "blank_page H ?m other" if "blank_page H m other"
    using blank_write_apart [OF c p n l, of "mem_write page h m"] blank_write_apart [OF c p _ h(1) that, of 0] by simp
  define m2 where "m2 = (case old_page H status of None \<Rightarrow> ?m | Some q \<Rightarrow> mem_write q (replicate (psz H) 0xff) ?m)"
  define w2 where "w2 = w1\<lparr>block_buffer := buf, fmem := m2\<rparr>"
  have "used_page H m2 page b \<and> blank_page H m2 other"
    using old used other used_erase_apart [OF c p(2,1) p(3) [symmetric] used] page_erase_same [OF c]
    by (auto simp: m2_def blank_page_def)
  moreover have "fmem w2 = m2" "length (block_buffer w2) = 1028" using b(3) by (simp_all add: w2_def)
  moreover have "flash_write dev (Some H) (Some data) sz w = Some (FLASH_OP_SUCCESS, w2)"
    using write_opens [OF c sz find opened [folded w1_def] w1(2)] put by (simp add: w2_def m2_def w1 Let_def)
  ultimately show ?thesis using b(2) by auto
qed

text \<open>
  From the second write on, every write moves to the other page: it erases that page, which is blank
  already, stores one block in it and erases the page it leaves.
\<close>

lemma write_moves:
  assumes "sector_config H" and p: "is_page H page" "is_page H other" "page \<noteq> other"
    and used: "used_page H (fmem w) page b" and blank: "blank_page H (fmem w) other"
    and "length (block_buffer w) = 1028" and "unat sz \<le> capacity H" and "unat sz \<le> length data"
  shows "\<exists>w' b'. flash_write dev (Some H) (Some data) sz w = Some (FLASH_OP_SUCCESS, w')
    \<and> used_page H (fmem w') other b' \<and> blank_page H (fmem w') page
    \<and> payload H b' = padded H (take (unat sz) data) \<and> length (block_buffer w') = 1028"
proof -
  note c = sector_configD(1) [OF assms(1)]
  let ?st = "if page = page0_address H then FLASH_SEARCH_BLOCK_WRITE_FULL_0 else FLASH_SEARCH_BLOCK_WRITE_FULL_1"
  let ?m = "mem_write other (replicate (psz H) 0xff) (fmem w)"
  have "mem_word (fmem w) other \<noteq> PAGE_ERASED" using blank_word [OF c blank] by (simp add: PAGE_ERASED_def)
  then have "new_page dev H ?st (fmem w) = (?m, other)"
    using p ensure_erases [OF assms(1) p(2)] by (auto simp: new_page_def is_page_def)
  moreover have "blank_page H ?m other" using page_erase_same [OF c] by (simp add: blank_page_def)
  moreover have "old_page H ?st = Some page" using p by (auto simp: old_page_def is_page_def)
  ultimately show ?thesis
    using write_fresh [OF assms(1) p(2,1) p(3) [symmetric] find_block_used(2) [OF c p used blank]] assms(7-9) by simp
qed

lemma write_first:
  assumes "sector_config H" and "blank_page H (fmem w) (page0_address H)" and "blank_page H (fmem w) (page1_address H)"
    and "length (block_buffer w) = 1028" and "unat sz \<le> capacity H" and "unat sz \<le> length data"
  shows "\<exists>w' b. flash_write dev (Some H) (Some data) sz w = Some (FLASH_OP_SUCCESS, w')
    \<and> used_page H (fmem w') (page0_address H) b \<and> blank_page H (fmem w') (page1_address H)
    \<and> payload H b = padded H (take (unat sz) data) \<and> length (block_buffer w') = 1028"
proof -
  note c = sector_configD(1) [OF assms(1)]
  note d = pages_differ [OF c]
  have p: "is_page H (page0_address H)" "is_page H (page1_address H)" by (simp_all add: is_page_def)
  let ?z = "replicate (psz H) 0xff"
  let ?a = "mem_write (page0_address H) ?z (fmem w)"
  let ?m = "mem_write (page1_address H) ?z ?a"
  have one: "blank_page H ?a (page1_address H)"
    using erase_apart(1) [OF c p d, where m = "fmem w"] assms(3) by (simp add: blank_page_def)
  have e: "mem_word (fmem w) (page0_address H) \<noteq> PAGE_ERASED" "mem_word ?a (page1_address H) \<noteq> PAGE_ERASED"
    using blank_word [OF c assms(2)] blank_word [OF c one] by (simp_all add: PAGE_ERASED_def)
  have "new_page dev H FLASH_SEARCH_PAGE_EMPTY (fmem w) = (?m, page0_address H)"
    using ensure_erases [OF assms(1) p(1) e(1)] ensure_erases [OF assms(1) p(2) e(2)] by (simp add: new_page_def)
  moreover have "blank_page H ?m (page0_address H)" "blank_page H ?m (page1_address H)"
    using erase_apart(1) [OF c p(2,1) d [symmetric], where m = ?a] page_erase_same [OF c] by (simp_all add: blank_page_def)
  ultimately show ?thesis
    using write_fresh [OF assms(1) p d find_block_blank [OF c assms(2,3)] _ _ _ assms(4-6)] by (simp add: old_page_def)
qed

lemma worn_pages:
  assumes "sector_config H"
  shows "is_page H (worn_page H k)" and "worn_page H k \<noteq> worn_page H (Suc k)" and "worn_page H (Suc (Suc k)) = worn_page H k"
  using pages_differ [OF sector_configD(1) [OF assms]] by (auto simp: worn_page_def is_page_def)

lemma write_worn:
  assumes "sector_config H" and "worn_store H k (fmem w) v" and "length (block_buffer w) = 1028"
    and "unat sz \<le> capacity H" and "unat sz \<le> length data"
  shows "\<exists>w'. flash_write dev (Some H) (Some data) sz w = Some (FLASH_OP_SUCCESS, w')
    \<and> worn_store H (Suc k) (fmem w') (Some (padded H (take (unat sz) data))) \<and> length (block_buffer w') = 1028"
proof (cases "k = 0")
  case True
  then have "blank_page H (fmem w) (page0_address H)" "blank_page H (fmem w) (page1_address H)"
    using assms(2) by (simp_all add: worn_store_def)
  from write_first [OF assms(1) this assms(3-5)] show ?thesis
    by (simp add: worn_store_def worn_page_def True) metis
next
  case False
  then obtain b where b: "used_page H (fmem w) (worn_page H k) b" "blank_page H (fmem w) (worn_page H (Suc k))"
    using assms(2) by (auto simp: worn_store_def)
  note p = worn_pages [OF assms(1)]
  from write_moves [OF assms(1) p(1) p(1) p(2) b assms(3-5)] show ?thesis
    unfolding worn_store_def p(3) by (simp, metis)
qed

lemma read_used:
  assumes "sector_config H" and p: "is_page H page" "is_page H other" "page \<noteq> other"
    and used: "used_page H (fmem w) page b" and "blank_page H (fmem w) other"
    and "length (block_buffer w) = 1028" and "unat sz \<le> capacity H"
  shows "\<exists>w'. flash_read dev (Some H) True sz w = Some (FLASH_OP_SUCCESS, take (unat sz) (payload H b), w')
    \<and> fmem w' = fmem w \<and> length (block_buffer w') = 1028"
proof -
  note c = sector_configD(1) [OF assms(1)]
  have b: "mem_read (fmem w) (page + of_nat (1 * bsz H)) (bsz H) = b" "good_block H b"
    using used by (simp_all add: used_page_def block_at_def)
  have "dev_read dev (page + of_nat (1 * bsz H)) (block_size H div 4) (fmem w) = (pdPASS, b)"
    using read_any [of "block_size H div 4"] flash_configD(3,10) [OF c] b(1) by simp
  from read_found [OF c find_block_used(1) [OF c p used assms(6)] this b assms(7,8)] show ?thesis .
qed

lemma read_worn:
  assumes "sector_config H" and "worn_store H k (fmem w) v" and "length (block_buffer w) = 1028" and "unat sz \<le> capacity H"
  shows "\<exists>w'. flash_read dev (Some H) True sz w = (case v of None \<Rightarrow> Some (FLASH_OP_BLOCK_ERR, [], w')
      | Some d \<Rightarrow> Some (FLASH_OP_SUCCESS, take (unat sz) d, w')) \<and> fmem w' = fmem w \<and> length (block_buffer w') = 1028"
proof (cases "k = 0")
  case True
  then have b: "v = None" "blank_page H (fmem w) (page0_address H)" "blank_page H (fmem w) (page1_address H)"
    using assms(2) by (simp_all add: worn_store_def)
  then show ?thesis
    using find_block_blank [OF sector_configD(1) [OF assms(1)] b(2,3)] assms(3) by (auto simp: flash_read_def)
next
  case False
  then obtain b where b: "v = Some (payload H b)" "used_page H (fmem w) (worn_page H k) b"
    "blank_page H (fmem w) (worn_page H (Suc k))"
    using assms(2) by (auto simp: worn_store_def)
  note p = worn_pages [OF assms(1)]
  show ?thesis using read_used [OF assms(1) p(1) p(1) p(2) b(2,3) assms(3,4)] b(1) by auto
qed

lemma run_worn:
  assumes config: "sector_config H" and "worn_store H k (fmem w) v" and "length (block_buffer w) = 1028"
    and "list_all (call_fits H) cs"
  shows "\<exists>w'. run_flash dev H cs w = Some (fst (run_register H cs v), w')
    \<and> worn_store H (k + stores cs) (fmem w') (snd (run_register H cs v))"
proof -
  note c = sector_configD(1) [OF config]
  let ?P = "\<lambda>k w v. worn_store H k (fmem w) v \<and> length (block_buffer w) = 1028"
  have "\<exists>w'. run_flash dev H cs w = Some (fst (run_register H cs v), w') \<and> ?P (k + stores cs) w' (snd (run_register H cs v))"
  proof (rule run_sim [OF c, where P = ?P])
    fix k and w :: flash_world and v and d :: "u8 list"
    assume "?P k w v" and d: "length d \<le> capacity H"
    then show "\<exists>w'. flash_write dev (Some H) (Some d) (of_nat (length d)) w = Some (FLASH_OP_SUCCESS, w')
        \<and> ?P (Suc k) w' (Some (padded H d))"
      using write_worn [OF config, of k w v "of_nat (length d)" d] unat_length [OF c d] by auto
  next
    fix k and w :: flash_world and v and sz :: u16
    assume "?P k w v" and "unat sz \<le> capacity H"
    then show "\<exists>w'. flash_read dev (Some H) True sz w = (case v of None \<Rightarrow> Some (FLASH_OP_BLOCK_ERR, [], w')
        | Some d \<Rightarrow> Some (FLASH_OP_SUCCESS, take (unat sz) d, w')) \<and> ?P k w' v"
      using read_worn [OF config, of k w v sz] by metis
  qed (use assms in simp_all)
  then show ?thesis by blast
qed

end

section \<open>The example\<close>

text \<open>What \<open>flash_test_example\<close> logs.\<close>

datatype example_log =
    Write_failed FlashOperatorStatus_t
  | Read_ok
  | Read_differs
  | Read_failed FlashOperatorStatus_t

definition example_flash0 :: FlashInfo_t where
  "example_flash0 = \<lparr>flash_valid = 0, page0_address = 0, page1_address = 0, page_size = 0, block_size = 0, block_num = 0\<rparr>"

definition flash_write_list :: "u8 list" where
  "flash_write_list = map of_nat [0..<100]"

definition flash_test_example :: "flash_dev \<Rightarrow> flash_world \<Rightarrow> (example_log list \<times> flash_world) option" where
  "flash_test_example dev w =
     (let H = snd (flash_driver_init (Some example_flash0) (FLASH_SECTOR_START_ADDRESS 10)
                     (FLASH_SECTOR_START_ADDRESS 11) (128 * 1024) 768)
      in case (if flash_check_empty (the H) (fmem w) then
                 map_option (\<lambda>(st, w). (if st \<noteq> FLASH_OP_SUCCESS then [Write_failed st] else [], w))
                   (flash_write dev H (Some flash_write_list) 100 w)
               else Some ([], w)) of
           None \<Rightarrow> None
         | Some (logs, w) \<Rightarrow>
             map_option (\<lambda>(st, flash_read_list, w).
                 (logs @ [if st = FLASH_OP_SUCCESS
                          then if flash_write_list = flash_read_list then Read_ok else Read_differs
                          else Read_failed st], w))
               (flash_read dev H True 100 w))"

definition example_flash :: FlashInfo_t where
  "example_flash = \<lparr>flash_valid = FLASH_VALID, page0_address = 0x080c0000, page1_address = 0x080e0000,
     page_size = 131072, block_size = 768, block_num = 169\<rparr>"

lemma example_init:
  "snd (flash_driver_init (Some example_flash0) (FLASH_SECTOR_START_ADDRESS 10)
     (FLASH_SECTOR_START_ADDRESS 11) (128 * 1024) 768) = Some example_flash"
  by (simp add: flash_driver_init_def example_flash0_def example_flash_def MAX_BLOCK_SIZE_def
      FLASH_SECTOR_START_ADDRESS_def sector_starts_def)

lemma example_config: "sector_config example_flash"
proof -
  have "flash_config example_flash"
    by (simp add: flash_config_def example_flash_def run_ok_def runs_apart_def)
  moreover have "sector_page example_flash 0x080c0000" "sector_page example_flash 0x080e0000"
    unfolding sector_page_def
    by (rule exI [of _ 10] exI [of _ 11], simp add: example_flash_def sector_start_def sector_size_def
        FLASH_SECTOR_START_ADDRESS_def sector_starts_def)+
  ultimately show ?thesis by (simp add: sector_config_def example_flash_def)
qed

lemma example_capacity: "capacity example_flash = 758"
  by (simp add: example_flash_def capacity_def)

lemma example_list: "length flash_write_list = 100" "take 100 (padded example_flash flash_write_list) = flash_write_list"
  by (simp_all add: flash_write_list_def padded_def)

text \<open>
  On a memory the store is made for, the example succeeds when it finds both pages erased. On internal
  flash it never takes the pages for erased, so it writes nothing and its read fails.
\<close>

context flash_device
begin

lemma example_succeeds:
  assumes "store example_flash (fmem w) None" and "flash_check_empty example_flash (fmem w)"
    and "length (block_buffer w) = 1028"
  shows "\<exists>w'. flash_test_example dev w = Some ([Read_ok], w')"
proof -
  note c = sector_configD(1) [OF example_config]
  have n: "unat (100 :: u16) \<le> capacity example_flash" "unat (100 :: u16) \<le> length flash_write_list"
    by (simp_all add: example_capacity example_list)
  obtain w1 where w1: "flash_write dev (Some example_flash) (Some flash_write_list) 100 w = Some (FLASH_OP_SUCCESS, w1)"
    "store example_flash (fmem w1) (Some (padded example_flash (take (unat (100 :: u16)) flash_write_list)))"
    "length (block_buffer w1) = 1028"
    using write_store [OF c assms(1,3) n] by blast
  obtain w2 where "flash_read dev (Some example_flash) True 100 w1
      = Some (FLASH_OP_SUCCESS, take (unat (100 :: u16)) (padded example_flash (take (unat (100 :: u16)) flash_write_list)), w2)"
    using read_store [OF c w1(2,3) n(1)] by auto
  then show ?thesis
    unfolding flash_test_example_def example_init Let_def using assms(2) w1(1) by (simp add: example_list)
qed

end

context sector_flash
begin

lemma example_fails:
  assumes "blank_page example_flash (fmem w) (page0_address example_flash)"
    and "blank_page example_flash (fmem w) (page1_address example_flash)"
  shows "flash_test_example dev w = Some ([Read_failed FLASH_OP_BLOCK_ERR], w)"
proof -
  note c = sector_configD(1) [OF example_config]
  have "\<not> flash_check_empty example_flash (fmem w)"
    using blank_word [OF c assms(1)] by (simp add: flash_check_empty_def PAGE_ERASED_def)
  then show ?thesis
    unfolding flash_test_example_def example_init Let_def using find_block_blank [OF c assms] by (simp add: flash_read_def)
qed

end

section \<open>Properties\<close>

lemma blank_memory: "blank_page H (\<lambda>_. 0xff) page"
  by (simp add: blank_page_def page_at_def mem_read_def map_replicate_const)

text \<open>
  C15. On the microcontroller's own flash (a branch of drv_flash.c the repository's configuration
  does not compile), with two sectors of the same size as pages and a function that reads the mapped
  memory (the branch has none: a parameter): from two erased sectors, or a store left by earlier
  writes, any sequence of flash_write and flash_read calls that fit the block size still behaves
  like a single register; but every write moves: after the first, third, ... write the value is the
  only block of the first page and the second page is erased, after the second, fourth, ... write
  the other way round.
\<close>

theorem internal_flash_register:
  assumes "sector_config H" and "reads_mapped rd" and "worn_store H k (fmem w) v" and "length (block_buffer w) = 1028"
    and "list_all (call_fits H) cs" and "n = k + stores cs"
  shows "\<exists>w'. run_flash (internal_device rd) H cs w = Some (fst (run_register H cs v), w')
    \<and> (if n = 0 then blank_page H (fmem w') (page0_address H) \<and> blank_page H (fmem w') (page1_address H)
       else \<exists>b. snd (run_register H cs v) = Some (payload H b)
         \<and> used_page H (fmem w') (if odd n then page0_address H else page1_address H) b
         \<and> blank_page H (fmem w') (if odd n then page1_address H else page0_address H))"
proof -
  obtain w' where w': "run_flash (internal_device rd) H cs w = Some (fst (run_register H cs v), w')"
    "worn_store H n (fmem w') (snd (run_register H cs v))"
    using sector_flash.run_worn [OF internal_sector_flash [OF assms(2)] assms(1,3-5)] assms(6) by blast
  have p: "worn_page H n = (if odd n then page0_address H else page1_address H)"
    "worn_page H (Suc n) = (if odd n then page1_address H else page0_address H)" by (simp_all add: worn_page_def)
  have "if n = 0 then blank_page H (fmem w') (page0_address H) \<and> blank_page H (fmem w') (page1_address H)
      else \<exists>b. snd (run_register H cs v) = Some (payload H b)
        \<and> used_page H (fmem w') (worn_page H n) b \<and> blank_page H (fmem w') (worn_page H (Suc n))"
    using w'(2) unfolding worn_store_def by (cases "n = 0") simp_all
  then show ?thesis unfolding p using w'(1) by (intro exI [of _ w'] conjI)
qed

theorem internal_flash_register_witness:
  "\<exists>w'. run_flash (internal_device flash_read_device) example_flash [Load 2, Store [7, 8], Store [1, 2, 3], Load 2]
      \<lparr>fmem = (\<lambda>_. 0xff), block_buffer = replicate 1028 0\<rparr>
    = Some ([(FLASH_OP_BLOCK_ERR, []), (FLASH_OP_SUCCESS, []), (FLASH_OP_SUCCESS, []), (FLASH_OP_SUCCESS, [1, 2])], w')
    \<and> blank_page example_flash (fmem w') 0x080c0000"
proof -
  let ?w = "\<lparr>fmem = (\<lambda>_. 0xff), block_buffer = replicate 1028 0\<rparr>"
  have "worn_store example_flash 0 (fmem ?w) None" "length (block_buffer ?w) = 1028"
    "list_all (call_fits example_flash) [Load 2, Store [7, 8], Store [1, 2, 3], Load 2]"
    by (simp_all add: worn_store_def blank_memory example_capacity)
  from internal_flash_register [OF example_config flash_read_device_mapped this refl] obtain w' where
    w': "run_flash (internal_device flash_read_device) example_flash [Load 2, Store [7, 8], Store [1, 2, 3], Load 2] ?w
      = Some (fst (run_register example_flash [Load 2, Store [7, 8], Store [1, 2, 3], Load 2] None), w')"
    "blank_page example_flash (fmem w') (page0_address example_flash)"
    by (auto simp del: run_flash.simps run_register.simps)
  have "page0_address example_flash = 0x080c0000" by (simp add: example_flash_def)
  moreover have "fst (run_register example_flash [Load 2, Store [7, 8], Store [1, 2, 3], Load 2] None)
      = [(FLASH_OP_BLOCK_ERR, []), (FLASH_OP_SUCCESS, []), (FLASH_OP_SUCCESS, []), (FLASH_OP_SUCCESS, [1, 2])]"
    by (simp add: padded_def)
  ultimately show ?thesis using w' by metis
qed

end
