(* ===== verification/Disk_IO.thy ===== *)
theory Disk_IO
  imports Transfers Byte_Memory
begin

text \<open>
  The disks under the file system (\<^verbatim>\<open>ThirdParts/ff15/source/disk_interface.c\<close>, and \<^verbatim>\<open>diskio.c\<close>, which the
  program has filled in): drive 0 is a piece of the external memory, drive 1 the SD card, drive 2 is not
  there yet. What FatFS asks of a drive is the locale \<open>block_device\<close>; both drives interpret it, the second
  for every card that behaves as the HAL documents (\<open>sd_card\<close>).
\<close>

section \<open>Constants\<close>

definition RAM_START_ADDRESS :: u32 where "RAM_START_ADDRESS = 0xC0000000"
definition RAM_SECTOR_SIZE :: u32 where "RAM_SECTOR_SIZE = 512"
definition RAM_SECTOR_COUNT :: u32 where "RAM_SECTOR_COUNT = 4096"
definition MMC_SECTOR_SIZE :: u32 where "MMC_SECTOR_SIZE = 512"
definition MMC_SECTOR_COUNT :: u32 where "MMC_SECTOR_COUNT = 62500000"

definition DEV_RAM :: u8 where "DEV_RAM = 0"
definition DEV_MMC :: u8 where "DEV_MMC = 1"
definition DEV_USB :: u8 where "DEV_USB = 2"

abbreviation (input) CTRL_SYNC :: u8 where "CTRL_SYNC \<equiv> 0"
abbreviation (input) GET_SECTOR_COUNT :: u8 where "GET_SECTOR_COUNT \<equiv> 1"
abbreviation (input) GET_SECTOR_SIZE :: u8 where "GET_SECTOR_SIZE \<equiv> 2"
abbreviation (input) GET_BLOCK_SIZE :: u8 where "GET_BLOCK_SIZE \<equiv> 3"

definition STA_NOINIT :: u8 where "STA_NOINIT = 1"
definition STA_NODISK :: u8 where "STA_NODISK = 2"

definition RES_OK :: u8 where "RES_OK = 0"
definition RES_ERROR :: u8 where "RES_ERROR = 1"
definition RES_PARERR :: u8 where "RES_PARERR = 4"

section \<open>State\<close>

text \<open>
  The memory, the bytes on the card, and the history of what the driver of the card has done. Of the HAL
  the code uses what it answers to a request and what the state of the card is after a history. An
  accepted request only starts a transfer by DMA: what memory and card hold after a history, from what
  they held at its last request, is a parameter too.
\<close>

record disk_world =
  dk_mem :: memory
  dk_card :: "nat \<Rightarrow> u8"
  dk_sd :: sd_history

record sd_hal =
  sd_start :: "sd_history \<Rightarrow> sd_event \<Rightarrow> HAL_StatusTypeDef"
  sd_transfer :: "sd_history \<Rightarrow> bool"
  sd_data :: "sd_event \<Rightarrow> sd_history \<Rightarrow> memory \<times> (nat \<Rightarrow> u8) \<Rightarrow> memory \<times> (nat \<Rightarrow> u8)"

definition copy_bytes :: "u32 \<Rightarrow> u32 \<Rightarrow> u32 \<Rightarrow> memory \<Rightarrow> memory" where
  "copy_bytes dst src sz m = mem_write dst (mem_read m src (unat sz)) m"

section \<open>The memory disk\<close>

definition RAM_disk_status :: int where "RAM_disk_status = 0"
definition RAM_disk_initialize :: int where "RAM_disk_initialize = 0"

definition RAM_disk_read :: "u32 \<Rightarrow> u32 \<Rightarrow> u32 \<Rightarrow> disk_world \<Rightarrow> int \<times> disk_world" where
  "RAM_disk_read buff sector cnt w =
     (let address = RAM_START_ADDRESS + sector * RAM_SECTOR_SIZE;
          sz = cnt * RAM_SECTOR_SIZE
      in (0, w\<lparr>dk_mem := copy_bytes buff address sz (dk_mem w)\<rparr>))"

definition RAM_disk_write :: "u32 \<Rightarrow> u32 \<Rightarrow> u32 \<Rightarrow> disk_world \<Rightarrow> int \<times> disk_world" where
  "RAM_disk_write buff sector cnt w =
     (let address = RAM_START_ADDRESS + sector * RAM_SECTOR_SIZE;
          sz = cnt * RAM_SECTOR_SIZE
      in (0, w\<lparr>dk_mem := copy_bytes address buff sz (dk_mem w)\<rparr>))"

definition store_word :: "u32 \<Rightarrow> u32 \<Rightarrow> disk_world \<Rightarrow> disk_world" where
  "store_word a v w = w\<lparr>dk_mem := mem_write a (word_bytes v) (dk_mem w)\<rparr>"

definition RAM_disk_ioctl :: "u8 \<Rightarrow> u32 \<Rightarrow> disk_world \<Rightarrow> int \<times> disk_world" where
  "RAM_disk_ioctl cmd buff w =
     (0, if cmd = GET_BLOCK_SIZE then store_word buff RAM_SECTOR_SIZE w
         else if cmd = GET_SECTOR_COUNT then store_word buff RAM_SECTOR_COUNT w
         else w)"

section \<open>The SD card\<close>

definition MMC_disk_status :: int where "MMC_disk_status = 0"
definition MMC_disk_initialize :: int where "MMC_disk_initialize = 0"

text \<open>Memory and card after the driver's history \<open>h\<close>, of which \<open>q\<close> is the last request.\<close>

definition sd_after :: "sd_hal \<Rightarrow> HAL_StatusTypeDef \<Rightarrow> sd_event \<Rightarrow> sd_history \<Rightarrow> disk_world \<Rightarrow> disk_world" where
  "sd_after hal start q h w =
     (let w = (if start = HAL_OK
               then (let (m, c) = sd_data hal q h (dk_mem w, dk_card w) in w\<lparr>dk_mem := m, dk_card := c\<rparr>) else w)
      in w\<lparr>dk_sd := h\<rparr>)"

definition MMC_disk_read :: "sd_hal \<Rightarrow> u32 \<Rightarrow> u32 \<Rightarrow> u32 \<Rightarrow> disk_world \<Rightarrow> int \<times> disk_world" where
  "MMC_disk_read hal buff sector cnt w =
     (let start = sd_start hal (dk_sd w) (Sd_ReadBlocks buff sector cnt);
          (status, h) = sdcard_read_disk start (sd_transfer hal) buff sector cnt (dk_sd w);
          w = sd_after hal start (Sd_ReadBlocks buff sector cnt) h w
      in if status = HAL_OK then (0, w) else (- 1, w))"

definition MMC_disk_write :: "sd_hal \<Rightarrow> u32 \<Rightarrow> u32 \<Rightarrow> u32 \<Rightarrow> disk_world \<Rightarrow> int \<times> disk_world" where
  "MMC_disk_write hal buff sector cnt w =
     (let start = sd_start hal (dk_sd w) (Sd_WriteBlocks buff sector cnt);
          (status, h) = sdcard_write_disk start (sd_transfer hal) buff sector cnt (dk_sd w);
          w = sd_after hal start (Sd_WriteBlocks buff sector cnt) h w
      in if status = HAL_OK then (0, w) else (- 1, w))"

definition MMC_disk_ioctl :: "u8 \<Rightarrow> u32 \<Rightarrow> disk_world \<Rightarrow> int \<times> disk_world" where
  "MMC_disk_ioctl cmd buff w =
     (0, if cmd = GET_BLOCK_SIZE then store_word buff MMC_SECTOR_SIZE w
         else if cmd = GET_SECTOR_SIZE then store_word buff MMC_SECTOR_SIZE w
         else if cmd = GET_SECTOR_COUNT then store_word buff MMC_SECTOR_COUNT w
         else w)"

section \<open>The third drive\<close>

definition USB_disk_status :: int where "USB_disk_status = 0"
definition USB_disk_initialize :: int where "USB_disk_initialize = 0"

definition USB_disk_read :: "u32 \<Rightarrow> u32 \<Rightarrow> u32 \<Rightarrow> disk_world \<Rightarrow> int \<times> disk_world" where
  "USB_disk_read buff sector cnt w = (0, w)"

definition USB_disk_write :: "u32 \<Rightarrow> u32 \<Rightarrow> u32 \<Rightarrow> disk_world \<Rightarrow> int \<times> disk_world" where
  "USB_disk_write buff sector cnt w = (0, w)"

definition get_fattime :: u32 where "get_fattime = 0"

section \<open>The interface of FatFS\<close>

definition disk_status :: "u8 \<Rightarrow> u8" where
  "disk_status pdrv =
     (if pdrv = DEV_RAM then (if RAM_disk_status \<noteq> 0 then STA_NODISK else RES_OK)
      else if pdrv = DEV_MMC then (if MMC_disk_status \<noteq> 0 then STA_NODISK else RES_OK)
      else if pdrv = DEV_USB then (if USB_disk_status \<noteq> 0 then STA_NODISK else RES_OK)
      else STA_NOINIT)"

definition disk_initialize :: "u8 \<Rightarrow> u8" where
  "disk_initialize pdrv =
     (if pdrv = DEV_RAM then (if RAM_disk_initialize \<noteq> 0 then STA_NODISK else RES_OK)
      else if pdrv = DEV_MMC then (if MMC_disk_initialize \<noteq> 0 then STA_NODISK else RES_OK)
      else if pdrv = DEV_USB then (if USB_disk_initialize \<noteq> 0 then STA_NODISK else RES_OK)
      else STA_NOINIT)"

definition disk_read :: "sd_hal \<Rightarrow> u8 \<Rightarrow> u32 \<Rightarrow> u32 \<Rightarrow> u32 \<Rightarrow> disk_world \<Rightarrow> u8 \<times> disk_world" where
  "disk_read hal pdrv buff sector cnt w =
     (if pdrv = DEV_RAM then (let (result, w) = RAM_disk_read buff sector cnt w
                              in (if result \<noteq> 0 then RES_ERROR else RES_OK, w))
      else if pdrv = DEV_MMC then (let (result, w) = MMC_disk_read hal buff sector cnt w
                                   in (if result \<noteq> 0 then RES_ERROR else RES_OK, w))
      else if pdrv = DEV_USB then (let (result, w) = USB_disk_read buff sector cnt w
                                   in (if result \<noteq> 0 then RES_ERROR else RES_OK, w))
      else (RES_PARERR, w))"

definition disk_write :: "sd_hal \<Rightarrow> u8 \<Rightarrow> u32 \<Rightarrow> u32 \<Rightarrow> u32 \<Rightarrow> disk_world \<Rightarrow> u8 \<times> disk_world" where
  "disk_write hal pdrv buff sector cnt w =
     (if pdrv = DEV_RAM then (let (result, w) = RAM_disk_write buff sector cnt w
                              in (if result \<noteq> 0 then RES_ERROR else RES_OK, w))
      else if pdrv = DEV_MMC then (let (result, w) = MMC_disk_write hal buff sector cnt w
                                   in (if result \<noteq> 0 then RES_ERROR else RES_OK, w))
      else if pdrv = DEV_USB then (let (result, w) = USB_disk_write buff sector cnt w
                                   in (if result \<noteq> 0 then RES_ERROR else RES_OK, w))
      else (RES_PARERR, w))"

text \<open>For the third drive the result is a variable that is never set: the parameter \<open>unset\<close>.\<close>

definition disk_ioctl :: "u8 \<Rightarrow> u8 \<Rightarrow> u8 \<Rightarrow> u32 \<Rightarrow> disk_world \<Rightarrow> u8 \<times> disk_world" where
  "disk_ioctl unset pdrv cmd buff w =
     (if pdrv = DEV_RAM then (let (result, w) = RAM_disk_ioctl cmd buff w
                              in (if result \<noteq> 0 then RES_ERROR else RES_OK, w))
      else if pdrv = DEV_MMC then (let (result, w) = MMC_disk_ioctl cmd buff w
                                   in (if result \<noteq> 0 then RES_ERROR else RES_OK, w))
      else if pdrv = DEV_USB then (unset, w)
      else (RES_PARERR, w))"

lemmas drive_defs = DEV_RAM_def DEV_MMC_def DEV_USB_def RES_OK_def RES_ERROR_def RES_PARERR_def

section \<open>What FatFS asks of a drive\<close>

text \<open>Calls of FatFS with a buffer of its own, and an array of bytes in sectors of 512.\<close>

datatype disk_call = Disk_Get u32 u32 | Disk_Put u32 "u8 list"

primrec run_disk ::
  "sd_hal \<Rightarrow> u8 \<Rightarrow> u32 \<Rightarrow> disk_call list \<Rightarrow> disk_world \<Rightarrow> (u8 \<times> u8 list) list \<times> disk_world" where
  "run_disk hal pdrv b [] w = ([], w)"
| "run_disk hal pdrv b (c # cs) w =
     (let (r, w) = (case c of
                      Disk_Get s n \<Rightarrow> (let (r, w) = disk_read hal pdrv b s n w
                                      in ((r, mem_read (dk_mem w) b (unat n * 512)), w))
                    | Disk_Put s bs \<Rightarrow> (let w = w\<lparr>dk_mem := mem_write b bs (dk_mem w)\<rparr>;
                                           (r, w) = disk_write hal pdrv b s (of_nat (length bs div 512)) w
                                       in ((r, []), w)));
          (rs, w) = run_disk hal pdrv b cs w
      in (r # rs, w))"

primrec run_array :: "disk_call list \<Rightarrow> (nat \<Rightarrow> u8) \<Rightarrow> (u8 \<times> u8 list) list \<times> (nat \<Rightarrow> u8)" where
  "run_array [] a = ([], a)"
| "run_array (c # cs) a =
     (let (r, a) = (case c of
                      Disk_Get s n \<Rightarrow> ((RES_OK, map a [unat s * 512..<(unat s + unat n) * 512]), a)
                    | Disk_Put s bs \<Rightarrow>
                        ((RES_OK, []), \<lambda>i. if unat s * 512 \<le> i \<and> i < unat s * 512 + length bs then bs ! (i - unat s * 512) else a i));
          (rs, a) = run_array cs a
      in (r # rs, a))"

text \<open>Whole sectors, all of them on the disk, and a buffer the drive can use.\<close>

fun disk_fits :: "nat \<Rightarrow> (nat \<Rightarrow> bool) \<Rightarrow> disk_call \<Rightarrow> bool" where
  "disk_fits sectors ok (Disk_Get s n) \<longleftrightarrow> unat s + unat n \<le> sectors \<and> ok (unat n * 512)"
| "disk_fits sectors ok (Disk_Put s bs) \<longleftrightarrow> length bs mod 512 = 0 \<and> unat s + length bs div 512 \<le> sectors \<and> ok (length bs)"

locale block_device =
  fixes hal :: sd_hal and pdrv :: u8 and disk :: "disk_world \<Rightarrow> nat \<Rightarrow> u8" and sectors :: nat
    and ok :: "u32 \<Rightarrow> nat \<Rightarrow> bool" and ready :: "disk_world \<Rightarrow> bool"
  assumes ok_run: "ok b k \<Longrightarrow> run_ok b k"
    and get: "ready w \<Longrightarrow> ok b (unat n * 512) \<Longrightarrow> unat s + unat n \<le> sectors \<Longrightarrow>
      \<exists>w'. disk_read hal pdrv b s n w = (RES_OK, w') \<and> ready w'
        \<and> mem_read (dk_mem w') b (unat n * 512) = map (disk w) [unat s * 512..<(unat s + unat n) * 512]
        \<and> (\<forall>i < sectors * 512. disk w' i = disk w i)"
    and put: "ready w \<Longrightarrow> ok b (unat n * 512) \<Longrightarrow> unat s + unat n \<le> sectors \<Longrightarrow>
      \<exists>w'. disk_write hal pdrv b s n w = (RES_OK, w') \<and> ready w'
        \<and> (\<forall>i < sectors * 512. disk w' i =
              (if unat s * 512 \<le> i \<and> i < (unat s + unat n) * 512 then dk_mem w (b + of_nat (i - unat s * 512)) else disk w i))"
    and fill: "ok b (length bs) \<Longrightarrow> i < sectors * 512 \<Longrightarrow>
      disk (w\<lparr>dk_mem := mem_write b bs (dk_mem w)\<rparr>) i = disk w i"
    and fill_ready: "ready (w\<lparr>dk_mem := m\<rparr>) = ready w"
begin

lemma put_list:
  assumes "disk_fits sectors (ok b) (Disk_Put s bs)" and "ready w"
  shows "\<exists>w'. disk_write hal pdrv b s (of_nat (length bs div 512)) (w\<lparr>dk_mem := mem_write b bs (dk_mem w)\<rparr>) = (RES_OK, w') \<and> ready w'
    \<and> (\<forall>i < sectors * 512. disk w' i =
          (if unat s * 512 \<le> i \<and> i < unat s * 512 + length bs then bs ! (i - unat s * 512) else disk w i))"
proof -
  let ?n = "of_nat (length bs div 512) :: u32"
  let ?w = "w\<lparr>dk_mem := mem_write b bs (dk_mem w)\<rparr>"
  have f: "length bs mod 512 = 0" "unat s + length bs div 512 \<le> sectors" "ok b (length bs)" using assms(1) by simp_all
  have l: "length bs \<le> 2 ^ 32" using ok_run [OF f(3)] by (simp add: run_ok_def)
  have n: "unat ?n = length bs div 512" using l by (simp add: unat_of_nat)
  have n512: "unat ?n * 512 = length bs" unfolding n using f(1) by auto
  have data: "dk_mem ?w (b + of_nat j) = bs ! j" if "j < length bs" for j
    using mem_read_write_same [OF l, of b "dk_mem w"] nth_mem_read [OF that, of "dk_mem ?w" b] by simp
  obtain w' where w': "disk_write hal pdrv b s ?n ?w = (RES_OK, w')" "ready w'"
    "\<forall>i < sectors * 512. disk w' i =
      (if unat s * 512 \<le> i \<and> i < (unat s + unat ?n) * 512 then dk_mem ?w (b + of_nat (i - unat s * 512)) else disk ?w i)"
    using put [of ?w b ?n s] f(2,3) n n512 assms(2) by (auto simp: fill_ready)
  have e: "(unat s + unat ?n) * 512 = unat s * 512 + length bs" using n512 by (simp add: distrib_right)
  have "\<forall>i < sectors * 512. disk w' i =
      (if unat s * 512 \<le> i \<and> i < unat s * 512 + length bs then bs ! (i - unat s * 512) else disk w i)"
  proof (intro allI impI)
    fix i assume i: "i < sectors * 512"
    show "disk w' i = (if unat s * 512 \<le> i \<and> i < unat s * 512 + length bs then bs ! (i - unat s * 512) else disk w i)"
    proof (cases "unat s * 512 \<le> i \<and> i < unat s * 512 + length bs")
      case True
      then have "i - unat s * 512 < length bs" by linarith
      from data [OF this] show ?thesis using w'(3) [unfolded e] i True by (simp only: if_True simp_thms)
    next
      case False
      then show ?thesis using w'(3) [unfolded e] i fill [OF f(3) i, of w] by (simp only: if_False)
    qed
  qed
  then show ?thesis using w'(1,2) by blast
qed

lemma run_is_array:
  "list_all (disk_fits sectors (ok b)) cs \<Longrightarrow> ready w \<Longrightarrow> (\<forall>i < sectors * 512. disk w i = a i) \<Longrightarrow>
    \<exists>w'. run_disk hal pdrv b cs w = (fst (run_array cs a), w') \<and> (\<forall>i < sectors * 512. disk w' i = snd (run_array cs a) i)"
proof (induction cs arbitrary: w a)
  case Nil
  then show ?case by simp
next
  case (Cons c cs)
  show ?case
  proof (cases c)
    case (Disk_Get s n)
    then have f: "unat s + unat n \<le> sectors" "ok b (unat n * 512)" using Cons.prems(1) by simp_all
    obtain w1 where w1: "disk_read hal pdrv b s n w = (RES_OK, w1)" "ready w1"
      "mem_read (dk_mem w1) b (unat n * 512) = map (disk w) [unat s * 512..<(unat s + unat n) * 512]"
      "\<forall>i < sectors * 512. disk w1 i = disk w i"
      using get [OF Cons.prems(2) f(2,1)] by blast
    have "(unat s + unat n) * 512 \<le> sectors * 512" using f(1) by (rule mult_le_mono1)
    then have "map (disk w) [unat s * 512..<(unat s + unat n) * 512] = map a [unat s * 512..<(unat s + unat n) * 512]"
      using Cons.prems(3) by auto
    moreover obtain w' where "run_disk hal pdrv b cs w1 = (fst (run_array cs a), w')"
      "\<forall>i < sectors * 512. disk w' i = snd (run_array cs a) i"
      using Cons.IH [of w1 a] Cons.prems(1,3) w1(2,4) by auto
    ultimately show ?thesis using w1(1,3) by (simp add: Disk_Get split_beta)
  next
    case (Disk_Put s bs)
    let ?a = "\<lambda>i. if unat s * 512 \<le> i \<and> i < unat s * 512 + length bs then bs ! (i - unat s * 512) else a i"
    obtain w1 where w1: "disk_write hal pdrv b s (of_nat (length bs div 512)) (w\<lparr>dk_mem := mem_write b bs (dk_mem w)\<rparr>) = (RES_OK, w1)" "ready w1"
      "\<forall>i < sectors * 512. disk w1 i = ?a i"
      using put_list [of b s bs w] Cons.prems Disk_Put by auto
    then obtain w' where "run_disk hal pdrv b cs w1 = (fst (run_array cs ?a), w')"
      "\<forall>i < sectors * 512. disk w' i = snd (run_array cs ?a) i"
      using Cons.IH [of w1 ?a] Cons.prems(1) by auto
    then show ?thesis using w1(1) by (simp add: Disk_Put split_beta Let_def)
  qed
qed

end

section \<open>The memory disk\<close>

definition ram_bytes :: "disk_world \<Rightarrow> nat \<Rightarrow> u8" where
  "ram_bytes w i = dk_mem w (RAM_START_ADDRESS + of_nat i)"

text \<open>A buffer outside the disk.\<close>

definition ram_buffer :: "u32 \<Rightarrow> nat \<Rightarrow> bool" where
  "ram_buffer b k \<longleftrightarrow> run_ok b k \<and> runs_apart b k RAM_START_ADDRESS (4096 * 512)"

lemma ram_run: "run_ok RAM_START_ADDRESS (4096 * 512)"
  by (simp add: run_ok_def RAM_START_ADDRESS_def)

lemma ram_write_apart:
  assumes "ram_buffer b (length bs)" and "i < 4096 * 512"
  shows "mem_write b bs m (RAM_START_ADDRESS + of_nat i) = m (RAM_START_ADDRESS + of_nat i)"
  using mem_read_write_apart [OF _ ram_run, of b bs m] assms nth_mem_read [OF assms(2), of _ RAM_START_ADDRESS]
  by (metis ram_buffer_def)

lemma ram_sector:
  assumes "unat s + unat n \<le> 4096"
  shows "RAM_START_ADDRESS + s * RAM_SECTOR_SIZE = RAM_START_ADDRESS + of_nat (unat s * 512)"
    and "unat (n * RAM_SECTOR_SIZE) = unat n * 512"
  using assms by (simp_all add: RAM_SECTOR_SIZE_def unat_word_ariths)

lemma mem_read_shift: "mem_read m (a + of_nat k) n = map (\<lambda>i. m (a + of_nat i)) [k..<k + n]"
  by (rule nth_equalityI) (simp_all add: nth_mem_read add.assoc)

lemma mem_write_at:
  assumes "i < 2 ^ 32" and "k + length bs \<le> 2 ^ 32"
  shows "mem_write (a + of_nat k) bs m (a + of_nat i) = (if k \<le> i \<and> i < k + length bs then bs ! (i - k) else m (a + of_nat i))"
proof (cases "bs = []")
  case True
  then show ?thesis by (auto simp: mem_write_def)
next
  case False
  then have k: "k < 2 ^ 32" using assms(2) by (cases bs) auto
  have e: "a + of_nat i - (a + of_nat k) = of_nat i - of_nat k" by simp
  have "unat (of_nat i - of_nat k :: u32) = (if k \<le> i then i - k else i + 2 ^ 32 - k)"
    using assms(1) k by (simp add: unat_sub_if' unat_of_nat)
  then show ?thesis using assms k unfolding mem_write_def e by auto
qed

interpretation ram: block_device hal DEV_RAM ram_bytes 4096 ram_buffer "\<lambda>_. True" for hal
proof unfold_locales
  fix b k assume "ram_buffer b k" then show "run_ok b k" by (simp add: ram_buffer_def)
next
  fix b n s :: u32 and w :: disk_world
  assume ok: "ram_buffer b (unat n * 512)" and f: "unat s + unat n \<le> 4096"
  let ?data = "mem_read (dk_mem w) (RAM_START_ADDRESS + of_nat (unat s * 512)) (unat n * 512)"
  let ?w = "w\<lparr>dk_mem := mem_write b ?data (dk_mem w)\<rparr>"
  have rd: "disk_read hal DEV_RAM b s n w = (RES_OK, ?w)"
    unfolding disk_read_def RAM_disk_read_def Let_def ram_sector [OF f] copy_bytes_def by simp
  have "length ?data \<le> 2 ^ 32" using f by simp
  from mem_read_write_same [OF this, of b "dk_mem w"]
  have "mem_read (dk_mem ?w) b (unat n * 512) = ?data" by simp
  also have "\<dots> = map (ram_bytes w) [unat s * 512..<(unat s + unat n) * 512]"
    unfolding mem_read_shift distrib_right by (intro map_cong refl) (simp only: ram_bytes_def)
  finally have "mem_read (dk_mem ?w) b (unat n * 512) = map (ram_bytes w) [unat s * 512..<(unat s + unat n) * 512]" .
  moreover have "\<forall>i < 4096 * 512. ram_bytes ?w i = ram_bytes w i"
    using ram_write_apart [of b ?data] ok by (simp add: ram_bytes_def)
  ultimately show "\<exists>w'. disk_read hal DEV_RAM b s n w = (RES_OK, w') \<and> True
      \<and> mem_read (dk_mem w') b (unat n * 512) = map (ram_bytes w) [unat s * 512..<(unat s + unat n) * 512]
      \<and> (\<forall>i < 4096 * 512. ram_bytes w' i = ram_bytes w i)"
    using rd by blast
next
  fix b n s :: u32 and w :: disk_world
  assume ok: "ram_buffer b (unat n * 512)" and f: "unat s + unat n \<le> 4096"
  let ?data = "mem_read (dk_mem w) b (unat n * 512)"
  let ?w = "w\<lparr>dk_mem := mem_write (RAM_START_ADDRESS + of_nat (unat s * 512)) ?data (dk_mem w)\<rparr>"
  have wr: "disk_write hal DEV_RAM b s n w = (RES_OK, ?w)"
    unfolding disk_write_def RAM_disk_write_def Let_def ram_sector [OF f] copy_bytes_def by simp
  have "ram_bytes ?w i = (if unat s * 512 \<le> i \<and> i < (unat s + unat n) * 512
      then dk_mem w (b + of_nat (i - unat s * 512)) else ram_bytes w i)" if i: "i < 4096 * 512" for i
  proof -
    have "ram_bytes ?w i = (if unat s * 512 \<le> i \<and> i < unat s * 512 + unat n * 512
        then ?data ! (i - unat s * 512) else ram_bytes w i)"
      unfolding ram_bytes_def using mem_write_at [of i "unat s * 512" ?data RAM_START_ADDRESS "dk_mem w"] i f
      by (simp only: disk_world.simps length_mem_read) simp
    also have "\<dots> = (if unat s * 512 \<le> i \<and> i < (unat s + unat n) * 512
        then dk_mem w (b + of_nat (i - unat s * 512)) else ram_bytes w i)"
      unfolding distrib_right by (intro if_cong refl nth_mem_read) linarith
    finally show ?thesis .
  qed
  then show "\<exists>w'. disk_write hal DEV_RAM b s n w = (RES_OK, w') \<and> True
      \<and> (\<forall>i < 4096 * 512. ram_bytes w' i = (if unat s * 512 \<le> i \<and> i < (unat s + unat n) * 512
            then dk_mem w (b + of_nat (i - unat s * 512)) else ram_bytes w i))"
    using wr by blast
next
  fix b :: u32 and bs :: "u8 list" and i :: nat and w :: disk_world
  assume "ram_buffer b (length bs)" "i < 4096 * 512"
  then show "ram_bytes (w\<lparr>dk_mem := mem_write b bs (dk_mem w)\<rparr>) i = ram_bytes w i"
    by (simp add: ram_bytes_def ram_write_apart)
qed simp_all

section \<open>The card\<close>

text \<open>The driver of the card is ready for a request: the last one has been finished by making it ready.\<close>

fun sd_idle :: "sd_history \<Rightarrow> bool" where
  "sd_idle [] \<longleftrightarrow> True"
| "sd_idle (Sd_SetReady # h) \<longleftrightarrow> True"
| "sd_idle (Sd_ReadBlocks b s n # h) \<longleftrightarrow> False"
| "sd_idle (Sd_WriteBlocks b s n # h) \<longleftrightarrow> False"
| "sd_idle (e # h) \<longleftrightarrow> sd_idle h"

text \<open>What an accepted request has moved when it is complete.\<close>

fun card_move :: "sd_event \<Rightarrow> memory \<times> (nat \<Rightarrow> u8) \<Rightarrow> memory \<times> (nat \<Rightarrow> u8)" where
  "card_move (Sd_ReadBlocks b s n) (m, c) = (mem_write b (map c [unat s * 512..<(unat s + unat n) * 512]) m, c)"
| "card_move (Sd_WriteBlocks b s n) (m, c) =
     (m, \<lambda>i. if unat s * 512 \<le> i \<and> i < (unat s + unat n) * 512 then m (b + of_nat (i - unat s * 512)) else c i)"
| "card_move q mc = mc"

text \<open>A buffer the DMA stream can use: aligned to words.\<close>

definition card_buffer :: "u32 \<Rightarrow> nat \<Rightarrow> bool" where
  "card_buffer b k \<longleftrightarrow> run_ok b k \<and> unat b mod 4 = 0 \<and> 0 < k"

text \<open>
  The HAL documents that a request only starts the transfer and has to be followed by a check of the
  card's state. A request runs until its stream is stopped or another one is made; it is known to be
  complete when, while it ran, a reading of the state has found the card in its transfer state.
\<close>

fun sd_running :: "sd_event \<Rightarrow> sd_history \<Rightarrow> bool" where
  "sd_running q [] \<longleftrightarrow> False"
| "sd_running q (Sd_ReadBlocks b s n # h) \<longleftrightarrow> q = Sd_ReadBlocks b s n"
| "sd_running q (Sd_WriteBlocks b s n # h) \<longleftrightarrow> q = Sd_WriteBlocks b s n"
| "sd_running q (Sd_Abort rx # h) \<longleftrightarrow> False"
| "sd_running q (e # h) \<longleftrightarrow> sd_running q h"

fun sd_complete :: "(sd_history \<Rightarrow> bool) \<Rightarrow> sd_event \<Rightarrow> sd_history \<Rightarrow> bool" where
  "sd_complete transfer q [] \<longleftrightarrow> False"
| "sd_complete transfer q (Sd_ReadBlocks b s n # h) \<longleftrightarrow> False"
| "sd_complete transfer q (Sd_WriteBlocks b s n # h) \<longleftrightarrow> False"
| "sd_complete transfer q (Sd_GetState # h) \<longleftrightarrow> sd_running q h \<and> transfer h \<or> sd_complete transfer q h"
| "sd_complete transfer q (e # h) \<longleftrightarrow> sd_complete transfer q h"

text \<open>A driver that waits for the card sees its request complete.\<close>

lemma sd_wait_complete:
  "sd_running q h \<Longrightarrow> fst (sd_wait transfer n h) < SDMMC_READ_WRITE_TIMEOUT \<Longrightarrow>
   sd_complete transfer q (snd (sd_wait transfer n h))"
proof (induction transfer n h rule: sd_wait.induct)
  case (1 transfer n h)
  show ?case
  proof (cases "\<not> transfer h \<and> n < SDMMC_READ_WRITE_TIMEOUT")
    case True
    then have e: "sd_wait transfer n h = sd_wait transfer (n + 1) (Sd_Delay 1 # Sd_GetState # h)"
      by (subst sd_wait.simps) (simp add: Let_def)
    show ?thesis using "1.IH" [OF refl refl] True "1.prems" by (simp add: e)
  next
    case False
    then have "sd_wait transfer n h = (n, Sd_GetState # h)" by (subst sd_wait.simps) (auto simp: Let_def)
    then show ?thesis using False "1.prems" by auto
  qed
qed

lemma sd_disk_complete:
  assumes "fst (sdcard_read_disk HAL_OK transfer b s n h) = HAL_OK"
  shows "sd_complete transfer (Sd_ReadBlocks b s n) (snd (sdcard_read_disk HAL_OK transfer b s n h))"
  using assms sd_wait_complete [of "Sd_ReadBlocks b s n" "Sd_ReadBlocks b s n # h" transfer 0]
  by (auto simp: sdcard_read_disk_def sd_finish_def Let_def split_def not_le split: if_splits)

lemma sd_disk_complete_write:
  assumes "fst (sdcard_write_disk HAL_OK transfer b s n h) = HAL_OK"
  shows "sd_complete transfer (Sd_WriteBlocks b s n) (snd (sdcard_write_disk HAL_OK transfer b s n h))"
  using assms sd_wait_complete [of "Sd_WriteBlocks b s n" "Sd_WriteBlocks b s n # h" transfer 0]
  by (auto simp: sdcard_write_disk_def sd_finish_def Let_def split_def not_le split: if_splits)

text \<open>
  A good card: when the driver is ready the HAL accepts every request for sectors of the card with such a
  buffer, the card is back in its transfer state at one of the first 10000 readings of it, a millisecond
  apart, and a request known to be complete has moved its bytes. Nothing is said of the bytes of a
  request that is not.
\<close>

fun sd_request :: "sd_event \<Rightarrow> bool" where
  "sd_request (Sd_ReadBlocks b s n) \<longleftrightarrow> card_buffer b (unat n * 512) \<and> unat s + unat n \<le> unat MMC_SECTOR_COUNT"
| "sd_request (Sd_WriteBlocks b s n) \<longleftrightarrow> card_buffer b (unat n * 512) \<and> unat s + unat n \<le> unat MMC_SECTOR_COUNT"
| "sd_request q \<longleftrightarrow> False"

locale sd_card =
  fixes hal :: sd_hal
  assumes accepts: "sd_idle h \<Longrightarrow> sd_request q \<Longrightarrow> sd_start hal h q = HAL_OK"
    and moves: "sd_request q \<Longrightarrow> sd_complete (sd_transfer hal) q h \<Longrightarrow> sd_data hal q h mc = card_move q mc"
    and returns: "sd_idle h \<Longrightarrow> sd_request q \<Longrightarrow>
      \<exists>i < 10000. sd_transfer hal (poll_at (sd_poll (sd_transfer hal)) ((#) (Sd_Delay 1)) i (q # h))"

lemma poll_search_succeeds:
  assumes "\<exists>i < k. fst (check (poll_at check pause i s))"
  shows "fst (poll_search check pause giveup k s)"
proof -
  have "find (\<lambda>i. fst (check (poll_at check pause i s))) [0..<k] \<noteq> None"
    using assms by (auto simp: find_None_iff)
  then show ?thesis by (auto simp: poll_search_def)
qed

lemma sd_finish_idle: "sd_idle (sd_finish rx h)"
  by (simp add: sd_finish_def)

context sd_card
begin

lemma card_result:
  assumes "sd_idle h"
  shows "sd_request (Sd_ReadBlocks b s n) \<Longrightarrow> fst (sdcard_read_disk HAL_OK (sd_transfer hal) b s n h) = HAL_OK"
    and "sd_request (Sd_WriteBlocks b s n) \<Longrightarrow> fst (sdcard_write_disk HAL_OK (sd_transfer hal) b s n h) = HAL_OK"
  using returns [OF assms] by (simp_all add: sd_disk_result poll_search_succeeds)

lemma card_read:
  assumes "sd_idle (dk_sd w)" and "sd_request (Sd_ReadBlocks b s n)"
  shows "\<exists>w'. disk_read hal DEV_MMC b s n w = (RES_OK, w') \<and> sd_idle (dk_sd w') \<and> dk_card w' = dk_card w
    \<and> dk_mem w' = mem_write b (map (dk_card w) [unat s * 512..<(unat s + unat n) * 512]) (dk_mem w)"
proof -
  obtain h where h: "sdcard_read_disk HAL_OK (sd_transfer hal) b s n (dk_sd w) = (HAL_OK, h)" "sd_idle h"
    using card_result(1) [OF assms] sd_disk_finishes(1) sd_finish_idle by (metis prod.collapse)
  then have "sd_complete (sd_transfer hal) (Sd_ReadBlocks b s n) h"
    using sd_disk_complete [of "sd_transfer hal" b s n "dk_sd w"] by simp
  then show ?thesis
    using accepts [OF assms] moves [OF assms(2)] h
    by (simp add: disk_read_def MMC_disk_read_def sd_after_def Let_def drive_defs)
qed

lemma card_write:
  assumes "sd_idle (dk_sd w)" and "sd_request (Sd_WriteBlocks b s n)"
  shows "\<exists>w'. disk_write hal DEV_MMC b s n w = (RES_OK, w') \<and> sd_idle (dk_sd w')
    \<and> dk_card w' = snd (card_move (Sd_WriteBlocks b s n) (dk_mem w, dk_card w))"
proof -
  obtain h where h: "sdcard_write_disk HAL_OK (sd_transfer hal) b s n (dk_sd w) = (HAL_OK, h)" "sd_idle h"
    using card_result(2) [OF assms] sd_disk_finishes(2) sd_finish_idle by (metis prod.collapse)
  then have "sd_complete (sd_transfer hal) (Sd_WriteBlocks b s n) h"
    using sd_disk_complete_write [of "sd_transfer hal" b s n "dk_sd w"] by simp
  then show ?thesis
    using accepts [OF assms] moves [OF assms(2)] h
    by (simp add: disk_write_def MMC_disk_write_def sd_after_def Let_def drive_defs)
qed

end

sublocale sd_card \<subseteq> mmc: block_device hal DEV_MMC dk_card "unat MMC_SECTOR_COUNT" card_buffer "\<lambda>w. sd_idle (dk_sd w)"
proof unfold_locales
  fix b k assume "card_buffer b k" then show "run_ok b k" by (simp add: card_buffer_def)
next
  fix b n s :: u32 and w :: disk_world
  assume i: "sd_idle (dk_sd w)" and b: "card_buffer b (unat n * 512)" and f: "unat s + unat n \<le> unat MMC_SECTOR_COUNT"
  have q: "sd_request (Sd_ReadBlocks b s n)" using b f by simp
  let ?data = "map (dk_card w) [unat s * 512..<(unat s + unat n) * 512]"
  have l: "length ?data = unat n * 512" by simp
  have "length ?data \<le> 2 ^ 32" using b unfolding l by (simp add: card_buffer_def run_ok_def)
  from mem_read_write_same [OF this, of b "dk_mem w"] card_read [OF i q]
  show "\<exists>w'. disk_read hal DEV_MMC b s n w = (RES_OK, w') \<and> sd_idle (dk_sd w')
      \<and> mem_read (dk_mem w') b (unat n * 512) = map (dk_card w) [unat s * 512..<(unat s + unat n) * 512]
      \<and> (\<forall>i < unat MMC_SECTOR_COUNT * 512. dk_card w' i = dk_card w i)"
    unfolding l by auto
next
  fix b n s :: u32 and w :: disk_world
  assume i: "sd_idle (dk_sd w)" and b: "card_buffer b (unat n * 512)" and f: "unat s + unat n \<le> unat MMC_SECTOR_COUNT"
  have q: "sd_request (Sd_WriteBlocks b s n)" using b f by simp
  from card_write [OF i q]
  show "\<exists>w'. disk_write hal DEV_MMC b s n w = (RES_OK, w') \<and> sd_idle (dk_sd w')
      \<and> (\<forall>i < unat MMC_SECTOR_COUNT * 512. dk_card w' i = (if unat s * 512 \<le> i \<and> i < (unat s + unat n) * 512
            then dk_mem w (b + of_nat (i - unat s * 512)) else dk_card w i))"
    by auto
qed simp_all

context sd_card
begin

lemma run_card:
  "sd_idle (dk_sd w) \<Longrightarrow> list_all (disk_fits (unat MMC_SECTOR_COUNT) (card_buffer b)) cs \<Longrightarrow>
    (\<forall>i < unat MMC_SECTOR_COUNT * 512. dk_card w i = a i) \<Longrightarrow>
    \<exists>w'. run_disk hal DEV_MMC b cs w = (fst (run_array cs a), w')
      \<and> (\<forall>i < unat MMC_SECTOR_COUNT * 512. dk_card w' i = snd (run_array cs a) i)"
  by (rule mmc.run_is_array)

end

text \<open>A card that is busy for five readings of its state; a request that is stopped before has moved nothing.\<close>

fun sd_polls :: "sd_history \<Rightarrow> nat" where
  "sd_polls [] = 0"
| "sd_polls (Sd_GetState # h) = Suc (sd_polls h)"
| "sd_polls (Sd_ReadBlocks b s n # h) = 0"
| "sd_polls (Sd_WriteBlocks b s n # h) = 0"
| "sd_polls (e # h) = sd_polls h"

definition card_hal :: sd_hal where
  "card_hal = \<lparr>sd_start = (\<lambda>h q. if \<not> sd_idle h then HAL_BUSY else if sd_request q then HAL_OK else HAL_ERROR),
     sd_transfer = (\<lambda>h. 5 \<le> sd_polls h),
     sd_data = (\<lambda>q h mc. if sd_complete (\<lambda>h. 5 \<le> sd_polls h) q h then card_move q mc else mc)\<rparr>"

lemma sd_polls_poll_at: "sd_polls (poll_at (sd_poll t) ((#) (Sd_Delay 1)) i h) = i + sd_polls h"
  by (induction i) (simp_all add: poll_at_Suc_outer)

lemma request_resets: "sd_request q \<Longrightarrow> sd_polls (q # h) = 0"
  by (cases q) simp_all

interpretation sheet: sd_card card_hal
proof unfold_locales
  fix q h
  assume "sd_request q"
  then show "\<exists>i < 10000. sd_transfer card_hal (poll_at (sd_poll (sd_transfer card_hal)) ((#) (Sd_Delay 1)) i (q # h))"
    by (intro exI [of _ 5]) (simp add: card_hal_def sd_polls_poll_at request_resets)
qed (simp_all add: card_hal_def)

section \<open>Errors\<close>

text \<open>
  A request the HAL refuses, or after which the card does not come back in ten seconds, is an error for
  FatFS. The third drive claims success and does nothing; there are no others.
\<close>

lemma card_errors:
  assumes "sd_start hal (dk_sd w) (Sd_ReadBlocks b s n) \<noteq> HAL_OK
    \<or> (\<forall>i < 10000. \<not> sd_transfer hal (poll_at (sd_poll (sd_transfer hal)) ((#) (Sd_Delay 1)) i (Sd_ReadBlocks b s n # dk_sd w)))"
  shows "fst (disk_read hal DEV_MMC b s n w) = RES_ERROR"
proof -
  have "fst (sdcard_read_disk (sd_start hal (dk_sd w) (Sd_ReadBlocks b s n)) (sd_transfer hal) b s n (dk_sd w)) \<noteq> HAL_OK"
    using assms by (auto simp: sd_disk_result poll_search_never)
  then show ?thesis
    by (simp add: disk_read_def MMC_disk_read_def drive_defs Let_def split_beta)
qed

lemma usb_claims_success: "disk_write hal DEV_USB b s n w = (RES_OK, w)" "disk_read hal DEV_USB b s n w = (RES_OK, w)"
  by (simp_all add: disk_write_def disk_read_def USB_disk_write_def USB_disk_read_def drive_defs)

lemma no_other_drives:
  assumes "2 < pdrv"
  shows "disk_status pdrv = STA_NOINIT" "disk_initialize pdrv = STA_NOINIT"
    "disk_read hal pdrv b s n w = (RES_PARERR, w)" "disk_write hal pdrv b s n w = (RES_PARERR, w)"
    "disk_ioctl unset pdrv cmd b w = (RES_PARERR, w)"
proof -
  have "pdrv \<noteq> 0" "pdrv \<noteq> 1" "pdrv \<noteq> 2" using assms by (auto simp: word_less_unat)
  then show "disk_status pdrv = STA_NOINIT" "disk_initialize pdrv = STA_NOINIT"
    "disk_read hal pdrv b s n w = (RES_PARERR, w)" "disk_write hal pdrv b s n w = (RES_PARERR, w)"
    "disk_ioctl unset pdrv cmd b w = (RES_PARERR, w)"
    by (simp_all add: disk_status_def disk_initialize_def disk_read_def disk_write_def disk_ioctl_def drive_defs)
qed

text \<open>The memory disk does not look at its size: a sector behind the last one is memory of someone else.\<close>

lemma ram_write_beyond:
  assumes "4096 \<le> unat s" and "unat s < 2 ^ 21"
  shows "fst (disk_write hal DEV_RAM b s 1 w) = RES_OK
    \<and> dk_mem (snd (disk_write hal DEV_RAM b s 1 w)) (RAM_START_ADDRESS + s * 512) = dk_mem w b"
  using mem_read_write_same [of "mem_read (dk_mem w) b 512" "RAM_START_ADDRESS + s * 512" "dk_mem w"]
    nth_mem_read [of 0 512 "mem_write (RAM_START_ADDRESS + s * 512) (mem_read (dk_mem w) b 512) (dk_mem w)" "RAM_START_ADDRESS + s * 512"]
    nth_mem_read [of 0 512 "dk_mem w" b]
  by (simp add: disk_write_def RAM_disk_write_def copy_bytes_def RAM_SECTOR_SIZE_def drive_defs)

section \<open>Properties\<close>

definition drive_bytes :: "u8 \<Rightarrow> disk_world \<Rightarrow> nat \<Rightarrow> u8" where
  "drive_bytes pdrv w = (if pdrv = DEV_RAM then ram_bytes w else dk_card w)"

definition drive_sectors :: "u8 \<Rightarrow> nat" where
  "drive_sectors pdrv = unat (if pdrv = DEV_RAM then RAM_SECTOR_COUNT else MMC_SECTOR_COUNT)"

definition drive_buffer :: "u8 \<Rightarrow> u32 \<Rightarrow> nat \<Rightarrow> bool" where
  "drive_buffer pdrv = (if pdrv = DEV_RAM then ram_buffer else card_buffer)"

lemma array_put_get:
  assumes "length bs = unat n * 512"
  shows "fst (run_array [Disk_Put s bs, Disk_Get s n] a) = [(RES_OK, []), (RES_OK, bs)]"
proof -
  have "map (\<lambda>i. if k \<le> i \<and> i < k + length bs then bs ! (i - k) else a i) [k..<k + length bs] = bs" for k
    by (rule nth_equalityI) simp_all
  then show ?thesis by (simp add: distrib_right assms [symmetric])
qed

definition demo_sector :: "u8 list" where
  "demo_sector = replicate 512 7"

lemma demo_sector_length: "length demo_sector = 512"
  by (simp only: demo_sector_def length_replicate)

text \<open>
  C14. The disks under the file system. A request to the card only starts a transfer, whose bytes
  are known to have been moved once a reading of the card's state finds it in its transfer state
  before the stream is stopped (what the HAL documents; nothing is assumed of the bytes otherwise);
  with a card that accepts requests when the driver is idle and gets there within the driver's
  limit, and from an idle driver, any sequence of reads and writes of whole sectors through
  disk_read and disk_write, on the memory disk or on the card, with a buffer the drive can use and
  inside the drive's size, succeeds and behaves as an array of bytes.
\<close>

theorem drives_are_arrays:
  assumes "sd_card hal" and "pdrv = DEV_RAM \<or> pdrv = DEV_MMC" and "sd_idle (dk_sd w)"
    and "list_all (disk_fits (drive_sectors pdrv) (drive_buffer pdrv b)) cs"
    and "\<forall>i < drive_sectors pdrv * 512. drive_bytes pdrv w i = a i"
  shows "\<exists>w'. run_disk hal pdrv b cs w = (fst (run_array cs a), w')
    \<and> (\<forall>i < drive_sectors pdrv * 512. drive_bytes pdrv w' i = snd (run_array cs a) i)"
  using assms(2)
proof
  assume "pdrv = DEV_RAM"
  then show ?thesis
    using ram.run_is_array [of b cs w a hal] assms(4,5)
    by (simp add: drive_bytes_def drive_sectors_def drive_buffer_def RAM_SECTOR_COUNT_def)
next
  assume "pdrv = DEV_MMC"
  then show ?thesis
    using sd_card.run_card [OF assms(1,3), of b cs a] assms(4,5)
    by (simp add: drive_bytes_def drive_sectors_def drive_buffer_def DEV_MMC_def DEV_RAM_def)
qed

theorem drives_are_arrays_witness:
  "\<exists>w'. run_disk card_hal DEV_MMC 0x20000000 [Disk_Put 3 demo_sector, Disk_Get 3 1]
      \<lparr>dk_mem = (\<lambda>_. 0), dk_card = (\<lambda>_. 0), dk_sd = []\<rparr>
    = ([(RES_OK, []), (RES_OK, demo_sector)], w')"
proof -
  let ?w = "\<lparr>dk_mem = (\<lambda>_. 0), dk_card = (\<lambda>_. 0), dk_sd = []\<rparr>"
  let ?cs = "[Disk_Put 3 demo_sector, Disk_Get 3 1]"
  have fits: "list_all (disk_fits (drive_sectors DEV_MMC) (drive_buffer DEV_MMC 0x20000000)) ?cs"
    by (simp add: drive_sectors_def drive_buffer_def DEV_MMC_def DEV_RAM_def MMC_SECTOR_COUNT_def card_buffer_def
        run_ok_def demo_sector_length)
  have "fst (run_array ?cs (\<lambda>_. 0)) = [(RES_OK, []), (RES_OK, demo_sector)]"
    by (rule array_put_get) (simp add: demo_sector_length)
  then show ?thesis
    using drives_are_arrays [OF sheet.sd_card_axioms _ _ fits, of ?w "\<lambda>_. 0"]
    by (simp add: drive_bytes_def DEV_MMC_def DEV_RAM_def) blast
qed

end
