(* ===== verification/Syscalls.thy ===== *)
theory Syscalls
  imports Usart_Interrupt
begin

text \<open>
  The system calls the C library asks for (\<^verbatim>\<open>Drivers/Src/base.cpp\<close>). Only the descriptors of the standard
  streams exist; what is written to any descriptor goes through \<^verbatim>\<open>fputc\<close> to the serial port. The
  variable \<^verbatim>\<open>errno\<close> is the last argument of the functions that set it.
\<close>

definition STDIN_FILENO :: int where "STDIN_FILENO = 0"
definition STDERR_FILENO :: int where "STDERR_FILENO = 2"
definition EBADF :: int where "EBADF = 9"
definition S_IFCHR :: u32 where "S_IFCHR = 0x2000"

definition sys_isatty :: "int \<Rightarrow> int \<Rightarrow> int \<times> int" where
  "sys_isatty fd errno = (if fd \<ge> STDIN_FILENO \<and> fd \<le> STDERR_FILENO then (1, errno) else (0, EBADF))"

definition sys_close :: "int \<Rightarrow> int \<Rightarrow> int \<times> int" where
  "sys_close fd errno = (if fd \<ge> STDIN_FILENO \<and> fd \<le> STDERR_FILENO then (0, errno) else (- 1, EBADF))"

definition sys_lseek :: "int \<Rightarrow> int \<Rightarrow> int \<Rightarrow> int \<Rightarrow> int \<times> int" where
  "sys_lseek fd ptr dir errno = (- 1, EBADF)"

text \<open>The second result is what is stored as the mode of the file, if anything.\<close>

definition sys_fstat :: "int \<Rightarrow> int \<Rightarrow> int \<times> u32 option \<times> int" where
  "sys_fstat fd errno = (if fd \<ge> STDIN_FILENO \<and> fd \<le> STDERR_FILENO then (0, Some S_IFCHR, errno) else (0, None, EBADF))"

text \<open>The bytes stored.\<close>

definition sys_read :: "int \<Rightarrow> int \<Rightarrow> int \<times> u8 list" where
  "sys_read file len = (len, map (\<lambda>_. 0) [0..<nat len])"

text \<open>\<open>None\<close> is a read behind the caller's bytes.\<close>

definition sys_write :: "int \<Rightarrow> u8 list \<Rightarrow> int \<Rightarrow> world \<Rightarrow> (int \<times> world) option" where
  "sys_write file ptr len w =
     (if nat len > length ptr then None
      else Some (len, fold (\<lambda>c w. snd (fputc (ucast c) w)) (take (nat len) ptr) w))"

text \<open>
  What is written is queued for the serial port in order, as far as the queue has room; the rest is
  dropped, and the result is the length all the same.
\<close>

lemma low_byte [simp]: "ucast (ucast (c :: u8) :: u32) = c"
  by (rule bit_word_eqI) (auto simp: bit_simps)

lemma fputc_queues:
  assumes "usart_ready w"
  shows "usart_ready (snd (fputc (ucast c) w))"
    and "pending (snd (fputc (ucast c) w)) = take 2048 (pending w @ [c])"
    and "usart_sent (snd (fputc (ucast c) w)) = usart_sent w"
    and "txe_ie (snd (fputc (ucast c) w))"
  using uart_logger_write_spec [OF assms, of "[c]" 1] by (auto simp: fputc_def offer_def Let_def split_beta)

lemma take_take_append: "take n (take n xs @ ys) = take n (xs @ ys)"
  by (cases "length xs \<le> n") simp_all

lemma fputs_queue:
  "usart_ready w \<Longrightarrow>
    (let w' = fold (\<lambda>c w. snd (fputc (ucast c) w)) cs w
     in usart_ready w' \<and> take 2048 (pending w') = take 2048 (pending w @ cs) \<and> usart_sent w' = usart_sent w
       \<and> (cs \<noteq> [] \<longrightarrow> length (pending w') \<le> 2048 \<and> txe_ie w'))"
proof (induction cs rule: rev_induct)
  case Nil
  then show ?case by simp
next
  case (snoc c cs)
  let ?w = "fold (\<lambda>c w. snd (fputc (ucast c) w)) cs w"
  have ih: "usart_ready ?w" "take 2048 (pending ?w) = take 2048 (pending w @ cs)" "usart_sent ?w = usart_sent w"
    using snoc by (auto simp: Let_def)
  have "take 2048 (pending ?w @ [c]) = take 2048 (pending w @ cs @ [c])"
    by (metis ih(2) take_take_append append_assoc)
  then show ?case using fputc_queues [OF ih(1), of c] ih(3) by (simp add: Let_def del: take_append)
qed

lemma write_queues:
  assumes "usart_ready w" and "0 < len" and "nat len \<le> length ptr"
  shows "\<exists>w'. sys_write file ptr len w = Some (len, w') \<and> usart_ready w' \<and> usart_sent w' = usart_sent w \<and> txe_ie w'
    \<and> pending w' = take 2048 (pending w @ take (nat len) ptr)"
proof -
  have "take (nat len) ptr \<noteq> []" using assms(2,3) by auto
  then show ?thesis
    using fputs_queue [OF assms(1), of "take (nat len) ptr"] assms(3) by (auto simp: sys_write_def Let_def simp del: take_append)
qed

lemma read_at_end: "0 \<le> len \<Longrightarrow> sys_read file len = (len, replicate (nat len) 0)"
  by (simp add: sys_read_def map_replicate_const)

lemma fstat_of_closed: "fd < 0 \<or> 2 < fd \<Longrightarrow> fst (sys_fstat fd errno) = 0 \<and> fst (snd (sys_fstat fd errno)) = None"
  by (auto simp: sys_fstat_def STDIN_FILENO_def STDERR_FILENO_def)

end
