(* ===== verification/Spec2Isabelle.thy ===== *)
theory Spec2Isabelle
  imports Cmd_Process I2C_Devices Soft_SPI Flash_Store Lcd_Text W25q Tpad Can Transfers Board Fatfs_Log
    Usart_Poll Usart_Dma Analog_Out Crc_Division Application Httpd Expander_Irq Soft_Flash
    I2C_Hardware Internal_Flash Disk_IO Syscalls
begin

text \<open>
  This library verifies the firmware of an STM32F429 board: the drivers under \<^verbatim>\<open>Code/Drivers\<close>, the parts
  of its own under \<^verbatim>\<open>Code/UsrParts\<close>, the tasks under \<^verbatim>\<open>Code/Application\<close>, the buttons under
  \<^verbatim>\<open>Code/ThirdParts/MultiButton\<close>, the disk interface in \<^verbatim>\<open>Code/ThirdParts/ff15\<close> and the start-up in
  \<^verbatim>\<open>Code/Core\<close> (paths below \<^verbatim>\<open>src/\<close>). The vendor's HAL, FreeRTOS, FatFS and LwIP are libraries here: what
  the code uses of them is a parameter of the definitions or an event in a history.

  \<^bold>\<open>How code becomes definitions.\<close> A C function is a definition of the same name that takes the state
  it reads and returns the state it leaves; the static variables of a file are a record (\<open>world\<close>,
  \<open>i2c_world\<close>, \<open>flash_world\<close>, ...). Integers keep their width as words. A loop is a recursive function
  named after its function. \<open>None\<close> is an access outside an array or through a null pointer, a call that
  never returns, or a loop that need not end. Writes to peripherals are recorded in a history, the most
  recent event first; what an input pin, a flag register or the HAL answers is a function of that
  history, so that a device may react to everything done before. Functions that exist in several
  variants, of which the configuration selects one, carry the variant as a suffix (\<open>_poll\<close>,
  \<open>_dma\<close>, \<open>_soft\<close>, \<open>_hw\<close> for the I2C port of the HAL, \<open>_int\<close> for the flash of the microcontroller).

  \<^bold>\<open>Theories.\<close>
  \<^item> \<open>Prelude\<close>: word types, status codes, C strings, and the lemmas on lists and words all parts share.
    \<open>Gpio\<close> and \<open>Peripheral\<close>: the events of pins, clocks and interrupts, and the HAL's structures for DMA
    streams, timers and the serial port, with the two HAL functions that start and abort a stream.
  \<^item> \<open>Polling\<close>: the drivers' bounded waits. The locale \<open>bounded_poll\<close> says what a wait loop's counter does;
    every interpretation yields that the loop is a search over at most so many tries. Interpreted by
    \<open>W25q\<close>, \<open>Can\<close> and \<open>Transfers\<close> (memory-to-memory DMA, SD card).
  \<^item> \<open>Circular_Buffer\<close> (\<^verbatim>\<open>circular_buffer.h\<close>): the ring buffer, which implements the interface
    \<open>bounded_fifo\<close>. \<open>Logger_Buffers\<close> (the two queues of \<^verbatim>\<open>logger_process.c\<close>), \<open>Usart_Interrupt\<close>
    (\<^verbatim>\<open>usart_interrupt.c\<close>) with a step relation of the tasks and the handler, \<open>Logger\<close>
    (\<^verbatim>\<open>logger_process.c\<close>) and \<open>Cmd_Process\<close> (\<^verbatim>\<open>cmd_process.c\<close>). \<open>Syscalls\<close> (\<^verbatim>\<open>base.cpp\<close>): the C library's
    output to the serial port.
  \<^item> \<open>Fatfs_Log\<close> (\<^verbatim>\<open>fatfs_logs.c\<close>): the log on the SD card, over any file system, as sequences of requests, starts
    of the scheduler and turns of the logging task. What FatFS promises is the locale \<open>file_system\<close>, extended by
    \<open>late_directory\<close>; a file system in memory interprets both. This theory joins it to the logger.
  \<^item> \<open>Disk_IO\<close> (\<^verbatim>\<open>disk_interface.c\<close>, \<^verbatim>\<open>diskio.c\<close> of \<^verbatim>\<open>ThirdParts/ff15\<close>): the disks under the file system, the memory
    disk and the SD card, behind the interface \<open>block_device\<close> of FatFS; \<open>sd_card\<close> is what the HAL documents of a card:
    a request only starts a transfer, which a reading of the card's state shows to be complete.
  \<^item> \<open>Usart_Poll\<close> and \<open>Usart_Dma\<close> (\<^verbatim>\<open>usart_poll.c\<close>, \<^verbatim>\<open>usart_dma.c\<close>): the other two variants of the serial
    port; the second as a step relation of the driver, its handlers and the two DMA streams.
  \<^item> \<open>Soft_I2C\<close> (\<^verbatim>\<open>drv_soft_i2c.c\<close>), \<open>I2C_Devices\<close> (the PCF8574, MPU9250 and AP3216C drivers) with the
    interface \<open>register_device\<close>, \<open>Soft_SPI\<close> (\<^verbatim>\<open>drv_soft_spi.c\<close>). Monitors of the wires, which know nothing
    of the code, say what a device on the bus sees. \<open>I2C_Hardware\<close>: the same drivers over the port I2C2 of the HAL,
    with lemmas that both variants put the same frames on the bus.
  \<^item> \<open>W25q\<close> (\<^verbatim>\<open>drv_spi.c\<close>, \<^verbatim>\<open>drv_spi_w25q.c\<close>): the serial flash. The locale \<open>spi_slave\<close> is a device that
    reacts to chip select and bytes; \<open>nor_event\<close> is the chip's data sheet as such a device. \<open>Soft_Flash\<close>: the
    port's polling and software variants, and the same chip at the pins of the software bus (\<open>wire_event\<close>).
  \<^item> \<open>Byte_Memory\<close> and \<open>Flash_Store\<close> (\<^verbatim>\<open>drv_flash.c\<close>): the record store on two pages of flash. The locale
    \<open>flash_device\<close> is what the store asks of the memory under it.
    \<open>Internal_Flash\<close>: the device functions for the flash of the microcontroller over the HAL (locale \<open>flash_part\<close>,
    interpreted by a part as the data sheet has it), and the store on them (locale \<open>sector_flash\<close>).
  \<^item> \<open>Alg\<close> and \<open>Crc_Division\<close> (\<^verbatim>\<open>drv_alg.c\<close>; interfaces \<open>crc_register\<close> and \<open>crc_division\<close>), \<open>Rtc\<close> (\<^verbatim>\<open>drv_rtc.c\<close>), \<open>Tpad\<close> (\<^verbatim>\<open>drv_tpad.c\<close>), \<open>Can\<close>
    (\<^verbatim>\<open>drv_can.c\<close>), \<open>Transfers\<close> (\<^verbatim>\<open>drv_dma.c\<close>, \<^verbatim>\<open>drv_sdio_dma.c\<close>, \<^verbatim>\<open>drv_sdio.c\<close>), \<open>Analog_Out\<close> (\<^verbatim>\<open>drv_dac.c\<close>,
    \<^verbatim>\<open>drv_pwm.c\<close>), \<open>Board\<close> (external memory, analog inputs, watchdogs, delays, keys, LED, pulse counter
    and \<^verbatim>\<open>driver.c\<close>).
  \<^item> \<open>Font\<close>, \<open>Lcd\<close>, \<open>Lcd_Text\<close> (\<^verbatim>\<open>font.h\<close>, \<^verbatim>\<open>drv_lcd.c\<close>): the display, its panel as a monitor of the bus,
    and what the text operations draw.
  \<^item> \<open>Button\<close> (\<^verbatim>\<open>multi_button.c\<close>): debouncing and the state machine of clicks. \<open>Timer_Manage\<close>
    (\<^verbatim>\<open>timer_manage.cpp\<close>): the ten triggers of the timer task. \<open>I2C_Monitor\<close> (\<^verbatim>\<open>i2c_monitor.cpp\<close>): the
    task that owns the I2C devices, its queue, the expander's interrupt and its timers, with a PCF8574
    chip (\<open>pcf_step\<close>) that reads the wires. \<open>Expander_Irq\<close>: the life of the expander's interrupt through
    handler, queue and timer, with the locale \<open>leads_to\<close> (progress by useful steps), interpreted for its
    three stages. \<open>Monitor\<close> (\<^verbatim>\<open>monitor.cpp\<close>): the task behind keys, clock and
    display. \<open>Httpd\<close> (\<^verbatim>\<open>httpd.c\<close>): one connection of the web server. \<open>Application\<close> (\<^verbatim>\<open>application.cpp\<close>,
    \<^verbatim>\<open>schedular.cpp\<close>, the clock tree of \<^verbatim>\<open>main.c\<close>): the start.

  \<^bold>\<open>How the parts meet.\<close> A key pressed at the board goes through \<open>button_handler\<close> to a function of
  \<open>Monitor\<close>, which puts an event into the queue of \<open>I2C_Monitor\<close>; that task writes the expander through
  \<open>I2C_Devices\<close> and \<open>Soft_I2C\<close>, and the chip decodes the wires. A line of the serial port goes through
  \<open>Circular_Buffer\<close> to \<open>Cmd_Process\<close>, whose answers go through \<open>Logger\<close> back to the queue of the port and
  to the log file. The root theory joins the logger to the file.

  \<^bold>\<open>What is shown.\<close> Refinements: the flash store is a register that keeps the last value written, the
  serial flash an array that can be erased, programmed and read, over the hardware port and bit by bit over
  the software bus, the disks under the file system arrays of sectors, the ring buffer a bounded queue; on
  the microcontroller's own flash the store keeps its value too, but every write moves to the other sector.
  Interleavings: no byte queued for the serial port is left behind by its handler; with DMA the messages
  of a careful caller arrive in order, and those of a careless one can block the port for good. Wires:
  the bytes a device decodes from the software buses are exactly those the functions were given.
  Composition: a message printed with the record flag is, once the log is closed, in the file, on every
  file system that does what FatFS documents; a press of the first key ends as a request for the beeper,
  and once the I2C task has served its queue the five outputs of the expander are those last asked for; an interrupt of the expander is served and switched on again,
  unless it meets a full queue, after which it stays off. Time: a trigger of the timer manager calls its function as
  often as it was registered for, a button's level changes exactly when three successive readings differ
  from it, and clicks are told apart by their length. Further groups show the drawing of characters,
  strings and numbers, alarms, touch and calibration, received CAN frames, checksums, bounds of the fixed
  buffers, and the outcomes of every wait and initialisation.

  \<^bold>\<open>Bounds.\<close> All limits are those of the code: 10000 readings of the I2C data line, 200 and 5000 readings
  of the serial flash's status, 101 of the CAN mailboxes, 10000 of the SD card's state, the 128-byte line
  of the logger, the 33-byte command buffer, the queues of 2048 bytes, 255 bytes per log record and
  4096 bytes of log messages, 100 writes between two synchronisations. Where a loop has no limit of its
  own (\<open>tpad_wait\<close>, \<open>usart_wait_txe\<close>) the function is partial, and a property that it returns asks for
  the hardware to make progress and proves the value to be \<open>Some\<close>. No definition has fuel.

  \<^bold>\<open>Not modelled.\<close> FreeRTOS's scheduler: tasks are the steps of their loops, in any order where a property
  says so. The DSP demonstration and products with a float factor (floating point: the products are
  parameters), the request handler of the web server (empty in the source), the logger's example,
  the files the vendor's tool generates, and the vendored libraries: of the HAL, FreeRTOS, FatFS and LwIP
  the model has what their documentation says of the calls the program makes, as parameters and as the
  laws of locales. Of \<^verbatim>\<open>main\<close> only the clock tree and the order of the initialisations is modelled, of
  \<^verbatim>\<open>driver_init\<close> the combination of the results. The panel of the display is its memory; its registers for
  scan direction and display on have no effect. Interrupt priorities are recorded but have no effect.
  Log messages inside the drivers are left out except where they are the observable result (external
  memory, the tasks).
\<close>

section \<open>From the logger to the file\<close>

text \<open>
  \<^verbatim>\<open>print_log\<close> and the command \<^verbatim>\<open>!save\<close> ask the log file to write or to close; the model of the serial
  port collects these requests. In a run of the file log they are served at some times, between starts of
  the scheduler and turns of the logging task.
\<close>

fun log_requests :: "log_op list \<Rightarrow> fatfs_request list" where
  "log_requests [] = []"
| "log_requests (Log_Write rtc d # ops) = Fatfs_Write d # log_requests ops"
| "log_requests (Log_Close # ops) = Fatfs_Close # log_requests ops"
| "log_requests (_ # ops) = log_requests ops"

fun log_times :: "log_op list \<Rightarrow> RTC_INFO list" where
  "log_times [] = []"
| "log_times (Log_Write rtc d # ops) = rtc # log_times ops"
| "log_times (_ # ops) = log_times ops"

definition print_logs :: "(u8 \<times> u8 list) list \<Rightarrow> world \<Rightarrow> world" where
  "print_logs ms w = fold (\<lambda>(lev, body) w. snd (print_log True lev (Some body) w)) ms w"

definition log_entry :: "u8 \<times> u8 list \<Rightarrow> u8 list" where
  "log_entry m = log_line (fst m) (snd m)"

lemma print_logs_requests:
  assumes "usart_ready w" and "length (LoggerMaxBuffer w) = 128" and "\<not> mutex_held w"
    and "\<forall>(lev, body)\<in>set ms. level (g_logger_info w) \<le> lev AND NOT LOG_RECORD \<and> log_fits lev body
           \<and> lev AND LOG_RECORD \<noteq> 0"
  shows "fatfs_requests (print_logs ms w) = fatfs_requests w @ map (\<lambda>m. Fatfs_Write (log_entry m)) ms"
  using assms
proof (induction ms arbitrary: w)
  case Nil
  show ?case by (simp add: print_logs_def)
next
  case (Cons m ms)
  obtain lev body where m: "m = (lev, body)" by fastforce
  let ?w = "snd (print_log True lev (Some body) w)"
  have p: "level (g_logger_info w) \<le> lev AND NOT LOG_RECORD" "log_fits lev body" "lev AND LOG_RECORD \<noteq> 0"
    using Cons.prems(4) by (simp_all add: m)
  have r: "fatfs_requests ?w = fatfs_requests w @ [Fatfs_Write (log_line lev body)]"
    using print_log_line [OF Cons.prems(1-3) p(1,2), of True] p(3) by (simp add: Let_def split_beta)
  note f = print_log_frame [OF Cons.prems(2), of True lev "Some body"]
  have "fatfs_requests (print_logs ms ?w) = fatfs_requests ?w @ map (\<lambda>m. Fatfs_Write (log_entry m)) ms"
    by (rule Cons.IH) (use print_log_ready [OF Cons.prems(1,2)] f Cons.prems(3,4) in \<open>auto simp: m\<close>)
  then show ?case by (simp add: r m print_logs_def log_entry_def)
qed

lemma length_log_entry: "log_fits (fst m) (snd m) \<Longrightarrow> length (log_entry m) \<le> 126"
  by (simp add: log_entry_def log_line_def log_fits_def)

text \<open>Requests for lines and then for closing, as operations on the file.\<close>

lemma requests_nothing: "log_requests ops = [] \<Longrightarrow> device_ops ops = [] \<and> log_times ops = []"
  by (induction ops rule: log_requests.induct) simp_all

lemma requests_device:
  "log_requests ops = map Fatfs_Write ds @ [Fatfs_Close] \<Longrightarrow>
   device_ops ops = map Dev_Write (map record_line (zip (log_times ops) ds)) @ [Dev_Close] \<and> length (log_times ops) = length ds"
proof (induction ops arbitrary: ds rule: log_requests.induct)
  case (2 rtc d ops)
  then obtain ds' where "ds = d # ds'" by (cases ds) auto
  then show ?case using 2 by simp
next
  case (3 ops)
  then have "ds = []" by (cases ds) auto
  then show ?case using 3 requests_nothing [of ops] by simp
qed simp_all

lemma requests_short:
  "\<forall>r\<in>set (log_requests ops). \<forall>d. r = Fatfs_Write d \<longrightarrow> length d \<le> 126 \<Longrightarrow> \<forall>op\<in>set ops. log_short op"
proof (induction ops rule: log_requests.induct)
  case (2 rtc d ops)
  then show ?case using length_time_text [of rtc] by (simp add: record_line_def)
qed simp_all

text \<open>Printing messages and serving them, with the times at which they are served.\<close>

definition log_record :: "RTC_INFO \<Rightarrow> u8 \<times> u8 list \<Rightarrow> u8 list" where
  "log_record t m = time_text t @ log_entry m"

lemma print_logs_served:
  assumes "usart_ready w" and "length (LoggerMaxBuffer w) = 128" and "\<not> mutex_held w" and "fatfs_requests w = []"
    and "\<forall>(lev, body)\<in>set ms. level (g_logger_info w) \<le> lev AND NOT LOG_RECORD \<and> log_fits lev body
           \<and> lev AND LOG_RECORD \<noteq> 0"
    and "log_requests ops = fatfs_requests (print_logs ms w) @ [Fatfs_Close]"
  shows "device_ops ops = map Dev_Write (map2 log_record (log_times ops) ms) @ [Dev_Close]"
    and "length (log_times ops) = length ms" and "\<forall>op\<in>set ops. log_short op"
proof -
  have q: "log_requests ops = map Fatfs_Write (map log_entry ms) @ [Fatfs_Close]"
    using print_logs_requests [OF assms(1-3,5)] assms(4,6) by (simp add: comp_def)
  have z: "map record_line (zip (log_times ops) (map log_entry ms)) = map2 log_record (log_times ops) ms"
    by (simp add: zip_map2 split_def record_line_def log_record_def)
  show "device_ops ops = map Dev_Write (map2 log_record (log_times ops) ms) @ [Dev_Close]"
    and "length (log_times ops) = length ms" using requests_device [OF q] unfolding z by simp_all
  have "length (log_entry m) \<le> 126" if "m \<in> set ms" for m
    using that assms(5) by (intro length_log_entry) auto
  then show "\<forall>op\<in>set ops. log_short op" by (intro requests_short) (auto simp: q)
qed

text \<open>
  C8. From the logger to the file: messages with the record flag, at or above the logger's level and
  short enough for its line, are printed through print_log while its mutex is free; the log file of
  the day has been opened on a file system that does what FatFS documents (any such file system: the
  hypothesis file_system), and its medium works and has room. However the logger's requests and a
  final close are served, each write at a time of its own, before the scheduler starts or after it,
  between turns of the logging task such that none finds the message buffer full: no buffer is
  overrun, and when the task has caught up the file holds its old contents followed by every
  message's line with its time in front, in order.
\<close>

theorem recorded_messages_reach_the_file:
  assumes "usart_ready w" and "length (LoggerMaxBuffer w) = 128" and "\<not> mutex_held w" and "fatfs_requests w = []"
    and "\<forall>(lev, body)\<in>set ms. level (g_logger_info w) \<le> lev AND NOT LOG_RECORD \<and> log_fits lev body
           \<and> lev AND LOG_RECORD \<noteq> 0"
    and "log_requests ops = fatfs_requests (print_logs ms w) @ [Fatfs_Close]"
    and "file_system api V" and "fatfs_logs_init api rtc x b m v = (FATFS_LOG_OK, v1)" and "fs_works V (fs v1)"
    and "all_accepted api ops v1" and "lines = map2 log_record (log_times ops) ms"
    and "length (concat lines) \<le> file_room V (fs v1)"
  shows "length (log_times ops) = length ms \<and> (\<exists>v2. log_run api ops v1 = Some v2
      \<and> (\<forall>n \<ge> length (msg_buffer v2). on_disk V (fs ((fatfs_log_task api ^^ n) v2)) (log_file_name rtc) =
          Some (old_contents V (fs v) (log_file_name rtc) @ concat lines)))"
proof -
  note p = print_logs_served [OF assms(1-6)]
  note i = file_system.fatfs_logs_init_opens [OF assms(7-9)]
  have d: "device_ops ops = map Dev_Write lines @ [Dev_Close]" unfolding assms(11) by (rule p(1))
  show ?thesis using file_system.log_session_closed [OF assms(7) i p(3) assms(10) d assms(12)] p(2) by blast
qed

definition demo_entry :: "u8 \<times> u8 list" where
  "demo_entry = (LOG_ERROR OR LOG_RECORD, [72, 105])"

lemma demo_entries:
  "\<forall>(lev, body)\<in>set [demo_entry, demo_entry]. level (g_logger_info demo_port) \<le> lev AND NOT LOG_RECORD
     \<and> log_fits lev body \<and> lev AND LOG_RECORD \<noteq> 0"
proof -
  have "length (log_prefix (LOG_ERROR OR LOG_RECORD)) = 13"
    by (simp add: log_prefix_def LOG_ERROR_def LOG_RECORD_def dec_str.simps)
  then have "log_fits (LOG_ERROR OR LOG_RECORD) [72, 105]" by (simp add: log_fits_def)
  moreover have "level (g_logger_info demo_port) \<le> (LOG_ERROR OR LOG_RECORD) AND NOT LOG_RECORD"
    by (simp add: demo_port_facts LOG_DEBUG_def LOG_ERROR_def LOG_RECORD_def)
  moreover have "(LOG_ERROR OR LOG_RECORD) AND LOG_RECORD \<noteq> 0"
    by (simp add: LOG_ERROR_def LOG_RECORD_def)
  ultimately show ?thesis by (simp add: demo_entry_def)
qed

text \<open>Two messages, one served before the scheduler starts.\<close>

definition demo_served :: "log_op list" where
  "demo_served = [Log_Write (gRtcInfo demo_log) (log_entry demo_entry), Task_Start,
     Log_Write (gRtcInfo demo_log) (log_entry demo_entry), Task_Turn, Log_Close]"

lemma demo_served:
  "log_requests demo_served = fatfs_requests (print_logs [demo_entry, demo_entry] demo_port) @ [Fatfs_Close]"
  "log_waiting w [] \<Longrightarrow> all_accepted api demo_served w"
  "log_times demo_served = [gRtcInfo demo_log, gRtcInfo demo_log]"
  "length (log_record (gRtcInfo demo_log) demo_entry) \<le> 138"
proof -
  note q = print_logs_requests [OF demo_port_ready(1) demo_port_facts(1,2) demo_entries]
  show r: "log_requests demo_served = fatfs_requests (print_logs [demo_entry, demo_entry] demo_port) @ [Fatfs_Close]"
    by (simp add: q demo_port_facts(5) demo_served_def)
  show "log_times demo_served = [gRtcInfo demo_log, gRtcInfo demo_log]" by (simp add: demo_served_def)
  have l: "length (log_entry demo_entry) \<le> 126" using demo_entries by (intro length_log_entry) (simp add: split_beta)
  then show "length (log_record (gRtcInfo demo_log) demo_entry) \<le> 138"
    using length_time_text [of "gRtcInfo demo_log"] by (simp add: log_record_def)
  have "\<forall>op\<in>set demo_served. log_short op"
    using print_logs_served(3) [OF demo_port_ready(1) demo_port_facts(1,2,5) demo_entries r] .
  then show "log_waiting w [] \<Longrightarrow> all_accepted api demo_served w"
    by (intro few_accepted) (auto simp: log_waiting_def demo_served_def msg_used_def)
qed

theorem recorded_messages_reach_the_file_witness:
  "\<exists>v2. log_run ramfs_api demo_served demo_log1 = Some v2
      \<and> (\<forall>n \<ge> length (msg_buffer v2). disk (fs ((fatfs_log_task ramfs_api ^^ n) v2)) (log_file_name (gRtcInfo demo_log)) =
          Some (log_record (gRtcInfo demo_log) demo_entry @ log_record (gRtcInfo demo_log) demo_entry))"
proof -
  have a: "all_accepted ramfs_api demo_served demo_log1" by (rule demo_served(2)) (simp add: log_waiting_def demo_log1)
  have o: "old_contents ramfs_view (fs demo_log) (log_file_name (gRtcInfo demo_log)) = []"
    by (simp add: old_contents_def ramfs_view_def demo_log_def log_file_name_not_7)
  have v: "on_disk ramfs_view = disk" by (simp add: ramfs_view_def)
  have l: "length (concat (map2 log_record (log_times demo_served) [demo_entry, demo_entry])) \<le> file_room ramfs_view (fs demo_log1)"
    using demo_served(4) by (simp add: demo_served(3) demo_log1(3))
  from recorded_messages_reach_the_file [OF demo_port_ready(1) demo_port_facts(1,2,5) demo_entries demo_served(1)
      ram.file_system_axioms demo_log1(1,2) a refl l]
  show ?thesis by (simp add: o v demo_served(3))
qed

text \<open>
  C19. Once the log has been closed, by the command !save for instance, further recorded messages
  (at or above the logger's level and short enough for its line, as many as keep the count of writes
  since the last synchronisation at 100 or less) each reopen the file without synchronising it.
  FatFS enters what is written into the directory only when it synchronises or closes the file (the
  hypothesis late_directory, read from f_write and f_sync of ff.c, on top of what it documents), so
  after the next close, and when the task has caught up, the file holds only the last of them behind
  its old contents, although the medium works, has room and no message was refused; whether the
  scheduler runs, and at what times the messages are written, makes no difference.
\<close>

theorem recorded_messages_lost_after_save:
  assumes "usart_ready w" and "length (LoggerMaxBuffer w) = 128" and "\<not> mutex_held w" and "fatfs_requests w = []"
    and "\<forall>(lev, body)\<in>set ms. level (g_logger_info w) \<le> lev AND NOT LOG_RECORD \<and> log_fits lev body
           \<and> lev AND LOG_RECORD \<noteq> 0"
    and "log_requests ops = fatfs_requests (print_logs ms w) @ [Fatfs_Close]"
    and "late_directory api V u" and "fl_state v = FATFS_LOG_CLOSE" and "msg_buffer v = []" and "fs_works V (fs v)"
    and "on_disk V (fs v) (file_name v) = Some old" and "all_accepted api ops v"
    and "ms \<noteq> []" and "unat (w_times v) + length ms \<le> 100" and "lines = map2 log_record (log_times ops) ms"
    and "length (concat lines) + length ms * u \<le> file_room V (fs v)"
  shows "\<exists>v2. log_run api ops v = Some v2 \<and> (\<forall>n \<ge> length (msg_buffer v2).
      on_disk V (fs ((fatfs_log_task api ^^ n) v2)) (file_name v) = Some (old @ log_record (last (log_times ops)) (last ms)))"
proof -
  note p = print_logs_served [OF assms(1-6)]
  have d: "device_ops ops = map Dev_Write lines @ [Dev_Close]" unfolding assms(15) by (rule p(1))
  have l: "length lines = length ms" "lines \<noteq> []" using p(2) assms(13,15) by auto
  have "log_times ops \<noteq> []" using p(2) assms(13) by auto
  then have e: "last lines = log_record (last (log_times ops)) (last ms)"
    using assms(13) p(2) by (simp add: assms(15) last_map last_zip split_def)
  have c: "log_closed V (file_name v) old v" using assms(8,10,11) by (simp add: log_closed_def)
  show ?thesis
    using late_directory.fatfs_write_after_close_loses [OF assms(7) c assms(9) p(3) assms(12) d l(2)] assms(14,16)
    by (simp add: l(1) e)
qed

theorem recorded_messages_lost_after_save_witness:
  "\<exists>v2. log_run ramfs_api demo_served (demo_log\<lparr>fl_state := FATFS_LOG_CLOSE\<rparr>) = Some v2
      \<and> (\<forall>n \<ge> length (msg_buffer v2). disk (fs ((fatfs_log_task ramfs_api ^^ n) v2)) [7] =
          Some ([1] @ log_record (gRtcInfo demo_log) demo_entry))"
proof -
  let ?v = "demo_log\<lparr>fl_state := FATFS_LOG_CLOSE\<rparr>"
  have a: "all_accepted ramfs_api demo_served ?v" by (rule demo_served(2)) (simp add: log_waiting_def demo_log_def)
  have v: "msg_buffer ?v = []" "fs_works ramfs_view (fs ?v)" "on_disk ramfs_view (fs ?v) (file_name ?v) = Some [1]"
    "file_name ?v = [7]" "unat (w_times ?v) = 0" "file_room ramfs_view (fs ?v) = 1000" "on_disk ramfs_view = disk"
    by (simp_all add: demo_log_def ramfs_view_def)
  have l: "length (concat (map2 log_record (log_times demo_served) [demo_entry, demo_entry])) + length [demo_entry, demo_entry] * 0
      \<le> file_room ramfs_view (fs ?v)"
    using demo_served(4) unfolding v(6) by (simp add: demo_served(3))
  have t: "[demo_entry, demo_entry] \<noteq> []" "unat (w_times ?v) + length [demo_entry, demo_entry] \<le> 100"
    unfolding v(5) by simp_all
  have s: "fl_state ?v = FATFS_LOG_CLOSE" by simp
  from recorded_messages_lost_after_save [OF demo_port_ready(1) demo_port_facts(1,2,5) demo_entries demo_served(1)
      ram.late_directory_axioms s v(1-3) a t refl l]
  show ?thesis by (simp add: v(4,7) demo_served(3))
qed

end
